(* ===== verification/Prelude.thy ===== *)
theory Prelude
  imports Main "HOL-Library.Word" "HOL-Library.State_Monad"
begin

text \<open>
  What the components of the development share: the names of the machine types, the limits
  of the C++ integer types, short-circuit conditions over a state monad, little-endian
  fields, and the locales for the two contracts that recur in the code: a state machine
  with an invariant, and an enumeration with printed names.

  Integers.  Unsigned quantities the code only compares, adds under a guard and stores
  (addresses, sizes, sequence numbers, QPC ticks of type \<open>std::uint64_t\<close>) are \<open>nat\<close>; signed
  64-bit ticks are \<open>int\<close>; values the code takes apart by bits (flags, masks, IEEE floats,
  bytes) are words.  The limits below are the ones the guards of the code name.
\<close>

section \<open>Evaluation\<close>

text \<open>
  Weak congruences: with them the simplifier evaluates the scrutinee of a \<open>let\<close> or \<open>case\<close>
  before it looks at the branches, as the code does.
\<close>

lemmas eval_congs = let_weak_cong prod.case_cong_weak option.case_cong_weak sum.case_cong_weak
  list.case_cong_weak

section \<open>Machine types\<close>

type_synonym byte = "8 word"
type_synonym u32 = "32 word"
type_synonym u64 = "64 word"

abbreviation u64_max :: nat where "u64_max \<equiv> 18446744073709551615"
abbreviation u32_max :: nat where "u32_max \<equiv> 4294967295"
abbreviation i64_max_nat :: nat where "i64_max_nat \<equiv> 9223372036854775807"
abbreviation i64_max :: int where "i64_max \<equiv> 9223372036854775807"

lemma u64_max_eq: "u64_max = 2 ^ 64 - 1"
  by simp

lemma i64_max_eq: "i64_max = 2 ^ 63 - 1"
  by simp

section \<open>Collections of facts\<close>

named_theorems model_defs \<open>definitions of operations, unfolded together\<close>
named_theorems invs \<open>preservation of a component's invariant\<close>

section \<open>Bytes by exhaustion\<close>

lemma below_exhaust: "list_all P [0..<k] \<Longrightarrow> n < k \<Longrightarrow> P n"
  by (simp add: list_all_iff)

lemma byte_exhaust:
  fixes b :: byte
  assumes "list_all (\<lambda>n. P (word_of_nat n)) [0..<256]"
  shows "P b"
proof -
  have "unat b \<in> set [0..<256]" using unsigned_less [of b] by simp
  with assms have "P (word_of_nat (unat b))" unfolding list_all_iff by blast
  then show ?thesis by simp
qed

lemma char_exhaust:
  fixes c :: char
  assumes "list_all (\<lambda>n. P (char_of (n :: nat))) [0..<256]"
  shows "P c"
proof -
  have "(of_char c :: nat) \<in> set [0..<256]" by simp
  with assms have "P (char_of (of_char c :: nat))" unfolding list_all_iff by blast
  then show ?thesis by simp
qed

section \<open>Text as bytes\<close>

text \<open>A narrow string literal as the bytes the code compares with, without its terminator.\<close>

definition bytes_of :: "string \<Rightarrow> byte list" where
  "bytes_of s = map of_char s"

lemma length_bytes_of [simp]: "length (bytes_of s) = length s"
  by (simp add: bytes_of_def)

lemma unat_of_char: "unat (of_char c :: byte) = of_char c"
proof -
  have "(of_char c :: byte) = of_nat (of_char c)" by (simp only: of_nat_of_char)
  then have "unat (of_char c :: byte) = of_char c mod 2 ^ LENGTH(8)" by (simp only: unat_of_nat)
  then show ?thesis by simp
qed

lemma bytes_of_eq_iff: "bytes_of a = bytes_of b \<longleftrightarrow> a = b"
proof -
  have "inj (of_char :: char \<Rightarrow> byte)"
    by (rule injI) (metis unat_of_char of_char_eq_iff)
  then show ?thesis unfolding bytes_of_def by (simp add: inj_map_eq_map)
qed

definition printable :: "byte \<Rightarrow> bool" where
  "printable b \<longleftrightarrow> 0x20 \<le> b \<and> b \<le> 0x7e"

section \<open>Bits read as numbers\<close>

lemma unat_drop_bit_word: "unat (drop_bit s (w :: 'a :: len word)) = unat w div 2 ^ s"
proof -
  have "unat (drop_bit s w) = drop_bit s (take_bit LENGTH('a) (unat w))"
    by (simp add: unsigned_drop_bit_eq)
  then show ?thesis by (simp add: drop_bit_eq_div take_bit_nat_eq_self)
qed

lemma and_15_nat: "and (n :: nat) 15 = n mod 16"
proof -
  have "mask 4 = (15 :: nat)" by (simp add: mask_eq_exp_minus_1)
  then show ?thesis using take_bit_eq_mask [of 4 n] by (simp add: take_bit_eq_mod)
qed

lemma unat_and_15:
  fixes w :: "'a :: len word"
  assumes "4 \<le> LENGTH('a)"
  shows "unat (and w 15) = unat w mod 16"
proof -
  have "(15 :: 'a word) = mask 4" by (simp add: mask_eq_exp_minus_1)
  then have "and w 15 = take_bit 4 w" by (simp add: take_bit_eq_mask)
  then have "unat (and w 15) = take_bit 4 (unat w)" by (simp add: unsigned_take_bit_eq)
  then show ?thesis by (simp add: take_bit_eq_mod)
qed

lemma unat_ucast_byte: "unat (ucast w :: byte) = unat w mod 256"
proof -
  have "unat (ucast w :: byte) = take_bit 8 (unat w)"
    by (simp add: unsigned_ucast_eq unsigned_take_bit_eq)
  then show ?thesis by (simp add: take_bit_eq_mod)
qed

section \<open>Little-endian fields\<close>

text \<open>A field of a native structure is a little-endian run of bytes.\<close>

fun le_nat :: "byte list \<Rightarrow> nat" where
  "le_nat [] = 0"
| "le_nat (b # bs) = unat b + 256 * le_nat bs"

lemma le_nat_bound: "le_nat bs < 256 ^ length bs"
proof (induction bs)
  case Nil
  then show ?case by simp
next
  case (Cons b bs)
  have "unat b < 256" using unsigned_less [of b] by simp
  then show ?case using Cons by simp
qed

lemma le_nat_inj:
  "length xs = length ys \<Longrightarrow> le_nat xs = le_nat ys \<Longrightarrow> xs = ys"
proof (induction xs ys rule: list_induct2)
  case Nil
  then show ?case by simp
next
  case (Cons x xs y ys)
  have b: "unat x < 256" "unat y < 256" using unsigned_less [of x] unsigned_less [of y] by simp_all
  from Cons.prems have eq: "unat x + 256 * le_nat xs = unat y + 256 * le_nat ys" by simp
  then have "(unat x + 256 * le_nat xs) mod 256 = (unat y + 256 * le_nat ys) mod 256" by simp
  with b have "unat x = unat y" by simp
  with eq have "x = y" "le_nat xs = le_nat ys" by (auto simp: word_unat_eq_iff)
  with Cons.IH show ?case by simp
qed

text \<open>The same field written back, and the slice of a byte image a field occupies.\<close>

fun le_bytes :: "nat \<Rightarrow> nat \<Rightarrow> byte list" where
  "le_bytes 0 v = []"
| "le_bytes (Suc n) v = word_of_nat (v mod 256) # le_bytes n (v div 256)"

lemma length_le_bytes [simp]: "length (le_bytes n v) = n"
  by (induction n arbitrary: v) auto

lemma le_nat_le_bytes: "v < 256 ^ n \<Longrightarrow> le_nat (le_bytes n v) = v"
proof (induction n arbitrary: v)
  case 0
  then show ?case by simp
next
  case (Suc n)
  then have "v div 256 < 256 ^ n" by (simp add: less_mult_imp_div_less mult.commute)
  with Suc.IH show ?case by (simp add: unat_of_nat)
qed

definition slice :: "nat \<Rightarrow> nat \<Rightarrow> 'a list \<Rightarrow> 'a list" where
  "slice off n xs = take n (drop off xs)"

lemma length_slice [simp]: "off + n \<le> length xs \<Longrightarrow> length (slice off n xs) = n"
  by (simp add: slice_def)

definition splice :: "nat \<Rightarrow> 'a list \<Rightarrow> 'a list \<Rightarrow> 'a list" where
  "splice off ys xs = take off xs @ ys @ drop (off + length ys) xs"

lemma length_splice [simp]: "off + length ys \<le> length xs \<Longrightarrow> length (splice off ys xs) = length xs"
  by (simp add: splice_def)

lemma nth_splice:
  "off + length ys \<le> length xs \<Longrightarrow> i < length xs \<Longrightarrow>
   splice off ys xs ! i = (if off \<le> i \<and> i < off + length ys then ys ! (i - off) else xs ! i)"
  by (auto simp: splice_def nth_append nth_drop min_def)

section \<open>Conditions with effects\<close>

text \<open>
  A C++ condition \<open>a && b && c\<close> whose operands read the process or call back into the
  caller is evaluated left to right and stops at the first operand that fails; so is
  \<open>a || b\<close>.  The monad is the library's \<open>State_Monad\<close>.
\<close>

fun allM :: "('s, bool) state list \<Rightarrow> ('s, bool) state" where
  "allM [] = State_Monad.return True"
| "allM (m # ms) = do { b \<leftarrow> m; if b then allM ms else State_Monad.return False }"

definition orM :: "('s, bool) state \<Rightarrow> ('s, bool) state \<Rightarrow> ('s, bool) state" where
  "orM a b = do { x \<leftarrow> a; if x then State_Monad.return True else b }"

definition pureM :: "'a \<Rightarrow> ('s, 'a) state" where
  "pureM a = State_Monad.return a"

definition ignoreM :: "('s, 'a) state \<Rightarrow> ('s, bool) state" where
  "ignoreM m = do { _ \<leftarrow> m; State_Monad.return True }"

lemma run_pureM [simp]: "run_state (pureM a) s = (a, s)"
  by (simp add: pureM_def)

lemma run_orM: "run_state (orM a b) s =
  (case run_state a s of (x, s') \<Rightarrow> if x then (True, s') else run_state b s')"
  by (auto simp: orM_def split: prod.splits)

lemma allM_True_iff:
  "run_state (allM (m # ms)) s = (True, t) \<longleftrightarrow>
   (\<exists>s'. run_state m s = (True, s') \<and> run_state (allM ms) s' = (True, t))"
  by (auto split: prod.splits if_splits)

section \<open>Facts of every result\<close>

text \<open>A fact that every result of a program has, whatever world it runs in.\<close>

definition yields :: "('a \<Rightarrow> bool) \<Rightarrow> ('w, 'a) state \<Rightarrow> bool" where
  "yields P m \<longleftrightarrow> (\<forall>w. P (fst (run_state m w)))"

lemma yields_True: "yields (\<lambda>_. True) m"
  by (simp add: yields_def)

lemma yields_return: "P a \<Longrightarrow> yields P (State_Monad.return a)"
  by (simp add: yields_def)

lemma yields_conseq: "yields Q m \<Longrightarrow> (\<And>a. Q a \<Longrightarrow> P a) \<Longrightarrow> yields P m"
  by (simp add: yields_def)

lemma yields_bind:
  assumes "yields Q m" and "\<And>a. Q a \<Longrightarrow> yields P (f a)"
  shows "yields P (m \<bind> f)"
  unfolding yields_def
proof
  fix w
  obtain a w1 where r: "run_state m w = (a, w1)" by fastforce
  then have "Q a" using assms(1) by (metis fst_conv yields_def)
  with assms(2) r show "P (fst (run_state (m \<bind> f) w))" by (simp add: bind_def yields_def)
qed

lemma yields_if: "(c \<Longrightarrow> yields P a) \<Longrightarrow> (\<not> c \<Longrightarrow> yields P b) \<Longrightarrow> yields P (if c then a else b)"
  by simp

lemma yields_option:
  "(x = None \<Longrightarrow> yields P a) \<Longrightarrow> (\<And>y. x = Some y \<Longrightarrow> yields P (f y)) \<Longrightarrow> yields P (case_option a f x)"
  by (cases x) simp_all

lemma yields_case_prod:
  "(\<And>a b. p = (a, b) \<Longrightarrow> yields P (f a b)) \<Longrightarrow> yields P (case_prod f p)"
  by (cases p) simp

section \<open>State machines with an invariant\<close>

text \<open>
  Every stateful component of the program is a state, a deterministic operation per event,
  and a well-formedness invariant each operation keeps.  The client lemma is that a run of
  any length keeps it, and that a fact kept by each step under the invariant is kept by
  the run.
\<close>

locale machine =
  fixes step :: "'s \<Rightarrow> 'e \<Rightarrow> 's"
    and inv :: "'s \<Rightarrow> bool"
    and ok :: "'e \<Rightarrow> bool"
  assumes inv_step: "inv s \<Longrightarrow> ok e \<Longrightarrow> inv (step s e)"
begin

lemma inv_run: "inv s \<Longrightarrow> list_all ok es \<Longrightarrow> inv (foldl step s es)"
  by (induction es arbitrary: s) (auto intro: inv_step)

lemma run_keeps:
  assumes "\<And>s e. inv s \<Longrightarrow> ok e \<Longrightarrow> P s \<Longrightarrow> P (step s e)"
  shows "inv s \<Longrightarrow> list_all ok es \<Longrightarrow> P s \<Longrightarrow> P (foldl step s es)"
proof (induction es arbitrary: s)
  case Nil
  then show ?case by simp
next
  case (Cons e es)
  then show ?case using assms inv_step by simp
qed

lemma run_monotone:
  assumes "\<And>s e. inv s \<Longrightarrow> ok e \<Longrightarrow> f s \<le> (f (step s e) :: 'o :: order)"
  shows "inv s \<Longrightarrow> list_all ok es \<Longrightarrow> f s \<le> f (foldl step s es)"
proof (induction es arbitrary: s)
  case Nil
  then show ?case by simp
next
  case (Cons e es)
  then have e: "inv s" "ok e" and es: "list_all ok es" by simp_all
  have "f s \<le> f (step s e)" using e by (rule assms)
  also have "\<dots> \<le> f (foldl step (step s e) es)"
    using Cons.IH [OF inv_step [OF e] es] .
  finally show ?case by simp
qed

end

section \<open>Enumerations with printed names\<close>

text \<open>
  The code prints every enumeration through a name function with a fallback for a value
  outside it.  The contract of such a function is that the names of the listed values are
  pairwise different, so that a log reader can recover the value.
\<close>

locale enum_names =
  fixes vals :: "'a list"
    and name :: "'a \<Rightarrow> string"
  assumes names_distinct: "distinct (map name vals)"
    and names_total: "x \<in> set vals"
begin

lemma name_inj: "inj name"
proof (rule injI)
  fix x y
  assume "name x = name y"
  then show "x = y"
    using names_distinct names_total [of x] names_total [of y]
    by (auto simp: distinct_map inj_on_def)
qed

lemma find_name: "find (\<lambda>y. name y = name x) vals = Some x"
proof -
  obtain y where y: "find (\<lambda>y. name y = name x) vals = Some y"
    using names_total [of x] by (cases "find (\<lambda>y. name y = name x) vals") (auto simp: find_None_iff)
  then have "name y = name x" by (auto simp: find_Some_iff)
  with name_inj y show ?thesis by (auto dest: injD)
qed

end

end
