(* ===== verification/Types.thy ===== *)
theory Types
  imports Prelude
begin

text \<open>
  The vocabulary of the reporting component (\<open>src/companion/steam_reporting_types.h\<close> and
  \<open>.cpp\<close>): configured mode, the reason of every refusal, the caller classes of a captured
  stack, the native counts, the fixed limits, and the printed names.
\<close>

section \<open>Modes, diagnostics, caller classes\<close>

datatype Mode = Mode_Invalid | Mode_Disabled | Mode_Observe | Mode_Repair

datatype Diagnostics = Diag_Invalid | Diag_Normal | Diag_Detailed | Diag_Operational

datatype CallerClass =
    Caller_Unknown | Caller_NormalPump | Caller_NormalBuilder | Caller_KnownSpin
  | Caller_ShutdownDrain | Caller_Truncated

record Config =
  cfg_mode :: Mode

record ConfigV3 =
  v3_mode :: Mode
  v3_diagnostics :: Diagnostics

text \<open>The values a zero-initialised structure holds (\<open>{}\<close>).\<close>

definition Config_zero :: Config where
  "Config_zero = \<lparr>cfg_mode = Mode_Invalid\<rparr>"

definition ConfigV3_zero :: ConfigV3 where
  "ConfigV3_zero = \<lparr>v3_mode = Mode_Invalid, v3_diagnostics = Diag_Invalid\<rparr>"

section \<open>Reasons\<close>

datatype (plugins only: code size) Reason =
    R_None | R_ConfigMissing | R_ConfigDisabled | R_ConfigInvalid
    | R_ObserverRequired | R_ReconIneligible | R_HostMismatch | R_SdkMismatch
    | R_SteamClientMismatch | R_ProfileMismatch | R_PreparationFailed | R_IdentityIncomplete
    | R_ClockFailed | R_CounterOverflow | R_ForeignThread | R_UnknownAncestry
    | R_TruncatedStack | R_Reentry | R_LifecycleCrossing | R_InitFailed
    | R_UnsupportedReinit | R_Stopping | R_SourceUnavailable | R_SourceLifetime
    | R_SourceClass | R_WorldNotReady | R_Travel | R_UnsupportedCounts
    | R_WrapperMismatch | R_ProxyUnavailable | R_Unregistered | R_PublicIpUnavailable
    | R_Pending | R_RequestFloor | R_ProducerAmbiguous | R_FreshnessExpired
    | R_TaskNotReady | R_TaskAmbiguous | R_TaskMismatch | R_HolderMismatch
    | R_TaskReused | R_BuilderChanged | R_InstallFailed | R_PostcheckFailed
    | R_StrandedWrapper | R_PreparedUnavailable | R_PreparedMalformed | R_PreparedLimit
    | R_PreparedMismatch | R_NativeBackoff | R_KnownSpin | R_NativeUnwind
    | R_WriteFault | R_RecordLoss | R_WriterFailed | R_LogLimit
    | R_StatusUnavailable | R_SpectatorsPresent | R_CapacityMismatch

text \<open>The enumerators in the order of the declaration; the position is the value.\<close>

definition Reason_values :: "Reason list" where
  "Reason_values =
    [R_None, R_ConfigMissing, R_ConfigDisabled, R_ConfigInvalid,
     R_ObserverRequired, R_ReconIneligible, R_HostMismatch, R_SdkMismatch,
     R_SteamClientMismatch, R_ProfileMismatch, R_PreparationFailed, R_IdentityIncomplete,
     R_ClockFailed, R_CounterOverflow, R_ForeignThread, R_UnknownAncestry,
     R_TruncatedStack, R_Reentry, R_LifecycleCrossing, R_InitFailed,
     R_UnsupportedReinit, R_Stopping, R_SourceUnavailable, R_SourceLifetime,
     R_SourceClass, R_WorldNotReady, R_Travel, R_UnsupportedCounts,
     R_WrapperMismatch, R_ProxyUnavailable, R_Unregistered, R_PublicIpUnavailable,
     R_Pending, R_RequestFloor, R_ProducerAmbiguous, R_FreshnessExpired,
     R_TaskNotReady, R_TaskAmbiguous, R_TaskMismatch, R_HolderMismatch,
     R_TaskReused, R_BuilderChanged, R_InstallFailed, R_PostcheckFailed,
     R_StrandedWrapper, R_PreparedUnavailable, R_PreparedMalformed, R_PreparedLimit,
     R_PreparedMismatch, R_NativeBackoff, R_KnownSpin, R_NativeUnwind,
     R_WriteFault, R_RecordLoss, R_WriterFailed, R_LogLimit,
     R_StatusUnavailable, R_SpectatorsPresent, R_CapacityMismatch]"

definition kReasonCount :: nat where
  "kReasonCount = 59"

definition Reason_index :: "Reason \<Rightarrow> nat" where
  "Reason_index r = length (takeWhile (\<lambda>x. x \<noteq> r) Reason_values)"

section \<open>Names\<close>

fun ModeName :: "Mode \<Rightarrow> string" where
  "ModeName Mode_Disabled = ''disabled''"
| "ModeName Mode_Observe = ''observe''"
| "ModeName Mode_Repair = ''repair''"
| "ModeName Mode_Invalid = ''invalid''"

fun DiagnosticsName :: "Diagnostics \<Rightarrow> string" where
  "DiagnosticsName Diag_Normal = ''normal''"
| "DiagnosticsName Diag_Detailed = ''detailed''"
| "DiagnosticsName Diag_Operational = ''operational''"
| "DiagnosticsName Diag_Invalid = ''invalid''"

definition ReasonName_table :: "string list" where
  "ReasonName_table =
    [''none'', ''config-missing'', ''config-disabled'', ''config-invalid'',
     ''observer-required'', ''recon-ineligible'', ''host-mismatch'', ''sdk-mismatch'',
     ''steamclient-mismatch'', ''profile-mismatch'', ''preparation-failed'', ''identity-incomplete'',
     ''clock-failed'', ''counter-overflow'', ''foreign-thread'', ''unknown-ancestry'',
     ''truncated-stack'', ''reentry'', ''lifecycle-crossing'', ''init-failed'',
     ''unsupported-reinit'', ''stopping'', ''source-unavailable'', ''source-lifetime'',
     ''source-class'', ''world-not-ready'', ''travel'', ''unsupported-counts'',
     ''wrapper-mismatch'', ''proxy-unavailable'', ''unregistered'', ''public-ip-unavailable'',
     ''pending'', ''request-floor'', ''producer-ambiguous'', ''freshness-expired'',
     ''task-not-ready'', ''task-ambiguous'', ''task-mismatch'', ''holder-mismatch'',
     ''task-reused'', ''builder-changed'', ''install-failed'', ''postcheck-failed'',
     ''stranded-wrapper'', ''prepared-unavailable'', ''prepared-malformed'', ''prepared-limit'',
     ''prepared-mismatch'', ''native-backoff'', ''known-spin'', ''native-unwind'',
     ''write-fault'', ''record-loss'', ''writer-failed'', ''log-limit'',
     ''status-unavailable'', ''spectators-present'', ''capacity-mismatch'']"

text \<open>The function takes any value of the underlying type; past the table it has a fallback.\<close>

definition ReasonName_at :: "nat \<Rightarrow> string" where
  "ReasonName_at i = (if i < kReasonCount then ReasonName_table ! i else ''invalid-reason'')"

definition ReasonName :: "Reason \<Rightarrow> string" where
  "ReasonName r = ReasonName_at (Reason_index r)"

section \<open>Native counts and limits\<close>

text \<open>
  The player count the engine advertises (\<open>pi\<close>) is not humans plus bots and may exceed the
  maximum, so no relation between the three is assumed.
\<close>

record NativeCounts =
  pi :: nat
  bots :: nat
  maximum :: nat

definition NativeCounts_zero :: NativeCounts where
  "NativeCounts_zero = \<lparr>pi = 0, bots = 0, maximum = 0\<rparr>"

definition EqualCounts :: "NativeCounts \<Rightarrow> NativeCounts \<Rightarrow> bool" where
  "EqualCounts a b \<longleftrightarrow> pi a = pi b \<and> bots a = bots b \<and> maximum a = maximum b"

lemma EqualCounts_iff: "EqualCounts a b \<longleftrightarrow> a = b"
  by (auto simp: EqualCounts_def)

definition kConfigBytes :: nat where "kConfigBytes = 4096"
definition kJsonBytes :: nat where "kJsonBytes = 65536"
definition kJsonDepth :: nat where "kJsonDepth = 16"
definition kJsonTokens :: nat where "kJsonTokens = 8192"
definition kCaptureFrames :: nat where "kCaptureFrames = 32"
definition kTaskSlots :: nat where "kTaskSlots = 128"
definition kRequestFloorSeconds :: int where "kRequestFloorSeconds = 20"
definition kFreshnessSeconds :: int where "kFreshnessSeconds = 45"

section \<open>Facts about the vocabulary\<close>

lemma length_Reason_values: "length Reason_values = kReasonCount"
  by (simp add: Reason_values_def kReasonCount_def)

lemma length_ReasonName_table: "length ReasonName_table = kReasonCount"
  by (simp add: ReasonName_table_def kReasonCount_def)

lemma distinct_Reason_values: "distinct Reason_values"
  unfolding Reason_values_def by simp

lemma Reason_values_total: "r \<in> set Reason_values"
  by (cases r) (simp_all add: Reason_values_def)

lemma Reason_index_nth: "i < kReasonCount \<Longrightarrow> Reason_index (Reason_values ! i) = i"
proof -
  assume i: "i < kReasonCount"
  then have len: "i < length Reason_values" by (simp add: length_Reason_values)
  have "takeWhile (\<lambda>x. x \<noteq> Reason_values ! i) Reason_values = take i Reason_values"
    by (rule takeWhile_eq_take_P_nth)
      (use len distinct_Reason_values in \<open>auto simp: nth_eq_iff_index_eq\<close>)
  with len show ?thesis by (simp add: Reason_index_def)
qed

lemma nth_Reason_index: "Reason_index r < kReasonCount \<and> Reason_values ! Reason_index r = r"
proof -
  obtain i where i: "i < length Reason_values" "Reason_values ! i = r"
    using Reason_values_total [of r] by (auto simp: in_set_conv_nth)
  then have "Reason_index r = i" using Reason_index_nth [of i] by (simp add: length_Reason_values)
  with i show ?thesis by (simp add: length_Reason_values)
qed

lemma inj_Reason_index: "inj Reason_index"
  by (rule injI) (metis nth_Reason_index)

lemma ReasonNames_in_order: "map ReasonName Reason_values = ReasonName_table"
  by (rule nth_equalityI)
    (simp_all add: length_Reason_values length_ReasonName_table ReasonName_def ReasonName_at_def
      Reason_index_nth)

interpretation mode_names: enum_names
  "[Mode_Invalid, Mode_Disabled, Mode_Observe, Mode_Repair]" ModeName
proof unfold_locales
  show "x \<in> set [Mode_Invalid, Mode_Disabled, Mode_Observe, Mode_Repair]" for x
    by (cases x) simp_all
qed simp

interpretation diagnostics_names: enum_names
  "[Diag_Invalid, Diag_Normal, Diag_Detailed, Diag_Operational]" DiagnosticsName
proof unfold_locales
  show "x \<in> set [Diag_Invalid, Diag_Normal, Diag_Detailed, Diag_Operational]" for x
    by (cases x) simp_all
qed simp

lemma distinct_ReasonName_table: "distinct ReasonName_table"
  unfolding ReasonName_table_def by simp

interpretation reason_names: enum_names Reason_values ReasonName
  by unfold_locales (simp_all add: ReasonNames_in_order distinct_ReasonName_table Reason_values_total)

end
