(* ===== verification/Digest.thy ===== *)
theory Digest
  imports Prelude "HOL-Library.Char_ord"
begin

text \<open>
  Upper-case hexadecimal SHA-256 digests (\<open>src/shared/digest.cpp\<close>): the parser of a
  64-character digest and its formatter, with the round trip in both directions.
\<close>

text \<open>
  \<open>value == 16\<close> is the code's mark for a character that is no upper-case hex digit.
\<close>

definition hex_upper_value :: "char \<Rightarrow> nat" where
  "hex_upper_value c =
     (let n = of_char c :: nat in
      if 48 \<le> n \<and> n \<le> 57 then n - 48 else if 65 \<le> n \<and> n \<le> 70 then n - 65 + 10 else 16)"

definition hex_upper_digits :: string where
  "hex_upper_digits = ''0123456789ABCDEF''"

text \<open>
  The loop writes \<open>parsed[i / 2] = (parsed[i / 2] << 4) | value\<close> for each character; the array
  starts zeroed and the store keeps the low byte.
\<close>

definition digest_shift_in :: "byte \<Rightarrow> nat \<Rightarrow> byte" where
  "digest_shift_in b v = or (push_bit 4 b) (word_of_nat v)"

fun parse_digest_loop :: "string \<Rightarrow> nat \<Rightarrow> byte list \<Rightarrow> byte list option" where
  "parse_digest_loop [] i parsed = Some parsed"
| "parse_digest_loop (c # cs) i parsed =
     (if hex_upper_value c = 16 then None
      else parse_digest_loop cs (Suc i)
             (parsed[i div 2 := digest_shift_in (parsed ! (i div 2)) (hex_upper_value c)]))"

definition ParseSha256Upper :: "string \<Rightarrow> byte list option" where
  "ParseSha256Upper text =
     (if length text \<noteq> 64 then None else parse_digest_loop text 0 (replicate 32 0))"

text \<open>The formatter leaves the 65th element, the terminator, zero.\<close>

definition FormatSha256Upper :: "byte list \<Rightarrow> char list" where
  "FormatSha256Upper digest =
     concat (map (\<lambda>b. [hex_upper_digits ! unat (drop_bit 4 b), hex_upper_digits ! unat (and b 15)]) digest)
     @ [CHR 0x00]"

section \<open>The parser two characters at a time\<close>

lemma of_char_hex_upper_digit:
  assumes "n < 16"
  shows "(of_char (hex_upper_digits ! n) :: nat) = (if n < 10 then 48 + n else 55 + n)"
proof -
  have "map of_char hex_upper_digits = map (\<lambda>n. if n < 10 then 48 + n else 55 + n :: nat) [0..<16]"
    by (simp add: hex_upper_digits_def upt_rec)
  then have "map of_char hex_upper_digits ! n = (if n < 10 then 48 + n else 55 + n :: nat)"
    using assms by simp
  moreover have "n < length hex_upper_digits" using assms by (simp add: hex_upper_digits_def)
  ultimately show ?thesis by simp
qed

lemma hex_upper_digit_value:
  "n < 16 \<Longrightarrow> hex_upper_value (hex_upper_digits ! n) = n"
  by (simp add: hex_upper_value_def of_char_hex_upper_digit Let_def)

lemma hex_upper_value_digit:
  assumes "hex_upper_value c \<noteq> 16"
  shows "hex_upper_value c < 16" and "hex_upper_digits ! hex_upper_value c = c"
proof -
  let ?n = "of_char c :: nat" and ?v = "hex_upper_value c"
  from assms have n: "?v < 16" "?n = (if ?v < 10 then 48 + ?v else 55 + ?v)"
    by (auto simp: hex_upper_value_def Let_def split: if_splits)
  then have "of_char (hex_upper_digits ! ?v) = ?n" by (simp only: of_char_hex_upper_digit)
  then show "hex_upper_digits ! ?v = c" by (simp only: of_char_eq_iff)
  show "?v < 16" by (rule n)
qed

lemma digest_nibbles:
  "digest_shift_in (digest_shift_in 0 (unat (drop_bit 4 b))) (unat (and b 15)) = b"
  by (induct b rule: byte_exhaust) code_simp

lemma nibbles_bound: "unat (drop_bit 4 (b :: byte)) < 16 \<and> unat (and b 15) < 16"
proof -
  have "unat b < 256" using unsigned_less[of b] by simp
  then show ?thesis by (simp add: unat_drop_bit_word unat_and_15 less_mult_imp_div_less)
qed

section \<open>Round trip\<close>

definition hex_pair :: "byte \<Rightarrow> string" where
  "hex_pair b = [hex_upper_digits ! unat (drop_bit 4 b), hex_upper_digits ! unat (and b 15)]"

lemma Format_hex_pairs: "FormatSha256Upper d = concat (map hex_pair d) @ [CHR 0x00]"
  by (simp add: FormatSha256Upper_def hex_pair_def [abs_def])

lemma length_hex_pairs [simp]: "length (concat (map hex_pair d)) = 2 * length d"
  by (induction d) (simp_all add: hex_pair_def)

lemma parse_hex_pair:
  "parse_digest_loop (hex_pair b @ cs) (2 * length pre) (pre @ 0 # rest) =
   parse_digest_loop cs (2 * length (pre @ [b])) ((pre @ [b]) @ rest)"
proof -
  have v: "hex_upper_value (hex_upper_digits ! unat (drop_bit 4 b)) = unat (drop_bit 4 b)"
    "hex_upper_value (hex_upper_digits ! unat (and b 15)) = unat (and b 15)"
    using nibbles_bound [of b] by (simp_all add: hex_upper_digit_value)
  have "unat (drop_bit 4 b) \<noteq> 16" "unat (and b 15) \<noteq> 16"
    using nibbles_bound [of b] by simp_all
  then show ?thesis
    by (simp add: hex_pair_def v nth_append list_update_append digest_nibbles)
qed

lemma parse_hex_pairs:
  "parse_digest_loop (concat (map hex_pair ds)) (2 * length pre) (pre @ replicate (length ds) 0)
   = Some (pre @ ds)"
proof (induction ds arbitrary: pre)
  case Nil
  then show ?case by simp
next
  case (Cons b ds)
  show ?case using Cons.IH [of "pre @ [b]"] by (simp add: parse_hex_pair)
qed

lemma nibble_pair:
  assumes "i < 16" "j < 16"
  shows "hex_pair (digest_shift_in (digest_shift_in 0 i) j) = [hex_upper_digits ! i, hex_upper_digits ! j]"
proof -
  have "list_all (\<lambda>i. list_all (\<lambda>j. hex_pair (digest_shift_in (digest_shift_in 0 i) j) =
      [hex_upper_digits ! i, hex_upper_digits ! j]) [0..<16]) [0..<16]"
    by code_simp
  then show ?thesis using assms by (simp add: list_all_iff)
qed

lemma valid_hex_pairs:
  "length t = 2 * n \<Longrightarrow> \<forall>c \<in> set t. hex_upper_value c \<noteq> 16 \<Longrightarrow>
   \<exists>ds. length ds = n \<and> t = concat (map hex_pair ds)"
proof (induction n arbitrary: t)
  case 0
  then show ?case by simp
next
  case (Suc n)
  then obtain a b u where t: "t = a # b # u" by (cases t; cases "tl t") auto
  with Suc obtain ds where ds: "length ds = n" "u = concat (map hex_pair ds)" by fastforce
  let ?x = "digest_shift_in (digest_shift_in 0 (hex_upper_value a)) (hex_upper_value b)"
  from Suc.prems t have "hex_pair ?x = [a, b]"
    by (simp add: nibble_pair hex_upper_value_digit)
  with ds t have "length (?x # ds) = Suc n \<and> t = concat (map hex_pair (?x # ds))" by simp
  then show ?case by blast
qed

lemma parse_Some_valid: "parse_digest_loop t i p = Some d \<Longrightarrow> \<forall>c \<in> set t. hex_upper_value c \<noteq> 16"
  by (induction t i p rule: parse_digest_loop.induct) (auto split: if_splits)

lemma Parse_hex_pairs: "length d = 32 \<Longrightarrow> ParseSha256Upper (concat (map hex_pair d)) = Some d"
  using parse_hex_pairs [of d "[]"] by (simp add: ParseSha256Upper_def)

text \<open>
  C25: Formatting a SHA-256 digest and parsing it again. The formatter writes 64 characters
  and a terminator, and the parser maps the 64 characters back to the same 32 bytes.
\<close>

theorem digest_format_parse:
  assumes "length d = 32"
  shows "length (FormatSha256Upper d) = 65 \<and> FormatSha256Upper d ! 64 = CHR 0x00 \<and>
    ParseSha256Upper (take 64 (FormatSha256Upper d)) = Some d"
  using assms by (simp add: Format_hex_pairs nth_append Parse_hex_pairs)

lemma digest_format_parse_witness:
  "ParseSha256Upper (take 64 (FormatSha256Upper (replicate 32 171))) = Some (replicate 32 171)"
  using digest_format_parse [of "replicate 32 171"] by simp

text \<open>
  The parser accepts canonical text only. Whatever it accepts is 64 upper-case
  hexadecimal characters, it yields 32 bytes, and formatting those bytes gives the text back.
\<close>

lemma digest_parse_format:
  assumes "ParseSha256Upper t = Some d"
  shows "length d = 32 \<and> FormatSha256Upper d = t @ [CHR 0x00]"
proof -
  from assms have len: "length t = 64" and p: "parse_digest_loop t 0 (replicate 32 0) = Some d"
    by (simp_all add: ParseSha256Upper_def split: if_splits)
  then obtain ds where ds: "length ds = 32" "t = concat (map hex_pair ds)"
    using valid_hex_pairs [of t 32] parse_Some_valid by force
  with Parse_hex_pairs [of ds] assms show ?thesis by (simp add: Format_hex_pairs)
qed

lemma digest_parse_format_witness:
  "FormatSha256Upper (replicate 32 171) = concat (replicate 32 ''AB'') @ [CHR 0x00]"
proof -
  have "ParseSha256Upper (concat (replicate 32 ''AB'')) = Some (replicate 32 171)"
    by code_simp
  then show ?thesis using digest_parse_format by blast
qed

end
