(* ===== verification/Producer.thy ===== *)
theory Producer
  imports Types
begin

text \<open>
  The producer tracker of the reporting component (\<open>src/companion/steam_reporting_state.h\<close>
  and \<open>.cpp\<close>): it owns the claims the library makes about a count request it has staged in
  the game and about the fresh tuple the game's own timer then produced.  The tracker
  proves nothing about native memory; it decides, from samples taken by the caller, when a
  request may be staged, when a staged request was consumed, and how long the consumed
  tuple may be used.

  Ticks are signed 64-bit and modelled as \<open>int\<close>; the invariant below bounds every
  intermediate product, so the unbounded arithmetic is the machine's.
\<close>

section \<open>IEEE single precision\<close>

text \<open>
  The native timer is a \<open>float\<close>.  It is kept as its 32 bits, with the two tests the code
  performs: finiteness, and the ordered comparison, which is false when either side is a
  NaN and identifies the two zeros.
\<close>

definition f32_exponent :: "u32 \<Rightarrow> nat" where
  "f32_exponent w = unat (and (drop_bit 23 w) 255)"

definition f32_fraction :: "u32 \<Rightarrow> nat" where
  "f32_fraction w = unat (and w 8388607)"

definition f32_isfinite :: "u32 \<Rightarrow> bool" where
  "f32_isfinite w \<longleftrightarrow> f32_exponent w \<noteq> 255"

definition f32_isnan :: "u32 \<Rightarrow> bool" where
  "f32_isnan w \<longleftrightarrow> f32_exponent w = 255 \<and> f32_fraction w \<noteq> 0"

definition f32_order :: "u32 \<Rightarrow> int" where
  "f32_order w = (if bit w 31 then - int (unat (and w 2147483647)) else int (unat w))"

definition f32_ge :: "u32 \<Rightarrow> u32 \<Rightarrow> bool" where
  "f32_ge a b \<longleftrightarrow> \<not> f32_isnan a \<and> \<not> f32_isnan b \<and> f32_order b \<le> f32_order a"

section \<open>State\<close>

record ProducerSample =
  ps_qpc :: int
  ps_outer :: NativeCounts
  ps_gameBots :: nat
  ps_timer :: u32
  ps_requested :: bool
  ps_dirty :: bool

record PendingRequest =
  pr_sequence :: nat
  pr_sourceEpoch :: nat
  pr_bindingEpoch :: nat
  pr_stagedQpc :: int
  pr_previousSetQpc :: int
  pr_bots :: nat
  pr_maximum :: nat
  pr_previousTimer :: u32
  pr_active :: bool
  pr_previousSet :: bool

record FreshTuple =
  ft_counts :: NativeCounts
  ft_witness :: nat
  ft_request :: nat
  ft_sourceEpoch :: nat
  ft_bindingEpoch :: nat
  ft_lowerBoundQpc :: int
  ft_valid :: bool

record ProducerState =
  mode :: Mode
  fault :: Reason
  frequency :: int
  lastQpc :: int
  lastRequestQpc :: int
  sourceEpoch :: nat
  bindingEpoch :: nat
  requestSequence :: nat
  witnessSequence :: nat
  haveClock :: bool
  haveRequest :: bool
  epochReady :: bool
  pending :: PendingRequest
  fresh :: FreshTuple

definition PendingRequest_zero :: PendingRequest where
  "PendingRequest_zero = \<lparr>pr_sequence = 0, pr_sourceEpoch = 0, pr_bindingEpoch = 0,
     pr_stagedQpc = 0, pr_previousSetQpc = 0, pr_bots = 0, pr_maximum = 0,
     pr_previousTimer = 0, pr_active = False, pr_previousSet = False\<rparr>"

definition FreshTuple_zero :: FreshTuple where
  "FreshTuple_zero = \<lparr>ft_counts = NativeCounts_zero, ft_witness = 0, ft_request = 0,
     ft_sourceEpoch = 0, ft_bindingEpoch = 0, ft_lowerBoundQpc = 0, ft_valid = False\<rparr>"

definition ProducerState_zero :: ProducerState where
  "ProducerState_zero = \<lparr>mode = Mode_Invalid, fault = R_None, frequency = 0, lastQpc = 0,
     lastRequestQpc = 0, sourceEpoch = 0, bindingEpoch = 0, requestSequence = 0,
     witnessSequence = 0, haveClock = False, haveRequest = False, epochReady = False,
     pending = PendingRequest_zero, fresh = FreshTuple_zero\<rparr>"

section \<open>Helpers\<close>

text \<open>The first fault latches; every claim is dropped.\<close>

definition Fault :: "ProducerState \<Rightarrow> Reason \<Rightarrow> Reason \<times> ProducerState" where
  "Fault s reason =
     (let s' = s\<lparr>fault := (if fault s = R_None then reason else fault s),
                 pending := PendingRequest_zero, fresh := FreshTuple_zero\<rparr>
      in (fault s', s'))"

definition Clock :: "ProducerState \<Rightarrow> int \<Rightarrow> Reason \<times> ProducerState" where
  "Clock s now =
     (if fault s \<noteq> R_None then (fault s, s)
      else if frequency s \<le> 0 \<or> now < 0 \<or> (haveClock s \<and> now < lastQpc s)
        then Fault s R_ClockFailed
      else (R_None, s\<lparr>lastQpc := now, haveClock := True\<rparr>))"

definition Timer :: "u32 \<Rightarrow> bool" where
  "Timer value \<longleftrightarrow> f32_isfinite value \<and> f32_ge value 0"

definition ExpirePending :: "ProducerState \<Rightarrow> int \<Rightarrow> ProducerState" where
  "ExpirePending s now =
     (if pr_active (pending s) \<and>
         now - pr_stagedQpc (pending s) \<ge> frequency s * kFreshnessSeconds
      then s\<lparr>pending := PendingRequest_zero\<rparr> else s)"

definition Supported :: "NativeCounts \<Rightarrow> nat \<Rightarrow> bool" where
  "Supported counts b \<longleftrightarrow> maximum counts \<le> 255 \<and> b \<le> maximum counts \<and> bots counts \<le> maximum counts"

section \<open>Operations\<close>

definition InitializeProducer :: "Mode \<Rightarrow> int \<Rightarrow> Reason \<times> ProducerState" where
  "InitializeProducer m freq =
     (let s = ProducerState_zero\<lparr>mode := m\<rparr> in
      if freq \<le> 0 \<or> freq > i64_max div kFreshnessSeconds then Fault s R_ClockFailed
      else let s = s\<lparr>frequency := freq\<rparr> in
        if m \<noteq> Mode_Observe \<and> m \<noteq> Mode_Repair then Fault s R_ConfigDisabled
        else (R_None, s))"

definition InvalidateProducer :: "ProducerState \<Rightarrow> ProducerState" where
  "InvalidateProducer s =
     s\<lparr>pending := PendingRequest_zero, fresh := FreshTuple_zero, epochReady := False\<rparr>"

definition SetProducerEpoch :: "ProducerState \<Rightarrow> nat \<Rightarrow> nat \<Rightarrow> Reason \<times> ProducerState" where
  "SetProducerEpoch s source binding =
     (if fault s \<noteq> R_None then (fault s, s)
      else if source = 0 \<or> binding = 0 then (R_SourceUnavailable, InvalidateProducer s)
      else if source < sourceEpoch s \<or> binding < bindingEpoch s then Fault s R_LifecycleCrossing
      else let s = (if source \<noteq> sourceEpoch s \<or> binding \<noteq> bindingEpoch s
                    then InvalidateProducer s else s)
        in (R_None, s\<lparr>sourceEpoch := source, bindingEpoch := binding, epochReady := True\<rparr>))"

definition CanStageRequest :: "ProducerState \<Rightarrow> int \<Rightarrow> Reason \<times> ProducerState" where
  "CanStageRequest s now =
     (case Clock s now of (clock, s) \<Rightarrow>
       if clock \<noteq> R_None then (clock, s)
       else if mode s \<noteq> Mode_Repair then (R_ConfigDisabled, s)
       else if \<not> epochReady s \<or> sourceEpoch s = 0 \<or> bindingEpoch s = 0
         then (R_SourceUnavailable, s)
       else let s = ExpirePending s now in
         if pr_active (pending s) then (R_Pending, s)
         else if haveRequest s \<and> now - lastRequestQpc s < frequency s * kRequestFloorSeconds
           then (R_RequestFloor, s)
         else if requestSequence s = u64_max then Fault s R_CounterOverflow
         else (R_None, s))"

definition RecordStagedRequest ::
  "ProducerState \<Rightarrow> int \<Rightarrow> nat \<Rightarrow> nat \<Rightarrow> ProducerSample \<Rightarrow> bool \<Rightarrow> Reason \<times> ProducerState" where
  "RecordStagedRequest s stagedQpc b maxi readBack readBackValid =
     (case CanStageRequest s stagedQpc of (admission, s) \<Rightarrow>
       if admission \<noteq> R_None then (admission, s)
       else if maxi > 255 \<or> b > maxi then Fault s R_UnsupportedCounts
       else
         let s = s\<lparr>haveRequest := True, lastRequestQpc := stagedQpc,
                   requestSequence := requestSequence s + 1\<rparr>;
             s = s\<lparr>pending := PendingRequest_zero\<lparr>pr_active := True,
                   pr_sequence := requestSequence s, pr_sourceEpoch := sourceEpoch s,
                   pr_bindingEpoch := bindingEpoch s, pr_stagedQpc := stagedQpc,
                   pr_bots := b, pr_maximum := maxi\<rparr>\<rparr>
         in case Clock s (ps_qpc readBack) of (clock, s) \<Rightarrow>
           if clock \<noteq> R_None then (clock, s)
           else let s = ExpirePending s (ps_qpc readBack) in
             if \<not> pr_active (pending s) then (R_FreshnessExpired, s)
             else if \<not> readBackValid \<or> \<not> ps_requested readBack \<or> \<not> Timer (ps_timer readBack)
               then (R_ProducerAmbiguous, s)
             else (R_None, s\<lparr>pending := (pending s)\<lparr>pr_previousSet := True,
                     pr_previousSetQpc := ps_qpc readBack,
                     pr_previousTimer := ps_timer readBack\<rparr>\<rparr>))"

definition ObserveProducer :: "ProducerState \<Rightarrow> ProducerSample \<Rightarrow> Reason \<times> ProducerState" where
  "ObserveProducer s sample =
     (case Clock s (ps_qpc sample) of (clock, s) \<Rightarrow>
       if clock \<noteq> R_None then (clock, s)
       else
         let hadPending = pr_active (pending s); s = ExpirePending s (ps_qpc sample) in
         if \<not> pr_active (pending s)
           then (if hadPending then R_FreshnessExpired else R_None, s)
         else if pr_sourceEpoch (pending s) \<noteq> sourceEpoch s \<or>
                 pr_bindingEpoch (pending s) \<noteq> bindingEpoch s
           then (R_SourceLifetime, InvalidateProducer s)
         else if \<not> Timer (ps_timer sample) then (R_ProducerAmbiguous, InvalidateProducer s)
         else if ps_requested sample
           then (R_Pending, s\<lparr>pending := (pending s)\<lparr>pr_previousSet := True,
                   pr_previousSetQpc := ps_qpc sample, pr_previousTimer := ps_timer sample\<rparr>\<rparr>)
         else
           let previous = pending s;
               s = s\<lparr>pending := PendingRequest_zero, fresh := FreshTuple_zero\<rparr> in
           if \<not> pr_previousSet previous \<or> ps_dirty sample \<or>
              f32_ge (ps_timer sample) (pr_previousTimer previous) \<or>
              \<not> Supported (ps_outer sample) (ps_gameBots sample) \<or>
              pr_maximum previous \<noteq> maximum (ps_outer sample) \<or>
              pr_bots previous \<noteq> bots (ps_outer sample) \<or>
              pr_bots previous \<noteq> ps_gameBots sample
             then (R_ProducerAmbiguous, s)
           else if witnessSequence s = u64_max then Fault s R_CounterOverflow
           else
             let s = s\<lparr>witnessSequence := witnessSequence s + 1\<rparr> in
             (R_None, s\<lparr>fresh := \<lparr>ft_counts = ps_outer sample, ft_witness = witnessSequence s,
                ft_request = pr_sequence previous, ft_sourceEpoch = sourceEpoch s,
                ft_bindingEpoch = bindingEpoch s,
                ft_lowerBoundQpc = pr_previousSetQpc previous, ft_valid = True\<rparr>\<rparr>))"

text \<open>The output tuple is cleared on entry, so a refusal returns the zero tuple.\<close>

definition ReadFreshTuple ::
  "ProducerState \<Rightarrow> int \<Rightarrow> NativeCounts \<Rightarrow> nat \<Rightarrow> Reason \<times> FreshTuple \<times> ProducerState" where
  "ReadFreshTuple s now currentOuter gameBots =
     (case Clock s now of (clock, s) \<Rightarrow>
       if clock \<noteq> R_None then (clock, FreshTuple_zero, s)
       else if mode s \<noteq> Mode_Repair \<or> \<not> ft_valid (fresh s)
         then (R_FreshnessExpired, FreshTuple_zero, s)
       else if ft_sourceEpoch (fresh s) \<noteq> sourceEpoch s \<or>
               ft_bindingEpoch (fresh s) \<noteq> bindingEpoch s
         then (R_SourceLifetime, FreshTuple_zero, InvalidateProducer s)
       else if now - ft_lowerBoundQpc (fresh s) > frequency s * kFreshnessSeconds
         then (R_FreshnessExpired, FreshTuple_zero, s\<lparr>fresh := FreshTuple_zero\<rparr>)
       else if \<not> Supported currentOuter gameBots \<or> \<not> EqualCounts currentOuter (ft_counts (fresh s)) \<or>
               gameBots \<noteq> bots (ft_counts (fresh s))
         then (R_PreparedMismatch, FreshTuple_zero, s)
       else (R_None, fresh s, s))"

section \<open>The tracker as a machine\<close>

text \<open>
  The events are the calls of the header, with any arguments a caller may pass; a
  timestamp is any signed 64-bit value.
\<close>

datatype producer_event =
    Ev_Invalidate
  | Ev_Epoch nat nat
  | Ev_CanStage int
  | Ev_Stage int nat nat ProducerSample bool
  | Ev_Observe ProducerSample
  | Ev_Read int NativeCounts nat

fun producer_step :: "ProducerState \<Rightarrow> producer_event \<Rightarrow> ProducerState" where
  "producer_step s Ev_Invalidate = InvalidateProducer s"
| "producer_step s (Ev_Epoch src bnd) = snd (SetProducerEpoch s src bnd)"
| "producer_step s (Ev_CanStage now) = snd (CanStageRequest s now)"
| "producer_step s (Ev_Stage q b m rb v) = snd (RecordStagedRequest s q b m rb v)"
| "producer_step s (Ev_Observe sample) = snd (ObserveProducer s sample)"
| "producer_step s (Ev_Read now c g) = snd (snd (ReadFreshTuple s now c g))"

fun event_qpcs :: "producer_event \<Rightarrow> int list" where
  "event_qpcs Ev_Invalidate = []"
| "event_qpcs (Ev_Epoch src bnd) = []"
| "event_qpcs (Ev_CanStage now) = [now]"
| "event_qpcs (Ev_Stage q b m rb v) = [q, ps_qpc rb]"
| "event_qpcs (Ev_Observe sample) = [ps_qpc sample]"
| "event_qpcs (Ev_Read now c g) = [now]"

definition event_ok :: "producer_event \<Rightarrow> bool" where
  "event_ok e \<longleftrightarrow> list_all (\<lambda>q. - i64_max - 1 \<le> q \<and> q \<le> i64_max) (event_qpcs e)"

section \<open>The invariant\<close>

text \<open>The clock, the staged request and the fresh tuple, each against the rest of the state.\<close>

definition latched_reasons :: "Reason list" where
  "latched_reasons = [R_ClockFailed, R_ConfigDisabled, R_LifecycleCrossing, R_CounterOverflow,
     R_UnsupportedCounts]"

definition clock_inv :: "ProducerState \<Rightarrow> bool" where
  "clock_inv s \<longleftrightarrow>
     (fault s = R_None \<or> fault s \<in> set latched_reasons) \<and>
     (fault s = R_None \<longrightarrow> 0 < frequency s \<and> frequency s \<le> i64_max div kFreshnessSeconds) \<and>
     0 \<le> lastQpc s \<and> lastQpc s \<le> i64_max \<and>
     (haveRequest s \<longrightarrow> haveClock s \<and> 0 \<le> lastRequestQpc s \<and> lastRequestQpc s \<le> lastQpc s) \<and>
     requestSequence s \<le> u64_max \<and> witnessSequence s \<le> u64_max"

definition pending_inv :: "ProducerState \<Rightarrow> bool" where
  "pending_inv s \<longleftrightarrow>
     (pr_active (pending s) \<longrightarrow>
        fault s = R_None \<and> mode s = Mode_Repair \<and> epochReady s \<and> haveClock s \<and> haveRequest s \<and>
        pr_sourceEpoch (pending s) = sourceEpoch s \<and> pr_bindingEpoch (pending s) = bindingEpoch s \<and>
        pr_sequence (pending s) = requestSequence s \<and> 0 < requestSequence s \<and>
        pr_stagedQpc (pending s) = lastRequestQpc s \<and>
        pr_bots (pending s) \<le> pr_maximum (pending s) \<and> pr_maximum (pending s) \<le> 255 \<and>
        (pr_previousSet (pending s) \<longrightarrow>
           pr_stagedQpc (pending s) \<le> pr_previousSetQpc (pending s) \<and>
           pr_previousSetQpc (pending s) \<le> lastQpc s))"

definition fresh_inv :: "ProducerState \<Rightarrow> bool" where
  "fresh_inv s \<longleftrightarrow>
     (ft_valid (fresh s) \<longrightarrow>
        fault s = R_None \<and> mode s = Mode_Repair \<and> epochReady s \<and> haveClock s \<and> haveRequest s \<and>
        ft_sourceEpoch (fresh s) = sourceEpoch s \<and> ft_bindingEpoch (fresh s) = bindingEpoch s \<and>
        ft_witness (fresh s) = witnessSequence s \<and> 0 < witnessSequence s \<and>
        0 < ft_request (fresh s) \<and> ft_request (fresh s) \<le> requestSequence s \<and>
        0 \<le> ft_lowerBoundQpc (fresh s) \<and> ft_lowerBoundQpc (fresh s) \<le> lastQpc s \<and>
        Supported (ft_counts (fresh s)) (bots (ft_counts (fresh s))))"

definition producer_inv :: "ProducerState \<Rightarrow> bool" where
  "producer_inv s \<longleftrightarrow> clock_inv s \<and> pending_inv s \<and> fresh_inv s"

lemmas producer_inv_defs = producer_inv_def clock_inv_def pending_inv_def fresh_inv_def

lemma pending_zero_inactive [simp]: "\<not> pr_active PendingRequest_zero"
  by (simp add: PendingRequest_zero_def)

lemma fresh_zero_invalid [simp]: "\<not> ft_valid FreshTuple_zero"
  by (simp add: FreshTuple_zero_def)

text \<open>What each helper does to the state, as equations the operation proofs rewrite with.\<close>

lemma latched_not_None: "r \<in> set latched_reasons \<Longrightarrow> r \<noteq> R_None \<and> r \<noteq> R_SourceLifetime"
  by (auto simp: latched_reasons_def)

lemma Fault_inv:
  "producer_inv s \<Longrightarrow> r \<in> set latched_reasons \<Longrightarrow> producer_inv (snd (Fault s r))"
  by (auto simp: producer_inv_defs Fault_def Let_def latched_not_None)

lemma Fault_frame:
  "frequency (snd (Fault s r)) = frequency s" "mode (snd (Fault s r)) = mode s"
  "lastRequestQpc (snd (Fault s r)) = lastRequestQpc s" "haveRequest (snd (Fault s r)) = haveRequest s"
  "requestSequence (snd (Fault s r)) = requestSequence s"
  "witnessSequence (snd (Fault s r)) = witnessSequence s"
  "fst (Fault s r) = fault (snd (Fault s r))" "r \<noteq> R_None \<Longrightarrow> fault (snd (Fault s r)) \<noteq> R_None"
  by (simp_all add: Fault_def Let_def)

lemma tick_inv:
  "producer_inv s \<Longrightarrow> 0 \<le> now \<Longrightarrow> now \<le> i64_max \<Longrightarrow> (haveClock s \<longrightarrow> lastQpc s \<le> now) \<Longrightarrow>
   producer_inv (s\<lparr>lastQpc := now, haveClock := True\<rparr>)"
proof -
  assume a: "producer_inv s" "0 \<le> now" "now \<le> i64_max" "haveClock s \<longrightarrow> lastQpc s \<le> now"
  let ?t = "s\<lparr>lastQpc := now, haveClock := True\<rparr>"
  from a have "clock_inv ?t" by (auto simp: producer_inv_def clock_inv_def)
  moreover from a have "pending_inv ?t" by (auto simp: producer_inv_def pending_inv_def)
  moreover from a have "fresh_inv ?t" by (auto simp: producer_inv_def fresh_inv_def)
  ultimately show ?thesis by (simp add: producer_inv_def)
qed

lemma Clock_inv:
  assumes "producer_inv s" and "now \<le> i64_max" and "Clock s now = (r, t)"
  shows "producer_inv t"
proof -
  have "producer_inv (snd (Fault s R_ClockFailed))" using assms(1) by (simp add: Fault_inv latched_reasons_def)
  then have "producer_inv (snd (Clock s now))"
    using assms(1,2) tick_inv [of s now] by (simp add: Clock_def not_less)
  with assms(3) show ?thesis by simp
qed

lemma Clock_None:
  "Clock s now = (R_None, t) \<Longrightarrow>
   t = s\<lparr>lastQpc := now, haveClock := True\<rparr> \<and> fault s = R_None \<and> 0 < frequency s \<and> 0 \<le> now \<and>
   (haveClock s \<longrightarrow> lastQpc s \<le> now)"
  by (auto simp: Clock_def Fault_def Let_def split: if_splits)

lemma Clock_frame:
  "Clock s now = (r, t) \<Longrightarrow>
   frequency t = frequency s \<and> mode t = mode s \<and> lastRequestQpc t = lastRequestQpc s \<and>
   haveRequest t = haveRequest s \<and> requestSequence t = requestSequence s \<and>
   witnessSequence t = witnessSequence s \<and> sourceEpoch t = sourceEpoch s \<and>
   bindingEpoch t = bindingEpoch s"
  by (auto simp: Clock_def Fault_def Let_def split: if_splits)

lemma ExpirePending_inv: "producer_inv s \<Longrightarrow> producer_inv (ExpirePending s now)"
  by (auto simp: ExpirePending_def producer_inv_defs)

lemma InvalidateProducer_inv [invs]: "producer_inv s \<Longrightarrow> producer_inv (InvalidateProducer s)"
  by (auto simp: InvalidateProducer_def producer_inv_defs)

lemma InitializeProducer_inv:
  "InitializeProducer m f = (R_None, s) \<Longrightarrow> producer_inv s"
  by (auto simp: InitializeProducer_def Fault_def Let_def producer_inv_defs ProducerState_zero_def
      split: if_splits)

lemma set_epoch_inv:
  assumes "producer_inv s" and "fault s = R_None"
    and "(a = sourceEpoch s \<and> b = bindingEpoch s) \<or> (\<not> pr_active (pending s) \<and> \<not> ft_valid (fresh s))"
  shows "producer_inv (s\<lparr>sourceEpoch := a, bindingEpoch := b, epochReady := True\<rparr>)"
  using assms(3)
proof
  assume "a = sourceEpoch s \<and> b = bindingEpoch s"
  then show ?thesis using assms(1) by (auto simp: producer_inv_defs)
next
  assume "\<not> pr_active (pending s) \<and> \<not> ft_valid (fresh s)"
  then show ?thesis using assms(1) by (auto simp: producer_inv_defs)
qed

lemma SetProducerEpoch_inv [invs]:
  assumes inv: "producer_inv s"
  shows "producer_inv (snd (SetProducerEpoch s a b))"
proof -
  have F: "producer_inv (snd (Fault s R_LifecycleCrossing))" using inv by (simp add: Fault_inv latched_reasons_def)
  have I: "producer_inv (InvalidateProducer s)" using inv by (rule InvalidateProducer_inv)
  have E: "fault s = R_None \<Longrightarrow> producer_inv ((if a \<noteq> sourceEpoch s \<or> b \<noteq> bindingEpoch s
      then InvalidateProducer s else s)\<lparr>sourceEpoch := a, bindingEpoch := b, epochReady := True\<rparr>)"
    by (rule set_epoch_inv) (use inv I in \<open>simp_all add: InvalidateProducer_def\<close>)
  show ?thesis using inv F I E by (simp add: SetProducerEpoch_def)
qed

lemma CanStageRequest_inv [invs]:
  "producer_inv s \<Longrightarrow> now \<le> i64_max \<Longrightarrow> producer_inv (snd (CanStageRequest s now))"
proof -
  assume inv: "producer_inv s" and now: "now \<le> i64_max"
  obtain r t where c: "Clock s now = (r, t)" by fastforce
  have t: "producer_inv t" using Clock_inv [OF inv now c] .
  note e = ExpirePending_inv [OF t, of now]
  have f: "producer_inv (snd (Fault (ExpirePending t now) R_CounterOverflow))"
    using e by (simp add: Fault_inv latched_reasons_def)
  show ?thesis using t e f
    by (simp add: CanStageRequest_def c Let_def)
qed

lemma ExpirePending_frame:
  "frequency (ExpirePending s now) = frequency s" "mode (ExpirePending s now) = mode s"
  "lastRequestQpc (ExpirePending s now) = lastRequestQpc s" "lastQpc (ExpirePending s now) = lastQpc s"
  "requestSequence (ExpirePending s now) = requestSequence s" "fault (ExpirePending s now) = fault s"
  "witnessSequence (ExpirePending s now) = witnessSequence s" "fresh (ExpirePending s now) = fresh s"
  "sourceEpoch (ExpirePending s now) = sourceEpoch s" "bindingEpoch (ExpirePending s now) = bindingEpoch s"
  "haveRequest (ExpirePending s now) = haveRequest s" "haveClock (ExpirePending s now) = haveClock s"
  "epochReady (ExpirePending s now) = epochReady s"
  by (simp_all add: ExpirePending_def)

lemma CanStageRequest_None:
  assumes "CanStageRequest s now = (R_None, t)"
  shows "fault t = R_None \<and> mode t = Mode_Repair \<and> epochReady t \<and> haveClock t \<and> lastQpc t = now \<and>
    \<not> pr_active (pending t) \<and> requestSequence t \<noteq> u64_max \<and> 0 \<le> now \<and>
    (haveRequest s \<longrightarrow> now - lastRequestQpc s \<ge> frequency s * kRequestFloorSeconds)"
proof -
  obtain r u where c: "Clock s now = (r, u)" by fastforce
  with assms have r: "r = R_None" by (auto simp: CanStageRequest_def split: if_splits)
  note u = Clock_None [OF c [unfolded r]]
  show ?thesis using assms u
    by (auto simp: CanStageRequest_def c r Let_def ExpirePending_def Fault_def split: if_splits)
qed

lemma CanStageRequest_frame:
  assumes "CanStageRequest s now = (r, t)"
  shows "frequency t = frequency s \<and> mode t = mode s \<and> lastRequestQpc t = lastRequestQpc s \<and>
    haveRequest t = haveRequest s \<and> requestSequence t = requestSequence s \<and>
    witnessSequence t = witnessSequence s"
proof -
  obtain r' u where c: "Clock s now = (r', u)" by fastforce
  have t: "t = snd (CanStageRequest s now)" using assms by simp
  show ?thesis using Clock_frame [OF c] unfolding t
    by (simp add: CanStageRequest_def c Let_def ExpirePending_frame Fault_frame)
qed

text \<open>
  The state right after the request counter has been advanced and the pending request
  built, and the state after a request or a sample confirmed the native flag.
\<close>

definition staged :: "ProducerState \<Rightarrow> int \<Rightarrow> nat \<Rightarrow> nat \<Rightarrow> ProducerState" where
  "staged s q b m =
     s\<lparr>haveRequest := True, lastRequestQpc := q, requestSequence := requestSequence s + 1,
       pending := PendingRequest_zero\<lparr>pr_active := True, pr_sequence := requestSequence s + 1,
         pr_sourceEpoch := sourceEpoch s, pr_bindingEpoch := bindingEpoch s, pr_stagedQpc := q,
         pr_bots := b, pr_maximum := m\<rparr>\<rparr>"

definition confirmed :: "ProducerState \<Rightarrow> int \<Rightarrow> u32 \<Rightarrow> ProducerState" where
  "confirmed s q timer =
     s\<lparr>pending := (pending s)\<lparr>pr_previousSet := True, pr_previousSetQpc := q,
        pr_previousTimer := timer\<rparr>\<rparr>"

lemma RecordStagedRequest_alt:
  "RecordStagedRequest s q b m rb v =
     (case CanStageRequest s q of (admission, s) \<Rightarrow>
       if admission \<noteq> R_None then (admission, s)
       else if m > 255 \<or> b > m then Fault s R_UnsupportedCounts
       else case Clock (staged s q b m) (ps_qpc rb) of (clock, s) \<Rightarrow>
           if clock \<noteq> R_None then (clock, s)
           else let s = ExpirePending s (ps_qpc rb) in
             if \<not> pr_active (pending s) then (R_FreshnessExpired, s)
             else if \<not> v \<or> \<not> ps_requested rb \<or> \<not> Timer (ps_timer rb) then (R_ProducerAmbiguous, s)
             else (R_None, confirmed s (ps_qpc rb) (ps_timer rb)))"
  by (simp add: RecordStagedRequest_def staged_def confirmed_def Let_def cong: if_cong)

lemma staged_inv:
  assumes "producer_inv s" "fault s = R_None" "mode s = Mode_Repair" "epochReady s" "haveClock s"
    and "lastQpc s = q" "0 \<le> q" "requestSequence s \<noteq> u64_max" "m \<le> 255" "b \<le> m"
  shows "producer_inv (staged s q b m)"
proof -
  from assms have "clock_inv (staged s q b m)"
    by (auto simp: producer_inv_def clock_inv_def staged_def)
  moreover from assms have "pending_inv (staged s q b m)"
    by (auto simp: producer_inv_def pending_inv_def staged_def PendingRequest_zero_def)
  moreover from assms have "fresh_inv (staged s q b m)"
    by (auto simp: producer_inv_def fresh_inv_def staged_def)
  ultimately show ?thesis by (simp add: producer_inv_def)
qed

lemma confirmed_inv:
  assumes "producer_inv s" "lastRequestQpc s \<le> q" "q = lastQpc s"
  shows "producer_inv (confirmed s q timer)"
proof -
  from assms have "clock_inv (confirmed s q timer)"
    by (auto simp: producer_inv_def clock_inv_def confirmed_def)
  moreover from assms have "pending_inv (confirmed s q timer)"
    by (auto simp: producer_inv_def pending_inv_def confirmed_def)
  moreover from assms have "fresh_inv (confirmed s q timer)"
    by (auto simp: producer_inv_def fresh_inv_def confirmed_def)
  ultimately show ?thesis by (simp add: producer_inv_def)
qed

lemma ExpirePending_active: "pr_active (pending (ExpirePending s now)) \<Longrightarrow> ExpirePending s now = s"
  unfolding ExpirePending_def
  by (cases "pr_active (pending s) \<and>
        frequency s * kFreshnessSeconds \<le> now - pr_stagedQpc (pending s)") simp_all

lemma RecordStagedRequest_inv [invs]:
  assumes inv: "producer_inv s" and q: "q \<le> i64_max" and rb: "ps_qpc rb \<le> i64_max"
  shows "producer_inv (snd (RecordStagedRequest s q b m rb v))"
proof -
  obtain r t where can: "CanStageRequest s q = (r, t)" by fastforce
  have t: "producer_inv t" using CanStageRequest_inv [OF inv q] can by simp
  show ?thesis
  proof (cases "r = R_None \<and> m \<le> 255 \<and> b \<le> m")
    case False
    then show ?thesis using t Fault_inv [OF t, of R_UnsupportedCounts]
      by (auto simp: RecordStagedRequest_alt can latched_reasons_def)
  next
    case True
    note c = CanStageRequest_None [OF can [unfolded True [THEN conjunct1]]]
    have st: "producer_inv (staged t q b m)" by (rule staged_inv) (use t c True in auto)
    obtain r' u where clk: "Clock (staged t q b m) (ps_qpc rb) = (r', u)" by fastforce
    have u: "producer_inv u" using Clock_inv [OF st rb clk] .
    let ?e = "ExpirePending u (ps_qpc rb)"
    have e: "producer_inv ?e" using ExpirePending_inv [OF u] .
    have "r' = R_None \<Longrightarrow> producer_inv (confirmed ?e (ps_qpc rb) (ps_timer rb))"
    proof (rule confirmed_inv [OF e])
      assume "r' = R_None"
      with clk have "Clock (staged t q b m) (ps_qpc rb) = (R_None, u)" by simp
      note k = Clock_None [OF this]
      show "lastRequestQpc ?e \<le> ps_qpc rb" "ps_qpc rb = lastQpc ?e"
        using k c by (auto simp: ExpirePending_frame staged_def)
    qed
    with e u True show ?thesis
      by (auto simp: RecordStagedRequest_alt can clk Let_def)
  qed
qed

definition claims_cleared :: "ProducerState \<Rightarrow> ProducerState" where
  "claims_cleared s = s\<lparr>pending := PendingRequest_zero, fresh := FreshTuple_zero\<rparr>"

definition consumed :: "ProducerState \<Rightarrow> PendingRequest \<Rightarrow> NativeCounts \<Rightarrow> ProducerState" where
  "consumed s previous outer =
     s\<lparr>witnessSequence := witnessSequence s + 1,
       fresh := \<lparr>ft_counts = outer, ft_witness = witnessSequence s + 1,
         ft_request = pr_sequence previous, ft_sourceEpoch = sourceEpoch s,
         ft_bindingEpoch = bindingEpoch s, ft_lowerBoundQpc = pr_previousSetQpc previous,
         ft_valid = True\<rparr>\<rparr>"

definition consumption :: "PendingRequest \<Rightarrow> ProducerSample \<Rightarrow> bool" where
  "consumption previous sample \<longleftrightarrow>
     pr_previousSet previous \<and> \<not> ps_dirty sample \<and>
     \<not> f32_ge (ps_timer sample) (pr_previousTimer previous) \<and>
     Supported (ps_outer sample) (ps_gameBots sample) \<and>
     pr_maximum previous = maximum (ps_outer sample) \<and>
     pr_bots previous = bots (ps_outer sample) \<and> pr_bots previous = ps_gameBots sample"

lemma ObserveProducer_alt:
  "ObserveProducer s sample =
     (case Clock s (ps_qpc sample) of (clock, t) \<Rightarrow>
       if clock \<noteq> R_None then (clock, t)
       else let e = ExpirePending t (ps_qpc sample) in
         if \<not> pr_active (pending e)
           then (if pr_active (pending t) then R_FreshnessExpired else R_None, e)
         else if pr_sourceEpoch (pending e) \<noteq> sourceEpoch e \<or>
                 pr_bindingEpoch (pending e) \<noteq> bindingEpoch e
           then (R_SourceLifetime, InvalidateProducer e)
         else if \<not> Timer (ps_timer sample) then (R_ProducerAmbiguous, InvalidateProducer e)
         else if ps_requested sample
           then (R_Pending, confirmed e (ps_qpc sample) (ps_timer sample))
         else if \<not> consumption (pending e) sample then (R_ProducerAmbiguous, claims_cleared e)
         else if witnessSequence e = u64_max then Fault (claims_cleared e) R_CounterOverflow
         else (R_None, consumed (claims_cleared e) (pending e) (ps_outer sample)))"
  by (auto simp: ObserveProducer_def consumed_def claims_cleared_def confirmed_def consumption_def
      Let_def split: prod.splits)

lemma claims_cleared_inv: "producer_inv s \<Longrightarrow> producer_inv (claims_cleared s)"
  by (auto simp: producer_inv_defs claims_cleared_def)

lemma consumed_inv:
  assumes inv: "producer_inv s" and act: "pr_active (pending s)" and con: "consumption (pending s) sample"
    and w: "witnessSequence s \<noteq> u64_max"
  shows "producer_inv (consumed (claims_cleared s) (pending s) (ps_outer sample))"
proof -
  let ?t = "consumed (claims_cleared s) (pending s) (ps_outer sample)"
  from inv w have "clock_inv ?t"
    by (auto simp: producer_inv_def clock_inv_def consumed_def claims_cleared_def)
  moreover have "pending_inv ?t"
    by (simp add: pending_inv_def consumed_def claims_cleared_def)
  moreover have "fresh_inv ?t"
    using inv act con
    by (auto simp: producer_inv_def clock_inv_def pending_inv_def fresh_inv_def consumed_def
        claims_cleared_def consumption_def)
  ultimately show ?thesis by (simp add: producer_inv_def)
qed

lemma ObserveProducer_inv [invs]:
  assumes inv: "producer_inv s" and q: "ps_qpc sample \<le> i64_max"
  shows "producer_inv (snd (ObserveProducer s sample))"
proof -
  obtain r t where clk: "Clock s (ps_qpc sample) = (r, t)" by fastforce
  have t: "producer_inv t" using Clock_inv [OF inv q clk] .
  let ?e = "ExpirePending t (ps_qpc sample)"
  have e: "producer_inv ?e" using ExpirePending_inv [OF t] .
  have conf: "r = R_None \<Longrightarrow> pr_active (pending ?e) \<Longrightarrow>
      producer_inv (confirmed ?e (ps_qpc sample) (ps_timer sample))"
  proof (rule confirmed_inv [OF e])
    assume r: "r = R_None" and act: "pr_active (pending ?e)"
    have "lastQpc t = ps_qpc sample" using Clock_None [of s "ps_qpc sample" t] clk r by auto
    then show "ps_qpc sample = lastQpc ?e" by (simp add: ExpirePending_frame)
    then show "lastRequestQpc ?e \<le> ps_qpc sample"
      using e act by (auto simp: producer_inv_defs)
  qed
  show ?thesis
    using t e conf InvalidateProducer_inv [OF e] claims_cleared_inv [OF e]
      Fault_inv [OF claims_cleared_inv [OF e], of R_CounterOverflow] consumed_inv [OF e]
    by (auto simp: ObserveProducer_alt clk Let_def latched_reasons_def)
qed

lemma fresh_cleared_inv: "producer_inv s \<Longrightarrow> producer_inv (s\<lparr>fresh := FreshTuple_zero\<rparr>)"
  by (auto simp: producer_inv_defs)

lemma ReadFreshTuple_inv [invs]:
  assumes inv: "producer_inv s" and q: "now \<le> i64_max"
  shows "producer_inv (snd (snd (ReadFreshTuple s now c g)))"
proof -
  obtain r t where clk: "Clock s now = (r, t)" by fastforce
  have t: "producer_inv t" using Clock_inv [OF inv q clk] .
  then show ?thesis using InvalidateProducer_inv [OF t] fresh_cleared_inv [OF t]
    by (auto simp: ReadFreshTuple_def clk)
qed

lemma producer_step_inv:
  "producer_inv s \<Longrightarrow> event_ok e \<Longrightarrow> producer_inv (producer_step s e)"
  by (cases e) (auto simp: event_ok_def intro: invs)

interpretation producer: machine producer_step producer_inv event_ok
  by unfold_locales (rule producer_step_inv)

section \<open>Frames and the request floor\<close>

lemma RecordStagedRequest_frame:
  assumes "RecordStagedRequest s q b m rb v = (r, t)"
  shows "frequency t = frequency s \<and> mode t = mode s \<and>
    (requestSequence t = requestSequence s \<and> lastRequestQpc t = lastRequestQpc s \<and>
       haveRequest t = haveRequest s \<or>
     requestSequence t = requestSequence s + 1 \<and> lastRequestQpc t = q \<and> haveRequest t \<and>
       (haveRequest s \<longrightarrow> q - lastRequestQpc s \<ge> frequency s * kRequestFloorSeconds))"
proof -
  obtain r0 u where can: "CanStageRequest s q = (r0, u)" by fastforce
  note cf = CanStageRequest_frame [OF can]
  show ?thesis
  proof (cases "r0 = R_None \<and> m \<le> 255 \<and> b \<le> m")
    case False
    then have "t = u \<or> t = snd (Fault u R_UnsupportedCounts)"
      using assms by (auto simp: RecordStagedRequest_alt can split: if_splits)
    then show ?thesis using cf by (auto simp: Fault_frame)
  next
    case True
    then have "CanStageRequest s q = (R_None, u)" using can by simp
    note cn = CanStageRequest_None [OF this]
    obtain r1 w where clk: "Clock (staged u q b m) (ps_qpc rb) = (r1, w)" by fastforce
    note kf = Clock_frame [OF clk]
    from assms True have "t = w \<or> t = ExpirePending w (ps_qpc rb) \<or>
        t = confirmed (ExpirePending w (ps_qpc rb)) (ps_qpc rb) (ps_timer rb)"
      by (auto simp: RecordStagedRequest_alt can clk Let_def split: if_splits)
    then show ?thesis using cf cn kf
      by (auto simp: staged_def confirmed_def ExpirePending_frame)
  qed
qed

lemma ObserveProducer_frame:
  assumes "ObserveProducer s sample = (r, t)"
  shows "frequency t = frequency s \<and> mode t = mode s \<and> requestSequence t = requestSequence s \<and>
    lastRequestQpc t = lastRequestQpc s \<and> haveRequest t = haveRequest s"
proof -
  obtain r0 u where clk: "Clock s (ps_qpc sample) = (r0, u)" by fastforce
  have t: "t = snd (ObserveProducer s sample)" using assms by simp
  show ?thesis using Clock_frame [OF clk] unfolding t
    by (simp add: ObserveProducer_alt clk Let_def ExpirePending_frame InvalidateProducer_def
        confirmed_def claims_cleared_def consumed_def Fault_frame)
qed

lemma ReadFreshTuple_frame:
  assumes "ReadFreshTuple s now c g = (r, ft, t)"
  shows "frequency t = frequency s \<and> mode t = mode s \<and> requestSequence t = requestSequence s \<and>
    lastRequestQpc t = lastRequestQpc s \<and> haveRequest t = haveRequest s"
proof -
  obtain r0 u where clk: "Clock s now = (r0, u)" by fastforce
  show ?thesis using assms Clock_frame [OF clk]
    by (auto simp: ReadFreshTuple_def clk InvalidateProducer_def split: if_splits)
qed

text \<open>
  One step either leaves the request clock alone or advances the sequence by one at a tick
  that keeps the floor: the shared frame of every operation.
\<close>

definition floor_step :: "ProducerState \<Rightarrow> ProducerState \<Rightarrow> bool" where
  "floor_step s t \<longleftrightarrow> frequency t = frequency s \<and> mode t = mode s \<and>
    (requestSequence t = requestSequence s \<and> lastRequestQpc t = lastRequestQpc s \<and>
       haveRequest t = haveRequest s \<or>
     requestSequence t = requestSequence s + 1 \<and> haveRequest t \<and>
       (haveRequest s \<longrightarrow>
          lastRequestQpc t - lastRequestQpc s \<ge> frequency s * kRequestFloorSeconds))"

lemma SetProducerEpoch_frame:
  "SetProducerEpoch s a b = (r, t) \<Longrightarrow>
   frequency t = frequency s \<and> mode t = mode s \<and> requestSequence t = requestSequence s \<and>
   lastRequestQpc t = lastRequestQpc s \<and> haveRequest t = haveRequest s"
  by (auto simp: SetProducerEpoch_def InvalidateProducer_def Fault_def Let_def split: if_splits)

lemma producer_step_floor: "floor_step s (producer_step s e)"
proof (cases e)
  case Ev_Invalidate
  then show ?thesis by (simp add: floor_step_def InvalidateProducer_def)
next
  case (Ev_Epoch a b)
  then show ?thesis using SetProducerEpoch_frame [of s a b]
    by (cases "SetProducerEpoch s a b") (simp add: floor_step_def)
next
  case (Ev_CanStage now)
  then show ?thesis using CanStageRequest_frame [of s now]
    by (cases "CanStageRequest s now") (simp add: floor_step_def)
next
  case (Ev_Stage q b m rb v)
  then show ?thesis using RecordStagedRequest_frame [of s q b m rb v]
    by (cases "RecordStagedRequest s q b m rb v") (auto simp: floor_step_def)
next
  case (Ev_Observe sample)
  then show ?thesis using ObserveProducer_frame [of s sample]
    by (cases "ObserveProducer s sample") (simp add: floor_step_def)
next
  case (Ev_Read now c g)
  then show ?thesis using ReadFreshTuple_frame [of s now c g]
    by (cases "ReadFreshTuple s now c g") (simp add: floor_step_def)
qed

text \<open>The ticks at which a run recorded a staged request, in order.\<close>

fun staged_ticks :: "ProducerState \<Rightarrow> producer_event list \<Rightarrow> int list" where
  "staged_ticks s [] = []"
| "staged_ticks s (e # es) =
     (let t = producer_step s e in
      (if requestSequence t \<noteq> requestSequence s then [lastRequestQpc t] else []) @ staged_ticks t es)"

lemma staged_ticks_floor:
  "haveRequest s \<Longrightarrow> 0 \<le> frequency s \<Longrightarrow> q \<in> set (staged_ticks s es) \<Longrightarrow>
   q - lastRequestQpc s \<ge> frequency s * kRequestFloorSeconds"
proof (induction es arbitrary: s)
  case Nil
  then show ?case by simp
next
  case (Cons e es)
  let ?t = "producer_step s e"
  have f: "floor_step s ?t" by (rule producer_step_floor)
  show ?case
  proof (cases "requestSequence ?t = requestSequence s")
    case True
    with f have "lastRequestQpc ?t = lastRequestQpc s" "haveRequest ?t" "frequency ?t = frequency s"
      using Cons.prems(1) by (auto simp: floor_step_def)
    then show ?thesis using Cons.IH [of ?t] Cons.prems True by (simp add: Let_def)
  next
    case False
    with f have t: "lastRequestQpc ?t - lastRequestQpc s \<ge> frequency s * kRequestFloorSeconds"
      "haveRequest ?t" "frequency ?t = frequency s"
      using Cons.prems(1) by (auto simp: floor_step_def)
    have nn: "0 \<le> frequency s * kRequestFloorSeconds"
      using Cons.prems(2) by (simp add: kRequestFloorSeconds_def)
    from Cons.prems(3) False have "q = lastRequestQpc ?t \<or> q \<in> set (staged_ticks ?t es)"
      by (auto simp: Let_def)
    then show ?thesis using Cons.IH [of ?t] t nn Cons.prems(2) by auto
  qed
qed

lemma staged_ticks_sorted:
  "0 \<le> frequency s \<Longrightarrow>
   sorted_wrt (\<lambda>a b. b - a \<ge> frequency s * kRequestFloorSeconds) (staged_ticks s es)"
proof (induction es arbitrary: s)
  case Nil
  then show ?case by simp
next
  case (Cons e es)
  let ?t = "producer_step s e"
  have f: "floor_step s ?t" by (rule producer_step_floor)
  then have fr: "frequency ?t = frequency s" by (simp add: floor_step_def)
  have IH: "sorted_wrt (\<lambda>a b. b - a \<ge> frequency s * kRequestFloorSeconds) (staged_ticks ?t es)"
    using Cons.IH [of ?t] Cons.prems fr by simp
  have "requestSequence ?t \<noteq> requestSequence s \<Longrightarrow> haveRequest ?t"
    using f by (auto simp: floor_step_def)
  then show ?case using IH staged_ticks_floor [of ?t _ es] fr Cons.prems
    by (auto simp: Let_def)
qed

text \<open>
  C26: The request floor. From initialisation on, whatever the callers do (travel, rebinding,
  missed read-backs, invalidations, any sequence of calls with any arguments), the ticks
  at which requests are recorded as staged are pairwise at least twenty seconds apart.
\<close>

theorem producer_request_floor:
  assumes "InitializeProducer m f = (R_None, s)"
  shows "sorted_wrt (\<lambda>a b. b - a \<ge> 20 * f) (staged_ticks s es)"
proof -
  from assms have "frequency s = f" "0 \<le> f"
    by (auto simp: InitializeProducer_def Fault_def Let_def ProducerState_zero_def split: if_splits)
  then show ?thesis using staged_ticks_sorted [of s es] by (simp add: kRequestFloorSeconds_def mult.commute)
qed

definition sample_at :: "int \<Rightarrow> u32 \<Rightarrow> bool \<Rightarrow> ProducerSample" where
  "sample_at q timer req = \<lparr>ps_qpc = q, ps_outer = \<lparr>pi = 3, bots = 2, maximum = 64\<rparr>,
     ps_gameBots = 2, ps_timer = timer, ps_requested = req, ps_dirty = False\<rparr>"

definition repair_state :: ProducerState where
  "repair_state = snd (InitializeProducer Mode_Repair 10)"

lemma repair_state_init: "InitializeProducer Mode_Repair 10 = (R_None, repair_state)"
  by (simp add: repair_state_def InitializeProducer_def Fault_def Let_def kFreshnessSeconds_def)

lemma repair_state_eq: "repair_state = ProducerState_zero\<lparr>mode := Mode_Repair, frequency := 10\<rparr>"
  by (simp add: repair_state_def InitializeProducer_def Fault_def Let_def kFreshnessSeconds_def)

definition floor_events :: "producer_event list" where
  "floor_events =
     [Ev_Epoch 1 1, Ev_Stage 5 2 64 (sample_at 6 1 True) True,
      Ev_Stage 100 2 64 (sample_at 101 1 True) True, Ev_Epoch 2 1,
      Ev_Stage 204 2 64 (sample_at 204 1 True) True, Ev_Stage 205 2 64 (sample_at 206 1 True) True]"

lemmas producer_eval = producer_step.simps SetProducerEpoch_def CanStageRequest_def
  RecordStagedRequest_def ObserveProducer_def ReadFreshTuple_def Clock_def Fault_def
  ExpirePending_def InvalidateProducer_def Timer_def f32_isfinite_def f32_ge_def f32_isnan_def
  f32_exponent_def f32_fraction_def f32_order_def Supported_def EqualCounts_def Let_def
  kFreshnessSeconds_def kRequestFloorSeconds_def PendingRequest_zero_def FreshTuple_zero_def
  ProducerState_zero_def NativeCounts_zero_def sample_at_def repair_state_eq

lemma floor_events_ticks: "staged_ticks repair_state floor_events = [5, 205]"
  by (simp add: floor_events_def producer_eval cong: eval_congs)

lemma producer_request_floor_witness:
  "staged_ticks repair_state floor_events = [5, 205] \<and>
   sorted_wrt (\<lambda>a b. b - a \<ge> 20 * 10) (staged_ticks repair_state floor_events)"
  using producer_request_floor [OF repair_state_init, of floor_events] floor_events_ticks by blast

section \<open>Reachable trackers\<close>

definition producer_run :: "Mode \<Rightarrow> int \<Rightarrow> producer_event list \<Rightarrow> ProducerState" where
  "producer_run m f es = foldl producer_step (snd (InitializeProducer m f)) es"

lemma producer_run_facts:
  assumes init: "InitializeProducer m f = (R_None, s0)" and es: "list_all event_ok es"
  shows "producer_inv (producer_run m f es)" and "mode (producer_run m f es) = m"
    and "frequency (producer_run m f es) = f"
proof -
  have inv: "producer_inv s0" using init by (rule InitializeProducer_inv)
  have run: "producer_run m f es = foldl producer_step s0 es"
    using init by (simp add: producer_run_def)
  show "producer_inv (producer_run m f es)"
    unfolding run using inv es by (rule producer.inv_run)
  have s0: "mode s0 = m \<and> frequency s0 = f"
    using init by (auto simp: InitializeProducer_def Fault_def Let_def ProducerState_zero_def
        split: if_splits)
  have "mode (foldl producer_step s0 es) = m \<and> frequency (foldl producer_step s0 es) = f"
    by (rule producer.run_keeps [where P = "\<lambda>s. mode s = m \<and> frequency s = f", OF _ inv es s0])
      (use producer_step_floor in \<open>auto simp: floor_step_def\<close>)
  then show "mode (producer_run m f es) = m" "frequency (producer_run m f es) = f"
    by (simp_all add: run)
qed

lemma ReadFreshTuple_None:
  assumes "ReadFreshTuple s now cur g = (R_None, tup, t)" and "producer_inv s"
  shows "t = s\<lparr>lastQpc := now, haveClock := True\<rparr> \<and> tup = fresh s \<and> ft_valid tup \<and>
    EqualCounts cur (ft_counts tup) \<and> g = bots (ft_counts tup) \<and> Supported cur g \<and>
    ft_lowerBoundQpc tup \<le> now \<and> now - ft_lowerBoundQpc tup \<le> frequency s * kFreshnessSeconds"
proof -
  obtain r u where clk: "Clock s now = (r, u)" by fastforce
  with assms(1) have r: "r = R_None" by (auto simp: ReadFreshTuple_def split: if_splits)
  note k = Clock_None [OF clk [unfolded r]]
  have "ft_valid (fresh s) \<Longrightarrow> ft_lowerBoundQpc (fresh s) \<le> lastQpc s \<and> haveClock s"
    using assms(2) by (simp add: producer_inv_def fresh_inv_def)
  then show ?thesis using assms(1) k
    by (auto simp: ReadFreshTuple_def clk r split: if_splits)
qed

text \<open>
  C27: What a fresh tuple proves. In every reachable tracker, a successful
  \<open>ReadFreshTuple\<close> happens in repair mode only and returns the tuple of a recorded
  request, in the current source and binding epoch, equal to the counts the caller
  sees now, with a bot count both sources agree on, and at most forty-five seconds old.
\<close>

theorem producer_fresh_sound:
  assumes "InitializeProducer m f = (R_None, s0)" and "list_all event_ok es"
    and "ReadFreshTuple (producer_run m f es) now cur g = (R_None, tup, t)"
  shows "m = Mode_Repair \<and> ft_counts tup = cur \<and> g = bots cur \<and> g \<le> maximum cur \<and>
    maximum cur \<le> 255 \<and> ft_sourceEpoch tup = sourceEpoch t \<and> ft_bindingEpoch tup = bindingEpoch t \<and>
    1 \<le> ft_request tup \<and> ft_request tup \<le> requestSequence t \<and>
    0 \<le> now - ft_lowerBoundQpc tup \<and> now - ft_lowerBoundQpc tup \<le> 45 * f"
proof -
  note run = producer_run_facts [OF assms(1,2)]
  note r = ReadFreshTuple_None [OF assms(3) run(1)]
  from r run(1) have "fresh_inv (producer_run m f es)" "ft_valid (fresh (producer_run m f es))"
    by (auto simp: producer_inv_def)
  with r run(2,3) show ?thesis
    by (auto simp: fresh_inv_def EqualCounts_iff Supported_def kFreshnessSeconds_def)
qed

definition fresh_events :: "producer_event list" where
  "fresh_events = [Ev_Epoch 1 1, Ev_Stage 5 2 64 (sample_at 6 1065353216 True) True,
     Ev_Observe (sample_at 7 1056964608 False)]"

lemma fresh_events_run:
  "producer_run Mode_Repair 10 fresh_events =
   repair_state\<lparr>lastQpc := 7, lastRequestQpc := 5, sourceEpoch := 1, bindingEpoch := 1,
     requestSequence := 1, witnessSequence := 1, haveClock := True, haveRequest := True,
     epochReady := True, pending := PendingRequest_zero,
     fresh := \<lparr>ft_counts = \<lparr>pi = 3, bots = 2, maximum = 64\<rparr>, ft_witness = 1, ft_request = 1,
       ft_sourceEpoch = 1, ft_bindingEpoch = 1, ft_lowerBoundQpc = 6, ft_valid = True\<rparr>\<rparr>"
  by (simp add: producer_run_def fresh_events_def repair_state_init producer_eval cong: eval_congs)

lemma producer_fresh_sound_witness:
  "fst (ReadFreshTuple (producer_run Mode_Repair 10 fresh_events) 400
      \<lparr>pi = 3, bots = 2, maximum = 64\<rparr> 2) = R_None \<and> 400 - (6::int) \<le> 45 * 10"
proof -
  let ?cur = "\<lparr>pi = 3, bots = 2, maximum = 64\<rparr>"
  obtain t tup where r: "ReadFreshTuple (producer_run Mode_Repair 10 fresh_events) 400 ?cur 2
      = (R_None, tup, t)" "ft_lowerBoundQpc tup = 6"
    unfolding fresh_events_run by (simp add: producer_eval cong: eval_congs)
  have ok: "list_all event_ok fresh_events"
    by (simp add: fresh_events_def event_ok_def sample_at_def)
  from producer_fresh_sound [OF repair_state_init ok r(1)] r show ?thesis by simp
qed

end
