(* ===== verification/Framing.thy ===== *)
theory Framing
  imports Prelude
begin

text \<open>
  Framing of the reporting events inside the game's own log file
  (\<open>src/shared/native_log_framing.cpp\<close>): selecting the lines that carry an event, deciding
  which run an event belongs to, escaping UTF-16 metadata into printable JSON, and
  preparing and re-checking the wide message handed to the native log.

  A buffer and its explicit size are one byte list.  A code unit of a wide string is a
  \<open>16 word\<close>.
\<close>

section \<open>Constants\<close>

definition kMessageLimit :: nat where "kMessageLimit = 8192"
definition kPrefixLimit :: nat where "kPrefixLimit = 128"
definition kMarker :: "byte list" where "kMarker = bytes_of ''[RS2ServerFix:event] ''"

datatype PrefixMode = LogOnly | ElapsedTime

datatype LineKind = Line_Unrelated | Line_Incomplete | Line_Frame | Line_Malformed

record LineView =
  lv_kind :: LineKind
  messageOffset :: nat
  messageBytes :: nat

definition line_view :: "LineKind \<Rightarrow> nat \<Rightarrow> nat \<Rightarrow> LineView" where
  "line_view k off n = \<lparr>lv_kind = k, messageOffset = off, messageBytes = n\<rparr>"

section \<open>Matching the prefix\<close>

datatype Match = Match_No | Match_Partial | Match_Yes

text \<open>\<open>Literal\<close> returns the verdict and the advanced position.\<close>

fun Literal :: "byte list \<Rightarrow> nat \<Rightarrow> byte list \<Rightarrow> Match \<times> nat" where
  "Literal bs at [] = (Match_Yes, at)"
| "Literal bs at (c # cs) =
     (if at = length bs then (Match_Partial, at)
      else if bs ! at \<noteq> c then (Match_No, Suc at) else Literal bs (Suc at) cs)"

definition Digit :: "byte \<Rightarrow> bool" where
  "Digit c \<longleftrightarrow> 0x30 \<le> c \<and> c \<le> 0x39"

text \<open>The digit loop; \<open>None\<close> is its early \<open>return Match::No\<close>.\<close>

function digits_loop :: "byte list \<Rightarrow> nat \<Rightarrow> nat option" where
  "digits_loop bs at =
     (if at < length bs \<and> Digit (bs ! at)
      then if at \<ge> kPrefixLimit - 10 then None else digits_loop bs (Suc at)
      else Some at)"
  by pat_completeness auto
termination by (relation "measure (\<lambda>(bs, at). length bs - at)") auto

declare digits_loop.simps [simp del]

fun hundredths_loop :: "nat \<Rightarrow> byte list \<Rightarrow> nat \<Rightarrow> Match \<times> nat" where
  "hundredths_loop 0 bs at = (Match_Yes, at)"
| "hundredths_loop (Suc n) bs at =
     (if at = length bs then (Match_Partial, at)
      else if \<not> Digit (bs ! at) then (Match_No, Suc at) else hundredths_loop n bs (Suc at))"

definition Prefix :: "byte list \<Rightarrow> nat \<Rightarrow> PrefixMode \<Rightarrow> Match \<times> nat" where
  "Prefix bs at mode =
     (if mode = LogOnly then Literal bs at (bytes_of ''Log: '')
      else case Literal bs at (bytes_of ''['') of (match, at) \<Rightarrow>
        if match \<noteq> Match_Yes then (match, at)
        else if at = length bs then (Match_Partial, at)
        else
          let negative = (bs ! at = 0x2D); at = (if negative then Suc at else at); first = at in
          case digits_loop bs at of
            None \<Rightarrow> (Match_No, at)
          | Some at \<Rightarrow>
              if at = length bs then (Match_Partial, at)
              else
                let digits = at - first; minimum = (if negative then 3 else 4) in
                if digits < minimum \<or> (digits > minimum \<and> bs ! first = 0x30) then (Match_No, at)
                else case Literal bs at (bytes_of ''.'') of (match, at) \<Rightarrow>
                  if match \<noteq> Match_Yes then (match, at)
                  else case hundredths_loop 2 bs at of (match, at) \<Rightarrow>
                    if match \<noteq> Match_Yes then (match, at)
                    else Literal bs at (bytes_of ''] Log: ''))"

section \<open>Inspecting a line\<close>

definition InspectLine :: "byte list \<Rightarrow> PrefixMode \<Rightarrow> bool \<Rightarrow> LineView" where
  "InspectLine bs mode complete =
     (let unrelated = line_view Line_Unrelated 0 0; incomplete = line_view Line_Incomplete 0 0;
          size = length bs in
      case Prefix bs 0 mode of (prefix, at) \<Rightarrow>
        if prefix = Match_No then unrelated
        else if prefix = Match_Partial then (if complete then unrelated else incomplete)
        else if at > kPrefixLimit then unrelated
        else
          let offset = at in
          case Literal bs at kMarker of (marker, at) \<Rightarrow>
            if marker = Match_No then unrelated
            else if marker = Match_Partial then (if complete then unrelated else incomplete)
            else if \<not> complete then line_view Line_Incomplete offset (size - offset)
            else if size < at + 2 \<or> size - offset > kMessageLimit + 2 \<or>
                    bs ! (size - 2) \<noteq> 0x0D \<or> bs ! (size - 1) \<noteq> 0x0A
              then line_view Line_Malformed offset (size - offset)
            else if list_ex (\<lambda>b. b < 0x20 \<or> b > 0x7e) (slice offset (size - 2 - offset) bs)
              then line_view Line_Malformed offset (size - offset)
            else line_view Line_Frame offset (size - 2 - offset))"

section \<open>Which run an event belongs to\<close>

definition run_lead :: "byte list" where
  "run_lead = bytes_of ''{\"schema\":3,\"type\":\"''"

definition run_key :: "byte list" where
  "run_key = bytes_of ''\",\"run_id\":\"''"

definition hex_lower :: "byte list" where
  "hex_lower = bytes_of ''0123456789abcdef''"

definition type_char :: "byte \<Rightarrow> bool" where
  "type_char c \<longleftrightarrow> (0x61 \<le> c \<and> c \<le> 0x7a) \<or> c = 0x2D"

function type_loop :: "byte list \<Rightarrow> nat \<Rightarrow> nat \<Rightarrow> nat" where
  "type_loop bs begin at =
     (if at < length bs \<and> at - begin < 32 \<and> type_char (bs ! at)
      then type_loop bs begin (Suc at) else at)"
  by pat_completeness auto
termination by (relation "measure (\<lambda>(bs, begin, at). length bs - at)") auto

declare type_loop.simps [simp del]

fun run_id_loop :: "byte list \<Rightarrow> nat \<Rightarrow> byte list \<Rightarrow> nat option" where
  "run_id_loop bs at [] = Some at"
| "run_id_loop bs at (v # vs) =
     (if length bs - at < 2 \<or> bs ! at \<noteq> hex_lower ! unat (drop_bit 4 v) \<or>
         bs ! (at + 1) \<noteq> hex_lower ! unat (and v 15) then None
      else run_id_loop bs (at + 2) vs)"

definition BelongsToRun :: "byte list \<Rightarrow> byte list \<Rightarrow> bool" where
  "BelongsToRun message runId =
     (case Literal message 0 kMarker of (m, at) \<Rightarrow>
        m = Match_Yes \<and>
        (case Literal message at run_lead of (m, at) \<Rightarrow>
          m = Match_Yes \<and>
          (let typeBegin = at; at = type_loop message typeBegin at in
           at \<noteq> typeBegin \<and>
           (case Literal message at run_key of (m, at) \<Rightarrow>
             m = Match_Yes \<and>
             (case run_id_loop message at runId of
                None \<Rightarrow> False
              | Some at \<Rightarrow> at < length message \<and> message ! at = 0x22)))))"

section \<open>Escaping\<close>

text \<open>\<open>put\<close> refuses the character that would not leave room for the terminator.\<close>

definition put :: "nat \<Rightarrow> byte \<Rightarrow> byte list \<Rightarrow> byte list option" where
  "put capacity c out = (if length out \<ge> capacity - 1 then None else Some (out @ [c]))"

fun puts :: "nat \<Rightarrow> byte list \<Rightarrow> byte list \<Rightarrow> byte list option" where
  "puts capacity [] out = Some out"
| "puts capacity (c # cs) out =
     (case put capacity c out of None \<Rightarrow> None | Some out \<Rightarrow> puts capacity cs out)"

text \<open>The characters one code unit is written as, in the order of the \<open>put\<close> calls.\<close>

definition escape_unit :: "16 word \<Rightarrow> byte list" where
  "escape_unit v =
     (if v = 0x22 \<or> v = 0x5C then [0x5C, ucast v]
      else if 0x20 \<le> v \<and> v \<le> 0x7e then [ucast v]
      else [0x5C, 0x75] @ map (\<lambda>shift. hex_lower ! unat (and (drop_bit shift v) 15)) [12, 8, 4, 0])"

fun escape_loop :: "nat \<Rightarrow> 16 word list \<Rightarrow> byte list \<Rightarrow> byte list option" where
  "escape_loop capacity [] out = Some out"
| "escape_loop capacity (v # vs) out =
     (case puts capacity (escape_unit v) out of
        None \<Rightarrow> None | Some out \<Rightarrow> escape_loop capacity vs out)"

text \<open>
  \<open>Some out\<close> is success with \<open>out\<close> written before the terminator (\<open>*written\<close> is its length);
  \<open>None\<close> is failure, which leaves an empty string.
\<close>

definition EscapeJsonUtf16 :: "16 word list \<Rightarrow> nat \<Rightarrow> byte list option" where
  "EscapeJsonUtf16 text capacity =
     (if capacity = 0 \<or> length text > 1023 then None
      else case put capacity 0x22 [] of
        None \<Rightarrow> None
      | Some out \<Rightarrow> (case escape_loop capacity text out of
          None \<Rightarrow> None
        | Some out \<Rightarrow> put capacity 0x22 out))"

section \<open>The wide message\<close>

definition PrepareMessage :: "byte list \<Rightarrow> nat \<Rightarrow> 16 word list option" where
  "PrepareMessage ascii capacity =
     (if length ascii < length kMarker \<or> length ascii > kMessageLimit \<or> capacity \<le> length ascii
      then None
      else if list_ex (\<lambda>i. ascii ! i < 0x20 \<or> ascii ! i > 0x7e \<or>
                (i < length kMarker \<and> ascii ! i \<noteq> kMarker ! i)) [0..<length ascii] then None
      else Some (map ucast ascii @ [0]))"

definition ValidMessage :: "16 word list \<Rightarrow> nat \<Rightarrow> bool" where
  "ValidMessage message chars \<longleftrightarrow>
     \<not> (chars < length kMarker \<or> chars > kMessageLimit \<or> message ! chars \<noteq> 0) \<and>
     \<not> list_ex (\<lambda>i. message ! i < 0x20 \<or> message ! i > 0x7e \<or>
          (i < length kMarker \<and> message ! i \<noteq> ucast (kMarker ! i))) [0..<chars]"

section \<open>The grammar of an event line\<close>

text \<open>
  What the code is meant to select, as a grammar: the engine's prefix in either mode, a
  marked printable message of bounded size, and the line end.
\<close>

definition elapsed_prefix :: "bool \<Rightarrow> byte list \<Rightarrow> byte \<Rightarrow> byte \<Rightarrow> byte list" where
  "elapsed_prefix negative ds a b =
     bytes_of ''['' @ (if negative then [0x2D] else []) @ ds @ bytes_of ''.'' @ [a, b] @
     bytes_of ''] Log: ''"

definition elapsed_digits :: "bool \<Rightarrow> byte list \<Rightarrow> bool" where
  "elapsed_digits negative ds \<longleftrightarrow>
     list_all Digit ds \<and> (if negative then 3 else 4) \<le> length ds \<and>
     (length ds > (if negative then 3 else 4) \<longrightarrow> hd ds \<noteq> 0x30)"

definition engine_prefix :: "PrefixMode \<Rightarrow> byte list \<Rightarrow> bool" where
  "engine_prefix mode p \<longleftrightarrow>
     (case mode of
        LogOnly \<Rightarrow> p = bytes_of ''Log: ''
      | ElapsedTime \<Rightarrow> (\<exists>negative ds a b. p = elapsed_prefix negative ds a b \<and>
          elapsed_digits negative ds \<and> Digit a \<and> Digit b \<and> length p \<le> kPrefixLimit))"

definition event_text :: "byte list \<Rightarrow> bool" where
  "event_text msg \<longleftrightarrow> take (length kMarker) msg = kMarker \<and> list_all printable msg \<and>
     length msg \<le> kMessageLimit"

definition crlf :: "byte list" where "crlf = [0x0D, 0x0A]"

subsection \<open>The matchers against the grammar\<close>

lemma Literal_Yes_iff:
  "Literal (pre @ rest) (length pre) lit = (Match_Yes, at) \<longleftrightarrow>
   (\<exists>r. rest = lit @ r) \<and> at = length pre + length lit"
proof (induction lit arbitrary: pre rest)
  case Nil
  then show ?case by auto
next
  case (Cons c cs)
  show ?case
  proof (cases rest)
    case Nil
    then show ?thesis by simp
  next
    case (Cons b bs)
    show ?thesis using Cons.IH [of "pre @ [b]" bs] Cons by (auto simp: nth_append)
  qed
qed

lemma Literal_Yes_at:
  "bs = pre @ rest \<Longrightarrow> a0 = length pre \<Longrightarrow>
   Literal bs a0 lit = (Match_Yes, at) \<longleftrightarrow> (\<exists>r. rest = lit @ r) \<and> at = a0 + length lit"
  by (simp add: Literal_Yes_iff)

lemma Literal_bound: "at \<le> length bs \<Longrightarrow> snd (Literal bs at lit) \<le> length bs"
  by (induction bs at lit rule: Literal.induct) auto

lemma Literal_append:
  "at \<le> length bs \<Longrightarrow> Literal bs at lit = (m, at') \<Longrightarrow> m \<noteq> Match_Partial \<Longrightarrow>
   Literal (bs @ ext) at lit = (m, at')"
  by (induction bs at lit rule: Literal.induct) (auto simp: nth_append split: if_splits)

lemma digits_loop_eq:
  "digits_loop (pre @ rest) (length pre) =
   (let n = length (takeWhile Digit rest) in
    if n > 0 \<and> length pre + n > kPrefixLimit - 10 then None else Some (length pre + n))"
proof (induction rest arbitrary: pre)
  case Nil
  then show ?case by (simp add: digits_loop.simps)
next
  case (Cons b bs)
  show ?case using Cons.IH [of "pre @ [b]"]
    by (subst digits_loop.simps) (auto simp: Let_def nth_append kPrefixLimit_def)
qed

lemma digits_loop_append:
  "digits_loop bs at = None \<Longrightarrow> digits_loop (bs @ ext) at = None"
  "digits_loop bs at = Some a \<Longrightarrow> a < length bs \<Longrightarrow> digits_loop (bs @ ext) at = Some a"
proof (induction bs at rule: digits_loop.induct)
  case (1 bs at)
  show "digits_loop bs at = None \<Longrightarrow> digits_loop (bs @ ext) at = None"
    using "1.IH"(1) by (subst (asm) digits_loop.simps, subst digits_loop.simps)
      (auto simp: nth_append split: if_splits)
  show "digits_loop bs at = Some a \<Longrightarrow> a < length bs \<Longrightarrow> digits_loop (bs @ ext) at = Some a"
    using "1.IH"(2) by (subst (asm) digits_loop.simps, subst digits_loop.simps)
      (auto simp: nth_append split: if_splits)
qed

lemma digits_loop_bound: "digits_loop bs at = Some a \<Longrightarrow> at \<le> length bs \<Longrightarrow> at \<le> a \<and> a \<le> length bs"
proof (induction bs at rule: digits_loop.induct)
  case (1 bs at)
  show ?case using "1.IH" "1.prems"
    by (subst (asm) digits_loop.simps) (auto simp: Suc_leD split: if_splits)
qed

lemma hundredths_Yes_iff:
  "hundredths_loop n (pre @ rest) (length pre) = (Match_Yes, at) \<longleftrightarrow>
   n \<le> length rest \<and> list_all Digit (take n rest) \<and> at = length pre + n"
proof (induction n arbitrary: pre rest)
  case 0
  then show ?case by auto
next
  case (Suc n)
  show ?case
  proof (cases rest)
    case Nil
    then show ?thesis by simp
  next
    case (Cons b bs)
    show ?thesis using Suc.IH [of "pre @ [b]" bs] Cons by (auto simp: nth_append)
  qed
qed

lemma hundredths_append:
  "at \<le> length bs \<Longrightarrow> hundredths_loop n bs at = (m, at') \<Longrightarrow> m \<noteq> Match_Partial \<Longrightarrow>
   hundredths_loop n (bs @ ext) at = (m, at')"
  by (induction n bs at rule: hundredths_loop.induct) (auto simp: nth_append split: if_splits)

lemma hundredths_bound: "at \<le> length bs \<Longrightarrow> snd (hundredths_loop n bs at) \<le> length bs"
  by (induction n bs at rule: hundredths_loop.induct) auto

text \<open>The part of \<open>Prefix\<close> behind the optional sign.\<close>

definition prefix_digits :: "byte list \<Rightarrow> nat \<Rightarrow> bool \<Rightarrow> Match \<times> nat" where
  "prefix_digits bs at negative =
     (let first = at in
      case digits_loop bs at of
        None \<Rightarrow> (Match_No, at)
      | Some at \<Rightarrow>
          if at = length bs then (Match_Partial, at)
          else
            let digits = at - first; minimum = (if negative then 3 else 4) in
            if digits < minimum \<or> (digits > minimum \<and> bs ! first = 0x30) then (Match_No, at)
            else case Literal bs at (bytes_of ''.'') of (match, at) \<Rightarrow>
              if match \<noteq> Match_Yes then (match, at)
              else case hundredths_loop 2 bs at of (match, at) \<Rightarrow>
                if match \<noteq> Match_Yes then (match, at)
                else Literal bs at (bytes_of ''] Log: ''))"

lemma Prefix_alt:
  "Prefix bs at ElapsedTime =
   (case Literal bs at (bytes_of ''['') of (match, at) \<Rightarrow>
      if match \<noteq> Match_Yes then (match, at)
      else if at = length bs then (Match_Partial, at)
      else if bs ! at = 0x2D then prefix_digits bs (Suc at) True else prefix_digits bs at False)"
proof -
  obtain m a where l: "Literal bs at (bytes_of ''['') = (m, a)" by fastforce
  show ?thesis by (cases "bs ! a = 0x2D") (simp_all add: Prefix_def prefix_digits_def l Let_def)
qed

lemma takeWhile_Digit_dot:
  "list_all Digit ds \<Longrightarrow> takeWhile Digit (ds @ bytes_of ''.'' @ r) = ds"
  by (induction ds) (simp_all add: bytes_of_def Digit_def)

lemma prefix_digits_Yes_iff:
  "prefix_digits (pre @ r) (length pre) neg = (Match_Yes, at) \<longleftrightarrow>
   (\<exists>ds a b rest. r = ds @ bytes_of ''.'' @ [a, b] @ bytes_of ''] Log: '' @ rest \<and>
      elapsed_digits neg ds \<and> Digit a \<and> Digit b \<and> length pre + length ds \<le> 118 \<and>
      at = length pre + length ds + 10)" (is "?L \<longleftrightarrow> ?R")
proof
  assume L: ?L
  define ds where "ds = takeWhile Digit r"
  define r3 where "r3 = dropWhile Digit r"
  have r: "r = ds @ r3" by (simp add: ds_def r3_def)
  let ?m = "if neg then 3 else 4 :: nat"
  have dl: "digits_loop (pre @ r) (length pre) = Some (length pre + length ds)"
    and len: "ds = [] \<or> length pre + length ds \<le> 118"
    using L by (auto simp: prefix_digits_def digits_loop_eq Let_def kPrefixLimit_def ds_def split: if_splits)
  have c: "?m \<le> length ds" "length ds > ?m \<longrightarrow> (pre @ r) ! length pre \<noteq> 0x30"
    using L by (auto simp: prefix_digits_def dl Let_def split: if_splits)
  then have ds: "ds \<noteq> []" by (auto split: if_splits)
  have hd: "(pre @ r) ! length pre = hd ds" using ds by (simp add: r nth_append hd_conv_nth)
  from L obtain a1 where l1: "Literal (pre @ r) (length pre + length ds) (bytes_of ''.'') = (Match_Yes, a1)"
    and L1: "(case hundredths_loop 2 (pre @ r) a1 of (match, at) \<Rightarrow>
                if match \<noteq> Match_Yes then (match, at)
                else Literal (pre @ r) at (bytes_of ''] Log: '')) = (Match_Yes, at)"
    by (auto simp: prefix_digits_def dl Let_def split: if_splits prod.splits)
  from l1 Literal_Yes_iff [of "pre @ ds" r3 "bytes_of ''.''" a1]
  obtain r4 where r4: "r3 = bytes_of ''.'' @ r4" "a1 = length pre + length ds + 1"
    by (auto simp: r)
  from L1 obtain a2 where l2: "hundredths_loop 2 (pre @ r) a1 = (Match_Yes, a2)"
    and l3: "Literal (pre @ r) a2 (bytes_of ''] Log: '') = (Match_Yes, at)"
    by (auto split: if_splits prod.splits)
  from l2 hundredths_Yes_iff [of 2 "pre @ ds @ bytes_of ''.''" r4 a2]
  have h: "2 \<le> length r4" "list_all Digit (take 2 r4)" "a2 = length pre + length ds + 3"
    by (auto simp: r r4)
  then obtain a b r5 where r5: "r4 = a # b # r5" by (cases r4; cases "tl r4") auto
  have "(\<exists>rest. r5 = bytes_of ''] Log: '' @ rest) \<and> at = a2 + length (bytes_of ''] Log: '')"
    by (rule Literal_Yes_at [THEN iffD1, OF _ _ l3, of "pre @ ds @ bytes_of ''.'' @ [a, b]"])
      (simp_all add: r r4 r5 h)
  then obtain rest where "r5 = bytes_of ''] Log: '' @ rest" "at = length pre + length ds + 10"
    by (auto simp: h)
  moreover have "elapsed_digits neg ds"
    using c ds set_takeWhileD [of _ Digit r] by (auto simp: elapsed_digits_def hd list_all_iff ds_def)
  ultimately show ?R using len ds h r r4 r5 by (intro exI [of _ ds] exI [of _ a] exI [of _ b] exI [of _ rest]) auto
next
  assume ?R
  then obtain ds a b rest where
    r: "r = ds @ bytes_of ''.'' @ [a, b] @ bytes_of ''] Log: '' @ rest" and d: "elapsed_digits neg ds"
    and ab: "Digit a" "Digit b" and len: "length pre + length ds \<le> 118"
    and at: "at = length pre + length ds + 10" by blast
  let ?m = "if neg then 3 else 4 :: nat"
  have tw: "takeWhile Digit r = ds" unfolding r
    using d by (intro takeWhile_Digit_dot) (simp add: elapsed_digits_def)
  have dl: "digits_loop (pre @ r) (length pre) = Some (length pre + length ds)"
    using len by (simp add: digits_loop_eq tw Let_def kPrefixLimit_def)
  have m: "?m \<le> length ds" "length ds > ?m \<longrightarrow> hd ds \<noteq> 0x30" using d by (simp_all add: elapsed_digits_def)
  then have "ds \<noteq> []" by (auto split: if_splits)
  then have hd: "(pre @ r) ! length pre = hd ds" by (simp add: r nth_append hd_conv_nth)
  have l1: "Literal (pre @ r) (length pre + length ds) (bytes_of ''.'') = (Match_Yes, length pre + length ds + 1)"
    using Literal_Yes_iff [of "pre @ ds" "bytes_of ''.'' @ [a, b] @ bytes_of ''] Log: '' @ rest" "bytes_of ''.''"
        "length pre + length ds + 1"] by (auto simp: r)
  have l2: "hundredths_loop 2 (pre @ r) (length pre + length ds + 1) = (Match_Yes, length pre + length ds + 3)"
    using hundredths_Yes_iff [of 2 "pre @ ds @ bytes_of ''.''" "[a, b] @ bytes_of ''] Log: '' @ rest"
        "length pre + length ds + 3"] ab by (auto simp: r)
  have l3: "Literal (pre @ r) (length pre + length ds + 3) (bytes_of ''] Log: '') = (Match_Yes, at)"
    by (rule Literal_Yes_at [of _ "pre @ ds @ bytes_of ''.'' @ [a, b]" "bytes_of ''] Log: '' @ rest", THEN iffD2])
      (simp_all add: r at)
  have ne: "length pre + length ds \<noteq> length (pre @ r)" by (simp add: r)
  have dg: "length pre + length ds - length pre = length ds" by simp
  have ok: "(length ds < ?m \<or> length ds > ?m \<and> hd ds = 0x30) = False" using m by auto
  show ?L unfolding prefix_digits_def dl Let_def option.case dg hd ok
    by (simp only: ne l1 l2 l3 prod.case if_False not_True_eq_False simp_thms)
qed

lemma length_elapsed_prefix:
  "length (elapsed_prefix neg ds a b) = (if neg then 12 else 11) + length ds"
  by (simp add: elapsed_prefix_def)

lemma prefix_digits_grammar:
  assumes bs: "bs = bytes_of ''['' @ (if neg then [0x2D] else []) @ r"
    and at0: "at0 = (if neg then 2 else 1)"
  shows "prefix_digits bs at0 neg = (Match_Yes, at) \<longleftrightarrow>
    (\<exists>ds a b rest. bs = elapsed_prefix neg ds a b @ rest \<and> elapsed_digits neg ds \<and> Digit a \<and> Digit b \<and>
       length (elapsed_prefix neg ds a b) \<le> kPrefixLimit \<and> at = length (elapsed_prefix neg ds a b))"
proof -
  let ?pre = "bytes_of ''['' @ (if neg then [0x2D] else [])"
  have len: "at0 = length ?pre" by (simp add: at0)
  have eq: "bs = ?pre @ r" by (simp add: bs)
  show ?thesis
    unfolding eq len prefix_digits_Yes_iff length_elapsed_prefix
    by (cases neg) (simp_all add: elapsed_prefix_def kPrefixLimit_def)
qed

lemma elapsed_sign:
  "bs = elapsed_prefix neg ds a b @ rest \<Longrightarrow> elapsed_digits neg ds \<Longrightarrow>
   bs ! 0 = 0x5B \<and> 1 < length bs \<and> (bs ! 1 = 0x2D \<longleftrightarrow> neg)"
  by (cases ds) (auto simp: elapsed_prefix_def elapsed_digits_def bytes_of_def Digit_def split: if_splits)

lemma Prefix_Yes_iff:
  "Prefix bs 0 mode = (Match_Yes, at) \<longleftrightarrow>
   (\<exists>p rest. bs = p @ rest \<and> engine_prefix mode p \<and> at = length p)"
proof (cases mode)
  case LogOnly
  then show ?thesis using Literal_Yes_iff [of "[]" bs "bytes_of ''Log: ''" at]
    by (auto simp: Prefix_def engine_prefix_def)
next
  case ElapsedTime
  let ?lb = "bytes_of ''[''"
  have lb: "?lb = [0x5B]" by (simp add: bytes_of_def)
  show ?thesis
  proof (cases "\<exists>c r. bs = 0x5B # c # r")
    case False
    have "Prefix bs 0 ElapsedTime \<noteq> (Match_Yes, at)"
      using False by (cases bs; cases "tl bs") (auto simp: Prefix_alt lb)
    moreover have "\<not> (\<exists>p rest. bs = p @ rest \<and> engine_prefix ElapsedTime p)"
    proof
      assume "\<exists>p rest. bs = p @ rest \<and> engine_prefix ElapsedTime p"
      then obtain neg ds a b rest where "bs = elapsed_prefix neg ds a b @ rest" "elapsed_digits neg ds"
        by (auto simp: engine_prefix_def)
      from elapsed_sign [OF this] False show False by (cases bs; cases "tl bs") auto
    qed
    ultimately show ?thesis using ElapsedTime by auto
  next
    case True
    then obtain c r where bs: "bs = 0x5B # c # r" by blast
    define neg where "neg \<longleftrightarrow> c = 0x2D"
    let ?r = "if neg then r else c # r"
    have P: "Prefix bs 0 ElapsedTime = prefix_digits bs (if neg then 2 else 1) neg"
      by (simp add: Prefix_alt lb bs neg_def numeral_2_eq_2)
    have G: "Prefix bs 0 mode = (Match_Yes, at) \<longleftrightarrow>
      (\<exists>ds a b rest. bs = elapsed_prefix neg ds a b @ rest \<and> elapsed_digits neg ds \<and> Digit a \<and> Digit b \<and>
         length (elapsed_prefix neg ds a b) \<le> kPrefixLimit \<and> at = length (elapsed_prefix neg ds a b))"
      unfolding ElapsedTime P by (rule prefix_digits_grammar [of _ _ ?r]) (simp_all add: bs lb neg_def)
    show ?thesis unfolding G unfolding ElapsedTime
    proof (intro iffI)
      assume "\<exists>p rest. bs = p @ rest \<and> engine_prefix PrefixMode.ElapsedTime p \<and> at = length p"
      then obtain neg' ds a b rest where e: "bs = elapsed_prefix neg' ds a b @ rest"
        "elapsed_digits neg' ds" "Digit a" "Digit b" "length (elapsed_prefix neg' ds a b) \<le> kPrefixLimit"
        "at = length (elapsed_prefix neg' ds a b)"
        by (auto simp: engine_prefix_def)
      from elapsed_sign [OF e(1,2)] have "neg' = neg" by (simp add: bs neg_def)
      with e show "\<exists>ds a b rest. bs = elapsed_prefix neg ds a b @ rest \<and> elapsed_digits neg ds \<and>
          Digit a \<and> Digit b \<and> length (elapsed_prefix neg ds a b) \<le> kPrefixLimit \<and>
          at = length (elapsed_prefix neg ds a b)" by blast
    next
      assume "\<exists>ds a b rest. bs = elapsed_prefix neg ds a b @ rest \<and> elapsed_digits neg ds \<and>
          Digit a \<and> Digit b \<and> length (elapsed_prefix neg ds a b) \<le> kPrefixLimit \<and>
          at = length (elapsed_prefix neg ds a b)"
      then obtain ds a b rest where e: "bs = elapsed_prefix neg ds a b @ rest" "elapsed_digits neg ds"
        "Digit a" "Digit b" "length (elapsed_prefix neg ds a b) \<le> kPrefixLimit"
        "at = length (elapsed_prefix neg ds a b)" by blast
      then have "engine_prefix PrefixMode.ElapsedTime (elapsed_prefix neg ds a b)"
        unfolding engine_prefix_def by auto
      with e show "\<exists>p rest. bs = p @ rest \<and> engine_prefix PrefixMode.ElapsedTime p \<and> at = length p"
        by blast
    qed
  qed
qed

lemma engine_prefix_bound: "engine_prefix mode p \<Longrightarrow> length p \<le> kPrefixLimit"
  by (cases mode) (auto simp: engine_prefix_def kPrefixLimit_def)

subsection \<open>Inspecting a line\<close>

lemma line_view_eq: "line_view k a b = line_view k' a' b' \<longleftrightarrow> k = k' \<and> a = a' \<and> b = b'"
  by (simp add: line_view_def)

lemma lv_kind_line_view [simp]: "lv_kind (line_view k a b) = k"
  and messageOffset_line_view [simp]: "messageOffset (line_view k a b) = a"
  and messageBytes_line_view [simp]: "messageBytes (line_view k a b) = b"
  by (simp_all add: line_view_def)

lemma length_kMarker [simp]: "length kMarker = 21"
  by (simp add: kMarker_def)

lemma printable_kMarker: "list_all printable kMarker"
  by (simp add: kMarker_def bytes_of_def printable_def)

lemma not_printable_iff: "b < 0x20 \<or> 0x7e < b \<longleftrightarrow> \<not> printable b"
  by (auto simp: printable_def not_less)

text \<open>The code behind an accepted prefix, over the rest of the line.\<close>

definition after_prefix :: "byte list \<Rightarrow> nat \<Rightarrow> bool \<Rightarrow> LineView" where
  "after_prefix bs offset complete =
     (case Literal bs offset kMarker of (marker, at) \<Rightarrow>
        if marker = Match_No then line_view Line_Unrelated 0 0
        else if marker = Match_Partial
          then (if complete then line_view Line_Unrelated 0 0 else line_view Line_Incomplete 0 0)
        else if \<not> complete then line_view Line_Incomplete offset (length bs - offset)
        else if length bs < at + 2 \<or> length bs - offset > kMessageLimit + 2 \<or>
                bs ! (length bs - 2) \<noteq> 0x0D \<or> bs ! (length bs - 1) \<noteq> 0x0A
          then line_view Line_Malformed offset (length bs - offset)
        else if list_ex (\<lambda>b. b < 0x20 \<or> b > 0x7e) (slice offset (length bs - 2 - offset) bs)
          then line_view Line_Malformed offset (length bs - offset)
        else line_view Line_Frame offset (length bs - 2 - offset))"

lemma InspectLine_alt:
  "InspectLine bs mode complete =
     (case Prefix bs 0 mode of (prefix, at) \<Rightarrow>
        if prefix = Match_No then line_view Line_Unrelated 0 0
        else if prefix = Match_Partial
          then (if complete then line_view Line_Unrelated 0 0 else line_view Line_Incomplete 0 0)
        else if at > kPrefixLimit then line_view Line_Unrelated 0 0
        else after_prefix bs at complete)"
  unfolding InspectLine_def after_prefix_def Let_def ..

lemma two_suffix:
  assumes "2 \<le> length xs"
  shows "\<exists>ys. xs = ys @ [xs ! (length xs - 2), xs ! (length xs - 1)]"
proof -
  obtain ys b where xs: "xs = ys @ [b]" using assms by (cases xs rule: rev_cases) auto
  with assms have "ys \<noteq> []" by auto
  then obtain zs a where "xs = zs @ [a, b]" using xs by (cases ys rule: rev_cases) auto
  then show ?thesis by (auto simp: nth_append)
qed

lemma after_prefix_Frame:
  "after_prefix (p @ rest) (length p) True = line_view Line_Frame off n \<longleftrightarrow>
   (\<exists>msg. rest = msg @ crlf \<and> event_text msg \<and> off = length p \<and> n = length msg)" (is "?L \<longleftrightarrow> ?R")
proof
  assume L: ?L
  let ?bs = "p @ rest"
  obtain m a where l: "Literal ?bs (length p) kMarker = (m, a)" by fastforce
  from L l have m: "m = Match_Yes"
    by (cases m) (simp_all add: after_prefix_def line_view_eq split: if_splits)
  from l [unfolded m] Literal_Yes_iff [of p rest kMarker a] obtain r where
    r: "rest = kMarker @ r" and a: "a = length p + 21" by auto
  have c: "\<not> length ?bs < a + 2" "\<not> length ?bs - length p > kMessageLimit + 2"
    "?bs ! (length ?bs - 2) = 0x0D" "?bs ! (length ?bs - 1) = 0x0A"
    "\<not> list_ex (\<lambda>b. b < 0x20 \<or> b > 0x7e) (slice (length p) (length ?bs - 2 - length p) ?bs)"
    "off = length p" "n = length ?bs - 2 - length p"
    using L unfolding after_prefix_def l m by (simp_all add: line_view_eq split: if_splits)
  from c(1) have "2 \<le> length r" by (simp add: r a)
  then obtain y where y: "r = y @ [r ! (length r - 2), r ! (length r - 1)]" using two_suffix by blast
  have "r ! (length r - 2) = 0x0D" "r ! (length r - 1) = 0x0A"
    using c(3,4) nth_append_length_plus [of "p @ kMarker" r "length r - 2"]
      nth_append_length_plus [of "p @ kMarker" r "length r - 1"] \<open>2 \<le> length r\<close>
    by (simp_all add: r)
  with y have r2: "rest = (kMarker @ y) @ crlf" by (simp add: r crlf_def)
  have "slice (length p) (length ?bs - 2 - length p) ?bs = kMarker @ y"
    by (simp add: r2 slice_def crlf_def)
  with c(5) have "list_all printable (kMarker @ y)"
    by (simp add: not_printable_iff list_ex_iff list_all_iff)
  moreover have "length (kMarker @ y) \<le> kMessageLimit" using c(2) by (simp add: r2 crlf_def)
  ultimately have "event_text (kMarker @ y)" by (simp add: event_text_def)
  with r2 c(6,7) show ?R by (intro exI [of _ "kMarker @ y"]) (simp add: crlf_def)
next
  assume ?R
  then obtain msg where rest: "rest = msg @ crlf" and e: "event_text msg" and
    off: "off = length p" "n = length msg" by blast
  from e obtain y where y: "msg = kMarker @ y"
    unfolding event_text_def by (metis append_take_drop_id)
  have l: "Literal (p @ rest) (length p) kMarker = (Match_Yes, length p + 21)"
    using Literal_Yes_iff [of p rest kMarker] by (auto simp: rest y)
  have "slice (length p) (length (p @ rest) - 2 - length p) (p @ rest) = msg"
    by (simp add: rest slice_def crlf_def)
  moreover have "\<not> list_ex (\<lambda>b. b < 0x20 \<or> b > 0x7e) msg"
    using e by (simp add: event_text_def not_printable_iff list_ex_iff list_all_iff)
  moreover have "(p @ rest) ! (length (p @ rest) - 2) = 0x0D" "(p @ rest) ! (length (p @ rest) - 1) = 0x0A"
    by (simp_all add: rest crlf_def nth_append)
  ultimately show ?L using e off unfolding after_prefix_def l
    by (simp add: rest y crlf_def event_text_def line_view_eq)
qed

text \<open>
  C35: Exactly the event lines are selected. A complete line is reported as a frame at an
  offset and size if and only if it is an engine prefix of the configured mode followed
  by a marked, printable message of at most 8192 bytes and CR LF, and the reported offset
  and size are those of the message.
\<close>

theorem inspect_line_frame_iff:
  "InspectLine bs mode True = line_view Line_Frame off n \<longleftrightarrow>
   (\<exists>p msg. bs = p @ msg @ crlf \<and> engine_prefix mode p \<and> event_text msg \<and>
      off = length p \<and> n = length msg)"
proof -
  obtain m at where P: "Prefix bs 0 mode = (m, at)" by fastforce
  show ?thesis
  proof (cases "m = Match_Yes")
    case False
    then have "\<not> (\<exists>p rest. bs = p @ rest \<and> engine_prefix mode p)"
      using Prefix_Yes_iff [of bs mode] P by auto
    with False show ?thesis
      by (cases m) (auto simp: InspectLine_alt P line_view_eq)
  next
    case True
    have sel: "bs = q @ rest \<Longrightarrow> engine_prefix mode q \<Longrightarrow> length q = at" for q rest
      using Prefix_Yes_iff [of bs mode "length q"] P by auto
    from Prefix_Yes_iff [of bs mode at] P True obtain p rest where
      p: "bs = p @ rest" "engine_prefix mode p" "at = length p" by auto
    have "InspectLine bs mode True = after_prefix bs (length p) True"
      using engine_prefix_bound [OF p(2)] by (simp add: InspectLine_alt P True p(3))
    moreover have "q = p \<and> r = rest" if "bs = q @ r" "engine_prefix mode q" for q r
      using sel [OF that] p that(1) by simp
    ultimately show ?thesis
      using after_prefix_Frame [of p rest off n] p by metis
  qed
qed

subsection \<open>A verdict on a partial line is final\<close>

lemma prefix_digits_append:
  assumes "at \<le> length bs" and "prefix_digits bs at neg = (m, a)" and "m \<noteq> Match_Partial"
  shows "prefix_digits (bs @ ext) at neg = (m, a)"
proof (cases "digits_loop bs at")
  case None
  then show ?thesis using assms digits_loop_append(1) [OF None, of ext] by (simp add: prefix_digits_def)
next
  case (Some b)
  have b: "at \<le> b" "b \<le> length bs" using digits_loop_bound [OF Some assms(1)] by auto
  show ?thesis
  proof (cases "b = length bs")
    case True
    then show ?thesis using assms Some by (simp add: prefix_digits_def)
  next
    case False
    have S: "digits_loop (bs @ ext) at = Some b"
      using digits_loop_append(2) [OF Some] b False by simp
    obtain m1 a1 where l1: "Literal bs b (bytes_of ''.'') = (m1, a1)" by fastforce
    obtain m2 a2 where l2: "hundredths_loop 2 bs a1 = (m2, a2)" by fastforce
    obtain m3 a3 where l3: "Literal bs a2 (bytes_of ''] Log: '') = (m3, a3)" by fastforce
    have a1: "a1 \<le> length bs" using Literal_bound [OF b(2), of "bytes_of ''.''"] l1 by simp
    have a2: "a2 \<le> length bs" using hundredths_bound [OF a1, of 2] l2 by simp
    have nth: "(bs @ ext) ! at = bs ! at" using b False by (simp add: nth_append)
    have ne: "b \<noteq> length (bs @ ext)" using b False by simp
    let ?bad = "b - at < (if neg then 3 else 4) \<or> b - at > (if neg then 3 else 4) \<and> bs ! at = 0x30"
    note e1 = Literal_append [OF b(2) l1, of ext]
    note e2 = hundredths_append [OF a1 l2, of ext]
    note e3 = Literal_append [OF a2 l3, of ext]
    have def1: "prefix_digits bs at neg = (if ?bad then (Match_No, b) else if m1 \<noteq> Match_Yes then (m1, a1)
        else if m2 \<noteq> Match_Yes then (m2, a2) else (m3, a3))"
      using False by (simp only: prefix_digits_def Some option.case Let_def l1 l2 l3 prod.case if_False)
    have def2: "prefix_digits (bs @ ext) at neg = (if ?bad then (Match_No, b)
        else case Literal (bs @ ext) b (bytes_of ''.'') of (match, at) \<Rightarrow>
              if match \<noteq> Match_Yes then (match, at)
              else case hundredths_loop 2 (bs @ ext) at of (match, at) \<Rightarrow>
                if match \<noteq> Match_Yes then (match, at)
                else Literal (bs @ ext) at (bytes_of ''] Log: ''))"
      using ne by (simp only: prefix_digits_def S option.case Let_def nth if_False)
    show ?thesis
    proof (cases ?bad)
      case True
      then show ?thesis using assms(2) unfolding def1 def2 by (simp only: if_True)
    next
      case False
      then have r: "(if m1 \<noteq> Match_Yes then (m1, a1) else if m2 \<noteq> Match_Yes then (m2, a2) else (m3, a3)) = (m, a)"
        using assms(2) unfolding def1 by (simp only: if_False)
      have "(case Literal (bs @ ext) b (bytes_of ''.'') of (match, at) \<Rightarrow>
              if match \<noteq> Match_Yes then (match, at)
              else case hundredths_loop 2 (bs @ ext) at of (match, at) \<Rightarrow>
                if match \<noteq> Match_Yes then (match, at)
                else Literal (bs @ ext) at (bytes_of ''] Log: '')) = (m, a)"
        using r assms(3) e1 e2 e3 by (auto split: if_splits)
      with False show ?thesis unfolding def2 by (simp only: if_False)
    qed
  qed
qed

lemma Prefix_append:
  assumes "Prefix bs 0 mode = (m, a)" and "m \<noteq> Match_Partial"
  shows "Prefix (bs @ ext) 0 mode = (m, a)"
proof (cases mode)
  case LogOnly
  then show ?thesis using assms Literal_append [of 0 bs] by (simp add: Prefix_def)
next
  case ElapsedTime
  obtain m1 a1 where l1: "Literal bs 0 (bytes_of ''['') = (m1, a1)" by fastforce
  have a1: "a1 \<le> length bs" using Literal_bound [of 0 bs "bytes_of ''[''"] l1 by simp
  note e1 = Literal_append [OF _ l1, of ext]
  show ?thesis
  proof (cases "m1 = Match_Yes \<and> a1 < length bs")
    case True
    then show ?thesis
      using assms ElapsedTime e1 prefix_digits_append [of "Suc a1" bs True m a ext]
        prefix_digits_append [of a1 bs False m a ext]
      by (simp add: Prefix_alt l1 nth_append split: if_splits)
  next
    case False
    then show ?thesis using assms ElapsedTime e1 a1
      by (auto simp: Prefix_alt l1 split: if_splits)
  qed
qed

text \<open>
  A verdict on a partial line is final. A line that is reported as unrelated while it
  is still being received stays unrelated whatever bytes follow, so its tail may be
  dropped unread; and once a partial line has been selected (its message offset is
  known), every later inspection keeps that offset and never calls it unrelated.
\<close>

theorem inspect_partial_final:
  assumes "lv_kind (InspectLine bs mode False) = Line_Unrelated \<or>
    0 < messageOffset (InspectLine bs mode False)"
  shows "(lv_kind (InspectLine (bs @ ext) mode c) = Line_Unrelated \<longleftrightarrow>
      lv_kind (InspectLine bs mode False) = Line_Unrelated) \<and>
    messageOffset (InspectLine (bs @ ext) mode c) = messageOffset (InspectLine bs mode False)"
proof -
  obtain m a where P: "Prefix bs 0 mode = (m, a)" by fastforce
  obtain m' a' where M: "Literal bs a kMarker = (m', a')" by fastforce
  have mp: "m \<noteq> Match_Partial" using assms by (auto simp: InspectLine_alt P)
  have P': "Prefix (bs @ ext) 0 mode = (m, a)" using Prefix_append [OF P mp] .
  show ?thesis
  proof (cases "m = Match_Yes \<and> a \<le> kPrefixLimit")
    case False
    with mp show ?thesis by (cases m) (auto simp: InspectLine_alt P P')
  next
    case True
    then have a: "a \<le> length bs" using Prefix_Yes_iff [of bs mode a] P by auto
    have "m' \<noteq> Match_Partial" using assms True by (auto simp: InspectLine_alt P after_prefix_def M)
    with Literal_append [OF a M, of ext] have "Literal (bs @ ext) a kMarker = (m', a')" by simp
    with True \<open>m' \<noteq> Match_Partial\<close> M show ?thesis
      by (cases m') (simp_all add: InspectLine_alt P P' after_prefix_def)
  qed
qed

lemma inspect_partial_final_witness:
  "lv_kind (InspectLine (bytes_of ''Log: chat [RS2ServerFix:event] {}'') LogOnly True) = Line_Unrelated"
proof -
  have v: "InspectLine (bytes_of ''Log: chat'') LogOnly False = line_view Line_Unrelated 0 0"
    by code_simp
  have t: "bytes_of ''Log: chat'' @ bytes_of '' [RS2ServerFix:event] {}'' =
      bytes_of ''Log: chat [RS2ServerFix:event] {}''"
    by (simp add: bytes_of_def)
  show ?thesis
    using inspect_partial_final [of "bytes_of ''Log: chat''" LogOnly "bytes_of '' [RS2ServerFix:event] {}''" True]
    by (simp only: v t lv_kind_line_view simp_thms)
qed

section \<open>The escaper is inverted by a JSON reader\<close>

definition json_quote :: "16 word list \<Rightarrow> byte list" where
  "json_quote text = [0x22] @ concat (map escape_unit text) @ [0x22]"

definition hex_lower_value :: "byte \<Rightarrow> nat" where
  "hex_lower_value b = (if 0x61 \<le> b then unat b - 87 else unat b - 48)"

text \<open>A reader of the quoted text, as a JSON parser reads it.\<close>

fun json_unescape :: "byte list \<Rightarrow> 16 word list option" where
  "json_unescape [] = None"
| "json_unescape (b # bs) =
     (if b = 0x22 then (if bs = [] then Some [] else None)
      else if b = 0x5C then
        (case bs of
           [] \<Rightarrow> None
         | c # cs \<Rightarrow>
             if c = 0x75 then
               (case cs of
                  h1 # h2 # h3 # h4 # r \<Rightarrow>
                    map_option (Cons (word_of_nat (((hex_lower_value h1 * 16 + hex_lower_value h2) * 16
                      + hex_lower_value h3) * 16 + hex_lower_value h4))) (json_unescape r)
                | _ \<Rightarrow> None)
             else if c = 0x22 \<or> c = 0x5C then map_option (Cons (ucast c)) (json_unescape cs)
             else None)
      else map_option (Cons (ucast b)) (json_unescape bs))"

definition json_unquote :: "byte list \<Rightarrow> 16 word list option" where
  "json_unquote bs = (case bs of [] \<Rightarrow> None | b # r \<Rightarrow> if b = 0x22 then json_unescape r else None)"

lemma hex_lower_nth:
  assumes "n < 16"
  shows "hex_lower_value (hex_lower ! n) = n \<and> printable (hex_lower ! n)"
proof -
  have "list_all (\<lambda>n. hex_lower_value (hex_lower ! n) = n \<and> printable (hex_lower ! n)) [0..<16]"
    by code_simp
  then show ?thesis using assms by (simp add: list_all_iff)
qed

lemma unit_nibble: "unat (and (drop_bit s v) 15 :: 16 word) = unat v div 2 ^ s mod 16"
  by (simp add: unat_and_15 unat_drop_bit_word)

lemma nibble_sum:
  assumes "(n :: nat) < 65536"
  shows "((n div 2 ^ 12 mod 16 * 16 + n div 2 ^ 8 mod 16) * 16 + n div 2 ^ 4 mod 16) * 16 + n div 2 ^ 0 mod 16 = n"
proof -
  define a where "a = n div 16"
  define b where "b = a div 16"
  define c where "c = b div 16"
  have "n div 2 ^ 12 = c" "n div 2 ^ 8 = b" "n div 2 ^ 4 = a"
    by (simp_all add: a_def b_def c_def div_mult2_eq [symmetric])
  moreover have "n = 16 * a + n mod 16" "a = 16 * b + a mod 16" "b = 16 * c + b mod 16"
    by (simp_all add: a_def b_def c_def)
  moreover have "c < 16" using assms by (simp add: a_def b_def c_def div_mult2_eq [symmetric])
  moreover have "n = 16 * a + x \<Longrightarrow> a = 16 * b + y \<Longrightarrow> b = 16 * c + z \<Longrightarrow>
      ((c * 16 + z) * 16 + y) * 16 + x = n" for x y z by simp
  ultimately show ?thesis by (metis mod_less power_0 div_by_1)
qed

lemma four_nibbles:
  fixes v :: "16 word"
  defines "h \<equiv> \<lambda>s. unat (and (drop_bit s v) 15)"
  shows "word_of_nat (((h 12 * 16 + h 8) * 16 + h 4) * 16 + h 0) = v"
proof -
  have "unat v < 65536" using unsigned_less [of v] by simp
  then have "((h 12 * 16 + h 8) * 16 + h 4) * 16 + h 0 = unat v"
    unfolding h_def unit_nibble by (rule nibble_sum)
  then show ?thesis by simp
qed

lemma nibble_less: "unat (and (drop_bit s v) 15 :: 16 word) < 16"
  by (simp add: unit_nibble)

lemma unat_ucast_unit: "unat (ucast (b :: byte) :: 16 word) = unat b"
proof -
  have "unat b < 2 ^ 8" using unsigned_less [of b] by simp
  moreover have "unat (ucast b :: 16 word) = take_bit 16 (unat b)"
    by (simp add: unsigned_ucast_eq unsigned_take_bit_eq)
  ultimately show ?thesis by (simp add: take_bit_nat_eq_self)
qed

lemma ucast_small: "(v :: 16 word) \<le> 0x7e \<Longrightarrow> ucast (ucast v :: byte) = v"
  by (simp add: word_unat_eq_iff word_le_nat_alt unat_ucast_byte unat_ucast_unit)

lemma ucast_eq_small: "(v :: 16 word) \<le> 0x7e \<Longrightarrow> ucast v = k \<longleftrightarrow> v = ucast (k :: byte)"
  by (simp add: word_unat_eq_iff word_le_nat_alt unat_ucast_byte unat_ucast_unit)

lemma escape_unit_printable: "list_all printable (escape_unit v)"
proof (cases "0x20 \<le> v \<and> v \<le> 0x7e")
  case True
  then have "printable (ucast v)"
    by (simp add: printable_def word_le_nat_alt unat_ucast_byte)
  with True show ?thesis by (simp add: escape_unit_def printable_def)
next
  case False
  then have n: "v \<noteq> 0x22 \<and> v \<noteq> 0x5C" by auto
  have "list_all printable [hex_lower ! unat (and (drop_bit 12 v) 15), hex_lower ! unat (and (drop_bit 8 v) 15),
      hex_lower ! unat (and (drop_bit 4 v) 15), hex_lower ! unat (and (drop_bit 0 v) 15)]"
    by (simp only: list.pred_inject hex_lower_nth [OF nibble_less] simp_thms)
  moreover have "list_all printable [0x5C, 0x75]" by (simp add: printable_def)
  ultimately show ?thesis unfolding escape_unit_def using n False by auto
qed

lemma unescape_unit: "json_unescape (escape_unit v @ r) = map_option (Cons v) (json_unescape r)"
proof (cases "v = 0x22 \<or> v = 0x5C")
  case True
  then show ?thesis by (auto simp: escape_unit_def)
next
  case False
  note n = False
  show ?thesis
  proof (cases "0x20 \<le> v \<and> v \<le> 0x7e")
    case True
    then have "(ucast v :: byte) \<noteq> 0x22" "(ucast v :: byte) \<noteq> 0x5C"
      using n by (simp_all add: ucast_eq_small)
    with True n show ?thesis by (simp add: escape_unit_def ucast_small)
  next
    case False
    have h: "hex_lower_value (hex_lower ! unat (and (drop_bit s v) 15)) = unat (and (drop_bit s v) 15)" for s
      using hex_lower_nth [OF nibble_less] by blast
    have e: "escape_unit v = [0x5C, 0x75, hex_lower ! unat (and (drop_bit 12 v) 15),
        hex_lower ! unat (and (drop_bit 8 v) 15), hex_lower ! unat (and (drop_bit 4 v) 15),
        hex_lower ! unat (and (drop_bit 0 v) 15)]"
      unfolding escape_unit_def using n False by simp
    have f: "word_of_nat (((unat (and (drop_bit 12 v) 15) * 16 + unat (and (drop_bit 8 v) 15)) * 16
        + unat (and (drop_bit 4 v) 15)) * 16 + unat (and (drop_bit 0 v) 15)) = v"
      by (rule four_nibbles)
    show ?thesis unfolding e append_Cons append_Nil json_unescape.simps list.case h f by simp
  qed
qed

lemma unquote_quote: "json_unquote (json_quote units) = Some units"
proof -
  have "json_unescape (concat (map escape_unit units) @ [0x22]) = Some units"
    by (induction units) (simp_all add: unescape_unit)
  then show ?thesis by (simp add: json_unquote_def json_quote_def)
qed

lemma puts_eq:
  "length out < capacity \<Longrightarrow>
   puts capacity cs out = (if length out + length cs < capacity then Some (out @ cs) else None)"
  by (induction cs arbitrary: out) (auto simp: put_def)

lemma escape_loop_eq:
  "length out < capacity \<Longrightarrow> escape_loop capacity units out =
   (if length out + length (concat (map escape_unit units)) < capacity
    then Some (out @ concat (map escape_unit units)) else None)"
  by (induction units arbitrary: out) (auto simp: puts_eq)

lemma EscapeJsonUtf16_eq:
  "EscapeJsonUtf16 text capacity =
    (if length text \<le> 1023 \<and> length (json_quote text) < capacity then Some (json_quote text) else None)"
  by (auto simp: EscapeJsonUtf16_def json_quote_def put_def escape_loop_eq)

lemma printable_json_quote: "list_all printable (json_quote text)"
proof -
  have "list_all printable (concat (map escape_unit text))"
    using escape_unit_printable by (auto simp: list_all_iff)
  then show ?thesis by (simp add: json_quote_def printable_def)
qed

text \<open>
  C36: Escaped metadata is printable and loses nothing. The escaper succeeds exactly when the
  text has at most 1023 code units and the quoted form and its terminator fit; it then
  writes only printable ASCII, never a bare quote inside the quotes, so that a JSON
  reader of the result recovers every UTF-16 code unit, lone surrogates included.
\<close>

theorem escape_json_utf16_exact:
  "EscapeJsonUtf16 text capacity =
     (if length text \<le> 1023 \<and> length (json_quote text) < capacity then Some (json_quote text) else None) \<and>
   list_all printable (json_quote text) \<and> json_unquote (json_quote text) = Some text"
  using EscapeJsonUtf16_eq printable_json_quote unquote_quote by blast

section \<open>The wide message and the file sink\<close>

lemma prefix_nth_iff:
  "length k \<le> length xs \<Longrightarrow> take (length k) xs = k \<longleftrightarrow> (\<forall>i < length k. xs ! i = k ! i)"
  by (auto simp: list_eq_iff_nth_eq)

lemma event_text_iff:
  "length kMarker \<le> length ascii \<Longrightarrow> length ascii \<le> kMessageLimit \<Longrightarrow>
   event_text ascii \<longleftrightarrow> \<not> list_ex (\<lambda>i. ascii ! i < 0x20 \<or> ascii ! i > 0x7e \<or>
     (i < length kMarker \<and> ascii ! i \<noteq> kMarker ! i)) [0..<length ascii]"
proof -
  assume len: "length kMarker \<le> length ascii" "length ascii \<le> kMessageLimit"
  have "(\<not> list_ex (\<lambda>i. ascii ! i < 0x20 \<or> ascii ! i > 0x7e \<or>
     (i < length kMarker \<and> ascii ! i \<noteq> kMarker ! i)) [0..<length ascii]) \<longleftrightarrow>
    (\<forall>i < length ascii. printable (ascii ! i) \<and> (i < length kMarker \<longrightarrow> ascii ! i = kMarker ! i))"
    unfolding list_ex_iff printable_def set_upt by (auto simp: Ball_def not_less)
  also have "\<dots> \<longleftrightarrow> event_text ascii"
    unfolding event_text_def list_all_length prefix_nth_iff [OF len(1)]
    using len by (meson less_le_trans)
  finally show ?thesis by blast
qed

lemma event_text_length: "event_text ascii \<Longrightarrow> length kMarker \<le> length ascii \<and> length ascii \<le> kMessageLimit"
proof -
  assume e: "event_text ascii"
  then have "length (take (length kMarker) ascii) = length kMarker" by (metis event_text_def)
  moreover have "length ascii \<le> kMessageLimit" using e by (metis event_text_def)
  ultimately show ?thesis by (simp add: min_def split: if_splits)
qed

lemma PrepareMessage_iff:
  "PrepareMessage ascii capacity = Some w \<longleftrightarrow>
   event_text ascii \<and> length ascii < capacity \<and> w = map ucast ascii @ [0]"
proof (cases "length kMarker \<le> length ascii \<and> length ascii \<le> kMessageLimit")
  case True
  then show ?thesis using event_text_iff [of ascii] by (auto simp: PrepareMessage_def simp del: length_kMarker)
next
  case False
  then show ?thesis using event_text_length [of ascii] by (auto simp: PrepareMessage_def simp del: length_kMarker)
qed

lemma wide_unit:
  "(w :: 16 word) \<le> 0x7e \<Longrightarrow> 0x20 \<le> w \<Longrightarrow> printable (ucast w) \<and> ucast (ucast w :: byte) = w"
  by (simp add: printable_def word_le_nat_alt unat_ucast_byte ucast_small)

lemma narrow_wide: "ucast (ucast (b :: byte) :: 16 word) = b"
proof -
  have "unat b < 256" using unsigned_less [of b] by simp
  then show ?thesis by (simp add: word_unat_eq_iff unat_ucast_byte unat_ucast_unit)
qed

lemma wide_eq_iff: "(ucast (a :: byte) :: 16 word) = ucast (b :: byte) \<longleftrightarrow> a = b"
  by (metis narrow_wide)

lemma wide_bounds: "printable b \<Longrightarrow> 0x20 \<le> (ucast b :: 16 word) \<and> (ucast b :: 16 word) \<le> 0x7e"
  by (simp add: printable_def word_le_nat_alt unat_ucast_unit)

lemma inspect_event_line:
  assumes "event_text msg" and "engine_prefix mode p"
  shows "InspectLine (p @ msg @ crlf) mode True = line_view Line_Frame (length p) (length msg)"
proof -
  obtain m at where P: "Prefix (p @ msg @ crlf) 0 mode = (Match_Yes, length p)"
    using Prefix_Yes_iff [of "p @ msg @ crlf" mode "length p"] assms(2) by blast
  then show ?thesis
    using after_prefix_Frame [of p "msg @ crlf" "length p" "length msg"] assms
      engine_prefix_bound [OF assms(2)] by (auto simp: InspectLine_alt)
qed

lemma engine_prefix_line: "engine_prefix mode p \<Longrightarrow> p \<noteq> [] \<and> 0x0A \<notin> set p"
proof -
  have n: "\<not> Digit 10" by (simp add: Digit_def)
  then have d: "list_all Digit ds \<Longrightarrow> 10 \<notin> set ds" for ds by (auto simp: list_all_iff)
  assume "engine_prefix mode p"
  then show ?thesis
    by (cases mode) (auto simp: engine_prefix_def elapsed_prefix_def elapsed_digits_def bytes_of_def n d split: if_splits)
qed

text \<open>The units of a wide message the native sink writes: their low bytes, verbatim.\<close>

definition sink_bytes :: "16 word list \<Rightarrow> byte list" where
  "sink_bytes w = map ucast w"

lemma ValidMessage_iff:
  assumes "chars < length w"
  shows "ValidMessage w chars \<longleftrightarrow>
    event_text (sink_bytes (take chars w)) \<and> take chars w = map ucast (sink_bytes (take chars w)) \<and>
    w ! chars = 0" (is "?L \<longleftrightarrow> ?R")
proof
  assume L: ?L
  let ?a = "sink_bytes (take chars w)"
  have len: "length ?a = chars" using assms by (simp add: sink_bytes_def)
  have nth: "i < chars \<Longrightarrow> ?a ! i = ucast (w ! i)" for i using assms by (simp add: sink_bytes_def)
  from L have c: "length kMarker \<le> chars" "chars \<le> kMessageLimit" "w ! chars = 0"
    by (simp_all add: ValidMessage_def)
  have u: "i < chars \<Longrightarrow> 0x20 \<le> w ! i \<and> w ! i \<le> 0x7e \<and> (i < length kMarker \<longrightarrow> w ! i = ucast (kMarker ! i))" for i
    using L unfolding ValidMessage_def list_ex_iff set_upt by (auto simp: Ball_def not_less)
  have "take chars w = map ucast ?a"
    by (rule nth_equalityI) (use assms wide_unit u in \<open>auto simp: sink_bytes_def\<close>)
  moreover have "event_text ?a"
    unfolding event_text_def list_all_iff
  proof (intro conjI)
    show "take (length kMarker) ?a = kMarker"
      using c(1) u len nth prefix_nth_iff [of kMarker ?a] by (auto simp: narrow_wide simp del: length_kMarker)
    show "\<forall>b \<in> set ?a. printable b"
      using u wide_unit by (auto simp: sink_bytes_def in_set_conv_nth)
    show "length ?a \<le> kMessageLimit" using c len by simp
  qed
  ultimately show ?R using c by simp
next
  assume R: ?R
  let ?a = "sink_bytes (take chars w)"
  have len: "length ?a = chars" using assms by (simp add: sink_bytes_def)
  have e: "event_text ?a" using R by blast
  have nth: "i < chars \<Longrightarrow> w ! i = ucast (?a ! i)" for i
  proof -
    assume i: "i < chars"
    have "take chars w ! i = map ucast ?a ! i" using R by simp
    then show "w ! i = ucast (?a ! i)" using i len by simp
  qed
  have p: "i < chars \<Longrightarrow> printable (?a ! i)" for i using e len by (auto simp: event_text_def list_all_iff)
  have m: "i < length kMarker \<Longrightarrow> i < chars \<Longrightarrow> ?a ! i = kMarker ! i" for i
    using e event_text_length [OF e] prefix_nth_iff [of kMarker ?a] by (auto simp: event_text_def simp del: length_kMarker)
  show ?L unfolding ValidMessage_def list_ex_iff
    using R event_text_length [OF e] len wide_bounds [OF p] m nth
    by (auto simp: not_less wide_eq_iff simp del: length_kMarker intro: leI)
qed

text \<open>
  C40: A prepared message arrives as one event. Whatever preparation accepts passes the check
  at the native call; and when the sink writes the low bytes of its units behind the
  engine's prefix and ends the line, the inspector reports exactly one frame, whose bytes
  are those handed to preparation.
\<close>

theorem prepared_message_arrives:
  assumes "PrepareMessage ascii capacity = Some w" and "engine_prefix mode p"
  shows "ValidMessage w (length ascii) \<and> length w \<le> capacity \<and>
    (let line = p @ sink_bytes (take (length ascii) w) @ crlf; v = InspectLine line mode True in
     lv_kind v = Line_Frame \<and> slice (messageOffset v) (messageBytes v) line = ascii)"
proof -
  from assms(1) have e: "event_text ascii" and c: "length ascii < capacity" and w: "w = map ucast ascii @ [0]"
    by (simp_all add: PrepareMessage_iff)
  have sink: "sink_bytes (take (length ascii) w) = ascii"
    by (simp add: w sink_bytes_def narrow_wide comp_def)
  have "ValidMessage w (length ascii)"
    using ValidMessage_iff [of "length ascii" w] e nth_append_length [of "map ucast ascii :: 16 word list" 0 "[]"]
    by (simp add: w sink_bytes_def narrow_wide comp_def)
  moreover have "InspectLine (p @ ascii @ crlf) mode True = line_view Line_Frame (length p) (length ascii)"
    by (rule inspect_event_line [OF e assms(2)])
  moreover have "length w \<le> capacity" using c by (simp add: w)
  ultimately show ?thesis unfolding sink Let_def by (simp add: slice_def)
qed

lemma prepared_message_arrives_witness:
  "ValidMessage (map ucast (kMarker @ bytes_of ''{}'') @ [0]) 23"
proof -
  let ?m = "kMarker @ bytes_of ''{}''"
  have "event_text ?m"
    by (simp add: event_text_def printable_kMarker kMessageLimit_def)
      (simp add: bytes_of_def printable_def)
  then have "PrepareMessage ?m 8193 = Some (map ucast ?m @ [0])"
    by (simp add: PrepareMessage_iff)
  moreover have "engine_prefix LogOnly (bytes_of ''Log: '')" by (simp add: engine_prefix_def)
  ultimately show ?thesis using prepared_message_arrives [of ?m 8193 "map ucast ?m @ [0]" LogOnly] by simp
qed

text \<open>
  The last check catches any damaged slot. The check at the native call accepts a slot if
  and only if its units are the units of an event text followed by the terminator, so the
  sink's narrowing of an accepted slot loses nothing.
\<close>

lemma valid_message_exact:
  assumes "chars < length w"
  shows "ValidMessage w chars \<longleftrightarrow>
    (\<exists>ascii. length ascii = chars \<and> event_text ascii \<and> take (Suc chars) w = map ucast ascii @ [0])"
proof -
  have t: "take (Suc chars) w = take chars w @ [w ! chars]" using assms by (rule take_Suc_conv_app_nth)
  have l: "length (sink_bytes (take chars w)) = chars" using assms by (simp add: sink_bytes_def)
  have s: "take chars w = map ucast a \<Longrightarrow> sink_bytes (take chars w) = a" for a :: "byte list"
    by (simp add: sink_bytes_def narrow_wide comp_def)
  show ?thesis
  proof
    assume "ValidMessage w chars"
    then have "event_text (sink_bytes (take chars w))" "take chars w = map ucast (sink_bytes (take chars w))"
      "w ! chars = 0" using ValidMessage_iff [OF assms] by blast+
    with l t show "\<exists>ascii. length ascii = chars \<and> event_text ascii \<and> take (Suc chars) w = map ucast ascii @ [0]"
      by metis
  next
    assume "\<exists>ascii. length ascii = chars \<and> event_text ascii \<and> take (Suc chars) w = map ucast ascii @ [0]"
    then obtain a where a: "event_text a" "take chars w @ [w ! chars] = map ucast a @ [0]" unfolding t by blast
    then have "take chars w = map ucast a" "w ! chars = 0" by simp_all
    with a(1) s show "ValidMessage w chars" unfolding ValidMessage_iff [OF assms] by metis
  qed
qed

lemma valid_message_exact_witness:
  "\<not> ValidMessage (map ucast (kMarker @ bytes_of ''{}'') @ [7]) 23"
proof -
  let ?w = "map ucast (kMarker @ bytes_of ''{}'') @ [7 :: 16 word]"
  have "take (Suc 23) ?w = ?w" by simp
  then show ?thesis using valid_message_exact [of 23 ?w] by auto
qed

section \<open>Scoping an event to a run\<close>

definition hex_run :: "byte list \<Rightarrow> byte list" where
  "hex_run r = concat (map (\<lambda>v. [hex_lower ! unat (drop_bit 4 v), hex_lower ! unat (and v 15)]) r)"

text \<open>The leading envelope of an event, up to the quote that closes the run identifier.\<close>

definition run_envelope :: "byte list \<Rightarrow> byte list \<Rightarrow> byte list" where
  "run_envelope ty r = kMarker @ run_lead @ ty @ run_key @ hex_run r @ [0x22]"

lemma type_loop_eq:
  "type_loop (pre @ rest) begin (length pre) =
   length pre + length (takeWhile type_char (take (32 - (length pre - begin)) rest))"
  if "begin \<le> length pre"
  using that
proof (induction rest arbitrary: pre)
  case Nil
  then show ?case by (simp add: type_loop.simps)
next
  case (Cons b bs)
  show ?case
  proof (cases "length pre - begin < 32")
    case True
    then obtain k where k: "32 - (length pre - begin) = Suc k" by (cases "32 - (length pre - begin)") auto
    then have "32 - (length (pre @ [b]) - begin) = k" using Cons.prems by simp
    then show ?thesis using Cons.IH [of "pre @ [b]"] Cons.prems True k
      by (subst type_loop.simps) (simp add: nth_append)
  next
    case False
    then show ?thesis by (subst type_loop.simps) simp
  qed
qed

lemma run_id_loop_eq:
  "run_id_loop (pre @ rest) (length pre) r = Some at \<longleftrightarrow>
   (\<exists>q. rest = hex_run r @ q) \<and> at = length pre + 2 * length r"
proof (induction r arbitrary: pre rest)
  case Nil
  then show ?case by (auto simp: hex_run_def)
next
  case (Cons v vs)
  show ?case
  proof (cases "\<exists>a b q. rest = a # b # q")
    case False
    then have "length rest < 2" by (cases rest; cases "tl rest") auto
    with False show ?thesis by (auto simp: hex_run_def)
  next
    case True
    then obtain a b q where q: "rest = a # b # q" by blast
    show ?thesis using Cons.IH [of "pre @ [a, b]" q]
      by (auto simp: q hex_run_def nth_append)
  qed
qed

lemma run_lead_bytes: "length run_lead = 20"
  by (simp add: run_lead_def)

lemma run_key_bytes: "length run_key = 12" "\<not> type_char (hd run_key)" "run_key \<noteq> []"
  by (simp_all add: run_key_def bytes_of_def type_char_def)

lemma takeWhile_type:
  assumes "list_all type_char ty" and "length ty \<le> 32"
  shows "takeWhile type_char (take 32 (ty @ run_key @ rest)) = ty"
proof -
  obtain k ks where k: "run_key = k # ks" "\<not> type_char k"
    using run_key_bytes(2,3) by (metis list.collapse)
  have t: "list_all type_char xs \<Longrightarrow> takeWhile type_char (xs @ ys) = xs @ takeWhile type_char ys" for xs ys
    by (induction xs) auto
  show ?thesis using assms by (cases "32 - length ty") (simp_all add: t k list_all_iff)
qed

lemma BelongsToRun_iff:
  "BelongsToRun message r \<longleftrightarrow>
   (\<exists>ty rest. message = run_envelope ty r @ rest \<and> ty \<noteq> [] \<and> length ty \<le> 32 \<and> list_all type_char ty)"
  (is "?L \<longleftrightarrow> ?R")
proof
  assume L: ?L
  from L obtain a1 where l1: "Literal message 0 kMarker = (Match_Yes, a1)"
    by (auto simp: BelongsToRun_def split: prod.splits)
  with Literal_Yes_iff [of "[]" message kMarker a1] obtain r1 where
    r1: "message = kMarker @ r1" "a1 = length kMarker" by auto
  from L l1 obtain a2 where l2: "Literal message a1 run_lead = (Match_Yes, a2)"
    by (auto simp: BelongsToRun_def split: prod.splits)
  with Literal_Yes_iff [of kMarker r1 run_lead a2] r1 obtain r2 where
    r2: "r1 = run_lead @ r2" "a2 = length (kMarker @ run_lead)" by auto
  define ty where "ty = takeWhile type_char (take 32 r2)"
  have tl: "type_loop message a2 a2 = a2 + length ty"
    using type_loop_eq [of a2 "kMarker @ run_lead" r2] by (simp add: r1 r2 ty_def)
  from L l1 l2 obtain a3 where ne: "ty \<noteq> []"
    and l3: "Literal message (a2 + length ty) run_key = (Match_Yes, a3)"
    by (auto simp: BelongsToRun_def tl Let_def split: prod.splits)
  obtain r3 where r3: "r2 = ty @ r3"
    using takeWhile_dropWhile_id [of type_char "take 32 r2"] append_take_drop_id [of 32 r2]
    unfolding ty_def by (metis append.assoc)
  from Literal_Yes_at [of message "kMarker @ run_lead @ ty" r3 "a2 + length ty" run_key a3] l3
  obtain r4 where r4: "r3 = run_key @ r4" "a3 = a2 + length ty + length run_key"
    by (auto simp: r1 r2 r3)
  from L l1 l2 l3 obtain a4 where l4: "run_id_loop message a3 r = Some a4"
    and q: "a4 < length message" "message ! a4 = 0x22"
    by (auto simp: BelongsToRun_def tl Let_def split: prod.splits option.splits)
  have m4: "message = (kMarker @ run_lead @ ty @ run_key) @ r4" by (simp add: r1 r2 r3 r4)
  have a3: "a3 = length (kMarker @ run_lead @ ty @ run_key)" by (simp add: r4 r2)
  from l4 [unfolded m4 a3, unfolded run_id_loop_eq] obtain r5 where
    r5: "r4 = hex_run r @ r5" and a4: "a4 = length (kMarker @ run_lead @ ty @ run_key) + 2 * length r" by blast
  have hl: "length (hex_run r) = 2 * length r" by (induction r) (simp_all add: hex_run_def)
  have m5: "message = (kMarker @ run_lead @ ty @ run_key @ hex_run r) @ r5" by (simp add: m4 r5)
  have a5: "a4 = length (kMarker @ run_lead @ ty @ run_key @ hex_run r)" by (simp add: a4 hl)
  have "r5 \<noteq> []" using q(1) unfolding m5 a5 by auto
  moreover from this have "hd r5 = 0x22"
    using q(2) nth_append_length_plus [of "kMarker @ run_lead @ ty @ run_key @ hex_run r" r5 0]
    unfolding m5 a5 by (simp add: hd_conv_nth)
  ultimately obtain r6 where "r5 = 0x22 # r6" by (metis list.collapse)
  then have "message = run_envelope ty r @ r6" by (simp add: m5 run_envelope_def)
  moreover have "length ty \<le> 32" unfolding ty_def
    using length_takeWhile_le [of type_char "take 32 r2"] by simp
  moreover have "list_all type_char ty" unfolding ty_def list_all_iff by (auto dest: set_takeWhileD)
  ultimately show ?R using ne by blast
next
  assume ?R
  then obtain ty rest where m: "message = run_envelope ty r @ rest" and ty: "ty \<noteq> []" "length ty \<le> 32"
    "list_all type_char ty" by blast
  let ?m1 = "kMarker" and ?m2 = "kMarker @ run_lead" and ?m3 = "kMarker @ run_lead @ ty"
    and ?m4 = "kMarker @ run_lead @ ty @ run_key"
  have hl: "length (hex_run r) = 2 * length r" by (induction r) (simp_all add: hex_run_def)
  have l1: "Literal message 0 kMarker = (Match_Yes, length ?m1)"
    using Literal_Yes_iff [of "[]" message kMarker "length ?m1"] by (auto simp: m run_envelope_def)
  have l2: "Literal message (length ?m1) run_lead = (Match_Yes, length ?m2)"
    by (rule Literal_Yes_at [THEN iffD2]) (auto simp: m run_envelope_def)
  have tl: "type_loop message (length ?m2) (length ?m2) = length ?m3"
    using type_loop_eq [of "length ?m2" ?m2 "ty @ run_key @ hex_run r @ 0x22 # rest"]
      takeWhile_type [OF ty(3,2), of "hex_run r @ 0x22 # rest"]
    by (simp add: m run_envelope_def)
  have l3: "Literal message (length ?m3) run_key = (Match_Yes, length ?m4)"
    by (rule Literal_Yes_at [of _ ?m3 "run_key @ hex_run r @ 0x22 # rest", THEN iffD2])
      (auto simp: m run_envelope_def)
  have l4: "run_id_loop message (length ?m4) r = Some (length ?m4 + 2 * length r)"
    using run_id_loop_eq [of ?m4 "hex_run r @ 0x22 # rest" r] by (simp add: m run_envelope_def)
  have "message ! (length ?m4 + 2 * length r) = 0x22"
    using nth_append_length [of "?m4 @ hex_run r" "0x22" rest] by (simp add: m run_envelope_def hl ac_simps)
  moreover have "length ?m4 + 2 * length r < length message" by (simp add: m run_envelope_def hl)
  moreover have "length ?m3 \<noteq> length ?m2" using ty(1) by simp
  ultimately show ?L
    unfolding BelongsToRun_def l1 prod.case l2 Let_def tl l3 l4 option.case by blast
qed

lemma unat_lt2p_byte: "unat (b :: byte) < 256"
  using unsigned_less [of b] by simp

lemma hex_run_inj: "hex_run r = hex_run r' \<Longrightarrow> r = r'"
proof (induction r arbitrary: r')
  case Nil
  then show ?case by (cases r') (simp_all add: hex_run_def)
next
  case (Cons v vs)
  then obtain u us where r': "r' = u # us" by (cases r') (simp_all add: hex_run_def)
  have hl: "hex_lower_value (hex_lower ! n) = n" if "n < 16" for n using hex_lower_nth [OF that] by blast
  have d: "unat (drop_bit 4 b) < 16" "unat (and b 15) < 16" for b :: byte
    using unat_lt2p_byte [of b] by (simp_all add: unat_drop_bit_word unat_and_15)
  from Cons.prems r' have "hex_lower ! unat (drop_bit 4 v) = hex_lower ! unat (drop_bit 4 u)"
    "hex_lower ! unat (and v 15) = hex_lower ! unat (and u 15)" and t: "hex_run vs = hex_run us"
    by (simp_all add: hex_run_def)
  then have "unat (drop_bit 4 v) = unat (drop_bit 4 u)" "unat (and v 15) = unat (and u 15)"
    using hl d by metis+
  then have "unat v div 16 = unat u div 16" "unat v mod 16 = unat u mod 16"
    by (simp_all add: unat_drop_bit_word unat_and_15)
  then have "unat v = unat u" by (metis mult_div_mod_eq)
  then show ?case using Cons.IH [OF t] r' by (simp add: word_unat_eq_iff)
qed

text \<open>
  An event is scoped by its canonical envelope. A message belongs to a run exactly when it
  begins with the marker, the schema, a type of one to thirty-two lower-case letters or
  hyphens, and that run's identifier in lower-case hexadecimal closed by a quote; a run
  identifier later in the message never matches.
\<close>

theorem belongs_to_run_exact:
  "BelongsToRun message r \<longleftrightarrow>
   (\<exists>ty rest. message = run_envelope ty r @ rest \<and> ty \<noteq> [] \<and> length ty \<le> 32 \<and> list_all type_char ty)"
  by (rule BelongsToRun_iff)

text \<open>
  No event belongs to two runs. Two run identifiers of the same size that both claim a
  message are the same identifier.
\<close>

lemma belongs_to_one_run:
  assumes "BelongsToRun message r" and "BelongsToRun message r'" and "length r = length r'"
  shows "r = r'"
proof -
  from assms(1) obtain ty rest where m: "message = run_envelope ty r @ rest"
    and ty: "length ty \<le> 32" "list_all type_char ty" using BelongsToRun_iff by blast
  from assms(2) obtain ty' rest' where m': "message = run_envelope ty' r' @ rest'"
    and ty': "length ty' \<le> 32" "list_all type_char ty'" using BelongsToRun_iff by blast
  from m m' have "ty @ run_key @ hex_run r @ 0x22 # rest = ty' @ run_key @ hex_run r' @ 0x22 # rest'"
    by (simp add: run_envelope_def)
  moreover from this have "ty = ty'"
    using takeWhile_type [OF ty(2,1)] takeWhile_type [OF ty'(2,1)] by metis
  ultimately have e: "hex_run r @ 0x22 # rest = hex_run r' @ 0x22 # rest'" by simp
  have "length (hex_run q) = 2 * length q" for q by (induction q) (simp_all add: hex_run_def)
  with e assms(3) have "hex_run r = hex_run r'" by simp
  then show ?thesis by (rule hex_run_inj)
qed

lemma belongs_to_one_run_witness:
  "BelongsToRun (run_envelope (bytes_of ''decision'') [171]) [171] \<and>
   \<not> BelongsToRun (run_envelope (bytes_of ''decision'') [171]) [172]"
proof -
  have b: "BelongsToRun (run_envelope (bytes_of ''decision'') [171]) [171]"
    unfolding BelongsToRun_iff
    by (rule exI [of _ "bytes_of ''decision''"], rule exI [of _ "[]"])
      (simp add: bytes_of_def type_char_def)
  then show ?thesis using belongs_to_one_run [OF b, of "[172]"] by auto
qed

end
