(* ===== verification/CallbackTiming.thy ===== *)
theory CallbackTiming
  imports Types
begin

text \<open>
  Policy of the leech-recovery callback (\<open>src/companion/leech_recovery_policy.h\<close> and
  \<open>.cpp\<close>): the classification of a captured creation stack, the capture headroom of a
  service pump, and the one-shot measurement of the time the library itself spends inside
  the first callback, with native time and exception-filter time told apart.

  The callers pass QPC values of type \<open>std::uint64_t\<close>; the code compares, subtracts under a
  guard and adds under a guard, so they are \<open>nat\<close>.
\<close>

section \<open>Stack policy\<close>

datatype RecoveryCallbackClass = RCC_Unknown | RCC_NormalLeechSuccess | RCC_Truncated

definition kDirectReturns :: "nat list" where
  "kDirectReturns =
    [0xBF746E, 0xBD2CAC, 0xBE853A, 0xB9880D, 0xBE8044, 0xBD1AD9,
     0xBE874A, 0xBC32FD, 0xBE7E44, 0xBD1999, 0xBE874A, 0xBC32FD,
     0xBE7E44, 0xBD1999, 0xBE874A, 0xC02D42, 0xA4B370, 0xA341A7]"

definition ClassifyRecoveryCreateFrames :: "nat list \<Rightarrow> bool \<Rightarrow> RecoveryCallbackClass" where
  "ClassifyRecoveryCreateFrames frames truncated =
     (if truncated \<or> length frames > kCaptureFrames then RCC_Truncated
      else if length frames < 20 then RCC_Unknown
      else if list_ex (\<lambda>i. frames ! i \<noteq> kDirectReturns ! i) [0..<18] then RCC_Unknown
      else if (frames ! 18 \<noteq> 0x5F48E6 \<and> frames ! 18 \<noteq> 0x5F4953) \<or> frames ! 19 \<noteq> 0x585650
        then RCC_Unknown
      else RCC_NormalLeechSuccess)"

definition RecoveryPumpHeadroomAvailable :: "CallerClass \<Rightarrow> nat \<Rightarrow> bool \<Rightarrow> bool" where
  "RecoveryPumpHeadroomAvailable currentClass hostFrameCount truncated \<longleftrightarrow>
     \<not> (truncated \<or> currentClass \<noteq> Caller_NormalPump \<or> hostFrameCount < 3 \<or>
        hostFrameCount > kCaptureFrames) \<and>
     hostFrameCount - 3 \<le> 8"

section \<open>The one-shot measurement\<close>

datatype Phase = Phase_NotEntered | Phase_InProgress | Phase_CompleteValid | Phase_CompleteInvalid

datatype Segment = Seg_None | Seg_Own | Seg_Native | Seg_Filter

record PrimaryCallbackTiming =
  phase :: Phase
  segment :: Segment
  filterParent :: Segment
  ticks :: nat
  lastEndpoint :: nat
  segmentStart :: nat
  invalid :: bool

definition PrimaryCallbackTiming_zero :: PrimaryCallbackTiming where
  "PrimaryCallbackTiming_zero = \<lparr>phase = Phase_NotEntered, segment = Seg_None,
     filterParent = Seg_None, ticks = 0, lastEndpoint = 0, segmentStart = 0, invalid = False\<rparr>"

definition Active :: "PrimaryCallbackTiming \<Rightarrow> bool" where
  "Active t \<longleftrightarrow> phase t = Phase_InProgress"

definition Endpoint :: "PrimaryCallbackTiming \<Rightarrow> bool \<Rightarrow> nat \<Rightarrow> bool \<times> PrimaryCallbackTiming" where
  "Endpoint t valid qpc =
     (if \<not> valid \<or> qpc = 0 \<or> qpc > i64_max_nat \<or> (lastEndpoint t \<noteq> 0 \<and> qpc < lastEndpoint t)
      then (False, t\<lparr>invalid := True\<rparr>)
      else (True, t\<lparr>lastEndpoint := qpc\<rparr>))"

definition CloseOwn :: "PrimaryCallbackTiming \<Rightarrow> nat \<Rightarrow> PrimaryCallbackTiming" where
  "CloseOwn t qpc =
     (if invalid t then t
      else if segmentStart t = 0 \<or> qpc < segmentStart t \<or> ticks t > i64_max_nat
        then t\<lparr>invalid := True\<rparr>
      else let elapsed = qpc - segmentStart t in
        if elapsed > i64_max_nat - ticks t then t\<lparr>invalid := True\<rparr>
        else t\<lparr>ticks := ticks t + elapsed\<rparr>)"

definition BeginOwn :: "PrimaryCallbackTiming \<Rightarrow> bool \<Rightarrow> nat \<Rightarrow> bool \<times> PrimaryCallbackTiming" where
  "BeginOwn t valid qpc =
     (case Endpoint t valid qpc of (endpoint, t) \<Rightarrow>
       let t = t\<lparr>segment := Seg_Own, segmentStart := (if endpoint then qpc else 0)\<rparr>
       in (\<not> invalid t, t))"

definition ClaimPrimaryCallbackTiming ::
  "PrimaryCallbackTiming \<Rightarrow> bool \<Rightarrow> nat \<Rightarrow> bool \<times> PrimaryCallbackTiming" where
  "ClaimPrimaryCallbackTiming t valid qpc =
     (if phase t \<noteq> Phase_NotEntered then (False, t)
      else
        let t = t\<lparr>phase := Phase_InProgress\<rparr>;
            t = (if ticks t \<noteq> 0 \<or> lastEndpoint t \<noteq> 0 \<or> segmentStart t \<noteq> 0 \<or> invalid t \<or>
                    segment t \<noteq> Seg_None \<or> filterParent t \<noteq> Seg_None
                 then t\<lparr>invalid := True\<rparr> else t)
        in (True, snd (BeginOwn t valid qpc)))"

definition EnterPrimaryCallbackNative ::
  "PrimaryCallbackTiming \<Rightarrow> bool \<Rightarrow> nat \<Rightarrow> bool \<times> PrimaryCallbackTiming" where
  "EnterPrimaryCallbackNative t valid qpc =
     (if \<not> Active t then (False, t)
      else if segment t \<noteq> Seg_Own \<or> filterParent t \<noteq> Seg_None then (False, t\<lparr>invalid := True\<rparr>)
      else
        let t = snd (Endpoint t valid qpc);
            t = CloseOwn t qpc;
            t = t\<lparr>segment := Seg_Native, segmentStart := 0\<rparr>
        in (\<not> invalid t, t))"

definition LeavePrimaryCallbackNative ::
  "PrimaryCallbackTiming \<Rightarrow> bool \<Rightarrow> nat \<Rightarrow> bool \<times> PrimaryCallbackTiming" where
  "LeavePrimaryCallbackNative t valid qpc =
     (if \<not> Active t then (False, t)
      else if segment t \<noteq> Seg_Native \<or> filterParent t \<noteq> Seg_None then (False, t\<lparr>invalid := True\<rparr>)
      else BeginOwn t valid qpc)"

definition BeginPrimaryCallbackFilter ::
  "PrimaryCallbackTiming \<Rightarrow> bool \<Rightarrow> nat \<Rightarrow> bool \<times> PrimaryCallbackTiming" where
  "BeginPrimaryCallbackFilter t valid qpc =
     (if \<not> Active t then (False, t)
      else if (segment t \<noteq> Seg_Own \<and> segment t \<noteq> Seg_Native) \<or> filterParent t \<noteq> Seg_None
        then (False, t\<lparr>invalid := True\<rparr>)
      else case Endpoint t valid qpc of (endpoint, t) \<Rightarrow>
        let t = (if segment t = Seg_Own then CloseOwn t qpc else t);
            t = t\<lparr>filterParent := segment t, segment := Seg_Filter,
                  segmentStart := (if endpoint then qpc else 0)\<rparr>
        in (\<not> invalid t, t))"

definition EndPrimaryCallbackFilter ::
  "PrimaryCallbackTiming \<Rightarrow> bool \<Rightarrow> nat \<Rightarrow> bool \<times> PrimaryCallbackTiming" where
  "EndPrimaryCallbackFilter t valid qpc =
     (if \<not> Active t then (False, t)
      else if segment t \<noteq> Seg_Filter \<or> (filterParent t \<noteq> Seg_Own \<and> filterParent t \<noteq> Seg_Native)
        then (False, t\<lparr>invalid := True\<rparr>)
      else case Endpoint t valid qpc of (endpoint, t) \<Rightarrow>
        let t = CloseOwn t qpc;
            t = t\<lparr>segment := filterParent t, filterParent := Seg_None\<rparr>;
            t = t\<lparr>segmentStart := (if segment t = Seg_Own \<and> endpoint then qpc else 0)\<rparr>
        in (\<not> invalid t, t))"

definition BeginPrimaryCallbackUnwind ::
  "PrimaryCallbackTiming \<Rightarrow> bool \<Rightarrow> nat \<Rightarrow> bool \<times> PrimaryCallbackTiming" where
  "BeginPrimaryCallbackUnwind t valid qpc =
     (if \<not> Active t then (False, t)
      else if (segment t \<noteq> Seg_Own \<and> segment t \<noteq> Seg_Native) \<or> filterParent t \<noteq> Seg_None
        then (False, t\<lparr>invalid := True\<rparr>)
      else let t = snd (Endpoint t valid qpc) in BeginOwn t valid qpc)"

definition FinalizePrimaryCallbackTiming ::
  "PrimaryCallbackTiming \<Rightarrow> bool \<Rightarrow> nat \<Rightarrow> bool \<times> PrimaryCallbackTiming" where
  "FinalizePrimaryCallbackTiming t valid qpc =
     (if \<not> Active t then (False, t)
      else
        let t = snd (Endpoint t valid qpc);
            t = (if segment t \<noteq> Seg_Own \<or> filterParent t \<noteq> Seg_None then t\<lparr>invalid := True\<rparr>
                 else CloseOwn t qpc);
            t = t\<lparr>phase := (if invalid t then Phase_CompleteInvalid else Phase_CompleteValid)\<rparr>;
            t = t\<lparr>segment := Seg_None, filterParent := Seg_None, segmentStart := 0\<rparr>;
            t = (if invalid t then t\<lparr>ticks := 0\<rparr> else t)
        in (\<not> invalid t, t))"

definition InvalidatePrimaryCallbackTiming :: "PrimaryCallbackTiming \<Rightarrow> PrimaryCallbackTiming" where
  "InvalidatePrimaryCallbackTiming t = (if Active t then t\<lparr>invalid := True\<rparr> else t)"

section \<open>The measurement as a machine\<close>

text \<open>An event is a call, with the validity and the value of the clock read that came with it.\<close>

datatype timing_event =
    TE_Claim bool nat
  | TE_Enter bool nat
  | TE_Leave bool nat
  | TE_BeginFilter bool nat
  | TE_EndFilter bool nat
  | TE_Unwind bool nat
  | TE_Finalize bool nat
  | TE_Invalidate

fun timing_call :: "PrimaryCallbackTiming \<Rightarrow> timing_event \<Rightarrow> bool \<times> PrimaryCallbackTiming" where
  "timing_call t (TE_Claim v q) = ClaimPrimaryCallbackTiming t v q"
| "timing_call t (TE_Enter v q) = EnterPrimaryCallbackNative t v q"
| "timing_call t (TE_Leave v q) = LeavePrimaryCallbackNative t v q"
| "timing_call t (TE_BeginFilter v q) = BeginPrimaryCallbackFilter t v q"
| "timing_call t (TE_EndFilter v q) = EndPrimaryCallbackFilter t v q"
| "timing_call t (TE_Unwind v q) = BeginPrimaryCallbackUnwind t v q"
| "timing_call t (TE_Finalize v q) = FinalizePrimaryCallbackTiming t v q"
| "timing_call t TE_Invalidate = (True, InvalidatePrimaryCallbackTiming t)"

definition timing_step :: "PrimaryCallbackTiming \<Rightarrow> timing_event \<Rightarrow> PrimaryCallbackTiming" where
  "timing_step t e = snd (timing_call t e)"

definition timing_run :: "timing_event list \<Rightarrow> PrimaryCallbackTiming" where
  "timing_run es = foldl timing_step PrimaryCallbackTiming_zero es"

section \<open>Invariant and the single shot\<close>

definition completed :: "PrimaryCallbackTiming \<Rightarrow> bool" where
  "completed t \<longleftrightarrow> phase t = Phase_CompleteValid \<or> phase t = Phase_CompleteInvalid"

definition timing_inv :: "PrimaryCallbackTiming \<Rightarrow> bool" where
  "timing_inv t \<longleftrightarrow>
     ticks t \<le> i64_max_nat \<and> lastEndpoint t \<le> i64_max_nat \<and>
     (phase t = Phase_NotEntered \<longrightarrow> t = PrimaryCallbackTiming_zero) \<and>
     (phase t = Phase_InProgress \<longrightarrow> segment t \<noteq> Seg_None) \<and>
     (phase t = Phase_CompleteValid \<longrightarrow> \<not> invalid t) \<and>
     (phase t = Phase_CompleteInvalid \<longrightarrow> invalid t \<and> ticks t = 0) \<and>
     (completed t \<longrightarrow> segment t = Seg_None \<and> filterParent t = Seg_None \<and> segmentStart t = 0)"

lemma Endpoint_fields:
  assumes "Endpoint t v q = (b, t')"
  shows "phase t' = phase t \<and> segment t' = segment t \<and> filterParent t' = filterParent t \<and>
    ticks t' = ticks t \<and> segmentStart t' = segmentStart t \<and> (invalid t \<longrightarrow> invalid t') \<and>
    (lastEndpoint t \<le> i64_max_nat \<longrightarrow> lastEndpoint t' \<le> i64_max_nat)"
  using assms by (auto simp: Endpoint_def split: if_splits)

lemma CloseOwn_fields:
  "phase (CloseOwn t q) = phase t \<and> segment (CloseOwn t q) = segment t \<and>
   filterParent (CloseOwn t q) = filterParent t \<and> lastEndpoint (CloseOwn t q) = lastEndpoint t \<and>
   (invalid t \<longrightarrow> invalid (CloseOwn t q)) \<and>
   (ticks t \<le> i64_max_nat \<longrightarrow> ticks (CloseOwn t q) \<le> i64_max_nat)"
  by (auto simp: CloseOwn_def Let_def)

lemma BeginOwn_fields:
  assumes "BeginOwn t v q = (b, t')"
  shows "phase t' = phase t \<and> segment t' = Seg_Own \<and> filterParent t' = filterParent t \<and>
    ticks t' = ticks t \<and> (invalid t \<longrightarrow> invalid t') \<and>
    (lastEndpoint t \<le> i64_max_nat \<longrightarrow> lastEndpoint t' \<le> i64_max_nat)"
proof -
  obtain c u where e: "Endpoint t v q = (c, u)" by fastforce
  show ?thesis using assms Endpoint_fields [OF e] by (auto simp: BeginOwn_def e Let_def)
qed

text \<open>What one call may do to a measurement in progress.\<close>

definition in_progress_step :: "PrimaryCallbackTiming \<Rightarrow> PrimaryCallbackTiming \<Rightarrow> bool" where
  "in_progress_step t t' \<longleftrightarrow>
     phase t' = Phase_InProgress \<and> segment t' \<noteq> Seg_None \<and> ticks t' \<le> i64_max_nat \<and>
     lastEndpoint t' \<le> i64_max_nat \<and> (invalid t \<longrightarrow> invalid t')"

lemma in_progress_call:
  assumes "timing_inv t" and "phase t = Phase_InProgress" and "\<And>v q. e \<noteq> TE_Finalize v q"
  shows "in_progress_step t (timing_step t e)"
proof -
  have i: "segment t \<noteq> Seg_None" "ticks t \<le> i64_max_nat" "lastEndpoint t \<le> i64_max_nat" "Active t"
    using assms(1,2) by (simp_all add: timing_inv_def Active_def)
  show ?thesis
  proof (cases e)
    case (TE_Claim v q)
    then show ?thesis using i assms(2)
      by (simp add: timing_step_def in_progress_step_def ClaimPrimaryCallbackTiming_def)
  next
    case (TE_Enter v q)
    obtain b u where u: "Endpoint t v q = (b, u)" by fastforce
    show ?thesis using i assms(2) Endpoint_fields [OF u] CloseOwn_fields [of u q]
      by (auto simp: TE_Enter timing_step_def in_progress_step_def EnterPrimaryCallbackNative_def u Let_def)
  next
    case (TE_Leave v q)
    obtain b u where u: "BeginOwn t v q = (b, u)" by fastforce
    show ?thesis using i assms(2) BeginOwn_fields [OF u]
      by (auto simp: TE_Leave timing_step_def in_progress_step_def LeavePrimaryCallbackNative_def u)
  next
    case (TE_BeginFilter v q)
    obtain b u where u: "Endpoint t v q = (b, u)" by fastforce
    show ?thesis using i assms(2) Endpoint_fields [OF u] CloseOwn_fields [of u q]
      by (auto simp: TE_BeginFilter timing_step_def in_progress_step_def BeginPrimaryCallbackFilter_def u Let_def)
  next
    case (TE_EndFilter v q)
    obtain b u where u: "Endpoint t v q = (b, u)" by fastforce
    show ?thesis using i assms(2) Endpoint_fields [OF u] CloseOwn_fields [of u q]
      by (auto simp: TE_EndFilter timing_step_def in_progress_step_def EndPrimaryCallbackFilter_def u Let_def)
  next
    case (TE_Unwind v q)
    obtain b u where u: "Endpoint t v q = (b, u)" by fastforce
    obtain c w where w: "BeginOwn u v q = (c, w)" by fastforce
    show ?thesis using i assms(2) Endpoint_fields [OF u] BeginOwn_fields [OF w]
      by (auto simp: TE_Unwind timing_step_def in_progress_step_def BeginPrimaryCallbackUnwind_def u w Let_def)
  next
    case (TE_Finalize v q)
    with assms(3) show ?thesis by blast
  next
    case TE_Invalidate
    then show ?thesis using i assms(2)
      by (simp add: timing_step_def in_progress_step_def InvalidatePrimaryCallbackTiming_def)
  qed
qed

lemma finalize_call:
  assumes "timing_inv t" and "phase t = Phase_InProgress"
  shows "completed (timing_step t (TE_Finalize v q)) \<and> timing_inv (timing_step t (TE_Finalize v q)) \<and>
    (invalid t \<longrightarrow> phase (timing_step t (TE_Finalize v q)) = Phase_CompleteInvalid)"
proof -
  obtain b u where u: "Endpoint t v q = (b, u)" by fastforce
  show ?thesis using assms Endpoint_fields [OF u] CloseOwn_fields [of u q]
    by (auto simp: timing_step_def FinalizePrimaryCallbackTiming_def u Let_def Active_def
        timing_inv_def completed_def)
qed

lemma completed_step: "completed t \<Longrightarrow> timing_step t e = t \<and> (\<forall>v q. e = TE_Claim v q \<longrightarrow> \<not> fst (timing_call t e))"
  by (cases e) (auto simp: timing_step_def completed_def ClaimPrimaryCallbackTiming_def
      EnterPrimaryCallbackNative_def LeavePrimaryCallbackNative_def BeginPrimaryCallbackFilter_def
      EndPrimaryCallbackFilter_def BeginPrimaryCallbackUnwind_def FinalizePrimaryCallbackTiming_def
      InvalidatePrimaryCallbackTiming_def Active_def)

lemma not_entered_step:
  "phase t = Phase_NotEntered \<Longrightarrow> (\<And>v q. e \<noteq> TE_Claim v q) \<Longrightarrow> timing_step t e = t"
  by (cases e) (auto simp: timing_step_def EnterPrimaryCallbackNative_def LeavePrimaryCallbackNative_def
      BeginPrimaryCallbackFilter_def EndPrimaryCallbackFilter_def BeginPrimaryCallbackUnwind_def
      FinalizePrimaryCallbackTiming_def InvalidatePrimaryCallbackTiming_def Active_def)

lemma claim_zero:
  "ClaimPrimaryCallbackTiming PrimaryCallbackTiming_zero v q =
   (True, if v \<and> 0 < q \<and> q \<le> i64_max_nat
      then PrimaryCallbackTiming_zero\<lparr>phase := Phase_InProgress, segment := Seg_Own,
        lastEndpoint := q, segmentStart := q\<rparr>
      else PrimaryCallbackTiming_zero\<lparr>phase := Phase_InProgress, segment := Seg_Own, invalid := True\<rparr>)"
  by (auto simp: ClaimPrimaryCallbackTiming_def BeginOwn_def Endpoint_def PrimaryCallbackTiming_zero_def Let_def)

lemma timing_step_inv:
  assumes inv: "timing_inv t"
  shows "timing_inv (timing_step t e)"
proof (cases "phase t")
  case Phase_NotEntered
  then have z: "t = PrimaryCallbackTiming_zero" using inv by (simp add: timing_inv_def)
  show ?thesis
  proof (cases "\<exists>v q. e = TE_Claim v q")
    case True
    then obtain v q where "e = TE_Claim v q" by blast
    then have "timing_step t e = snd (ClaimPrimaryCallbackTiming PrimaryCallbackTiming_zero v q)"
      by (simp add: timing_step_def z)
    then show ?thesis unfolding claim_zero
      by (simp add: timing_inv_def completed_def PrimaryCallbackTiming_zero_def)
  next
    case False
    then show ?thesis using inv not_entered_step [OF Phase_NotEntered] by auto
  qed
next
  case Phase_InProgress
  show ?thesis
  proof (cases "\<exists>v q. e = TE_Finalize v q")
    case True
    then show ?thesis using finalize_call [OF inv Phase_InProgress] by auto
  next
    case False
    with in_progress_call [OF inv Phase_InProgress] show ?thesis
      by (auto simp: in_progress_step_def timing_inv_def completed_def)
  qed
next
  case Phase_CompleteValid
  then show ?thesis using inv completed_step [of t e] by (simp add: completed_def)
next
  case Phase_CompleteInvalid
  then show ?thesis using inv completed_step [of t e] by (simp add: completed_def)
qed

interpretation timing: machine timing_step timing_inv "\<lambda>_. True"
  by unfold_locales (rule timing_step_inv)

lemma timing_zero_inv: "timing_inv PrimaryCallbackTiming_zero"
  by (simp add: timing_inv_def PrimaryCallbackTiming_zero_def completed_def)

lemma timing_run_inv: "timing_inv (timing_run es)"
  unfolding timing_run_def by (rule timing.inv_run [OF timing_zero_inv]) (simp add: list_all_iff)

lemma completed_run: "completed t \<Longrightarrow> foldl timing_step t es = t"
  by (induction es) (simp_all add: completed_step)

text \<open>
  The callback is measured once. Whatever calls are made, in any order and with any clock
  reads, a completed measurement is never changed again and never claimed again; an
  invalid one stores zero ticks, and no measurement exceeds the signed 64-bit range.
\<close>

lemma timing_one_shot:
  assumes "completed (timing_run es)"
  shows "timing_run (es @ es') = timing_run es \<and>
    \<not> fst (ClaimPrimaryCallbackTiming (timing_run (es @ es')) v q) \<and>
    ticks (timing_run es) \<le> i64_max_nat \<and>
    (phase (timing_run es) = Phase_CompleteInvalid \<longrightarrow> ticks (timing_run es) = 0)"
proof -
  have "timing_run (es @ es') = timing_run es"
    using completed_run [OF assms] by (simp add: timing_run_def)
  moreover have "\<not> fst (timing_call (timing_run es) (TE_Claim v q))"
    using completed_step [OF assms] by blast
  ultimately show ?thesis using timing_run_inv [of es] by (simp add: timing_inv_def)
qed

lemma timing_one_shot_witness:
  "timing_run ([TE_Claim True 5, TE_Finalize True 9] @ [TE_Claim True 10, TE_Finalize True 90]) =
   timing_run [TE_Claim True 5, TE_Finalize True 9]"
proof -
  have "completed (timing_run [TE_Claim True 5, TE_Finalize True 9])"
    unfolding timing_run_def foldl.simps timing_step_def timing_call.simps claim_zero snd_conv
    by (simp add: FinalizePrimaryCallbackTiming_def Endpoint_def CloseOwn_def
        PrimaryCallbackTiming_zero_def Let_def Active_def completed_def)
  then show ?thesis using timing_one_shot by blast
qed

section \<open>What is measured\<close>

text \<open>
  The reference: who runs, as a stack of owners with the running one on top, and the sum of
  the intervals between consecutive calls during which the library ran.  An interval the
  unwinder ends is not the library's: the search filter has closed the last own one.
\<close>

datatype owner = Dll | Game

definition clock_follows :: "bool \<Rightarrow> nat \<Rightarrow> nat \<Rightarrow> bool" where
  "clock_follows v now q \<longleftrightarrow> v \<and> 0 < q \<and> now \<le> q \<and> q \<le> i64_max_nat"

fun dll_span :: "owner list \<Rightarrow> nat \<Rightarrow> timing_event list \<Rightarrow> nat option" where
  "dll_span st now [] = None"
| "dll_span st now (TE_Finalize v q # es) =
     (if clock_follows v now q \<and> st = [Dll] then Some (q - now) else None)"
| "dll_span st now (TE_Claim v q # es) = dll_span st now es"
| "dll_span st now (TE_Invalidate # es) = None"
| "dll_span st now (TE_Enter v q # es) =
     (if clock_follows v now q \<and> st = [Dll] then map_option ((+) (q - now)) (dll_span [Game] q es) else None)"
| "dll_span st now (TE_Leave v q # es) =
     (if clock_follows v now q \<and> st = [Game] then dll_span [Dll] q es else None)"
| "dll_span st now (TE_BeginFilter v q # es) =
     (if clock_follows v now q \<and> length st = 1
      then map_option ((+) (if st = [Dll] then q - now else 0)) (dll_span (Dll # st) q es) else None)"
| "dll_span st now (TE_EndFilter v q # es) =
     (if clock_follows v now q \<and> length st = 2
      then map_option ((+) (q - now)) (dll_span (tl st) q es) else None)"
| "dll_span st now (TE_Unwind v q # es) =
     (if clock_follows v now q \<and> length st = 1 then dll_span [Dll] q es else None)"

text \<open>The stack a measurement in progress stands for.\<close>

fun owner_of :: "Segment \<Rightarrow> owner" where
  "owner_of Seg_Native = Game"
| "owner_of _ = Dll"

definition owners :: "PrimaryCallbackTiming \<Rightarrow> owner list" where
  "owners t = (if segment t = Seg_Filter then [Dll, owner_of (filterParent t)] else [owner_of (segment t)])"

definition measuring :: "PrimaryCallbackTiming \<Rightarrow> bool" where
  "measuring t \<longleftrightarrow> phase t = Phase_InProgress \<and> \<not> invalid t \<and> 0 < lastEndpoint t \<and>
     lastEndpoint t \<le> i64_max_nat \<and> ticks t \<le> lastEndpoint t \<and>
     (segment t = Seg_Own \<and> filterParent t = Seg_None \<and> segmentStart t = lastEndpoint t \<or>
      segment t = Seg_Native \<and> filterParent t = Seg_None \<or>
      segment t = Seg_Filter \<and> (filterParent t = Seg_Own \<or> filterParent t = Seg_Native) \<and>
        segmentStart t = lastEndpoint t)"

lemma invalid_run:
  "phase t = Phase_InProgress \<Longrightarrow> invalid t \<Longrightarrow> timing_inv t \<Longrightarrow>
   phase (foldl timing_step t es) \<noteq> Phase_CompleteValid"
proof (induction es arbitrary: t)
  case Nil
  then show ?case by simp
next
  case (Cons e es)
  show ?case
  proof (cases "\<exists>v q. e = TE_Finalize v q")
    case True
    with finalize_call [OF Cons.prems(3,1)] Cons.prems(2)
    have "phase (timing_step t e) = Phase_CompleteInvalid" by blast
    then show ?thesis using completed_run [of "timing_step t e" es] by (simp add: completed_def)
  next
    case False
    with in_progress_call [OF Cons.prems(3,1), of e] Cons.prems(2)
    have "phase (timing_step t e) = Phase_InProgress" "invalid (timing_step t e)"
      by (auto simp: in_progress_step_def)
    then show ?thesis using Cons.IH timing_step_inv [OF Cons.prems(3)] by simp
  qed
qed

text \<open>The result of a measurement: its ticks when it completed as valid.\<close>

definition measured :: "PrimaryCallbackTiming \<Rightarrow> nat option" where
  "measured t = (if phase t = Phase_CompleteValid then Some (ticks t) else None)"

lemma measured_invalid:
  "phase t = Phase_InProgress \<Longrightarrow> invalid t \<Longrightarrow> timing_inv t \<Longrightarrow> measured (foldl timing_step t es) = None"
  by (simp add: measured_def invalid_run)

lemma measuring_Endpoint:
  assumes "measuring t"
  shows "Endpoint t v q = (if clock_follows v (lastEndpoint t) q then (True, t\<lparr>lastEndpoint := q\<rparr>)
    else (False, t\<lparr>invalid := True\<rparr>))"
  using assms by (auto simp: Endpoint_def clock_follows_def measuring_def)

lemma invalid_CloseOwn: "invalid t \<Longrightarrow> CloseOwn t q = t"
  by (simp add: CloseOwn_def)

lemma measuring_CloseOwn:
  assumes "measuring t" and "segment t \<noteq> Seg_Native" and "clock_follows v (lastEndpoint t) q"
  shows "CloseOwn (t\<lparr>lastEndpoint := q\<rparr>) q =
    t\<lparr>lastEndpoint := q, ticks := ticks t + (q - lastEndpoint t)\<rparr>"
proof -
  have "segmentStart t = lastEndpoint t" "ticks t \<le> lastEndpoint t" "0 < lastEndpoint t" "\<not> invalid t"
    "lastEndpoint t \<le> q" "q \<le> i64_max_nat"
    using assms by (auto simp: measuring_def clock_follows_def)
  then show ?thesis by (simp add: CloseOwn_def Let_def)
qed

text \<open>
  One call on a valid measurement: either it stays valid, adds \<open>d\<close> ticks and the reference
  adds the same, or it is invalidated and the reference has no value.
\<close>

definition matches :: "PrimaryCallbackTiming \<Rightarrow> timing_event \<Rightarrow> PrimaryCallbackTiming \<Rightarrow> bool" where
  "matches t e t' \<longleftrightarrow>
     (measuring t' \<and> (\<exists>d. ticks t' = ticks t + d \<and>
        (\<forall>es. dll_span (owners t) (lastEndpoint t) (e # es) =
          map_option ((+) d) (dll_span (owners t') (lastEndpoint t') es)))) \<or>
     (phase t' = Phase_InProgress \<and> invalid t' \<and>
      (\<forall>es. dll_span (owners t) (lastEndpoint t) (e # es) = None))"

lemma map_option_add_0: "map_option ((+) (0::nat)) x = x"
  by (cases x) simp_all

lemma matches_invalid:
  "phase t' = Phase_InProgress \<Longrightarrow> invalid t' \<Longrightarrow> (\<And>es. dll_span (owners t) (lastEndpoint t) (e # es) = None) \<Longrightarrow>
   matches t e t'"
  by (simp add: matches_def)

lemma matches_ticks:
  "measuring t' \<Longrightarrow> ticks t' = ticks t + d \<Longrightarrow>
   (\<And>es. dll_span (owners t) (lastEndpoint t) (e # es) =
     map_option ((+) d) (dll_span (owners t') (lastEndpoint t') es)) \<Longrightarrow> matches t e t'"
  by (auto simp: matches_def)

lemma measuring_cases:
  assumes "measuring t"
  obtains (own) "segment t = Seg_Own" "filterParent t = Seg_None" "segmentStart t = lastEndpoint t"
    "owners t = [Dll]"
  | (native) "segment t = Seg_Native" "filterParent t = Seg_None" "owners t = [Game]"
  | (filter) "segment t = Seg_Filter" "filterParent t = Seg_Own \<or> filterParent t = Seg_Native"
    "segmentStart t = lastEndpoint t" "owners t = [Dll, owner_of (filterParent t)]"
  using assms by (auto simp: measuring_def owners_def)

lemma measuring_facts:
  "measuring t \<Longrightarrow> Active t \<and> phase t = Phase_InProgress \<and> \<not> invalid t \<and> 0 < lastEndpoint t \<and>
   ticks t \<le> lastEndpoint t"
  by (simp add: measuring_def Active_def)

lemma again: "0 < q \<Longrightarrow> q \<le> i64_max_nat \<Longrightarrow> Endpoint (t\<lparr>lastEndpoint := q\<rparr>) True q = (True, t\<lparr>lastEndpoint := q\<rparr>)"
  by (simp add: Endpoint_def)

lemma again_invalid: "invalid t \<Longrightarrow> invalid (snd (Endpoint t v q)) \<and> phase (snd (Endpoint t v q)) = phase t"
  by (simp add: Endpoint_def)

lemma matches_Enter:
  assumes m: "measuring t"
  shows "matches t (TE_Enter v q) (timing_step t (TE_Enter v q))"
proof (cases "clock_follows v (lastEndpoint t) q")
  case True
  note f = measuring_facts [OF m] and c = True [unfolded clock_follows_def]
  have ep: "Endpoint t v q = (True, t\<lparr>lastEndpoint := q\<rparr>)"
    using True by (simp add: measuring_Endpoint [OF m])
  show ?thesis
  proof (rule measuring_cases [OF m])
    assume g: "segment t = Seg_Own" "filterParent t = Seg_None" "segmentStart t = lastEndpoint t"
      "owners t = [Dll]"
    have st: "timing_step t (TE_Enter v q) = t\<lparr>lastEndpoint := q, ticks := ticks t + (q - lastEndpoint t), segment := Seg_Native, segmentStart := 0\<rparr>"
      using f g c ep measuring_CloseOwn [OF m _ True]
      by (auto simp: timing_step_def EnterPrimaryCallbackNative_def BeginOwn_def Let_def again)
    show ?thesis unfolding st
      by (rule matches_ticks [of _ _ "q - lastEndpoint t"])
        (use f c g True in \<open>auto simp: measuring_def owners_def map_option_add_0\<close>)
  next
    assume g: "segment t = Seg_Native" "filterParent t = Seg_None" "owners t = [Game]"
    show ?thesis
      by (rule matches_invalid) (use f g in \<open>simp_all add: timing_step_def EnterPrimaryCallbackNative_def\<close>)
  next
    assume g: "segment t = Seg_Filter" "filterParent t = Seg_Own \<or> filterParent t = Seg_Native"
      "segmentStart t = lastEndpoint t" "owners t = [Dll, owner_of (filterParent t)]"
    show ?thesis
      by (rule matches_invalid) (use f g in \<open>simp_all add: timing_step_def EnterPrimaryCallbackNative_def\<close>)
  qed
next
  case False
  note f = measuring_facts [OF m]
  show ?thesis
    by (rule matches_invalid)
      (use f False in \<open>simp_all add: timing_step_def EnterPrimaryCallbackNative_def BeginOwn_def measuring_Endpoint [OF m]
        Let_def invalid_CloseOwn again_invalid\<close>)
qed

lemma matches_Leave:
  assumes m: "measuring t"
  shows "matches t (TE_Leave v q) (timing_step t (TE_Leave v q))"
proof (cases "clock_follows v (lastEndpoint t) q")
  case True
  note f = measuring_facts [OF m] and c = True [unfolded clock_follows_def]
  have ep: "Endpoint t v q = (True, t\<lparr>lastEndpoint := q\<rparr>)"
    using True by (simp add: measuring_Endpoint [OF m])
  show ?thesis
  proof (rule measuring_cases [OF m])
    assume g: "segment t = Seg_Own" "filterParent t = Seg_None" "segmentStart t = lastEndpoint t"
      "owners t = [Dll]"
    show ?thesis
      by (rule matches_invalid) (use f g in \<open>simp_all add: timing_step_def LeavePrimaryCallbackNative_def\<close>)
  next
    assume g: "segment t = Seg_Native" "filterParent t = Seg_None" "owners t = [Game]"
    have st: "timing_step t (TE_Leave v q) = t\<lparr>lastEndpoint := q, segment := Seg_Own, segmentStart := q\<rparr>"
      using f g c ep measuring_CloseOwn [OF m _ True]
      by (auto simp: timing_step_def LeavePrimaryCallbackNative_def BeginOwn_def Let_def again)
    show ?thesis unfolding st
      by (rule matches_ticks [of _ _ "0"])
        (use f c g True in \<open>auto simp: measuring_def owners_def map_option_add_0\<close>)
  next
    assume g: "segment t = Seg_Filter" "filterParent t = Seg_Own \<or> filterParent t = Seg_Native"
      "segmentStart t = lastEndpoint t" "owners t = [Dll, owner_of (filterParent t)]"
    show ?thesis
      by (rule matches_invalid) (use f g in \<open>simp_all add: timing_step_def LeavePrimaryCallbackNative_def\<close>)
  qed
next
  case False
  note f = measuring_facts [OF m]
  show ?thesis
    by (rule matches_invalid)
      (use f False in \<open>simp_all add: timing_step_def LeavePrimaryCallbackNative_def BeginOwn_def measuring_Endpoint [OF m]
        Let_def invalid_CloseOwn again_invalid\<close>)
qed

lemma matches_BeginFilter:
  assumes m: "measuring t"
  shows "matches t (TE_BeginFilter v q) (timing_step t (TE_BeginFilter v q))"
proof (cases "clock_follows v (lastEndpoint t) q")
  case True
  note f = measuring_facts [OF m] and c = True [unfolded clock_follows_def]
  have ep: "Endpoint t v q = (True, t\<lparr>lastEndpoint := q\<rparr>)"
    using True by (simp add: measuring_Endpoint [OF m])
  show ?thesis
  proof (rule measuring_cases [OF m])
    assume g: "segment t = Seg_Own" "filterParent t = Seg_None" "segmentStart t = lastEndpoint t"
      "owners t = [Dll]"
    have st: "timing_step t (TE_BeginFilter v q) = t\<lparr>lastEndpoint := q, ticks := ticks t + (q - lastEndpoint t), filterParent := Seg_Own, segment := Seg_Filter, segmentStart := q\<rparr>"
      using f g c ep measuring_CloseOwn [OF m _ True]
      by (auto simp: timing_step_def BeginPrimaryCallbackFilter_def BeginOwn_def Let_def again)
    show ?thesis unfolding st
      by (rule matches_ticks [of _ _ "q - lastEndpoint t"])
        (use f c g True in \<open>auto simp: measuring_def owners_def map_option_add_0\<close>)
  next
    assume g: "segment t = Seg_Native" "filterParent t = Seg_None" "owners t = [Game]"
    have st: "timing_step t (TE_BeginFilter v q) = t\<lparr>lastEndpoint := q, filterParent := Seg_Native, segment := Seg_Filter, segmentStart := q\<rparr>"
      using f g c ep measuring_CloseOwn [OF m _ True]
      by (auto simp: timing_step_def BeginPrimaryCallbackFilter_def BeginOwn_def Let_def again)
    show ?thesis unfolding st
      by (rule matches_ticks [of _ _ "0"])
        (use f c g True in \<open>auto simp: measuring_def owners_def map_option_add_0\<close>)
  next
    assume g: "segment t = Seg_Filter" "filterParent t = Seg_Own \<or> filterParent t = Seg_Native"
      "segmentStart t = lastEndpoint t" "owners t = [Dll, owner_of (filterParent t)]"
    show ?thesis
      by (rule matches_invalid) (use f g in \<open>simp_all add: timing_step_def BeginPrimaryCallbackFilter_def\<close>)
  qed
next
  case False
  note f = measuring_facts [OF m]
  show ?thesis
    by (rule matches_invalid)
      (use f False in \<open>simp_all add: timing_step_def BeginPrimaryCallbackFilter_def BeginOwn_def measuring_Endpoint [OF m]
        Let_def invalid_CloseOwn again_invalid\<close>)
qed

lemma matches_EndFilter:
  assumes m: "measuring t"
  shows "matches t (TE_EndFilter v q) (timing_step t (TE_EndFilter v q))"
proof (cases "clock_follows v (lastEndpoint t) q")
  case True
  note f = measuring_facts [OF m] and c = True [unfolded clock_follows_def]
  have ep: "Endpoint t v q = (True, t\<lparr>lastEndpoint := q\<rparr>)"
    using True by (simp add: measuring_Endpoint [OF m])
  show ?thesis
  proof (rule measuring_cases [OF m])
    assume g: "segment t = Seg_Own" "filterParent t = Seg_None" "segmentStart t = lastEndpoint t"
      "owners t = [Dll]"
    show ?thesis
      by (rule matches_invalid) (use f g in \<open>simp_all add: timing_step_def EndPrimaryCallbackFilter_def\<close>)
  next
    assume g: "segment t = Seg_Native" "filterParent t = Seg_None" "owners t = [Game]"
    show ?thesis
      by (rule matches_invalid) (use f g in \<open>simp_all add: timing_step_def EndPrimaryCallbackFilter_def\<close>)
  next
    assume g: "segment t = Seg_Filter" "filterParent t = Seg_Own \<or> filterParent t = Seg_Native"
      "segmentStart t = lastEndpoint t" "owners t = [Dll, owner_of (filterParent t)]"
    have st: "timing_step t (TE_EndFilter v q) = t\<lparr>lastEndpoint := q, ticks := ticks t + (q - lastEndpoint t), segment := filterParent t,
        filterParent := Seg_None, segmentStart := (if filterParent t = Seg_Own then q else 0)\<rparr>"
      using f g c ep measuring_CloseOwn [OF m _ True]
      by (auto simp: timing_step_def EndPrimaryCallbackFilter_def BeginOwn_def Let_def again)
    show ?thesis unfolding st
      by (rule matches_ticks [of _ _ "q - lastEndpoint t"])
        (use f c g True in \<open>auto simp: measuring_def owners_def map_option_add_0\<close>)
  qed
next
  case False
  note f = measuring_facts [OF m]
  show ?thesis
    by (rule matches_invalid)
      (use f False in \<open>simp_all add: timing_step_def EndPrimaryCallbackFilter_def BeginOwn_def measuring_Endpoint [OF m]
        Let_def invalid_CloseOwn again_invalid\<close>)
qed

lemma matches_Unwind:
  assumes m: "measuring t"
  shows "matches t (TE_Unwind v q) (timing_step t (TE_Unwind v q))"
proof (cases "clock_follows v (lastEndpoint t) q")
  case True
  note f = measuring_facts [OF m] and c = True [unfolded clock_follows_def]
  have ep: "Endpoint t v q = (True, t\<lparr>lastEndpoint := q\<rparr>)"
    using True by (simp add: measuring_Endpoint [OF m])
  show ?thesis
  proof (rule measuring_cases [OF m])
    assume g: "segment t = Seg_Own" "filterParent t = Seg_None" "segmentStart t = lastEndpoint t"
      "owners t = [Dll]"
    have st: "timing_step t (TE_Unwind v q) = t\<lparr>lastEndpoint := q, segment := Seg_Own, segmentStart := q\<rparr>"
      using f g c ep measuring_CloseOwn [OF m _ True]
      by (auto simp: timing_step_def BeginPrimaryCallbackUnwind_def BeginOwn_def Let_def again)
    show ?thesis unfolding st
      by (rule matches_ticks [of _ _ "0"])
        (use f c g True in \<open>auto simp: measuring_def owners_def map_option_add_0\<close>)
  next
    assume g: "segment t = Seg_Native" "filterParent t = Seg_None" "owners t = [Game]"
    have st: "timing_step t (TE_Unwind v q) = t\<lparr>lastEndpoint := q, segment := Seg_Own, segmentStart := q\<rparr>"
      using f g c ep measuring_CloseOwn [OF m _ True]
      by (auto simp: timing_step_def BeginPrimaryCallbackUnwind_def BeginOwn_def Let_def again)
    show ?thesis unfolding st
      by (rule matches_ticks [of _ _ "0"])
        (use f c g True in \<open>auto simp: measuring_def owners_def map_option_add_0\<close>)
  next
    assume g: "segment t = Seg_Filter" "filterParent t = Seg_Own \<or> filterParent t = Seg_Native"
      "segmentStart t = lastEndpoint t" "owners t = [Dll, owner_of (filterParent t)]"
    show ?thesis
      by (rule matches_invalid) (use f g in \<open>simp_all add: timing_step_def BeginPrimaryCallbackUnwind_def\<close>)
  qed
next
  case False
  note f = measuring_facts [OF m]
  show ?thesis
    by (rule matches_invalid)
      (use f False in \<open>simp_all add: timing_step_def BeginPrimaryCallbackUnwind_def BeginOwn_def measuring_Endpoint [OF m]
        Let_def case_prod_beta again_invalid\<close>)
qed


lemma matches_step:
  assumes m: "measuring t" and nf: "\<And>v q. e \<noteq> TE_Finalize v q"
  shows "matches t e (timing_step t e)"
proof (cases e)
  case (TE_Claim v q)
  have "timing_step t e = t"
    using measuring_facts [OF m] by (simp add: TE_Claim timing_step_def ClaimPrimaryCallbackTiming_def)
  then show ?thesis using m by (auto simp: TE_Claim matches_def map_option_add_0 intro!: exI [of _ 0])
next
  case (TE_Finalize v q)
  with nf show ?thesis by blast
next
  case TE_Invalidate
  have "timing_step t e = t\<lparr>invalid := True\<rparr>"
    using measuring_facts [OF m] by (simp add: TE_Invalidate timing_step_def InvalidatePrimaryCallbackTiming_def)
  then show ?thesis using measuring_facts [OF m] by (simp add: TE_Invalidate matches_def)
qed (use m in \<open>simp_all add: matches_Enter matches_Leave matches_BeginFilter matches_EndFilter matches_Unwind\<close>)

lemma measured_finalize:
  assumes m: "measuring t"
  shows "measured (timing_step t (TE_Finalize v q)) =
    map_option ((+) (ticks t)) (dll_span (owners t) (lastEndpoint t) (TE_Finalize v q # es))"
proof (cases "clock_follows v (lastEndpoint t) q")
  case True
  have ep: "Endpoint t v q = (True, t\<lparr>lastEndpoint := q\<rparr>)"
    using True by (simp add: measuring_Endpoint [OF m])
  note f = measuring_facts [OF m]
  show ?thesis
  proof (rule measuring_cases [OF m])
    assume g: "segment t = Seg_Own" "filterParent t = Seg_None" "segmentStart t = lastEndpoint t"
      "owners t = [Dll]"
    then show ?thesis using True f ep measuring_CloseOwn [OF m _ True]
      by (auto simp: timing_step_def FinalizePrimaryCallbackTiming_def measured_def Let_def)
  qed (use True f ep in \<open>simp_all add: timing_step_def FinalizePrimaryCallbackTiming_def measured_def Let_def\<close>)
next
  case False
  have ep: "Endpoint t v q = (False, t\<lparr>invalid := True\<rparr>)"
    using False by (simp add: measuring_Endpoint [OF m])
  then show ?thesis using False measuring_facts [OF m]
    by (simp add: timing_step_def FinalizePrimaryCallbackTiming_def measured_def Let_def invalid_CloseOwn)
qed

lemma measured_run:
  "measuring t \<Longrightarrow> timing_inv t \<Longrightarrow>
   measured (foldl timing_step t es) = map_option ((+) (ticks t)) (dll_span (owners t) (lastEndpoint t) es)"
proof (induction es arbitrary: t)
  case Nil
  then show ?case using measuring_facts [of t] by (simp add: measured_def)
next
  case (Cons e es)
  let ?t = "timing_step t e"
  have inv: "timing_inv ?t" using timing_step_inv [OF Cons.prems(2)] .
  show ?case
  proof (cases "\<exists>v q. e = TE_Finalize v q")
    case True
    then obtain v q where e: "e = TE_Finalize v q" by blast
    have "completed ?t"
      using finalize_call [OF Cons.prems(2)] measuring_facts [OF Cons.prems(1)] e by blast
    then show ?thesis using measured_finalize [OF Cons.prems(1), of v q es] completed_run [of ?t es]
      by (simp add: e)
  next
    case False
    then have "matches t e ?t" using matches_step [OF Cons.prems(1)] by blast
    then show ?thesis unfolding matches_def
    proof (elim disjE conjE exE)
      fix d
      assume a: "measuring ?t" "ticks ?t = ticks t + d" "\<forall>es. dll_span (owners t) (lastEndpoint t) (e # es) =
          map_option ((+) d) (dll_span (owners ?t) (lastEndpoint ?t) es)"
      from Cons.IH [OF a(1) inv] a(2,3) show ?thesis
        by (cases "dll_span (owners ?t) (lastEndpoint ?t) es") simp_all
    next
      assume a: "phase ?t = Phase_InProgress" "invalid ?t"
        "\<forall>es. dll_span (owners t) (lastEndpoint t) (e # es) = None"
      then show ?thesis using measured_invalid [OF a(1,2) inv] by simp
    qed
  qed
qed

text \<open>
  C39: What a valid measurement is. After a claim at tick \<open>q\<close>, whatever calls follow, the
  measurement completes as valid exactly when its clock reads are valid and never go
  backwards and its native and filter scopes are properly bracketed up to finalisation,
  and its ticks are then the sum of the intervals during which the library ran: native time
  is left out, filter work is counted once, and the gap the unwinder ends is left out.
\<close>

theorem timing_measures_own_time:
  "measured (timing_run (TE_Claim v q # es)) =
   (if v \<and> 0 < q \<and> q \<le> i64_max_nat then dll_span [Dll] q es else None)"
proof -
  let ?t = "timing_step PrimaryCallbackTiming_zero (TE_Claim v q)"
  have inv: "timing_inv ?t" using timing_step_inv [OF timing_zero_inv] .
  have run: "timing_run (TE_Claim v q # es) = foldl timing_step ?t es" by (simp add: timing_run_def)
  have t: "?t = snd (ClaimPrimaryCallbackTiming PrimaryCallbackTiming_zero v q)" by (simp add: timing_step_def)
  show ?thesis
  proof (cases "v \<and> 0 < q \<and> q \<le> i64_max_nat")
    case True
    then have "?t = PrimaryCallbackTiming_zero\<lparr>phase := Phase_InProgress, segment := Seg_Own,
        lastEndpoint := q, segmentStart := q\<rparr>" unfolding t claim_zero by simp
    then have "measuring ?t" "ticks ?t = 0" "owners ?t = [Dll]" "lastEndpoint ?t = q"
      using True by (simp_all add: measuring_def owners_def PrimaryCallbackTiming_zero_def)
    with measured_run [of ?t es] inv True show ?thesis unfolding run by (simp add: map_option_add_0)
  next
    case False
    then have "phase ?t = Phase_InProgress" "invalid ?t"
      unfolding t claim_zero by (simp_all add: PrimaryCallbackTiming_zero_def)
    with measured_invalid [of ?t es] inv False show ?thesis unfolding run by auto
  qed
qed

section \<open>Capture headroom\<close>

lemma headroom_frames:
  "RecoveryPumpHeadroomAvailable c n truncated \<Longrightarrow> 2 + 20 + 1 + (n - 3) \<le> 31 \<and> 31 < kCaptureFrames"
  by (auto simp: RecoveryPumpHeadroomAvailable_def kCaptureFrames_def)

text \<open>
  An admitted pump leaves room for the callback's stack. When the service pump that will
  raise a creation callback has been admitted with \<open>n\<close> captured frames, then the stack of
  the callback (the twenty fixed host returns above the \<open>n - 3\<close> outer frames) is never
  classified as truncated, and it is classified as the leech's success path exactly
  when its returns are the eighteen direct ones, either bridge, and the dispatcher.
\<close>

lemma headroom_never_truncates:
  assumes "RecoveryPumpHeadroomAvailable c n truncated" and "length outer = n - 3" and "length direct = 18"
  shows "ClassifyRecoveryCreateFrames (direct @ [bridge, dispatch] @ outer) False \<noteq> RCC_Truncated \<and>
    (ClassifyRecoveryCreateFrames (direct @ [bridge, dispatch] @ outer) False = RCC_NormalLeechSuccess \<longleftrightarrow>
      direct = kDirectReturns \<and> (bridge = 0x5F48E6 \<or> bridge = 0x5F4953) \<and> dispatch = 0x585650)"
proof -
  let ?f = "direct @ [bridge, dispatch] @ outer"
  have len: "length ?f \<le> kCaptureFrames" "20 \<le> length ?f"
    using headroom_frames [OF assms(1)] assms(2,3) by (simp_all add: kCaptureFrames_def)
  have n: "?f ! 18 = bridge" "?f ! 19 = dispatch" using assms(3) by (simp_all add: nth_append)
  have k: "length kDirectReturns = 18" by (simp add: kDirectReturns_def)
  have d: "list_ex (\<lambda>i. ?f ! i \<noteq> kDirectReturns ! i) [0..<18] \<longleftrightarrow> direct \<noteq> kDirectReturns"
    using assms(3) k by (auto simp: list_ex_iff list_eq_iff_nth_eq nth_append)
  have "\<not> length ?f < 20" "\<not> kCaptureFrames < length ?f" using len by simp_all
  then show ?thesis unfolding ClassifyRecoveryCreateFrames_def d n by simp
qed

lemma headroom_never_truncates_witness:
  "ClassifyRecoveryCreateFrames (kDirectReturns @ [0x5F48E6, 0x585650] @ replicate 8 7) False =
     RCC_NormalLeechSuccess"
proof -
  have "RecoveryPumpHeadroomAvailable Caller_NormalPump 11 False"
    by (simp add: RecoveryPumpHeadroomAvailable_def kCaptureFrames_def)
  then show ?thesis
    using headroom_never_truncates [of Caller_NormalPump 11 False "replicate 8 7" kDirectReturns]
    by (simp add: kDirectReturns_def)
qed

end
