(* ===== verification/ConfigFile.thy ===== *)
theory ConfigFile
  imports Types "HOL-Library.Multiset"
begin

text \<open>
  The configuration of the reporting component
  (\<open>src/companion/steam_reporting_config.cpp\<close>): the parser of the ini text, in its schema 2
  and schema 3 instances, and the reader that opens, bounds and parses the file.

  The parser's template parameter is the boolean \<open>native\<close> (schema 3).  Its cursor loops walk
  a byte list; every way to fail has the same reason.
\<close>

section \<open>The parser\<close>

definition Space :: "byte \<Rightarrow> bool" where
  "Space c \<longleftrightarrow> c = 0x20 \<or> c = 0x09"

text \<open>One line up to its newline, with the check of every byte; \<open>None\<close> is an illegal byte.\<close>

fun take_line :: "byte list \<Rightarrow> (byte list \<times> byte list) option" where
  "take_line [] = Some ([], [])"
| "take_line (c # cs) =
     (if c = 0x0A then Some ([], cs)
      else if c > 127 \<or> c = 0 \<or> (c < 32 \<and> c \<noteq> 0x09 \<and> c \<noteq> 0x0D) then None
      else map_option (\<lambda>(line, rest). (c # line, rest)) (take_line cs))"

definition strip_cr :: "byte list \<Rightarrow> byte list" where
  "strip_cr line = (if line \<noteq> [] \<and> last line = 0x0D then butlast line else line)"

definition trim_right :: "byte list \<Rightarrow> byte list" where
  "trim_right xs = rev (dropWhile Space (rev xs))"

definition trim :: "byte list \<Rightarrow> byte list" where
  "trim line = trim_right (dropWhile Space line)"

text \<open>The flags and selections of the loop.\<close>

record ParseState =
  st_schema :: bool
  st_mode :: bool
  st_diagnostics :: bool
  st_selected :: Mode
  st_detail :: Diagnostics

definition ParseState_init :: ParseState where
  "ParseState_init = \<lparr>st_schema = False, st_mode = False, st_diagnostics = False,
     st_selected = Mode_Invalid, st_detail = Diag_Invalid\<rparr>"

definition apply_entry :: "bool \<Rightarrow> ParseState \<Rightarrow> byte list \<Rightarrow> byte list \<Rightarrow> ParseState option" where
  "apply_entry native st key val =
     (if key = bytes_of ''schema'' then
        (if st_schema st \<or> val \<noteq> bytes_of (if native then ''3'' else ''2'') then None
         else Some (st\<lparr>st_schema := True\<rparr>))
      else if key = bytes_of ''mode'' then
        (if st_mode st then None
         else if val = bytes_of ''disabled'' then Some (st\<lparr>st_selected := Mode_Disabled, st_mode := True\<rparr>)
         else if val = bytes_of ''observe'' then Some (st\<lparr>st_selected := Mode_Observe, st_mode := True\<rparr>)
         else if val = bytes_of ''repair'' then Some (st\<lparr>st_selected := Mode_Repair, st_mode := True\<rparr>)
         else None)
      else if native then
        (if key \<noteq> bytes_of ''diagnostics'' \<or> st_diagnostics st then None
         else if val = bytes_of ''normal'' then Some (st\<lparr>st_detail := Diag_Normal, st_diagnostics := True\<rparr>)
         else if val = bytes_of ''detailed'' then Some (st\<lparr>st_detail := Diag_Detailed, st_diagnostics := True\<rparr>)
         else if val = bytes_of ''operational''
           then Some (st\<lparr>st_detail := Diag_Operational, st_diagnostics := True\<rparr>)
         else None)
      else None)"

definition parse_line :: "bool \<Rightarrow> ParseState \<Rightarrow> byte list \<Rightarrow> ParseState option" where
  "parse_line native st line =
     (let l = trim (strip_cr line) in
      if l = [] then Some st
      else
        let before = takeWhile (\<lambda>c. c \<noteq> 0x3D) l in
        if length before = length l then None
        else apply_entry native st (trim_right before) (dropWhile Space (drop (length before + 1) l)))"

lemma take_line_shorter: "take_line (c # cs) = Some (line, rest) \<Longrightarrow> length rest \<le> length cs"
proof (induction cs arbitrary: c line rest)
  case Nil
  then show ?case by (auto split: if_splits)
next
  case (Cons d ds)
  show ?case
  proof (cases "take_line (d # ds)")
    case None
    then show ?thesis using Cons.prems by (auto split: if_splits)
  next
    case (Some p)
    obtain l r where p: "p = (l, r)" by fastforce
    have "length r \<le> length ds" using Cons.IH [of d l r] Some p by simp
    then show ?thesis using Cons.prems Some p by (auto split: if_splits)
  qed
qed

function parse_lines :: "bool \<Rightarrow> ParseState \<Rightarrow> byte list \<Rightarrow> ParseState option" where
  "parse_lines native st bs =
     (case bs of
        [] \<Rightarrow> Some st
      | _ # _ \<Rightarrow> (case take_line bs of
          None \<Rightarrow> None
        | Some (line, rest) \<Rightarrow> (case parse_line native st line of
            None \<Rightarrow> None
          | Some st \<Rightarrow> parse_lines native st rest)))"
  by pat_completeness auto
termination
  by (relation "measure (\<lambda>(native, st, bs). length bs)")
    (auto dest: take_line_shorter simp del: take_line.simps simp: less_Suc_eq_le)

declare parse_lines.simps [simp del]

definition Parse :: "bool \<Rightarrow> byte list \<Rightarrow> Reason \<times> Mode \<times> Diagnostics" where
  "Parse native bs =
     (if bs = [] \<or> length bs > kConfigBytes then (R_ConfigInvalid, Mode_Invalid, Diag_Invalid)
      else case parse_lines native ParseState_init bs of
        None \<Rightarrow> (R_ConfigInvalid, Mode_Invalid, Diag_Invalid)
      | Some st \<Rightarrow>
          if \<not> st_schema st \<or> \<not> st_mode st \<or> (native \<and> \<not> st_diagnostics st)
          then (R_ConfigInvalid, Mode_Invalid, Diag_Invalid)
          else (if st_selected st = Mode_Disabled then R_ConfigDisabled else R_None,
                st_selected st, if native then st_detail st else Diag_Invalid))"

definition ParseConfig :: "byte list \<Rightarrow> Reason \<times> Config" where
  "ParseConfig bs = (case Parse False bs of (r, m, d) \<Rightarrow> (r, \<lparr>cfg_mode = m\<rparr>))"

definition ParseConfigV3 :: "byte list \<Rightarrow> Reason \<times> ConfigV3" where
  "ParseConfigV3 bs =
     (case Parse True bs of (r, m, d) \<Rightarrow> (r, \<lparr>v3_mode = m, v3_diagnostics = d\<rparr>))"

section \<open>The reader\<close>

text \<open>
  What the operating system answers: each field is the outcome of one call, an error code
  where the call fails.  \<open>cf_read n\<close> is what \<open>ReadFile\<close> delivers for a request of \<open>n\<close> bytes.
\<close>

record ConfigFileIo =
  cf_alloc :: "nat option"
  cf_append :: "nat option"
  cf_open :: "nat option"
  cf_attributes :: "u32 option"
  cf_size :: "int option"
  cf_read :: "nat \<Rightarrow> byte list option"
  cf_close :: "nat option"

definition ERROR_FILE_NOT_FOUND :: nat where "ERROR_FILE_NOT_FOUND = 2"
definition ERROR_PATH_NOT_FOUND :: nat where "ERROR_PATH_NOT_FOUND = 3"
definition ERROR_INVALID_DATA :: nat where "ERROR_INVALID_DATA = 13"
definition FILE_ATTRIBUTE_DIRECTORY :: u32 where "FILE_ATTRIBUTE_DIRECTORY = 0x10"
definition FILE_ATTRIBUTE_REPARSE_POINT :: u32 where "FILE_ATTRIBUTE_REPARSE_POINT = 0x400"

definition config_failure :: "Reason \<Rightarrow> nat \<Rightarrow> (Reason \<times> Mode \<times> Diagnostics) \<times> nat" where
  "config_failure r e = ((r, Mode_Invalid, Diag_Invalid), e)"

text \<open>Result, parsed output, and the error code stored through \<open>error\<close>.\<close>

definition Read :: "bool \<Rightarrow> ConfigFileIo \<Rightarrow> (Reason \<times> Mode \<times> Diagnostics) \<times> nat" where
  "Read native io =
     (case cf_alloc io of Some e \<Rightarrow> config_failure R_PreparationFailed e
      | None \<Rightarrow> (case cf_append io of Some e \<Rightarrow> config_failure R_ConfigInvalid e
      | None \<Rightarrow> (case cf_open io of
          Some e \<Rightarrow> config_failure
            (if e = ERROR_FILE_NOT_FOUND \<or> e = ERROR_PATH_NOT_FOUND then R_ConfigMissing
             else R_ConfigInvalid) e
        | None \<Rightarrow>
            let parsed =
              (case (cf_attributes io, cf_size io) of
                 (Some attributes, Some sz) \<Rightarrow>
                   if and attributes (or FILE_ATTRIBUTE_DIRECTORY FILE_ATTRIBUTE_REPARSE_POINT) = 0 \<and>
                      sz > 0 \<and> sz \<le> int kConfigBytes
                   then (case cf_read io (nat sz) of
                           Some bytes \<Rightarrow> if length bytes = nat sz then Parse native bytes
                                         else (R_ConfigInvalid, Mode_Invalid, Diag_Invalid)
                         | None \<Rightarrow> (R_ConfigInvalid, Mode_Invalid, Diag_Invalid))
                   else (R_ConfigInvalid, Mode_Invalid, Diag_Invalid)
               | _ \<Rightarrow> (R_ConfigInvalid, Mode_Invalid, Diag_Invalid));
                result = (if cf_close io = None then fst parsed else R_ConfigInvalid);
                localError = (case cf_close io of None \<Rightarrow> 0 | Some e \<Rightarrow> e)
            in if result \<noteq> R_None \<and> result \<noteq> R_ConfigDisabled
               then config_failure result (if localError = 0 then ERROR_INVALID_DATA else localError)
               else ((result, snd parsed), localError))))"

definition ReadConfig :: "ConfigFileIo \<Rightarrow> (Reason \<times> Config) \<times> nat" where
  "ReadConfig io = (case Read False io of ((r, m, d), e) \<Rightarrow> ((r, \<lparr>cfg_mode = m\<rparr>), e))"

definition ReadConfigV3 :: "ConfigFileIo \<Rightarrow> (Reason \<times> ConfigV3) \<times> nat" where
  "ReadConfigV3 io =
     (case Read True io of ((r, m, d), e) \<Rightarrow> ((r, \<lparr>v3_mode = m, v3_diagnostics = d\<rparr>), e))"

section \<open>Entries\<close>

text \<open>The entries a text stands for, and the multiset of entries a parse state has seen.\<close>

type_synonym entry = "byte list \<times> byte list"

definition line_entries :: "byte list \<Rightarrow> entry list option" where
  "line_entries line =
     (let l = trim (strip_cr line); before = takeWhile (\<lambda>c. c \<noteq> 0x3D) l in
      if l = [] then Some []
      else if length before = length l then None
      else Some [(trim_right before, dropWhile Space (drop (length before + 1) l))])"

function config_entries :: "byte list \<Rightarrow> entry list option" where
  "config_entries bs =
     (case bs of
        [] \<Rightarrow> Some []
      | _ # _ \<Rightarrow> (case take_line bs of
          None \<Rightarrow> None
        | Some (line, rest) \<Rightarrow> (case (line_entries line, config_entries rest) of
            (Some es, Some fs) \<Rightarrow> Some (es @ fs)
          | _ \<Rightarrow> None)))"
  by pat_completeness auto
termination
  by (relation "measure length")
    (auto dest: take_line_shorter simp del: take_line.simps simp: less_Suc_eq_le)

declare config_entries.simps [simp del]

fun apply_entries :: "bool \<Rightarrow> ParseState \<Rightarrow> entry list \<Rightarrow> ParseState option" where
  "apply_entries native st [] = Some st"
| "apply_entries native st ((k, v) # es) =
     (case apply_entry native st k v of None \<Rightarrow> None | Some st \<Rightarrow> apply_entries native st es)"

lemma apply_entries_append:
  "apply_entries native st (es @ fs) =
   (case apply_entries native st es of None \<Rightarrow> None | Some st \<Rightarrow> apply_entries native st fs)"
  by (induction native st es rule: apply_entries.induct) (auto split: option.splits)

lemma parse_line_entries:
  "parse_line native st line =
   (case line_entries line of None \<Rightarrow> None | Some es \<Rightarrow> apply_entries native st es)"
  by (auto simp: parse_line_def line_entries_def Let_def split: option.splits)

lemma parse_lines_entries:
  "parse_lines native st bs = Some st' \<longleftrightarrow>
   (\<exists>es. config_entries bs = Some es \<and> apply_entries native st es = Some st')"
proof (induction native st bs rule: parse_lines.induct)
  case (1 native st bs)
  show ?case
  proof (cases bs)
    case Nil
    then show ?thesis by (simp add: parse_lines.simps config_entries.simps)
  next
    case (Cons b bs')
    show ?thesis
    proof (cases "take_line bs")
      case None
      then show ?thesis using Cons by (simp add: parse_lines.simps config_entries.simps)
    next
      case (Some p)
      obtain line rest where p: "p = (line, rest)" by fastforce
      note t = Some [unfolded p]
      show ?thesis
      proof (cases "line_entries line")
        case None
        then show ?thesis using Cons t
          by (subst parse_lines.simps, subst config_entries.simps) (simp add: parse_line_entries)
      next
        case (Some es)
        show ?thesis
        proof (cases "apply_entries native st es")
          case None
          then show ?thesis using Cons t Some
            by (subst parse_lines.simps, subst config_entries.simps)
              (auto simp: parse_line_entries apply_entries_append split: option.splits)
        next
          case (Some st1)
          have pl: "parse_line native st line = Some st1"
            using \<open>line_entries line = Some es\<close> Some by (simp add: parse_line_entries)
          have IH: "parse_lines native st1 rest = Some st' \<longleftrightarrow>
              (\<exists>es. config_entries rest = Some es \<and> apply_entries native st1 es = Some st')"
            using "1.IH" [OF Cons t refl pl] .
          show ?thesis using Cons t \<open>line_entries line = Some es\<close> Some pl IH
            by (subst parse_lines.simps, subst config_entries.simps)
              (auto simp: apply_entries_append split: option.splits)
        qed
      qed
    qed
  qed
qed

section \<open>A document is accepted exactly when it has each key once\<close>

definition seen :: "bool \<Rightarrow> ParseState \<Rightarrow> entry multiset" where
  "seen native st =
     (if st_schema st then {#(bytes_of ''schema'', bytes_of (if native then ''3'' else ''2''))#} else {#}) +
     (if st_mode st then {#(bytes_of ''mode'', bytes_of (ModeName (st_selected st)))#} else {#}) +
     (if st_diagnostics st then {#(bytes_of ''diagnostics'', bytes_of (DiagnosticsName (st_detail st)))#} else {#})"

text \<open>A selection is made together with its flag, and diagnostics only in schema 3.\<close>

definition state_ok :: "bool \<Rightarrow> ParseState \<Rightarrow> bool" where
  "state_ok native st \<longleftrightarrow>
     (st_mode st \<longleftrightarrow> st_selected st \<noteq> Mode_Invalid) \<and>
     (st_diagnostics st \<longleftrightarrow> st_detail st \<noteq> Diag_Invalid) \<and> (st_diagnostics st \<longrightarrow> native)"

lemma key_names:
  "bytes_of ''schema'' \<noteq> bytes_of ''mode''" "bytes_of ''schema'' \<noteq> bytes_of ''diagnostics''"
  "bytes_of ''mode'' \<noteq> bytes_of ''diagnostics''"
  by (simp_all add: bytes_of_def)

definition mode_of_bytes :: "byte list \<Rightarrow> Mode" where
  "mode_of_bytes v = (if v = bytes_of ''disabled'' then Mode_Disabled
     else if v = bytes_of ''observe'' then Mode_Observe
     else if v = bytes_of ''repair'' then Mode_Repair else Mode_Invalid)"

definition diagnostics_of_bytes :: "byte list \<Rightarrow> Diagnostics" where
  "diagnostics_of_bytes v = (if v = bytes_of ''normal'' then Diag_Normal
     else if v = bytes_of ''detailed'' then Diag_Detailed
     else if v = bytes_of ''operational'' then Diag_Operational else Diag_Invalid)"

lemma mode_of_bytes_iff: "m \<noteq> Mode_Invalid \<Longrightarrow> mode_of_bytes v = m \<longleftrightarrow> v = bytes_of (ModeName m)"
  by (cases m) (simp_all add: mode_of_bytes_def bytes_of_eq_iff)

lemma diagnostics_of_bytes_iff:
  "d \<noteq> Diag_Invalid \<Longrightarrow> diagnostics_of_bytes v = d \<longleftrightarrow> v = bytes_of (DiagnosticsName d)"
  by (cases d) (simp_all add: diagnostics_of_bytes_def bytes_of_eq_iff)

lemma selection_chain:
  "x \<noteq> d \<Longrightarrow> y \<noteq> d \<Longrightarrow> z \<noteq> d \<Longrightarrow>
   (if A then Some (f x) else if B then Some (f y) else if C then Some (f z) else None) =
   (if (if A then x else if B then y else if C then z else d) = d then None
    else Some (f (if A then x else if B then y else if C then z else d)))"
  by simp

lemma key_chain:
  "(if K1 then x else if K2 then (if s2 then None else (if m then None else y))
    else if n then (if \<not> K3 \<or> s3 then None else (if d then None else z)) else None) =
   (if K1 then x else if K2 then (if s2 \<or> m then None else y)
    else if n \<and> K3 then (if s3 \<or> d then None else z) else None)"
  by simp

lemma apply_entry_alt:
  "apply_entry native st key val =
     (if key = bytes_of ''schema'' then
        (if st_schema st \<or> val \<noteq> bytes_of (if native then ''3'' else ''2'') then None
         else Some (st\<lparr>st_schema := True\<rparr>))
      else if key = bytes_of ''mode'' then
        (if st_mode st \<or> mode_of_bytes val = Mode_Invalid then None
         else Some (st\<lparr>st_selected := mode_of_bytes val, st_mode := True\<rparr>))
      else if native \<and> key = bytes_of ''diagnostics'' then
        (if st_diagnostics st \<or> diagnostics_of_bytes val = Diag_Invalid then None
         else Some (st\<lparr>st_detail := diagnostics_of_bytes val, st_diagnostics := True\<rparr>))
      else None)"
proof -
  have m: "(if val = bytes_of ''disabled'' then Some (st\<lparr>st_selected := Mode_Disabled, st_mode := True\<rparr>)
         else if val = bytes_of ''observe'' then Some (st\<lparr>st_selected := Mode_Observe, st_mode := True\<rparr>)
         else if val = bytes_of ''repair'' then Some (st\<lparr>st_selected := Mode_Repair, st_mode := True\<rparr>)
         else None) = (if mode_of_bytes val = Mode_Invalid then None
           else Some (st\<lparr>st_selected := mode_of_bytes val, st_mode := True\<rparr>))"
    unfolding mode_of_bytes_def
    by (rule selection_chain [where f = "\<lambda>m. st\<lparr>st_selected := m, st_mode := True\<rparr>"]) simp_all
  have d: "(if val = bytes_of ''normal'' then Some (st\<lparr>st_detail := Diag_Normal, st_diagnostics := True\<rparr>)
         else if val = bytes_of ''detailed'' then Some (st\<lparr>st_detail := Diag_Detailed, st_diagnostics := True\<rparr>)
         else if val = bytes_of ''operational''
           then Some (st\<lparr>st_detail := Diag_Operational, st_diagnostics := True\<rparr>)
         else None) = (if diagnostics_of_bytes val = Diag_Invalid then None
           else Some (st\<lparr>st_detail := diagnostics_of_bytes val, st_diagnostics := True\<rparr>))"
    unfolding diagnostics_of_bytes_def
    by (rule selection_chain [where f = "\<lambda>m. st\<lparr>st_detail := m, st_diagnostics := True\<rparr>"]) simp_all
  show ?thesis unfolding apply_entry_def m d by (rule key_chain)
qed

lemma names_of_bytes:
  "mode_of_bytes v \<noteq> Mode_Invalid \<Longrightarrow> bytes_of (ModeName (mode_of_bytes v)) = v"
  "diagnostics_of_bytes v \<noteq> Diag_Invalid \<Longrightarrow> bytes_of (DiagnosticsName (diagnostics_of_bytes v)) = v"
  using mode_of_bytes_iff [of "mode_of_bytes v" v] diagnostics_of_bytes_iff [of "diagnostics_of_bytes v" v]
  by simp_all

lemma apply_entry_seen:
  assumes ok: "state_ok native st" and ap: "apply_entry native st k v = Some st'"
  shows "state_ok native st' \<and> seen native st' = seen native st + {#(k, v)#}"
proof -
  consider (schema) "k = bytes_of ''schema''" | (mode) "k = bytes_of ''mode''"
    | (diagnostics) "native" "k = bytes_of ''diagnostics''"
    using ap by (auto simp: apply_entry_alt split: if_splits)
  then show ?thesis
  proof cases
    case schema
    then show ?thesis using ok ap by (auto simp: apply_entry_alt state_ok_def seen_def split: if_splits)
  next
    case mode
    then have "\<not> st_mode st" "mode_of_bytes v \<noteq> Mode_Invalid"
      "st' = st\<lparr>st_selected := mode_of_bytes v, st_mode := True\<rparr>"
      using ap by (auto simp: apply_entry_alt bytes_of_eq_iff split: if_splits)
    with ok mode show ?thesis by (simp add: state_ok_def seen_def names_of_bytes)
  next
    case diagnostics
    then have "\<not> st_diagnostics st" "diagnostics_of_bytes v \<noteq> Diag_Invalid"
      "st' = st\<lparr>st_detail := diagnostics_of_bytes v, st_diagnostics := True\<rparr>"
      using ap by (auto simp: apply_entry_alt bytes_of_eq_iff split: if_splits)
    with ok diagnostics show ?thesis by (simp add: state_ok_def seen_def names_of_bytes)
  qed
qed

lemma seen_keys:
  "size (filter_mset (\<lambda>e. fst e = bytes_of ''schema'') (seen native st)) = of_bool (st_schema st)"
  "size (filter_mset (\<lambda>e. fst e = bytes_of ''mode'') (seen native st)) = of_bool (st_mode st)"
  "size (filter_mset (\<lambda>e. fst e = bytes_of ''diagnostics'') (seen native st)) = of_bool (st_diagnostics st)"
  by (simp_all add: seen_def bytes_of_eq_iff)

lemma apply_entry_progress:
  assumes ok: "state_ok native st'" and more: "seen native st + {#(k, v)#} \<subseteq># seen native st'"
  shows "apply_entry native st k v \<noteq> None"
proof -
  have key: "size (filter_mset (\<lambda>e. fst e = k) (seen native st)) < size (filter_mset (\<lambda>e. fst e = k) (seen native st'))"
    using size_mset_mono [OF multiset_filter_mono [OF more, of "\<lambda>e. fst e = k"]] by simp
  have mem: "(k, v) \<in># seen native st'" using mset_subset_eqD [OF more, of "(k, v)"] by simp
  then consider (schema) "k = bytes_of ''schema''" "v = bytes_of (if native then ''3'' else ''2'')"
    | (mode) "st_mode st'" "k = bytes_of ''mode''" "v = bytes_of (ModeName (st_selected st'))"
    | (diagnostics) "st_diagnostics st'" "k = bytes_of ''diagnostics''"
        "v = bytes_of (DiagnosticsName (st_detail st'))"
    by (auto simp: seen_def split: if_splits)
  then show ?thesis
  proof cases
    case schema
    then have "\<not> st_schema st" using key by (simp add: seen_keys split: if_splits)
    with schema show ?thesis by (simp add: apply_entry_alt)
  next
    case mode
    then have "\<not> st_mode st" using key by (simp add: seen_keys split: if_splits)
    moreover have "mode_of_bytes v \<noteq> Mode_Invalid"
      using ok mode mode_of_bytes_iff [of "st_selected st'" v] by (auto simp: state_ok_def)
    ultimately show ?thesis using mode by (simp add: apply_entry_alt bytes_of_eq_iff)
  next
    case diagnostics
    then have "\<not> st_diagnostics st" using key by (simp add: seen_keys split: if_splits)
    moreover have "diagnostics_of_bytes v \<noteq> Diag_Invalid"
      using ok diagnostics diagnostics_of_bytes_iff [of "st_detail st'" v] by (auto simp: state_ok_def)
    ultimately show ?thesis using diagnostics ok by (simp add: apply_entry_alt bytes_of_eq_iff state_ok_def)
  qed
qed

lemma seen_inj:
  assumes "state_ok native s" "state_ok native t" "seen native s = seen native t"
  shows "s = t"
proof -
  have k: "st_schema s = st_schema t" "st_mode s = st_mode t" "st_diagnostics s = st_diagnostics t"
    using seen_keys [of native s] seen_keys [of native t] assms(3) by (metis of_bool_eq_iff)+
  have "bytes_of (ModeName (st_selected s)) = bytes_of (ModeName (st_selected t))" if "st_mode s"
  proof -
    have "(bytes_of ''mode'', bytes_of (ModeName (st_selected s))) \<in># seen native s"
      using that by (simp add: seen_def)
    then have "(bytes_of ''mode'', bytes_of (ModeName (st_selected s))) \<in># seen native t"
      by (simp only: assms(3))
    then show ?thesis by (auto simp: seen_def bytes_of_eq_iff split: if_splits)
  qed
  then have m: "st_selected s = st_selected t"
    using assms(1,2) k(2) mode_names.name_inj
    by (cases "st_mode s") (auto simp: state_ok_def bytes_of_eq_iff inj_def)
  have "bytes_of (DiagnosticsName (st_detail s)) = bytes_of (DiagnosticsName (st_detail t))" if "st_diagnostics s"
  proof -
    have "(bytes_of ''diagnostics'', bytes_of (DiagnosticsName (st_detail s))) \<in># seen native s"
      using that by (simp add: seen_def)
    then have "(bytes_of ''diagnostics'', bytes_of (DiagnosticsName (st_detail s))) \<in># seen native t"
      by (simp only: assms(3))
    then show ?thesis by (auto simp: seen_def bytes_of_eq_iff split: if_splits)
  qed
  then have "st_detail s = st_detail t"
    using assms(1,2) k(3) diagnostics_names.name_inj
    by (cases "st_diagnostics s") (auto simp: state_ok_def bytes_of_eq_iff inj_def)
  with k m show ?thesis by simp
qed

lemma apply_entries_seen:
  "state_ok native st \<Longrightarrow> apply_entries native st es = Some st' \<Longrightarrow>
   state_ok native st' \<and> seen native st' = seen native st + mset es"
proof (induction native st es rule: apply_entries.induct)
  case (1 native st)
  then show ?case by simp
next
  case (2 native st k v es)
  then obtain st1 where a: "apply_entry native st k v = Some st1" "apply_entries native st1 es = Some st'"
    by (auto split: option.splits)
  from apply_entry_seen [OF "2.prems"(1) a(1)] "2.IH" [OF a(1) _ a(2)] show ?case by auto
qed

lemma apply_entries_complete:
  "state_ok native st \<Longrightarrow> state_ok native st' \<Longrightarrow> seen native st' = seen native st + mset es \<Longrightarrow>
   apply_entries native st es = Some st'"
proof (induction native st es rule: apply_entries.induct)
  case (1 native st)
  then show ?case using seen_inj [of native st st'] by simp
next
  case (2 native st k v es)
  have "seen native st + {#(k, v)#} \<subseteq># seen native st'" using "2.prems"(3) by simp
  then obtain st1 where a: "apply_entry native st k v = Some st1"
    using apply_entry_progress [OF "2.prems"(2)] by blast
  from apply_entry_seen [OF "2.prems"(1) a] "2.IH" [OF a _ "2.prems"(2)] "2.prems"(3) a
  show ?case by simp
qed

lemma init_ok: "state_ok native ParseState_init" and init_seen: "seen native ParseState_init = {#}"
  by (simp_all add: state_ok_def ParseState_init_def seen_def)

text \<open>The three entries of a complete schema 3 document.\<close>

definition complete_v3 :: "Mode \<Rightarrow> Diagnostics \<Rightarrow> entry multiset" where
  "complete_v3 m d = {#(bytes_of ''schema'', bytes_of ''3''), (bytes_of ''mode'', bytes_of (ModeName m)),
     (bytes_of ''diagnostics'', bytes_of (DiagnosticsName d))#}"

lemma parse_lines_v3:
  assumes "m \<noteq> Mode_Invalid" "d \<noteq> Diag_Invalid"
  shows "(\<exists>es. config_entries bs = Some es \<and> mset es = complete_v3 m d) \<longleftrightarrow>
    parse_lines True ParseState_init bs = Some \<lparr>st_schema = True, st_mode = True, st_diagnostics = True,
      st_selected = m, st_detail = d\<rparr>" (is "?L \<longleftrightarrow> ?P = Some ?st")
proof -
  have ok: "state_ok True ?st" and sn: "seen True ?st = complete_v3 m d"
    using assms by (simp_all add: state_ok_def seen_def complete_v3_def)
  show ?thesis unfolding parse_lines_entries
  proof
    assume ?L
    then obtain es where es: "config_entries bs = Some es" "mset es = complete_v3 m d" by blast
    have "apply_entries True ParseState_init es = Some ?st"
      by (rule apply_entries_complete [OF init_ok ok]) (simp add: init_seen sn es)
    with es show "\<exists>es. config_entries bs = Some es \<and> apply_entries True ParseState_init es = Some ?st" by blast
  next
    assume "\<exists>es. config_entries bs = Some es \<and> apply_entries True ParseState_init es = Some ?st"
    then obtain es where es: "config_entries bs = Some es" "apply_entries True ParseState_init es = Some ?st"
      by blast
    from apply_entries_seen [OF init_ok es(2)] es(1) show ?L by (auto simp: init_seen sn)
  qed
qed

definition accepts_v3 :: "byte list \<Rightarrow> Mode \<Rightarrow> Diagnostics \<Rightarrow> bool" where
  "accepts_v3 bs m d \<longleftrightarrow> bs \<noteq> [] \<and> length bs \<le> kConfigBytes \<and> m \<noteq> Mode_Invalid \<and> d \<noteq> Diag_Invalid \<and>
     (case config_entries bs of None \<Rightarrow> False | Some es \<Rightarrow> mset es = complete_v3 m d)"

lemma accepts_v3_iff:
  "accepts_v3 bs m d \<longleftrightarrow> bs \<noteq> [] \<and> length bs \<le> kConfigBytes \<and> m \<noteq> Mode_Invalid \<and> d \<noteq> Diag_Invalid \<and>
     parse_lines True ParseState_init bs = Some \<lparr>st_schema = True, st_mode = True, st_diagnostics = True,
      st_selected = m, st_detail = d\<rparr>"
  using parse_lines_v3 [of m d bs] by (auto simp: accepts_v3_def split: option.splits)

lemma Parse_v3_cases:
  "(\<exists>m d. accepts_v3 bs m d \<and>
      Parse True bs = (if m = Mode_Disabled then R_ConfigDisabled else R_None, m, d)) \<or>
   ((\<nexists>m d. accepts_v3 bs m d) \<and> Parse True bs = (R_ConfigInvalid, Mode_Invalid, Diag_Invalid))"
proof (cases "bs = [] \<or> length bs > kConfigBytes")
  case True
  then show ?thesis by (auto simp: Parse_def accepts_v3_def)
next
  case len: False
  show ?thesis
  proof (cases "parse_lines True ParseState_init bs")
    case None
    then show ?thesis using len by (auto simp: Parse_def accepts_v3_iff)
  next
    case (Some st)
    then obtain es where "apply_entries True ParseState_init es = Some st"
      using parse_lines_entries by blast
    then have ok: "state_ok True st" using apply_entries_seen [OF init_ok] by blast
    show ?thesis
    proof (cases "st_schema st \<and> st_mode st \<and> st_diagnostics st")
      case True
      then have "st = \<lparr>st_schema = True, st_mode = True, st_diagnostics = True,
          st_selected = st_selected st, st_detail = st_detail st\<rparr>" by (cases st) simp
      with True ok len Some have "accepts_v3 bs (st_selected st) (st_detail st)"
        by (simp add: accepts_v3_iff state_ok_def)
      moreover have "Parse True bs = (if st_selected st = Mode_Disabled then R_ConfigDisabled else R_None,
          st_selected st, st_detail st)" using True len Some by (simp add: Parse_def)
      ultimately show ?thesis by blast
    next
      case False
      then show ?thesis using len Some by (auto simp: Parse_def accepts_v3_iff)
    qed
  qed
qed

lemma accepts_v3_unique: "accepts_v3 bs m d \<Longrightarrow> accepts_v3 bs m' d' \<Longrightarrow> m = m' \<and> d = d'"
  by (auto simp: accepts_v3_iff)

text \<open>
  A schema 3 document authorises exactly what it says. The parser accepts a text if and
  only if it is non-empty, at most 4096 bytes, made of legal lines, and its entries are, in
  any order and spacing, the schema, one mode and one diagnostics level, each exactly
  once; it then returns that mode and level, a disabled mode with its own reason, and
  every other text yields the zero configuration.
\<close>

theorem config_v3_exact:
  "ParseConfigV3 bs = (r, c) \<longleftrightarrow>
   (\<exists>m d. accepts_v3 bs m d \<and> c = \<lparr>v3_mode = m, v3_diagnostics = d\<rparr> \<and>
      r = (if m = Mode_Disabled then R_ConfigDisabled else R_None)) \<or>
   ((\<nexists>m d. accepts_v3 bs m d) \<and> r = R_ConfigInvalid \<and> c = ConfigV3_zero)"
  using Parse_v3_cases [of bs]
proof
  assume "\<exists>m d. accepts_v3 bs m d \<and>
      Parse True bs = (if m = Mode_Disabled then R_ConfigDisabled else R_None, m, d)"
  then obtain m d where a: "accepts_v3 bs m d"
    and p: "Parse True bs = (if m = Mode_Disabled then R_ConfigDisabled else R_None, m, d)" by blast
  have "ParseConfigV3 bs = (if m = Mode_Disabled then R_ConfigDisabled else R_None,
      \<lparr>v3_mode = m, v3_diagnostics = d\<rparr>)" unfolding ParseConfigV3_def p by simp
  moreover have "accepts_v3 bs m' d' \<longleftrightarrow> m' = m \<and> d' = d" for m' d'
    using a accepts_v3_unique by blast
  ultimately show ?thesis by (simp only: Pair_inject) blast
next
  assume "(\<nexists>m d. accepts_v3 bs m d) \<and> Parse True bs = (R_ConfigInvalid, Mode_Invalid, Diag_Invalid)"
  then show ?thesis by (auto simp: ParseConfigV3_def ConfigV3_zero_def)
qed

text \<open>The codes a failing system call leaves are errors.\<close>

definition io_codes_ok :: "ConfigFileIo \<Rightarrow> bool" where
  "io_codes_ok io \<longleftrightarrow> cf_alloc io \<noteq> Some 0 \<and> cf_append io \<noteq> Some 0 \<and> cf_open io \<noteq> Some 0 \<and>
     cf_close io \<noteq> Some 0"

text \<open>
  Reading the configuration fails closed. When the codes of failing calls are not zero,
  the stored error is zero exactly when the result is a mode the document authorises;
  then the file was a regular file of one to 4096 bytes, read whole and closed, and the
  result is the parser's on those bytes; in every other case the zero configuration is
  returned.
\<close>

lemma read_config_v3_fails_closed:
  assumes "io_codes_ok io" and "ReadConfigV3 io = ((r, c), e)"
  shows "(e = 0 \<longleftrightarrow> r = R_None \<or> r = R_ConfigDisabled) \<and> (e \<noteq> 0 \<longrightarrow> c = ConfigV3_zero) \<and>
    (e = 0 \<longrightarrow> cf_open io = None \<and> cf_close io = None \<and>
      (\<exists>bs. cf_size io = Some (int (length bs)) \<and> cf_read io (length bs) = Some bs \<and>
        0 < length bs \<and> length bs \<le> 4096 \<and> ParseConfigV3 bs = (r, c)))"
proof -
  obtain p e' where R: "Read True io = (p, e')" by fastforce
  obtain r' m d where p: "p = (r', m, d)" using prod_cases3 by blast
  have eq: "r' = r" "c = \<lparr>v3_mode = m, v3_diagnostics = d\<rparr>" "e' = e"
    using assms(2) R p by (auto simp: ReadConfigV3_def)
  let ?bad = "(R_ConfigInvalid, Mode_Invalid, Diag_Invalid)"
  have fail: "p = (r', Mode_Invalid, Diag_Invalid) \<and> e' \<noteq> 0 \<and> r' \<noteq> R_None \<and> r' \<noteq> R_ConfigDisabled \<or>
    e' = 0 \<and> (r' = R_None \<or> r' = R_ConfigDisabled) \<and> cf_open io = None \<and> cf_close io = None \<and>
      (\<exists>n bs. cf_size io = Some n \<and> 0 < n \<and> n \<le> 4096 \<and> cf_read io (nat n) = Some bs \<and>
        length bs = nat n \<and> Parse True bs = p)"
  proof (cases "cf_alloc io = None \<and> cf_append io = None \<and> cf_open io = None")
    case False
    then show ?thesis using R assms(1) p
      by (auto simp: Read_def config_failure_def io_codes_ok_def split: option.splits if_splits)
  next
    case True
    then show ?thesis using R assms(1) p
      by (auto simp: Read_def config_failure_def io_codes_ok_def kConfigBytes_def Let_def ERROR_INVALID_DATA_def
          split: option.splits if_splits)
  qed
  then show ?thesis
  proof
    assume "p = (r', Mode_Invalid, Diag_Invalid) \<and> e' \<noteq> 0 \<and> r' \<noteq> R_None \<and> r' \<noteq> R_ConfigDisabled"
    with eq p show ?thesis by (simp add: ConfigV3_zero_def)
  next
    assume a: "e' = 0 \<and> (r' = R_None \<or> r' = R_ConfigDisabled) \<and> cf_open io = None \<and> cf_close io = None \<and>
      (\<exists>n bs. cf_size io = Some n \<and> 0 < n \<and> n \<le> 4096 \<and> cf_read io (nat n) = Some bs \<and>
        length bs = nat n \<and> Parse True bs = p)"
    then obtain n bs where n: "cf_size io = Some n" "0 < n" "n \<le> 4096" "cf_read io (nat n) = Some bs"
      "length bs = nat n" "Parse True bs = p" by blast
    then have "cf_size io = Some (int (length bs))" "cf_read io (length bs) = Some bs" "0 < length bs"
      "length bs \<le> 4096" by simp_all
    moreover have "ParseConfigV3 bs = (r, c)" using n(6) eq p by (simp add: ParseConfigV3_def)
    ultimately show ?thesis using a eq by blast
  qed
qed

definition sample_text :: "byte list" where
  "sample_text = bytes_of ''mode = observe'' @ [0x0D, 0x0A, 0x0A] @ bytes_of ''schema=3'' @ [0x0A] @
     bytes_of '' diagnostics =normal ''"

definition sample_io :: ConfigFileIo where
  "sample_io = \<lparr>cf_alloc = None, cf_append = None, cf_open = None, cf_attributes = Some 0x20,
     cf_size = Some (int (length sample_text)), cf_read = (\<lambda>n. Some sample_text), cf_close = None\<rparr>"

lemma sample_parses: "Parse True sample_text = (R_None, Mode_Observe, Diag_Normal)"
  by code_simp

lemma read_config_v3_fails_closed_witness:
  "ReadConfigV3 sample_io = ((R_None, \<lparr>v3_mode = Mode_Observe, v3_diagnostics = Diag_Normal\<rparr>), 0) \<and>
   cf_close sample_io = None"
proof -
  have len: "length sample_text = 47" by (simp add: sample_text_def)
  have r: "ReadConfigV3 sample_io = ((R_None, \<lparr>v3_mode = Mode_Observe, v3_diagnostics = Diag_Normal\<rparr>), 0)"
    by (simp add: ReadConfigV3_def Read_def sample_io_def len kConfigBytes_def FILE_ATTRIBUTE_DIRECTORY_def
        FILE_ATTRIBUTE_REPARSE_POINT_def sample_parses)
  have "io_codes_ok sample_io" by (simp add: io_codes_ok_def sample_io_def)
  from read_config_v3_fails_closed [OF this r] r show ?thesis by simp
qed

end
