(* ===== verification/Paths.thy ===== *)
theory Paths
  imports Prelude
begin

text \<open>
  Path and file identity helpers (\<open>src/shared/path_identity.cpp\<close>): bounded joining and
  splitting of paths, module and system paths, and the two file identities.

  A wide string is a list of code units with an explicit capacity; \<open>None\<close> is a null pointer.
  An output buffer is what the function leaves in it: \<open>Some text\<close> on success (a terminator
  follows), an empty string otherwise.  The system calls are arguments: each gives its value
  or the error code \<open>GetLastError\<close> reports.
\<close>

type_synonym wide = "nat list"

definition ERROR_SUCCESS :: nat where "ERROR_SUCCESS = 0"
definition ERROR_INVALID_PARAMETER :: nat where "ERROR_INVALID_PARAMETER = 87"
definition ERROR_INVALID_NAME :: nat where "ERROR_INVALID_NAME = 123"
definition ERROR_INSUFFICIENT_BUFFER :: nat where "ERROR_INSUFFICIENT_BUFFER = 122"

definition kPathCapacity :: nat where "kPathCapacity = 32768"
definition kBootstrapPathCapacity :: nat where "kBootstrapPathCapacity = 512"

definition is_separator :: "nat \<Rightarrow> bool" where
  "is_separator c \<longleftrightarrow> c = 0x5C \<or> c = 0x2F"

text \<open>\<open>Length\<close>: the index of the first terminator within the capacity; empty strings fail.\<close>

fun length_loop :: "wide \<Rightarrow> nat \<Rightarrow> nat \<Rightarrow> nat option" where
  "length_loop input i 0 = None"
| "length_loop input i (Suc n) =
     (if input ! i = 0 then (if i \<noteq> 0 then Some i else None) else length_loop input (Suc i) n)"

definition Length :: "wide option \<Rightarrow> nat \<Rightarrow> nat option" where
  "Length input capacity =
     (case input of None \<Rightarrow> None
      | Some s \<Rightarrow> if capacity = 0 then None else length_loop s 0 capacity)"

text \<open>\<open>None\<close> lets the caller continue, \<open>Some e\<close> is the refusal it stores.\<close>

definition ValidateOutput :: "bool \<Rightarrow> nat \<Rightarrow> nat option" where
  "ValidateOutput output_null capacity =
     (if output_null \<or> capacity = 0 \<or> capacity > u32_max then Some ERROR_INVALID_PARAMETER else None)"

definition AppendPathLeaf ::
  "wide option \<Rightarrow> nat \<Rightarrow> wide option \<Rightarrow> nat \<Rightarrow> bool \<Rightarrow> nat \<Rightarrow> wide option \<times> nat" where
  "AppendPathLeaf directory directoryCapacity leaf leafCapacity output_null outputCapacity =
     (if directory = None \<or> leaf = None \<or> output_null \<or> directoryCapacity = 0 \<or> leafCapacity = 0 \<or>
         outputCapacity = 0 then (None, ERROR_INVALID_PARAMETER)
      else case (Length directory directoryCapacity, Length leaf leafCapacity) of
        (Some directoryLength, Some leafLength) \<Rightarrow>
          let separator = \<not> is_separator (the directory ! (directoryLength - 1));
              extra = (if separator then 1 else 0) in
          if directoryLength \<ge> outputCapacity \<or> extra \<ge> outputCapacity - directoryLength \<or>
             leafLength \<ge> outputCapacity - directoryLength - extra
          then (None, ERROR_INSUFFICIENT_BUFFER)
          else (Some (take directoryLength (the directory) @ (if separator then [0x5C] else []) @
                      take leafLength (the leaf)), ERROR_SUCCESS)
      | _ \<Rightarrow> (None, ERROR_INVALID_NAME))"

definition x3_leaf :: wide where
  "x3_leaf = map of_char ''X3DAudio1_7.dll'' @ [0]"

text \<open>
  \<open>GetSystemDirectoryW capacity\<close> and \<open>GetModuleFileNameW\<close> return the length and what they
  left in the buffer; length zero comes with an error code.
\<close>

definition BuildSystemX3AudioPath ::
  "(nat \<Rightarrow> (nat \<times> wide) + nat) \<Rightarrow> bool \<Rightarrow> nat \<Rightarrow> wide option \<times> nat" where
  "BuildSystemX3AudioPath getSystemDirectory output_null capacity =
     (case ValidateOutput output_null capacity of Some e \<Rightarrow> (None, e)
      | None \<Rightarrow> (case getSystemDirectory capacity of
          Inr failure \<Rightarrow> (None, failure)
        | Inl (len, buffer) \<Rightarrow>
            if len \<ge> capacity then (None, ERROR_INSUFFICIENT_BUFFER)
            else AppendPathLeaf (Some buffer) capacity (Some x3_leaf) (length x3_leaf) False capacity))"

definition GetBoundedModulePath ::
  "(nat \<Rightarrow> (nat \<times> wide) + nat) \<Rightarrow> bool \<Rightarrow> nat \<Rightarrow> wide option \<times> nat" where
  "GetBoundedModulePath getModuleFileName output_null capacity =
     (case ValidateOutput output_null capacity of Some e \<Rightarrow> (None, e)
      | None \<Rightarrow> (case getModuleFileName capacity of
          Inr failure \<Rightarrow> (None, failure)
        | Inl (len, buffer) \<Rightarrow>
            if len \<ge> capacity then (None, ERROR_INSUFFICIENT_BUFFER)
            else (Some (take len buffer), ERROR_SUCCESS)))"

text \<open>The backward scan for the last separator.\<close>

fun separator_scan :: "wide \<Rightarrow> nat \<Rightarrow> nat" where
  "separator_scan path 0 = 0"
| "separator_scan path (Suc i) = (if is_separator (path ! i) then Suc i else separator_scan path i)"

definition ExtractDirectoryAndLeaf ::
  "wide option \<Rightarrow> nat \<Rightarrow> bool \<Rightarrow> nat \<Rightarrow> bool \<Rightarrow> nat \<Rightarrow> (wide \<times> wide) option \<times> nat" where
  "ExtractDirectoryAndLeaf path pathCapacity directory_null directoryCapacity leaf_null leafCapacity =
     (case path of None \<Rightarrow> (None, ERROR_INVALID_PARAMETER)
      | Some p \<Rightarrow>
          if directory_null \<or> leaf_null \<or> pathCapacity = 0 \<or> directoryCapacity = 0 \<or> leafCapacity = 0
          then (None, ERROR_INVALID_PARAMETER)
          else case Length path pathCapacity of
            None \<Rightarrow> (None, ERROR_INVALID_NAME)
          | Some len \<Rightarrow>
              let separator = separator_scan p len in
              if separator = 0 \<or> separator = len then (None, ERROR_INVALID_NAME)
              else
                let directoryLength = (if separator = 3 \<and> p ! 1 = 0x3A then separator else separator - 1);
                    leafLength = len - separator in
                if directoryLength = 0 then (None, ERROR_INVALID_NAME)
                else if directoryLength \<ge> directoryCapacity \<or> leafLength \<ge> leafCapacity
                  then (None, ERROR_INSUFFICIENT_BUFFER)
                else (Some (take directoryLength p, take leafLength (drop separator p)), ERROR_SUCCESS))"

section \<open>File identities\<close>

record FileIdentity =
  volumeSerial :: nat
  fileIndexHigh :: nat
  fileIndexLow :: nat
  fid_valid :: bool

record FileIdentity128 =
  volumeSerial128 :: nat
  fileId :: "byte list"
  fid128_valid :: bool

definition FileIdentity_zero :: FileIdentity where
  "FileIdentity_zero = \<lparr>volumeSerial = 0, fileIndexHigh = 0, fileIndexLow = 0, fid_valid = False\<rparr>"

definition FileIdentity128_zero :: FileIdentity128 where
  "FileIdentity128_zero = \<lparr>volumeSerial128 = 0, fileId = replicate 16 0, fid128_valid = False\<rparr>"

definition QueryFileIdentity ::
  "(wide \<Rightarrow> nat option) \<Rightarrow> (nat \<times> nat \<times> nat) + nat \<Rightarrow> nat option \<Rightarrow> wide option \<Rightarrow>
   (bool \<times> FileIdentity) \<times> nat" where
  "QueryFileIdentity openFile information closeFile path =
     (case path of
        None \<Rightarrow> ((False, FileIdentity_zero), ERROR_INVALID_PARAMETER)
      | Some p \<Rightarrow>
          if p ! 0 = 0 then ((False, FileIdentity_zero), ERROR_INVALID_PARAMETER)
          else case openFile p of
            Some e \<Rightarrow> ((False, FileIdentity_zero), e)
          | None \<Rightarrow> (case information of
              Inr failure \<Rightarrow> ((False, FileIdentity_zero), failure)
            | Inl (serial, high, low) \<Rightarrow> (case closeFile of
                Some e \<Rightarrow> ((False, FileIdentity_zero), e)
              | None \<Rightarrow> ((True, \<lparr>volumeSerial = serial, fileIndexHigh = high, fileIndexLow = low,
                  fid_valid = True\<rparr>), ERROR_SUCCESS))))"

definition SameFileIdentity :: "FileIdentity \<Rightarrow> FileIdentity \<Rightarrow> bool" where
  "SameFileIdentity left right \<longleftrightarrow>
     fid_valid left \<and> fid_valid right \<and> volumeSerial left = volumeSerial right \<and>
     fileIndexHigh left = fileIndexHigh right \<and> fileIndexLow left = fileIndexLow right"

definition QueryFileIdentity128 ::
  "(nat \<times> byte list) + nat \<Rightarrow> bool \<Rightarrow> (bool \<times> FileIdentity128) \<times> nat" where
  "QueryFileIdentity128 information handle_bad =
     (if handle_bad then ((False, FileIdentity128_zero), ERROR_INVALID_PARAMETER)
      else case information of
        Inr failure \<Rightarrow> ((False, FileIdentity128_zero), failure)
      | Inl (serial, ident) \<Rightarrow>
          ((True, \<lparr>volumeSerial128 = serial, fileId = ident, fid128_valid = True\<rparr>), ERROR_SUCCESS))"

definition SameFileIdentity128 :: "FileIdentity128 \<Rightarrow> FileIdentity128 \<Rightarrow> bool" where
  "SameFileIdentity128 left right \<longleftrightarrow>
     fid128_valid left \<and> fid128_valid right \<and> volumeSerial128 left = volumeSerial128 right \<and>
     fileId left = fileId right"

section \<open>Joining and splitting\<close>

text \<open>A text in a buffer with its terminator, and whatever follows it.\<close>

definition terminated :: "wide \<Rightarrow> bool" where
  "terminated s \<longleftrightarrow> s \<noteq> [] \<and> 0 \<notin> set s"

lemma length_loop_text:
  "0 \<notin> set s \<Longrightarrow> length pre + length s \<noteq> 0 \<Longrightarrow> length s < n \<Longrightarrow>
   length_loop (pre @ s @ 0 # rest) (length pre) n = Some (length pre + length s)"
proof (induction s arbitrary: pre n)
  case Nil
  then obtain k where "n = Suc k" by (cases n) auto
  with Nil show ?case by (simp add: nth_append)
next
  case (Cons c cs)
  then obtain k where k: "n = Suc k" by (cases n) auto
  show ?case using Cons.IH [of "pre @ [c]" k] Cons.prems k by (auto simp: nth_append)
qed

lemma Length_text:
  "terminated s \<Longrightarrow> length s < capacity \<Longrightarrow> Length (Some (s @ 0 # rest)) capacity = Some (length s)"
  using length_loop_text [of s "[]" capacity rest] by (simp add: Length_def terminated_def)

lemma separator_scan_text:
  "is_separator c \<Longrightarrow> list_all (\<lambda>x. \<not> is_separator x) leaf \<Longrightarrow>
   separator_scan (pre @ c # leaf @ rest) (length pre + 1 + length leaf) = length pre + 1"
proof (induction leaf arbitrary: rest rule: rev_induct)
  case Nil
  then show ?case by (simp add: nth_append)
next
  case (snoc x xs)
  have "(pre @ c # (xs @ [x]) @ rest) ! (length pre + 1 + length xs) = x"
    using nth_append_length [of "pre @ c # xs" x rest] by simp
  moreover have "\<not> is_separator x" using snoc.prems by simp
  ultimately show ?case using snoc.IH [of "x # rest"] snoc.prems by simp
qed

text \<open>
  A directory the two functions agree on: it does not end in a separator unless it is a
  drive root, and a two-character drive without its root is not one.
\<close>

definition plain_directory :: "wide \<Rightarrow> bool" where
  "plain_directory d \<longleftrightarrow> terminated d \<and>
     ((\<exists>drive. d = [drive, 0x3A, 0x5C]) \<or>
      (\<not> is_separator (last d) \<and> \<not> (\<exists>drive. d = [drive, 0x3A])))"

definition plain_leaf :: "wide \<Rightarrow> bool" where
  "plain_leaf l \<longleftrightarrow> terminated l \<and> list_all (\<lambda>x. \<not> is_separator x) l"

definition joined :: "wide \<Rightarrow> wide \<Rightarrow> wide" where
  "joined d l = d @ (if is_separator (last d) then [] else [0x5C]) @ l"

lemma AppendPathLeaf_text:
  assumes "terminated d" "terminated l" "length d < dc" "length l < lc" "0 < oc"
  shows "AppendPathLeaf (Some (d @ 0 # r1)) dc (Some (l @ 0 # r2)) lc False oc =
    (if length (joined d l) < oc then (Some (joined d l), ERROR_SUCCESS) else (None, ERROR_INSUFFICIENT_BUFFER))"
proof -
  have d: "d \<noteq> []" "(d @ 0 # r1) ! (length d - 1) = last d"
    using assms(1) by (simp_all add: terminated_def nth_append last_conv_nth)
  have L: "Length (Some (d @ 0 # r1)) dc = Some (length d)" "Length (Some (l @ 0 # r2)) lc = Some (length l)"
    using Length_text assms by blast+
  have "dc \<noteq> 0" "lc \<noteq> 0" using assms by simp_all
  then show ?thesis using assms(5) d(1)
    by (auto simp: AppendPathLeaf_def L Let_def d(2) [simplified] joined_def)
qed

text \<open>
  Joining and splitting agree. For a directory that is a drive root or does not end in a
  separator and a leaf without separators, joining succeeds exactly when the result and
  its terminator fit, and splitting the joined path gives the same directory and leaf back.
\<close>

lemma path_join_split:
  assumes "plain_directory d" and "plain_leaf l" and "length d < dc" and "length l < lc"
    and "length (joined d l) < oc"
  shows "AppendPathLeaf (Some (d @ 0 # r1)) dc (Some (l @ 0 # r2)) lc False oc = (Some (joined d l), ERROR_SUCCESS) \<and>
    ExtractDirectoryAndLeaf (Some (joined d l @ 0 # r3)) oc False dc False lc = (Some (d, l), ERROR_SUCCESS)"
proof
  have t: "terminated d" "terminated l" using assms(1,2) by (simp_all add: plain_directory_def plain_leaf_def)
  show "AppendPathLeaf (Some (d @ 0 # r1)) dc (Some (l @ 0 # r2)) lc False oc = (Some (joined d l), ERROR_SUCCESS)"
    using AppendPathLeaf_text [OF t assms(3,4)] assms(5) by simp
  have J: "Length (Some (joined d l @ 0 # r3)) oc = Some (length (joined d l))"
    by (rule Length_text [OF _ assms(5)]) (use t in \<open>auto simp: terminated_def joined_def\<close>)
  have ns: "list_all (\<lambda>x. \<not> is_separator x) l" "l \<noteq> []"
    using assms(2) by (simp_all add: plain_leaf_def terminated_def)
  have nz: "dc \<noteq> 0" "lc \<noteq> 0" "oc \<noteq> 0" using assms by simp_all
  show "ExtractDirectoryAndLeaf (Some (joined d l @ 0 # r3)) oc False dc False lc = (Some (d, l), ERROR_SUCCESS)"
  proof (cases "\<exists>drive. d = [drive, 0x3A, 0x5C]")
    case True
    then obtain drive where d: "d = [drive, 0x3A, 0x5C]" by blast
    have j: "joined [drive, 0x3A, 0x5C] l = drive # 0x3A # 0x5C # l"
      by (simp add: joined_def is_separator_def)
    have sc: "separator_scan (joined d l @ 0 # r3) (length (joined d l)) = 3"
      using separator_scan_text [of "0x5C" l "[drive, 0x3A]" "0 # r3"] ns
      by (simp add: d j is_separator_def)
    show ?thesis using J sc nz ns assms(3,4) unfolding d j
      by (simp add: ExtractDirectoryAndLeaf_def Let_def numeral_3_eq_3)
  next
    case False
    then have d: "\<not> is_separator (last d)" "\<And>drive. d \<noteq> [drive, 0x3A]" "d \<noteq> []"
      using assms(1) by (auto simp: plain_directory_def terminated_def)
    have j: "joined d l = d @ 0x5C # l" using d by (simp add: joined_def)
    have sc: "separator_scan (joined d l @ 0 # r3) (length (joined d l)) = length d + 1"
      using separator_scan_text [of "0x5C" l d "0 # r3"] ns by (simp add: j is_separator_def)
    have drive: "\<not> (length d + 1 = 3 \<and> (joined d l @ 0 # r3) ! 1 = 0x3A)"
    proof
      assume a: "length d + 1 = 3 \<and> (joined d l @ 0 # r3) ! 1 = 0x3A"
      then obtain x y where "d = [x, y]" by (cases d; cases "tl d"; cases "tl (tl d)") auto
      with a j d(2) [of x] show False by simp
    qed
    show ?thesis using J sc nz ns assms(3,4) d(3) drive
      by (simp add: ExtractDirectoryAndLeaf_def Let_def j)
  qed
qed

lemma path_join_split_witness:
  "fst (ExtractDirectoryAndLeaf (Some ([0x43, 0x3A, 0x5C, 0x61] @ 0 # [])) 8 False 4 False 2) =
     Some ([0x43, 0x3A, 0x5C], [0x61])"
proof -
  have "plain_directory [0x43, 0x3A, 0x5C]" "plain_leaf [0x61]"
    by (simp_all add: plain_directory_def plain_leaf_def terminated_def is_separator_def)
  moreover have "joined [0x43, 0x3A, 0x5C] [0x61] = [0x43, 0x3A, 0x5C, 0x61]"
    by (simp add: joined_def is_separator_def)
  ultimately show ?thesis
    using path_join_split [of "[0x43, 0x3A, 0x5C]" "[0x61]" 4 2 8 "[]" "[]" "[]"] by simp
qed

end
