(* ===== verification/Memory.thy ===== *)
theory Memory
  imports Prelude
begin

text \<open>
  Bounded reads of a mapped image (the memory half of
  \<open>src/shared/startup_profile.cpp\<close>): the region walk, the image reads, the headers and the
  section table of the executable, all through caller-supplied memory operations.

  A program over a process is a state transformer on a world and the caller's error cell
  (a \<open>DWORD* error\<close> argument).  A memory operation may be absent (a null pointer) and may
  change the world.  Addresses and sizes are \<open>nat\<close>; header fields are little-endian runs of
  the bytes read, at the offsets of the documented structures.
\<close>

section \<open>Programs over a process\<close>

type_synonym ('w, 'a) prog = "('w \<times> nat, 'a) state"

text \<open>A block with an error cell of its own, \<open>DWORD error{}\<close>.\<close>

definition local_error :: "('w, 'a) prog \<Rightarrow> ('w, 'a) prog" where
  "local_error m = State (\<lambda>(w, e). case run_state m (w, 0) of (a, (w', _)) \<Rightarrow> (a, (w', e)))"

definition set_error :: "nat \<Rightarrow> ('w, unit) prog" where
  "set_error e = State (\<lambda>(w, _). ((), (w, e)))"

definition get_error :: "('w, nat) prog" where
  "get_error = State (\<lambda>(w, e). (e, (w, e)))"

record MemoryRegion =
  mr_base :: nat
  mr_allocationBase :: nat
  mr_size :: nat
  mr_state :: nat
  mr_type :: nat
  mr_protect :: nat

record 'w MemoryOps =
  mo_query :: "(nat \<Rightarrow> ('w, MemoryRegion option) prog) option"
  mo_read :: "(nat \<Rightarrow> nat \<Rightarrow> ('w, byte list option) prog) option"

section \<open>Constants of the platform\<close>

definition PAGE_READONLY :: nat where "PAGE_READONLY = 0x02"
definition PAGE_READWRITE :: nat where "PAGE_READWRITE = 0x04"
definition PAGE_WRITECOPY :: nat where "PAGE_WRITECOPY = 0x08"
definition PAGE_EXECUTE_READ :: nat where "PAGE_EXECUTE_READ = 0x20"
definition PAGE_EXECUTE_READWRITE :: nat where "PAGE_EXECUTE_READWRITE = 0x40"
definition PAGE_EXECUTE_WRITECOPY :: nat where "PAGE_EXECUTE_WRITECOPY = 0x80"
definition MEM_COMMIT :: nat where "MEM_COMMIT = 0x1000"
definition MEM_IMAGE :: nat where "MEM_IMAGE = 0x1000000"
definition MEM_PRIVATE :: nat where "MEM_PRIVATE = 0x20000"
definition MEM_MAPPED :: nat where "MEM_MAPPED = 0x40000"
definition ERROR_INVALID_ADDRESS :: nat where "ERROR_INVALID_ADDRESS = 487"
definition ERROR_PARTIAL_COPY :: nat where "ERROR_PARTIAL_COPY = 299"
definition IMAGE_SCN_MEM_DISCARDABLE :: u32 where "IMAGE_SCN_MEM_DISCARDABLE = 0x02000000"
definition IMAGE_SCN_MEM_EXECUTE :: u32 where "IMAGE_SCN_MEM_EXECUTE = 0x20000000"
definition IMAGE_SCN_MEM_READ :: u32 where "IMAGE_SCN_MEM_READ = 0x40000000"
definition IMAGE_SCN_MEM_WRITE :: u32 where "IMAGE_SCN_MEM_WRITE = 0x80000000"
definition IMAGE_FILE_EXECUTABLE_IMAGE :: u32 where "IMAGE_FILE_EXECUTABLE_IMAGE = 0x0002"
definition IMAGE_FILE_DLL :: u32 where "IMAGE_FILE_DLL = 0x2000"

section \<open>The production operations\<close>

text \<open>
  The operations used in the process itself: \<open>virtualQuery\<close> gives the region or an error
  code, \<open>readProcessMemory\<close> the bytes it copied or an error code.
\<close>

definition ProductionMemoryOps ::
  "(nat \<Rightarrow> 'w \<Rightarrow> MemoryRegion + nat) \<Rightarrow> (nat \<Rightarrow> nat \<Rightarrow> 'w \<Rightarrow> byte list + nat) \<Rightarrow> 'w MemoryOps" where
  "ProductionMemoryOps virtualQuery readProcessMemory =
     \<lparr>mo_query = Some (\<lambda>address. State (\<lambda>(w, _). case virtualQuery address w of
        Inr failure \<Rightarrow> (None, (w, failure)) | Inl region \<Rightarrow> (Some region, (w, 0)))),
      mo_read = Some (\<lambda>address sz. State (\<lambda>(w, _). case readProcessMemory address sz w of
        Inr failure \<Rightarrow> (None, (w, failure))
      | Inl got \<Rightarrow> if length got \<noteq> sz then (None, (w, ERROR_PARTIAL_COPY)) else (Some got, (w, 0))))\<rparr>"

section \<open>Ranges and regions\<close>

definition Range :: "nat \<Rightarrow> nat \<Rightarrow> nat \<Rightarrow> nat \<Rightarrow> bool" where
  "Range base imageSize rva sz \<longleftrightarrow>
     base \<noteq> 0 \<and> sz \<noteq> 0 \<and> imageSize \<noteq> 0 \<and> imageSize \<le> u64_max - base \<and>
     rva < imageSize \<and> sz \<le> imageSize - rva"

definition Readable :: "nat \<Rightarrow> bool" where
  "Readable protection \<longleftrightarrow>
     protection \<in> {PAGE_READONLY, PAGE_READWRITE, PAGE_WRITECOPY, PAGE_EXECUTE_READ,
       PAGE_EXECUTE_READWRITE, PAGE_EXECUTE_WRITECOPY}"

text \<open>The tests of one region; a zero \<open>exactProtection\<close> asks for any readable one.\<close>

definition region_ok :: "nat \<Rightarrow> nat \<Rightarrow> nat \<Rightarrow> MemoryRegion \<Rightarrow> bool" where
  "region_ok base exactProtection cursor region \<longleftrightarrow>
     \<not> (mr_allocationBase region \<noteq> base \<or> mr_state region \<noteq> MEM_COMMIT \<or>
        mr_type region \<noteq> MEM_IMAGE \<or> \<not> Readable (mr_protect region) \<or>
        (exactProtection \<noteq> 0 \<and> mr_protect region \<noteq> exactProtection) \<or>
        mr_base region > cursor \<or> mr_size region = 0 \<or>
        mr_size region > u64_max - mr_base region \<or>
        mr_base region + mr_size region \<le> cursor)"

function regions_loop ::
  "(nat \<Rightarrow> ('w, MemoryRegion option) prog) \<Rightarrow> nat \<Rightarrow> nat \<Rightarrow> nat \<Rightarrow> nat \<Rightarrow> 'w \<times> nat \<Rightarrow> bool \<times> 'w \<times> nat" where
  "regions_loop query base exactProtection end cursor s =
     (if cursor < end then
        (case run_state (query cursor) s of
           (None, s) \<Rightarrow> (False, s)
         | (Some region, s) \<Rightarrow>
             if region_ok base exactProtection cursor region
             then regions_loop query base exactProtection end
                    (min end (mr_base region + mr_size region)) s
             else (False, s))
      else (True, s))"
  by pat_completeness auto
termination
  by (relation "measure (\<lambda>(_, _, _, end, cursor, _). end - cursor)") (auto simp: region_ok_def)

declare regions_loop.simps [simp del]

definition Regions :: "'w MemoryOps \<Rightarrow> nat \<Rightarrow> nat \<Rightarrow> nat \<Rightarrow> nat \<Rightarrow> nat \<Rightarrow> ('w, bool) prog" where
  "Regions ops base imageSize rva sz exactProtection = State (\<lambda>(w, _).
     let s = (w, ERROR_INVALID_ADDRESS) in
     case mo_query ops of
       None \<Rightarrow> (False, s)
     | Some query \<Rightarrow>
         if \<not> Range base imageSize rva sz then (False, s)
         else case regions_loop query base exactProtection (base + rva + sz) (base + rva) s of
           (ok, (w, e)) \<Rightarrow> if ok then (True, (w, 0)) else (False, (w, e)))"

definition ReadImageRange :: "'w MemoryOps \<Rightarrow> nat \<Rightarrow> nat \<Rightarrow> nat \<Rightarrow> nat \<Rightarrow> ('w, byte list option) prog" where
  "ReadImageRange ops base imageSize rva sz =
     (case mo_read ops of
        None \<Rightarrow> State_Monad.return None
      | Some read \<Rightarrow> do {
          ok \<leftarrow> Regions ops base imageSize rva sz 0;
          if ok then read (base + rva) sz else State_Monad.return None })"

definition ImageRangeProtection ::
  "'w MemoryOps \<Rightarrow> nat \<Rightarrow> nat \<Rightarrow> nat \<Rightarrow> nat \<Rightarrow> nat \<Rightarrow> ('w, bool) prog" where
  "ImageRangeProtection ops base imageSize rva sz protection =
     (if protection \<noteq> 0 then Regions ops base imageSize rva sz protection
      else State_Monad.return False)"

section \<open>Headers\<close>

definition u16_at :: "nat \<Rightarrow> byte list \<Rightarrow> nat" where "u16_at off bs = le_nat (slice off 2 bs)"
definition u32_at :: "nat \<Rightarrow> byte list \<Rightarrow> nat" where "u32_at off bs = le_nat (slice off 4 bs)"
definition u64_at :: "nat \<Rightarrow> byte list \<Rightarrow> nat" where "u64_at off bs = le_nat (slice off 8 bs)"

definition i32_at :: "nat \<Rightarrow> byte list \<Rightarrow> int" where
  "i32_at off bs = (let n = u32_at off bs in if n < 2 ^ 31 then int n else int n - 2 ^ 32)"

definition sizeof_dos :: nat where "sizeof_dos = 64"
definition sizeof_nt :: nat where "sizeof_nt = 264"
definition sizeof_section :: nat where "sizeof_section = 40"

text \<open>
  \<open>dos.e_lfanew < sizeof(dos)\<close> compares a signed 32-bit value with an unsigned 64-bit one,
  so a negative offset is the largest; \<open>dos.e_lfanew > 0x100000\<close> is a signed comparison.
\<close>

definition dos_ok :: "byte list \<Rightarrow> bool" where
  "dos_ok dos \<longleftrightarrow>
     \<not> (u16_at 0 dos \<noteq> 0x5A4D \<or>
        (let lfanew = i32_at 0x3C dos in 0 \<le> lfanew \<and> lfanew < int sizeof_dos) \<or>
        i32_at 0x3C dos > 0x100000)"

definition dos_nt_rva :: "byte list \<Rightarrow> nat" where
  "dos_nt_rva dos = u32_at 0x3C dos"

definition nt_Signature :: "byte list \<Rightarrow> nat" where "nt_Signature nt = u32_at 0 nt"
definition nt_Machine :: "byte list \<Rightarrow> nat" where "nt_Machine nt = u16_at 4 nt"
definition nt_NumberOfSections :: "byte list \<Rightarrow> nat" where "nt_NumberOfSections nt = u16_at 6 nt"
definition nt_TimeDateStamp :: "byte list \<Rightarrow> nat" where "nt_TimeDateStamp nt = u32_at 8 nt"
definition nt_SizeOfOptionalHeader :: "byte list \<Rightarrow> nat" where "nt_SizeOfOptionalHeader nt = u16_at 20 nt"
definition nt_Characteristics :: "byte list \<Rightarrow> u32" where "nt_Characteristics nt = word_of_nat (u16_at 22 nt)"
definition nt_Magic :: "byte list \<Rightarrow> nat" where "nt_Magic nt = u16_at 24 nt"
definition nt_AddressOfEntryPoint :: "byte list \<Rightarrow> nat" where "nt_AddressOfEntryPoint nt = u32_at 40 nt"
definition nt_SizeOfImage :: "byte list \<Rightarrow> nat" where "nt_SizeOfImage nt = u32_at 80 nt"
definition nt_SizeOfHeaders :: "byte list \<Rightarrow> nat" where "nt_SizeOfHeaders nt = u32_at 84 nt"
definition nt_CheckSum :: "byte list \<Rightarrow> nat" where "nt_CheckSum nt = u32_at 88 nt"
definition nt_NumberOfRvaAndSizes :: "byte list \<Rightarrow> nat" where "nt_NumberOfRvaAndSizes nt = u32_at 132 nt"
definition nt_TlsVirtualAddress :: "byte list \<Rightarrow> nat" where "nt_TlsVirtualAddress nt = u32_at 208 nt"
definition nt_TlsSize :: "byte list \<Rightarrow> nat" where "nt_TlsSize nt = u32_at 212 nt"

definition nt_ok :: "nat \<Rightarrow> nat \<Rightarrow> byte list \<Rightarrow> bool" where
  "nt_ok imageSize ntRva nt \<longleftrightarrow>
     nt_Signature nt = 0x4550 \<and> nt_Machine nt = 0x8664 \<and>
     and (nt_Characteristics nt) IMAGE_FILE_EXECUTABLE_IMAGE \<noteq> 0 \<and>
     and (nt_Characteristics nt) IMAGE_FILE_DLL = 0 \<and>
     nt_SizeOfOptionalHeader nt = 240 \<and>
     nt_NumberOfSections nt > 0 \<and> nt_NumberOfSections nt \<le> 96 \<and>
     nt_Magic nt = 0x20B \<and> nt_SizeOfImage nt = imageSize \<and>
     nt_SizeOfHeaders nt < imageSize \<and> nt_SizeOfHeaders nt \<ge> ntRva + sizeof_nt \<and>
     nt_NumberOfRvaAndSizes nt = 16"

text \<open>The headers and their offset, when every test passes.\<close>

definition Headers :: "'w MemoryOps \<Rightarrow> nat \<Rightarrow> nat \<Rightarrow> ('w, (byte list \<times> nat) option) prog" where
  "Headers ops base imageSize = local_error (do {
     dos \<leftarrow> ReadImageRange ops base imageSize 0 sizeof_dos;
     case dos of
       None \<Rightarrow> State_Monad.return None
     | Some dos \<Rightarrow>
         if \<not> dos_ok dos then State_Monad.return None
         else do {
           let ntRva = dos_nt_rva dos;
           nt \<leftarrow> ReadImageRange ops base imageSize ntRva sizeof_nt;
           case nt of
             None \<Rightarrow> State_Monad.return None
           | Some nt \<Rightarrow> State_Monad.return (if nt_ok imageSize ntRva nt then Some (nt, ntRva) else None) } })"

section \<open>Sections\<close>

definition section_VirtualSize :: "byte list \<Rightarrow> nat" where "section_VirtualSize s = u32_at 8 s"
definition section_VirtualAddress :: "byte list \<Rightarrow> nat" where "section_VirtualAddress s = u32_at 12 s"
definition section_Characteristics :: "byte list \<Rightarrow> u32" where
  "section_Characteristics s = word_of_nat (u32_at 36 s)"

definition section_headers :: "nat \<Rightarrow> byte list \<Rightarrow> byte list list" where
  "section_headers n bytes = map (\<lambda>i. slice (i * sizeof_section) sizeof_section bytes) [0..<n]"

definition section_bad :: "nat \<Rightarrow> byte list \<Rightarrow> bool" where
  "section_bad imageSize s \<longleftrightarrow>
     section_VirtualAddress s > imageSize \<or> section_VirtualSize s > imageSize - section_VirtualAddress s"

definition section_contains :: "nat \<Rightarrow> nat \<Rightarrow> byte list \<Rightarrow> bool" where
  "section_contains rva sz s \<longleftrightarrow>
     rva \<ge> section_VirtualAddress s \<and> rva - section_VirtualAddress s < section_VirtualSize s \<and>
     sz \<le> section_VirtualSize s - (rva - section_VirtualAddress s)"

definition section_allows :: "u32 \<Rightarrow> u32 \<Rightarrow> byte list \<Rightarrow> bool" where
  "section_allows required forbidden s \<longleftrightarrow>
     and (section_Characteristics s) required = required \<and>
     and (section_Characteristics s) forbidden = 0"

text \<open>The counting loop; \<open>None\<close> is its early \<open>return false\<close>.\<close>

fun sections_loop :: "nat \<Rightarrow> nat \<Rightarrow> nat \<Rightarrow> u32 \<Rightarrow> u32 \<Rightarrow> byte list list \<Rightarrow> nat \<Rightarrow> nat option" where
  "sections_loop imageSize rva sz required forbidden [] matching = Some matching"
| "sections_loop imageSize rva sz required forbidden (s # ss) matching =
     (if section_bad imageSize s then None
      else if section_contains rva sz s then
        (if \<not> section_allows required forbidden s then None
         else sections_loop imageSize rva sz required forbidden ss (Suc matching))
      else sections_loop imageSize rva sz required forbidden ss matching)"

definition ImageSectionMatches ::
  "'w MemoryOps \<Rightarrow> nat \<Rightarrow> nat \<Rightarrow> nat \<Rightarrow> nat \<Rightarrow> u32 \<Rightarrow> u32 \<Rightarrow> ('w, bool) prog" where
  "ImageSectionMatches ops base imageSize rva sz required forbidden =
     (if \<not> Range base imageSize rva sz then State_Monad.return False
      else do {
        headers \<leftarrow> Headers ops base imageSize;
        case headers of
          None \<Rightarrow> State_Monad.return False
        | Some (nt, ntRva) \<Rightarrow>
            let sectionRva = (ntRva + sizeof_nt) mod 2 ^ 32;
                bytes = nt_NumberOfSections nt * sizeof_section in
            if sectionRva > nt_SizeOfHeaders nt \<or> bytes > nt_SizeOfHeaders nt - sectionRva
            then State_Monad.return False
            else do {
              table \<leftarrow> local_error (ReadImageRange ops base imageSize sectionRva bytes);
              case table of
                None \<Rightarrow> State_Monad.return False
              | Some table \<Rightarrow> State_Monad.return
                  (sections_loop imageSize rva sz required forbidden
                     (section_headers (nt_NumberOfSections nt) table) 0 = Some 1) } })"

section \<open>What the operating system promises\<close>

text \<open>
  The documented behaviour of the memory operations, over what a world holds: the byte at
  an address (\<open>content\<close>) and the attributes of its page (\<open>page\<close>: allocation base, state, type,
  protection).  An answered query describes the pages of its region, an answered read gives
  the bytes, and neither changes them; a failing call may still move the world otherwise.
\<close>

type_synonym attributes = "nat \<times> nat \<times> nat \<times> nat"

definition region_attributes :: "MemoryRegion \<Rightarrow> attributes" where
  "region_attributes r = (mr_allocationBase r, mr_state r, mr_type r, mr_protect r)"

definition describes :: "(nat \<Rightarrow> attributes) \<Rightarrow> MemoryRegion \<Rightarrow> bool" where
  "describes pg r \<longleftrightarrow>
     (\<forall>x. mr_base r \<le> x \<and> x < mr_base r + mr_size r \<longrightarrow> pg x = region_attributes r)"

definition bytes_at :: "(nat \<Rightarrow> byte) \<Rightarrow> nat \<Rightarrow> nat \<Rightarrow> byte list" where
  "bytes_at c a n = map (\<lambda>i. c (a + i)) [0..<n]"

lemma length_bytes_at [simp]: "length (bytes_at c a n) = n"
  by (simp add: bytes_at_def)

lemma bytes_at_nth [simp]: "i < n \<Longrightarrow> bytes_at c a n ! i = c (a + i)"
  by (simp add: bytes_at_def)

locale memory_provider =
  fixes ops :: "'w MemoryOps"
    and wok :: "'w \<Rightarrow> bool"
    and content :: "'w \<Rightarrow> nat \<Rightarrow> byte"
    and page :: "'w \<Rightarrow> nat \<Rightarrow> attributes"
  assumes query_sound: "mo_query ops = Some q \<Longrightarrow> wok w \<Longrightarrow> run_state (q a) (w, e) = (Some r, (w', e')) \<Longrightarrow>
      describes (page w) r"
    and query_frame: "mo_query ops = Some q \<Longrightarrow> wok w \<Longrightarrow> run_state (q a) (w, e) = (res, (w', e')) \<Longrightarrow>
      wok w' \<and> content w' = content w \<and> page w' = page w"
    and read_sound: "mo_read ops = Some rd \<Longrightarrow> wok w \<Longrightarrow> run_state (rd a n) (w, e) = (Some bs, (w', e')) \<Longrightarrow>
      bs = bytes_at (content w) a n"
    and read_frame: "mo_read ops = Some rd \<Longrightarrow> wok w \<Longrightarrow> run_state (rd a n) (w, e) = (res', (w', e')) \<Longrightarrow>
      wok w' \<and> content w' = content w \<and> page w' = page w"

text \<open>
  A program is steady at an observation when it leaves it as it is, in a well-formed
  world, with a result that satisfies \<open>F\<close>.
\<close>

definition steady :: "('w \<Rightarrow> bool) \<Rightarrow> ('w \<Rightarrow> 'o) \<Rightarrow> 'o \<Rightarrow> ('a \<Rightarrow> bool) \<Rightarrow> ('w, 'a) prog \<Rightarrow> bool" where
  "steady wok obs v F m \<longleftrightarrow>
     (\<forall>w e a w' e'. wok w \<longrightarrow> obs w = v \<longrightarrow> run_state m (w, e) = (a, (w', e')) \<longrightarrow>
        wok w' \<and> obs w' = v \<and> F a)"

lemma steadyI:
  "(\<And>w e a w' e'. wok w \<Longrightarrow> obs w = v \<Longrightarrow> run_state m (w, e) = (a, (w', e')) \<Longrightarrow>
     wok w' \<and> obs w' = v \<and> F a) \<Longrightarrow> steady wok obs v F m"
  unfolding steady_def by blast

lemma steadyD:
  "steady wok obs v F m \<Longrightarrow> wok w \<Longrightarrow> obs w = v \<Longrightarrow> run_state m (w, e) = (a, (w', e')) \<Longrightarrow>
   wok w' \<and> obs w' = v \<and> F a"
  unfolding steady_def by blast

lemma steady_conseq: "steady wok obs v G m \<Longrightarrow> (\<And>a. G a \<Longrightarrow> F a) \<Longrightarrow> steady wok obs v F m"
  unfolding steady_def by blast

lemma steady_return: "F a \<Longrightarrow> steady wok obs v F (State_Monad.return a)"
  by (simp add: steady_def)

lemma steady_pureM: "F b \<Longrightarrow> steady wok obs v F (pureM b)"
  by (simp add: steady_def)

lemma steady_bind:
  assumes m: "steady wok obs v G m" and f: "\<And>a. G a \<Longrightarrow> steady wok obs v F (f a)"
  shows "steady wok obs v F (m \<bind> f)"
proof (rule steadyI)
  fix w e b w' e'
  assume w: "wok w" "obs w = v" and r: "run_state (m \<bind> f) (w, e) = (b, (w', e'))"
  obtain a w1 e1 where a: "run_state m (w, e) = (a, (w1, e1))" using prod_cases3 by blast
  note 1 = steadyD [OF m w a]
  from r a have "run_state (f a) (w1, e1) = (b, (w', e'))" by (simp add: bind_def)
  with steadyD [OF f, of a w1 e1 b w' e'] 1 show "wok w' \<and> obs w' = v \<and> F b" by blast
qed

lemma steady_local_error:
  assumes "steady wok obs v F m"
  shows "steady wok obs v F (local_error m)"
proof (rule steadyI)
  fix w e b w' e'
  assume w: "wok w" "obs w = v" and r: "run_state (local_error m) (w, e) = (b, (w', e'))"
  obtain a w1 e1 where a: "run_state m (w, 0) = (a, (w1, e1))" using prod_cases3 by blast
  with r have "w' = w1" "b = a" by (simp_all add: local_error_def)
  with steadyD [OF assms w a] show "wok w' \<and> obs w' = v \<and> F b" by blast
qed

lemma steady_if:
  "(c \<Longrightarrow> steady wok obs v F a) \<Longrightarrow> (\<not> c \<Longrightarrow> steady wok obs v F b) \<Longrightarrow> steady wok obs v F (if c then a else b)"
  by simp

lemma steady_case_option:
  "(x = None \<Longrightarrow> steady wok obs v F a) \<Longrightarrow> (\<And>y. x = Some y \<Longrightarrow> steady wok obs v F (f y)) \<Longrightarrow>
   steady wok obs v F (case_option a f x)"
  by (cases x) simp_all

lemma steady_case_prod:
  "(\<And>a b. p = (a, b) \<Longrightarrow> steady wok obs v F (f a b)) \<Longrightarrow> steady wok obs v F (case_prod f p)"
  by (cases p) simp

lemma steady_allM_Nil: "F True \<Longrightarrow> steady wok obs v F (allM [])"
  by (simp add: steady_return)

lemma steady_allM_Cons:
  assumes "steady wok obs v (\<lambda>b. b \<longrightarrow> A) m" and "A \<Longrightarrow> steady wok obs v (\<lambda>b. b \<longrightarrow> B) (allM ms)"
  shows "steady wok obs v (\<lambda>b. b \<longrightarrow> A \<and> B) (allM (m # ms))"
  unfolding allM.simps
proof (rule steady_bind [OF assms(1)])
  fix b
  assume "b \<longrightarrow> A"
  then show "steady wok obs v (\<lambda>b. b \<longrightarrow> A \<and> B) (if b then allM ms else State_Monad.return False)"
    using assms(2) by (intro steady_if) (auto intro: steady_return elim: steady_conseq)
qed

text \<open>The same with what each operand shows as an assumption for the next.\<close>

lemma steady_allM_step:
  assumes m: "steady wok obs v G m" and ms: "G True \<Longrightarrow> steady wok obs v F (allM ms)" and "F False"
  shows "steady wok obs v F (allM (m # ms))"
  unfolding allM.simps
  by (rule steady_bind [OF m]) (auto intro!: steady_if steady_return ms assms(3))

lemma steady_pure_eq: "steady wok obs v (\<lambda>x. x = b) (pureM b)"
  by (simp add: steady_def)

lemma steady_allM_map:
  assumes "\<And>x. x \<in> set xs \<Longrightarrow> steady wok obs v (\<lambda>b. b \<longrightarrow> A x) (m x)"
  shows "steady wok obs v (\<lambda>b. b \<longrightarrow> (\<forall>x \<in> set xs. A x)) (allM (map m xs))"
  using assms
proof (induction xs)
  case Nil
  then show ?case by (simp add: steady_return)
next
  case (Cons x xs)
  have "steady wok obs v (\<lambda>b. b \<longrightarrow> A x \<and> (\<forall>x \<in> set xs. A x)) (allM (m x # map m xs))"
    by (rule steady_allM_Cons) (use Cons in simp_all)
  then show ?case by simp
qed

section \<open>Triples over the observation\<close>

text \<open>
  A steady program is one whose triple keeps every observation; a program that writes the
  process has a triple that says what is observed when it ends.
\<close>

definition triple :: "('w \<Rightarrow> bool) \<Rightarrow> ('w \<Rightarrow> 'o) \<Rightarrow> ('o \<Rightarrow> bool) \<Rightarrow> ('w, 'a) prog \<Rightarrow> ('a \<Rightarrow> 'o \<Rightarrow> bool) \<Rightarrow> bool" where
  "triple wok obs P m Q \<longleftrightarrow>
     (\<forall>w e a w' e'. wok w \<longrightarrow> P (obs w) \<longrightarrow> run_state m (w, e) = (a, (w', e')) \<longrightarrow> wok w' \<and> Q a (obs w'))"

lemma tripleI:
  "(\<And>w e a w' e'. wok w \<Longrightarrow> P (obs w) \<Longrightarrow> run_state m (w, e) = (a, (w', e')) \<Longrightarrow> wok w' \<and> Q a (obs w')) \<Longrightarrow>
   triple wok obs P m Q"
  unfolding triple_def by blast

lemma tripleD:
  "triple wok obs P m Q \<Longrightarrow> wok w \<Longrightarrow> P (obs w) \<Longrightarrow> run_state m (w, e) = (a, (w', e')) \<Longrightarrow> wok w' \<and> Q a (obs w')"
  unfolding triple_def by blast

lemma triple_conseq:
  "triple wok obs P' m Q' \<Longrightarrow> (\<And>v. P v \<Longrightarrow> P' v) \<Longrightarrow> (\<And>a v. Q' a v \<Longrightarrow> Q a v) \<Longrightarrow> triple wok obs P m Q"
  unfolding triple_def by blast

lemma triple_steady: "(\<And>v. P v \<Longrightarrow> steady wok obs v (F v) m) \<Longrightarrow> triple wok obs P m (\<lambda>a v. P v \<and> F v a)"
  unfolding triple_def by (metis steadyD)

lemma triple_return: "(\<And>v. P v \<Longrightarrow> Q a v) \<Longrightarrow> triple wok obs P (State_Monad.return a) Q"
  by (simp add: triple_def)

lemma triple_bind:
  assumes m: "triple wok obs P m R" and f: "\<And>a. triple wok obs (R a) (f a) Q"
  shows "triple wok obs P (m \<bind> f) Q"
proof (rule tripleI)
  fix w e b w' e'
  assume w: "wok w" "P (obs w)" and r: "run_state (m \<bind> f) (w, e) = (b, (w', e'))"
  obtain a w1 e1 where a: "run_state m (w, e) = (a, (w1, e1))" using prod_cases3 by blast
  note 1 = tripleD [OF m w a]
  from r a have "run_state (f a) (w1, e1) = (b, (w', e'))" by (simp add: bind_def)
  with tripleD [OF f, of w1 a e1 b w' e'] 1 show "wok w' \<and> Q b (obs w')" by blast
qed

lemma triple_local_error:
  assumes "triple wok obs P m Q"
  shows "triple wok obs P (local_error m) Q"
proof (rule tripleI)
  fix w e b w' e'
  assume w: "wok w" "P (obs w)" and r: "run_state (local_error m) (w, e) = (b, (w', e'))"
  obtain a w1 e1 where a: "run_state m (w, 0) = (a, (w1, e1))" using prod_cases3 by blast
  with r have "w' = w1" "b = a" by (simp_all add: local_error_def)
  with tripleD [OF assms w a] show "wok w' \<and> Q b (obs w')" by blast
qed

lemma triple_get_error: "triple wok obs P get_error (\<lambda>_. P)"
  by (simp add: triple_def get_error_def)

lemma triple_set_error: "triple wok obs P (set_error e) (\<lambda>_. P)"
  by (simp add: triple_def set_error_def)

lemma triple_True: "triple wok obs (\<lambda>_. True) m Q \<Longrightarrow> triple wok obs P m Q"
  by (rule triple_conseq) simp_all

section \<open>Soundness of the image reads\<close>

definition range_ok :: "(nat \<Rightarrow> attributes) \<Rightarrow> nat \<Rightarrow> nat \<Rightarrow> nat \<Rightarrow> nat \<Rightarrow> bool" where
  "range_ok pg base exactProtection lo hi \<longleftrightarrow>
     (\<forall>x. lo \<le> x \<and> x < hi \<longrightarrow> (\<exists>p. pg x = (base, MEM_COMMIT, MEM_IMAGE, p) \<and> Readable p \<and>
        (exactProtection \<noteq> 0 \<longrightarrow> p = exactProtection)))"

lemma region_ok_range:
  assumes "region_ok base prot cursor r" and "describes pg r"
  shows "cursor < mr_base r + mr_size r \<and> range_ok pg base prot cursor (mr_base r + mr_size r)"
proof -
  have r: "mr_allocationBase r = base" "mr_state r = MEM_COMMIT" "mr_type r = MEM_IMAGE"
    "Readable (mr_protect r)" "prot \<noteq> 0 \<longrightarrow> mr_protect r = prot" "mr_base r \<le> cursor"
    "cursor < mr_base r + mr_size r"
    using assms(1) by (auto simp: region_ok_def)
  have "range_ok pg base prot cursor (mr_base r + mr_size r)"
    unfolding range_ok_def
  proof (intro allI impI)
    fix x
    assume "cursor \<le> x \<and> x < mr_base r + mr_size r"
    then have "pg x = region_attributes r" using assms(2) r(6) by (auto simp: describes_def)
    then show "\<exists>p. pg x = (base, MEM_COMMIT, MEM_IMAGE, p) \<and> Readable p \<and> (prot \<noteq> 0 \<longrightarrow> p = prot)"
      using r by (auto simp: region_attributes_def)
  qed
  with r(7) show ?thesis by blast
qed

lemma range_ok_join:
  "range_ok pg base prot lo mid \<Longrightarrow> range_ok pg base prot mid hi \<Longrightarrow> range_ok pg base prot lo hi"
  unfolding range_ok_def by (meson not_less)

lemma range_ok_mono: "range_ok pg base prot lo hi \<Longrightarrow> lo \<le> lo' \<Longrightarrow> hi' \<le> hi \<Longrightarrow> range_ok pg base prot lo' hi'"
  unfolding range_ok_def by (meson le_trans less_le_trans)

text \<open>The headers and the section table of an image, read off its bytes.\<close>

definition pe_headers :: "(nat \<Rightarrow> byte) \<Rightarrow> nat \<Rightarrow> nat \<Rightarrow> (byte list \<times> nat) option" where
  "pe_headers c base imageSize =
     (let dos = bytes_at c base sizeof_dos; ntRva = dos_nt_rva dos;
          nt = bytes_at c (base + ntRva) sizeof_nt in
      if dos_ok dos \<and> nt_ok imageSize ntRva nt then Some (nt, ntRva) else None)"

definition pe_sections :: "(nat \<Rightarrow> byte) \<Rightarrow> nat \<Rightarrow> byte list \<Rightarrow> nat \<Rightarrow> byte list list" where
  "pe_sections c base nt ntRva =
     section_headers (nt_NumberOfSections nt)
       (bytes_at c (base + (ntRva + sizeof_nt) mod 2 ^ 32) (nt_NumberOfSections nt * sizeof_section))"

definition section_ok :: "(nat \<Rightarrow> byte) \<Rightarrow> nat \<Rightarrow> nat \<Rightarrow> nat \<Rightarrow> nat \<Rightarrow> u32 \<Rightarrow> u32 \<Rightarrow> bool" where
  "section_ok c base imageSize rva n required forbidden \<longleftrightarrow>
     (\<exists>nt ntRva. pe_headers c base imageSize = Some (nt, ntRva) \<and>
        sections_loop imageSize rva n required forbidden (pe_sections c base nt ntRva) 0 = Some 1)"

context memory_provider
begin

definition observed :: "'w \<Rightarrow> (nat \<Rightarrow> byte) \<times> (nat \<Rightarrow> attributes)" where
  "observed w = (content w, page w)"

lemma regions_loop_sound:
  assumes q: "mo_query ops = Some q"
  shows "wok w \<Longrightarrow> regions_loop q base prot hi cursor (w, e) = (b, (w', e')) \<Longrightarrow>
    wok w' \<and> observed w' = observed w \<and> (b \<longrightarrow> range_ok (page w) base prot cursor hi)"
proof (induction "hi - cursor" arbitrary: cursor w e rule: less_induct)
  case less
  show ?case
  proof (cases "cursor < hi")
    case False
    then show ?thesis using less.prems by (auto simp: regions_loop.simps range_ok_def)
  next
    case True
    obtain res w1 e1 where r: "run_state (q cursor) (w, e) = (res, (w1, e1))" using prod_cases3 by blast
    have f: "wok w1 \<and> content w1 = content w \<and> page w1 = page w"
      using query_frame [OF q less.prems(1) r] .
    show ?thesis
    proof (cases res)
      case None
      then show ?thesis using less.prems(2) True r f by (simp add: regions_loop.simps observed_def)
    next
      case (Some region)
      show ?thesis
      proof (cases "region_ok base prot cursor region")
        case False
        then show ?thesis using less.prems(2) True r f Some by (simp add: regions_loop.simps observed_def)
      next
        case ok: True
        let ?next = "min hi (mr_base region + mr_size region)"
        have d: "describes (page w) region" using query_sound [OF q less.prems(1)] r Some by blast
        note ro = region_ok_range [OF ok d]
        have rec: "regions_loop q base prot hi ?next (w1, e1) = (b, (w', e'))"
          using less.prems(2) True r Some ok by (simp add: regions_loop.simps [of q base prot hi cursor])
        have "hi - ?next < hi - cursor" using True ro by (auto simp: min_def)
        note IH = less.hyps [OF this conjunct1 [OF f] rec]
        have "range_ok (page w) base prot cursor ?next"
          using ro by (auto intro: range_ok_mono)
        then show ?thesis using IH f by (auto simp: observed_def intro: range_ok_join)
      qed
    qed
  qed
qed

lemma Regions_sound:
  assumes "wok w" and "run_state (Regions ops base imageSize rva n prot) (w, e) = (b, (w', e'))"
  shows "wok w' \<and> observed w' = observed w \<and>
    (b \<longrightarrow> Range base imageSize rva n \<and> range_ok (page w) base prot (base + rva) (base + rva + n))"
proof (cases "mo_query ops")
  case None
  then show ?thesis using assms by (simp add: Regions_def)
next
  case (Some q)
  show ?thesis
  proof (cases "Range base imageSize rva n")
    case False
    then show ?thesis using assms Some by (simp add: Regions_def)
  next
    case True
    obtain c w1 e1 where l: "regions_loop q base prot (base + rva + n) (base + rva) (w, ERROR_INVALID_ADDRESS)
        = (c, (w1, e1))" using prod_cases3 by blast
    have "w' = w1 \<and> b = c" using assms(2) Some True l by (auto simp: Regions_def split: if_splits)
    then show ?thesis using regions_loop_sound [OF Some assms(1) l] True by blast
  qed
qed

lemma ReadImageRange_sound:
  assumes "wok w" and "run_state (ReadImageRange ops base imageSize rva n) (w, e) = (res, (w', e'))"
  shows "wok w' \<and> observed w' = observed w \<and>
    (\<forall>bs. res = Some bs \<longrightarrow> Range base imageSize rva n \<and> bs = bytes_at (content w) (base + rva) n)"
proof (cases "mo_read ops")
  case None
  then show ?thesis using assms by (simp add: ReadImageRange_def)
next
  case (Some rd)
  obtain b w1 e1 where g: "run_state (Regions ops base imageSize rva n 0) (w, e) = (b, (w1, e1))"
    using prod_cases3 by blast
  note G = Regions_sound [OF assms(1) g]
  show ?thesis
  proof (cases b)
    case False
    then show ?thesis using assms(2) Some g G by (simp add: ReadImageRange_def bind_def)
  next
    case True
    then have r: "run_state (rd (base + rva) n) (w1, e1) = (res, (w', e'))"
      using assms(2) Some g by (simp add: ReadImageRange_def bind_def)
    have "wok w1" using G by blast
    note F = read_frame [OF Some this r]
    have "\<And>bs. res = Some bs \<Longrightarrow> bs = bytes_at (content w1) (base + rva) n"
      using read_sound [OF Some \<open>wok w1\<close>] r by blast
    then show ?thesis using F G True by (auto simp: observed_def)
  qed
qed

lemma ImageRangeProtection_sound:
  assumes "wok w" and "run_state (ImageRangeProtection ops base imageSize rva n prot) (w, e) = (b, (w', e'))"
  shows "wok w' \<and> observed w' = observed w \<and>
    (b \<longrightarrow> Range base imageSize rva n \<and> range_ok (page w) base prot (base + rva) (base + rva + n) \<and> prot \<noteq> 0)"
  using assms Regions_sound [OF assms(1)] by (auto simp: ImageRangeProtection_def split: if_splits)

text \<open>The same as steady programs, whose facts hold of the bytes and pages of the observation.\<close>

lemma steady_ReadImageRange:
  "steady wok observed v (\<lambda>r. \<forall>bs. r = Some bs \<longrightarrow> Range base imageSize rva n \<and>
     bs = bytes_at (fst v) (base + rva) n) (ReadImageRange ops base imageSize rva n)"
  by (rule steadyI) (use ReadImageRange_sound in \<open>fastforce simp: observed_def\<close>)

lemma steady_ImageRangeProtection:
  "steady wok observed v (\<lambda>b. b \<longrightarrow> Range base imageSize rva n \<and>
     range_ok (snd v) base prot (base + rva) (base + rva + n)) (ImageRangeProtection ops base imageSize rva n prot)"
  by (rule steadyI) (use ImageRangeProtection_sound in \<open>fastforce simp: observed_def\<close>)

lemma steady_Headers:
  "steady wok observed v (\<lambda>r. \<forall>h. r = Some h \<longrightarrow> pe_headers (fst v) base imageSize = Some h)
     (Headers ops base imageSize)"
  unfolding Headers_def Let_def
  by (intro steady_local_error steady_bind [OF steady_ReadImageRange] steady_case_option steady_if steady_return)
    (auto simp: pe_headers_def Let_def)

lemma steady_ImageSectionMatches:
  "steady wok observed v (\<lambda>b. b \<longrightarrow> section_ok (fst v) base imageSize rva n required forbidden)
     (ImageSectionMatches ops base imageSize rva n required forbidden)"
  unfolding ImageSectionMatches_def Let_def
  by (intro steady_if steady_bind [OF steady_Headers] steady_case_option steady_case_prod steady_return
      steady_bind [OF steady_local_error [OF steady_ReadImageRange]])
    (auto simp: section_ok_def pe_sections_def Let_def)

end

end
