(* ===== verification/Startup.thy ===== *)
theory Startup
  imports Memory
begin

text \<open>
  The startup gate (\<open>src/shared/startup_profile.cpp\<close>, \<open>src/shared/bootstrap_abi.h\<close> and
  \<open>src/shared/production_startup.h\<close>): the bootstrap's call context, the profile of the
  pinned executable, and the check that the current call is the one opportunity at which
  the process may be touched.

  The current thread identifier is an argument.  \<open>BootstrapContextV3\<close> is the structure of
  the ABI with module handles as addresses, zero for null.
\<close>

section \<open>The call context\<close>

definition kBootstrapAbiVersion :: nat where "kBootstrapAbiVersion = 3"
definition kRequiredGenuineExports :: nat where "kRequiredGenuineExports = 3"
definition kTriggerExeCrtInitialize :: nat where "kTriggerExeCrtInitialize = 1"
definition sizeof_context :: nat where "sizeof_context = 64"

record BootstrapContextV3 =
  bc_size :: nat
  abiVersion :: nat
  hostModule :: nat
  bootstrapModule :: nat
  genuineX3AudioModule :: nat
  genuineExportsMask :: nat
  bc_reserved :: nat
  triggerReturnAddress :: nat
  startupThreadId :: nat
  currentThreadId :: nat
  staticLoad :: nat
  triggerKind :: nat

record ByteSpan =
  span_rva :: nat
  span_size :: nat
  span_bytes :: "byte list option"

record StartupProfile =
  sp_imageSize :: nat
  sp_timestamp :: nat
  sp_checksums :: "nat list"
  sp_checksumCount :: nat
  sp_entryRva :: nat
  sp_returnRva :: nat
  sp_stateRva :: nat
  sp_stateValue :: nat
  sp_initializerSlotRva :: nat
  sp_initializerRva :: nat
  sp_spans :: "ByteSpan list option"
  sp_spanCount :: nat

datatype StartupGateResult =
    Gate_Ready | Gate_InvalidContext | Gate_DynamicLoad | Gate_WrongThread | Gate_WrongCaller
  | Gate_ImageUnavailable | Gate_ImageMismatch | Gate_CodeMismatch | Gate_WrongInitializer
  | Gate_WrongStage

fun StartupGateResultName :: "StartupGateResult \<Rightarrow> string" where
  "StartupGateResultName Gate_Ready = ''ready''"
| "StartupGateResultName Gate_InvalidContext = ''invalid-context''"
| "StartupGateResultName Gate_DynamicLoad = ''dynamic-load''"
| "StartupGateResultName Gate_WrongThread = ''wrong-thread''"
| "StartupGateResultName Gate_WrongCaller = ''wrong-caller''"
| "StartupGateResultName Gate_ImageUnavailable = ''image-unavailable''"
| "StartupGateResultName Gate_ImageMismatch = ''image-mismatch''"
| "StartupGateResultName Gate_CodeMismatch = ''code-mismatch''"
| "StartupGateResultName Gate_WrongInitializer = ''wrong-initializer''"
| "StartupGateResultName Gate_WrongStage = ''wrong-stage''"

interpretation gate_names: enum_names
  "[Gate_Ready, Gate_InvalidContext, Gate_DynamicLoad, Gate_WrongThread, Gate_WrongCaller,
    Gate_ImageUnavailable, Gate_ImageMismatch, Gate_CodeMismatch, Gate_WrongInitializer, Gate_WrongStage]"
  StartupGateResultName
proof unfold_locales
  show "x \<in> set [Gate_Ready, Gate_InvalidContext, Gate_DynamicLoad, Gate_WrongThread, Gate_WrongCaller,
    Gate_ImageUnavailable, Gate_ImageMismatch, Gate_CodeMismatch, Gate_WrongInitializer, Gate_WrongStage]" for x
    by (cases x) simp_all
qed simp

section \<open>The gate\<close>

definition context_ok :: "BootstrapContextV3 \<Rightarrow> StartupProfile \<Rightarrow> bool" where
  "context_ok context profile \<longleftrightarrow>
     \<not> (bc_size context \<noteq> sizeof_context \<or> abiVersion context \<noteq> kBootstrapAbiVersion \<or>
        bc_reserved context \<noteq> 0 \<or> triggerKind context \<noteq> kTriggerExeCrtInitialize \<or>
        hostModule context = 0 \<or> bootstrapModule context = 0 \<or> genuineX3AudioModule context = 0 \<or>
        genuineExportsMask context \<noteq> kRequiredGenuineExports \<or>
        hostModule context = bootstrapModule context \<or>
        hostModule context = genuineX3AudioModule context \<or>
        bootstrapModule context = genuineX3AudioModule context \<or>
        sp_spans profile = None \<or> sp_spanCount profile = 0 \<or> sp_spanCount profile > 16 \<or>
        sp_checksumCount profile = 0 \<or> sp_checksumCount profile > 2)"

definition image_ok :: "StartupProfile \<Rightarrow> byte list \<Rightarrow> bool" where
  "image_ok profile nt \<longleftrightarrow>
     \<not> (\<not> list_ex (\<lambda>i. nt_CheckSum nt = sp_checksums profile ! i) [0..<sp_checksumCount profile] \<or>
        nt_TimeDateStamp nt \<noteq> sp_timestamp profile \<or> nt_AddressOfEntryPoint nt \<noteq> sp_entryRva profile \<or>
        nt_TlsVirtualAddress nt \<noteq> 0 \<or> nt_TlsSize nt \<noteq> 0)"

text \<open>Reading a range and comparing it: \<open>memcmp\<close> over the bytes read.\<close>

definition read_equals :: "'w MemoryOps \<Rightarrow> nat \<Rightarrow> nat \<Rightarrow> nat \<Rightarrow> nat \<Rightarrow> (byte list \<Rightarrow> bool) \<Rightarrow> ('w, bool) prog" where
  "read_equals ops base imageSize rva n P = do {
     bytes \<leftarrow> ReadImageRange ops base imageSize rva n;
     State_Monad.return (case bytes of None \<Rightarrow> False | Some bs \<Rightarrow> P bs) }"

definition check_span :: "'w MemoryOps \<Rightarrow> nat \<Rightarrow> StartupProfile \<Rightarrow> ByteSpan \<Rightarrow> ('w, bool) prog" where
  "check_span ops base profile span =
     allM [pureM (span_bytes span \<noteq> None \<and> \<not> span_size span > 1024),
       ImageRangeProtection ops base (sp_imageSize profile) (span_rva span) (span_size span) PAGE_EXECUTE_READ,
       ImageSectionMatches ops base (sp_imageSize profile) (span_rva span) (span_size span)
         (or IMAGE_SCN_MEM_READ IMAGE_SCN_MEM_EXECUTE) IMAGE_SCN_MEM_WRITE,
       read_equals ops base (sp_imageSize profile) (span_rva span) (span_size span)
         (\<lambda>bs. bs = take (span_size span) (the (span_bytes span)))]"

definition CheckStartupOpportunity ::
  "nat \<Rightarrow> BootstrapContextV3 \<Rightarrow> StartupProfile \<Rightarrow> 'w MemoryOps \<Rightarrow> ('w, StartupGateResult) prog" where
  "CheckStartupOpportunity threadId context profile ops =
     (let base = hostModule context; imageSize = sp_imageSize profile in
      if \<not> context_ok context profile then State_Monad.return Gate_InvalidContext
      else if staticLoad context \<noteq> 1 then State_Monad.return Gate_DynamicLoad
      else if startupThreadId context = 0 \<or> startupThreadId context \<noteq> currentThreadId context \<or>
              currentThreadId context \<noteq> threadId
        then State_Monad.return Gate_WrongThread
      else if \<not> Range base imageSize (sp_returnRva profile) 1 \<or>
              triggerReturnAddress context \<noteq> base + sp_returnRva profile
        then State_Monad.return Gate_WrongCaller
      else do {
        headers \<leftarrow> Headers ops base imageSize;
        case headers of
          None \<Rightarrow> State_Monad.return Gate_ImageUnavailable
        | Some (nt, ntRva) \<Rightarrow>
            if \<not> image_ok profile nt then State_Monad.return Gate_ImageMismatch
            else local_error (do {
              code \<leftarrow> allM (map (check_span ops base profile)
                (take (sp_spanCount profile) (the (sp_spans profile))));
              if \<not> code then State_Monad.return Gate_CodeMismatch
              else do {
                initializer \<leftarrow> allM
                  [pureM (Range base imageSize (sp_initializerRva profile) 1),
                   ImageRangeProtection ops base imageSize (sp_initializerSlotRva profile) 8 PAGE_READONLY,
                   ImageSectionMatches ops base imageSize (sp_initializerSlotRva profile) 8
                     IMAGE_SCN_MEM_READ (or IMAGE_SCN_MEM_WRITE IMAGE_SCN_MEM_EXECUTE),
                   read_equals ops base imageSize (sp_initializerSlotRva profile) 8
                     (\<lambda>bs. le_nat bs = base + sp_initializerRva profile)];
                if \<not> initializer then State_Monad.return Gate_WrongInitializer
                else do {
                  stage \<leftarrow> allM
                    [ImageSectionMatches ops base imageSize (sp_stateRva profile) 4
                       (or IMAGE_SCN_MEM_READ IMAGE_SCN_MEM_WRITE) IMAGE_SCN_MEM_EXECUTE,
                     read_equals ops base imageSize (sp_stateRva profile) 4
                       (\<lambda>bs. le_nat bs = sp_stateValue profile)];
                  State_Monad.return (if stage then Gate_Ready else Gate_WrongStage) } } }) })"

section \<open>The production profile\<close>

definition kPr3StartupBytes0 :: "byte list" where
  "kPr3StartupBytes0 = [
     0x48, 0x83, 0xEC, 0x28, 0xE8, 0xE7, 0x03, 0x00, 0x00, 0x48, 0x83, 0xC4, 0x28, 0xE9,
     0x02, 0x00, 0x00, 0x00]"

definition kPr3StartupBytes1 :: "byte list" where
  "kPr3StartupBytes1 = [
     0x48, 0x89, 0x5C, 0x24, 0x08, 0x48, 0x89, 0x74, 0x24, 0x10, 0x57, 0x48, 0x83, 0xEC,
     0x30, 0x83, 0x64, 0x24, 0x20, 0x00, 0xFF, 0x15, 0x1A, 0xD1, 0x16, 0x00, 0x0F, 0xB7,
     0xF0, 0x65, 0x48, 0x8B, 0x0C, 0x25, 0x30, 0x00, 0x00, 0x00, 0x48, 0x8B, 0x51, 0x08,
     0x33, 0xDB, 0x33, 0xC0, 0xF0, 0x48, 0x0F, 0xB1, 0x15, 0xE5, 0xE7, 0xAB, 0x00, 0x74,
     0x0E, 0x48, 0x3B, 0xC2, 0x75, 0x07, 0xBB, 0x01, 0x00, 0x00, 0x00, 0xEB, 0x02, 0xEB,
     0xE5, 0x8B, 0x05, 0xD7, 0xE7, 0xAB, 0x00, 0x83, 0xF8, 0x01, 0x75, 0x0A, 0x8D, 0x48,
     0x1E, 0xE8, 0xA4, 0x02, 0x00, 0x00, 0xEB, 0x3F, 0x8B, 0x05, 0xC2, 0xE7, 0xAB, 0x00,
     0x85, 0xC0, 0x75, 0x2B, 0xC7, 0x05, 0xB4, 0xE7, 0xAB, 0x00, 0x01, 0x00, 0x00, 0x00,
     0x48, 0x8D, 0x15, 0xDD, 0x7E, 0x17, 0x00, 0x48, 0x8D, 0x0D, 0xAE, 0x7E, 0x17, 0x00,
     0xE8, 0x79, 0x04, 0x00, 0x00, 0x85, 0xC0, 0x74, 0x14, 0xB8, 0xFF, 0x00, 0x00, 0x00,
     0xE9, 0x42, 0x01, 0x00, 0x00, 0xC7, 0x05, 0x9D, 0xE6, 0xAB, 0x00, 0x01, 0x00, 0x00,
     0x00, 0x8B, 0x05, 0x83, 0xE7, 0xAB, 0x00, 0x83, 0xF8, 0x01, 0x75, 0x1D, 0x48, 0x8D,
     0x15, 0x77, 0x7E, 0x17, 0x00, 0x48, 0x8D, 0x0D, 0xB8, 0xD9, 0x16, 0x00, 0xE8, 0x49,
     0x04, 0x00, 0x00, 0xC7, 0x05, 0x61, 0xE7, 0xAB, 0x00, 0x02, 0x00, 0x00, 0x00, 0x85,
     0xDB, 0x75, 0x09, 0x33, 0xC0, 0x48, 0x87, 0x05, 0x4C, 0xE7, 0xAB, 0x00, 0x48, 0x83,
     0x3D, 0x54, 0xE7, 0xAB, 0x00, 0x00, 0x74, 0x22, 0x48, 0x8D, 0x0D, 0x4B, 0xE7, 0xAB,
     0x00, 0xE8, 0x76, 0x02, 0x00, 0x00, 0x85, 0xC0, 0x74, 0x12, 0x45, 0x33, 0xC0, 0x41,
     0x8D, 0x50, 0x02, 0x33, 0xC9, 0x48, 0x8B, 0x05, 0x32, 0xE7, 0xAB, 0x00, 0xFF, 0xD0,
     0x48, 0x8B, 0x05, 0xD9, 0xCF, 0x16, 0x00, 0x48, 0x8B, 0x18, 0x48, 0x89, 0x5C, 0x24,
     0x28, 0x8B, 0x7C, 0x24, 0x20, 0x80, 0x3B, 0x20, 0x77, 0x5E, 0x80, 0x3B, 0x00, 0x74,
     0x04, 0x85, 0xFF, 0x75, 0x55, 0x8A, 0x03, 0xFE, 0xC8, 0x3C, 0x1F, 0x77, 0x0A, 0x48,
     0xFF, 0xC3, 0x48, 0x89, 0x5C, 0x24, 0x28, 0xEB, 0xEE, 0x44, 0x0F, 0xB7, 0xCE, 0x4C,
     0x8B, 0xC3, 0x33, 0xD2, 0x48, 0x8D, 0x0D, 0x1D, 0x82, 0x2D, 0xFF]"

definition kPr3StartupBytes2 :: "byte list" where
  "kPr3StartupBytes2 = [
     0xE8, 0x58, 0xCA, 0xD4, 0xFF]"

definition kPr3StartupBytes3 :: "byte list" where
  "kPr3StartupBytes3 = [
     0xFF, 0x25, 0xDC, 0xCB, 0x16, 0x00]"

definition kPr3StartupBytes4 :: "byte list" where
  "kPr3StartupBytes4 = [
     0x48, 0x8D, 0x0D, 0x29, 0x65, 0x92, 0x00, 0xE9, 0xB4, 0x71, 0xBF, 0xFF]"

definition kPr3StartupBytes5 :: "byte list" where
  "kPr3StartupBytes5 = [
     0x40, 0x53, 0x48, 0x83, 0xEC, 0x30, 0xF3, 0x0F, 0x10, 0x0D, 0x02, 0x0E, 0x76, 0x00,
     0x48, 0x8B, 0xD9, 0x4C, 0x8B, 0xC1, 0xB9, 0x3F, 0x00, 0x00, 0x00, 0xFF, 0x15, 0x61,
     0xB5, 0x42, 0x00]"

definition production_span :: "nat \<Rightarrow> byte list \<Rightarrow> ByteSpan" where
  "production_span rva bs = \<lparr>span_rva = rva, span_size = length bs, span_bytes = Some bs\<rparr>"

definition kPr3StartupSpans :: "ByteSpan list" where
  "kPr3StartupSpans =
    [production_span 0xd27c90 kPr3StartupBytes0, production_span 0xd27ca4 kPr3StartupBytes1,
     production_span 0xd27de3 kPr3StartupBytes2, production_span 0xd281a6 kPr3StartupBytes3,
     production_span 0xe72d30 kPr3StartupBytes4, production_span 0xa69ef0 kPr3StartupBytes5]"

definition kProductionStartupProfile :: StartupProfile where
  "kProductionStartupProfile =
    \<lparr>sp_imageSize = 0x01A12000, sp_timestamp = 0x6A8E3C02, sp_checksums = [0x016EF965, 0x016EF765],
     sp_checksumCount = 2, sp_entryRva = 0xD27C90, sp_returnRva = 0xA69F0F, sp_stateRva = 0x17E64C8,
     sp_stateValue = 1, sp_initializerSlotRva = 0xE9E950, sp_initializerRva = 0xE72D30,
     sp_spans = Some kPr3StartupSpans, sp_spanCount = length kPr3StartupSpans\<rparr>"

section \<open>What the gate proves\<close>

text \<open>
  Reading a range and testing it, as a steady program: when it says yes, the range lies in
  the image and the test holds of the bytes of the process.
\<close>

context memory_provider
begin

lemma steady_read_equals:
  "steady wok observed v (\<lambda>b. b \<longrightarrow> Range base imageSize rva n \<and> P (bytes_at (fst v) (base + rva) n))
     (read_equals ops base imageSize rva n P)"
  unfolding read_equals_def
  by (rule steady_bind [OF steady_ReadImageRange]) (auto intro!: steady_return split: option.splits)

end

definition span_ready :: "(nat \<Rightarrow> byte) \<times> (nat \<Rightarrow> attributes) \<Rightarrow> nat \<Rightarrow> StartupProfile \<Rightarrow> ByteSpan \<Rightarrow> bool" where
  "span_ready v base profile span \<longleftrightarrow>
     (\<exists>bs. span_bytes span = Some bs \<and>
        bytes_at (fst v) (base + span_rva span) (span_size span) = take (span_size span) bs) \<and>
     range_ok (snd v) base PAGE_EXECUTE_READ (base + span_rva span) (base + span_rva span + span_size span) \<and>
     section_ok (fst v) base (sp_imageSize profile) (span_rva span) (span_size span)
       (or IMAGE_SCN_MEM_READ IMAGE_SCN_MEM_EXECUTE) IMAGE_SCN_MEM_WRITE"

definition initializer_ready :: "(nat \<Rightarrow> byte) \<times> (nat \<Rightarrow> attributes) \<Rightarrow> nat \<Rightarrow> StartupProfile \<Rightarrow> bool" where
  "initializer_ready v base profile \<longleftrightarrow>
     le_nat (bytes_at (fst v) (base + sp_initializerSlotRva profile) 8) = base + sp_initializerRva profile \<and>
     range_ok (snd v) base PAGE_READONLY (base + sp_initializerSlotRva profile)
       (base + sp_initializerSlotRva profile + 8)"

definition stage_ready :: "(nat \<Rightarrow> byte) \<times> (nat \<Rightarrow> attributes) \<Rightarrow> nat \<Rightarrow> StartupProfile \<Rightarrow> bool" where
  "stage_ready v base profile \<longleftrightarrow>
     le_nat (bytes_at (fst v) (base + sp_stateRva profile) 4) = sp_stateValue profile"

definition call_ready :: "nat \<Rightarrow> BootstrapContextV3 \<Rightarrow> StartupProfile \<Rightarrow> bool" where
  "call_ready threadId context profile \<longleftrightarrow>
     context_ok context profile \<and> staticLoad context = 1 \<and> threadId \<noteq> 0 \<and>
     startupThreadId context = threadId \<and> currentThreadId context = threadId \<and>
     triggerReturnAddress context = hostModule context + sp_returnRva profile"

definition image_ready :: "(nat \<Rightarrow> byte) \<times> (nat \<Rightarrow> attributes) \<Rightarrow> nat \<Rightarrow> StartupProfile \<Rightarrow> bool" where
  "image_ready v base profile \<longleftrightarrow>
     (\<exists>nt ntRva. pe_headers (fst v) base (sp_imageSize profile) = Some (nt, ntRva) \<and> image_ok profile nt) \<and>
     (\<forall>span \<in> set (take (sp_spanCount profile) (the (sp_spans profile))). span_ready v base profile span) \<and>
     initializer_ready v base profile \<and> stage_ready v base profile"

context memory_provider
begin

lemma steady_check_span:
  "steady wok observed v (\<lambda>b. b \<longrightarrow> span_ready v base profile span) (check_span ops base profile span)"
  unfolding check_span_def
  by (intro steady_allM_step [OF steady_pure_eq] steady_allM_step [OF steady_ImageRangeProtection]
      steady_allM_step [OF steady_ImageSectionMatches] steady_allM_step [OF steady_read_equals] steady_allM_Nil)
    (auto simp: span_ready_def)

lemma steady_initializer:
  "steady wok observed v (\<lambda>b. b \<longrightarrow> initializer_ready v base profile)
     (allM [pureM (Range base imageSize (sp_initializerRva profile) 1),
        ImageRangeProtection ops base imageSize (sp_initializerSlotRva profile) 8 PAGE_READONLY,
        ImageSectionMatches ops base imageSize (sp_initializerSlotRva profile) 8 required forbidden,
        read_equals ops base imageSize (sp_initializerSlotRva profile) 8
          (\<lambda>bs. le_nat bs = base + sp_initializerRva profile)])"
  by (intro steady_allM_step [OF steady_pure_eq] steady_allM_step [OF steady_ImageRangeProtection]
      steady_allM_step [OF steady_ImageSectionMatches] steady_allM_step [OF steady_read_equals] steady_allM_Nil)
    (auto simp: initializer_ready_def)

lemma steady_stage:
  "steady wok observed v (\<lambda>b. b \<longrightarrow> stage_ready v base profile)
     (allM [ImageSectionMatches ops base imageSize (sp_stateRva profile) 4 required forbidden,
        read_equals ops base imageSize (sp_stateRva profile) 4 (\<lambda>bs. le_nat bs = sp_stateValue profile)])"
  by (intro steady_allM_step [OF steady_pure_eq] steady_allM_step [OF steady_ImageRangeProtection]
      steady_allM_step [OF steady_ImageSectionMatches] steady_allM_step [OF steady_read_equals] steady_allM_Nil)
    (auto simp: stage_ready_def)

lemma steady_spans:
  "steady wok observed v (\<lambda>b. b \<longrightarrow> (\<forall>span \<in> set spans. span_ready v base profile span))
     (allM (map (check_span ops base profile) spans))"
  by (rule steady_allM_map) (rule steady_check_span)

lemma steady_CheckStartupOpportunity:
  "steady wok observed v (\<lambda>r. r = Gate_Ready \<longrightarrow>
       call_ready threadId context profile \<and> image_ready v (hostModule context) profile)
     (CheckStartupOpportunity threadId context profile ops)"
  unfolding CheckStartupOpportunity_def Let_def
  by (intro steady_if steady_bind [OF steady_Headers] steady_case_option steady_case_prod steady_return
      steady_local_error steady_bind [OF steady_spans] steady_bind [OF steady_initializer]
      steady_bind [OF steady_stage])
    (auto simp: call_ready_def image_ready_def)

end

section \<open>The operating system of the production operations\<close>

text \<open>
  A process as its two system calls answer: \<open>VirtualQuery\<close> describes the pages around an
  address or fails with a code, \<open>ReadProcessMemory\<close> copies bytes or fails with a code.  What
  the code relies on is that both are truthful; nothing says that they succeed.
\<close>

record Process =
  os_query :: "nat \<Rightarrow> MemoryRegion + nat"
  os_read :: "nat \<Rightarrow> nat \<Rightarrow> byte list + nat"
  os_content :: "nat \<Rightarrow> byte"
  os_page :: "nat \<Rightarrow> attributes"

definition truthful :: "Process \<Rightarrow> bool" where
  "truthful p \<longleftrightarrow>
     (\<forall>a r. os_query p a = Inl r \<longrightarrow> describes (os_page p) r) \<and>
     (\<forall>a n bs. os_read p a n = Inl bs \<longrightarrow> bs = bytes_at (os_content p) a (length bs))"

definition process_ops :: "Process MemoryOps" where
  "process_ops = ProductionMemoryOps (\<lambda>a p. os_query p a) (\<lambda>a n p. os_read p a n)"

interpretation production: memory_provider process_ops truthful os_content os_page
  by unfold_locales
    (auto simp: process_ops_def ProductionMemoryOps_def truthful_def split: sum.splits if_splits)

text \<open>A process with a minimal image: headers, one byte of code, the initializer slot and the state word.\<close>

definition sample_content :: "nat \<Rightarrow> byte" where
  "sample_content a =
     (if a < 65733 then (if a < 65621 then (if a < 65601 then (if a < 65596 then (if a <
     65537 then 77 else (if a < 65538 then 90 else 0)) else (if a < 65597 then 64 else (if a
     < 65600 then 0 else 80))) else (if a < 65605 then (if a < 65602 then 69 else (if a <
     65604 then 0 else 100)) else (if a < 65607 then (if a < 65606 then 134 else 3) else (if
     a < 65620 then 0 else 240)))) else (if a < 65641 then (if a < 65624 then (if a < 65622
     then 0 else (if a < 65623 then 2 else 0)) else (if a < 65625 then 11 else (if a < 65626
     then 2 else 0))) else (if a < 65682 then (if a < 65642 then 4 else (if a < 65681 then 0
     else 7)) else (if a < 65686 then (if a < 65685 then 0 else 2) else (if a < 65732 then 0
     else 16))))) else (if a < 65953 then (if a < 65904 then (if a < 65877 then (if a <
     65873 then 0 else (if a < 65874 then 1 else 0)) else (if a < 65878 then 4 else (if a <
     65903 then 0 else 96))) else (if a < 65917 then (if a < 65913 then 0 else (if a < 65914
     then 1 else 0)) else (if a < 65943 then (if a < 65918 then 5 else 0) else (if a < 65944
     then 64 else 0)))) else (if a < 66560 then (if a < 65958 then (if a < 65954 then 1 else
     (if a < 65957 then 0 else 6)) else (if a < 65983 then 0 else (if a < 65984 then 192
     else 0))) else (if a < 66818 then (if a < 66561 then 195 else (if a < 66817 then 0 else
     4)) else (if a < 67072 then (if a < 66819 then 1 else 0) else (if a < 67073 then 1 else
     0))))))"

definition sample_region_at :: "nat \<Rightarrow> nat \<Rightarrow> MemoryRegion option" where
  "sample_region_at code_protection a =
     (let region = (\<lambda>lo n prot. Some \<lparr>mr_base = 65536 + lo, mr_allocationBase = 65536, mr_size = n,
        mr_state = MEM_COMMIT, mr_type = MEM_IMAGE, mr_protect = prot\<rparr>) in
      if a < 65536 then None
      else if a < 65536 + 0x400 then region 0 0x400 PAGE_READONLY
      else if a < 65536 + 0x500 then region 0x400 0x100 code_protection
      else if a < 65536 + 0x600 then region 0x500 0x100 PAGE_READONLY
      else if a < 65536 + 0x700 then region 0x600 0x100 PAGE_READWRITE
      else None)"

definition sample_process_at :: "nat \<Rightarrow> (nat \<Rightarrow> byte) \<Rightarrow> Process" where
  "sample_process_at code_protection c =
    \<lparr>os_query = (\<lambda>a. case sample_region_at code_protection a of Some r \<Rightarrow> Inl r | None \<Rightarrow> Inr ERROR_INVALID_ADDRESS),
     os_read = (\<lambda>a n. Inl (bytes_at c a n)),
     os_content = c,
     os_page = (\<lambda>a. case sample_region_at code_protection a of Some r \<Rightarrow> region_attributes r | None \<Rightarrow> (0, 0, 0, 0))\<rparr>"

definition sample_process :: Process where
  "sample_process = sample_process_at PAGE_EXECUTE_READ sample_content"

definition sample_profile :: StartupProfile where
  "sample_profile =
    \<lparr>sp_imageSize = 0x700, sp_timestamp = 0, sp_checksums = [0], sp_checksumCount = 1,
     sp_entryRva = 0x400, sp_returnRva = 0x400, sp_stateRva = 0x600, sp_stateValue = 1,
     sp_initializerSlotRva = 0x500, sp_initializerRva = 0x400,
     sp_spans = Some [production_span 0x400 [0xC3]], sp_spanCount = 1\<rparr>"

definition sample_context :: BootstrapContextV3 where
  "sample_context =
    \<lparr>bc_size = 64, abiVersion = 3, hostModule = 65536, bootstrapModule = 1, genuineX3AudioModule = 2,
     genuineExportsMask = 3, bc_reserved = 0, triggerReturnAddress = 65536 + 0x400,
     startupThreadId = 7, currentThreadId = 7, staticLoad = 1, triggerKind = 1\<rparr>"

lemma truthful_sample_at: "truthful (sample_process_at prot c)"
proof -
  have "describes (os_page (sample_process_at prot c)) r" if "os_query (sample_process_at prot c) a = Inl r" for a r
    using that by (auto simp: describes_def sample_process_at_def sample_region_at_def Let_def region_attributes_def
        split: if_splits option.splits)
  then show ?thesis by (auto simp: truthful_def sample_process_at_def)
qed

text \<open>
  Memory operations that answer, in one world, with the regions of \<open>region\<close> and the bytes of
  \<open>c\<close>; over a range inside one suitable region the walk and the reads then succeed.
\<close>

definition answers :: "'w MemoryOps \<Rightarrow> 'w \<Rightarrow> (nat \<Rightarrow> MemoryRegion option) \<Rightarrow> (nat \<Rightarrow> byte) \<Rightarrow> bool" where
  "answers ops w region c \<longleftrightarrow>
     (\<exists>q rd. mo_query ops = Some q \<and> mo_read ops = Some rd \<and>
        (\<forall>a r e. region a = Some r \<longrightarrow> run_state (q a) (w, e) = (Some r, (w, 0))) \<and>
        (\<forall>a n e. run_state (rd a n) (w, e) = (Some (bytes_at c a n), (w, 0))))"

lemma answers_process: "answers process_ops (sample_process_at prot c) (sample_region_at prot) c"
  by (simp add: answers_def process_ops_def ProductionMemoryOps_def) (simp add: sample_process_at_def)

text \<open>
  C24: When the startup gate reports \<open>ready\<close> on a truthful process, the call is the first
  static-load call on the startup thread from the profiled return address, the mapped image
  has the pinned headers, every profiled code span holds exactly the profiled bytes on
  execute-read pages in a section without write access, the initializer slot is read-only
  and points at the profiled initializer, and the CRT state word is the profiled one.
\<close>

theorem startup_ready_sound:
  assumes "truthful p"
    and "fst (run_state (CheckStartupOpportunity threadId context profile process_ops) (p, e)) = Gate_Ready"
  shows "call_ready threadId context profile \<and>
    image_ready (os_content p, os_page p) (hostModule context) profile"
proof -
  obtain r p' e' where r: "run_state (CheckStartupOpportunity threadId context profile process_ops) (p, e)
      = (r, (p', e'))" using prod_cases3 by blast
  with steadyD [OF production.steady_CheckStartupOpportunity assms(1), of "(os_content p, os_page p)"]
  show ?thesis using assms(2) by (auto simp: production.observed_def)
qed

lemmas sample_defs = PAGE_READONLY_def PAGE_READWRITE_def PAGE_WRITECOPY_def PAGE_EXECUTE_READ_def
  PAGE_EXECUTE_READWRITE_def PAGE_EXECUTE_WRITECOPY_def MEM_COMMIT_def MEM_IMAGE_def

lemmas sample_fields = u16_at_def u32_at_def slice_def

lemmas nt_defs = nt_Signature_def nt_Machine_def nt_NumberOfSections_def nt_TimeDateStamp_def
  nt_SizeOfOptionalHeader_def nt_Characteristics_def nt_Magic_def nt_AddressOfEntryPoint_def
  nt_SizeOfImage_def nt_SizeOfHeaders_def nt_CheckSum_def nt_NumberOfRvaAndSizes_def
  nt_TlsVirtualAddress_def nt_TlsSize_def

lemma sample_Regions:
  assumes "answers ops w (sample_region_at prot) c" and "Readable prot"
    and "sample_region_at prot (65536 + rva) = Some r" and "n \<noteq> 0" and "rva + n \<le> 0x700"
    and "mr_base r \<le> 65536 + rva" and "65536 + rva + n \<le> mr_base r + mr_size r"
    and "exact = 0 \<or> exact = mr_protect r"
  shows "run_state (Regions ops 65536 0x700 rva n exact) (w, e) = (True, (w, 0))"
proof -
  have r: "mr_allocationBase r = 65536" "mr_state r = MEM_COMMIT" "mr_type r = MEM_IMAGE"
    "Readable (mr_protect r)" "mr_size r \<le> 0x400" "mr_base r \<le> 65536 + 0x600"
    using assms(2,3) by (auto simp: sample_region_at_def Let_def Readable_def split: if_splits)
  have ok: "region_ok 65536 exact (65536 + rva) r"
    using assms(4-8) r by (auto simp: region_ok_def)
  have m: "min (65536 + rva + n) (mr_base r + mr_size r) = 65536 + rva + n"
    using assms(7) by simp
  obtain q where q: "mo_query ops = Some q" "run_state (q (65536 + rva)) (w, x) = (Some r, (w, 0))" for x
    using assms(1,3) unfolding answers_def by blast
  have "Range 65536 0x700 rva n" using assms(4,5) by (auto simp: Range_def)
  then show ?thesis using assms(4) ok
    by (simp add: Regions_def q m regions_loop.simps)
qed

lemma sample_read:
  assumes "answers ops w (sample_region_at prot) c" and "Readable prot"
    and "sample_region_at prot (65536 + rva) = Some r" and "n \<noteq> 0" and "rva + n \<le> 0x700"
    and "mr_base r \<le> 65536 + rva" and "65536 + rva + n \<le> mr_base r + mr_size r"
  shows "run_state (ReadImageRange ops 65536 0x700 rva n) (w, e) = (Some (bytes_at c (65536 + rva) n), (w, 0))"
proof -
  obtain rd where rd: "mo_read ops = Some rd" "run_state (rd a k) (w, x) = (Some (bytes_at c a k), (w, 0))" for a k x
    using assms(1) unfolding answers_def by blast
  show ?thesis using sample_Regions [OF assms, of 0] by (simp add: ReadImageRange_def bind_def rd)
qed

lemma sample_dos: "bytes_at sample_content 65536 64 = [77, 90, 0, 0, 0, 0, 0, 0, 0, 0, 0, 0, 0, 0, 0, 0, 0, 0, 0, 0, 0, 0, 0, 0, 0, 0, 0, 0, 0, 0, 0,
     0, 0, 0, 0, 0, 0, 0, 0, 0, 0, 0, 0, 0, 0, 0, 0, 0, 0, 0, 0, 0, 0, 0, 0, 0, 0, 0, 0, 0, 64,
     0, 0, 0]"
  by (simp add: bytes_at_def sample_content_def upt_rec)

lemma sample_nt: "bytes_at sample_content 65600 264 = [80, 69, 0, 0, 100, 134, 3, 0, 0, 0, 0, 0, 0, 0, 0, 0, 0, 0, 0, 0, 240, 0, 2, 0, 11, 2, 0, 0,
     0, 0, 0, 0, 0, 0, 0, 0, 0, 0, 0, 0, 0, 4, 0, 0, 0, 0, 0, 0, 0, 0, 0, 0, 0, 0, 0, 0, 0, 0,
     0, 0, 0, 0, 0, 0, 0, 0, 0, 0, 0, 0, 0, 0, 0, 0, 0, 0, 0, 0, 0, 0, 0, 7, 0, 0, 0, 2, 0, 0,
     0, 0, 0, 0, 0, 0, 0, 0, 0, 0, 0, 0, 0, 0, 0, 0, 0, 0, 0, 0, 0, 0, 0, 0, 0, 0, 0, 0, 0, 0,
     0, 0, 0, 0, 0, 0, 0, 0, 0, 0, 0, 0, 0, 0, 16, 0, 0, 0, 0, 0, 0, 0, 0, 0, 0, 0, 0, 0, 0, 0,
     0, 0, 0, 0, 0, 0, 0, 0, 0, 0, 0, 0, 0, 0, 0, 0, 0, 0, 0, 0, 0, 0, 0, 0, 0, 0, 0, 0, 0, 0,
     0, 0, 0, 0, 0, 0, 0, 0, 0, 0, 0, 0, 0, 0, 0, 0, 0, 0, 0, 0, 0, 0, 0, 0, 0, 0, 0, 0, 0, 0,
     0, 0, 0, 0, 0, 0, 0, 0, 0, 0, 0, 0, 0, 0, 0, 0, 0, 0, 0, 0, 0, 0, 0, 0, 0, 0, 0, 0, 0, 0,
     0, 0, 0, 0, 0, 0, 0, 0, 0, 0, 0, 0, 0, 0, 0, 0, 0, 0, 0, 0, 0, 0, 0, 0, 0, 0]"
  by (simp add: bytes_at_def sample_content_def upt_rec)

lemma sample_table: "bytes_at sample_content 65864 120 = [0, 0, 0, 0, 0, 0, 0, 0, 0, 1, 0, 0, 0, 4, 0, 0, 0, 0, 0, 0, 0, 0, 0, 0, 0, 0, 0, 0, 0, 0, 0,
     0, 0, 0, 0, 0, 0, 0, 0, 96, 0, 0, 0, 0, 0, 0, 0, 0, 0, 1, 0, 0, 0, 5, 0, 0, 0, 0, 0, 0, 0,
     0, 0, 0, 0, 0, 0, 0, 0, 0, 0, 0, 0, 0, 0, 0, 0, 0, 0, 64, 0, 0, 0, 0, 0, 0, 0, 0, 0, 1, 0,
     0, 0, 6, 0, 0, 0, 0, 0, 0, 0, 0, 0, 0, 0, 0, 0, 0, 0, 0, 0, 0, 0, 0, 0, 0, 0, 0, 0, 192]"
  by (simp add: bytes_at_def sample_content_def upt_rec)

definition sample_headers :: "byte list" where
  "sample_headers = bytes_at sample_content 65600 264"

lemma sample_Headers:
  assumes "answers ops w (sample_region_at prot) sample_content" and "Readable prot"
  shows "run_state (Headers ops 65536 0x700) (w, e) = (Some (sample_headers, 64), (w, e))"
proof -
  have d: "run_state (ReadImageRange ops 65536 0x700 0 sizeof_dos) (w, x)
      = (Some (bytes_at sample_content 65536 64), (w, 0))" for x
    using sample_read [OF assms(1,2), of 0 _ 64 x] by (simp add: sample_region_at_def sizeof_dos_def)
  have n: "run_state (ReadImageRange ops 65536 0x700 64 sizeof_nt) (w, x)
      = (Some (bytes_at sample_content 65600 264), (w, 0))" for x
    using sample_read [OF assms(1,2), of 64 _ 264 x] by (simp add: sample_region_at_def sizeof_nt_def)
  have "dos_ok (bytes_at sample_content 65536 64) \<and> dos_nt_rva (bytes_at sample_content 65536 64) = 64"
    unfolding sample_dos by (simp add: dos_ok_def dos_nt_rva_def i32_at_def sizeof_dos_def sample_fields)
  moreover have "nt_ok 0x700 64 (bytes_at sample_content 65600 264)"
    unfolding sample_nt
    by (simp add: nt_ok_def nt_defs sizeof_nt_def IMAGE_FILE_EXECUTABLE_IMAGE_def IMAGE_FILE_DLL_def sample_fields)
  ultimately show ?thesis
    by (simp add: Headers_def local_error_def bind_def d n sample_headers_def)
qed

lemma sample_sections:
  assumes "answers ops w (sample_region_at prot) sample_content" and "Readable prot"
    and "n \<noteq> 0" and "rva + n \<le> 0x700"
  shows "run_state (ImageSectionMatches ops 65536 0x700 rva n required forbidden) (w, e)
    = (sections_loop 0x700 rva n required forbidden
        (section_headers 3 (bytes_at sample_content 65864 120)) 0 = Some 1, (w, e))"
proof -
  have h: "nt_NumberOfSections sample_headers = 3 \<and> nt_SizeOfHeaders sample_headers = 0x200"
    unfolding sample_headers_def sample_nt by (simp add: nt_defs sample_fields)
  have t: "run_state (ReadImageRange ops 65536 0x700 328 120) (w, x)
      = (Some (bytes_at sample_content 65864 120), (w, 0))" for x
    using sample_read [OF assms(1,2), of 328 _ 120 x] by (simp add: sample_region_at_def)
  have "Range 65536 0x700 rva n" using assms(3,4) by (auto simp: Range_def)
  with h t show ?thesis
    by (simp add: ImageSectionMatches_def bind_def sample_Headers [OF assms(1,2)] sizeof_nt_def sizeof_section_def local_error_def)
qed

lemma sample_sel:
  "sp_imageSize sample_profile = 0x700" "sp_returnRva sample_profile = 0x400"
  "sp_initializerSlotRva sample_profile = 0x500" "sp_initializerRva sample_profile = 0x400"
  "sp_stateRva sample_profile = 0x600" "sp_stateValue sample_profile = 1" "sp_spanCount sample_profile = 1"
  "sp_spans sample_profile = Some [\<lparr>span_rva = 0x400, span_size = 1, span_bytes = Some [0xC3]\<rparr>]"
  "hostModule sample_context = 65536" "staticLoad sample_context = 1" "startupThreadId sample_context = 7"
  "currentThreadId sample_context = 7" "triggerReturnAddress sample_context = 66560"
  by (simp_all add: sample_profile_def sample_context_def production_span_def)

lemma sample_ready:
  assumes "answers ops w (sample_region_at PAGE_EXECUTE_READ) sample_content"
    and "Readable PAGE_EXECUTE_READ"
  shows "run_state (CheckStartupOpportunity 7 sample_context sample_profile ops) (w, x) = (Gate_Ready, (w, x))"
proof -
  have rd: "run_state (ReadImageRange ops 65536 0x700 0x400 1) (w, e)
        = (Some (bytes_at sample_content 66560 1), (w, 0))"
    "run_state (ReadImageRange ops 65536 0x700 0x500 8) (w, e)
        = (Some (bytes_at sample_content 66816 8), (w, 0))"
    "run_state (ReadImageRange ops 65536 0x700 0x600 4) (w, e)
        = (Some (bytes_at sample_content 67072 4), (w, 0))" for e
    using sample_read [OF assms, of "0x400" _ 1 e] sample_read [OF assms, of "0x500" _ 8 e] sample_read [OF assms, of "0x600" _ 4 e]
    by (simp_all add: sample_region_at_def)
  have rg: "run_state (Regions ops 65536 0x700 0x400 1 PAGE_EXECUTE_READ) (w, e)
        = (True, (w, 0))"
    "run_state (Regions ops 65536 0x700 0x500 8 PAGE_READONLY) (w, e)
        = (True, (w, 0))" for e
    using sample_Regions [OF assms, of "0x400" _ 1 PAGE_EXECUTE_READ e] sample_Regions [OF assms, of "0x500" _ 8 PAGE_READONLY e]
    by (simp_all add: sample_region_at_def)
  have c: "bytes_at sample_content 66560 1 = [0xC3]"
    "bytes_at sample_content 66816 8 = [0, 4, 1, 0, 0, 0, 0, 0]"
    "bytes_at sample_content 67072 4 = [1, 0, 0, 0]"
    by (simp_all add: bytes_at_def sample_content_def upt_rec)
  have s: "sections_loop 0x700 0x400 1 (or IMAGE_SCN_MEM_READ IMAGE_SCN_MEM_EXECUTE) IMAGE_SCN_MEM_WRITE
      (section_headers 3 (bytes_at sample_content 65864 120)) 0 = Some 1"
    "sections_loop 0x700 0x500 8 IMAGE_SCN_MEM_READ (or IMAGE_SCN_MEM_WRITE IMAGE_SCN_MEM_EXECUTE)
      (section_headers 3 (bytes_at sample_content 65864 120)) 0 = Some 1"
    "sections_loop 0x700 0x600 4 (or IMAGE_SCN_MEM_READ IMAGE_SCN_MEM_WRITE) IMAGE_SCN_MEM_EXECUTE
      (section_headers 3 (bytes_at sample_content 65864 120)) 0 = Some 1"
    unfolding sample_table
    by (simp_all add: section_headers_def sizeof_section_def upt_rec section_bad_def section_contains_def
        section_allows_def section_VirtualAddress_def section_VirtualSize_def section_Characteristics_def
        sample_fields IMAGE_SCN_MEM_READ_def IMAGE_SCN_MEM_WRITE_def IMAGE_SCN_MEM_EXECUTE_def)
  have pages: "PAGE_READONLY > 0" "PAGE_EXECUTE_READ > 0"
    by (simp_all add: PAGE_READONLY_def PAGE_EXECUTE_READ_def)
  have i: "image_ok sample_profile sample_headers"
    unfolding sample_headers_def sample_nt
    by (simp add: image_ok_def sample_profile_def nt_defs sample_fields upt_rec)
  have "context_ok sample_context sample_profile"
    by (simp add: context_ok_def sample_context_def sample_profile_def sizeof_context_def kBootstrapAbiVersion_def
        kTriggerExeCrtInitialize_def kRequiredGenuineExports_def)
  then show ?thesis
    by (simp add: CheckStartupOpportunity_def sample_Headers [OF assms] bind_def local_error_def i sample_sel
        check_span_def read_equals_def ImageRangeProtection_def sample_sections [OF assms] s c rd rg Range_def
        pages del: One_nat_def)
qed

lemma truthful_sample: "truthful sample_process"
  by (simp add: sample_process_def truthful_sample_at)

lemma startup_ready_sound_witness:
  "call_ready 7 sample_context sample_profile \<and>
   image_ready (sample_content, os_page sample_process) 65536 sample_profile"
proof -
  have "fst (run_state (CheckStartupOpportunity 7 sample_context sample_profile process_ops) (sample_process, 0))
      = Gate_Ready"
    by (simp add: sample_ready [OF answers_process] sample_process_def Readable_def)
  from startup_ready_sound [OF truthful_sample this] show ?thesis
    by (simp add: sample_process_def sample_context_def sample_process_at_def)
qed

end
