(* ===== verification/Recon.thy ===== *)
theory Recon
  imports Startup
begin

text \<open>
  The correction of one instruction of the game (\<open>src/companion/recon_fix.cpp\<close>,
  \<open>recon_types.h\<close>, \<open>recon_profile.h\<close>): qualification of the mapped function, the patch of its
  operand, the readback, and the recovery and rollback when a step fails.  The main result is
  that, short of the fatal outcome, the function is never left half patched.
\<close>

section \<open>Modes, outcomes and reasons\<close>

datatype ReconMode = Mode_Passive | Mode_Active
datatype ReconOutcome = Out_Passive | Out_Disabled | Out_Active | Out_RolledBack | Out_Fatal

datatype FixReason =
    Fix_None | Fix_InvalidContext | Fix_StartupRejected | Fix_UnsupportedHost
  | Fix_HostOpenSharingViolation | Fix_HostOpenFailed | Fix_HostHashBudgetExceeded
  | Fix_HostIdentityChanged | Fix_HostHashMismatch | Fix_HostHashFailed
  | Fix_CodeUnreadable | Fix_FunctionMismatch | Fix_ConstantMismatch | Fix_ProtectionMismatch
  | Fix_PreparedDigestMismatch | Fix_ProtectFailed | Fix_WriteFailed | Fix_ReadbackFailed
  | Fix_RestoreFailed | Fix_FlushFailed | Fix_RollbackFailed

fun ReconModeName :: "ReconMode \<Rightarrow> string" where
  "ReconModeName Mode_Active = ''active''"
| "ReconModeName Mode_Passive = ''passive''"

fun ReconOutcomeName :: "ReconOutcome \<Rightarrow> string" where
  "ReconOutcomeName Out_Passive = ''passive''"
| "ReconOutcomeName Out_Disabled = ''disabled''"
| "ReconOutcomeName Out_Active = ''active''"
| "ReconOutcomeName Out_RolledBack = ''rolled_back''"
| "ReconOutcomeName Out_Fatal = ''fatal''"

fun FixReasonName :: "FixReason \<Rightarrow> string" where
  "FixReasonName Fix_None = ''none''"
| "FixReasonName Fix_InvalidContext = ''invalid_context''"
| "FixReasonName Fix_StartupRejected = ''startup_rejected''"
| "FixReasonName Fix_UnsupportedHost = ''unsupported_host''"
| "FixReasonName Fix_HostOpenSharingViolation = ''host_open_sharing_violation''"
| "FixReasonName Fix_HostOpenFailed = ''host_open_failed''"
| "FixReasonName Fix_HostHashBudgetExceeded = ''host_hash_budget_exceeded''"
| "FixReasonName Fix_HostIdentityChanged = ''host_identity_changed''"
| "FixReasonName Fix_HostHashMismatch = ''host_hash_mismatch''"
| "FixReasonName Fix_HostHashFailed = ''host_hash_failed''"
| "FixReasonName Fix_CodeUnreadable = ''code_unreadable''"
| "FixReasonName Fix_FunctionMismatch = ''function_mismatch''"
| "FixReasonName Fix_ConstantMismatch = ''constant_mismatch''"
| "FixReasonName Fix_ProtectionMismatch = ''protection_mismatch''"
| "FixReasonName Fix_PreparedDigestMismatch = ''prepared_digest_mismatch''"
| "FixReasonName Fix_ProtectFailed = ''protect_failed''"
| "FixReasonName Fix_WriteFailed = ''write_failed''"
| "FixReasonName Fix_ReadbackFailed = ''readback_failed''"
| "FixReasonName Fix_RestoreFailed = ''restore_failed''"
| "FixReasonName Fix_FlushFailed = ''flush_failed''"
| "FixReasonName Fix_RollbackFailed = ''rollback_failed''"

definition all_reasons :: "FixReason list" where
  "all_reasons = [Fix_None, Fix_InvalidContext, Fix_StartupRejected, Fix_UnsupportedHost,
     Fix_HostOpenSharingViolation, Fix_HostOpenFailed, Fix_HostHashBudgetExceeded,
     Fix_HostIdentityChanged, Fix_HostHashMismatch, Fix_HostHashFailed,
     Fix_CodeUnreadable, Fix_FunctionMismatch, Fix_ConstantMismatch, Fix_ProtectionMismatch,
     Fix_PreparedDigestMismatch, Fix_ProtectFailed, Fix_WriteFailed, Fix_ReadbackFailed,
     Fix_RestoreFailed, Fix_FlushFailed, Fix_RollbackFailed]"

interpretation reason_names: enum_names all_reasons FixReasonName
proof unfold_locales
  show "x \<in> set all_reasons" for x by (cases x) (simp_all add: all_reasons_def)
qed (simp add: all_reasons_def)

interpretation outcome_names: enum_names "[Out_Passive, Out_Disabled, Out_Active, Out_RolledBack, Out_Fatal]" ReconOutcomeName
proof unfold_locales
  show "x \<in> set [Out_Passive, Out_Disabled, Out_Active, Out_RolledBack, Out_Fatal]" for x by (cases x) simp_all
qed simp

record ReconResult =
  rr_outcome :: ReconOutcome
  rr_reason :: FixReason
  rr_error :: nat
  rr_qualified :: bool

section \<open>The profile\<close>

type_synonym digest = "byte list"

record ReconProfile =
  rp_functionRva :: nat
  rp_functionSize :: nat
  rp_loadRva :: nat
  rp_operandRva :: nat
  rp_constantRva :: nat
  rp_oldDisplacement :: nat
  rp_newDisplacement :: nat
  rp_originalWindow :: "byte list"
  rp_constantBytes :: "byte list"
  rp_hostDigest :: digest
  rp_originalDigest :: digest
  rp_correctedDigest :: digest

definition kReconFunctionCapacity :: nat where "kReconFunctionCapacity = 1024"

definition kProductionReconProfile :: ReconProfile where
  "kProductionReconProfile =
    \<lparr>rp_functionRva = 0xB452D0, rp_functionSize = 641, rp_loadRva = 0xB45324, rp_operandRva = 0xB45328,
     rp_constantRva = 0x12891B0, rp_oldDisplacement = 0x00360204, rp_newDisplacement = 0x00743E84,
     rp_originalWindow = [0xF3,0x0F,0x10,0x35,0x04,0x02,0x36,0x00,0x0F,0x1F,0x40,0x00],
     rp_constantBytes =
       [0x00,0x00,0x00,0x38,0x00,0x00,0x00,0x38,
        0x00,0x00,0x00,0x38,0x00,0x00,0x00,0x38],
     rp_hostDigest =
       [0x0D,0x8F,0x32,0x22,0xAD,0x79,0x6B,0x02,
        0x4F,0xB5,0x25,0x11,0x86,0x58,0xBB,0x1C,
        0xE9,0x46,0xE4,0x35,0x7E,0x35,0xBA,0x6E,
        0x5E,0xCD,0x12,0x78,0x83,0x75,0x73,0x93],
     rp_originalDigest =
       [0xE5,0x8C,0xE1,0x50,0x74,0x7B,0x01,0xED,
        0x9A,0x6B,0xC2,0x12,0x23,0x06,0x1A,0xA9,
        0x4F,0x56,0x43,0x0C,0xED,0xD9,0x96,0xD7,
        0xD7,0x27,0xB6,0x31,0x09,0x68,0xBD,0xEE],
     rp_correctedDigest =
       [0xF4,0x02,0xD3,0x26,0x2D,0x39,0xEC,0x73,
        0xE9,0xB3,0x3E,0x14,0xCC,0x4F,0x74,0xB0,
        0x6E,0xC9,0x81,0xEC,0xDE,0x94,0xD5,0x9A,
        0xDF,0x67,0xD9,0x05,0xCC,0x1D,0xA2,0xD5]\<rparr>"

definition signed32 :: "nat \<Rightarrow> int" where
  "signed32 n = (if n < 2 ^ 31 then int n else int n - 2 ^ 32)"

definition ProfileValid :: "ReconProfile \<Rightarrow> StartupProfile \<Rightarrow> bool" where
  "ProfileValid profile startup \<longleftrightarrow>
     (let finish = rp_functionRva profile + rp_functionSize profile;
          constantEnd = rp_constantRva profile + 16 in
      rp_functionSize profile > 0 \<and> rp_functionSize profile \<le> kReconFunctionCapacity \<and>
      finish \<le> sp_imageSize startup \<and> constantEnd \<le> sp_imageSize startup \<and>
      rp_loadRva profile \<ge> rp_functionRva profile \<and>
      rp_loadRva profile + 12 \<le> finish \<and>
      rp_operandRva profile = (rp_loadRva profile + 4) mod 2 ^ 32 \<and> and (rp_operandRva profile) 3 = 0 \<and>
      int (rp_loadRva profile) + 8 + signed32 (rp_newDisplacement profile) = int (rp_constantRva profile))"

lemma production_profile_valid: "ProfileValid kProductionReconProfile kProductionStartupProfile"
  by (simp add: ProfileValid_def kProductionReconProfile_def kProductionStartupProfile_def
    kReconFunctionCapacity_def signed32_def)

section \<open>The operations of a process that may be written\<close>

text \<open>
  A protection change returns the previous protection, \<open>None\<close> when it fails.  The digest of a
  byte range is a call into the platform's library (\<open>HashBytesSha256\<close> over CNG), a parameter.
\<close>

record 'w ReconOps =
  ro_memory :: "'w MemoryOps"
  ro_protect :: "(nat \<Rightarrow> nat \<Rightarrow> nat \<Rightarrow> ('w, nat option) prog) option"
  ro_writeDword :: "(nat \<Rightarrow> nat \<Rightarrow> ('w, bool) prog) option"
  ro_flush :: "(nat \<Rightarrow> nat \<Rightarrow> ('w, bool) prog) option"
  ro_validateHostIdentity :: "('w, FixReason) prog option"

type_synonym 'w hasher = "byte list \<Rightarrow> ('w, digest option) prog"

text \<open>
  The production operations over the system calls \<open>VirtualProtect\<close> and
  \<open>FlushInstructionCache\<close>, an atomic store, and the lease on the host file.
\<close>

definition Protect :: "(nat \<Rightarrow> nat \<Rightarrow> nat \<Rightarrow> 'w \<Rightarrow> (nat + nat) \<times> 'w) \<Rightarrow> nat \<Rightarrow> nat \<Rightarrow> nat \<Rightarrow> ('w, nat option) prog" where
  "Protect virtualProtect address sz protection = State (\<lambda>(w, _).
     case virtualProtect address sz protection w of
       (Inr failure, w) \<Rightarrow> (None, (w, failure)) | (Inl previous, w) \<Rightarrow> (Some previous, (w, 0)))"

definition WriteDword :: "(nat \<Rightarrow> nat \<Rightarrow> 'w \<Rightarrow> 'w) \<Rightarrow> nat \<Rightarrow> nat \<Rightarrow> ('w, bool) prog" where
  "WriteDword interlockedExchange address v = State (\<lambda>(w, _). (True, (interlockedExchange address v w, 0)))"

definition Flush :: "(nat \<Rightarrow> nat \<Rightarrow> 'w \<Rightarrow> nat option \<times> 'w) \<Rightarrow> nat \<Rightarrow> nat \<Rightarrow> ('w, bool) prog" where
  "Flush flushInstructionCache address sz = State (\<lambda>(w, _).
     case flushInstructionCache address sz w of
       (Some failure, w) \<Rightarrow> (False, (w, failure)) | (None, w) \<Rightarrow> (True, (w, 0)))"

definition Stable :: "('w, FixReason) prog option \<Rightarrow> ('w, FixReason) prog" where
  "Stable validateStable = (case validateStable of
     None \<Rightarrow> State_Monad.return Fix_HostIdentityChanged | Some validate \<Rightarrow> validate)"

definition ProductionReconOps where
  "ProductionReconOps virtualQuery readProcessMemory virtualProtect interlockedExchange flushInstructionCache lease =
    \<lparr>ro_memory = ProductionMemoryOps virtualQuery readProcessMemory,
     ro_protect = Some (Protect virtualProtect), ro_writeDword = Some (WriteDword interlockedExchange),
     ro_flush = Some (Flush flushInstructionCache), ro_validateHostIdentity = Some (Stable lease)\<rparr>"

section \<open>Reading the function back\<close>

definition BytesEqual :: "nat \<Rightarrow> StartupProfile \<Rightarrow> ReconProfile \<Rightarrow> byte list \<Rightarrow> 'w ReconOps \<Rightarrow> ('w, bool) prog" where
  "BytesEqual base startup profile expected ops =
     read_equals (ro_memory ops) base (sp_imageSize startup) (rp_functionRva profile) (rp_functionSize profile)
       (\<lambda>scratch. scratch = expected)"

definition WritableCode :: "nat \<Rightarrow> StartupProfile \<Rightarrow> ReconProfile \<Rightarrow> 'w ReconOps \<Rightarrow> ('w, bool) prog" where
  "WritableCode base startup profile ops = do {
     rw \<leftarrow> ImageRangeProtection (ro_memory ops) base (sp_imageSize startup) (rp_operandRva profile) 4
       PAGE_EXECUTE_READWRITE;
     if rw then State_Monad.return True
     else ImageRangeProtection (ro_memory ops) base (sp_imageSize startup) (rp_operandRva profile) 4
       PAGE_EXECUTE_WRITECOPY }"

definition OriginalProtection :: "nat \<Rightarrow> StartupProfile \<Rightarrow> ReconProfile \<Rightarrow> 'w ReconOps \<Rightarrow> ('w, bool) prog" where
  "OriginalProtection base startup profile ops =
     ImageRangeProtection (ro_memory ops) base (sp_imageSize startup) (rp_functionRva profile)
       (rp_functionSize profile) PAGE_EXECUTE_READ"

definition ConstantMatches :: "nat \<Rightarrow> StartupProfile \<Rightarrow> ReconProfile \<Rightarrow> 'w ReconOps \<Rightarrow> ('w, bool) prog" where
  "ConstantMatches base startup profile ops = allM
     [ImageRangeProtection (ro_memory ops) base (sp_imageSize startup) (rp_constantRva profile) 16 PAGE_READONLY,
      read_equals (ro_memory ops) base (sp_imageSize startup) (rp_constantRva profile) 16
        (\<lambda>bytes. bytes = rp_constantBytes profile)]"

definition do_protect :: "'w ReconOps \<Rightarrow> nat \<Rightarrow> nat \<Rightarrow> nat \<Rightarrow> ('w, nat option) prog" where
  "do_protect ops = the (ro_protect ops)"

definition protects :: "'w ReconOps \<Rightarrow> nat \<Rightarrow> nat \<Rightarrow> nat \<Rightarrow> ('w, bool) prog" where
  "protects ops address sz protection = do {
     previous \<leftarrow> do_protect ops address sz protection; State_Monad.return (previous \<noteq> None) }"

section \<open>Recovery\<close>

definition original_state :: "nat \<Rightarrow> StartupProfile \<Rightarrow> ReconProfile \<Rightarrow> byte list \<Rightarrow> 'w ReconOps \<Rightarrow> ('w, bool) prog" where
  "original_state base startup profile original ops =
     allM [OriginalProtection base startup profile ops, BytesEqual base startup profile original ops]"

definition anyM :: "('s, bool) state \<Rightarrow> ('s, bool) state \<Rightarrow> ('s, bool) state" where
  "anyM a b = do { x \<leftarrow> a; if x then State_Monad.return True else b }"

definition RecoverWithoutWrite :: "nat \<Rightarrow> StartupProfile \<Rightarrow> ReconProfile \<Rightarrow> byte list \<Rightarrow> 'w ReconOps \<Rightarrow> ('w, bool) prog" where
  "RecoverWithoutWrite base startup profile original ops =
     (let originalState = original_state base startup profile original ops in do {
        proved \<leftarrow> anyM originalState originalState;
        if proved then State_Monad.return True
        else do {
          writable \<leftarrow> WritableCode base startup profile ops;
          if \<not> writable then State_Monad.return False
          else do {
            _ \<leftarrow> do_protect ops (base + rp_operandRva profile) 4 PAGE_EXECUTE_READ;
            anyM originalState originalState } } })"

definition Rollback :: "nat \<Rightarrow> StartupProfile \<Rightarrow> ReconProfile \<Rightarrow> byte list \<Rightarrow> 'w ReconOps \<Rightarrow> ('w, bool) prog" where
  "Rollback base startup profile original ops = allM
     [protects ops (base + rp_operandRva profile) 4 PAGE_EXECUTE_READWRITE,
      WritableCode base startup profile ops,
      the (ro_writeDword ops) (base + rp_operandRva profile) (rp_oldDisplacement profile),
      BytesEqual base startup profile original ops,
      protects ops (base + rp_operandRva profile) 4 PAGE_EXECUTE_READ,
      OriginalProtection base startup profile ops,
      BytesEqual base startup profile original ops,
      the (ro_flush ops) (base + rp_functionRva profile) (rp_functionSize profile)]"

section \<open>Qualification\<close>

text \<open>A step whose failure ends the run with a value of its own.\<close>

definition check :: "('s, bool) state \<Rightarrow> 'a \<Rightarrow> ('s, 'a) state \<Rightarrow> ('s, 'a) state" where
  "check m failure rest = do { ok \<leftarrow> m; if ok then rest else State_Monad.return failure }"

definition gate_ready :: "nat \<Rightarrow> BootstrapContextV3 \<Rightarrow> StartupProfile \<Rightarrow> 'w ReconOps \<Rightarrow> ('w, bool) prog" where
  "gate_ready threadId context startup ops = do {
     gate \<leftarrow> CheckStartupOpportunity threadId context startup (ro_memory ops);
     State_Monad.return (gate = Gate_Ready) }"

definition hash_is :: "'w hasher \<Rightarrow> byte list \<Rightarrow> digest \<Rightarrow> ('w, bool) prog" where
  "hash_is hash bytes expected = do { d \<leftarrow> hash bytes; State_Monad.return (d = Some expected) }"

definition operand_offset :: "ReconProfile \<Rightarrow> nat" where
  "operand_offset profile = rp_operandRva profile - rp_functionRva profile"

definition original_windows :: "ReconProfile \<Rightarrow> byte list \<Rightarrow> bool" where
  "original_windows profile original \<longleftrightarrow>
     slice (rp_loadRva profile - rp_functionRva profile) 12 original = rp_originalWindow profile \<and>
     slice (operand_offset profile) 4 original = le_bytes 4 (rp_oldDisplacement profile)"

definition corrected :: "ReconProfile \<Rightarrow> byte list \<Rightarrow> byte list" where
  "corrected profile original =
     take (operand_offset profile) original @ le_bytes 4 (rp_newDisplacement profile) @
     drop (operand_offset profile + 4) original"

definition image_protections :: "nat \<Rightarrow> StartupProfile \<Rightarrow> ReconProfile \<Rightarrow> 'w ReconOps \<Rightarrow> ('w, bool) prog" where
  "image_protections base startup profile ops = allM
     [OriginalProtection base startup profile ops,
      ImageSectionMatches (ro_memory ops) base (sp_imageSize startup) (rp_functionRva profile)
        (rp_functionSize profile) (or IMAGE_SCN_MEM_READ IMAGE_SCN_MEM_EXECUTE)
        (or IMAGE_SCN_MEM_WRITE IMAGE_SCN_MEM_DISCARDABLE),
      ImageRangeProtection (ro_memory ops) base (sp_imageSize startup) (rp_constantRva profile) 16 PAGE_READONLY,
      ImageSectionMatches (ro_memory ops) base (sp_imageSize startup) (rp_constantRva profile) 16
        IMAGE_SCN_MEM_READ (or (or IMAGE_SCN_MEM_WRITE IMAGE_SCN_MEM_EXECUTE) IMAGE_SCN_MEM_DISCARDABLE)]"

text \<open>\<open>Inl\<close> is the reason of a refusal, \<open>Inr\<close> the original bytes of a qualified function.\<close>

definition qualify_identity ::
  "nat \<Rightarrow> BootstrapContextV3 \<Rightarrow> StartupProfile \<Rightarrow> ReconProfile \<Rightarrow> 'w ReconOps \<Rightarrow> byte list \<Rightarrow>
   ('w, FixReason + byte list) prog" where
  "qualify_identity threadId context startup profile ops original = do {
     let base = hostModule context;
     reason \<leftarrow> the (ro_validateHostIdentity ops);
     if reason \<noteq> Fix_None then State_Monad.return (Inl reason)
     else check (gate_ready threadId context startup ops) (Inl Fix_StartupRejected)
       (check (allM [OriginalProtection base startup profile ops,
            BytesEqual base startup profile original ops,
            ConstantMatches base startup profile ops]) (Inl Fix_ReadbackFailed)
         (State_Monad.return (Inr original))) }"

definition Qualify ::
  "nat \<Rightarrow> BootstrapContextV3 \<Rightarrow> StartupProfile \<Rightarrow> ReconProfile \<Rightarrow> digest \<Rightarrow> 'w ReconOps \<Rightarrow> 'w hasher \<Rightarrow>
   ('w, FixReason + byte list) prog" where
  "Qualify threadId context startup profile hostDigest ops hash =
     (let base = hostModule context in
      if hostDigest \<noteq> rp_hostDigest profile then State_Monad.return (Inl Fix_UnsupportedHost)
      else check (gate_ready threadId context startup ops) (Inl Fix_StartupRejected)
       (check (image_protections base startup profile ops) (Inl Fix_ProtectionMismatch)
        (do {
           read \<leftarrow> ReadImageRange (ro_memory ops) base (sp_imageSize startup) (rp_functionRva profile)
             (rp_functionSize profile);
           case read of
             None \<Rightarrow> State_Monad.return (Inl Fix_CodeUnreadable)
           | Some original \<Rightarrow>
               check (allM [hash_is hash original (rp_originalDigest profile),
                   pureM (original_windows profile original)]) (Inl Fix_FunctionMismatch)
                (check (read_equals (ro_memory ops) base (sp_imageSize startup) (rp_constantRva profile) 16
                     (\<lambda>bytes. bytes = rp_constantBytes profile)) (Inl Fix_ConstantMismatch)
                 (check (hash_is hash (corrected profile original) (rp_correctedDigest profile))
                    (Inl Fix_PreparedDigestMismatch)
                  (qualify_identity threadId context startup profile ops original))) })))"

section \<open>The correction\<close>

text \<open>
  How the active part ends: the correction is in place; the first protection change failed and
  the original state was proved at once; or a step failed, after a write was attempted or not.
\<close>

datatype correction = Corr_Active | Corr_Refused | Corr_Failed (corr_failure: FixReason) (corr_attempted: bool)

definition verify_correction ::
  "nat \<Rightarrow> StartupProfile \<Rightarrow> ReconProfile \<Rightarrow> byte list \<Rightarrow> 'w ReconOps \<Rightarrow> ('w, correction) prog" where
  "verify_correction base startup profile expected ops =
     check (BytesEqual base startup profile expected ops) (Corr_Failed Fix_ReadbackFailed True)
     (check (ConstantMatches base startup profile ops) (Corr_Failed Fix_ConstantMismatch True)
     (check (allM [protects ops (base + rp_operandRva profile) 4 PAGE_EXECUTE_READ,
         OriginalProtection base startup profile ops, BytesEqual base startup profile expected ops])
        (Corr_Failed Fix_RestoreFailed True)
     (check (ConstantMatches base startup profile ops) (Corr_Failed Fix_ConstantMismatch True)
     (check (the (ro_flush ops) (base + rp_functionRva profile) (rp_functionSize profile))
        (Corr_Failed Fix_FlushFailed True)
     (do { failure \<leftarrow> the (ro_validateHostIdentity ops);
           State_Monad.return (if failure = Fix_None then Corr_Active else Corr_Failed failure True) })))))"

definition attempt_correction ::
  "nat \<Rightarrow> BootstrapContextV3 \<Rightarrow> StartupProfile \<Rightarrow> ReconProfile \<Rightarrow> byte list \<Rightarrow> byte list \<Rightarrow> 'w ReconOps \<Rightarrow>
   nat \<Rightarrow> ('w, correction) prog" where
  "attempt_correction threadId context startup profile original expected ops oldProtection =
     (let base = hostModule context in
      check (allM [pureM (oldProtection = PAGE_EXECUTE_READ), WritableCode base startup profile ops])
        (Corr_Failed Fix_ProtectionMismatch False)
      (check (allM [pureM (threadId = startupThreadId context),
           read_equals (ro_memory ops) base (sp_imageSize startup) (sp_stateRva startup) 4
             (\<lambda>bs. le_nat bs = sp_stateValue startup)])
        (Corr_Failed Fix_StartupRejected False)
      (check (BytesEqual base startup profile original ops) (Corr_Failed Fix_ReadbackFailed False)
      (check (the (ro_writeDword ops) (base + rp_operandRva profile) (rp_newDisplacement profile))
        (Corr_Failed Fix_WriteFailed True)
      (verify_correction base startup profile expected ops)))))"

definition Correct ::
  "nat \<Rightarrow> BootstrapContextV3 \<Rightarrow> StartupProfile \<Rightarrow> ReconProfile \<Rightarrow> byte list \<Rightarrow> byte list \<Rightarrow> 'w ReconOps \<Rightarrow>
   ('w, correction) prog" where
  "Correct threadId context startup profile original expected ops = do {
     let base = hostModule context;
     oldProtection \<leftarrow> do_protect ops (base + rp_operandRva profile) 4 PAGE_EXECUTE_READWRITE;
     case oldProtection of
       None \<Rightarrow> do {
         protectError \<leftarrow> get_error;
         check (original_state base startup profile original ops) (Corr_Failed Fix_ProtectFailed False)
           (do { set_error protectError; State_Monad.return Corr_Refused }) }
     | Some old \<Rightarrow> attempt_correction threadId context startup profile original expected ops old }"

definition recon_result :: "ReconOutcome \<Rightarrow> FixReason \<Rightarrow> bool \<Rightarrow> nat \<Rightarrow> ReconResult" where
  "recon_result outcome reason qualified error =
     \<lparr>rr_outcome = outcome, rr_reason = reason, rr_error = error, rr_qualified = qualified\<rparr>"

text \<open>What a failed correction ends with; \<open>failureError\<close> is the error of the step that failed.\<close>

definition Unwind ::
  "nat \<Rightarrow> StartupProfile \<Rightarrow> ReconProfile \<Rightarrow> byte list \<Rightarrow> 'w ReconOps \<Rightarrow> FixReason \<Rightarrow> bool \<Rightarrow> ('w, ReconResult) prog" where
  "Unwind base startup profile original ops failure writeAttempted = do {
     failureError \<leftarrow> get_error;
     restored \<leftarrow> (if writeAttempted then Rollback base startup profile original ops
                   else RecoverWithoutWrite base startup profile original ops);
     error \<leftarrow> get_error;
     State_Monad.return
       (if restored
        then recon_result (if writeAttempted then Out_RolledBack else Out_Disabled) failure True failureError
        else recon_result Out_Fatal Fix_RollbackFailed True error) }"

definition ops_present :: "'w ReconOps \<Rightarrow> bool" where
  "ops_present ops \<longleftrightarrow> ro_protect ops \<noteq> None \<and> ro_writeDword ops \<noteq> None \<and> ro_flush ops \<noteq> None \<and>
     ro_validateHostIdentity ops \<noteq> None"

definition RunReconFix ::
  "nat \<Rightarrow> BootstrapContextV3 \<Rightarrow> StartupProfile \<Rightarrow> ReconProfile \<Rightarrow> ReconMode \<Rightarrow> digest \<Rightarrow> 'w ReconOps \<Rightarrow> 'w hasher \<Rightarrow>
   ('w, ReconResult) prog" where
  "RunReconFix threadId context startup profile mode hostDigest ops hash =
     (if \<not> ops_present ops \<or> \<not> ProfileValid profile startup
      then State_Monad.return (recon_result Out_Disabled Fix_InvalidContext False 0)
      else local_error (do {
        qualified \<leftarrow> Qualify threadId context startup profile hostDigest ops hash;
        case qualified of
          Inl reason \<Rightarrow> do {
            error \<leftarrow> get_error;
            State_Monad.return (recon_result Out_Disabled reason False error) }
        | Inr original \<Rightarrow>
            if mode = Mode_Passive then State_Monad.return (recon_result Out_Passive Fix_None True 0)
            else do {
              ending \<leftarrow> Correct threadId context startup profile original (corrected profile original) ops;
              case ending of
                Corr_Active \<Rightarrow> State_Monad.return (recon_result Out_Active Fix_None True 0)
              | Corr_Refused \<Rightarrow> do {
                  error \<leftarrow> get_error;
                  State_Monad.return (recon_result Out_Disabled Fix_ProtectFailed True error) }
              | Corr_Failed failure attempted \<Rightarrow>
                  Unwind (hostModule context) startup profile original ops failure attempted } }))"

section \<open>Triples of the checks\<close>

lemma triple_check:
  assumes "triple wok obs P m (\<lambda>b v. (b \<longrightarrow> R v) \<and> (\<not> b \<longrightarrow> Q failure v))" and "triple wok obs R rest Q"
  shows "triple wok obs P (check m failure rest) Q"
  unfolding check_def
proof (rule triple_bind [OF assms(1)])
  fix b
  show "triple wok obs (\<lambda>v. (b \<longrightarrow> R v) \<and> (\<not> b \<longrightarrow> Q failure v))
      (if b then rest else State_Monad.return failure) Q"
    using assms(2) by (cases b) (auto intro: triple_return)
qed

lemma triple_allM_Nil: "(\<And>v. P v \<Longrightarrow> Q True v) \<Longrightarrow> triple wok obs P (allM []) Q"
  by (simp add: triple_return)

lemma triple_allM_Cons:
  assumes "triple wok obs P m (\<lambda>b v. (b \<longrightarrow> R v) \<and> (\<not> b \<longrightarrow> Q False v))" and "triple wok obs R (allM ms) Q"
  shows "triple wok obs P (allM (m # ms)) Q"
  using triple_check [OF assms] by (simp add: check_def)

section \<open>What the mutating operations promise\<close>

text \<open>
  A protection change and a store may do anything to the process; a flush of the instruction
  cache, a check of the host file and a digest change neither bytes nor protections of the
  image, and a digest that is returned is that of the bytes.
\<close>

locale recon_provider = memory_provider "ro_memory rops" wok content page
  for rops :: "'w ReconOps" and wok :: "'w \<Rightarrow> bool" and content :: "'w \<Rightarrow> nat \<Rightarrow> byte"
    and page :: "'w \<Rightarrow> nat \<Rightarrow> attributes" +
  fixes hash :: "'w hasher"
    and sha256 :: "byte list \<Rightarrow> digest"
  assumes protect_ok: "ro_protect rops = Some p \<Longrightarrow> wok w \<Longrightarrow> run_state (p a n prot) (w, e) = (r, (w', e')) \<Longrightarrow> wok w'"
    and write_ok: "ro_writeDword rops = Some wr \<Longrightarrow> wok w \<Longrightarrow> run_state (wr a v) (w, e) = (b, (w', e')) \<Longrightarrow> wok w'"
    and flush_frame: "ro_flush rops = Some fl \<Longrightarrow> wok w \<Longrightarrow> run_state (fl a n) (w, e) = (b, (w', e')) \<Longrightarrow>
      wok w' \<and> content w' = content w \<and> page w' = page w"
    and validate_frame: "ro_validateHostIdentity rops = Some va \<Longrightarrow> wok w \<Longrightarrow>
      run_state va (w, e) = (reason, (w', e')) \<Longrightarrow> wok w' \<and> content w' = content w \<and> page w' = page w"
    and hash_sound: "wok w \<Longrightarrow> run_state (hash bs) (w, e) = (d, (w', e')) \<Longrightarrow>
      wok w' \<and> content w' = content w \<and> page w' = page w \<and> (\<forall>x. d = Some x \<longrightarrow> x = sha256 bs)"

text \<open>What is observed of the function and of the constant.\<close>

definition code_is :: "nat \<Rightarrow> ReconProfile \<Rightarrow> byte list \<Rightarrow> (nat \<Rightarrow> byte) \<times> (nat \<Rightarrow> attributes) \<Rightarrow> bool" where
  "code_is base profile bs v \<longleftrightarrow>
     bytes_at (fst v) (base + rp_functionRva profile) (rp_functionSize profile) = bs"

definition code_executable :: "nat \<Rightarrow> ReconProfile \<Rightarrow> (nat \<Rightarrow> byte) \<times> (nat \<Rightarrow> attributes) \<Rightarrow> bool" where
  "code_executable base profile v \<longleftrightarrow>
     range_ok (snd v) base PAGE_EXECUTE_READ (base + rp_functionRva profile)
       (base + rp_functionRva profile + rp_functionSize profile)"

definition constant_is :: "nat \<Rightarrow> ReconProfile \<Rightarrow> (nat \<Rightarrow> byte) \<times> (nat \<Rightarrow> attributes) \<Rightarrow> bool" where
  "constant_is base profile v \<longleftrightarrow>
     bytes_at (fst v) (base + rp_constantRva profile) 16 = rp_constantBytes profile"

text \<open>A qualified function, at the observation at which it was read.\<close>

definition function_qualified :: "(byte list \<Rightarrow> digest) \<Rightarrow> nat \<Rightarrow> ReconProfile \<Rightarrow> byte list \<Rightarrow> (nat \<Rightarrow> byte) \<times> (nat \<Rightarrow> attributes) \<Rightarrow> bool" where
  "function_qualified sha256 base profile original v \<longleftrightarrow>
     code_is base profile original v \<and> code_executable base profile v \<and> constant_is base profile v \<and>
     sha256 original = rp_originalDigest profile \<and> original_windows profile original \<and>
     sha256 (corrected profile original) = rp_correctedDigest profile"

text \<open>
  What a run guarantees, from the observation \<open>v0\<close> to \<open>v\<close>.  Refused or passive, nothing was
  touched; active, the function is the qualified one with the new displacement, executable and
  not writable; rolled back or disabled after qualification, it is the qualified one.
\<close>

definition recon_safe ::
  "(byte list \<Rightarrow> digest) \<Rightarrow> nat \<Rightarrow> ReconProfile \<Rightarrow> ReconMode \<Rightarrow> ReconResult \<Rightarrow>
   (nat \<Rightarrow> byte) \<times> (nat \<Rightarrow> attributes) \<Rightarrow> (nat \<Rightarrow> byte) \<times> (nat \<Rightarrow> attributes) \<Rightarrow> bool" where
  "recon_safe sha256 base profile mode r v0 v \<longleftrightarrow>
     (\<not> rr_qualified r \<longrightarrow> rr_outcome r = Out_Disabled \<and> v = v0) \<and>
     (mode = Mode_Passive \<longrightarrow> v = v0) \<and>
     (rr_qualified r \<longrightarrow>
       (rr_outcome r = Out_Passive \<longleftrightarrow> mode = Mode_Passive) \<and>
       (\<exists>original. function_qualified sha256 base profile original v0 \<and>
         (rr_outcome r = Out_Active \<longrightarrow> code_is base profile (corrected profile original) v \<and>
            code_executable base profile v \<and> constant_is base profile v) \<and>
         (rr_outcome r = Out_Disabled \<or> rr_outcome r = Out_RolledBack \<longrightarrow>
            code_is base profile original v \<and> code_executable base profile v)))"

context recon_provider
begin

lemma steady_OriginalProtection:
  "steady wok observed v (\<lambda>b. b \<longrightarrow> code_executable base profile v) (OriginalProtection base startup profile rops)"
  unfolding OriginalProtection_def code_executable_def
  by (rule steady_conseq [OF steady_ImageRangeProtection]) blast

lemma steady_BytesEqual:
  "steady wok observed v (\<lambda>b. b \<longrightarrow> code_is base profile bs v) (BytesEqual base startup profile bs rops)"
  unfolding BytesEqual_def code_is_def by (rule steady_conseq [OF steady_read_equals]) blast

lemma steady_ConstantMatches:
  "steady wok observed v (\<lambda>b. b \<longrightarrow> constant_is base profile v) (ConstantMatches base startup profile rops)"
  unfolding ConstantMatches_def
  by (intro steady_allM_step [OF steady_ImageRangeProtection] steady_allM_step [OF steady_read_equals] steady_allM_Nil)
    (auto simp: constant_is_def)

lemma steady_WritableCode: "steady wok observed v (\<lambda>_. True) (WritableCode base startup profile rops)"
  unfolding WritableCode_def
  by (intro steady_bind [OF steady_ImageRangeProtection] steady_if steady_return
      steady_conseq [OF steady_ImageRangeProtection]) auto

lemma steady_original_state:
  "steady wok observed v (\<lambda>b. b \<longrightarrow> code_executable base profile v \<and> code_is base profile bs v)
     (original_state base startup profile bs rops)"
  unfolding original_state_def
  by (intro steady_allM_step [OF steady_OriginalProtection] steady_allM_step [OF steady_BytesEqual] steady_allM_Nil)
    (auto)

lemma steady_anyM:
  assumes "steady wok observed v (\<lambda>b. b \<longrightarrow> A) m" and "steady wok observed v (\<lambda>b. b \<longrightarrow> A) n"
  shows "steady wok observed v (\<lambda>b. b \<longrightarrow> A) (anyM m n)"
  unfolding anyM_def by (rule steady_bind [OF assms(1)]) (auto intro!: steady_if steady_return assms(2))

lemma steady_hash: "steady wok observed v (\<lambda>d. \<forall>x. d = Some x \<longrightarrow> x = sha256 bs) (hash bs)"
  by (rule steadyI) (use hash_sound in \<open>fastforce simp: observed_def\<close>)

lemma steady_hash_is: "steady wok observed v (\<lambda>b. b \<longrightarrow> sha256 bs = d) (hash_is hash bs d)"
  unfolding hash_is_def by (rule steady_bind [OF steady_hash]) (auto intro!: steady_return)

lemma steady_flush:
  "ro_flush rops \<noteq> None \<Longrightarrow> steady wok observed v (\<lambda>_. True) (the (ro_flush rops) a n)"
  by (rule steadyI) (use flush_frame in \<open>fastforce simp: observed_def\<close>)

lemma steady_validate:
  "ro_validateHostIdentity rops \<noteq> None \<Longrightarrow> steady wok observed v (\<lambda>_. True) (the (ro_validateHostIdentity rops))"
  by (rule steadyI) (use validate_frame in \<open>fastforce simp: observed_def\<close>)

lemma steady_gate_ready: "steady wok observed v (\<lambda>_. True) (gate_ready threadId context startup rops)"
  unfolding gate_ready_def by (rule steady_bind [OF steady_CheckStartupOpportunity]) (auto intro!: steady_return)

lemma steady_check:
  assumes "steady wok observed v (\<lambda>b. b \<longrightarrow> A) m" and "A \<Longrightarrow> steady wok observed v F rest" and "F failure"
  shows "steady wok observed v F (check m failure rest)"
  unfolding check_def by (rule steady_bind [OF assms(1)]) (auto intro!: steady_if steady_return assms)

lemma triple_protect: "ro_protect rops \<noteq> None \<Longrightarrow> triple wok observed P (do_protect rops a n prot) (\<lambda>_ _. True)"
  by (rule tripleI) (use protect_ok in \<open>fastforce simp: do_protect_def\<close>)

lemma triple_protects: "ro_protect rops \<noteq> None \<Longrightarrow> triple wok observed P (protects rops a n prot) (\<lambda>_ _. True)"
  unfolding protects_def by (rule triple_bind [OF triple_protect]) (auto intro: triple_return)

lemma triple_write: "ro_writeDword rops \<noteq> None \<Longrightarrow> triple wok observed P (the (ro_writeDword rops) a n) (\<lambda>_ _. True)"
  by (rule tripleI) (use write_ok in fastforce)

text \<open>A steady test inside a checked sequence adds what it shows to what is known.\<close>

lemma triple_test:
  assumes "\<And>v. steady wok observed v (\<lambda>b. b \<longrightarrow> A v) m" and "triple wok observed (\<lambda>v. P v \<and> A v) rest Q"
    and "\<And>v. P v \<Longrightarrow> Q failure v"
  shows "triple wok observed P (check m failure rest) Q"
  by (rule triple_check [OF triple_conseq [OF triple_steady [OF assms(1)], of P P] assms(2)]) (use assms(3) in auto)

lemma triple_allM_test:
  assumes "\<And>v. steady wok observed v (\<lambda>b. b \<longrightarrow> A v) m" and "triple wok observed (\<lambda>v. P v \<and> A v) (allM ms) Q"
    and "\<And>v. P v \<Longrightarrow> Q False v"
  shows "triple wok observed P (allM (m # ms)) Q"
  using triple_test [OF assms] by (simp add: check_def)

lemma steady_any: "steady wok observed v F m \<Longrightarrow> steady wok observed v (\<lambda>b. b \<longrightarrow> True) m"
  by (erule steady_conseq) simp

lemma triple_restore:
  assumes "ops_present rops"
  shows "triple wok observed P (allM [protects rops a n prot, OriginalProtection base startup profile rops,
      BytesEqual base startup profile bs rops])
    (\<lambda>b v. b \<longrightarrow> code_executable base profile v \<and> code_is base profile bs v)"
  using assms
  by (intro triple_allM_Cons [OF triple_conseq [OF triple_protects]] triple_allM_test [OF steady_OriginalProtection]
      triple_allM_test [OF steady_BytesEqual] triple_allM_Nil) (auto simp: ops_present_def)

lemma triple_verify:
  assumes "ops_present rops"
  shows "triple wok observed P (verify_correction base startup profile expected rops)
    (\<lambda>c v. c \<noteq> Corr_Refused \<and> (c = Corr_Active \<longrightarrow> code_is base profile expected v \<and>
       code_executable base profile v \<and> constant_is base profile v))"
  unfolding verify_correction_def
  by (intro triple_test [OF steady_BytesEqual] triple_test [OF steady_ConstantMatches]
      triple_check [OF triple_conseq [OF triple_restore [OF assms]]]
      triple_test [OF steady_any [OF steady_flush]] triple_bind [OF triple_steady [OF steady_validate]]
      triple_return) (use assms in \<open>auto simp: ops_present_def\<close>)

lemma triple_attempt:
  assumes "ops_present rops"
  shows "triple wok observed P (attempt_correction threadId context startup profile original expected rops old)
    (\<lambda>c v. c \<noteq> Corr_Refused \<and> (c = Corr_Active \<longrightarrow> code_is (hostModule context) profile expected v \<and>
       code_executable (hostModule context) profile v \<and> constant_is (hostModule context) profile v))"
proof -
  have writable: "steady wok observed v (\<lambda>b. b \<longrightarrow> True)
      (allM [pureM c, WritableCode base startup profile rops])" for v c base
    by (intro steady_allM_step [OF steady_pure_eq] steady_allM_step [OF steady_WritableCode] steady_allM_Nil) simp_all
  have stage: "steady wok observed v (\<lambda>b. b \<longrightarrow> True) (allM [pureM c, read_equals (ro_memory rops) base n rva k p])"
    for v c base n rva k p
    by (intro steady_allM_step [OF steady_pure_eq] steady_allM_step [OF steady_read_equals] steady_allM_Nil) simp_all
  show ?thesis unfolding attempt_correction_def Let_def
    by (intro triple_test [OF writable] triple_test [OF stage] triple_test [OF steady_BytesEqual]
        triple_check [OF triple_conseq [OF triple_write]] triple_conseq [OF triple_verify [OF assms]])
      (use assms in \<open>auto simp: ops_present_def\<close>)
qed

lemma triple_Correct:
  assumes "ops_present rops"
  shows "triple wok observed P (Correct threadId context startup profile original expected rops)
    (\<lambda>c v. (c = Corr_Active \<longrightarrow> code_is (hostModule context) profile expected v \<and>
         code_executable (hostModule context) profile v \<and> constant_is (hostModule context) profile v) \<and>
       (c = Corr_Refused \<longrightarrow> code_is (hostModule context) profile original v \<and>
         code_executable (hostModule context) profile v))"
  unfolding Correct_def Let_def
proof (rule triple_bind [OF triple_protect])
  show "ro_protect rops \<noteq> None" using assms by (simp add: ops_present_def)
  fix old
  let ?Q = "\<lambda>c v. (c = Corr_Active \<longrightarrow> code_is (hostModule context) profile expected v \<and>
         code_executable (hostModule context) profile v \<and> constant_is (hostModule context) profile v) \<and>
       (c = Corr_Refused \<longrightarrow> code_is (hostModule context) profile original v \<and>
         code_executable (hostModule context) profile v)"
  have refused: "triple wok observed (\<lambda>_. True) (do {
      protectError \<leftarrow> get_error;
      check (original_state (hostModule context) startup profile original rops) (Corr_Failed Fix_ProtectFailed False)
        (do { _ \<leftarrow> set_error protectError; State_Monad.return Corr_Refused }) }) ?Q"
    by (intro triple_bind [OF triple_get_error] triple_test [OF steady_original_state]
        triple_bind [OF triple_set_error] triple_return) auto
  have attempt: "triple wok observed (\<lambda>_. True)
      (attempt_correction threadId context startup profile original expected rops x) ?Q" for x
    by (rule triple_conseq [OF triple_attempt [OF assms]]) auto
  show "triple wok observed (\<lambda>_. True) (case old of
      None \<Rightarrow> do {
        protectError \<leftarrow> get_error;
        check (original_state (hostModule context) startup profile original rops) (Corr_Failed Fix_ProtectFailed False)
          (do { _ \<leftarrow> set_error protectError; State_Monad.return Corr_Refused }) }
    | Some old \<Rightarrow> attempt_correction threadId context startup profile original expected rops old) ?Q"
    using refused attempt by (cases old) simp_all
qed

lemma triple_Recover:
  assumes "ops_present rops"
  shows "triple wok observed P (RecoverWithoutWrite base startup profile original rops)
    (\<lambda>b v. b \<longrightarrow> code_is base profile original v \<and> code_executable base profile v)"
proof -
  let ?A = "\<lambda>v. code_is base profile original v \<and> code_executable base profile v"
  have proved: "steady wok observed v (\<lambda>b. b \<longrightarrow> ?A v)
      (anyM (original_state base startup profile original rops) (original_state base startup profile original rops))" for v
    by (intro steady_anyM steady_conseq [OF steady_original_state]) auto
  have again: "triple wok observed (\<lambda>_. True)
      (anyM (original_state base startup profile original rops) (original_state base startup profile original rops))
      (\<lambda>b v. b \<longrightarrow> ?A v)"
    by (rule triple_conseq [OF triple_steady [OF proved]]) auto
  have writable: "triple wok observed (\<lambda>_. True) (WritableCode base startup profile rops) (\<lambda>_ _. True)"
    by (rule triple_conseq [OF triple_steady [OF steady_WritableCode]]) auto
  have retry: "triple wok observed (\<lambda>_. True) (do {
      writable \<leftarrow> WritableCode base startup profile rops;
      if \<not> writable then State_Monad.return False
      else do {
        _ \<leftarrow> do_protect rops (base + rp_operandRva profile) 4 PAGE_EXECUTE_READ;
        anyM (original_state base startup profile original rops) (original_state base startup profile original rops) } })
      (\<lambda>b v. b \<longrightarrow> ?A v)"
  proof (rule triple_bind [OF writable])
    fix writable
    show "triple wok observed (\<lambda>_. True) (if \<not> writable then State_Monad.return False
      else do {
        _ \<leftarrow> do_protect rops (base + rp_operandRva profile) 4 PAGE_EXECUTE_READ;
        anyM (original_state base startup profile original rops) (original_state base startup profile original rops) })
      (\<lambda>b v. b \<longrightarrow> ?A v)"
      using assms by (cases writable)
        (auto simp: ops_present_def intro!: triple_return triple_bind [OF triple_protect] again)
  qed
  show ?thesis unfolding RecoverWithoutWrite_def Let_def
  proof (rule triple_bind [OF triple_steady [OF proved]])
    fix b
    show "triple wok observed (\<lambda>v. P v \<and> (b \<longrightarrow> ?A v)) (if b then State_Monad.return True else do {
      writable \<leftarrow> WritableCode base startup profile rops;
      if \<not> writable then State_Monad.return False
      else do {
        _ \<leftarrow> do_protect rops (base + rp_operandRva profile) 4 PAGE_EXECUTE_READ;
        anyM (original_state base startup profile original rops) (original_state base startup profile original rops) } })
      (\<lambda>b v. b \<longrightarrow> ?A v)"
      using retry by (cases b) (auto intro: triple_return triple_True)
  qed
qed

lemma triple_Rollback:
  assumes "ops_present rops"
  shows "triple wok observed P (Rollback base startup profile original rops)
    (\<lambda>b v. b \<longrightarrow> code_is base profile original v \<and> code_executable base profile v)"
  unfolding Rollback_def
  by (intro triple_allM_Cons [OF triple_conseq [OF triple_protects]] triple_allM_test [OF steady_OriginalProtection]
      triple_allM_test [OF steady_BytesEqual] triple_allM_test [OF steady_any [OF steady_WritableCode]]
      triple_allM_Cons [OF triple_conseq [OF triple_write]]
      triple_allM_test [OF steady_any [OF steady_flush]] triple_allM_Nil)
    (use assms in \<open>auto simp: ops_present_def\<close>)

lemma triple_Unwind:
  assumes "ops_present rops"
  shows "triple wok observed P (Unwind base startup profile original rops failure attempted)
    (\<lambda>r v. rr_qualified r \<and> rr_outcome r \<in> {Out_Disabled, Out_RolledBack, Out_Fatal} \<and>
       (rr_outcome r \<noteq> Out_Fatal \<longrightarrow> code_is base profile original v \<and> code_executable base profile v))"
  unfolding Unwind_def
proof (rule triple_bind [OF triple_get_error])
  fix failureError
  have "triple wok observed P (if attempted then Rollback base startup profile original rops
      else RecoverWithoutWrite base startup profile original rops)
      (\<lambda>b v. b \<longrightarrow> code_is base profile original v \<and> code_executable base profile v)"
    using triple_Rollback [OF assms] triple_Recover [OF assms] by (cases attempted) simp_all
  then show "triple wok observed P (do {
     restored \<leftarrow> (if attempted then Rollback base startup profile original rops
                   else RecoverWithoutWrite base startup profile original rops);
     error \<leftarrow> get_error;
     State_Monad.return
       (if restored
        then recon_result (if attempted then Out_RolledBack else Out_Disabled) failure True failureError
        else recon_result Out_Fatal Fix_RollbackFailed True error) })
    (\<lambda>r v. rr_qualified r \<and> rr_outcome r \<in> {Out_Disabled, Out_RolledBack, Out_Fatal} \<and>
       (rr_outcome r \<noteq> Out_Fatal \<longrightarrow> code_is base profile original v \<and> code_executable base profile v))"
    by (rule triple_bind) (intro triple_bind [OF triple_get_error] triple_return, auto simp: recon_result_def)
qed

lemma steady_qualify_identity:
  assumes "ops_present rops"
  shows "steady wok observed v (\<lambda>r. \<forall>bs. r = Inr bs \<longrightarrow> bs = original \<and> code_is (hostModule context) profile original v \<and>
       code_executable (hostModule context) profile v \<and> constant_is (hostModule context) profile v)
    (qualify_identity threadId context startup profile rops original)"
proof -
  have ready: "steady wok observed v (\<lambda>b. b \<longrightarrow> code_is (hostModule context) profile original v \<and>
       code_executable (hostModule context) profile v \<and> constant_is (hostModule context) profile v)
      (allM [OriginalProtection (hostModule context) startup profile rops,
         BytesEqual (hostModule context) startup profile original rops,
         ConstantMatches (hostModule context) startup profile rops])"
    by (intro steady_allM_step [OF steady_OriginalProtection] steady_allM_step [OF steady_BytesEqual]
        steady_allM_step [OF steady_ConstantMatches] steady_allM_Nil) auto
  show ?thesis unfolding qualify_identity_def Let_def
    by (intro steady_bind [OF steady_validate] steady_if steady_return
        steady_check [OF steady_any [OF steady_gate_ready]] steady_check [OF ready])
      (use assms in \<open>auto simp: ops_present_def\<close>)
qed

lemma steady_Qualify:
  assumes "ops_present rops"
  shows "steady wok observed v (\<lambda>r. \<forall>original. r = Inr original \<longrightarrow>
      function_qualified sha256 (hostModule context) profile original v)
    (Qualify threadId context startup profile hostDigest rops hash)"
proof -
  have image: "steady wok observed v (\<lambda>b. b \<longrightarrow> True) (image_protections base startup profile rops)" for base
    unfolding image_protections_def
    by (intro steady_allM_step [OF steady_OriginalProtection] steady_allM_step [OF steady_ImageRangeProtection]
        steady_allM_step [OF steady_ImageSectionMatches] steady_allM_Nil) simp_all
  have matches: "steady wok observed v (\<lambda>b. b \<longrightarrow> sha256 bs = rp_originalDigest profile \<and> original_windows profile bs)
      (allM [hash_is hash bs (rp_originalDigest profile), pureM (original_windows profile bs)])" for bs
    by (intro steady_allM_step [OF steady_hash_is] steady_allM_step [OF steady_pure_eq] steady_allM_Nil) auto
  show ?thesis unfolding Qualify_def Let_def
    by (intro steady_if steady_return steady_check [OF steady_any [OF steady_gate_ready]] steady_check [OF image]
        steady_bind [OF steady_ReadImageRange] steady_case_option steady_check [OF matches]
        steady_check [OF steady_any [OF steady_read_equals]] steady_check [OF steady_hash_is]
        steady_conseq [OF steady_qualify_identity [OF assms]])
      (auto simp: function_qualified_def)
qed

text \<open>The whole run, from the observation \<open>v0\<close>.\<close>

lemma triple_RunReconFix:
  "triple wok observed (\<lambda>v. v = v0) (RunReconFix threadId context startup profile mode hostDigest rops hash)
    (\<lambda>r v. recon_safe sha256 (hostModule context) profile mode r v0 v)"
proof (cases "ops_present rops \<and> ProfileValid profile startup")
  case False
  then show ?thesis
    by (auto simp: RunReconFix_def recon_safe_def recon_result_def intro!: triple_return)
next
  case True
  let ?base = "hostModule context"
  let ?Q = "\<lambda>r v. recon_safe sha256 ?base profile mode r v0 v"
  have refused: "triple wok observed (\<lambda>v. v = v0)
      (do { error \<leftarrow> get_error; State_Monad.return (recon_result Out_Disabled reason False error) }) ?Q" for reason
    by (intro triple_bind [OF triple_get_error] triple_return) (auto simp: recon_safe_def recon_result_def)
  have correct: "triple wok observed (\<lambda>v. v = v0 \<and> function_qualified sha256 ?base profile original v) (do {
      ending \<leftarrow> Correct threadId context startup profile original (corrected profile original) rops;
      case ending of
        Corr_Active \<Rightarrow> State_Monad.return (recon_result Out_Active Fix_None True 0)
      | Corr_Refused \<Rightarrow> do {
          error \<leftarrow> get_error; State_Monad.return (recon_result Out_Disabled Fix_ProtectFailed True error) }
      | Corr_Failed failure attempted \<Rightarrow> Unwind ?base startup profile original rops failure attempted }) ?Q"
    if active: "mode \<noteq> Mode_Passive" for original
  proof (cases "function_qualified sha256 ?base profile original v0")
    case q: True
    show ?thesis
    proof (rule triple_True, rule triple_bind [OF triple_Correct])
      show "ops_present rops" using True ..
      fix ending
      show "triple wok observed (\<lambda>v. (ending = Corr_Active \<longrightarrow> code_is ?base profile (corrected profile original) v \<and>
           code_executable ?base profile v \<and> constant_is ?base profile v) \<and>
         (ending = Corr_Refused \<longrightarrow> code_is ?base profile original v \<and> code_executable ?base profile v))
       (case ending of
          Corr_Active \<Rightarrow> State_Monad.return (recon_result Out_Active Fix_None True 0)
        | Corr_Refused \<Rightarrow> do {
            error \<leftarrow> get_error; State_Monad.return (recon_result Out_Disabled Fix_ProtectFailed True error) }
        | Corr_Failed failure attempted \<Rightarrow> Unwind ?base startup profile original rops failure attempted) ?Q"
      proof (cases ending)
        case Corr_Active
        then show ?thesis using active q
          by (auto simp: recon_safe_def recon_result_def intro!: triple_return)
      next
        case Corr_Refused
        then show ?thesis using active q
          by (simp, intro triple_bind [OF triple_get_error] triple_return) (auto simp: recon_safe_def recon_result_def)
      next
        case (Corr_Failed failure attempted)
        then show ?thesis using active q True
          by simp (rule triple_conseq [OF triple_Unwind], auto simp: recon_safe_def)
      qed
    qed
  qed (auto simp: triple_def)
  have decided: "triple wok observed (\<lambda>v. v = v0 \<and> (\<forall>original. q = Inr original \<longrightarrow>
        function_qualified sha256 ?base profile original v)) (case q of
      Inl reason \<Rightarrow> do { error \<leftarrow> get_error; State_Monad.return (recon_result Out_Disabled reason False error) }
    | Inr original \<Rightarrow>
        if mode = Mode_Passive then State_Monad.return (recon_result Out_Passive Fix_None True 0)
        else do {
          ending \<leftarrow> Correct threadId context startup profile original (corrected profile original) rops;
          case ending of
            Corr_Active \<Rightarrow> State_Monad.return (recon_result Out_Active Fix_None True 0)
          | Corr_Refused \<Rightarrow> do {
              error \<leftarrow> get_error; State_Monad.return (recon_result Out_Disabled Fix_ProtectFailed True error) }
          | Corr_Failed failure attempted \<Rightarrow> Unwind ?base startup profile original rops failure attempted }) ?Q" for q
  proof (cases q)
    case (Inl reason)
    with refused show ?thesis by simp
  next
    case (Inr original)
    show ?thesis
    proof (cases "mode = Mode_Passive")
      case True
      then show ?thesis by (auto simp: Inr recon_safe_def recon_result_def intro!: triple_return)
    next
      case False
      with correct [OF False, of original] show ?thesis by (simp add: Inr)
    qed
  qed
  have qualify: "triple wok observed (\<lambda>v. v = v0) (Qualify threadId context startup profile hostDigest rops hash)
      (\<lambda>q v. v = v0 \<and> (\<forall>original. q = Inr original \<longrightarrow> function_qualified sha256 ?base profile original v))"
    using True by (intro triple_steady steady_Qualify) simp
  show ?thesis unfolding RunReconFix_def
    using True by (simp only: not_not de_Morgan_conj simp_thms if_False)
      (intro triple_local_error triple_bind [OF qualify] decided)
qed

end

section \<open>The operating system of the production operations\<close>

text \<open>
  A machine: a process, the system calls that write it, the lease on the host file and the
  platform's digest.  It is honest when reads stay truthful whatever was written and the digest
  is the function \<open>sha256\<close>; nothing says that a call succeeds or does what was asked.
\<close>

record Machine =
  mc_process :: Process
  mc_protect :: "nat \<Rightarrow> nat \<Rightarrow> nat \<Rightarrow> Process \<Rightarrow> (nat + nat) \<times> Process"
  mc_exchange :: "nat \<Rightarrow> nat \<Rightarrow> Process \<Rightarrow> Process"
  mc_flush :: "nat \<Rightarrow> nat \<Rightarrow> Process \<Rightarrow> nat option"
  mc_lease :: "Process \<Rightarrow> FixReason \<times> nat"
  mc_digest :: "byte list \<Rightarrow> digest + nat"

definition honest :: "(byte list \<Rightarrow> digest) \<Rightarrow> Machine \<Rightarrow> bool" where
  "honest sha256 m \<longleftrightarrow> truthful (mc_process m) \<and>
     (\<forall>a n prot p. truthful p \<longrightarrow> truthful (snd (mc_protect m a n prot p))) \<and>
     (\<forall>a v p. truthful p \<longrightarrow> truthful (mc_exchange m a v p)) \<and>
     (\<forall>bs d. mc_digest m bs = Inl d \<longrightarrow> d = sha256 bs)"

definition machine_ops :: "Machine ReconOps" where
  "machine_ops = ProductionReconOps (\<lambda>a m. os_query (mc_process m) a) (\<lambda>a n m. os_read (mc_process m) a n)
     (\<lambda>a n prot m. case mc_protect m a n prot (mc_process m) of (r, p) \<Rightarrow> (r, m\<lparr>mc_process := p\<rparr>))
     (\<lambda>a v m. m\<lparr>mc_process := mc_exchange m a v (mc_process m)\<rparr>)
     (\<lambda>a n m. (mc_flush m a n (mc_process m), m))
     (Some (State (\<lambda>(m, _). case mc_lease m (mc_process m) of (r, e) \<Rightarrow> (r, (m, e)))))"

definition machine_hash :: "Machine hasher" where
  "machine_hash bs = State (\<lambda>(m, _). case mc_digest m bs of
     Inr failure \<Rightarrow> (None, (m, failure)) | Inl d \<Rightarrow> (Some d, (m, 0)))"

abbreviation machine_bytes :: "Machine \<Rightarrow> nat \<Rightarrow> byte" where
  "machine_bytes m \<equiv> os_content (mc_process m)"

abbreviation machine_pages :: "Machine \<Rightarrow> nat \<Rightarrow> attributes" where
  "machine_pages m \<equiv> os_page (mc_process m)"

lemmas machine_defs = machine_ops_def ProductionReconOps_def ProductionMemoryOps_def Protect_def WriteDword_def
  Flush_def Stable_def machine_hash_def

interpretation machine: recon_provider machine_ops "honest sha256" machine_bytes machine_pages machine_hash sha256
  for sha256
proof unfold_locales
  fix p :: "nat \<Rightarrow> nat \<Rightarrow> nat \<Rightarrow> (Machine, nat option) prog" and w a n prot e r w' e'
  assume p: "ro_protect machine_ops = Some p" and w: "honest sha256 w"
    and run: "run_state (p a n prot) (w, e) = (r, (w', e'))"
  obtain x q where q: "mc_protect w a n prot (mc_process w) = (x, q)" by fastforce
  from w have "truthful (snd (mc_protect w a n prot (mc_process w)))" by (simp add: honest_def)
  with p w run q show "honest sha256 w'" by (cases x) (auto simp: machine_defs honest_def)
qed (auto simp: machine_defs honest_def truthful_def split: sum.splits if_splits option.splits prod.splits)

text \<open>
  C1: The function is never left half patched.  On an honest machine, whatever the system calls
  do and however the active run ends short of the fatal outcome: a refused or passive run
  changed nothing; an active one qualified the pinned function, by digest and bytes, and left
  exactly its corrected bytes, whose digest is the pinned one, on pages that are executable and
  not writable, next to the pinned constant; a rolled back one left exactly the original bytes
  on such pages.
\<close>

theorem recon_never_half_patched:
  assumes "honest sha256 m"
    and "run_state (RunReconFix threadId context startup profile mode hostDigest machine_ops machine_hash) (m, e) =
      (r, (m', e'))"
  shows "recon_safe sha256 (hostModule context) profile mode r
    (machine_bytes m, machine_pages m) (machine_bytes m', machine_pages m')"
  using tripleD [OF machine.triple_RunReconFix assms(1) _ assms(2)] by (auto simp: machine.observed_def)

text \<open>
  C33: A passive run calls no operation that writes: it is the same program whatever the
  protection change, the store and the cache flush are.
\<close>

theorem passive_never_writes:
  "RunReconFix threadId context startup profile Mode_Passive hostDigest
     (ops\<lparr>ro_protect := Some p, ro_writeDword := Some w, ro_flush := Some f\<rparr>) hash =
   RunReconFix threadId context startup profile Mode_Passive hostDigest
     (ops\<lparr>ro_protect := Some p', ro_writeDword := Some w', ro_flush := Some f'\<rparr>) hash"
proof -
  have same: "Qualify threadId context startup profile hostDigest
      (ops\<lparr>ro_protect := Some p, ro_writeDword := Some w, ro_flush := Some f\<rparr>) hash =
    Qualify threadId context startup profile hostDigest ops hash" for p w f
  proof -
    have sel: "ro_memory (ops\<lparr>ro_protect := Some p, ro_writeDword := Some w, ro_flush := Some f\<rparr>) = ro_memory ops"
      "ro_validateHostIdentity (ops\<lparr>ro_protect := Some p, ro_writeDword := Some w, ro_flush := Some f\<rparr>) =
        ro_validateHostIdentity ops" by simp_all
    show ?thesis
      unfolding Qualify_def qualify_identity_def gate_ready_def image_protections_def OriginalProtection_def
        BytesEqual_def ConstantMatches_def sel ..
  qed
  show ?thesis by (simp add: RunReconFix_def ops_present_def same cong: sum.case_cong)
qed

section \<open>A run that corrects the function\<close>

text \<open>The sample image as a machine: code is patched in place, and each call succeeds.\<close>

definition store_dword :: "nat \<Rightarrow> nat \<Rightarrow> (nat \<Rightarrow> byte) \<Rightarrow> nat \<Rightarrow> byte" where
  "store_dword a v c x = (if a \<le> x \<and> x < a + 4 then le_bytes 4 v ! (x - a) else c x)"

definition sample_machine :: "nat \<Rightarrow> (nat \<Rightarrow> byte) \<Rightarrow> Machine" where
  "sample_machine prot c =
    \<lparr>mc_process = sample_process_at prot c,
     mc_protect = (\<lambda>a n new p. (Inl (snd (snd (snd (os_page p a)))), sample_process_at new (os_content p))),
     mc_exchange = (\<lambda>a v p. sample_process_at (snd (snd (snd (os_page p a)))) (store_dword a v (os_content p))),
     mc_flush = (\<lambda>_ _ _. None),
     mc_lease = (\<lambda>_. (Fix_None, 0)),
     mc_digest = (\<lambda>bs. Inl [word_of_nat (length bs)])\<rparr>"

definition sample_recon :: ReconProfile where
  "sample_recon =
    \<lparr>rp_functionRva = 0x400, rp_functionSize = 16, rp_loadRva = 0x400, rp_operandRva = 0x404,
     rp_constantRva = 0x500, rp_oldDisplacement = 0, rp_newDisplacement = 0xF8,
     rp_originalWindow = [0xC3, 0, 0, 0, 0, 0, 0, 0, 0, 0, 0, 0],
     rp_constantBytes = [0, 4, 1, 0, 0, 0, 0, 0, 0, 0, 0, 0, 0, 0, 0, 0],
     rp_hostDigest = [1], rp_originalDigest = [16], rp_correctedDigest = [16]\<rparr>"

lemma sample_machine_honest: "honest (\<lambda>bs. [word_of_nat (length bs)]) (sample_machine prot c)"
  by (simp add: honest_def sample_machine_def truthful_sample_at)

lemma answers_machine: "answers (ro_memory machine_ops) (sample_machine prot c) (sample_region_at prot) c"
  by (simp add: answers_def machine_ops_def ProductionReconOps_def ProductionMemoryOps_def)
    (simp add: sample_machine_def sample_process_at_def)

lemma machine_Regions:
  assumes "Readable prot" and "sample_region_at prot (65536 + rva) = Some r" and "n \<noteq> 0" and "rva + n \<le> 0x700"
    and "mr_base r \<le> 65536 + rva" and "65536 + rva + n \<le> mr_base r + mr_size r"
  shows "exact = 0 \<or> exact = mr_protect r \<Longrightarrow>
      run_state (Regions (ro_memory machine_ops) 65536 0x700 rva n exact) (sample_machine prot c, e)
        = (True, (sample_machine prot c, 0))"
    and "run_state (ReadImageRange (ro_memory machine_ops) 65536 0x700 rva n) (sample_machine prot c, e)
        = (Some (bytes_at c (65536 + rva) n), (sample_machine prot c, 0))"
  using sample_Regions [OF answers_machine assms] sample_read [OF answers_machine assms] by simp_all

lemma machine_protect:
  assumes "sample_region_at prot a = Some r"
  shows "run_state (do_protect machine_ops a n new) (sample_machine prot c, e)
      = (Some (mr_protect r), (sample_machine new c, 0))"
  using assms by (simp add: do_protect_def machine_defs)
    (simp add: sample_machine_def sample_process_at_def region_attributes_def)

lemma machine_exchange:
  assumes "sample_region_at prot a = Some r"
  shows "run_state (the (ro_writeDword machine_ops) a v) (sample_machine prot c, e)
      = (True, (sample_machine (mr_protect r) (store_dword a v c), 0))"
  using assms by (simp add: machine_defs)
    (simp add: sample_machine_def sample_process_at_def region_attributes_def)

lemma machine_rest:
  "run_state (the (ro_flush machine_ops) a n) (sample_machine prot c, e) = (True, (sample_machine prot c, 0))"
  "run_state (the (ro_validateHostIdentity machine_ops)) (sample_machine prot c, e)
    = (Fix_None, (sample_machine prot c, 0))"
  "run_state (machine_hash bs) (sample_machine prot c, e) = (Some [word_of_nat (length bs)], (sample_machine prot c, 0))"
  by (simp_all add: machine_defs) (simp_all add: sample_machine_def)

lemma readable_code: "Readable PAGE_EXECUTE_READ" "Readable PAGE_EXECUTE_READWRITE"
  by (simp_all add: Readable_def)

lemma machine_reads:
  assumes "Readable prot"
  shows "run_state (ReadImageRange (ro_memory machine_ops) 65536 0x700 0x400 16) (sample_machine prot c, e)
        = (Some (bytes_at c 66560 16), (sample_machine prot c, 0))"
    and "run_state (ReadImageRange (ro_memory machine_ops) 65536 0x700 0x500 16) (sample_machine prot c, e)
        = (Some (bytes_at c 66816 16), (sample_machine prot c, 0))"
    and "run_state (ReadImageRange (ro_memory machine_ops) 65536 0x700 0x600 4) (sample_machine prot c, e)
        = (Some (bytes_at c 67072 4), (sample_machine prot c, 0))"
    and "run_state (Regions (ro_memory machine_ops) 65536 0x700 0x500 16 PAGE_READONLY) (sample_machine prot c, e)
        = (True, (sample_machine prot c, 0))"
    and "run_state (Regions (ro_memory machine_ops) 65536 0x700 0x400 16 prot) (sample_machine prot c, e)
        = (True, (sample_machine prot c, 0))"
    and "run_state (Regions (ro_memory machine_ops) 65536 0x700 0x404 4 prot) (sample_machine prot c, e)
        = (True, (sample_machine prot c, 0))"
  using machine_Regions [OF assms, of "0x400" _ 16] machine_Regions [OF assms, of "0x500" _ 16]
    machine_Regions [OF assms, of "0x600" _ 4] machine_Regions [OF assms, of "0x404" _ 4]
  by (simp_all add: sample_region_at_def)

definition sample_original :: "byte list" where
  "sample_original = [0xC3, 0, 0, 0, 0, 0, 0, 0, 0, 0, 0, 0, 0, 0, 0, 0]"

definition sample_patched :: "nat \<Rightarrow> byte" where
  "sample_patched = store_dword 66564 0xF8 sample_content"

lemma sample_bytes:
  "bytes_at sample_content 66560 16 = sample_original"
  "bytes_at sample_content 66816 16 = [0, 4, 1, 0, 0, 0, 0, 0, 0, 0, 0, 0, 0, 0, 0, 0]"
  "bytes_at sample_content 67072 4 = [1, 0, 0, 0]"
  by (simp_all add: bytes_at_def sample_content_def sample_original_def upt_rec)

lemma sample_operand: "le_bytes 4 0xF8 = [0xF8, 0, 0, 0]" "le_bytes 4 0 = [0, 0, 0, 0]"
  by code_simp+

lemma corrected_sample: "corrected sample_recon sample_original = [0xC3, 0, 0, 0, 0xF8, 0, 0, 0, 0, 0, 0, 0, 0, 0, 0, 0]"
  by code_simp

lemma patched_bytes:
  "bytes_at sample_patched 66560 16 = corrected sample_recon sample_original"
  "bytes_at sample_patched 66816 16 = [0, 4, 1, 0, 0, 0, 0, 0, 0, 0, 0, 0, 0, 0, 0, 0]"
  unfolding corrected_sample
  by (simp_all add: bytes_at_def sample_content_def sample_patched_def store_dword_def upt_rec sample_operand)

lemma sample_windows: "original_windows sample_recon sample_original"
  by code_simp

lemma sample_recon_sel:
  "rp_functionRva sample_recon = 0x400" "rp_functionSize sample_recon = 16" "rp_operandRva sample_recon = 0x404"
  "rp_constantRva sample_recon = 0x500" "rp_newDisplacement sample_recon = 0xF8"
  "rp_constantBytes sample_recon = [0, 4, 1, 0, 0, 0, 0, 0, 0, 0, 0, 0, 0, 0, 0, 0]"
  "rp_hostDigest sample_recon = [1]" "rp_originalDigest sample_recon = [16]" "rp_correctedDigest sample_recon = [16]"
  by (simp_all add: sample_recon_def)

lemma page_code: "PAGE_EXECUTE_READ > 0" "PAGE_EXECUTE_READWRITE > 0" "PAGE_READONLY > 0"
  by (simp_all add: PAGE_EXECUTE_READ_def PAGE_EXECUTE_READWRITE_def PAGE_READONLY_def)

lemma machine_tests:
  "run_state (OriginalProtection 65536 sample_profile sample_recon machine_ops) (sample_machine PAGE_EXECUTE_READ c, e)
    = (True, (sample_machine PAGE_EXECUTE_READ c, 0))"
  "run_state (WritableCode 65536 sample_profile sample_recon machine_ops) (sample_machine PAGE_EXECUTE_READWRITE c, e)
    = (True, (sample_machine PAGE_EXECUTE_READWRITE c, 0))"
  "Readable prot \<Longrightarrow>
    run_state (BytesEqual 65536 sample_profile sample_recon bs machine_ops) (sample_machine prot c, e)
      = (bytes_at c 66560 16 = bs, (sample_machine prot c, 0))"
  "Readable prot \<Longrightarrow>
    run_state (ConstantMatches 65536 sample_profile sample_recon machine_ops) (sample_machine prot c, e)
      = (bytes_at c 66816 16 = rp_constantBytes sample_recon, (sample_machine prot c, 0))"
  by (simp_all add: OriginalProtection_def WritableCode_def BytesEqual_def ConstantMatches_def read_equals_def
    ImageRangeProtection_def bind_def sample_sel sample_recon_sel machine_reads readable_code page_code)

lemma machine_gate:
  "run_state (gate_ready 7 sample_context sample_profile machine_ops) (sample_machine PAGE_EXECUTE_READ sample_content, e)
    = (True, (sample_machine PAGE_EXECUTE_READ sample_content, e))"
  by (simp add: gate_ready_def bind_def sample_ready [OF answers_machine readable_code(1)])

lemma sample_code_sections:
  "sections_loop 0x700 0x400 16 (or IMAGE_SCN_MEM_READ IMAGE_SCN_MEM_EXECUTE)
      (or IMAGE_SCN_MEM_WRITE IMAGE_SCN_MEM_DISCARDABLE) (section_headers 3 (bytes_at sample_content 65864 120)) 0 = Some 1"
  "sections_loop 0x700 0x500 16 IMAGE_SCN_MEM_READ
      (or (or IMAGE_SCN_MEM_WRITE IMAGE_SCN_MEM_EXECUTE) IMAGE_SCN_MEM_DISCARDABLE)
      (section_headers 3 (bytes_at sample_content 65864 120)) 0 = Some 1"
  unfolding sample_table
  by (simp_all add: section_headers_def sizeof_section_def upt_rec section_bad_def section_contains_def
      section_allows_def section_VirtualAddress_def section_VirtualSize_def section_Characteristics_def
      sample_fields IMAGE_SCN_MEM_READ_def IMAGE_SCN_MEM_WRITE_def IMAGE_SCN_MEM_EXECUTE_def IMAGE_SCN_MEM_DISCARDABLE_def)

lemma machine_image:
  "run_state (image_protections 65536 sample_profile sample_recon machine_ops)
      (sample_machine PAGE_EXECUTE_READ sample_content, e)
    = (True, (sample_machine PAGE_EXECUTE_READ sample_content, 0))"
  by (simp add: image_protections_def bind_def machine_tests ImageRangeProtection_def sample_sel sample_recon_sel
    sample_sections [OF answers_machine readable_code(1)] sample_code_sections machine_reads readable_code page_code
    del: One_nat_def)

lemma machine_qualifies:
  "run_state (Qualify 7 sample_context sample_profile sample_recon [1] machine_ops machine_hash)
      (sample_machine PAGE_EXECUTE_READ sample_content, e)
    = (Inr sample_original, (sample_machine PAGE_EXECUTE_READ sample_content, 0))"
  by (simp add: Qualify_def qualify_identity_def check_def bind_def machine_gate machine_image machine_tests machine_rest
    machine_reads readable_code sample_sel sample_recon_sel sample_bytes hash_is_def read_equals_def sample_windows
    corrected_sample) (simp add: sample_original_def)

lemma machine_operand:
  "sample_region_at prot 66564 = Some \<lparr>mr_base = 66560, mr_allocationBase = 65536, mr_size = 0x100,
     mr_state = MEM_COMMIT, mr_type = MEM_IMAGE, mr_protect = prot\<rparr>"
  by (simp add: sample_region_at_def)

lemma machine_protects:
  "run_state (protects machine_ops 66564 4 new) (sample_machine prot c, e) = (True, (sample_machine new c, 0))"
  by (simp add: protects_def bind_def machine_protect [OF machine_operand])

lemma machine_corrects:
  "run_state (Correct 7 sample_context sample_profile sample_recon sample_original
      (corrected sample_recon sample_original) machine_ops) (sample_machine PAGE_EXECUTE_READ sample_content, e)
    = (Corr_Active, (sample_machine PAGE_EXECUTE_READ sample_patched, 0))"
  by (simp add: Correct_def attempt_correction_def verify_correction_def check_def bind_def machine_tests machine_rest
    machine_reads machine_protects machine_protect [OF machine_operand] machine_exchange [OF machine_operand]
    readable_code sample_sel sample_recon_sel sample_bytes patched_bytes sample_patched_def [symmetric] read_equals_def)

lemma machine_run:
  "run_state (RunReconFix 7 sample_context sample_profile sample_recon Mode_Active [1] machine_ops machine_hash)
      (sample_machine PAGE_EXECUTE_READ sample_content, 0)
    = (recon_result Out_Active Fix_None True 0, (sample_machine PAGE_EXECUTE_READ sample_patched, 0))"
proof -
  have "ops_present machine_ops" by (simp add: ops_present_def machine_ops_def ProductionReconOps_def)
  moreover have "ProfileValid sample_recon sample_profile"
    by (simp add: ProfileValid_def sample_recon_def sample_profile_def kReconFunctionCapacity_def signed32_def)
  ultimately show ?thesis
    by (simp add: RunReconFix_def local_error_def bind_def sample_sel machine_qualifies machine_corrects)
qed

lemma recon_never_half_patched_witness:
  "run_state (RunReconFix 7 sample_context sample_profile sample_recon Mode_Active [1] machine_ops machine_hash)
      (sample_machine PAGE_EXECUTE_READ sample_content, 0)
    = (recon_result Out_Active Fix_None True 0, (sample_machine PAGE_EXECUTE_READ sample_patched, 0)) \<and>
   recon_safe (\<lambda>bs. [word_of_nat (length bs)]) 65536 sample_recon Mode_Active (recon_result Out_Active Fix_None True 0)
     (sample_content, machine_pages (sample_machine PAGE_EXECUTE_READ sample_content))
     (sample_patched, machine_pages (sample_machine PAGE_EXECUTE_READ sample_patched))"
  using recon_never_half_patched [OF sample_machine_honest machine_run] machine_run
  by (simp add: sample_sel) (simp add: sample_machine_def sample_process_at_def)

end
