(* ===== verification/HostHash.thy ===== *)
theory HostHash
  imports Recon
begin

text \<open>
  The digest of the host file (\<open>src/companion/sha256.cpp\<close>) and the lease that keeps the file
  identified while the digest is relied on (\<open>src/companion/host_hash.cpp\<close>).

  A step is a state transformer on a world.  A failing call returns its error; the platform's
  digest (CNG) is a record of calls, each with its NTSTATUS.  The read loop is a partial
  function whose \<open>None\<close> is a loop that does not end.
\<close>

section \<open>The platform digest\<close>

definition ERROR_GEN_FAILURE :: nat where "ERROR_GEN_FAILURE = 31"
definition ERROR_NOT_ENOUGH_MEMORY :: nat where "ERROR_NOT_ENOUGH_MEMORY = 8"
definition ERROR_INVALID_DATA :: nat where "ERROR_INVALID_DATA = 13"
definition ERROR_INVALID_HANDLE :: nat where "ERROR_INVALID_HANDLE = 6"
definition ERROR_INVALID_PARAMETER :: nat where "ERROR_INVALID_PARAMETER = 87"
definition ERROR_READ_FAULT :: nat where "ERROR_READ_FAULT = 30"
definition ERROR_SHARING_VIOLATION :: nat where "ERROR_SHARING_VIOLATION = 32"
definition ERROR_OPEN_FAILED :: nat where "ERROR_OPEN_FAILED = 110"
definition ERROR_ARITHMETIC_OVERFLOW :: nat where "ERROR_ARITHMETIC_OVERFLOW = 534"
definition ERROR_FILE_INVALID :: nat where "ERROR_FILE_INVALID = 1006"
definition ERROR_TIMEOUT :: nat where "ERROR_TIMEOUT = 1460"

lemmas error_codes = ERROR_GEN_FAILURE_def ERROR_NOT_ENOUGH_MEMORY_def ERROR_INVALID_DATA_def
  ERROR_INVALID_HANDLE_def ERROR_INVALID_PARAMETER_def ERROR_READ_FAULT_def ERROR_SHARING_VIOLATION_def
  ERROR_OPEN_FAILED_def ERROR_ARITHMETIC_OVERFLOW_def ERROR_FILE_INVALID_def ERROR_TIMEOUT_def

definition kReadBufferSize :: nat where "kReadBufferSize = 64 * 1024"

text \<open>An NTSTATUS is a signed 32-bit integer.\<close>

type_synonym status = "32 word"

definition failed_status :: "status \<Rightarrow> bool" where
  "failed_status status \<longleftrightarrow> sint status < 0"

definition StatusError :: "status \<Rightarrow> nat" where
  "StatusError status = (if status = 0 then ERROR_GEN_FAILURE else unat status)"

text \<open>A property query gives its status, the value and the number of bytes received.\<close>

record 'w Cng =
  cng_open :: "('w, status) state"
  cng_objectLength :: "('w, status \<times> nat \<times> nat) state"
  cng_hashLength :: "('w, status \<times> nat \<times> nat) state"
  cng_alloc :: "nat \<Rightarrow> ('w, bool) state"
  cng_create :: "('w, status) state"
  cng_update :: "byte list \<Rightarrow> ('w, status) state"
  cng_finish :: "('w, status \<times> digest) state"

definition hash_begin :: "'w Cng \<Rightarrow> ('w, nat) state" where
  "hash_begin cng = do {
     status \<leftarrow> cng_open cng;
     if failed_status status then State_Monad.return (StatusError status) else do {
     (status, objectLength, received) \<leftarrow> cng_objectLength cng;
     if failed_status status then State_Monad.return (StatusError status)
     else if received \<noteq> 4 \<or> objectLength = 0 then State_Monad.return ERROR_INVALID_DATA else do {
     (status, hashLength, received) \<leftarrow> cng_hashLength cng;
     if failed_status status then State_Monad.return (StatusError status)
     else if received \<noteq> 4 \<or> hashLength \<noteq> 32 then State_Monad.return ERROR_INVALID_DATA else do {
     allocated \<leftarrow> cng_alloc cng objectLength;
     if \<not> allocated then State_Monad.return ERROR_NOT_ENOUGH_MEMORY else do {
     status \<leftarrow> cng_create cng;
     State_Monad.return (if failed_status status then StatusError status else 0) } } } } }"

definition hash_update :: "'w Cng \<Rightarrow> byte list \<Rightarrow> ('w, nat) state" where
  "hash_update cng bytes = do {
     status \<leftarrow> cng_update cng bytes;
     State_Monad.return (if failed_status status then StatusError status else 0) }"

definition hash_finish :: "'w Cng \<Rightarrow> ('w, nat \<times> digest) state" where
  "hash_finish cng = do {
     (status, d) \<leftarrow> cng_finish cng;
     State_Monad.return (if failed_status status then StatusError status else 0, d) }"

definition digest_zero :: digest where "digest_zero = replicate 32 0"

text \<open>\<open>bytes = None\<close> is a null pointer with a nonzero size; the second result is the error.\<close>

definition HashBytesSha256 :: "'w Cng \<Rightarrow> byte list option \<Rightarrow> ('w, digest option \<times> nat) state" where
  "HashBytesSha256 cng bytes =
     (if bytes = None \<or> length (the bytes) > u32_max then State_Monad.return (None, ERROR_INVALID_PARAMETER)
      else do {
        result \<leftarrow> hash_begin cng;
        result \<leftarrow> (if result = 0 \<and> the bytes \<noteq> [] then hash_update cng (the bytes) else State_Monad.return result);
        if result \<noteq> 0 then State_Monad.return (None, result)
        else do {
          (result, completed) \<leftarrow> hash_finish cng;
          State_Monad.return (if result \<noteq> 0 then None else Some completed, result) } })"

section \<open>The digest of a file\<close>

record FileHashResult =
  hr_digest :: digest
  hr_fileSize :: nat
  hr_error :: nat
  hr_digestValid :: bool
  hr_timedOut :: bool

text \<open>A read gives success, the count, the first \<open>count\<close> bytes of the buffer, and an error.\<close>

record 'w HashReadOps =
  ho_ticks :: "('w, nat) state option"
  ho_read :: "(nat \<Rightarrow> nat \<Rightarrow> ('w, bool \<times> nat \<times> byte list \<times> nat) state) option"

text \<open>\<open>expired\<close>: past the deadline the result becomes a timeout.\<close>

definition expired :: "'w HashReadOps \<Rightarrow> nat \<Rightarrow> FileHashResult \<Rightarrow> ('w, bool \<times> FileHashResult) state" where
  "expired ops deadline result = do {
     now \<leftarrow> the (ho_ticks ops);
     State_Monad.return (if now < deadline then (False, result)
       else (True, result\<lparr>hr_error := ERROR_TIMEOUT, hr_timedOut := True\<rparr>)) }"

text \<open>One turn of the read loop; the flag says whether it goes on.\<close>

definition hash_turn ::
  "'w Cng \<Rightarrow> 'w HashReadOps \<Rightarrow> nat \<Rightarrow> nat \<Rightarrow> FileHashResult \<Rightarrow> ('w, bool \<times> FileHashResult) state" where
  "hash_turn cng ops file deadline result = do {
     (late, result) \<leftarrow> expired ops deadline result;
     if late then State_Monad.return (False, result) else do {
     (ok, count, bytes, error) \<leftarrow> the (ho_read ops) file kReadBufferSize;
     (late, result) \<leftarrow> expired ops deadline result;
     if late then State_Monad.return (False, result)
     else if \<not> ok \<or> count > kReadBufferSize
       then State_Monad.return (False, result\<lparr>hr_error := (if error = 0 then ERROR_READ_FAULT else error)\<rparr>)
     else if count = 0 then do {
       (failure, completed) \<leftarrow> hash_finish cng;
       (late, result) \<leftarrow> expired ops deadline (result\<lparr>hr_error := failure\<rparr>);
       State_Monad.return (False, if \<not> late \<and> hr_error result = 0
         then result\<lparr>hr_digest := completed, hr_digestValid := True\<rparr> else result) }
     else if hr_fileSize result > u64_max - count
       then State_Monad.return (False, result\<lparr>hr_error := ERROR_ARITHMETIC_OVERFLOW\<rparr>)
     else do {
       failure \<leftarrow> hash_update cng bytes;
       State_Monad.return (failure = 0, result\<lparr>hr_fileSize := hr_fileSize result + count, hr_error := failure\<rparr>) } } }"

partial_function (option) hash_loop ::
  "'w Cng \<Rightarrow> 'w HashReadOps \<Rightarrow> nat \<Rightarrow> nat \<Rightarrow> FileHashResult \<Rightarrow> 'w \<Rightarrow> (FileHashResult \<times> 'w) option" where
  "hash_loop cng ops file deadline result w =
     (case run_state (hash_turn cng ops file deadline result) w of
        ((again, result), w) \<Rightarrow> if again then hash_loop cng ops file deadline result w else Some (result, w))"

definition hash_result :: "nat \<Rightarrow> FileHashResult" where
  "hash_result error = \<lparr>hr_digest = digest_zero, hr_fileSize = 0, hr_error = error, hr_digestValid = False,
     hr_timedOut = False\<rparr>"

text \<open>\<open>file = 0\<close> is a null or invalid handle; \<open>alloc\<close> is the allocation of the read buffer.\<close>

definition HashHandleSha256 ::
  "'w Cng \<Rightarrow> ('w, bool) state \<Rightarrow> 'w HashReadOps \<Rightarrow> nat \<Rightarrow> nat \<Rightarrow> 'w \<Rightarrow> (FileHashResult \<times> 'w) option" where
  "HashHandleSha256 cng alloc ops file deadline w =
     (let result = hash_result ERROR_INVALID_PARAMETER in
      if file = 0 \<or> ho_ticks ops = None \<or> ho_read ops = None then Some (result, w)
      else case run_state (expired ops deadline result) w of
        ((late, result), w) \<Rightarrow>
          if late then Some (result, w)
          else case run_state (hash_begin cng) w of
            (failure, w) \<Rightarrow>
              let result = result\<lparr>hr_error := failure\<rparr> in
              if failure \<noteq> 0 then Some (result, w)
              else case run_state alloc w of
                (allocated, w) \<Rightarrow>
                  if \<not> allocated then Some (result\<lparr>hr_error := ERROR_NOT_ENOUGH_MEMORY\<rparr>, w)
                  else hash_loop cng ops file deadline result w)"

section \<open>The lease on the host file\<close>

definition kHostHashSoftBudgetMs :: nat where "kHostHashSoftBudgetMs = 10000"

record FileInformation =
  fi_volume :: nat
  fi_fileIndexHigh :: nat
  fi_fileIndexLow :: nat
  fi_fileSizeHigh :: nat
  fi_fileSizeLow :: nat
  fi_attributes :: nat
  fi_links :: nat
  fi_creation :: "nat \<times> nat"
  fi_lastWrite :: "nat \<times> nat"

definition SameIdentity :: "FileInformation \<Rightarrow> FileInformation \<Rightarrow> bool" where
  "SameIdentity a b \<longleftrightarrow>
     fi_volume a = fi_volume b \<and> fi_fileIndexHigh a = fi_fileIndexHigh b \<and> fi_fileIndexLow a = fi_fileIndexLow b \<and>
     fi_fileSizeHigh a = fi_fileSizeHigh b \<and> fi_fileSizeLow a = fi_fileSizeLow b \<and>
     fi_attributes a = fi_attributes b \<and> fi_links a = fi_links b \<and>
     fi_creation a = fi_creation b \<and> fi_lastWrite a = fi_lastWrite b"

text \<open>A handle is a number, 0 for the invalid one; metadata is the record or an error.\<close>

record 'w HostHashOps =
  hh_ticks :: "('w, nat) state option"
  hh_open :: "(nat list \<Rightarrow> ('w, nat \<times> nat) state) option"
  hh_metadata :: "(nat \<Rightarrow> ('w, FileInformation + nat) state) option"
  hh_read :: "(nat \<Rightarrow> nat \<Rightarrow> ('w, bool \<times> nat \<times> byte list \<times> nat) state) option"
  hh_close :: "(nat \<Rightarrow> ('w, unit) state) option"

record 'w HostHashLease =
  lease_file :: nat
  lease_initial :: FileInformation
  lease_ops :: "'w HostHashOps"

definition lease_valid :: "'w HostHashLease \<Rightarrow> bool" where
  "lease_valid lease \<longleftrightarrow> lease_file lease \<noteq> 0"

definition lease_fileSize :: "'w HostHashLease \<Rightarrow> nat" where
  "lease_fileSize lease = fi_fileSizeHigh (lease_initial lease) * 2 ^ 32 + fi_fileSizeLow (lease_initial lease)"

definition lease_Close :: "'w HostHashLease \<Rightarrow> ('w, 'w HostHashLease) state" where
  "lease_Close lease = do {
     _ \<leftarrow> (if lease_valid lease then the (hh_close (lease_ops lease)) (lease_file lease) else State_Monad.return ());
     State_Monad.return (lease\<lparr>lease_file := 0\<rparr>) }"

text \<open>Moving a lease into another closes the one and leaves the source without a handle.\<close>

definition lease_move :: "'w HostHashLease \<Rightarrow> 'w HostHashLease \<Rightarrow> ('w, 'w HostHashLease \<times> 'w HostHashLease) state" where
  "lease_move target source = do {
     _ \<leftarrow> lease_Close target;
     State_Monad.return (\<lparr>lease_file = lease_file source, lease_initial = lease_initial source,
       lease_ops = lease_ops source\<rparr>, source\<lparr>lease_file := 0\<rparr>) }"

definition ValidateStable :: "'w HostHashLease \<Rightarrow> ('w, FixReason \<times> nat) state" where
  "ValidateStable lease =
     (if \<not> lease_valid lease then State_Monad.return (Fix_HostIdentityChanged, ERROR_INVALID_HANDLE)
      else do {
        current \<leftarrow> the (hh_metadata (lease_ops lease)) (lease_file lease);
        case current of
          Inr failure \<Rightarrow> State_Monad.return (Fix_HostIdentityChanged,
            if failure = 0 then ERROR_INVALID_DATA else failure)
        | Inl current \<Rightarrow>
            if \<not> SameIdentity (lease_initial lease) current
            then State_Monad.return (Fix_HostIdentityChanged, ERROR_FILE_INVALID)
            else State_Monad.return (Fix_None, 0) })"

record HostHashResult =
  hs_hash :: FileHashResult
  hs_reason :: FixReason

definition hash_ops_present :: "'w HostHashOps \<Rightarrow> bool" where
  "hash_ops_present ops \<longleftrightarrow> hh_ticks ops \<noteq> None \<and> hh_open ops \<noteq> None \<and> hh_metadata ops \<noteq> None \<and>
     hh_read ops \<noteq> None \<and> hh_close ops \<noteq> None"

definition host_deadline :: "nat \<Rightarrow> nat" where
  "host_deadline started =
     (if started > u64_max - kHostHashSoftBudgetMs then u64_max else started + kHostHashSoftBudgetMs)"

definition with_file_size :: "'w HostHashLease \<Rightarrow> FileHashResult \<Rightarrow> FileHashResult" where
  "with_file_size lease hash = hash\<lparr>hr_fileSize := lease_fileSize lease\<rparr>"

text \<open>The checks after the digest: the same file, the size that was read, the deadline.\<close>

definition settle_hash ::
  "'w HostHashOps \<Rightarrow> 'w HostHashLease \<Rightarrow> nat \<Rightarrow> FileHashResult \<Rightarrow> ('w, HostHashResult) state" where
  "settle_hash ops lease deadline hash =
     (let hashedBytes = hr_fileSize hash; hash = with_file_size lease hash in
      if \<not> hr_digestValid hash
      then State_Monad.return \<lparr>hs_hash = hash,
        hs_reason = (if hr_timedOut hash then Fix_HostHashBudgetExceeded else Fix_HostHashFailed)\<rparr>
      else do {
        (reason, error) \<leftarrow> ValidateStable lease;
        let (reason, error) = (if reason = Fix_None \<and> hashedBytes \<noteq> lease_fileSize lease
          then (Fix_HostIdentityChanged, ERROR_FILE_INVALID) else (reason, error));
        late \<leftarrow> (if reason = Fix_None then do { now \<leftarrow> the (hh_ticks ops); State_Monad.return (now \<ge> deadline) }
                 else State_Monad.return False);
        State_Monad.return (
          if late then \<lparr>hs_hash = hash\<lparr>hr_timedOut := True, hr_error := ERROR_TIMEOUT, hr_digestValid := False,
              hr_digest := digest_zero\<rparr>, hs_reason = Fix_HostHashBudgetExceeded\<rparr>
          else if reason \<noteq> Fix_None then \<lparr>hs_hash = hash\<lparr>hr_error := error, hr_digestValid := False,
              hr_digest := digest_zero\<rparr>, hs_reason = reason\<rparr>
          else \<lparr>hs_hash = hash, hs_reason = Fix_None\<rparr>) })"

text \<open>\<open>path = None\<close> is a null path; a null lease is not modelled apart from a valid one's refusal.\<close>

definition AcquireHostHash ::
  "'w Cng \<Rightarrow> ('w, bool) state \<Rightarrow> nat list option \<Rightarrow> 'w HostHashLease option \<Rightarrow> 'w HostHashOps \<Rightarrow> 'w \<Rightarrow>
   ((HostHashResult \<times> 'w HostHashLease option) \<times> 'w) option" where
  "AcquireHostHash cng alloc path lease ops w =
     (let failed = (\<lambda>reason error lease w. Some ((\<lparr>hs_hash = hash_result error, hs_reason = reason\<rparr>, lease), w)) in
      if path = None \<or> the path = [] \<or> lease = None \<or> lease_valid (the lease) \<or> \<not> hash_ops_present ops
      then failed Fix_HostHashFailed ERROR_INVALID_PARAMETER lease w
      else case run_state (the (hh_ticks ops)) w of (started, w) \<Rightarrow>
        let deadline = host_deadline started in
        case run_state (the (hh_open ops) (the path)) w of ((file, error), w) \<Rightarrow>
          let lease = (the lease)\<lparr>lease_file := file, lease_ops := ops\<rparr> in
          if file = 0 then failed (if error = ERROR_SHARING_VIOLATION then Fix_HostOpenSharingViolation else Fix_HostOpenFailed)
            (if error = 0 then ERROR_OPEN_FAILED else error) (Some lease) w
          else case run_state (the (hh_metadata ops) file) w of
            (Inr error, w) \<Rightarrow> failed Fix_HostIdentityChanged (if error = 0 then ERROR_INVALID_DATA else error) (Some lease) w
          | (Inl initial, w) \<Rightarrow>
              let lease = lease\<lparr>lease_initial := initial\<rparr> in
              case HashHandleSha256 cng alloc \<lparr>ho_ticks = hh_ticks ops, ho_read = hh_read ops\<rparr> file deadline w of
                None \<Rightarrow> None
              | Some (hash, w) \<Rightarrow>
                  (case run_state (settle_hash ops lease deadline hash) w of (result, w) \<Rightarrow> Some ((result, Some lease), w)))"

section \<open>What the platform promises\<close>

text \<open>
  A world in which the opened file has the bytes \<open>file\<close>: the digest object has absorbed some
  bytes and the handle is at a position.  A successful read gives the next bytes, at least one
  unless the position is at the end; a successful digest is that of the bytes absorbed; nothing
  says that a call succeeds or when the clock passes the deadline.
\<close>

locale hash_platform =
  fixes cng :: "'w Cng" and alloc :: "('w, bool) state" and ops :: "'w HostHashOps" and wok :: "'w \<Rightarrow> bool"
    and absorbed :: "'w \<Rightarrow> byte list" and position :: "'w \<Rightarrow> nat"
    and file_bytes :: "byte list" and sha256 :: "byte list \<Rightarrow> digest"
  assumes position_bound: "wok w \<Longrightarrow> position w \<le> length file_bytes"
    and ticks_frame: "hh_ticks ops = Some t \<Longrightarrow> wok w \<Longrightarrow> run_state t w = (r, w') \<Longrightarrow>
      wok w' \<and> absorbed w' = absorbed w \<and> position w' = position w"
    and open_start: "hh_open ops = Some op \<Longrightarrow> wok w \<Longrightarrow> run_state (op path) w = ((f, e), w') \<Longrightarrow>
      wok w' \<and> (f \<noteq> 0 \<longrightarrow> position w' = 0)"
    and metadata_frame: "hh_metadata ops = Some me \<Longrightarrow> wok w \<Longrightarrow> run_state (me f) w = (i, w') \<Longrightarrow>
      wok w' \<and> absorbed w' = absorbed w \<and> position w' = position w"
    and read_next: "hh_read ops = Some rd \<Longrightarrow> wok w \<Longrightarrow> run_state (rd f n) w = ((ok, count, bytes, e), w') \<Longrightarrow>
      wok w' \<and> absorbed w' = absorbed w \<and>
      (ok \<and> count \<le> n \<longrightarrow> bytes = slice (position w) count file_bytes \<and> position w' = position w + count \<and>
        (count = 0 \<longrightarrow> position w = length file_bytes))"
    and begin_frame: "wok w \<Longrightarrow> run_state (cng_open cng) w = (s1, w') \<Longrightarrow> wok w' \<and> position w' = position w"
      "wok w \<Longrightarrow> run_state (cng_objectLength cng) w = (s2, w') \<Longrightarrow> wok w' \<and> position w' = position w"
      "wok w \<Longrightarrow> run_state (cng_hashLength cng) w = (s3, w') \<Longrightarrow> wok w' \<and> position w' = position w"
      "wok w \<Longrightarrow> run_state (cng_alloc cng n) w = (b, w') \<Longrightarrow> wok w' \<and> position w' = position w"
    and alloc_frame: "wok w \<Longrightarrow> run_state alloc w = (b, w') \<Longrightarrow>
      wok w' \<and> absorbed w' = absorbed w \<and> position w' = position w"
    and create_empty: "wok w \<Longrightarrow> run_state (cng_create cng) w = (s, w') \<Longrightarrow>
      wok w' \<and> position w' = position w \<and> (\<not> failed_status s \<longrightarrow> absorbed w' = [])"
    and update_absorbs: "wok w \<Longrightarrow> run_state (cng_update cng bytes) w = (s, w') \<Longrightarrow>
      wok w' \<and> position w' = position w \<and> (\<not> failed_status s \<longrightarrow> absorbed w' = absorbed w @ bytes)"
    and finish_digest: "wok w \<Longrightarrow> run_state (cng_finish cng) w = ((s, d), w') \<Longrightarrow>
      wok w' \<and> (\<not> failed_status s \<longrightarrow> d = sha256 (absorbed w))"

text \<open>The invariant of the read loop, and a result that is the file's digest or none at all.\<close>

definition reading :: "byte list \<Rightarrow> byte list \<Rightarrow> nat \<Rightarrow> FileHashResult \<Rightarrow> bool" where
  "reading file absorbed position result \<longleftrightarrow>
     absorbed = take position file \<and> hr_fileSize result = position \<and> hr_error result = 0 \<and>
     \<not> hr_digestValid result \<and> hr_digest result = digest_zero"

definition settled :: "(byte list \<Rightarrow> digest) \<Rightarrow> byte list \<Rightarrow> FileHashResult \<Rightarrow> bool" where
  "settled sha256 file result \<longleftrightarrow>
     (if hr_digestValid result
      then hr_digest result = sha256 file \<and> hr_fileSize result = length file \<and> hr_error result = 0
      else hr_digest result = digest_zero \<and> hr_error result \<noteq> 0)"

text \<open>The same for the lease: the digest counts when the identified file has the size that was read.\<close>

definition host_settled :: "(byte list \<Rightarrow> digest) \<Rightarrow> byte list \<Rightarrow> 'w HostHashLease \<Rightarrow> HostHashResult \<Rightarrow> bool" where
  "host_settled sha256 file lease result \<longleftrightarrow>
     (hs_reason result = Fix_None \<longleftrightarrow> hr_digestValid (hs_hash result)) \<and>
     hr_fileSize (hs_hash result) = lease_fileSize lease \<and>
     (if hr_digestValid (hs_hash result)
      then hr_digest (hs_hash result) = sha256 file \<and> lease_fileSize lease = length file \<and> hr_error (hs_hash result) = 0
      else hr_digest (hs_hash result) = digest_zero)"

lemma StatusError_pos: "StatusError s \<noteq> 0"
  using unat_gt_0 [of s] by (auto simp: StatusError_def error_codes)

lemma run_bindE:
  assumes "run_state (m \<bind> f) w = (b, w')"
  obtains a w1 where "run_state m w = (a, w1)" and "run_state (f a) w1 = (b, w')"
  using assms by (cases "run_state m w") (simp add: run_state_bind)

context hash_platform
begin

abbreviation reads :: "'w HashReadOps" where
  "reads \<equiv> \<lparr>ho_ticks = hh_ticks ops, ho_read = hh_read ops\<rparr>"

lemma expired_frame:
  assumes "hh_ticks ops \<noteq> None" and "wok w" and "run_state (expired reads deadline result) w = ((late, result'), w')"
  shows "wok w' \<and> absorbed w' = absorbed w \<and> position w' = position w \<and>
    (if late then result' = result\<lparr>hr_error := ERROR_TIMEOUT, hr_timedOut := True\<rparr> else result' = result)"
  using assms ticks_frame by (fastforce simp: expired_def run_state_bind split: prod.splits if_splits)

lemma finish_sound:
  assumes "wok w" and "run_state (hash_finish cng) w = ((failure, d), w')"
  shows "wok w' \<and> (failure = 0 \<longrightarrow> d = sha256 (absorbed w))"
  using assms finish_digest by (fastforce simp: hash_finish_def run_state_bind StatusError_pos split: prod.splits if_splits)

lemma update_sound:
  assumes "wok w" and "run_state (hash_update cng bytes) w = (failure, w')"
  shows "wok w' \<and> position w' = position w \<and> (failure = 0 \<longrightarrow> absorbed w' = absorbed w @ bytes)"
  using assms update_absorbs by (fastforce simp: hash_update_def run_state_bind StatusError_pos split: prod.splits if_splits)

lemma begin_sound:
  assumes "wok w" and "run_state (hash_begin cng) w = (failure, w')"
  shows "wok w' \<and> position w' = position w \<and> (failure = 0 \<longrightarrow> absorbed w' = [])"
proof -
  obtain s0 w0 where r0: "run_state (cng_open cng) w = (s0, w0)" by fastforce
  obtain s1 l1 n1 w1 where r1: "run_state (cng_objectLength cng) w0 = ((s1, l1, n1), w1)" by (metis prod.exhaust)
  obtain s2 l2 n2 w2 where r2: "run_state (cng_hashLength cng) w1 = ((s2, l2, n2), w2)" by (metis prod.exhaust)
  obtain b w3 where r3: "run_state (cng_alloc cng l1) w2 = (b, w3)" by fastforce
  obtain s4 w4 where r4: "run_state (cng_create cng) w3 = (s4, w4)" by fastforce
  note f0 = begin_frame(1) [OF assms(1) r0]
  note f1 = begin_frame(2) [OF conjunct1 [OF f0] r1]
  note f2 = begin_frame(3) [OF conjunct1 [OF f1] r2]
  note f3 = begin_frame(4) [OF conjunct1 [OF f2] r3]
  note f4 = create_empty [OF conjunct1 [OF f3] r4]
  show ?thesis using assms(2) f0 f1 f2 f3 f4 r0 r1 r2 r3 r4
    by (auto simp: hash_begin_def run_state_bind StatusError_pos error_codes split: if_splits)
qed

text \<open>One turn keeps the invariant and advances, or settles the result.\<close>

lemma turn_sound:
  assumes ops: "hh_ticks ops \<noteq> None" "hh_read ops \<noteq> None" and w: "wok w"
    and inv: "reading file_bytes (absorbed w) (position w) result"
    and run: "run_state (hash_turn cng reads file deadline result) w = ((again, result'), w')"
  shows "wok w' \<and>
    (if again then reading file_bytes (absorbed w') (position w') result' \<and> position w < position w'
     else settled sha256 file_bytes result')"
proof -
  obtain late1 r1 w1 where e1: "run_state (expired reads deadline result) w = ((late1, r1), w1)" by (metis prod.exhaust)
  note E1 = expired_frame [OF ops(1) w e1]
  obtain ok count bytes err w2 where rd: "run_state (the (hh_read ops) file kReadBufferSize) w1 = ((ok, count, bytes, err), w2)"
    by (metis prod.exhaust)
  have R: "wok w2 \<and> absorbed w2 = absorbed w1 \<and> (ok \<and> count \<le> kReadBufferSize \<longrightarrow>
      bytes = slice (position w1) count file_bytes \<and> position w2 = position w1 + count \<and>
      (count = 0 \<longrightarrow> position w1 = length file_bytes))"
    using read_next [OF _ conjunct1 [OF E1]] ops(2) rd by fastforce
  obtain late2 r2 w3 where e2: "run_state (expired reads deadline r1) w2 = ((late2, r2), w3)" by (metis prod.exhaust)
  note E2 = expired_frame [OF ops(1) conjunct1 [OF R] e2]
  obtain failure d w4 where fin: "run_state (hash_finish cng) w3 = ((failure, d), w4)" by (metis prod.exhaust)
  note F = finish_sound [OF conjunct1 [OF E2] fin]
  obtain late3 r3 w5 where e3: "run_state (expired reads deadline (r2\<lparr>hr_error := failure\<rparr>)) w4 = ((late3, r3), w5)"
    by (metis prod.exhaust)
  note E3 = expired_frame [OF ops(1) conjunct1 [OF F] e3]
  obtain failed w6 where up: "run_state (hash_update cng bytes) w3 = (failed, w6)" by fastforce
  note U = update_sound [OF conjunct1 [OF E2] up]
  show ?thesis
  proof (cases late1)
    case True
    then show ?thesis using run E1 inv
      by (auto simp: hash_turn_def run_state_bind e1 settled_def reading_def error_codes)
  next
    case late1: False
    then have r1: "r1 = result" using E1 by simp
    note e1 = e1 [unfolded r1] and e2 = e2 [unfolded r1] and E2 = E2 [unfolded r1]
    show ?thesis
    proof (cases late2)
      case True
      then show ?thesis using run late1 E1 E2 R inv
        by (auto simp: hash_turn_def run_state_bind e1 rd e2 settled_def reading_def error_codes)
    next
      case late2: False
      then have r2: "r2 = result" using E2 by simp
      note late = late1 late2 and e2 = e2 [unfolded r2] and e3 = e3 [unfolded r2] and E3 = E3 [unfolded r2]
      consider (bad) "\<not> ok \<or> count > kReadBufferSize" | (finished) "ok" "count = 0"
        | (overflow) "ok" "count \<le> kReadBufferSize" "count \<noteq> 0" "hr_fileSize result > u64_max - count"
        | (update) "ok" "count \<le> kReadBufferSize" "count \<noteq> 0" "\<not> hr_fileSize result > u64_max - count"
        by (meson not_less)
      then show ?thesis
      proof cases
        case bad
        then show ?thesis using run late E1 E2 R inv
          by (auto simp: hash_turn_def run_state_bind e1 rd e2 settled_def reading_def error_codes)
      next
        case finished
        then show ?thesis using run late E1 E2 E3 R F inv
          by (auto simp: hash_turn_def run_state_bind e1 rd e2 fin e3 settled_def reading_def error_codes split: if_splits)
      next
        case overflow
        then show ?thesis using run late E1 E2 R inv
          by (auto simp: hash_turn_def run_state_bind e1 rd e2 settled_def reading_def error_codes)
      next
        case update
        then have "again = (failed = 0) \<and> w' = w6 \<and>
            result' = result\<lparr>hr_fileSize := hr_fileSize result + count, hr_error := failed\<rparr>"
          using run late by (auto simp: hash_turn_def run_state_bind e1 rd e2 up)
        then show ?thesis using update late E1 E2 R U inv
          by (auto simp: settled_def reading_def take_add slice_def)
      qed
    qed
  qed
qed

text \<open>The loop ends, because a finite file is read forward, and settles the result.\<close>

lemma loop_sound:
  assumes ops: "hh_ticks ops \<noteq> None" "hh_read ops \<noteq> None" and "wok w"
    and "reading file_bytes (absorbed w) (position w) result"
  shows "\<exists>result' w'. hash_loop cng reads file deadline result w = Some (result', w') \<and> wok w' \<and>
    settled sha256 file_bytes result'"
  using assms(3,4)
proof (induction "length file_bytes - position w" arbitrary: w result rule: less_induct)
  case less
  obtain again r1 w1 where t: "run_state (hash_turn cng reads file deadline result) w = ((again, r1), w1)"
    by (metis prod.exhaust)
  note T = turn_sound [OF ops less.prems t]
  show ?case
  proof (cases again)
    case False
    then show ?thesis using T t by (subst hash_loop.simps) auto
  next
    case True
    then have "length file_bytes - position w1 < length file_bytes - position w"
      using T position_bound [of w1] by auto
    from less.hyps [OF this] T True show ?thesis
      by (subst hash_loop.simps) (auto simp: t)
  qed
qed

lemma handle_sound:
  assumes ops: "hh_ticks ops \<noteq> None" "hh_read ops \<noteq> None" and w: "wok w" and start: "position w = 0"
  shows "\<exists>result w'. HashHandleSha256 cng alloc reads file deadline w = Some (result, w') \<and> wok w' \<and>
    settled sha256 file_bytes result"
proof -
  let ?r0 = "hash_result ERROR_INVALID_PARAMETER"
  obtain late r1 w1 where e: "run_state (expired reads deadline ?r0) w = ((late, r1), w1)" by (metis prod.exhaust)
  note E = expired_frame [OF ops(1) w e]
  obtain failure w2 where b: "run_state (hash_begin cng) w1 = (failure, w2)" by fastforce
  note B = begin_sound [OF conjunct1 [OF E] b]
  obtain got w3 where a: "run_state alloc w2 = (got, w3)" by fastforce
  note A = alloc_frame [OF conjunct1 [OF B] a]
  have eq: "HashHandleSha256 cng alloc reads file deadline w =
    (if file = 0 then Some (?r0, w) else if late then Some (r1, w1)
     else if failure \<noteq> 0 then Some (r1\<lparr>hr_error := failure\<rparr>, w2)
     else if \<not> got then Some (r1\<lparr>hr_error := ERROR_NOT_ENOUGH_MEMORY\<rparr>, w3)
     else hash_loop cng reads file deadline (r1\<lparr>hr_error := 0\<rparr>) w3)"
    using ops by (auto simp: HashHandleSha256_def e b a Let_def)
  show ?thesis
  proof (cases "file \<noteq> 0 \<and> \<not> late \<and> failure = 0 \<and> got")
    case True
    then have "reading file_bytes (absorbed w3) (position w3) (r1\<lparr>hr_error := 0\<rparr>)"
      using A B E start by (simp add: reading_def hash_result_def)
    from loop_sound [OF ops conjunct1 [OF A] this] True show ?thesis by (simp add: eq)
  next
    case False
    then show ?thesis using A B E w
      by (cases late) (auto simp: eq settled_def hash_result_def error_codes)
  qed
qed


lemma validate_frame:
  assumes "hh_metadata ops \<noteq> None" and "lease_ops lease = ops" and "wok w"
    and "run_state (ValidateStable lease) w = (r, w')"
  shows "wok w'"
proof -
  obtain me where me: "hh_metadata ops = Some me" using assms(1) by auto
  obtain i w1 where i: "run_state (me (lease_file lease)) w = (i, w1)" by fastforce
  show ?thesis using assms metadata_frame [OF me assms(3) i] i
    by (cases i) (auto simp: ValidateStable_def run_state_bind me split: if_splits)
qed

lemma settle_sound:
  assumes "hash_ops_present ops" and "lease_ops lease = ops" and "wok w" and hash: "settled sha256 file_bytes hash"
    and run: "run_state (settle_hash ops lease deadline hash) w = (result, w')"
  shows "host_settled sha256 file_bytes lease result"
proof -
  obtain reason error w1 where v: "run_state (ValidateStable lease) w = ((reason, error), w1)" by (metis prod.exhaust)
  obtain t where t: "hh_ticks ops = Some t" using assms(1) by (auto simp: hash_ops_present_def)
  obtain now w2 where now: "run_state t w1 = (now, w2)" by fastforce
  show ?thesis using run hash
    by (cases "reason = Fix_None"; cases "hr_fileSize hash = lease_fileSize lease")
      (auto simp: settle_hash_def run_state_bind v t now Let_def host_settled_def settled_def with_file_size_def
        split: if_splits)
qed

lemma acquire_sound:
  assumes "wok w"
  shows "\<exists>result lease' w'. AcquireHostHash cng alloc path lease ops w = Some ((result, lease'), w') \<and>
    (hr_digestValid (hs_hash result) \<or> hs_reason result = Fix_None \<longrightarrow>
       (\<exists>l. lease' = Some l \<and> lease_valid l \<and> host_settled sha256 file_bytes l result)) \<and>
    (\<not> hr_digestValid (hs_hash result) \<longrightarrow> hr_digest (hs_hash result) = digest_zero)"
proof (cases "path = None \<or> the path = [] \<or> lease = None \<or> lease_valid (the lease) \<or> \<not> hash_ops_present ops")
  case True
  then show ?thesis by (auto simp: AcquireHostHash_def hash_result_def)
next
  case False
  then obtain t op me where ops: "hh_ticks ops = Some t" "hh_open ops = Some op" "hh_metadata ops = Some me"
    by (auto simp: hash_ops_present_def)
  obtain started w1 where r1: "run_state t w = (started, w1)" by fastforce
  note T = ticks_frame [OF ops(1) assms(1) r1]
  obtain f e w2 where r2: "run_state (op (the path)) w1 = ((f, e), w2)" by (metis prod.exhaust)
  note P = open_start [OF ops(2) conjunct1 [OF T] r2]
  obtain i w3 where r3: "run_state (me f) w2 = (i, w3)" by fastforce
  note M = metadata_frame [OF ops(3) conjunct1 [OF P] r3]
  show ?thesis
  proof (cases "f \<noteq> 0 \<and> isl i")
    case ok: True
    then obtain initial where i: "i = Inl initial" by (cases i) auto
    let ?lease = "(the lease)\<lparr>lease_file := f, lease_ops := ops, lease_initial := initial\<rparr>"
    have start: "position w3 = 0" using ok P M by simp
    have "hh_ticks ops \<noteq> None" "hh_read ops \<noteq> None" using False by (auto simp: hash_ops_present_def)
    from handle_sound [OF this conjunct1 [OF M] start] obtain hash w4 where
      h: "HashHandleSha256 cng alloc reads f (host_deadline started) w3 = Some (hash, w4)" "wok w4"
        "settled sha256 file_bytes hash" by blast
    obtain result w5 where r5: "run_state (settle_hash ops ?lease (host_deadline started) hash) w4 = (result, w5)" by fastforce
    have "host_settled sha256 file_bytes ?lease result"
      by (rule settle_sound [OF _ _ h(2,3) r5]) (use False in simp_all)
    moreover have "AcquireHostHash cng alloc path lease ops w = Some ((result, Some ?lease), w5)"
      using False ok h r5 by (auto simp: AcquireHostHash_def ops r1 r2 r3 i Let_def)
    ultimately show ?thesis using ok by (auto simp: lease_valid_def host_settled_def)
  next
    case failed: False
    then show ?thesis using False
      by (cases i) (auto simp: AcquireHostHash_def ops r1 r2 r3 Let_def hash_result_def)
  qed
qed

end

section \<open>A world of calls\<close>

text \<open>
  Every call counts: its number decides the clock, the statuses, the sizes read and the
  metadata, freely.  The file is a list of bytes, read forward from the position.
\<close>

record HashWorld =
  hw_file :: "byte list"
  hw_position :: nat
  hw_absorbed :: "byte list"
  hw_call :: nat
  hw_now :: "nat \<Rightarrow> nat"
  hw_status :: "nat \<Rightarrow> status"
  hw_chunk :: "nat \<Rightarrow> nat"
  hw_info :: "nat \<Rightarrow> FileInformation + nat"
  hw_handle :: "nat \<times> nat"
  hw_sha256 :: "byte list \<Rightarrow> digest"

definition hw_step :: "(HashWorld \<Rightarrow> 'a \<times> HashWorld) \<Rightarrow> (HashWorld, 'a) state" where
  "hw_step f = State (\<lambda>w. case f w of (a, w') \<Rightarrow> (a, w'\<lparr>hw_call := hw_call w + 1\<rparr>))"

definition hw_ok :: "HashWorld \<Rightarrow> status" where
  "hw_ok w = hw_status w (hw_call w)"

definition world_cng :: "HashWorld Cng" where
  "world_cng =
    \<lparr>cng_open = hw_step (\<lambda>w. (hw_ok w, w)),
     cng_objectLength = hw_step (\<lambda>w. ((hw_ok w, hw_chunk w (hw_call w), 4), w)),
     cng_hashLength = hw_step (\<lambda>w. ((hw_ok w, 32, 4), w)),
     cng_alloc = (\<lambda>_. hw_step (\<lambda>w. (hw_ok w = 0, w))),
     cng_create = hw_step (\<lambda>w. (hw_ok w, w\<lparr>hw_absorbed := []\<rparr>)),
     cng_update = (\<lambda>bs. hw_step (\<lambda>w. (hw_ok w, w\<lparr>hw_absorbed := hw_absorbed w @ bs\<rparr>))),
     cng_finish = hw_step (\<lambda>w. ((hw_ok w, hw_sha256 w (hw_absorbed w)), w))\<rparr>"

definition world_alloc :: "(HashWorld, bool) state" where
  "world_alloc = hw_step (\<lambda>w. (hw_ok w = 0, w))"

definition world_read :: "nat \<Rightarrow> nat \<Rightarrow> (HashWorld, bool \<times> nat \<times> byte list \<times> nat) state" where
  "world_read _ _ = hw_step (\<lambda>w.
     let n = min (max 1 (hw_chunk w (hw_call w))) (length (hw_file w) - hw_position w) in
     if failed_status (hw_ok w) then ((False, 0, [], unat (hw_ok w)), w)
     else ((True, n, slice (hw_position w) n (hw_file w), 0), w\<lparr>hw_position := hw_position w + n\<rparr>))"

definition world_ops :: "HashWorld HostHashOps" where
  "world_ops =
    \<lparr>hh_ticks = Some (hw_step (\<lambda>w. (hw_now w (hw_call w), w))),
     hh_open = Some (\<lambda>_. hw_step (\<lambda>w. (hw_handle w, w\<lparr>hw_position := 0\<rparr>))),
     hh_metadata = Some (\<lambda>_. hw_step (\<lambda>w. (hw_info w (hw_call w), w))),
     hh_read = Some world_read,
     hh_close = Some (\<lambda>_. hw_step (\<lambda>w. ((), w)))\<rparr>"

definition holds_file :: "byte list \<Rightarrow> (byte list \<Rightarrow> digest) \<Rightarrow> HashWorld \<Rightarrow> bool" where
  "holds_file file sha256 w \<longleftrightarrow> hw_file w = file \<and> hw_sha256 w = sha256 \<and> hw_position w \<le> length file"

lemmas world_defs = world_cng_def world_alloc_def world_read_def world_ops_def hw_step_def

interpretation world: hash_platform world_cng world_alloc world_ops "holds_file bytes sha256" hw_absorbed hw_position bytes sha256
  for bytes sha256
  by unfold_locales (auto simp: world_defs holds_file_def Let_def split: if_splits)

text \<open>
  C12: Hashing the host file always ends, whatever the clock and the calls do, because a finite
  file is only read forward; and a result that was cut short carries no digest.
\<close>

theorem host_hash_ends:
  assumes "hw_position w \<le> length (hw_file w)"
  shows "\<exists>result lease' w'. AcquireHostHash world_cng world_alloc path lease world_ops w = Some ((result, lease'), w') \<and>
    (\<not> hr_digestValid (hs_hash result) \<longrightarrow> hr_digest (hs_hash result) = replicate 32 0)"
  using world.acquire_sound [of "hw_file w" "hw_sha256 w" w path lease] assms
  by (auto simp: holds_file_def digest_zero_def)

text \<open>
  C11: A digest that is handed out is that of the whole file.  When the digest is valid or no
  reason is given, both hold, the lease still holds the handle of the file, the digest is that
  of exactly the file's bytes, and the size in the file's metadata is the number of bytes read.
\<close>

theorem host_digest_is_the_files:
  assumes "hw_position w \<le> length (hw_file w)"
    and "AcquireHostHash world_cng world_alloc path lease world_ops w = Some ((result, lease'), w')"
    and "hr_digestValid (hs_hash result) \<or> hs_reason result = Fix_None"
  shows "hr_digestValid (hs_hash result) \<and> hs_reason result = Fix_None \<and>
    hr_digest (hs_hash result) = hw_sha256 w (hw_file w) \<and> hr_fileSize (hs_hash result) = length (hw_file w) \<and>
    (\<exists>l. lease' = Some l \<and> lease_valid l \<and> lease_fileSize l = length (hw_file w))"
  using world.acquire_sound [of "hw_file w" "hw_sha256 w" w path lease] assms
  by (auto simp: holds_file_def host_settled_def split: if_splits)

definition sample_world :: HashWorld where
  "sample_world =
    \<lparr>hw_file = [1, 2, 3], hw_position = 0, hw_absorbed = [], hw_call = 0, hw_now = (\<lambda>n. n), hw_status = (\<lambda>_. 0),
     hw_chunk = (\<lambda>_. 2),
     hw_info = (\<lambda>_. Inl \<lparr>fi_volume = 1, fi_fileIndexHigh = 0, fi_fileIndexLow = 5, fi_fileSizeHigh = 0, fi_fileSizeLow = 3,
       fi_attributes = 0, fi_links = 1, fi_creation = (0, 0), fi_lastWrite = (0, 0)\<rparr>),
     hw_handle = (4, 0), hw_sha256 = (\<lambda>bs. map (\<lambda>b. b + 1) bs)\<rparr>"

definition sample_lease :: "HashWorld HostHashLease" where
  "sample_lease =
    \<lparr>lease_file = 0, lease_initial = \<lparr>fi_volume = 0, fi_fileIndexHigh = 0, fi_fileIndexLow = 0, fi_fileSizeHigh = 0,
       fi_fileSizeLow = 0, fi_attributes = 0, fi_links = 0, fi_creation = (0, 0), fi_lastWrite = (0, 0)\<rparr>,
     lease_ops = world_ops\<rparr>"

text \<open>Two reads of two and one byte, then the end: the digest of the three bytes.\<close>

definition sample_valid :: "((HostHashResult \<times> HashWorld HostHashLease option) \<times> HashWorld) option \<Rightarrow> bool" where
  "sample_valid r = (case r of None \<Rightarrow> False | Some ((result, _), _) \<Rightarrow> hr_digestValid (hs_hash result))"

lemma sample_hash:
  "sample_valid (AcquireHostHash world_cng world_alloc (Some [67]) (Some sample_lease) world_ops sample_world)"
  by (simp add: sample_valid_def AcquireHostHash_def sample_lease_def lease_valid_def hash_ops_present_def world_defs
    sample_world_def Let_def HashHandleSha256_def expired_def run_state_bind hash_begin_def hw_ok_def failed_status_def
    host_deadline_def kHostHashSoftBudgetMs_def hash_result_def hash_loop.simps hash_turn_def kReadBufferSize_def
    hash_update_def hash_finish_def settle_hash_def with_file_size_def ValidateStable_def SameIdentity_def
    lease_fileSize_def slice_def)

lemma host_hash_ends_witness:
  "\<exists>result lease' w'. AcquireHostHash world_cng world_alloc (Some [67]) (Some sample_lease) world_ops sample_world =
    Some ((result, lease'), w')"
  using host_hash_ends [of sample_world "Some [67]" "Some sample_lease"] by (simp add: sample_world_def) blast

lemma host_digest_is_the_files_witness:
  "\<exists>result lease' w'. AcquireHostHash world_cng world_alloc (Some [67]) (Some sample_lease) world_ops sample_world =
    Some ((result, lease'), w') \<and> hr_digest (hs_hash result) = [2, 3, 4]"
proof -
  obtain result lease' w' where run:
    "AcquireHostHash world_cng world_alloc (Some [67]) (Some sample_lease) world_ops sample_world = Some ((result, lease'), w')"
    and v: "hr_digestValid (hs_hash result)"
    using sample_hash by (auto simp: sample_valid_def split: option.splits)
  from host_digest_is_the_files [OF _ run] v run show ?thesis by (auto simp: sample_world_def)
qed

end
