(* ===== verification/Wire.thy ===== *)
theory Wire
  imports Prelude
begin

text \<open>
  Shared status memory, word by word.  A wire is a block of aligned 64-bit words that one
  thread writes and others, in this process or another one, read while it is written.
  Every store and every load of the code is one atomic access to one word
  (\<open>InterlockedExchange64\<close>, \<open>InterlockedOr64\<close>, \<open>InterlockedCompareExchange64\<close>, \<open>WriteRelease64\<close>),
  so an operation of the program is the list of its atomic operations, and an execution is
  an interleaving of such lists.  The publication protocol is a sequence lock: an odd
  sequence number, the words, the next even number; a reader keeps what it copied only if
  it saw the same even number before and after.
\<close>

section \<open>Words and atomic operations\<close>

type_synonym wordmem = "nat \<Rightarrow> nat"

datatype atomic =
    Put nat nat
  | Orr nat nat
  | Cas nat nat nat

fun site :: "atomic \<Rightarrow> nat" where
  "site (Put i v) = i"
| "site (Orr i v) = i"
| "site (Cas i expected desired) = i"

fun apply_atomic :: "wordmem \<Rightarrow> atomic \<Rightarrow> wordmem" where
  "apply_atomic m (Put i v) = m(i := v)"
| "apply_atomic m (Orr i v) = m(i := or (m i) v)"
| "apply_atomic m (Cas i expected desired) = (if m i = expected then m(i := desired) else m)"

definition run_ops :: "wordmem \<Rightarrow> atomic list \<Rightarrow> wordmem" where
  "run_ops m ops = foldl apply_atomic m ops"

lemma run_ops_simps [simp]:
  "run_ops m [] = m"
  "run_ops m (p # ps) = run_ops (apply_atomic m p) ps"
  "run_ops m (ps @ qs) = run_ops (run_ops m ps) qs"
  by (simp_all add: run_ops_def)

lemma apply_atomic_other: "site p \<noteq> i \<Longrightarrow> apply_atomic m p i = m i"
  by (cases p) auto

lemma run_ops_other: "i \<notin> site ` set ps \<Longrightarrow> run_ops m ps i = m i"
  by (induction ps arbitrary: m) (auto simp: apply_atomic_other)

text \<open>\<open>StoreWords\<close>: the words of a structure, one store each, from the first to the last.\<close>

fun StoreWords :: "nat \<Rightarrow> nat list \<Rightarrow> atomic list" where
  "StoreWords base [] = []"
| "StoreWords base (w # ws) = Put base w # StoreWords (Suc base) ws"

lemma length_StoreWords [simp]: "length (StoreWords base ws) = length ws"
  by (induction ws arbitrary: base) auto

lemma StoreWords_append: "StoreWords base (xs @ ys) = StoreWords base xs @ StoreWords (base + length xs) ys"
  by (induction xs arbitrary: base) auto

definition region :: "nat \<Rightarrow> nat \<Rightarrow> nat set" where
  "region base n = {base..<base + n}"

definition words_at :: "wordmem \<Rightarrow> nat \<Rightarrow> nat \<Rightarrow> nat list" where
  "words_at m base n = map (\<lambda>i. m (base + i)) [0..<n]"

lemma length_words_at [simp]: "length (words_at m base n) = n"
  by (simp add: words_at_def)

lemma nth_words_at [simp]: "i < n \<Longrightarrow> words_at m base n ! i = m (base + i)"
  by (simp add: words_at_def)

lemma words_at_cong: "(\<And>i. i \<in> region base n \<Longrightarrow> m i = m' i) \<Longrightarrow> words_at m base n = words_at m' base n"
  by (simp add: words_at_def region_def)

lemma words_at_Suc: "words_at m base (Suc n) = m base # words_at m (Suc base) n"
proof -
  have "map (\<lambda>i. m (base + i)) [0..<Suc n] = m (base + 0) # map (\<lambda>i. m (base + Suc i)) [0..<n]"
    by (subst upt_conv_Cons) (simp_all add: map_Suc_upt [symmetric] del: upt_Suc)
  then show ?thesis by (simp add: words_at_def)
qed

lemma sites_StoreWords: "site ` set (StoreWords base ws) = region base (length ws)"
  by (induction ws arbitrary: base) (auto simp: region_def)

lemma words_after_StoreWords: "words_at (run_ops m (StoreWords base ws)) base (length ws) = ws"
proof (induction ws arbitrary: base m)
  case Nil
  then show ?case by (simp add: words_at_def)
next
  case (Cons w ws)
  have "run_ops (m(base := w)) (StoreWords (Suc base) ws) base = w"
    by (subst run_ops_other) (simp_all add: sites_StoreWords region_def)
  with Cons.IH show ?case by (simp add: words_at_Suc)
qed

lemma words_after_other:
  "region base n \<inter> site ` set ps = {} \<Longrightarrow> words_at (run_ops m ps) base n = words_at m base n"
  by (rule words_at_cong) (auto intro!: run_ops_other)

section \<open>Histories\<close>

text \<open>The memory after the first \<open>t\<close> atomic operations of an execution.\<close>

definition history :: "wordmem \<Rightarrow> atomic list \<Rightarrow> nat \<Rightarrow> wordmem" where
  "history m ops t = run_ops m (take t ops)"

lemma history_0 [simp]: "history m ops 0 = m"
  by (simp add: history_def)

lemma history_Suc:
  "history m ops (Suc t) = (if t < length ops then apply_atomic (history m ops t) (ops ! t) else history m ops t)"
  by (simp add: history_def take_Suc_conv_app_nth)

text \<open>
  The discipline of the one writer of a region under the sequence word \<open>q\<close>: it stores into
  the region only while the sequence is odd, and it only ever counts the sequence up.
\<close>

fun disciplined :: "nat \<Rightarrow> nat set \<Rightarrow> wordmem \<Rightarrow> atomic list \<Rightarrow> bool" where
  "disciplined q R m [] = True"
| "disciplined q R m (p # ps) \<longleftrightarrow>
     (site p \<in> R \<longrightarrow> odd (m q)) \<and> (site p = q \<longrightarrow> p = Put q (Suc (m q))) \<and>
     disciplined q R (apply_atomic m p) ps"

lemma disciplined_append:
  "disciplined q R m (ps @ qs) \<longleftrightarrow> disciplined q R m ps \<and> disciplined q R (run_ops m ps) qs"
  by (induction ps arbitrary: m) auto

lemma disciplined_step:
  assumes "disciplined q R m ops" "t < length ops"
  shows "(site (ops ! t) \<in> R \<longrightarrow> odd (history m ops t q)) \<and>
    (site (ops ! t) = q \<longrightarrow> ops ! t = Put q (Suc (history m ops t q)))"
proof -
  have "ops = take t ops @ ops ! t # drop (Suc t) ops" using assms(2) by (simp add: id_take_nth_drop)
  with assms(1) have "disciplined q R m (take t ops @ ops ! t # drop (Suc t) ops)" by simp
  then show ?thesis by (simp add: disciplined_append history_def)
qed

text \<open>Only the operations on the region and its sequence word matter.\<close>

lemma disciplined_cong: "m q = m' q \<Longrightarrow> disciplined q R m ps = disciplined q R m' ps"
proof (induction ps arbitrary: m m')
  case Nil
  then show ?case by simp
next
  case (Cons p ps)
  have "apply_atomic m p q = apply_atomic m' p q" using Cons.prems by (cases p) auto
  then show ?case using Cons.IH [of "apply_atomic m p" "apply_atomic m' p"] Cons.prems by simp
qed

lemma disciplined_filter:
  "disciplined q R m (filter (\<lambda>p. site p \<in> insert q R) ps) = disciplined q R m ps"
proof (induction ps arbitrary: m)
  case Nil
  then show ?case by simp
next
  case (Cons p ps)
  show ?case
  proof (cases "site p \<in> insert q R")
    case True
    then show ?thesis using Cons.IH by simp
  next
    case False
    then have "disciplined q R (apply_atomic m p) ps = disciplined q R m ps"
      by (intro disciplined_cong) (auto simp: apply_atomic_other)
    with False Cons.IH show ?thesis by simp
  qed
qed

lemma run_ops_filter:
  assumes "i \<in> S"
  shows "run_ops m (filter (\<lambda>p. site p \<in> S) ps) i = run_ops m ps i"
proof -
  have "\<forall>j \<in> S. m j = m' j \<Longrightarrow> run_ops m (filter (\<lambda>p. site p \<in> S) ps) i = run_ops m' ps i" for m m'
  proof (induction ps arbitrary: m m')
    case Nil
    then show ?case using assms by simp
  next
    case (Cons p ps)
    have "\<forall>j \<in> S. apply_atomic m p j = apply_atomic m' p j" if "site p \<in> S"
      using Cons.prems that by (cases p) auto
    moreover have "\<forall>j \<in> S. m j = apply_atomic m' p j" if "site p \<notin> S"
      using Cons.prems that by (metis apply_atomic_other)
    ultimately show ?case using Cons.IH by (cases "site p \<in> S") simp_all
  qed
  then show ?thesis by simp
qed

section \<open>The sequence lock\<close>

text \<open>
  One region of \<open>n\<close> words at \<open>base\<close> under the sequence word \<open>q\<close>.
\<close>

locale seqlock =
  fixes q base n :: nat
  assumes apart: "q \<notin> region base n"
begin

lemma sequence_mono_step:
  assumes "disciplined q (region base n) m ops"
  shows "history m ops t q \<le> history m ops (Suc t) q"
proof (cases "t < length ops \<and> site (ops ! t) = q")
  case True
  then show ?thesis using disciplined_step [OF assms, of t] by (auto simp: history_Suc)
next
  case False
  then show ?thesis by (auto simp: history_Suc apply_atomic_other)
qed

lemma sequence_mono:
  "disciplined q (region base n) m ops \<Longrightarrow> s \<le> t \<Longrightarrow> history m ops s q \<le> history m ops t q"
  by (rule lift_Suc_mono_le [where f = "\<lambda>t. history m ops t q"]) (rule sequence_mono_step)

text \<open>While an even sequence number stands, the region stands.\<close>

lemma even_stable:
  assumes d: "disciplined q (region base n) m ops" and "s \<le> t" and "even (history m ops s q)"
    and "history m ops t q = history m ops s q" and "i \<in> region base n"
  shows "history m ops t i = history m ops s i"
proof -
  have "s + k \<le> t \<Longrightarrow> history m ops (s + k) i = history m ops s i" for k
  proof (induction k)
    case 0
    then show ?case by simp
  next
    case (Suc k)
    let ?u = "s + k"
    have "history m ops s q \<le> history m ops ?u q" "history m ops ?u q \<le> history m ops t q"
      using sequence_mono [OF d] Suc.prems by simp_all
    then have e: "even (history m ops ?u q)" using assms(3,4) by simp
    have "history m ops (Suc ?u) i = history m ops ?u i"
    proof (cases "?u < length ops")
      case True
      then have "site (ops ! ?u) \<notin> region base n" using disciplined_step [OF d True] e by blast
      then have "site (ops ! ?u) \<noteq> i" using assms(5) by blast
      with True show ?thesis by (simp add: history_Suc apply_atomic_other)
    next
      case False
      then show ?thesis by (simp add: history_Suc)
    qed
    then show ?case using Suc by simp
  qed
  from this [of "t - s"] show ?thesis using assms(2) by simp
qed

text \<open>
  The reader's theorem.  Words taken at any times between two loads of the sequence that
  gave the same even number are the words of the region at one instant.
\<close>

lemma coherent_read:
  assumes d: "disciplined q (region base n) m ops" and st: "s \<le> t" and ev: "even (history m ops s q)"
    and eq: "history m ops t q = history m ops s q" and len: "length ws = n"
    and ws: "\<And>i. i < n \<Longrightarrow> \<exists>u. s \<le> u \<and> u \<le> t \<and> ws ! i = history m ops u (base + i)"
  shows "ws = words_at (history m ops s) base n"
proof (rule nth_equalityI)
  show "length ws = length (words_at (history m ops s) base n)" using len by simp
  fix i
  assume "i < length ws"
  then have i: "i < n" using len by simp
  with ws obtain u where u: "s \<le> u" "u \<le> t" "ws ! i = history m ops u (base + i)" by blast
  have "history m ops s q \<le> history m ops u q" "history m ops u q \<le> history m ops t q"
    using sequence_mono [OF d] u by simp_all
  then have "history m ops u q = history m ops s q" using eq by simp
  from even_stable [OF d u(1) ev this] have "history m ops u (base + i) = history m ops s (base + i)"
    using i by (simp add: region_def)
  then show "ws ! i = words_at (history m ops s) base n ! i" using u i by simp
qed

end
section \<open>Publications\<close>

text \<open>One publication under the sequence number \<open>before\<close>, and a run of them.\<close>

definition publish_ops :: "nat \<Rightarrow> nat \<Rightarrow> nat \<Rightarrow> nat list \<Rightarrow> atomic list" where
  "publish_ops q base before ws = Put q (before + 1) # StoreWords base ws @ [Put q (before + 2)]"

fun publications :: "nat \<Rightarrow> nat \<Rightarrow> nat \<Rightarrow> nat list list \<Rightarrow> atomic list" where
  "publications q base before [] = []"
| "publications q base before (ws # wss) = publish_ops q base before ws @ publications q base (before + 2) wss"

lemma publications_append:
  "publications q base k (xss @ yss) = publications q base k xss @ publications q base (k + 2 * length xss) yss"
  by (induction xss arbitrary: k) (simp_all add: algebra_simps)

context seqlock
begin

lemma run_StoreWords_sequence [simp]: "length ws = n \<Longrightarrow> run_ops m (take x (StoreWords base ws)) q = m q"
  using apart by (intro run_ops_other) (use sites_StoreWords [of base ws] in \<open>auto dest!: in_set_takeD\<close>)

lemma run_publish:
  assumes "length ws = n"
  shows "run_ops m (publish_ops q base k ws) q = k + 2 \<and>
    words_at (run_ops m (publish_ops q base k ws)) base n = ws"
proof -
  have "words_at (run_ops (m(q := k + 1)) (StoreWords base ws)) base n = ws"
    using words_after_StoreWords [of "m(q := k + 1)" base ws] assms by simp
  moreover have "words_at (f(q := v)) base n = words_at f base n" for f v
    using apart by (intro words_at_cong) auto
  ultimately show ?thesis by (simp add: publish_ops_def)
qed

lemma disciplined_StoreWords:
  "region c (length ws) \<subseteq> region base n \<Longrightarrow> odd (m q) \<Longrightarrow> disciplined q (region base n) m (StoreWords c ws)"
proof (induction ws arbitrary: c m)
  case Nil
  then show ?case by simp
next
  case (Cons w ws)
  have "c \<in> region c (length (w # ws))" by (simp add: region_def)
  with Cons.prems apart have c: "c \<noteq> q" by blast
  have "region (Suc c) (length ws) \<subseteq> region base n" using Cons.prems by (auto simp: region_def)
  with Cons.prems c have "disciplined q (region base n) (m(c := w)) (StoreWords (Suc c) ws)"
    by (intro Cons.IH) simp_all
  with Cons.prems c show ?case by simp
qed

lemma disciplined_publish:
  assumes "length ws = n" "m q = k" "even k"
  shows "disciplined q (region base n) m (publish_ops q base k ws)"
proof -
  have "run_ops (m(q := k + 1)) (StoreWords base ws) q = k + 1"
    using run_StoreWords_sequence [of ws _ "length ws"] assms(1) by simp
  with assms apart show ?thesis
    by (simp add: publish_ops_def disciplined_append disciplined_StoreWords)
qed

lemma disciplined_publications:
  "\<forall>ws \<in> set wss. length ws = n \<Longrightarrow> m q = k \<Longrightarrow> even k \<Longrightarrow>
   disciplined q (region base n) m (publications q base k wss)"
proof (induction wss arbitrary: m k)
  case Nil
  then show ?case by simp
next
  case (Cons ws wss)
  have "run_ops m (publish_ops q base k ws) q = k + 2" using Cons.prems run_publish [of ws m k] by simp
  then have "disciplined q (region base n) (run_ops m (publish_ops q base k ws)) (publications q base (k + 2) wss)"
    using Cons.prems by (intro Cons.IH) simp_all
  with Cons.prems show ?case by (simp add: disciplined_append disciplined_publish)
qed

text \<open>An even sequence number after a part of a run of publications names the last one done.\<close>

lemma prefix_publications:
  assumes "\<forall>ws \<in> set wss. length ws = n" and "m q = k" and "even k"
    and "even (run_ops m (take x (publications q base k wss)) q)"
  shows "\<exists>j \<le> length wss. run_ops m (take x (publications q base k wss)) q = k + 2 * j \<and>
    words_at (run_ops m (take x (publications q base k wss))) base n =
      (if j = 0 then words_at m base n else wss ! (j - 1))"
  using assms
proof (induction wss arbitrary: m k x)
  case Nil
  then show ?case by simp
next
  case (Cons ws wss)
  let ?p = "publish_ops q base k ws"
  show ?case
  proof (cases "length ?p \<le> x")
    case True
    let ?m = "run_ops m ?p"
    have m: "?m q = k + 2" "words_at ?m base n = ws" using run_publish [of ws m k] Cons.prems(1) by simp_all
    have "\<exists>j \<le> length wss. run_ops ?m (take (x - length ?p) (publications q base (k + 2) wss)) q = k + 2 + 2 * j \<and>
      words_at (run_ops ?m (take (x - length ?p) (publications q base (k + 2) wss))) base n =
        (if j = 0 then words_at ?m base n else wss ! (j - 1))"
      using Cons.prems True m by (intro Cons.IH) simp_all
    then obtain j where "j \<le> length wss"
      "run_ops ?m (take (x - length ?p) (publications q base (k + 2) wss)) q = k + 2 + 2 * j"
      "words_at (run_ops ?m (take (x - length ?p) (publications q base (k + 2) wss))) base n =
        (if j = 0 then ws else wss ! (j - 1))" using m by auto
    with True show ?thesis by (intro exI [of _ "Suc j"]) (simp add: nth_Cons')
  next
    case False
    show ?thesis
    proof (cases x)
      case 0
      then show ?thesis using Cons.prems by (intro exI [of _ 0]) simp
    next
      case (Suc y)
      with False have y: "y \<le> length ws" by (simp add: publish_ops_def)
      have "take x (?p @ publications q base (k + 2) wss) = Put q (k + 1) # take y (StoreWords base ws)"
        using y Suc by (simp add: publish_ops_def)
      then have "run_ops m (take x (publications q base k (ws # wss))) q = k + 1"
        using run_StoreWords_sequence [of ws "m(q := k + 1)" y] Cons.prems(1) by simp
      with Cons.prems show ?thesis by simp
    qed
  qed
qed

text \<open>
  The writer's and the reader's halves together.  \<open>ops\<close> is any interleaving in which the
  operations on the region and its sequence are a run of publications; a reader that sees
  the even number \<open>2 * j\<close> around its copy has the words of the \<open>j\<close>-th publication.
\<close>

lemma coherent_published:
  assumes own: "filter (\<lambda>p. site p \<in> insert q (region base n)) ops = take x (publications q base 0 wss)"
    and n: "\<forall>ws \<in> set wss. length ws = n" and m: "m q = 0"
    and st: "s \<le> t" and ev: "even (history m ops s q)" and eq: "history m ops t q = history m ops s q"
    and pos: "history m ops s q \<noteq> 0" and len: "length us = n"
    and us: "\<And>i. i < n \<Longrightarrow> \<exists>u. s \<le> u \<and> u \<le> t \<and> us ! i = history m ops u (base + i)"
  shows "\<exists>j < length wss. history m ops s q = 2 * Suc j \<and> us = wss ! j"
proof -
  let ?S = "insert q (region base n)"
  have "disciplined q (region base n) m (take x (publications q base 0 wss) @ drop x (publications q base 0 wss))"
    using n m by (simp add: disciplined_publications)
  then have "disciplined q (region base n) m (filter (\<lambda>p. site p \<in> ?S) ops)"
    unfolding own disciplined_append by simp
  then have d: "disciplined q (region base n) m ops" by (simp only: disciplined_filter)
  have "us = words_at (history m ops s) base n" by (rule coherent_read [OF d st ev eq len us])
  moreover have "\<exists>y. filter (\<lambda>p. site p \<in> ?S) (take s ops) = take y (publications q base 0 wss)"
  proof -
    have "filter (\<lambda>p. site p \<in> ?S) (take s ops) @ filter (\<lambda>p. site p \<in> ?S) (drop s ops)
        = take x (publications q base 0 wss)"
      unfolding own [symmetric] filter_append [symmetric] by simp
    then have "filter (\<lambda>p. site p \<in> ?S) (take s ops)
        = take (length (filter (\<lambda>p. site p \<in> ?S) (take s ops))) (take x (publications q base 0 wss))"
      by (metis append_eq_conv_conj)
    then show ?thesis by (metis take_take)
  qed
  then obtain y where y: "filter (\<lambda>p. site p \<in> ?S) (take s ops) = take y (publications q base 0 wss)" by blast
  have h: "history m ops s i = run_ops m (take y (publications q base 0 wss)) i" if "i \<in> ?S" for i
    using run_ops_filter [OF that, of m "take s ops"] y by (simp add: history_def)
  have "words_at (history m ops s) base n = words_at (run_ops m (take y (publications q base 0 wss))) base n"
    by (rule words_at_cong) (simp add: h)
  moreover have "\<exists>j \<le> length wss. run_ops m (take y (publications q base 0 wss)) q = 0 + 2 * j \<and>
      words_at (run_ops m (take y (publications q base 0 wss))) base n =
        (if j = 0 then words_at m base n else wss ! (j - 1))"
    by (rule prefix_publications) (use n m ev h in auto)
  ultimately obtain j where "j \<le> length wss" "history m ops s q = 2 * j"
    "us = (if j = 0 then words_at m base n else wss ! (j - 1))" using h by auto
  with pos show ?thesis by (intro exI [of _ "j - 1"]) auto
qed

end

section \<open>A publishing thread\<close>

text \<open>
  What a thread does that publishes one item after another: each call computes its operations
  from the memory it finds, and reports whether it published.
\<close>

fun program :: "(wordmem \<Rightarrow> 'i \<Rightarrow> bool \<times> atomic list) \<Rightarrow> wordmem \<Rightarrow> 'i list \<Rightarrow> atomic list" where
  "program publish m [] = []"
| "program publish m (item # items) =
     (let ops = snd (publish m item) in ops @ program publish (run_ops m ops) items)"

fun accepted :: "(wordmem \<Rightarrow> 'i \<Rightarrow> bool \<times> atomic list) \<Rightarrow> wordmem \<Rightarrow> 'i list \<Rightarrow> 'i list" where
  "accepted publish m [] = []"
| "accepted publish m (item # items) =
     (let r = publish m item; rest = accepted publish (run_ops m (snd r)) items in
      if fst r then item # rest else rest)"

text \<open>A coherent copy: words taken between two loads of the sequence that gave the same even number.\<close>

definition seen :: "(nat \<Rightarrow> wordmem) \<Rightarrow> nat \<Rightarrow> nat \<Rightarrow> nat \<Rightarrow> nat \<Rightarrow> nat list \<Rightarrow> bool" where
  "seen h q base n sequence ws \<longleftrightarrow>
     (\<exists>s t. s \<le> t \<and> h s q = sequence \<and> h t q = sequence \<and> 2 \<le> sequence \<and> even sequence \<and> length ws = n \<and>
        (\<forall>i < n. \<exists>u. s \<le> u \<and> u \<le> t \<and> ws ! i = h u (base + i)))"

locale publisher = seqlock q base n for q base n +
  fixes publish :: "wordmem \<Rightarrow> 'i \<Rightarrow> bool \<times> atomic list"
    and words :: "'i \<Rightarrow> nat list"
    and shape :: "'i \<Rightarrow> bool"
  assumes words_length: "shape item \<Longrightarrow> length (words item) = n"
    and publish_region: "publish m item = (ok, ops) \<Longrightarrow> shape item \<Longrightarrow>
      filter (\<lambda>p. site p \<in> insert q (region base n)) ops =
        (if ok then publish_ops q base (m q) (words item) else [])"
    and publish_even: "publish m item = (True, ops) \<Longrightarrow> even (m q)"
begin

lemma run_publish_call:
  assumes "publish m item = (ok, ops)" and "shape item"
  shows "run_ops m ops q = (if ok then m q + 2 else m q)"
proof -
  have "run_ops m ops q = run_ops m (filter (\<lambda>p. site p \<in> insert q (region base n)) ops) q"
    by (rule run_ops_filter [symmetric]) simp
  then show ?thesis
    using publish_region [OF assms] run_publish [of "words item" m "m q"] words_length [OF assms(2)] by simp
qed

lemma filter_program:
  "\<forall>item \<in> set items. shape item \<Longrightarrow>
   filter (\<lambda>p. site p \<in> insert q (region base n)) (program publish m items) =
     publications q base (m q) (map words (accepted publish m items)) \<and>
   (\<forall>item \<in> set (accepted publish m items). shape item)"
proof (induction items arbitrary: m)
  case Nil
  then show ?case by simp
next
  case (Cons item items)
  obtain ok ops where r: "publish m item = (ok, ops)" by fastforce
  have sh: "shape item" using Cons.prems by simp
  show ?case
    using Cons.IH [of "run_ops m ops"] Cons.prems publish_region [OF r sh] run_publish_call [OF r sh] r sh
    by (cases ok) (simp_all add: Let_def)
qed

text \<open>
  A thread that initialises the region with \<open>w0\<close> and then publishes: a coherent copy in any
  interleaving is the initial content or one accepted item.
\<close>

lemma started_published:
  assumes first: "filter (\<lambda>p. site p \<in> insert q (region base n)) ops0 = publish_ops q base 0 w0" "length w0 = n"
    and m: "m q = 0" and shapes: "\<forall>item \<in> set items. shape item"
    and own: "filter (\<lambda>p. site p \<in> insert q (region base n)) ops =
      take x (filter (\<lambda>p. site p \<in> insert q (region base n)) (ops0 @ program publish (run_ops m ops0) items))"
    and see: "seen (history m ops) q base n sequence ws"
  shows "\<exists>j \<le> length (accepted publish (run_ops m ops0) items). sequence = 2 * Suc j \<and>
    ws = (w0 # map words (accepted publish (run_ops m ops0) items)) ! j"
proof -
  let ?acc = "accepted publish (run_ops m ops0) items"
  have "run_ops m ops0 q = run_ops m (filter (\<lambda>p. site p \<in> insert q (region base n)) ops0) q"
    by (rule run_ops_filter [symmetric]) simp
  then have "run_ops m ops0 q = 2"
    unfolding first(1) using run_publish [OF first(2), of m 0] by simp
  with first filter_program [OF shapes, of "run_ops m ops0"]
  have pubs: "filter (\<lambda>p. site p \<in> insert q (region base n)) (ops0 @ program publish (run_ops m ops0) items) =
      publications q base 0 (w0 # map words ?acc)" and sh: "\<forall>item \<in> set ?acc. shape item"
    by (simp_all add: numeral_2_eq_2)
  obtain s t where r: "s \<le> t" "history m ops s q = sequence" "history m ops t q = sequence" "2 \<le> sequence"
      "even sequence" "length ws = n" "\<forall>i < n. \<exists>u. s \<le> u \<and> u \<le> t \<and> ws ! i = history m ops u (base + i)"
    using see unfolding seen_def by blast
  have "\<exists>j < length (w0 # map words ?acc). history m ops s q = 2 * Suc j \<and> ws = (w0 # map words ?acc) ! j"
    by (rule coherent_published [OF own [unfolded pubs], of m s t])
      (use sh m r first(2) words_length in auto)
  then show ?thesis using r(2) by (auto simp: less_Suc_eq_le)
qed

end

section \<open>Readers\<close>

text \<open>
  What a reader may rely on.  A load of one word gives its value at some moment between the
  reader's clock before and after; a read of a block, which may be one remote
  \<open>ReadProcessMemory\<close>, gives each word at some such moment, in no particular order, or fails.
  \<open>h\<close> is the history of the wire and \<open>clock\<close> the reader's position in it.
\<close>

locale word_loads =
  fixes load :: "nat \<Rightarrow> ('w, nat) state" and clock :: "'w \<Rightarrow> nat" and h :: "nat \<Rightarrow> wordmem"
  assumes load_sound: "run_state (load i) w = (v, w') \<Longrightarrow>
    clock w \<le> clock w' \<and> (\<exists>u. clock w \<le> u \<and> u \<le> clock w' \<and> v = h u i)"

locale block_reads =
  fixes read :: "nat \<Rightarrow> nat \<Rightarrow> ('w, nat list option) state" and clock :: "'w \<Rightarrow> nat" and h :: "nat \<Rightarrow> wordmem"
  assumes read_clock: "run_state (read off k) w = (r, w') \<Longrightarrow> clock w \<le> clock w'"
    and read_length: "run_state (read off k) w = (Some ws, w') \<Longrightarrow> length ws = k"
    and read_words: "run_state (read off k) w = (Some ws, w') \<Longrightarrow> i < k \<Longrightarrow>
      \<exists>u. clock w \<le> u \<and> u \<le> clock w' \<and> ws ! i = h u (off + i)"

text \<open>\<open>LoadWords\<close>: the words of a structure, one load each.\<close>

fun LoadWords :: "(nat \<Rightarrow> ('w, nat) state) \<Rightarrow> nat \<Rightarrow> nat \<Rightarrow> ('w, nat list) state" where
  "LoadWords load base 0 = State_Monad.return []"
| "LoadWords load base (Suc n) = do {
     w \<leftarrow> load base;
     ws \<leftarrow> LoadWords load (Suc base) n;
     State_Monad.return (w # ws) }"

definition local_read :: "(nat \<Rightarrow> ('w, nat) state) \<Rightarrow> nat \<Rightarrow> nat \<Rightarrow> ('w, nat list option) state" where
  "local_read load off k = do { ws \<leftarrow> LoadWords load off k; State_Monad.return (Some ws) }"

context word_loads
begin

lemma LoadWords_sound:
  "run_state (LoadWords load base k) w = (ws, w') \<Longrightarrow>
   clock w \<le> clock w' \<and> length ws = k \<and>
   (\<forall>i < k. \<exists>u. clock w \<le> u \<and> u \<le> clock w' \<and> ws ! i = h u (base + i))"
proof (induction k arbitrary: base w ws w')
  case 0
  then show ?case by auto
next
  case (Suc k)
  obtain v w1 where l: "run_state (load base) w = (v, w1)" by fastforce
  obtain vs w2 where ls: "run_state (LoadWords load (Suc base) k) w1 = (vs, w2)" by fastforce
  have r: "ws = v # vs" "w' = w2" using Suc.prems l ls by (auto simp: bind_def)
  note A = load_sound [OF l] and B = Suc.IH [OF ls]
  have "\<exists>u. clock w \<le> u \<and> u \<le> clock w' \<and> ws ! i = h u (base + i)" if "i < Suc k" for i
  proof (cases i)
    case 0
    then show ?thesis using A B r by (auto intro: le_trans)
  next
    case (Suc j)
    then obtain u where "clock w1 \<le> u" "u \<le> clock w2" "vs ! j = h u (Suc base + j)"
      using B \<open>i < Suc k\<close> by auto
    then show ?thesis using A r Suc by (intro exI [of _ u]) auto
  qed
  then show ?case using A B r by auto
qed

end

sublocale word_loads \<subseteq> locals: block_reads "local_read load" clock h
proof
  fix off k w r w'
  assume "run_state (local_read load off k) w = (r, w')"
  then show "clock w \<le> clock w'"
    using LoadWords_sound by (force simp: local_read_def bind_def split: prod.splits)
next
  fix off k w ws w'
  assume "run_state (local_read load off k) w = (Some ws, w')"
  then have r: "run_state (LoadWords load off k) w = (ws, w')"
    by (auto simp: local_read_def bind_def split: prod.splits)
  show "length ws = k" using LoadWords_sound [OF r] by blast
  fix i
  assume "i < k"
  then show "\<exists>u. clock w \<le> u \<and> u \<le> clock w' \<and> ws ! i = h u (off + i)"
    using LoadWords_sound [OF r] by blast
qed

text \<open>
  A reader inside the process: its loads are spread over a history by an arbitrary schedule
  \<open>delay\<close> of how many operations the others get in between.
\<close>

definition history_load :: "(nat \<Rightarrow> wordmem) \<Rightarrow> (nat \<Rightarrow> nat) \<Rightarrow> nat \<Rightarrow> (nat, nat) state" where
  "history_load h delay i = State (\<lambda>t. (h t i, t + delay t))"

interpretation history_loads: word_loads "history_load h delay" "\<lambda>t. t" h for h delay
  by unfold_locales (auto simp: history_load_def)

section \<open>Structures as words\<close>

text \<open>Two 32-bit fields of one word, the first in the low half; byte arrays, eight to a word.\<close>

definition word_of_pair :: "nat \<Rightarrow> nat \<Rightarrow> nat" where
  "word_of_pair lo hi = lo + 2 ^ 32 * hi"

definition lo32 :: "nat \<Rightarrow> nat" where "lo32 w = w mod 2 ^ 32"
definition hi32 :: "nat \<Rightarrow> nat" where "hi32 w = w div 2 ^ 32"

lemma pair_of_word [simp]:
  "lo < 2 ^ 32 \<Longrightarrow> lo32 (word_of_pair lo hi) = lo"
  "lo < 2 ^ 32 \<Longrightarrow> hi32 (word_of_pair lo hi) = hi"
  by (simp_all add: word_of_pair_def lo32_def hi32_def)

definition bytes_of_words :: "nat list \<Rightarrow> byte list" where
  "bytes_of_words ws = concat (map (le_bytes 8) ws)"

fun words_of_bytes :: "byte list \<Rightarrow> nat list" where
  "words_of_bytes (a # b # c # d # e # f # g # h # rest) = le_nat [a, b, c, d, e, f, g, h] # words_of_bytes rest"
| "words_of_bytes _ = []"

lemma le_bytes_le_nat: "le_bytes (length bs) (le_nat bs) = bs"
proof (induction bs)
  case Nil
  then show ?case by simp
next
  case (Cons b bs)
  have b: "unat b < 256" using unsigned_less [of b] by simp
  then have "(unat b + 256 * le_nat bs) mod 256 = unat b" "(unat b + 256 * le_nat bs) div 256 = le_nat bs"
    by simp_all
  with Cons show ?case by (simp add: word_unat_eq_iff unat_of_nat)
qed

lemma bytes_of_words_of_bytes: "8 dvd length bs \<Longrightarrow> bytes_of_words (words_of_bytes bs) = bs"
proof (induction bs rule: words_of_bytes.induct)
  case (1 a b c d e f g h rest)
  have "8 dvd length rest" using "1.prems" by (simp add: dvd_def) presburger
  moreover have "le_bytes 8 (le_nat [a, b, c, d, e, f, g, h]) = [a, b, c, d, e, f, g, h]"
  proof -
    have "length [a, b, c, d, e, f, g, h] = 8" by simp
    then show ?thesis using le_bytes_le_nat [of "[a, b, c, d, e, f, g, h]"] by (simp only:)
  qed
  ultimately show ?case
    using "1.IH" by (simp add: bytes_of_words_def del: le_nat.simps)
qed (auto simp: bytes_of_words_def dest: dvd_imp_le)

lemma length_words_of_bytes: "length (words_of_bytes bs) = length bs div 8"
  by (induction bs rule: words_of_bytes.induct) auto

lemma length_2_cases: "length xs = 2 \<Longrightarrow> \<exists>a b. xs = [a, b]"
  by (auto simp: numeral_2_eq_2 length_Suc_conv)

lemma length_4_cases: "length xs = 4 \<Longrightarrow> \<exists>a b c d. xs = [a, b, c, d]"
  by (auto simp: numeral_eq_Suc length_Suc_conv)

end
