(* ===== verification/StatusWire.thy ===== *)
theory StatusWire
  imports Wire Types
begin

text \<open>
  The status structures and the first status wire (\<open>src/shared/steam_reporting_status.h\<close>,
  \<open>src/companion/steam_reporting_status.cpp\<close>): header, owner payload and duration counters as
  records with their words, publication by the sole owner, the sticky gates, the local
  reader, and the accounting of one duration.

  Word indices are the byte offsets of the structure divided by eight.  An operation that
  writes is a function from the memory it finds to its result and its atomic operations.
\<close>

section \<open>Header\<close>

definition kStatusMagic :: nat where "kStatusMagic = 0x3154505232535255"
definition kStatusSchema :: nat where "kStatusSchema = 2"
definition kReportingArtifactVersion :: nat where "kReportingArtifactVersion = 0x00040200"
definition kStatusReasonSlots :: nat where "kStatusReasonSlots = 64"
definition kStatusDurationClasses :: nat where "kStatusDurationClasses = 4"
definition kStatusDurationBuckets :: nat where "kStatusDurationBuckets = 6"

definition ProcessIdentityValid :: nat where "ProcessIdentityValid = 1"
definition RunIdentityValid :: nat where "RunIdentityValid = 2"
definition ClockIdentityValid :: nat where "ClockIdentityValid = 4"
definition ConfigurationValid :: nat where "ConfigurationValid = 8"
definition HostIdentityValid :: nat where "HostIdentityValid = 16"
definition CompleteHeaderIdentity :: nat where "CompleteHeaderIdentity = 31"

datatype ReportPhase =
    Phase_Uninitialized | Phase_Initializing | Phase_Rejected | Phase_Prepared | Phase_AwaitingInit
  | Phase_Observing | Phase_Repairing | Phase_Stopping | Phase_Faulted

record StatusHeader =
  sh_magic :: nat
  sh_schema :: nat
  sh_bytes :: nat
  sh_artifactVersion :: nat
  sh_configuredMode :: nat
  sh_pid :: nat
  sh_validity :: nat
  sh_processCreation :: nat
  sh_qpcFrequency :: nat
  sh_runId :: "byte list"
  sh_hostDigest :: "byte list"
  sh_reserved :: "nat list"

text \<open>Sixteen words; \<open>runId\<close> fills two of them and \<open>hostDigest\<close> four.\<close>

definition words_of_header :: "StatusHeader \<Rightarrow> nat list" where
  "words_of_header h =
     [sh_magic h, word_of_pair (sh_schema h) (sh_bytes h),
      word_of_pair (sh_artifactVersion h) (sh_configuredMode h),
      word_of_pair (sh_pid h) (sh_validity h), sh_processCreation h, sh_qpcFrequency h] @
     words_of_bytes (sh_runId h) @ words_of_bytes (sh_hostDigest h) @ sh_reserved h"

definition header_of_words :: "nat list \<Rightarrow> StatusHeader" where
  "header_of_words ws =
     \<lparr>sh_magic = ws ! 0, sh_schema = lo32 (ws ! 1), sh_bytes = hi32 (ws ! 1),
      sh_artifactVersion = lo32 (ws ! 2), sh_configuredMode = hi32 (ws ! 2),
      sh_pid = lo32 (ws ! 3), sh_validity = hi32 (ws ! 3), sh_processCreation = ws ! 4,
      sh_qpcFrequency = ws ! 5, sh_runId = bytes_of_words (slice 6 2 ws),
      sh_hostDigest = bytes_of_words (slice 8 4 ws), sh_reserved = slice 12 4 ws\<rparr>"

definition header_shape :: "StatusHeader \<Rightarrow> bool" where
  "header_shape h \<longleftrightarrow> length (sh_runId h) = 16 \<and> length (sh_hostDigest h) = 32"

text \<open>The widths of the fields: 32 bits, and four reserved words.\<close>

definition header_fits :: "StatusHeader \<Rightarrow> bool" where
  "header_fits h \<longleftrightarrow> header_shape h \<and> sh_schema h < 2 ^ 32 \<and> sh_bytes h < 2 ^ 32 \<and>
     sh_artifactVersion h < 2 ^ 32 \<and> sh_configuredMode h < 2 ^ 32 \<and> sh_pid h < 2 ^ 32 \<and>
     sh_validity h < 2 ^ 32 \<and> length (sh_reserved h) = 4"

lemma header_of_words_of: "header_fits h \<Longrightarrow> header_of_words (words_of_header h) = h"
proof -
  assume fits: "header_fits h"
  have "length (words_of_bytes (sh_runId h)) = 2" "length (words_of_bytes (sh_hostDigest h)) = 4"
    using fits by (simp_all add: length_words_of_bytes header_fits_def header_shape_def)
  then obtain r s d e f g where r: "words_of_bytes (sh_runId h) = [r, s]"
      and d: "words_of_bytes (sh_hostDigest h) = [d, e, f, g]"
    by (metis length_2_cases length_4_cases)
  have "bytes_of_words [r, s] = sh_runId h" "bytes_of_words [d, e, f, g] = sh_hostDigest h"
    using fits bytes_of_words_of_bytes [of "sh_runId h"] bytes_of_words_of_bytes [of "sh_hostDigest h"] r d
    by (simp_all add: header_fits_def header_shape_def)
  then show ?thesis
    using fits r d
    by (simp add: header_of_words_def words_of_header_def header_fits_def slice_def)
qed

section \<open>Owner payload\<close>

record DurationCounters =
  dc_calls :: nat
  dc_elapsedTicks :: nat
  dc_maximumTicks :: nat
  dc_overFiveMilliseconds :: nat
  dc_buckets :: "nat list"

record StatusPayload =
  own_phase :: nat
  own_reason :: nat
  own_ownerThreadId :: nat
  own_sourceEpoch :: nat
  own_bindingEpoch :: nat
  own_lastOwnerQpc :: nat
  own_lastManagementQpc :: nat
  own_lastBuilderQpc :: nat
  own_readyQpc :: nat
  own_pendingSinceQpc :: nat
  own_freshSinceQpc :: nat
  own_requestSequence :: nat
  own_witnessSequence :: nat
  own_buildSequence :: nat
  own_pending :: nat
  own_fresh :: nat
  own_pi :: nat
  own_bots :: nat
  own_maximum :: nat
  own_normalAttempts :: nat
  own_fullSelected :: nat
  own_selectedTrue :: nat
  own_normalReturns :: nat
  own_falseReturns :: nat
  own_nativeUnwinds :: nat
  own_managementCalls :: nat
  own_normalPumpClassifications :: nat
  own_normalBuilderClassifications :: nat
  own_builderBound :: nat
  own_reportSequence :: nat
  own_lastSelectedWitness :: nat
  own_distinctSelectedWitnesses :: nat
  own_reasons :: "nat list"
  own_durations :: "DurationCounters list"
  own_timingAccountedThroughQpc :: nat

definition words_of_duration :: "DurationCounters \<Rightarrow> nat list" where
  "words_of_duration d = [dc_calls d, dc_elapsedTicks d, dc_maximumTicks d, dc_overFiveMilliseconds d] @ dc_buckets d"

definition duration_of_words :: "nat list \<Rightarrow> DurationCounters" where
  "duration_of_words ws =
     \<lparr>dc_calls = ws ! 0, dc_elapsedTicks = ws ! 1, dc_maximumTicks = ws ! 2,
      dc_overFiveMilliseconds = ws ! 3, dc_buckets = slice 4 6 ws\<rparr>"

definition words_of_payload :: "StatusPayload \<Rightarrow> nat list" where
  "words_of_payload p =
     [own_phase p, own_reason p, own_ownerThreadId p, own_sourceEpoch p, own_bindingEpoch p,
     own_lastOwnerQpc p, own_lastManagementQpc p, own_lastBuilderQpc p, own_readyQpc p,
     own_pendingSinceQpc p, own_freshSinceQpc p, own_requestSequence p, own_witnessSequence p,
     own_buildSequence p, own_pending p, own_fresh p, own_pi p, own_bots p, own_maximum p,
     own_normalAttempts p, own_fullSelected p, own_selectedTrue p, own_normalReturns p,
     own_falseReturns p, own_nativeUnwinds p, own_managementCalls p, own_normalPumpClassifications
     p, own_normalBuilderClassifications p, own_builderBound p, own_reportSequence p,
     own_lastSelectedWitness p, own_distinctSelectedWitnesses p] @
     own_reasons p @ concat (map words_of_duration (own_durations p)) @ [own_timingAccountedThroughQpc p]"

definition payload_of_words :: "nat list \<Rightarrow> StatusPayload" where
  "payload_of_words ws =
     \<lparr>own_phase = ws ! 0, own_reason = ws ! 1, own_ownerThreadId = ws ! 2, own_sourceEpoch
     = ws ! 3, own_bindingEpoch = ws ! 4, own_lastOwnerQpc = ws ! 5, own_lastManagementQpc = ws !
     6, own_lastBuilderQpc = ws ! 7, own_readyQpc = ws ! 8, own_pendingSinceQpc = ws ! 9,
     own_freshSinceQpc = ws ! 10, own_requestSequence = ws ! 11, own_witnessSequence = ws ! 12,
     own_buildSequence = ws ! 13, own_pending = ws ! 14, own_fresh = ws ! 15, own_pi = ws ! 16,
     own_bots = ws ! 17, own_maximum = ws ! 18, own_normalAttempts = ws ! 19, own_fullSelected =
     ws ! 20, own_selectedTrue = ws ! 21, own_normalReturns = ws ! 22, own_falseReturns = ws ! 23,
     own_nativeUnwinds = ws ! 24, own_managementCalls = ws ! 25, own_normalPumpClassifications =
     ws ! 26, own_normalBuilderClassifications = ws ! 27, own_builderBound = ws ! 28,
     own_reportSequence = ws ! 29, own_lastSelectedWitness = ws ! 30,
     own_distinctSelectedWitnesses = ws ! 31, own_reasons = slice 32 64 ws, own_durations = map
     (\<lambda>i. duration_of_words (slice (96 + 10 * i) 10 ws)) [0..<4],
     own_timingAccountedThroughQpc = ws ! 136\<rparr>"

text \<open>The array sizes of the declarations.\<close>

definition payload_shape :: "StatusPayload \<Rightarrow> bool" where
  "payload_shape p \<longleftrightarrow> length (own_reasons p) = kStatusReasonSlots \<and>
     length (own_durations p) = kStatusDurationClasses \<and>
     list_all (\<lambda>d. length (dc_buckets d) = kStatusDurationBuckets) (own_durations p)"

lemma length_words_of_duration [simp]: "length (words_of_duration d) = 4 + length (dc_buckets d)"
  by (simp add: words_of_duration_def)

lemma duration_of_words_of [simp]:
  "length (dc_buckets d) = 6 \<Longrightarrow> duration_of_words (words_of_duration d) = d"
  by (simp add: duration_of_words_def words_of_duration_def slice_def)

lemma length_words_of_payload: "payload_shape p \<Longrightarrow> length (words_of_payload p) = 137"
  by (auto simp: payload_shape_def words_of_payload_def kStatusReasonSlots_def kStatusDurationClasses_def
      kStatusDurationBuckets_def dest!: length_4_cases)

lemma payload_of_words_of: "payload_shape p \<Longrightarrow> payload_of_words (words_of_payload p) = p"
proof -
  assume "payload_shape p"
  then obtain a b c d where r: "length (own_reasons p) = 64" and d: "own_durations p = [a, b, c, d]"
    and l: "length (dc_buckets a) = 6" "length (dc_buckets b) = 6" "length (dc_buckets c) = 6" "length (dc_buckets d) = 6"
    by (auto simp: payload_shape_def kStatusReasonSlots_def kStatusDurationClasses_def
        kStatusDurationBuckets_def dest!: length_4_cases)
  show ?thesis
    using r d l
    by (simp add: payload_of_words_def words_of_payload_def slice_def nth_append upt_rec)
qed

section \<open>The wire\<close>

text \<open>
  \<open>StatusWire\<close>: the header in words 0 to 15, seven control words, the owner payload from
  word 24.
\<close>

definition at_headerReady :: nat where "at_headerReady = 16"
definition at_ownerSequence :: nat where "at_ownerSequence = 17"
definition at_revokeReasons :: nat where "at_revokeReasons = 18"
definition at_lossReasons :: nat where "at_lossReasons = 19"
definition at_stopping :: nat where "at_stopping = 20"
definition at_stoppedQpc :: nat where "at_stoppedQpc = 21"
definition at_owner :: nat where "at_owner = 24"
definition payload_words :: nat where "payload_words = 137"
definition sizeof_StatusWire :: nat where "sizeof_StatusWire = 1288"

lemmas status_offsets = at_headerReady_def at_ownerSequence_def at_revokeReasons_def at_lossReasons_def
  at_stopping_def at_stoppedQpc_def at_owner_def payload_words_def

text \<open>The bit of a reason; \<open>None\<close> and anything outside the enumeration use \<open>StatusUnavailable\<close>.\<close>

definition Mask_of :: "Reason \<Rightarrow> nat" where
  "Mask_of reason = (let index = Reason_index reason in
     2 ^ (if 0 < index \<and> index < kReasonCount then index else Reason_index R_StatusUnavailable))"

definition RevokeStatus :: "Reason \<Rightarrow> atomic list" where
  "RevokeStatus reason = [Orr at_revokeReasons (Mask_of reason)]"

definition LoseStatus :: "Reason \<Rightarrow> atomic list" where
  "LoseStatus reason = Orr at_lossReasons (Mask_of reason) # RevokeStatus reason"

definition StopStatus :: "wordmem \<Rightarrow> nat \<Rightarrow> atomic list" where
  "StopStatus m qpc = Cas at_stopping 0 1 # (if m at_stopping = 0 then [Put at_stoppedQpc qpc] else [])"

definition published_header :: "StatusHeader \<Rightarrow> StatusHeader" where
  "published_header header = header\<lparr>sh_magic := kStatusMagic, sh_schema := kStatusSchema,
     sh_bytes := sizeof_StatusWire, sh_artifactVersion := kReportingArtifactVersion,
     sh_reserved := replicate 4 0\<rparr>"

definition InitializeStatus :: "wordmem \<Rightarrow> StatusHeader \<Rightarrow> StatusPayload \<Rightarrow> bool \<times> atomic list" where
  "InitializeStatus m header payload =
     (if m at_headerReady \<noteq> 0 then (False, [Cas at_headerReady 0 2])
      else (True, Cas at_headerReady 0 2 #
        StoreWords 0 (words_of_header (published_header header)) @
        publish_ops at_ownerSequence at_owner 0 (words_of_payload payload) @
        [Put at_headerReady 1]))"

definition PublishStatus :: "wordmem \<Rightarrow> StatusPayload \<Rightarrow> bool \<times> atomic list" where
  "PublishStatus m payload =
     (if m at_headerReady \<noteq> 1 then (False, [])
      else let sequence = m at_ownerSequence in
        if odd sequence \<or> sequence > u64_max - 2 then (False, RevokeStatus R_CounterOverflow)
        else (True, publish_ops at_ownerSequence at_owner sequence (words_of_payload payload)))"

text \<open>The readers, over an atomic load of one word; \<open>||\<close> stops at the first word that is set.\<close>

definition word_set :: "(nat \<Rightarrow> ('w, nat) state) \<Rightarrow> nat \<Rightarrow> ('w, bool) state" where
  "word_set load i = do { v \<leftarrow> load i; State_Monad.return (v \<noteq> 0) }"

definition StatusRevoked :: "(nat \<Rightarrow> ('w, nat) state) \<Rightarrow> ('w, bool) state" where
  "StatusRevoked load =
     orM (word_set load at_revokeReasons) (orM (word_set load at_lossReasons) (word_set load at_stopping))"

definition header_current :: "StatusHeader \<Rightarrow> bool" where
  "header_current h \<longleftrightarrow> \<not> (sh_magic h \<noteq> kStatusMagic \<or> sh_schema h \<noteq> kStatusSchema \<or>
     sh_bytes h \<noteq> sizeof_StatusWire \<or> sh_artifactVersion h \<noteq> kReportingArtifactVersion)"

text \<open>The loop of at most three attempts; \<open>None\<close> is a false return, with both outputs zero.\<close>

fun ReadLocalStatus_attempts ::
  "(nat \<Rightarrow> ('w, nat) state) \<Rightarrow> nat \<Rightarrow> ('w, (StatusHeader \<times> StatusPayload) option) state" where
  "ReadLocalStatus_attempts load 0 = State_Monad.return None"
| "ReadLocalStatus_attempts load (Suc k) = do {
     ready \<leftarrow> load at_headerReady;
     if ready \<noteq> 1 then State_Monad.return None
     else do {
       revoked \<leftarrow> StatusRevoked load;
       if revoked then State_Monad.return None
       else do {
         before \<leftarrow> load at_ownerSequence;
         if odd before then ReadLocalStatus_attempts load k
         else do {
           hw \<leftarrow> LoadWords load 0 16;
           pw \<leftarrow> LoadWords load at_owner payload_words;
           after \<leftarrow> load at_ownerSequence;
           revoked \<leftarrow> StatusRevoked load;
           if revoked then State_Monad.return None
           else if before \<noteq> after \<or> odd after then ReadLocalStatus_attempts load k
           else if \<not> header_current (header_of_words hw) then State_Monad.return None
           else State_Monad.return (Some (header_of_words hw, payload_of_words pw)) } } } }"

definition ReadLocalStatus ::
  "(nat \<Rightarrow> ('w, nat) state) \<Rightarrow> ('w, (StatusHeader \<times> StatusPayload) option) state" where
  "ReadLocalStatus load = ReadLocalStatus_attempts load 3"

interpretation status_seqlock: seqlock at_ownerSequence at_owner payload_words
  by unfold_locales (simp add: status_offsets region_def)

section \<open>Durations\<close>

definition AtMostMicroseconds :: "nat \<Rightarrow> nat \<Rightarrow> nat \<Rightarrow> bool" where
  "AtMostMicroseconds ticks frequency micros =
     (let whole = frequency div 1000000; rest = frequency mod 1000000;
          limit = whole * micros + (rest * micros) div 1000000 in ticks \<le> limit)"

definition IncrementCounter :: "nat \<Rightarrow> nat \<Rightarrow> nat option" where
  "IncrementCounter value amount = (if amount > u64_max - value then None else Some (value + amount))"

fun bucket_loop :: "nat \<Rightarrow> nat \<Rightarrow> nat list \<Rightarrow> nat \<Rightarrow> nat" where
  "bucket_loop elapsed frequency [] bucket = bucket"
| "bucket_loop elapsed frequency (limit # limits) bucket =
     (if \<not> AtMostMicroseconds elapsed frequency limit then bucket_loop elapsed frequency limits (bucket + 1)
      else bucket)"

definition duration_limits :: "nat list" where
  "duration_limits = [10, 100, 1000, 5000, 50000]"

text \<open>The next counters, or a refusal that leaves the caller's as they are.\<close>

definition AccountDuration :: "DurationCounters \<Rightarrow> nat \<Rightarrow> nat \<Rightarrow> DurationCounters option" where
  "AccountDuration counters elapsed frequency =
     (if frequency = 0 \<or> frequency > i64_max_nat div 45 then None
      else
        let bucket = bucket_loop elapsed frequency duration_limits 0;
            over = \<not> AtMostMicroseconds elapsed frequency 5000 in
        case IncrementCounter (dc_calls counters) 1 of None \<Rightarrow> None
        | Some calls \<Rightarrow>
        case IncrementCounter (dc_elapsedTicks counters) elapsed of None \<Rightarrow> None
        | Some ticks \<Rightarrow>
        case IncrementCounter (dc_buckets counters ! bucket) 1 of None \<Rightarrow> None
        | Some count \<Rightarrow>
        case (if over then IncrementCounter (dc_overFiveMilliseconds counters) 1
              else Some (dc_overFiveMilliseconds counters)) of None \<Rightarrow> None
        | Some overs \<Rightarrow>
        Some \<lparr>dc_calls = calls, dc_elapsedTicks = ticks,
          dc_maximumTicks = (if elapsed > dc_maximumTicks counters then elapsed else dc_maximumTicks counters),
          dc_overFiveMilliseconds = overs, dc_buckets = (dc_buckets counters)[bucket := count]\<rparr>)"

lemma AtMostMicroseconds_exact: "AtMostMicroseconds ticks frequency micros \<longleftrightarrow> ticks * 1000000 \<le> frequency * micros"
proof -
  have "frequency * micros = (frequency div 1000000 * 1000000 + frequency mod 1000000) * micros"
    by (simp only: div_mult_mod_eq)
  also have "\<dots> = frequency mod 1000000 * micros + frequency div 1000000 * micros * 1000000"
    by (simp only: add_mult_distrib add_mult_distrib2 ac_simps)
  finally have "frequency * micros div 1000000 = frequency div 1000000 * micros + frequency mod 1000000 * micros div 1000000"
    by simp
  moreover have "ticks \<le> frequency * micros div 1000000 \<longleftrightarrow> ticks * 1000000 \<le> frequency * micros"
    by (rule less_eq_div_iff_mult_less_eq) simp
  ultimately show ?thesis by (simp only: AtMostMicroseconds_def Let_def)
qed

lemma bucket_bound: "bucket_loop elapsed frequency limits b \<le> b + length limits"
proof (induction limits arbitrary: b)
  case Nil
  then show ?case by simp
next
  case (Cons l ls)
  from Cons.IH [of "b + 1"] show ?case by simp
qed

lemma bucket_duration: "bucket_loop elapsed frequency duration_limits 0 < 6"
  using bucket_bound [of elapsed frequency duration_limits 0] by (simp add: duration_limits_def)

text \<open>The histogram of a value: the counters of a list of durations, without a bound.\<close>

definition tally :: "nat \<Rightarrow> nat list \<Rightarrow> DurationCounters" where
  "tally frequency es =
     \<lparr>dc_calls = length es, dc_elapsedTicks = sum_list es, dc_maximumTicks = fold max es 0,
      dc_overFiveMilliseconds = length (filter (\<lambda>e. e * 1000000 > frequency * 5000) es),
      dc_buckets = map (\<lambda>b. length (filter (\<lambda>e.
        (b = 0 \<or> e * 1000000 > frequency * duration_limits ! (b - 1)) \<and>
        (b = 5 \<or> e * 1000000 \<le> frequency * duration_limits ! b)) es)) [0..<6]\<rparr>"

lemma bucket_class:
  assumes "b < 6"
  shows "bucket_loop e frequency duration_limits 0 = b \<longleftrightarrow>
    (b = 0 \<or> e * 1000000 > frequency * duration_limits ! (b - 1)) \<and>
    (b = 5 \<or> e * 1000000 \<le> frequency * duration_limits ! b)"
proof -
  define P where "P x = AtMostMicroseconds e frequency x" for x
  have P: "P x = (e * 1000000 \<le> frequency * x)" for x by (simp add: P_def AtMostMicroseconds_exact)
  have mono: "P x \<Longrightarrow> x \<le> y \<Longrightarrow> P y" for x y
    unfolding P by (meson le_trans mult_le_mono2)
  have ms: "P 10 \<longrightarrow> P 100" "P 100 \<longrightarrow> P 1000" "P 1000 \<longrightarrow> P 5000" "P 5000 \<longrightarrow> P 50000"
    using mono by simp_all
  have loop: "bucket_loop e frequency duration_limits 0 =
      (if P 10 then 0 else if P 100 then 1 else if P 1000 then 2 else if P 5000 then 3
       else if P 50000 then 4 else 5)"
    by (simp add: duration_limits_def P_def)
  have goal: "(bucket_loop e frequency duration_limits 0 = b) =
    ((b = 0 \<or> \<not> P (duration_limits ! (b - 1))) \<and> (b = 5 \<or> P (duration_limits ! b)))"
  proof -
    have "b = 0 \<or> b = 1 \<or> b = 2 \<or> b = 3 \<or> b = 4 \<or> b = 5" using assms by linarith
    then show ?thesis
      unfolding loop using ms
      by (elim disjE; cases "P 10"; cases "P 100"; cases "P 1000"; cases "P 5000"; cases "P 50000";
          simp add: duration_limits_def)
  qed
  show ?thesis unfolding goal P not_le by (rule refl)
qed

lemma tally_bucket:
  "i < 6 \<Longrightarrow> dc_buckets (tally frequency es) ! i =
     length (filter (\<lambda>e. bucket_loop e frequency duration_limits 0 = i) es)"
  by (simp only: tally_def DurationCounters.simps bucket_class) (simp del: upt_Suc)

lemma length_tally [simp]: "length (dc_buckets (tally frequency es)) = 6"
  by (simp add: tally_def)

lemma fold_max_snoc: "fold max (es @ [e]) (0::nat) = max e (fold max es 0)"
  by simp

lemma tally_snoc:
  "tally frequency (es @ [e]) =
    (let c = tally frequency es; b = bucket_loop e frequency duration_limits 0 in
     \<lparr>dc_calls = dc_calls c + 1, dc_elapsedTicks = dc_elapsedTicks c + e,
      dc_maximumTicks = max e (dc_maximumTicks c),
      dc_overFiveMilliseconds = dc_overFiveMilliseconds c + (if e * 1000000 > frequency * 5000 then 1 else 0),
      dc_buckets = (dc_buckets c)[b := dc_buckets c ! b + 1]\<rparr>)"
proof -
  let ?b = "bucket_loop e frequency duration_limits 0"
  have b: "?b < 6" by (rule bucket_duration)
  have "dc_buckets (tally frequency (es @ [e])) =
      (dc_buckets (tally frequency es))[?b := dc_buckets (tally frequency es) ! ?b + 1]"
  proof (rule nth_equalityI)
    show "length (dc_buckets (tally frequency (es @ [e]))) =
        length ((dc_buckets (tally frequency es))[?b := dc_buckets (tally frequency es) ! ?b + 1])"
      by simp
    fix i
    assume "i < length (dc_buckets (tally frequency (es @ [e])))"
    then have i: "i < 6" by simp
    then show "dc_buckets (tally frequency (es @ [e])) ! i =
        (dc_buckets (tally frequency es))[?b := dc_buckets (tally frequency es) ! ?b + 1] ! i"
      using b by (cases "?b = i") (simp_all add: tally_bucket)
  qed
  moreover have "dc_calls (tally frequency (es @ [e])) = dc_calls (tally frequency es) + 1"
    "dc_elapsedTicks (tally frequency (es @ [e])) = dc_elapsedTicks (tally frequency es) + e"
    "dc_maximumTicks (tally frequency (es @ [e])) = max e (dc_maximumTicks (tally frequency es))"
    "dc_overFiveMilliseconds (tally frequency (es @ [e])) =
       dc_overFiveMilliseconds (tally frequency es) + (if e * 1000000 > frequency * 5000 then 1 else 0)"
    by (simp_all add: tally_def)
  ultimately show ?thesis
    unfolding Let_def by (intro DurationCounters.equality) simp_all
qed

text \<open>Durations accounted one after another, until one is refused.\<close>

fun account_all :: "nat \<Rightarrow> DurationCounters \<Rightarrow> nat list \<Rightarrow> DurationCounters option" where
  "account_all frequency c [] = Some c"
| "account_all frequency c (e # es) =
     (case AccountDuration c e frequency of None \<Rightarrow> None | Some c' \<Rightarrow> account_all frequency c' es)"

lemma account_all_snoc:
  "account_all frequency c (es @ [e]) =
    (case account_all frequency c es of None \<Rightarrow> None | Some c' \<Rightarrow> AccountDuration c' e frequency)"
  by (induction es arbitrary: c) (auto split: option.splits)

definition clock_ok :: "nat \<Rightarrow> bool" where
  "clock_ok frequency \<longleftrightarrow> 0 < frequency \<and> frequency \<le> i64_max_nat div 45"

lemma AccountDuration_tally:
  assumes "clock_ok frequency" and "length es \<le> u64_max" and "sum_list es \<le> u64_max"
  shows "AccountDuration (tally frequency es) e frequency =
    (if length es + 1 \<le> u64_max \<and> sum_list es + e \<le> u64_max then Some (tally frequency (es @ [e])) else None)"
proof -
  let ?b = "bucket_loop e frequency duration_limits 0"
  have f: "\<not> (frequency = 0 \<or> frequency > i64_max_nat div 45)" using assms(1) by (simp add: clock_ok_def)
  have le: "length (filter Q es) \<le> length es" for Q by simp
  have b: "dc_buckets (tally frequency es) ! ?b \<le> length es"
    using le by (simp add: tally_bucket bucket_duration)
  have o: "dc_overFiveMilliseconds (tally frequency es) \<le> length es"
    using le by (simp add: tally_def)
  have sel: "dc_calls (tally frequency es) = length es" "dc_elapsedTicks (tally frequency es) = sum_list es"
    by (simp_all add: tally_def)
  show ?thesis
  proof (cases "length es + 1 \<le> u64_max \<and> sum_list es + e \<le> u64_max")
    case True
    then have nofl: "\<not> 1 > u64_max - length es" "\<not> e > u64_max - sum_list es"
      "\<not> 1 > u64_max - dc_buckets (tally frequency es) ! ?b"
      "\<not> 1 > u64_max - dc_overFiveMilliseconds (tally frequency es)"
      using b o by linarith+
    show ?thesis
      unfolding AccountDuration_def Let_def IncrementCounter_def sel
      using True f nofl
      by (simp only: if_False if_True option.case tally_snoc Let_def sel AtMostMicroseconds_exact not_le)
        (simp add: max_def)
  next
    case False
    then have "1 > u64_max - length es \<or> e > u64_max - sum_list es" using assms(2,3) by linarith
    with False f show ?thesis
      unfolding AccountDuration_def Let_def IncrementCounter_def sel
      by (auto split: option.splits)
  qed
qed

text \<open>
  C22: Accounting a list of durations from zero succeeds exactly when the clock frequency is in
  range and neither the number of calls nor their total overflows 64 bits, and then the
  counters are the exact histogram: each duration in the bucket of its microsecond class,
  compared as rationals without rounding, the total, the maximum and the calls over 5 ms.
\<close>

theorem account_durations_exact:
  "account_all frequency (tally frequency []) es =
    (if es = [] \<or> (clock_ok frequency \<and> length es \<le> u64_max \<and> sum_list es \<le> u64_max)
     then Some (tally frequency es) else None)"
proof (induction es rule: rev_induct)
  case Nil
  then show ?case by simp
next
  case (snoc e es)
  show ?case
  proof (cases "clock_ok frequency")
    case False
    then have "AccountDuration c e frequency = None" for c by (auto simp: AccountDuration_def clock_ok_def)
    with False snoc show ?thesis by (auto simp: account_all_snoc split: option.splits)
  next
    case True
    show ?thesis
    proof (cases "length es \<le> u64_max \<and> sum_list es \<le> u64_max")
      case False
      then have "es \<noteq> []" by auto
      with False snoc show ?thesis by (auto simp: account_all_snoc)
    next
      case le: True
      with True snoc have "account_all frequency (tally frequency []) es = Some (tally frequency es)" by simp
      with True le AccountDuration_tally [OF True, of es e] show ?thesis
        by (simp add: account_all_snoc)
    qed
  qed
qed

end
