(* ===== verification/StatusV3.thy ===== *)
theory StatusV3
  imports StatusWire
begin

text \<open>
  The native-log status wire (\<open>src/shared/steam_reporting_status_v3.h\<close>,
  \<open>src/companion/steam_reporting_status_v3.cpp\<close>): four regions with one writer each, the
  sticky gates any thread may set, and the coherent copy of the owner's region.

  A writing operation is a function from the memory it finds to its result and its atomic
  operations, in program order.  What it reads is written by its own thread alone, apart from the
  compare-and-exchange tests, whose memory is the one at that instant.
\<close>

section \<open>Vocabulary\<close>

definition kStatusSchemaV3 :: nat where "kStatusSchemaV3 = 3"
definition kReportingArtifactVersionV3 :: nat where "kReportingArtifactVersionV3 = 0x00070100"
definition kRuntimeReasonCountV3 :: nat where "kRuntimeReasonCountV3 = 59"

text \<open>The value of an enumerator is its position in the declaration.\<close>

definition enum_value :: "'a list \<Rightarrow> 'a \<Rightarrow> nat" where
  "enum_value vs x = length (takeWhile (\<lambda>y. y \<noteq> x) vs)"

datatype (plugins only: code size) TransportReason =
    TR_None | TR_AwaitingLogger | TR_CategorySuppressed | TR_ForceFlushMissing
  | TR_FramingUnsupported | TR_SinkUnsupported | TR_FileManagerUnsupported
  | TR_ReceiptUnavailable | TR_ReaderBehind | TR_ReceiptOverdue | TR_CreditPressure
  | TR_SameFileRequalification | TR_ReceiptGap | TR_ReceiptCorrupt | TR_FileIdentityChanged
  | TR_FileTruncated | TR_ProfileUnsafe | TR_NativeLogException

definition TransportReason_values :: "TransportReason list" where
  "TransportReason_values =
    [TR_None, TR_AwaitingLogger, TR_CategorySuppressed, TR_ForceFlushMissing,
     TR_FramingUnsupported, TR_SinkUnsupported, TR_FileManagerUnsupported,
     TR_ReceiptUnavailable, TR_ReaderBehind, TR_ReceiptOverdue, TR_CreditPressure,
     TR_SameFileRequalification, TR_ReceiptGap, TR_ReceiptCorrupt, TR_FileIdentityChanged,
     TR_FileTruncated, TR_ProfileUnsafe, TR_NativeLogException]"

definition TransportReason_value :: "TransportReason \<Rightarrow> nat" where
  "TransportReason_value = enum_value TransportReason_values"

definition TransportReason_Count :: nat where "TransportReason_Count = 18"

datatype TransportState = TS_WaitingLogger | TS_Running | TS_Paused | TS_Faulted | TS_Stopping

definition TransportState_value :: "TransportState \<Rightarrow> nat" where
  "TransportState_value = enum_value [TS_WaitingLogger, TS_Running, TS_Paused, TS_Faulted, TS_Stopping]"

datatype ReportPhaseV3 =
    P3_Uninitialized | P3_Initializing | P3_Rejected | P3_Prepared | P3_AwaitingInit | P3_Observing
  | P3_Repairing | P3_Stopping | P3_Faulted | P3_WaitingLogger | P3_Paused

definition ReportPhaseV3_value :: "ReportPhaseV3 \<Rightarrow> nat" where
  "ReportPhaseV3_value = enum_value
     [P3_Uninitialized, P3_Initializing, P3_Rejected, P3_Prepared, P3_AwaitingInit, P3_Observing,
      P3_Repairing, P3_Stopping, P3_Faulted, P3_WaitingLogger, P3_Paused]"

lemmas value_defs = TransportReason_value_def TransportReason_values_def TransportState_value_def
  ReportPhaseV3_value_def enum_value_def

section \<open>Structures\<close>

record OwnerTransport =
  ot_state :: nat
  ot_reason :: nat
  ot_startupSubmitted :: nat
  ot_actualRepairAdmitted :: nat
  ot_generatedSequence :: nat
  ot_submittedSequence :: nat
  ot_pauseEpoch :: nat
  ot_pauseBoundarySequence :: nat
  ot_transitionSequence :: nat
  ot_transitionQpc :: nat
  ot_forwardedPumpWithoutCapture :: nat
  ot_forwardedBuilderWithoutCapture :: nat
  ot_reservedCredits :: nat
  ot_submitWindowStartQpc :: nat
  ot_submitWindowCount :: nat
  ot_nativeSubmitCalls :: nat
  ot_nativeSubmitElapsedTicks :: nat
  ot_nativeSubmitMaximumTicks :: nat
  ot_nativeSubmitOverFiveMilliseconds :: nat
  ot_lastNativeSubmitQpc :: nat
  ot_qualifiedSinkEpoch :: nat
  ot_reserved :: nat

definition words_of_transport :: "OwnerTransport \<Rightarrow> nat list" where
  "words_of_transport r =
     [ot_state r, ot_reason r, ot_startupSubmitted r, ot_actualRepairAdmitted r,
     ot_generatedSequence r, ot_submittedSequence r, ot_pauseEpoch r, ot_pauseBoundarySequence r,
     ot_transitionSequence r, ot_transitionQpc r, ot_forwardedPumpWithoutCapture r,
     ot_forwardedBuilderWithoutCapture r, ot_reservedCredits r, ot_submitWindowStartQpc r,
     ot_submitWindowCount r, ot_nativeSubmitCalls r, ot_nativeSubmitElapsedTicks r,
     ot_nativeSubmitMaximumTicks r, ot_nativeSubmitOverFiveMilliseconds r, ot_lastNativeSubmitQpc
     r, ot_qualifiedSinkEpoch r, ot_reserved r]"

definition transport_of_words :: "nat list \<Rightarrow> OwnerTransport" where
  "transport_of_words ws =
     \<lparr>ot_state = ws ! 0, ot_reason = ws ! 1, ot_startupSubmitted = ws ! 2,
     ot_actualRepairAdmitted = ws ! 3, ot_generatedSequence = ws ! 4, ot_submittedSequence = ws !
     5, ot_pauseEpoch = ws ! 6, ot_pauseBoundarySequence = ws ! 7, ot_transitionSequence = ws ! 8,
     ot_transitionQpc = ws ! 9, ot_forwardedPumpWithoutCapture = ws ! 10,
     ot_forwardedBuilderWithoutCapture = ws ! 11, ot_reservedCredits = ws ! 12,
     ot_submitWindowStartQpc = ws ! 13, ot_submitWindowCount = ws ! 14, ot_nativeSubmitCalls = ws
     ! 15, ot_nativeSubmitElapsedTicks = ws ! 16, ot_nativeSubmitMaximumTicks = ws ! 17,
     ot_nativeSubmitOverFiveMilliseconds = ws ! 18, ot_lastNativeSubmitQpc = ws ! 19,
     ot_qualifiedSinkEpoch = ws ! 20, ot_reserved = ws ! 21\<rparr>"

lemma transport_of_words_of [simp]: "transport_of_words (words_of_transport r) = r"
  by (simp add: transport_of_words_def words_of_transport_def)

lemma length_words_of_transport [simp]: "length (words_of_transport r) = 22"
  by (simp add: words_of_transport_def)

record WorkerTransport =
  wt_startupObserved :: nat
  wt_preparedSequence :: nat
  wt_observedSequence :: nat
  wt_lastReceiptQpc :: nat
  wt_readerOffset :: nat
  wt_partialBytes :: nat
  wt_ledgerDepth :: nat
  wt_readyDepth :: nat
  wt_ringReadSequence :: nat
  wt_readCycles :: nat
  wt_readBytes :: nat
  wt_formatCalls :: nat
  wt_formatTicks :: nat
  wt_receiptTicks :: nat
  wt_pauseReason :: nat
  wt_pauseConditionSequence :: nat
  wt_pauseConditionQpc :: nat
  wt_lastReadError :: nat
  wt_matchedAwaitingSubmitSequence :: nat
  wt_reserved :: nat

definition words_of_worker :: "WorkerTransport \<Rightarrow> nat list" where
  "words_of_worker r =
     [wt_startupObserved r, wt_preparedSequence r, wt_observedSequence r, wt_lastReceiptQpc r,
     wt_readerOffset r, wt_partialBytes r, wt_ledgerDepth r, wt_readyDepth r, wt_ringReadSequence
     r, wt_readCycles r, wt_readBytes r, wt_formatCalls r, wt_formatTicks r, wt_receiptTicks r,
     wt_pauseReason r, wt_pauseConditionSequence r, wt_pauseConditionQpc r, wt_lastReadError r,
     wt_matchedAwaitingSubmitSequence r, wt_reserved r]"

definition worker_of_words :: "nat list \<Rightarrow> WorkerTransport" where
  "worker_of_words ws =
     \<lparr>wt_startupObserved = ws ! 0, wt_preparedSequence = ws ! 1, wt_observedSequence = ws !
     2, wt_lastReceiptQpc = ws ! 3, wt_readerOffset = ws ! 4, wt_partialBytes = ws ! 5,
     wt_ledgerDepth = ws ! 6, wt_readyDepth = ws ! 7, wt_ringReadSequence = ws ! 8, wt_readCycles
     = ws ! 9, wt_readBytes = ws ! 10, wt_formatCalls = ws ! 11, wt_formatTicks = ws ! 12,
     wt_receiptTicks = ws ! 13, wt_pauseReason = ws ! 14, wt_pauseConditionSequence = ws ! 15,
     wt_pauseConditionQpc = ws ! 16, wt_lastReadError = ws ! 17, wt_matchedAwaitingSubmitSequence
     = ws ! 18, wt_reserved = ws ! 19\<rparr>"

lemma worker_of_words_of [simp]: "worker_of_words (words_of_worker r) = r"
  by (simp add: worker_of_words_def words_of_worker_def)

lemma length_words_of_worker [simp]: "length (words_of_worker r) = 20"
  by (simp add: words_of_worker_def)

record ConsoleDiagnostics =
  cd_attempts :: nat
  cd_written :: nat
  cd_failures :: nat
  cd_lastError :: nat
  cd_lastAttemptQpc :: nat
  cd_lastNoticeEpoch :: nat
  cd_skippedTransitions :: nat
  cd_workerState :: nat

definition words_of_console :: "ConsoleDiagnostics \<Rightarrow> nat list" where
  "words_of_console r =
     [cd_attempts r, cd_written r, cd_failures r, cd_lastError r, cd_lastAttemptQpc r,
     cd_lastNoticeEpoch r, cd_skippedTransitions r, cd_workerState r]"

definition console_of_words :: "nat list \<Rightarrow> ConsoleDiagnostics" where
  "console_of_words ws =
     \<lparr>cd_attempts = ws ! 0, cd_written = ws ! 1, cd_failures = ws ! 2, cd_lastError = ws !
     3, cd_lastAttemptQpc = ws ! 4, cd_lastNoticeEpoch = ws ! 5, cd_skippedTransitions = ws ! 6,
     cd_workerState = ws ! 7\<rparr>"

lemma console_of_words_of [simp]: "console_of_words (words_of_console r) = r"
  by (simp add: console_of_words_def words_of_console_def)

lemma length_words_of_console [simp]: "length (words_of_console r) = 8"
  by (simp add: words_of_console_def)

record LogIdentity =
  li_volumeSerial :: nat
  li_fileId :: "byte list"
  li_initialEOF :: nat
  li_pathChars :: nat
  li_prefixMode :: nat
  li_transportKind :: nat
  li_durability :: nat
  li_utcFiletime :: nat
  li_calibrationQpcBefore :: nat
  li_calibrationQpcAfter :: nat
  li_initialAtLineBoundary :: nat
  li_path :: "nat list"

text \<open>The path is an array of 1024 UTF-16 units, four to a word.\<close>

fun words_of_units :: "nat list \<Rightarrow> nat list" where
  "words_of_units (a # b # c # d # rest) = (a + 2 ^ 16 * b + 2 ^ 32 * c + 2 ^ 48 * d) # words_of_units rest"
| "words_of_units _ = []"

definition units_of_words :: "nat list \<Rightarrow> nat list" where
  "units_of_words ws = concat (map (\<lambda>w. [w mod 2 ^ 16, w div 2 ^ 16 mod 2 ^ 16,
     w div 2 ^ 32 mod 2 ^ 16, w div 2 ^ 48 mod 2 ^ 16]) ws)"

definition words_of_log :: "LogIdentity \<Rightarrow> nat list" where
  "words_of_log l =
     [li_volumeSerial l] @ words_of_bytes (li_fileId l) @
     [li_initialEOF l, li_pathChars l, li_prefixMode l, li_transportKind l, li_durability l,
      li_utcFiletime l, li_calibrationQpcBefore l, li_calibrationQpcAfter l, li_initialAtLineBoundary l] @
     words_of_units (li_path l)"

definition log_of_words :: "nat list \<Rightarrow> LogIdentity" where
  "log_of_words ws =
     \<lparr>li_volumeSerial = ws ! 0, li_fileId = bytes_of_words (slice 1 2 ws), li_initialEOF = ws ! 3,
      li_pathChars = ws ! 4, li_prefixMode = ws ! 5, li_transportKind = ws ! 6, li_durability = ws ! 7,
      li_utcFiletime = ws ! 8, li_calibrationQpcBefore = ws ! 9, li_calibrationQpcAfter = ws ! 10,
      li_initialAtLineBoundary = ws ! 11, li_path = units_of_words (slice 12 256 ws)\<rparr>"

section \<open>The wire\<close>

definition v3_headerReady :: nat where "v3_headerReady = 16"
definition v3_ownerSequence :: nat where "v3_ownerSequence = 17"
definition v3_workerSequence :: nat where "v3_workerSequence = 18"
definition v3_consoleSequence :: nat where "v3_consoleSequence = 19"
definition v3_logIdentityReady :: nat where "v3_logIdentityReady = 20"
definition v3_revokeReasons :: nat where "v3_revokeReasons = 21"
definition v3_lossReasons :: nat where "v3_lossReasons = 22"
definition v3_stopping :: nat where "v3_stopping = 23"
definition v3_stoppedQpc :: nat where "v3_stoppedQpc = 24"
definition v3_workerPauseReason :: nat where "v3_workerPauseReason = 25"
definition v3_fatalTransportReason :: nat where "v3_fatalTransportReason = 26"
definition v3_reserved :: nat where "v3_reserved = 27"
definition v3_owner :: nat where "v3_owner = 32"
definition v3_ownerTransport :: nat where "v3_ownerTransport = 169"
definition v3_worker :: nat where "v3_worker = 191"
definition v3_console :: nat where "v3_console = 211"
definition v3_log :: nat where "v3_log = 219"
definition sizeof_StatusWireV3 :: nat where "sizeof_StatusWireV3 = 3896"

lemmas v3_offsets = v3_headerReady_def v3_ownerSequence_def v3_workerSequence_def v3_consoleSequence_def
  v3_logIdentityReady_def v3_revokeReasons_def v3_lossReasons_def v3_stopping_def v3_stoppedQpc_def
  v3_workerPauseReason_def v3_fatalTransportReason_def v3_reserved_def v3_owner_def v3_ownerTransport_def
  v3_worker_def v3_console_def v3_log_def

section \<open>Gates\<close>

definition RevokeStatusV3 :: "Reason \<Rightarrow> atomic list" where
  "RevokeStatusV3 reason = [Orr v3_revokeReasons (Mask_of reason)]"

definition LoseStatusV3 :: "Reason \<Rightarrow> atomic list" where
  "LoseStatusV3 reason = Orr v3_lossReasons (Mask_of reason) # RevokeStatusV3 reason"

definition StopStatusV3 :: "wordmem \<Rightarrow> nat \<Rightarrow> atomic list" where
  "StopStatusV3 m qpc = Cas v3_stopping 0 1 # (if m v3_stopping = 0 then [Put v3_stoppedQpc qpc] else [])"

definition StatusRevokedV3 :: "(nat \<Rightarrow> ('w, nat) state) \<Rightarrow> ('w, bool) state" where
  "StatusRevokedV3 load =
     orM (word_set load v3_revokeReasons) (orM (word_set load v3_lossReasons)
       (orM (word_set load v3_stopping) (word_set load v3_fatalTransportReason)))"

definition LatchTransportFault :: "TransportReason \<Rightarrow> bool \<times> atomic list" where
  "LatchTransportFault reason =
     (let v = TransportReason_value reason in
      if v < TransportReason_value TR_ReceiptGap \<or> v \<ge> TransportReason_Count then (False, [])
      else (True, Cas v3_fatalTransportReason 0 v #
        (if v \<le> TransportReason_value TR_FileTruncated then LoseStatusV3 R_RecordLoss
         else RevokeStatusV3 (if reason = TR_ProfileUnsafe then R_ProfileMismatch else R_NativeUnwind))))"

section \<open>Publications\<close>

text \<open>\<open>StartPublication\<close>: the sequence found and the store of the odd one, or a refusal.\<close>

definition StartPublication :: "wordmem \<Rightarrow> nat \<Rightarrow> (nat \<times> atomic list) option" where
  "StartPublication m sequence =
     (let before = m sequence in
      if odd before \<or> before > u64_max - 2 then None else Some (before, [Put sequence (before + 1)]))"

definition published_headerV3 :: "StatusHeader \<Rightarrow> StatusHeader" where
  "published_headerV3 header = header\<lparr>sh_magic := kStatusMagic, sh_schema := kStatusSchemaV3,
     sh_bytes := sizeof_StatusWireV3, sh_artifactVersion := kReportingArtifactVersionV3,
     sh_reserved := replicate 4 0\<rparr>"

definition transport_zero :: OwnerTransport where
  "transport_zero = transport_of_words (replicate 22 0)"

definition initial_transport :: "StatusPayload \<Rightarrow> OwnerTransport" where
  "initial_transport owner = transport_zero\<lparr>ot_state := TransportState_value TS_WaitingLogger,
     ot_reason := TransportReason_value TR_AwaitingLogger, ot_generatedSequence := own_reportSequence owner\<rparr>"

definition InitializeStatusV3 :: "wordmem \<Rightarrow> StatusHeader \<Rightarrow> StatusPayload \<Rightarrow> bool \<times> atomic list" where
  "InitializeStatusV3 m header owner =
     (if m v3_headerReady \<noteq> 0 then (False, [Cas v3_headerReady 0 2])
      else (True, [Cas v3_headerReady 0 2] @
        StoreWords 0 (words_of_header (published_headerV3 header)) @
        StoreWords v3_reserved (replicate 5 0) @
        [Put v3_ownerSequence 1] @
        StoreWords v3_owner (words_of_payload owner) @
        StoreWords v3_ownerTransport (words_of_transport (initial_transport owner)) @
        [Put v3_ownerSequence 2] @
        [Put v3_workerSequence 1] @ StoreWords v3_worker (replicate 20 0) @ [Put v3_workerSequence 2] @
        [Put v3_consoleSequence 1] @ StoreWords v3_console (replicate 8 0) @ [Put v3_consoleSequence 2] @
        [Put v3_headerReady 1]))"

definition PublishOwnerV3 :: "wordmem \<Rightarrow> StatusPayload \<Rightarrow> OwnerTransport \<Rightarrow> bool \<times> atomic list" where
  "PublishOwnerV3 m owner input =
     (if m v3_headerReady \<noteq> 1 then (False, [])
      else if ot_state input > TransportState_value TS_Stopping \<or>
          ot_reason input \<ge> TransportReason_Count \<or>
          ot_generatedSequence input \<noteq> own_reportSequence owner \<or>
          ot_submittedSequence input > ot_generatedSequence input \<or>
          ot_generatedSequence input < m (v3_ownerTransport + 4) \<or>
          ot_submittedSequence input < m (v3_ownerTransport + 5) \<or>
          ot_startupSubmitted input > 1 \<or> ot_actualRepairAdmitted input > 1
        then (False, RevokeStatusV3 R_StatusUnavailable)
      else case StartPublication m v3_ownerSequence of
        None \<Rightarrow> (False, RevokeStatusV3 R_CounterOverflow)
      | Some (sequence, start) \<Rightarrow>
          (True, start @ StoreWords v3_owner (words_of_payload owner) @
            StoreWords v3_ownerTransport (words_of_transport (input\<lparr>ot_reserved := 0\<rparr>)) @
            [Put v3_ownerSequence (sequence + 2)]))"

record OwnerSnapshotV3 =
  os_owner :: StatusPayload
  os_transport :: OwnerTransport
  os_sequence :: nat

fun ReadOwnerV3_attempts :: "(nat \<Rightarrow> ('w, nat) state) \<Rightarrow> nat \<Rightarrow> ('w, OwnerSnapshotV3 option) state" where
  "ReadOwnerV3_attempts load 0 = State_Monad.return None"
| "ReadOwnerV3_attempts load (Suc k) = do {
     ready \<leftarrow> load v3_headerReady;
     if ready \<noteq> 1 then State_Monad.return None
     else do {
       before \<leftarrow> load v3_ownerSequence;
       if before < 2 \<or> odd before then ReadOwnerV3_attempts load k
       else do {
         ow \<leftarrow> LoadWords load v3_owner payload_words;
         tw \<leftarrow> LoadWords load v3_ownerTransport 22;
         after \<leftarrow> load v3_ownerSequence;
         if before \<noteq> after \<or> odd after then ReadOwnerV3_attempts load k
         else do {
           ready \<leftarrow> load v3_headerReady;
           if ready \<noteq> 1 then ReadOwnerV3_attempts load k
           else State_Monad.return (Some \<lparr>os_owner = payload_of_words ow,
             os_transport = transport_of_words tw, os_sequence = after\<rparr>) } } } }"

definition ReadOwnerV3 :: "(nat \<Rightarrow> ('w, nat) state) \<Rightarrow> ('w, OwnerSnapshotV3 option) state" where
  "ReadOwnerV3 load = ReadOwnerV3_attempts load 3"

text \<open>
  The worker's publication.  \<open>snapshot\<close> is what its \<open>ReadOwnerV3\<close> gives, between the store of
  the pause gate and the rest.
\<close>

definition PublishWorkerV3 ::
  "wordmem \<Rightarrow> OwnerSnapshotV3 option \<Rightarrow> WorkerTransport \<Rightarrow> bool \<times> atomic list" where
  "PublishWorkerV3 m snapshot input =
     (if m v3_headerReady \<noteq> 1 then (False, [])
      else if wt_pauseReason input > TransportReason_value TR_SameFileRequalification \<or>
          wt_startupObserved input > 1
        then (False, RevokeStatusV3 R_StatusUnavailable)
      else
        let gate = (if wt_pauseReason input \<noteq> 0 then [Put v3_workerPauseReason (wt_pauseReason input)] else []) in
        case snapshot of None \<Rightarrow> (False, gate)
        | Some owner \<Rightarrow>
            if wt_observedSequence input > ot_submittedSequence (os_transport owner) \<or>
               wt_observedSequence input > wt_preparedSequence input \<or>
               wt_observedSequence input < m (v3_worker + 2) \<or>
               wt_preparedSequence input < m (v3_worker + 1)
            then (False, gate @ LoseStatusV3 R_RecordLoss)
            else
              let worker = input\<lparr>wt_preparedSequence :=
                    min (wt_preparedSequence input) (ot_generatedSequence (os_transport owner)),
                    wt_reserved := 0\<rparr> in
              case StartPublication m v3_workerSequence of
                None \<Rightarrow> (False, gate @ RevokeStatusV3 R_CounterOverflow)
              | Some (sequence, start) \<Rightarrow>
                  (True, gate @ start @ StoreWords v3_worker (words_of_worker worker) @
                    [Put v3_workerSequence (sequence + 2)] @
                    (if wt_pauseReason input = 0 then [Put v3_workerPauseReason 0] else [])))"

definition console_ok :: "ConsoleDiagnostics \<Rightarrow> bool" where
  "console_ok input \<longleftrightarrow> \<not> (cd_workerState input > 3 \<or> cd_written input > cd_attempts input \<or>
     cd_failures input > cd_attempts input \<or> cd_written input > cd_attempts input - cd_failures input)"

definition PublishConsoleV3 :: "wordmem \<Rightarrow> ConsoleDiagnostics \<Rightarrow> bool \<times> atomic list" where
  "PublishConsoleV3 m input =
     (if m v3_headerReady \<noteq> 1 \<or> \<not> console_ok input then (False, [])
      else case StartPublication m v3_consoleSequence of
        None \<Rightarrow> (False, [])
      | Some (sequence, start) \<Rightarrow>
          (True, start @ StoreWords v3_console (words_of_console input) @ [Put v3_consoleSequence (sequence + 2)]))"

text \<open>The tests of a log identity; the path has 1024 units, so its terminator is always inside.\<close>

definition log_identity_ok :: "LogIdentity \<Rightarrow> bool" where
  "log_identity_ok l \<longleftrightarrow>
     \<not> (li_pathChars l = 0 \<or> li_pathChars l > 1023 \<or> li_path l ! li_pathChars l \<noteq> 0 \<or>
        li_prefixMode l > 1 \<or> li_transportKind l \<noteq> 1 \<or> li_durability l \<noteq> 0 \<or>
        li_initialAtLineBoundary l > 1 \<or> li_utcFiletime l = 0 \<or> li_calibrationQpcBefore l = 0 \<or>
        li_calibrationQpcAfter l < li_calibrationQpcBefore l)"

definition PublishLogIdentityV3 :: "wordmem \<Rightarrow> LogIdentity \<Rightarrow> bool \<times> atomic list" where
  "PublishLogIdentityV3 m identity =
     (if m v3_headerReady \<noteq> 1 \<or> \<not> log_identity_ok identity then (False, [])
      else if \<not> list_all (\<lambda>i. li_path identity ! i \<noteq> 0) [0..<li_pathChars identity] then (False, [])
      else if m v3_logIdentityReady \<noteq> 0 then (False, [Cas v3_logIdentityReady 0 2])
      else (True, [Cas v3_logIdentityReady 0 2] @
        StoreWords v3_log (words_of_log (identity\<lparr>li_path :=
          take (li_pathChars identity) (li_path identity) @ replicate (1024 - li_pathChars identity) 0\<rparr>)) @
        [Put v3_logIdentityReady 1]))"

section \<open>The owner's region\<close>

abbreviation owner_sites :: "nat set" where
  "owner_sites \<equiv> insert v3_ownerSequence (region v3_owner 159)"

abbreviation owner_op :: "atomic \<Rightarrow> bool" where
  "owner_op p \<equiv> site p \<in> owner_sites"

interpretation owner_region: seqlock v3_ownerSequence v3_owner 159
  by unfold_locales (simp add: v3_offsets region_def)

definition owner_words :: "StatusPayload \<times> OwnerTransport \<Rightarrow> nat list" where
  "owner_words pub = words_of_payload (fst pub) @ words_of_transport (snd pub)"

lemma length_owner_words: "payload_shape (fst pub) \<Longrightarrow> length (owner_words pub) = 159"
  by (simp add: owner_words_def length_words_of_payload)

lemma filter_StoreWords:
  "region base (length ws) \<subseteq> S \<Longrightarrow> filter (\<lambda>p. site p \<in> S) (StoreWords base ws) = StoreWords base ws"
  "region base (length ws) \<inter> S = {} \<Longrightarrow> filter (\<lambda>p. site p \<in> S) (StoreWords base ws) = []"
  using sites_StoreWords [of base ws] by (auto simp: filter_id_conv filter_empty_conv)

definition publish_owner :: "wordmem \<Rightarrow> StatusPayload \<times> OwnerTransport \<Rightarrow> bool \<times> atomic list" where
  "publish_owner m item = PublishOwnerV3 m (fst item) (snd item)"

definition as_published :: "StatusPayload \<times> OwnerTransport \<Rightarrow> StatusPayload \<times> OwnerTransport" where
  "as_published item = (fst item, (snd item)\<lparr>ot_reserved := 0\<rparr>)"

text \<open>What the owner thread does: one initialisation, then publications, each from the memory it finds.\<close>

definition owner_trace ::
  "wordmem \<Rightarrow> StatusHeader \<Rightarrow> StatusPayload \<Rightarrow> (StatusPayload \<times> OwnerTransport) list \<Rightarrow> atomic list" where
  "owner_trace m header owner inputs =
     (let ops = snd (InitializeStatusV3 m header owner) in ops @ program publish_owner (run_ops m ops) inputs)"

definition owner_publications ::
  "wordmem \<Rightarrow> StatusHeader \<Rightarrow> StatusPayload \<Rightarrow> (StatusPayload \<times> OwnerTransport) list \<Rightarrow>
   (StatusPayload \<times> OwnerTransport) list" where
  "owner_publications m header owner inputs =
     (owner, initial_transport owner) #
     map as_published (accepted publish_owner (run_ops m (snd (InitializeStatusV3 m header owner))) inputs)"

lemma length_published_headerV3: "header_shape h \<Longrightarrow> length (words_of_header (published_headerV3 h)) = 16"
  by (simp add: words_of_header_def published_headerV3_def header_shape_def length_words_of_bytes)

lemma owner_stores:
  assumes "payload_shape owner"
  shows "filter owner_op (StoreWords v3_owner (words_of_payload owner)) @
      filter owner_op (StoreWords v3_ownerTransport (words_of_transport transport)) =
    StoreWords v3_owner (owner_words (owner, transport))"
proof -
  have "filter owner_op (StoreWords v3_owner (words_of_payload owner)) = StoreWords v3_owner (words_of_payload owner)"
    "filter owner_op (StoreWords v3_ownerTransport (words_of_transport transport)) =
      StoreWords v3_ownerTransport (words_of_transport transport)"
    by (rule filter_StoreWords(1); use assms in \<open>auto simp: region_def v3_offsets length_words_of_payload\<close>)+
  moreover have "v3_ownerTransport = v3_owner + length (words_of_payload owner)"
    using assms by (simp add: v3_offsets length_words_of_payload)
  ultimately show ?thesis by (simp add: owner_words_def StoreWords_append)
qed

lemma filter_InitializeStatusV3:
  assumes "m v3_headerReady = 0" and "header_shape header" and "payload_shape owner"
  shows "filter owner_op (snd (InitializeStatusV3 m header owner)) =
    publish_ops v3_ownerSequence v3_owner 0 (owner_words (owner, initial_transport owner))"
proof -
  have none: "filter owner_op (StoreWords 0 (words_of_header (published_headerV3 header))) = []"
    "filter owner_op (StoreWords v3_reserved (replicate 5 0)) = []"
    "filter owner_op (StoreWords v3_worker (replicate 20 0)) = []"
    "filter owner_op (StoreWords v3_console (replicate 8 0)) = []"
    by (rule filter_StoreWords(2);
        use assms(2) in \<open>auto simp: region_def v3_offsets length_published_headerV3\<close>)+
  have site: "v3_headerReady \<notin> owner_sites" "v3_workerSequence \<notin> owner_sites" "v3_consoleSequence \<notin> owner_sites"
    by (auto simp: region_def v3_offsets)
  show ?thesis
    using assms none site owner_stores [OF assms(3), of "initial_transport owner", symmetric]
    by (simp add: InitializeStatusV3_def publish_ops_def)
qed

lemma filter_PublishOwnerV3:
  assumes "PublishOwnerV3 m owner transport = (ok, ops)" and "payload_shape owner"
  shows "filter owner_op ops = (if ok then publish_ops v3_ownerSequence v3_owner (m v3_ownerSequence)
      (owner_words (owner, transport\<lparr>ot_reserved := 0\<rparr>)) else []) \<and> (ok \<longrightarrow> even (m v3_ownerSequence))"
proof (cases ok)
  case True
  then have "even (m v3_ownerSequence)" and
    "ops = Put v3_ownerSequence (m v3_ownerSequence + 1) # StoreWords v3_owner (words_of_payload owner) @
      StoreWords v3_ownerTransport (words_of_transport (transport\<lparr>ot_reserved := 0\<rparr>)) @
      [Put v3_ownerSequence (m v3_ownerSequence + 2)]"
    using assms(1)
    by (auto simp: PublishOwnerV3_def StartPublication_def Let_def split: if_splits option.splits)
  then show ?thesis
    using True owner_stores [OF assms(2), of "transport\<lparr>ot_reserved := 0\<rparr>", symmetric]
    by (simp add: publish_ops_def)
next
  case False
  then have "filter owner_op ops = []"
    using assms(1)
    by (auto simp: PublishOwnerV3_def StartPublication_def Let_def RevokeStatusV3_def region_def v3_offsets
        split: if_splits option.splits)
  with False show ?thesis by simp
qed

interpretation owner_publisher: publisher v3_ownerSequence v3_owner 159 publish_owner
    "\<lambda>item. owner_words (as_published item)" "\<lambda>item. payload_shape (fst item)"
proof unfold_locales
  fix item :: "StatusPayload \<times> OwnerTransport" and m ok ops
  show "payload_shape (fst item) \<Longrightarrow> length (owner_words (as_published item)) = 159"
    by (simp add: length_owner_words as_published_def)
  show "publish_owner m item = (ok, ops) \<Longrightarrow> payload_shape (fst item) \<Longrightarrow>
      filter owner_op ops = (if ok then publish_ops v3_ownerSequence v3_owner (m v3_ownerSequence)
        (owner_words (as_published item)) else [])"
    unfolding publish_owner_def as_published_def by (rule conjunct1 [OF filter_PublishOwnerV3])
  show "publish_owner m item = (True, ops) \<Longrightarrow> even (m v3_ownerSequence)"
    by (auto simp: publish_owner_def PublishOwnerV3_def StartPublication_def Let_def split: if_splits option.splits)
qed

text \<open>A coherent copy of the owner's region, taken apart into payload and transport.\<close>

definition owner_seen :: "(nat \<Rightarrow> wordmem) \<Rightarrow> nat \<Rightarrow> StatusPayload \<Rightarrow> OwnerTransport \<Rightarrow> bool" where
  "owner_seen h sequence owner transport \<longleftrightarrow>
     (\<exists>ws. seen h v3_ownerSequence v3_owner 159 sequence ws \<and>
        owner = payload_of_words (take 137 ws) \<and> transport = transport_of_words (drop 137 ws))"

lemma owner_seenI:
  assumes ow: "length ow = 137" "\<And>i. i < 137 \<Longrightarrow> \<exists>u. s \<le> u \<and> u \<le> t \<and> ow ! i = h u (v3_owner + i)"
    and tw: "length tw = 22" "\<And>i. i < 22 \<Longrightarrow> \<exists>u. s \<le> u \<and> u \<le> t \<and> tw ! i = h u (v3_ownerTransport + i)"
    and st: "s \<le> t" "h s v3_ownerSequence = sequence" "h t v3_ownerSequence = sequence" "2 \<le> sequence" "even sequence"
  shows "owner_seen h sequence (payload_of_words ow) (transport_of_words tw)"
proof -
  have "\<exists>u. s \<le> u \<and> u \<le> t \<and> (ow @ tw) ! i = h u (v3_owner + i)" if i: "i < 159" for i
  proof (cases "i < 137")
    case True
    with ow show ?thesis by (auto simp: nth_append)
  next
    case False
    then have "i - 137 < 22" using i by linarith
    from tw(2) [OF this] obtain u where "s \<le> u" "u \<le> t" "tw ! (i - 137) = h u (v3_ownerTransport + (i - 137))" by blast
    moreover have "v3_ownerTransport + (i - 137) = v3_owner + i" using False by (simp add: v3_offsets)
    ultimately show ?thesis using False ow(1) by (auto simp: nth_append)
  qed
  with ow(1) tw(1) st show ?thesis
    unfolding owner_seen_def seen_def by (intro exI [of _ "ow @ tw"]) auto
qed

context word_loads
begin

lemma ReadOwnerV3_sound:
  "run_state (ReadOwnerV3_attempts load k) w = (Some snap, w') \<Longrightarrow>
   owner_seen h (os_sequence snap) (os_owner snap) (os_transport snap)"
proof (induction k arbitrary: w)
  case 0
  then show ?case by simp
next
  case (Suc k)
  obtain ready w1 where l1: "run_state (load v3_headerReady) w = (ready, w1)" by fastforce
  obtain before w2 where l2: "run_state (load v3_ownerSequence) w1 = (before, w2)" by fastforce
  obtain ow w3 where l3: "run_state (LoadWords load v3_owner payload_words) w2 = (ow, w3)" by fastforce
  obtain tw w4 where l4: "run_state (LoadWords load v3_ownerTransport 22) w3 = (tw, w4)" by fastforce
  obtain after w5 where l5: "run_state (load v3_ownerSequence) w4 = (after, w5)" by fastforce
  obtain again w6 where l6: "run_state (load v3_headerReady) w5 = (again, w6)" by fastforce
  note run = Suc.prems [unfolded ReadOwnerV3_attempts.simps]
  consider (retry) w'' where "run_state (ReadOwnerV3_attempts load k) w'' = (Some snap, w')"
    | (hit) "before = after" "2 \<le> before" "even before"
        "snap = \<lparr>os_owner = payload_of_words ow, os_transport = transport_of_words tw, os_sequence = after\<rparr>"
    using run l1 l2 l3 l4 l5 l6 by (auto simp: bind_def split: if_splits)
  then show ?case
  proof cases
    case retry
    then show ?thesis by (rule Suc.IH)
  next
    case hit
    obtain s where s: "s \<le> clock w2" "before = h s v3_ownerSequence" using load_sound [OF l2] by blast
    obtain t where t: "clock w4 \<le> t" "after = h t v3_ownerSequence" using load_sound [OF l5] by blast
    note O = LoadWords_sound [OF l3] and T = LoadWords_sound [OF l4]
    have "owner_seen h after (payload_of_words ow) (transport_of_words tw)"
    proof (rule owner_seenI [of ow s t h tw])
      show "length ow = 137" "length tw = 22" using O T by (simp_all add: payload_words_def)
      show "s \<le> t" using s t O T by linarith
      show "h s v3_ownerSequence = after" "h t v3_ownerSequence = after" "2 \<le> after" "even after"
        using s t hit by simp_all
      fix i
      show "i < 137 \<Longrightarrow> \<exists>u. s \<le> u \<and> u \<le> t \<and> ow ! i = h u (v3_owner + i)"
        using O T s t by (auto simp: payload_words_def) (meson le_trans)
      show "i < 22 \<Longrightarrow> \<exists>u. s \<le> u \<and> u \<le> t \<and> tw ! i = h u (v3_ownerTransport + i)"
        using O T s t by (meson le_trans)
    qed
    then show ?thesis using hit by simp
  qed
qed

end

lemma owner_initialized:
  assumes "m v3_headerReady = 0" and "header_shape header" and "payload_shape owner"
  shows "run_ops m (snd (InitializeStatusV3 m header owner)) v3_ownerSequence = 2"
proof -
  let ?ops = "snd (InitializeStatusV3 m header owner)"
  have len: "length (owner_words (owner, initial_transport owner)) = 159"
    by (rule length_owner_words) (simp add: assms)
  have "run_ops m ?ops v3_ownerSequence = run_ops m (filter owner_op ?ops) v3_ownerSequence"
    by (rule run_ops_filter [symmetric]) simp
  then show ?thesis
    unfolding filter_InitializeStatusV3 [of m, OF assms]
    using owner_region.run_publish [OF len, of m 0] by simp
qed

text \<open>
  The owner thread alone touches its region: what any interleaving contains of it is a part of
  its program.
\<close>

definition owner_only ::
  "wordmem \<Rightarrow> StatusHeader \<Rightarrow> StatusPayload \<Rightarrow> (StatusPayload \<times> OwnerTransport) list \<Rightarrow> atomic list \<Rightarrow> bool" where
  "owner_only m header owner inputs ops \<longleftrightarrow>
     m v3_headerReady = 0 \<and> m v3_ownerSequence = 0 \<and>
     header_shape header \<and> payload_shape owner \<and> (\<forall>x \<in> set inputs. payload_shape (fst x)) \<and>
     (\<exists>x. filter owner_op ops = take x (filter owner_op (owner_trace m header owner inputs)))"

lemma owner_seen_published:
  assumes only: "owner_only m header owner inputs ops" and seen: "owner_seen (history m ops) sequence ow tr"
  shows "\<exists>j < length (owner_publications m header owner inputs).
    sequence = 2 * Suc j \<and> (ow, tr) = owner_publications m header owner inputs ! j"
proof -
  let ?ops = "snd (InitializeStatusV3 m header owner)" and ?pubs = "owner_publications m header owner inputs"
  let ?acc = "accepted publish_owner (run_ops m ?ops) inputs"
  obtain x where own: "filter owner_op ops = take x (filter owner_op (?ops @ program publish_owner (run_ops m ?ops) inputs))"
    using only by (auto simp: owner_only_def owner_trace_def Let_def)
  obtain ws where ws: "seen (history m ops) v3_ownerSequence v3_owner 159 sequence ws"
      "ow = payload_of_words (take 137 ws)" "tr = transport_of_words (drop 137 ws)"
    using seen unfolding owner_seen_def by blast
  have first: "length (owner_words (owner, initial_transport owner)) = 159"
    using only by (simp add: length_owner_words owner_only_def)
  have "\<exists>j \<le> length ?acc. sequence = 2 * Suc j \<and>
      ws = (owner_words (owner, initial_transport owner) # map (\<lambda>item. owner_words (as_published item)) ?acc) ! j"
    by (rule owner_publisher.started_published [OF filter_InitializeStatusV3 [of m] first _ _ own ws(1)])
      (use only in \<open>simp_all add: owner_only_def\<close>)
  then obtain j where j: "j < length ?pubs" "sequence = 2 * Suc j" "ws = owner_words (?pubs ! j)"
    by (auto simp: owner_publications_def nth_Cons' split: if_splits)
  have "\<forall>pub \<in> set ?pubs. payload_shape (fst pub)"
    using only owner_publisher.filter_program [of inputs "run_ops m ?ops"]
    by (auto simp: owner_only_def owner_publications_def as_published_def)
  then have "payload_shape (fst (?pubs ! j))" using j(1) by simp
  then have "ow = fst (?pubs ! j)" "tr = snd (?pubs ! j)"
    using ws j(3) by (simp_all add: owner_words_def length_words_of_payload payload_of_words_of)
  then show ?thesis using j by (intro exI [of _ j]) simp
qed

text \<open>
  C20: Owner snapshots are never torn.  Take any interleaving of the owner thread's program (one
  initialisation and any publications) with operations of other threads outside the owner's
  region, and any schedule of a reader's loads: when \<open>ReadOwnerV3\<close> returns a snapshot with the
  number \<open>2 * j + 2\<close>, payload and transport are the ones of the \<open>j\<close>-th accepted publication.
\<close>

theorem owner_snapshot_never_torn:
  assumes "owner_only m header owner inputs ops"
    and "run_state (ReadOwnerV3 (history_load (history m ops) delay)) t = (Some snap, t')"
  shows "\<exists>j < length (owner_publications m header owner inputs).
    os_sequence snap = 2 * Suc j \<and>
    (os_owner snap, os_transport snap) = owner_publications m header owner inputs ! j"
  using owner_seen_published [OF assms(1)] history_loads.ReadOwnerV3_sound assms(2)
  unfolding ReadOwnerV3_def by blast

definition zero_payload :: StatusPayload where
  "zero_payload = payload_of_words (replicate 137 0)"

definition zero_header :: StatusHeader where
  "zero_header = header_of_words (replicate 16 0)"

lemma zero_shapes: "header_shape zero_header" "payload_shape zero_payload"
proof -
  show "header_shape zero_header"
    by (simp add: header_shape_def zero_header_def header_of_words_def bytes_of_words_def slice_def
        length_concat sum_list_replicate)
  have "list_all (\<lambda>d. length (dc_buckets d) = kStatusDurationBuckets) (own_durations zero_payload)"
    by (simp add: list_all_iff zero_payload_def payload_of_words_def duration_of_words_def slice_def
        kStatusDurationBuckets_def)
  then show "payload_shape zero_payload"
    by (simp add: payload_shape_def zero_payload_def payload_of_words_def slice_def kStatusReasonSlots_def
        kStatusDurationClasses_def)
qed

lemma quiet_LoadWords: "run_state (LoadWords (history_load h (\<lambda>_. 0)) base k) t = (words_at (h t) base k, t)"
proof (induction k arbitrary: base)
  case 0
  then show ?case by (simp add: words_at_def)
next
  case (Suc k)
  have "run_state (history_load h (\<lambda>_. 0) base) t = (h t base, t)" by (simp add: history_load_def)
  with Suc show ?case by (simp add: bind_def words_at_Suc)
qed

lemma owner_snapshot_never_torn_witness:
  "\<exists>snap. run_state (ReadOwnerV3 (history_load (history (\<lambda>_. 0)
      (owner_trace (\<lambda>_. 0) zero_header zero_payload [])) (\<lambda>_. 0)))
      (length (owner_trace (\<lambda>_. 0) zero_header zero_payload [])) =
      (Some snap, length (owner_trace (\<lambda>_. 0) zero_header zero_payload [])) \<and> os_owner snap = zero_payload"
proof -
  define ops where "ops = owner_trace (\<lambda>_. 0) zero_header zero_payload []"
  let ?h = "history (\<lambda>_. 0) ops" and ?T = "length ops"
  have ops: "ops = snd (InitializeStatusV3 (\<lambda>_. 0) zero_header zero_payload)"
    by (simp add: ops_def owner_trace_def Let_def)
  have seq: "?h ?T v3_ownerSequence = 2"
    using owner_initialized [of "\<lambda>_. 0", OF _ zero_shapes] by (simp add: history_def ops)
  have ready: "?h ?T v3_headerReady = 1"
    by (simp add: history_def ops InitializeStatusV3_def)
  obtain snap where snap: "run_state (ReadOwnerV3 (history_load ?h (\<lambda>_. 0))) ?T = (Some snap, ?T)"
  proof -
    have ld: "run_state (history_load ?h (\<lambda>_. 0) i) ?T = (?h ?T i, ?T)" for i
      by (simp add: history_load_def)
    show ?thesis using seq ready that
      by (simp add: ReadOwnerV3_def numeral_3_eq_3 bind_def quiet_LoadWords ld)
  qed
  have "\<exists>j < length (owner_publications (\<lambda>_. 0) zero_header zero_payload []).
      os_sequence snap = 2 * Suc j \<and> (os_owner snap, os_transport snap) =
        owner_publications (\<lambda>_. 0) zero_header zero_payload [] ! j"
    by (rule owner_snapshot_never_torn [OF _ snap])
      (auto simp: owner_only_def zero_shapes ops_def intro!: exI [of _ "length (filter owner_op ops)"])
  then have "os_owner snap = zero_payload" by (simp add: owner_publications_def)
  with snap show ?thesis unfolding ops_def by blast
qed

section \<open>The sticky gates\<close>

text \<open>The operations any thread may perform on the wire, each from the memory it finds.\<close>

datatype v3_call =
    Call_Initialize StatusHeader StatusPayload
  | Call_Owner StatusPayload OwnerTransport
  | Call_Worker "OwnerSnapshotV3 option" WorkerTransport
  | Call_Console ConsoleDiagnostics
  | Call_Log LogIdentity
  | Call_Revoke Reason
  | Call_Lose Reason
  | Call_Stop nat
  | Call_Fault TransportReason

fun v3_ops :: "wordmem \<Rightarrow> v3_call \<Rightarrow> atomic list" where
  "v3_ops m (Call_Initialize header owner) = snd (InitializeStatusV3 m header owner)"
| "v3_ops m (Call_Owner owner transport) = snd (PublishOwnerV3 m owner transport)"
| "v3_ops m (Call_Worker snapshot worker) = snd (PublishWorkerV3 m snapshot worker)"
| "v3_ops m (Call_Console console) = snd (PublishConsoleV3 m console)"
| "v3_ops m (Call_Log identity) = snd (PublishLogIdentityV3 m identity)"
| "v3_ops m (Call_Revoke reason) = RevokeStatusV3 reason"
| "v3_ops m (Call_Lose reason) = LoseStatusV3 reason"
| "v3_ops m (Call_Stop qpc) = StopStatusV3 m qpc"
| "v3_ops m (Call_Fault reason) = snd (LatchTransportFault reason)"

fun call_shape :: "v3_call \<Rightarrow> bool" where
  "call_shape (Call_Initialize header owner) = header_shape header"
| "call_shape _ = True"

text \<open>What an operation may do to a gate.\<close>

definition gate_safe :: "atomic \<Rightarrow> bool" where
  "gate_safe p \<longleftrightarrow>
     (site p \<in> {v3_revokeReasons, v3_lossReasons} \<longrightarrow> (\<exists>v. p = Orr (site p) v)) \<and>
     (site p \<in> {v3_stopping, v3_fatalTransportReason} \<longrightarrow> (\<exists>v. p = Cas (site p) 0 v \<and> v \<noteq> 0))"

lemma gate_safe_StoreWords:
  "region base (length ws) \<inter> {21, 22, 23, 26} = {} \<Longrightarrow> p \<in> set (StoreWords base ws) \<Longrightarrow> gate_safe p"
  using sites_StoreWords [of base ws] by (force simp: gate_safe_def v3_offsets)

lemma gate_safe_simple [simp]:
  "gate_safe (Orr i v) \<longleftrightarrow> i \<notin> {23, 26}"
  "gate_safe (Put i v) \<longleftrightarrow> i \<notin> {21, 22, 23, 26}"
  "gate_safe (Cas i 0 v) \<longleftrightarrow> (i \<in> {21, 22} \<longrightarrow> False) \<and> (i \<in> {23, 26} \<longrightarrow> v \<noteq> 0)"
  by (auto simp: gate_safe_def v3_offsets)

lemma Mask_of_pos: "Mask_of reason \<noteq> 0"
  by (simp add: Mask_of_def Let_def)

lemma gates_Revoke [simp]: "list_all gate_safe (RevokeStatusV3 reason)" "list_all gate_safe (LoseStatusV3 reason)"
  by (simp_all add: RevokeStatusV3_def LoseStatusV3_def v3_offsets)

lemma gates_Fault: "list_all gate_safe (snd (LatchTransportFault reason))"
  by (cases reason) (simp_all add: LatchTransportFault_def Let_def value_defs v3_offsets)

lemma gates_StoreWords:
  "26 < base \<or> base + length ws \<le> 21 \<Longrightarrow> list_all gate_safe (StoreWords base ws)"
  unfolding list_all_iff by (auto intro!: gate_safe_StoreWords simp: region_def)

lemma gates_Initialize: "header_shape header \<Longrightarrow> list_all gate_safe (snd (InitializeStatusV3 m header owner))"
  by (simp add: InitializeStatusV3_def gates_StoreWords length_published_headerV3 v3_offsets)

lemma gates_Owner: "list_all gate_safe (snd (PublishOwnerV3 m owner transport))"
  by (auto simp: PublishOwnerV3_def StartPublication_def Let_def gates_StoreWords v3_owner_def
      v3_ownerTransport_def v3_ownerSequence_def)

lemma gates_Worker: "list_all gate_safe (snd (PublishWorkerV3 m snapshot worker))"
  by (auto simp: PublishWorkerV3_def StartPublication_def Let_def gates_StoreWords v3_worker_def
      v3_workerSequence_def v3_workerPauseReason_def split: option.splits)

lemma gates_Console: "list_all gate_safe (snd (PublishConsoleV3 m console))"
  by (auto simp: PublishConsoleV3_def StartPublication_def Let_def gates_StoreWords v3_console_def
      v3_consoleSequence_def)

lemma gates_Log: "list_all gate_safe (snd (PublishLogIdentityV3 m identity))"
  by (auto simp: PublishLogIdentityV3_def gates_StoreWords v3_log_def v3_logIdentityReady_def)

lemma gates_call: "call_shape c \<Longrightarrow> list_all gate_safe (v3_ops m c)"
  by (cases c)
    (simp_all add: gates_Initialize gates_Owner gates_Worker gates_Console gates_Log gates_Fault
      StopStatusV3_def v3_offsets)

text \<open>How far the gates have been raised: bits only added, the first value kept.\<close>

definition gates_kept :: "wordmem \<Rightarrow> wordmem \<Rightarrow> bool" where
  "gates_kept m m' \<longleftrightarrow>
     and (m v3_revokeReasons) (m' v3_revokeReasons) = m v3_revokeReasons \<and>
     and (m v3_lossReasons) (m' v3_lossReasons) = m v3_lossReasons \<and>
     (m v3_stopping \<noteq> 0 \<longrightarrow> m' v3_stopping = m v3_stopping) \<and>
     (m v3_fatalTransportReason \<noteq> 0 \<longrightarrow> m' v3_fatalTransportReason = m v3_fatalTransportReason)"

lemma and_or_absorb: "and a (or a b) = (a :: nat)"
  by (rule bit_eqI) (auto simp: bit_simps)

lemma gates_kept_refl: "gates_kept m m"
  by (simp add: gates_kept_def)

lemma gates_kept_trans: "gates_kept a b \<Longrightarrow> gates_kept b c \<Longrightarrow> gates_kept a c"
  unfolding gates_kept_def by (metis and.assoc)

lemma gate_safe_kept: "gate_safe p \<Longrightarrow> gates_kept m (apply_atomic m p)"
proof (cases p)
  case (Put i v)
  assume "gate_safe p"
  with Put show ?thesis by (auto simp: gates_kept_def v3_offsets)
next
  case (Orr i v)
  assume "gate_safe p"
  with Orr show ?thesis by (auto simp: gates_kept_def and_or_absorb v3_offsets)
next
  case (Cas i e d)
  assume "gate_safe p"
  with Cas show ?thesis by (auto simp: gates_kept_def gate_safe_def v3_offsets)
qed

text \<open>
  C23: The fault gates are sticky.  In every interleaving of operations of any threads on the
  wire, whatever memory each was computed from, no bit of the revocation and loss masks is
  ever cleared, a stop is never taken back, and the first fatal transport reason stays; a
  revoked status therefore stays revoked.
\<close>

theorem sticky_gates:
  assumes "\<forall>p \<in> set ops. \<exists>m' c. call_shape c \<and> p \<in> set (v3_ops m' c)"
  shows "gates_kept m (run_ops m ops)"
  using assms
proof (induction ops arbitrary: m)
  case Nil
  then show ?case by (simp add: gates_kept_refl)
next
  case (Cons p ops)
  then obtain m' c where "call_shape c" "p \<in> set (v3_ops m' c)" by auto
  then have "gate_safe p" using gates_call [of c m'] by (simp add: list_all_iff)
  from gate_safe_kept [OF this] Cons show ?case by (auto intro: gates_kept_trans)
qed

lemma sticky_gates_witness:
  "gates_kept (\<lambda>_. 0) (run_ops (\<lambda>_. 0)
     (snd (LatchTransportFault TR_ReceiptGap) @ LoseStatusV3 R_RecordLoss @ StopStatusV3 (\<lambda>_. 0) 5)) \<and>
   run_ops (\<lambda>_. 0) (snd (LatchTransportFault TR_ReceiptGap) @ LoseStatusV3 R_RecordLoss @ StopStatusV3 (\<lambda>_. 0) 5)
     v3_fatalTransportReason = 12"
proof
  show "gates_kept (\<lambda>_. 0) (run_ops (\<lambda>_. 0)
     (snd (LatchTransportFault TR_ReceiptGap) @ LoseStatusV3 R_RecordLoss @ StopStatusV3 (\<lambda>_. 0) 5))"
  proof (rule sticky_gates, rule ballI)
    fix p
    assume "p \<in> set (snd (LatchTransportFault TR_ReceiptGap) @ LoseStatusV3 R_RecordLoss @ StopStatusV3 (\<lambda>_. 0) 5)"
    then have "p \<in> set (v3_ops (\<lambda>_. 0) (Call_Fault TR_ReceiptGap)) \<or>
        p \<in> set (v3_ops (\<lambda>_. 0) (Call_Lose R_RecordLoss)) \<or> p \<in> set (v3_ops (\<lambda>_. 0) (Call_Stop 5))" by auto
    then show "\<exists>m' c. call_shape c \<and> p \<in> set (v3_ops m' c)" by (metis call_shape.simps)
  qed
  show "run_ops (\<lambda>_. 0) (snd (LatchTransportFault TR_ReceiptGap) @ LoseStatusV3 R_RecordLoss @ StopStatusV3 (\<lambda>_. 0) 5)
     v3_fatalTransportReason = 12"
    by (simp add: LatchTransportFault_def LoseStatusV3_def RevokeStatusV3_def StopStatusV3_def Let_def value_defs
        v3_offsets TransportReason_Count_def)
qed

end
