(* ===== verification/SnapshotV3.thy ===== *)
theory SnapshotV3
  imports StatusV3
begin

text \<open>
  The bounded reader of the status wire (\<open>src/shared/steam_reporting_snapshot_v3.h\<close> and
  \<open>.cpp\<close>), used by the console and by tools in another process.  The caller supplies the read
  of a block of words; it may fail, and the writers run on between and during reads.
  Offsets and sizes are counted in words.
\<close>

section \<open>Results\<close>

datatype SnapshotResultV3 = SR_Coherent | SR_Unpublished | SR_Busy | SR_ReadFailure | SR_Invalid

record StatusWireV3 =
  w3_header :: StatusHeader
  w3_headerReady :: nat
  w3_ownerSequence :: nat
  w3_workerSequence :: nat
  w3_consoleSequence :: nat
  w3_logIdentityReady :: nat
  w3_revokeReasons :: nat
  w3_lossReasons :: nat
  w3_stopping :: nat
  w3_stoppedQpc :: nat
  w3_workerPauseReason :: nat
  w3_fatalTransportReason :: nat
  w3_reserved :: "nat list"
  w3_owner :: StatusPayload
  w3_ownerTransport :: OwnerTransport
  w3_worker :: WorkerTransport
  w3_console :: ConsoleDiagnostics
  w3_log :: LogIdentity

record StatusSnapshotV3 =
  ss_wire :: StatusWireV3
  ss_attempts :: nat
  ss_headerAvailable :: bool
  ss_coreAvailable :: bool
  ss_logIdentityAvailable :: bool
  ss_consoleDiagnosticsAvailable :: bool
  ss_workerPauseChanged :: bool

definition wire_words :: nat where "wire_words = 487"

definition wire_of_words :: "nat list \<Rightarrow> StatusWireV3" where
  "wire_of_words ws =
     \<lparr>w3_header = header_of_words (slice 0 16 ws), w3_headerReady = ws ! 16, w3_ownerSequence = ws ! 17,
      w3_workerSequence = ws ! 18, w3_consoleSequence = ws ! 19, w3_logIdentityReady = ws ! 20,
      w3_revokeReasons = ws ! 21, w3_lossReasons = ws ! 22, w3_stopping = ws ! 23, w3_stoppedQpc = ws ! 24,
      w3_workerPauseReason = ws ! 25, w3_fatalTransportReason = ws ! 26, w3_reserved = slice 27 5 ws,
      w3_owner = payload_of_words (slice 32 137 ws), w3_ownerTransport = transport_of_words (slice 169 22 ws),
      w3_worker = worker_of_words (slice 191 20 ws), w3_console = console_of_words (slice 211 8 ws),
      w3_log = log_of_words (slice 219 268 ws)\<rparr>"

text \<open>\<open>*output = {}\<close>.\<close>

definition snapshot_zero :: StatusSnapshotV3 where
  "snapshot_zero = \<lparr>ss_wire = wire_of_words (replicate wire_words 0), ss_attempts = 0,
     ss_headerAvailable = False, ss_coreAvailable = False, ss_logIdentityAvailable = False,
     ss_consoleDiagnosticsAvailable = False, ss_workerPauseChanged = False\<rparr>"

section \<open>The reader\<close>

type_synonym 'w block_read = "nat \<Rightarrow> nat \<Rightarrow> ('w, nat list option) state"

definition Bytes :: "'w block_read \<Rightarrow> nat \<Rightarrow> nat \<Rightarrow> ('w, nat list option) state" where
  "Bytes read off n = (if off \<le> wire_words \<and> n \<le> wire_words - off then read off n else State_Monad.return None)"

text \<open>An early return on a failed read: \<open>if (!At(...)) return failure\<close>.\<close>

definition need :: "('w, 'a option) state \<Rightarrow> 'b \<Rightarrow> ('a \<Rightarrow> ('w, 'b) state) \<Rightarrow> ('w, 'b) state" where
  "need m failure f = do { r \<leftarrow> m; case r of None \<Rightarrow> State_Monad.return failure | Some x \<Rightarrow> f x }"

definition At_word :: "'w block_read \<Rightarrow> nat \<Rightarrow> ('w, nat option) state" where
  "At_word read i = need (Bytes read i 1) None (\<lambda>ws. State_Monad.return (Some (ws ! 0)))"

text \<open>
  The gates accumulate into the output, word after word, also when a later read fails; the
  second component is the pause gate, \<open>None\<close> when a read failed.
\<close>

definition Gates :: "'w block_read \<Rightarrow> StatusSnapshotV3 \<Rightarrow> ('w, StatusSnapshotV3 \<times> nat option) state" where
  "Gates read out =
     need (At_word read v3_revokeReasons) (out, None) (\<lambda>v.
     let out = out\<lparr>ss_wire := (ss_wire out)\<lparr>w3_revokeReasons := or (w3_revokeReasons (ss_wire out)) v\<rparr>\<rparr> in
     need (At_word read v3_lossReasons) (out, None) (\<lambda>v.
     let out = out\<lparr>ss_wire := (ss_wire out)\<lparr>w3_lossReasons := or (w3_lossReasons (ss_wire out)) v\<rparr>\<rparr> in
     need (At_word read v3_stopping) (out, None) (\<lambda>v.
     let out = out\<lparr>ss_wire := (ss_wire out)\<lparr>w3_stopping := or (w3_stopping (ss_wire out)) v\<rparr>\<rparr> in
     need (At_word read v3_stoppedQpc) (out, None) (\<lambda>v.
     let out = (if v > w3_stoppedQpc (ss_wire out)
                then out\<lparr>ss_wire := (ss_wire out)\<lparr>w3_stoppedQpc := v\<rparr>\<rparr> else out) in
     need (At_word read v3_fatalTransportReason) (out, None) (\<lambda>v.
     let out = (if w3_fatalTransportReason (ss_wire out) = 0
                then out\<lparr>ss_wire := (ss_wire out)\<lparr>w3_fatalTransportReason := v\<rparr>\<rparr> else out) in
     need (At_word read v3_workerPauseReason) (out, None) (\<lambda>pause.
     State_Monad.return (out, Some pause)))))))"

record owner_read =
  or_owner :: StatusPayload
  or_transport :: OwnerTransport
  or_sequence :: nat
  or_stable :: bool

text \<open>\<open>Owner\<close>: a failed read, or what was copied and whether the sequence went back.\<close>

definition Owner :: "'w block_read \<Rightarrow> ('w, (owner_read \<times> bool) option) state" where
  "Owner read =
     need (At_word read v3_ownerSequence) None (\<lambda>before.
     if before < 2 \<or> odd before
     then State_Monad.return (Some (\<lparr>or_owner = payload_of_words (replicate 137 0),
       or_transport = transport_zero, or_sequence = before, or_stable = False\<rparr>, False))
     else
     need (Bytes read v3_owner payload_words) None (\<lambda>ow.
     need (Bytes read v3_ownerTransport 22) None (\<lambda>tw.
     need (At_word read v3_ownerSequence) None (\<lambda>after.
     State_Monad.return (Some (\<lparr>or_owner = payload_of_words ow, or_transport = transport_of_words tw,
       or_sequence = after, or_stable = (before = after \<and> even after)\<rparr>, after < before))))))"

definition Worker :: "'w block_read \<Rightarrow> ('w, ((WorkerTransport \<times> nat \<times> bool) \<times> bool) option) state" where
  "Worker read =
     need (At_word read v3_workerSequence) None (\<lambda>before.
     if before < 2 \<or> odd before
     then State_Monad.return (Some ((worker_of_words (replicate 20 0), before, False), False))
     else
     need (Bytes read v3_worker 20) None (\<lambda>ww.
     need (At_word read v3_workerSequence) None (\<lambda>after.
     State_Monad.return (Some ((worker_of_words ww, after, before = after \<and> even after), after < before)))))"

definition Console :: "'w block_read \<Rightarrow> StatusSnapshotV3 \<Rightarrow> ('w, StatusSnapshotV3) state" where
  "Console read out =
     need (At_word read v3_consoleSequence) out (\<lambda>before.
     if before < 2 \<or> odd before then State_Monad.return out
     else
     need (Bytes read v3_console 8) out (\<lambda>cw.
     need (At_word read v3_consoleSequence) out (\<lambda>after.
     if before \<noteq> after \<or> odd after \<or> \<not> console_ok (console_of_words cw) then State_Monad.return out
     else State_Monad.return (out\<lparr>ss_wire := (ss_wire out)\<lparr>w3_console := console_of_words cw,
       w3_consoleSequence := after\<rparr>, ss_consoleDiagnosticsAvailable := True\<rparr>))))"

section \<open>Validity\<close>

definition HeaderValid :: "StatusHeader \<Rightarrow> bool" where
  "HeaderValid h \<longleftrightarrow>
     \<not> (sh_magic h \<noteq> kStatusMagic \<or> sh_schema h \<noteq> kStatusSchemaV3 \<or> sh_bytes h \<noteq> sizeof_StatusWireV3 \<or>
        sh_artifactVersion h \<noteq> kReportingArtifactVersionV3 \<or> sh_configuredMode h > 3 \<or>
        and (sh_validity h) CompleteHeaderIdentity \<noteq> sh_validity h) \<and>
     list_all (\<lambda>w. w = 0) (sh_reserved h)"

definition IdentityValid :: "LogIdentity \<Rightarrow> bool" where
  "IdentityValid l \<longleftrightarrow> log_identity_ok l \<and>
     list_all (\<lambda>i. if i < li_pathChars l then li_path l ! i \<noteq> 0 else li_path l ! i = 0) [0..<1024]"

definition CoreValid :: "StatusWireV3 \<Rightarrow> bool" where
  "CoreValid wire \<longleftrightarrow>
     (let owner = w3_owner wire; t = w3_ownerTransport wire; w = w3_worker wire;
          requalify = TransportReason_value TR_SameFileRequalification in
      \<not> (own_phase owner > ReportPhaseV3_value P3_Paused \<or> own_reason owner \<ge> kRuntimeReasonCountV3 \<or>
         own_pending owner > 1 \<or> own_fresh owner > 1 \<or> own_builderBound owner > 1 \<or>
         own_ownerThreadId owner > u32_max \<or>
         ot_state t > TransportState_value TS_Stopping \<or> ot_reason t \<ge> TransportReason_Count \<or>
         ot_startupSubmitted t > 1 \<or> ot_actualRepairAdmitted t > 1 \<or> ot_reserved t \<noteq> 0 \<or>
         ot_generatedSequence t \<noteq> own_reportSequence owner \<or>
         ot_submittedSequence t > ot_generatedSequence t \<or>
         wt_startupObserved w > 1 \<or> wt_preparedSequence w > ot_generatedSequence t \<or>
         wt_observedSequence w > ot_submittedSequence t \<or> wt_observedSequence w > wt_preparedSequence w \<or>
         wt_pauseReason w > requalify \<or> wt_reserved w \<noteq> 0 \<or>
         w3_workerPauseReason wire > requalify \<or>
         w3_fatalTransportReason wire \<ge> TransportReason_Count \<or>
         (w3_fatalTransportReason wire \<noteq> 0 \<and>
          w3_fatalTransportReason wire < TransportReason_value TR_ReceiptGap)))"

section \<open>Attempts\<close>

text \<open>
  What one attempt leaves for the next: the output, the highest sequences seen, the log
  identity seen, and whether some sequence has gone back.
\<close>

record progress =
  pr_out :: StatusSnapshotV3
  pr_highestOwner :: nat
  pr_highestWorker :: nat
  pr_seenLog :: "LogIdentity option"
  pr_invalidSequence :: bool

text \<open>Everything copied by one attempt before it is judged.\<close>

record attempt_reads =
  ar_a :: owner_read
  ar_b :: owner_read
  ar_worker :: WorkerTransport
  ar_workerSequence :: nat
  ar_workerStable :: bool
  ar_log :: LogIdentity
  ar_logBefore :: nat
  ar_logAfter :: nat

text \<open>The end of a coherent attempt, from the commit of the core on.\<close>

definition commit ::
  "'w block_read \<Rightarrow> StatusSnapshotV3 \<Rightarrow> attempt_reads \<Rightarrow> nat \<Rightarrow> nat \<Rightarrow>
   ('w, SnapshotResultV3 \<times> StatusSnapshotV3) state" where
  "commit read out r pauseBefore pauseAfter =
     (let out = out\<lparr>ss_wire := (ss_wire out)\<lparr>w3_owner := or_owner (ar_b r),
            w3_ownerTransport := or_transport (ar_b r), w3_ownerSequence := or_sequence (ar_b r),
            w3_worker := ar_worker r, w3_workerSequence := ar_workerSequence r, w3_log := ar_log r,
            w3_logIdentityReady := ar_logBefore r,
            w3_workerPauseReason := (if pauseAfter \<noteq> 0 then pauseAfter else pauseBefore),
            w3_headerReady := 1\<rparr>,
          ss_logIdentityAvailable := ar_logBefore r = 1,
          ss_workerPauseChanged := pauseBefore \<noteq> pauseAfter\<rparr> in
      do {
        out \<leftarrow> Console read out;
        (out, finalPause) \<leftarrow> Gates read out;
        case finalPause of
          None \<Rightarrow> State_Monad.return (SR_ReadFailure, out)
        | Some finalPause \<Rightarrow>
            let out = out\<lparr>ss_workerPauseChanged := ss_workerPauseChanged out \<or> finalPause \<noteq> pauseAfter\<rparr>;
                out = (if finalPause \<noteq> 0
                       then out\<lparr>ss_wire := (ss_wire out)\<lparr>w3_workerPauseReason := finalPause\<rparr>\<rparr> else out) in
            State_Monad.return (if \<not> CoreValid (ss_wire out) then (SR_Invalid, out)
              else (SR_Coherent, out\<lparr>ss_coreAvailable := True\<rparr>)) })"

text \<open>
  The judgement of an attempt: \<open>Inl\<close> a result, \<open>Inr True\<close> commit, \<open>Inr False\<close> try again.
\<close>

definition judge ::
  "progress \<Rightarrow> attempt_reads \<Rightarrow> bool \<Rightarrow> (SnapshotResultV3 + bool) \<times> progress" where
  "judge pr r invalid =
     (let a = or_sequence (ar_a r); b = or_sequence (ar_b r); w = ar_workerSequence r in
      if invalid \<or> a < pr_highestOwner pr \<or> b < a \<or> w < pr_highestWorker pr then (Inl SR_Invalid, pr)
      else
        let pr = pr\<lparr>pr_highestOwner := b, pr_highestWorker := w\<rparr> in
        if (ar_logBefore r = 1 \<and> ar_logAfter r \<noteq> 1) \<or> (ar_logBefore r = 2 \<and> ar_logAfter r = 0) \<or>
           (pr_seenLog pr \<noteq> None \<and> (ar_logBefore r \<noteq> 1 \<or> ar_logAfter r \<noteq> 1)) then (Inl SR_Invalid, pr)
        else if ar_logBefore r = 1 \<and> ar_logAfter r = 1 \<and>
           (\<not> IdentityValid (ar_log r) \<or> (pr_seenLog pr \<noteq> None \<and> pr_seenLog pr \<noteq> Some (ar_log r)))
        then (Inl SR_Invalid, pr)
        else
          let pr = (if ar_logBefore r = 1 \<and> ar_logAfter r = 1
                    then pr\<lparr>pr_seenLog := Some (ar_log r)\<rparr> else pr) in
          if \<not> or_stable (ar_a r) \<or> \<not> or_stable (ar_b r) \<or> \<not> ar_workerStable r \<or> a \<noteq> b \<or>
             ar_logBefore r \<noteq> ar_logAfter r then (Inr False, pr)
          else if or_owner (ar_a r) \<noteq> or_owner (ar_b r) \<or> or_transport (ar_a r) \<noteq> or_transport (ar_b r)
          then (Inl SR_Invalid, pr)
          else (Inr True, pr))"

fun snapshot_attempts ::
  "'w block_read \<Rightarrow> nat \<Rightarrow> nat \<Rightarrow> progress \<Rightarrow> ('w, SnapshotResultV3 \<times> StatusSnapshotV3) state" where
  "snapshot_attempts read 0 attempt pr = State_Monad.return
     (if ss_headerAvailable (pr_out pr) then SR_Busy else SR_Unpublished, pr_out pr)"
| "snapshot_attempts read (Suc k) attempt pr =
     (let out = (pr_out pr)\<lparr>ss_attempts := attempt\<rparr> in
      need (At_word read v3_headerReady) (SR_ReadFailure, out) (\<lambda>readyBefore. do {
      (out, pauseBefore) \<leftarrow> Gates read out;
      case pauseBefore of None \<Rightarrow> State_Monad.return (SR_ReadFailure, out)
      | Some pauseBefore \<Rightarrow>
      if readyBefore > 2 then State_Monad.return (SR_Invalid, out)
      else if readyBefore \<noteq> 1 then snapshot_attempts read k (attempt + 1) (pr\<lparr>pr_out := out\<rparr>)
      else
      need (Bytes read 0 16) (SR_ReadFailure, out) (\<lambda>hw.
      let header = header_of_words hw in
      if \<not> HeaderValid header then State_Monad.return (SR_Invalid, out)
      else
      need (Bytes read v3_reserved 5) (SR_ReadFailure, out) (\<lambda>rw.
      let out = out\<lparr>ss_wire := (ss_wire out)\<lparr>w3_reserved := rw\<rparr>\<rparr> in
      if \<not> list_all (\<lambda>w. w = 0) rw then State_Monad.return (SR_Invalid, out)
      else if ss_headerAvailable out \<and> w3_header (ss_wire out) \<noteq> header then State_Monad.return (SR_Invalid, out)
      else
      let out = out\<lparr>ss_wire := (ss_wire out)\<lparr>w3_header := header\<rparr>, ss_headerAvailable := True\<rparr> in
      need (Owner read) (SR_ReadFailure, out) (\<lambda>(ra, inv1).
      need (Worker read) (SR_ReadFailure, out) (\<lambda>((worker, w, wStable), inv2).
      need (At_word read v3_logIdentityReady) (SR_ReadFailure, out) (\<lambda>logBefore.
      if logBefore > 2 then State_Monad.return (SR_Invalid, out)
      else
      need (if logBefore = 1 then Bytes read v3_log 268 else State_Monad.return (Some (replicate 268 0)))
        (SR_ReadFailure, out) (\<lambda>lw.
      need (At_word read v3_logIdentityReady) (SR_ReadFailure, out) (\<lambda>logAfter.
      need (Owner read) (SR_ReadFailure, out) (\<lambda>(rb, inv3). do {
      (out, pauseAfter) \<leftarrow> Gates read out;
      case pauseAfter of None \<Rightarrow> State_Monad.return (SR_ReadFailure, out)
      | Some pauseAfter \<Rightarrow>
      need (At_word read v3_headerReady) (SR_ReadFailure, out) (\<lambda>readyAfter.
      need (Bytes read 0 16) (SR_ReadFailure, out) (\<lambda>hw2.
      if readyAfter > 2 \<or> logAfter > 2 \<or> readyAfter \<noteq> 1 \<or> header_of_words hw2 \<noteq> header
      then State_Monad.return (SR_Invalid, out)
      else
      let r = \<lparr>ar_a = ra, ar_b = rb, ar_worker = worker, ar_workerSequence = w, ar_workerStable = wStable,
            ar_log = log_of_words lw, ar_logBefore = logBefore, ar_logAfter = logAfter\<rparr>;
          invalid = (pr_invalidSequence pr \<or> inv1 \<or> inv2 \<or> inv3) in
      case judge (pr\<lparr>pr_out := out, pr_invalidSequence := invalid\<rparr>) r invalid of
        (Inl result, pr) \<Rightarrow> State_Monad.return (result, out)
      | (Inr False, pr) \<Rightarrow> snapshot_attempts read k (attempt + 1) pr
      | (Inr True, pr) \<Rightarrow> commit read out r pauseBefore pauseAfter)) })))))))) }))"

definition ReadStatusSnapshotV3 :: "'w block_read option \<Rightarrow> ('w, SnapshotResultV3 \<times> StatusSnapshotV3) state" where
  "ReadStatusSnapshotV3 ops = (case ops of
     None \<Rightarrow> State_Monad.return (SR_Invalid, snapshot_zero)
   | Some read \<Rightarrow> snapshot_attempts read 3 1
       \<lparr>pr_out = snapshot_zero, pr_highestOwner = 0, pr_highestWorker = 0, pr_seenLog = None,
        pr_invalidSequence = False\<rparr>)"

section \<open>Readiness\<close>

definition SnapshotCurrentlyReadyV3 :: "StatusSnapshotV3 \<Rightarrow> nat \<Rightarrow> nat \<Rightarrow> bool" where
  "SnapshotCurrentlyReadyV3 snapshot now frequency =
     (let wire = ss_wire snapshot; owner = w3_owner wire; transport = w3_ownerTransport wire in
      if \<not> ss_coreAvailable snapshot \<or> \<not> ss_headerAvailable snapshot \<or> \<not> ss_logIdentityAvailable snapshot \<or>
         ss_workerPauseChanged snapshot \<or> w3_revokeReasons wire \<noteq> 0 \<or> w3_lossReasons wire \<noteq> 0 \<or>
         w3_stopping wire \<noteq> 0 \<or> w3_fatalTransportReason wire \<noteq> 0 \<or> w3_workerPauseReason wire \<noteq> 0 \<or>
         wt_pauseReason (w3_worker wire) \<noteq> 0 \<or> sh_pid (w3_header wire) = 0 \<or>
         sh_processCreation (w3_header wire) = 0 \<or>
         sh_validity (w3_header wire) \<noteq> CompleteHeaderIdentity \<or> frequency = 0 \<or>
         frequency > i64_max_nat div 45 \<or> sh_qpcFrequency (w3_header wire) \<noteq> frequency \<or> now = 0 \<or>
         own_lastOwnerQpc owner = 0 \<or> now < own_lastOwnerQpc owner \<or>
         now - own_lastOwnerQpc owner > 2 * frequency \<or> own_readyQpc owner = 0 \<or> own_readyQpc owner > now \<or>
         own_ownerThreadId owner = 0 \<or> own_sourceEpoch owner = 0 \<or> own_bindingEpoch owner = 0 \<or>
         own_builderBound owner \<noteq> 1 \<or> ot_state transport \<noteq> TransportState_value TS_Running \<or>
         ot_reason transport \<noteq> 0 \<or> ot_startupSubmitted transport \<noteq> 1 \<or>
         wt_startupObserved (w3_worker wire) \<noteq> 1 then False
      else if \<not> list_ex (\<lambda>b. b \<noteq> 0) (sh_runId (w3_header wire)) \<or>
              \<not> list_ex (\<lambda>b. b \<noteq> 0) (sh_hostDigest (w3_header wire)) then False
      else if sh_configuredMode (w3_header wire) = 2 then
        own_phase owner = ReportPhaseV3_value P3_Observing \<and> ot_actualRepairAdmitted transport = 0
      else if sh_configuredMode (w3_header wire) = 3 then
        own_phase owner = ReportPhaseV3_value P3_Repairing \<and> ot_actualRepairAdmitted transport = 1
      else False)"

section \<open>What a coherent snapshot shows\<close>

lemma yields_need:
  assumes "yields (\<lambda>r. \<forall>x. r = Some x \<longrightarrow> Q x) m" and "P failure" and "\<And>x. Q x \<Longrightarrow> yields P (f x)"
  shows "yields P (need m failure f)"
  unfolding need_def
  by (rule yields_bind [OF assms(1)]) (auto intro: yields_return assms split: option.splits)

lemma yields_need_any: "P failure \<Longrightarrow> (\<And>x. yields P (f x)) \<Longrightarrow> yields P (need m failure f)"
  by (rule yields_need [where Q = "\<lambda>_. True"]) (simp_all add: yields_def)

text \<open>The part of the output that gates and console diagnostics leave alone.\<close>

definition same_core :: "StatusSnapshotV3 \<Rightarrow> StatusSnapshotV3 \<Rightarrow> bool" where
  "same_core a b \<longleftrightarrow>
     w3_owner (ss_wire a) = w3_owner (ss_wire b) \<and>
     w3_ownerTransport (ss_wire a) = w3_ownerTransport (ss_wire b) \<and>
     w3_ownerSequence (ss_wire a) = w3_ownerSequence (ss_wire b) \<and>
     w3_header (ss_wire a) = w3_header (ss_wire b)"

lemma gates_keep_core:
  "same_core (a\<lparr>ss_wire := (ss_wire a)\<lparr>w3_revokeReasons := x\<rparr>\<rparr>) b = same_core a b"
  "same_core (a\<lparr>ss_wire := (ss_wire a)\<lparr>w3_lossReasons := x\<rparr>\<rparr>) b = same_core a b"
  "same_core (a\<lparr>ss_wire := (ss_wire a)\<lparr>w3_stopping := x\<rparr>\<rparr>) b = same_core a b"
  "same_core (a\<lparr>ss_wire := (ss_wire a)\<lparr>w3_stoppedQpc := n\<rparr>\<rparr>) b = same_core a b"
  "same_core (a\<lparr>ss_wire := (ss_wire a)\<lparr>w3_fatalTransportReason := n\<rparr>\<rparr>) b = same_core a b"
  by (simp_all add: same_core_def)

lemma yields_Gates: "yields (\<lambda>r. same_core (fst r) out) (Gates read out)"
proof -
  have c: "same_core (if p then a else b) out = (if p then same_core a out else same_core b out)" for p a b by simp
  have r: "same_core out out" by (simp add: same_core_def)
  show ?thesis unfolding Gates_def Let_def
    by (intro yields_need_any yields_return) (simp_all only: fst_conv gates_keep_core c r if_cancel)
qed

lemma yields_Console: "yields (\<lambda>r. same_core r out) (Console read out)"
  unfolding Console_def
  by (intro yields_need_any yields_if yields_return) (auto simp: same_core_def)

definition snapshot_good ::
  "(nat \<Rightarrow> wordmem) \<Rightarrow> SnapshotResultV3 \<times> StatusSnapshotV3 \<Rightarrow> bool" where
  "snapshot_good h r \<longleftrightarrow> (fst r = SR_Coherent \<longrightarrow>
     CoreValid (ss_wire (snd r)) \<and> HeaderValid (w3_header (ss_wire (snd r))) \<and>
     owner_seen h (w3_ownerSequence (ss_wire (snd r))) (w3_owner (ss_wire (snd r)))
       (w3_ownerTransport (ss_wire (snd r))))"

lemma yields_case_prod_app:
  "(\<And>a b. p = (a, b) \<Longrightarrow> yields P (f a b x)) \<Longrightarrow> yields P (case_prod f p x)"
  by (cases p) simp

lemma yields_case_sum:
  "(\<And>a. x = Inl a \<Longrightarrow> yields P (f a)) \<Longrightarrow> (\<And>b. x = Inr b \<Longrightarrow> yields P (g b)) \<Longrightarrow> yields P (case_sum f g x)"
  by (cases x) simp_all

lemma yields_case_bool:
  "(b \<Longrightarrow> yields P m) \<Longrightarrow> (\<not> b \<Longrightarrow> yields P m') \<Longrightarrow> yields P (case_bool m m' b)"
  by (cases b) simp_all

lemma judge_Inl: "judge pr r invalid = (Inl result, pr') \<Longrightarrow> result = SR_Invalid"
  by (auto simp: judge_def Let_def split: if_splits)

lemma judge_commit:
  "judge pr r invalid = (Inr True, pr') \<Longrightarrow> or_stable (ar_b r)"
  by (auto simp: judge_def Let_def split: if_splits)

lemma yields_commit:
  assumes "owner_seen h (or_sequence (ar_b r)) (or_owner (ar_b r)) (or_transport (ar_b r))"
    and "HeaderValid (w3_header (ss_wire out))"
  shows "yields (snapshot_good h) (commit read out r pauseBefore pauseAfter)"
  unfolding commit_def Let_def
  by (rule yields_bind [OF yields_Console], rule yields_bind [OF yields_Gates])
    (use assms in \<open>auto simp: same_core_def snapshot_good_def CoreValid_def intro!: yields_return
      split: option.splits\<close>)

context block_reads
begin

lemma Bytes_sound:
  assumes "run_state (Bytes read off k) w = (r, w')"
  shows "clock w \<le> clock w' \<and> (\<forall>ws. r = Some ws \<longrightarrow> length ws = k \<and>
    (\<forall>i < k. \<exists>u. clock w \<le> u \<and> u \<le> clock w' \<and> ws ! i = h u (off + i)))"
proof (cases "off \<le> wire_words \<and> k \<le> wire_words - off")
  case True
  then have r: "run_state (read off k) w = (r, w')" using assms by (simp add: Bytes_def)
  show ?thesis
    using read_clock [OF r] read_length read_words r by blast
next
  case False
  then have "Bytes read off k = State_Monad.return None" by (auto simp: Bytes_def)
  then show ?thesis using assms by simp
qed

lemma At_word_sound:
  assumes "run_state (At_word read i) w = (r, w')"
  shows "clock w \<le> clock w' \<and> (\<forall>v. r = Some v \<longrightarrow> (\<exists>u. clock w \<le> u \<and> u \<le> clock w' \<and> v = h u i))"
proof -
  obtain r1 w1 where b: "run_state (Bytes read i 1) w = (r1, w1)" by fastforce
  with assms have "w' = w1" "r = map_option (\<lambda>ws. ws ! 0) r1"
    by (auto simp: At_word_def need_def bind_def split: option.splits)
  with Bytes_sound [OF b] show ?thesis by fastforce
qed

lemma yields_Owner:
  "yields (\<lambda>r. \<forall>x. r = Some x \<longrightarrow> or_stable (fst x) \<longrightarrow>
     owner_seen h (or_sequence (fst x)) (or_owner (fst x)) (or_transport (fst x))) (Owner read)"
  unfolding yields_def
proof (intro allI impI)
  fix w x
  assume r: "fst (run_state (Owner read) w) = Some x" and stable: "or_stable (fst x)"
  obtain b w1 where l1: "run_state (At_word read v3_ownerSequence) w = (b, w1)" by fastforce
  obtain ob w2 where l2: "run_state (Bytes read v3_owner payload_words) w1 = (ob, w2)" by fastforce
  obtain t w3 where l3: "run_state (Bytes read v3_ownerTransport 22) w2 = (t, w3)" by fastforce
  obtain a w4 where l4: "run_state (At_word read v3_ownerSequence) w3 = (a, w4)" by fastforce
  obtain seq ow tw where v: "b = Some seq" "ob = Some ow" "t = Some tw" "a = Some seq" "2 \<le> seq" "even seq"
      "fst x = \<lparr>or_owner = payload_of_words ow, or_transport = transport_of_words tw,
        or_sequence = seq, or_stable = True\<rparr>"
    using r stable l1 l2 l3 l4
    by (auto simp: Owner_def need_def bind_def split: option.splits if_splits)
  note B = At_word_sound [OF l1] and O = Bytes_sound [OF l2] and T = Bytes_sound [OF l3] and A = At_word_sound [OF l4]
  obtain s where s: "s \<le> clock w1" "seq = h s v3_ownerSequence" using B v by blast
  obtain e where e: "clock w3 \<le> e" "seq = h e v3_ownerSequence" using A v by blast
  have "owner_seen h seq (payload_of_words ow) (transport_of_words tw)"
  proof (rule owner_seenI [of ow s e h tw])
    show "length ow = 137" "length tw = 22" using O T v by (simp_all add: payload_words_def)
    show "s \<le> e" using s e O T by linarith
    show "h s v3_ownerSequence = seq" "h e v3_ownerSequence = seq" "2 \<le> seq" "even seq"
      using s e v by simp_all
    fix i
    show "i < 137 \<Longrightarrow> \<exists>u. s \<le> u \<and> u \<le> e \<and> ow ! i = h u (v3_owner + i)"
      using O T s e v by (auto simp: payload_words_def) (meson le_trans)
    show "i < 22 \<Longrightarrow> \<exists>u. s \<le> u \<and> u \<le> e \<and> tw ! i = h u (v3_ownerTransport + i)"
      using O T s e v by auto (meson le_trans)
  qed
  then show "owner_seen h (or_sequence (fst x)) (or_owner (fst x)) (or_transport (fst x))" using v by simp
qed

lemma yields_attempts: "yields (snapshot_good h) (snapshot_attempts read k attempt pr)"
proof (induction k arbitrary: attempt pr)
  case 0
  then show ?case by (simp add: yields_def snapshot_good_def)
next
  case (Suc k)
  have bad: "fst r \<noteq> SR_Coherent \<Longrightarrow> snapshot_good h r" for r by (simp add: snapshot_good_def)
  show ?case
    unfolding snapshot_attempts.simps Let_def
    by (intro yields_need [OF yields_Owner] yields_need_any yields_bind [OF yields_Gates] yields_case_prod
        yields_case_prod_app
        yields_case_sum yields_case_bool yields_option yields_if yields_return Suc.IH yields_commit)
      (auto simp: bad same_core_def dest: judge_Inl judge_commit)
qed

end

text \<open>
  C21: A snapshot another process reads is one publication.  Whatever the writers do while
  \<open>ReadStatusSnapshotV3\<close> runs, and in whatever order a block read picks up its words, a
  coherent result passes the header and core checks, and its owner payload and transport are
  those of the accepted publication its sequence number names.
\<close>

theorem snapshot_is_one_publication:
  assumes "owner_only m header owner inputs ops" and "block_reads read clock (history m ops)"
    and "fst (run_state (ReadStatusSnapshotV3 (Some read)) w) = (SR_Coherent, snap)"
  shows "CoreValid (ss_wire snap) \<and> HeaderValid (w3_header (ss_wire snap)) \<and>
    (\<exists>j < length (owner_publications m header owner inputs).
      w3_ownerSequence (ss_wire snap) = 2 * Suc j \<and>
      (w3_owner (ss_wire snap), w3_ownerTransport (ss_wire snap)) =
        owner_publications m header owner inputs ! j)"
proof -
  have "snapshot_good (history m ops) (SR_Coherent, snap)"
    using block_reads.yields_attempts [OF assms(2)] assms(3)
    unfolding yields_def ReadStatusSnapshotV3_def by (metis option.simps(5))
  then show ?thesis
    using owner_seen_published [OF assms(1)] by (auto simp: snapshot_good_def)
qed

lemma run_need: "run_state (need m failure f) w =
  (case run_state m w of (r, w') \<Rightarrow> (case r of None \<Rightarrow> (failure, w') | Some x \<Rightarrow> run_state (f x) w'))"
  by (auto simp: need_def bind_def split: prod.splits option.splits)

lemma quiet_read:
  "off + k \<le> wire_words \<Longrightarrow> run_state (Bytes (local_read (history_load h (\<lambda>_. 0))) off k) t = (Some (words_at (h t) off k), t)"
  by (simp add: Bytes_def local_read_def bind_def quiet_LoadWords)

lemma quiet_word:
  "i < wire_words \<Longrightarrow> run_state (At_word (local_read (history_load h (\<lambda>_. 0))) i) t = (Some (h t i), t)"
  by (simp add: At_word_def run_need quiet_read wire_words_def)

text \<open>A wire at rest just after its initialisation.\<close>

definition rest_ops :: "atomic list" where
  "rest_ops = owner_trace (\<lambda>_. 0) zero_header zero_payload []"

definition rest_wire :: wordmem where
  "rest_wire = run_ops (\<lambda>_. 0) rest_ops"

lemma words_at_upd: "i \<notin> region base n \<Longrightarrow> words_at (m(i := v)) base n = words_at m base n"
  by (rule words_at_cong) auto

lemma words_at_stores: "n = length ws \<Longrightarrow> words_at (run_ops m (StoreWords base ws)) base n = ws"
  by (simp add: words_after_StoreWords)

lemma words_at_apart:
  "base + n \<le> c \<or> c + length ws \<le> base \<Longrightarrow> words_at (run_ops m (StoreWords c ws)) base n = words_at m base n"
  by (rule words_after_other) (auto simp: sites_StoreWords region_def)

lemma stores_other:
  "i < c \<or> c + length ws \<le> i \<Longrightarrow> run_ops m (StoreWords c ws) i = m i"
  by (rule run_ops_other) (auto simp: sites_StoreWords region_def)

lemma rest_ops_eq:
  "rest_ops = [Cas 16 0 2] @ StoreWords 0 (words_of_header (published_headerV3 zero_header)) @
     StoreWords 27 (replicate 5 0) @ [Put 17 1] @ StoreWords 32 (words_of_payload zero_payload) @
     StoreWords 169 (words_of_transport (initial_transport zero_payload)) @ [Put 17 2, Put 18 1] @
     StoreWords 191 (replicate 20 0) @ [Put 18 2, Put 19 1] @ StoreWords 211 (replicate 8 0) @
     [Put 19 2, Put 16 1]"
  by (simp add: rest_ops_def owner_trace_def InitializeStatusV3_def v3_offsets Let_def)

lemmas rest_lengths = length_published_headerV3 [OF zero_shapes(1)] length_words_of_payload [OF zero_shapes(2)]

lemma rest_words:
  "rest_wire 16 = 1" "rest_wire 17 = 2" "rest_wire 18 = 2" "rest_wire 19 = 2" "rest_wire 20 = 0"
  "rest_wire 21 = 0" "rest_wire 22 = 0" "rest_wire 23 = 0" "rest_wire 24 = 0" "rest_wire 25 = 0" "rest_wire 26 = 0"
  by (simp_all add: rest_wire_def rest_ops_eq stores_other rest_lengths)

lemma rest_blocks:
  "words_at rest_wire 0 16 = words_of_header (published_headerV3 zero_header)"
  "words_at rest_wire 27 5 = replicate 5 0"
  "words_at rest_wire 32 137 = words_of_payload zero_payload"
  "words_at rest_wire 169 22 = words_of_transport (initial_transport zero_payload)"
  "words_at rest_wire 191 20 = replicate 20 0"
  "words_at rest_wire 211 8 = replicate 8 0"
  by (simp_all add: rest_wire_def rest_ops_eq words_at_upd words_at_stores words_at_apart rest_lengths region_def
      del: replicate_Suc)

lemma rest_header:
  "header_of_words (words_of_header (published_headerV3 zero_header)) = published_headerV3 zero_header"
  "HeaderValid (published_headerV3 zero_header)"
proof -
  have z: "sh_configuredMode zero_header = 0" "sh_pid zero_header = 0" "sh_validity zero_header = 0"
    by (simp_all add: zero_header_def header_of_words_def lo32_def hi32_def)
  have "header_fits (published_headerV3 zero_header)"
    using zero_shapes(1) z
    by (simp add: header_fits_def header_shape_def published_headerV3_def kStatusSchemaV3_def
        sizeof_StatusWireV3_def kReportingArtifactVersionV3_def)
  then show "header_of_words (words_of_header (published_headerV3 zero_header)) = published_headerV3 zero_header"
    by (rule header_of_words_of)
  show "HeaderValid (published_headerV3 zero_header)"
    using z by (simp add: HeaderValid_def published_headerV3_def list_all_iff)
qed

lemma zero_payload_sel:
  "own_phase zero_payload = 0" "own_reason zero_payload = 0" "own_pending zero_payload = 0"
  "own_fresh zero_payload = 0" "own_builderBound zero_payload = 0" "own_ownerThreadId zero_payload = 0"
  "own_reportSequence zero_payload = 0"
  by (simp_all add: zero_payload_def payload_of_words_def)

lemma rest_core:
  assumes "w3_owner wire = zero_payload" and "w3_ownerTransport wire = initial_transport zero_payload"
    and "w3_worker wire = worker_of_words (replicate 20 0)" and "w3_workerPauseReason wire = 0"
    and "w3_fatalTransportReason wire = 0"
  shows "CoreValid wire"
  using assms
  by (simp add: CoreValid_def Let_def initial_transport_def transport_zero_def transport_of_words_def
      worker_of_words_def value_defs TransportReason_Count_def kRuntimeReasonCountV3_def zero_payload_sel)

lemma snapshot_is_one_publication_witness:
  "\<exists>snap. fst (run_state (ReadStatusSnapshotV3 (Some (local_read (history_load
      (history (\<lambda>_. 0) rest_ops) (\<lambda>_. 0))))) (length rest_ops)) = (SR_Coherent, snap) \<and>
    w3_owner (ss_wire snap) = zero_payload"
proof -
  let ?h = "history (\<lambda>_. 0) rest_ops" and ?T = "length rest_ops"
  let ?read = "local_read (history_load ?h (\<lambda>_. 0))"
  have f: "?h ?T = rest_wire" by (simp add: history_def rest_wire_def)
  note rd = quiet_read [of _ _ ?h ?T, unfolded f] quiet_word [of _ ?h ?T, unfolded f]
  have gates: "\<exists>out'. run_state (Gates ?read out) ?T = ((out', Some 0), ?T) \<and> same_core out' out \<and>
      (w3_worker (ss_wire out') = w3_worker (ss_wire out)) \<and>
      (w3_workerPauseReason (ss_wire out') = w3_workerPauseReason (ss_wire out)) \<and>
      (ss_headerAvailable out' = ss_headerAvailable out) \<and>
      w3_fatalTransportReason (ss_wire out') = w3_fatalTransportReason (ss_wire out)" for out
    by (simp add: Gates_def Let_def run_need rd v3_offsets wire_words_def rest_words same_core_def)
  have owner: "run_state (Owner ?read) ?T = (Some (\<lparr>or_owner = zero_payload,
      or_transport = initial_transport zero_payload, or_sequence = 2, or_stable = True\<rparr>, False), ?T)"
    by (simp add: Owner_def run_need rd v3_offsets wire_words_def payload_words_def rest_words rest_blocks
        payload_of_words_of zero_shapes)
  have worker: "run_state (Worker ?read) ?T = (Some ((worker_of_words (replicate 20 0), 2, True), False), ?T)"
    by (simp add: Worker_def run_need rd v3_offsets wire_words_def rest_words rest_blocks)
  have console: "\<exists>out'. run_state (Console ?read out) ?T = (out', ?T) \<and> same_core out' out \<and>
      (w3_worker (ss_wire out') = w3_worker (ss_wire out)) \<and>
      (w3_workerPauseReason (ss_wire out') = w3_workerPauseReason (ss_wire out)) \<and>
      w3_fatalTransportReason (ss_wire out') = w3_fatalTransportReason (ss_wire out)" for out
    by (simp add: Console_def run_need rd v3_offsets wire_words_def rest_words same_core_def)
  obtain G where G: "\<And>out. run_state (Gates ?read out) ?T = ((G out, Some 0), ?T)"
    "\<And>out. same_core (G out) out" "\<And>out. w3_worker (ss_wire (G out)) = w3_worker (ss_wire out)"
    "\<And>out. w3_workerPauseReason (ss_wire (G out)) = w3_workerPauseReason (ss_wire out)"
    "\<And>out. ss_headerAvailable (G out) = ss_headerAvailable out"
    "\<And>out. w3_fatalTransportReason (ss_wire (G out)) = w3_fatalTransportReason (ss_wire out)"
    using gates by metis
  obtain C where C: "\<And>out. run_state (Console ?read out) ?T = (C out, ?T)"
    "\<And>out. same_core (C out) out" "\<And>out. w3_worker (ss_wire (C out)) = w3_worker (ss_wire out)"
    "\<And>out. w3_workerPauseReason (ss_wire (C out)) = w3_workerPauseReason (ss_wire out)"
    "\<And>out. w3_fatalTransportReason (ss_wire (C out)) = w3_fatalTransportReason (ss_wire out)"
    using console by metis
  have "ss_headerAvailable snapshot_zero = False" "w3_fatalTransportReason (ss_wire snapshot_zero) = 0"
    by (simp_all add: snapshot_zero_def wire_of_words_def wire_words_def)
  then have "\<exists>snap. fst (run_state (ReadStatusSnapshotV3 (Some ?read)) ?T) = (SR_Coherent, snap)"
    using G(2) C(2)
    by (simp add: ReadStatusSnapshotV3_def numeral_3_eq_3 Let_def run_need rd bind_def G(1,3-6) C(1,3-5) owner worker
        v3_offsets wire_words_def rest_words rest_blocks rest_header judge_def commit_def same_core_def
        rest_core list_all_iff)
  then obtain snap where snap: "fst (run_state (ReadStatusSnapshotV3 (Some ?read)) ?T) = (SR_Coherent, snap)" by blast
  have "owner_only (\<lambda>_. 0) zero_header zero_payload [] rest_ops"
    by (auto simp: owner_only_def zero_shapes rest_ops_def intro!: exI [of _ "length (filter owner_op rest_ops)"])
  from snapshot_is_one_publication [OF this history_loads.locals.block_reads_axioms snap]
  have "w3_owner (ss_wire snap) = zero_payload" by (simp add: owner_publications_def)
  with snap show ?thesis by blast
qed

end
