(* ===== verification/RecoveryWire.thy ===== *)
theory RecoveryWire
  imports SnapshotV3
begin

text \<open>
  The recovery status (\<open>src/shared/leech_recovery_status.h\<close>,
  \<open>src/companion/leech_recovery_wire.cpp\<close>, \<open>src/shared/leech_recovery_snapshot.cpp\<close>): its
  enumerations and flags, the 256-byte wire with one owner, publication, and the two bounded
  readers, of the recovery payload and of the reporting identity it belongs to.
\<close>

section \<open>Enumerations\<close>

datatype RecoveryPhase =
    RP_Disabled | RP_Armed | RP_Requested | RP_Qualifying | RP_FinishSubmitted | RP_FinishAccepted
    | RP_Recreating | RP_Published | RP_Observed | RP_Failed | RP_Rejected

definition RecoveryPhase_Count :: nat where "RecoveryPhase_Count = 11"

datatype RecoveryEvent =
    RE_None | RE_Transition | RE_Final | RE_Exception

definition RecoveryEvent_Count :: nat where "RecoveryEvent_Count = 4"

datatype (plugins only: code size) RecoveryReason =
    RR_None | RR_PermissionDisabled | RR_InvalidRequest | RR_SourceUnavailable | RR_SourceChanged
    | RR_SpectatorsPresent | RR_CountsInvalid | RR_NativeProfileMismatch | RR_LifecycleChanged |
    RR_KernelChanged | RR_HeartbeatUnavailable | RR_ScheduleUnsupported | RR_DescriptorUnavailable
    | RR_RequestPoolUnavailable | RR_GenericPoolUnavailable | RR_RecordingNotQuiescent |
    RR_QuotaUnavailable | RR_RetirementFailed | RR_RecordingUnavailable | RR_FinishEnqueueFailed |
    RR_CallbackInvalid | RR_FinishRejected | RR_FinishTimeout | RR_AttemptTimeout |
    RR_CreateFailed | RR_CacheClearedNoSession | RR_ClockFault | RR_NativeException |
    RR_InverseUnavailable | RR_ControlWorkerUnavailable | RR_BindingNotReady |
    RR_ControlConfigMissing | RR_ControlConfigInvalid | RR_ControlIdentityMismatch |
    RR_ControlPathRejected | RR_ControlSecurityRejected | RR_ControlReadFailure |
    RR_ControlEndpointUnavailable | RR_GuardSnapshotInvalidContext | RR_GuardSnapshotUnreadable |
    RR_GuardSnapshotChanged | RR_GuardSnapshotBudget | RR_GuardSnapshotShape |
    RR_GuardSnapshotAlias | RR_GuardSnapshotDescriptor | RR_GuardSnapshotPool |
    RR_GuardSnapshotReadiness | RR_GuardSnapshotHook | RR_GuardSnapshotAllocator |
    RR_GuardSnapshotImport | RR_GuardSnapshotProvenance | RR_GuardReadiness | RR_GuardStandalone |
    RR_GuardSession | RR_GuardIssuedId | RR_GuardFinishFree | RR_GuardCreateFree |
    RR_GuardHeartbeatSlot | RR_GuardHeartbeatType | RR_GuardHeartbeatId | RR_GuardGenericId |
    RR_GuardGenericHolder | RR_GuardHeartbeatReferences | RR_SnapshotGuardPassed |
    RR_MetadataUnavailable | RR_MetadataTimeout | RR_MetadataCountsNotReady |
    RR_MetadataUnsupportedState | RR_MetadataRandomUnavailable | RR_MetadataUnverified |
    RR_PublishedIdentityChanged | RR_MetadataCountLimit | RR_PumpHeadroomUnavailable |
    RR_BotsUnsupported | RR_PopulationUnsupported | RR_HeartbeatStateUnsupported |
    RR_HeartbeatScheduleInvalid | RR_HeartbeatErrors | RR_HeartbeatThrottled |
    RR_HeartbeatExpedited | RR_HeartbeatIntervalUnsupported | RR_HeartbeatOverridesUnsupported |
    RR_HeartbeatRetryUnsupported

definition RecoveryReason_Count :: nat where "RecoveryReason_Count = 83"

datatype RecoveryOutcome =
    RO_None | RO_MechanicsFailed | RO_ClearedCacheNoSession | RO_NativeUnwind |
    RO_RecordingUnavailable | RO_PublishedNotDelivered | RO_DeliveredSelectionUnknown |
    RO_AdoptedCountUnrepaired | RO_RepairedObserved | RO_Inconclusive

definition RecoveryOutcome_Count :: nat where "RecoveryOutcome_Count = 10"

datatype ResourcePhase =
    RS_None | RS_AllocatedUnbound | RS_BoundLocal | RS_EnqueueEntered | RS_LocalReleased

definition ResourcePhase_Count :: nat where "ResourcePhase_Count = 5"

datatype (plugins only: code size) NativeStage =
    NS_None | NS_Descriptor | NS_Allocate | NS_Bind | NS_Copy | NS_Retire | NS_Cancel | NS_Enqueue
    | NS_LocalRelease | NS_Cleanup | NS_Create | NS_Publish | NS_Rebind | NS_Start |
    NS_GuardInstall | NS_CreateGuard | NS_CreateForward | NS_MetadataConstruct | NS_MetadataFill |
    NS_MetadataUpdate | NS_MetadataDestroy | NS_MetadataVerify

definition NativeStage_Count :: nat where "NativeStage_Count = 22"

datatype CallbackResult =
    CR_NotObserved | CR_True | CR_False | CR_Null | CR_Unreadable | CR_Invalid

definition CallbackResult_Count :: nat where "CallbackResult_Count = 6"

section \<open>Flags\<close>

definition RecoveryPermissionEnabled :: nat where "RecoveryPermissionEnabled = 2 ^ 0"
definition RecoveryCancellationCompleted :: nat where "RecoveryCancellationCompleted = 2 ^ 1"
definition RecoveryRestartRequired :: nat where "RecoveryRestartRequired = 2 ^ 2"
definition RecoveryCallbackObserved :: nat where "RecoveryCallbackObserved = 2 ^ 3"
definition RecoveryAttributionValid :: nat where "RecoveryAttributionValid = 2 ^ 4"
definition RecoveryDeliveryReceiptObserved :: nat where "RecoveryDeliveryReceiptObserved = 2 ^ 5"
definition RecoveryRecipeEntered :: nat where "RecoveryRecipeEntered = 2 ^ 6"
definition RecoveryRecipeNormalCompleted :: nat where "RecoveryRecipeNormalCompleted = 2 ^ 7"
definition RecoveryExceptionObserved :: nat where "RecoveryExceptionObserved = 2 ^ 8"
definition RecoveryTerminal :: nat where "RecoveryTerminal = 2 ^ 9"
definition RecoveryCreateGuardInstalled :: nat where "RecoveryCreateGuardInstalled = 2 ^ 10"
definition RecoveryCreateCallbackObserved :: nat where "RecoveryCreateCallbackObserved = 2 ^ 11"
definition RecoveryCreateForwardEntered :: nat where "RecoveryCreateForwardEntered = 2 ^ 12"
definition RecoveryCreateForwardNormalCompleted :: nat where "RecoveryCreateForwardNormalCompleted = 2 ^ 13"
definition RecoveryCallbackOwnTimingValid :: nat where "RecoveryCallbackOwnTimingValid = 2 ^ 14"
definition RecoveryPublishedLocally :: nat where "RecoveryPublishedLocally = 2 ^ 15"
definition RecoveryMetadataAttempted :: nat where "RecoveryMetadataAttempted = 2 ^ 16"
definition RecoveryMetadataCoherent :: nat where "RecoveryMetadataCoherent = 2 ^ 17"
definition RecoveryMetadataUnverified :: nat where "RecoveryMetadataUnverified = 2 ^ 18"
definition RecoveryMetadataDirtyAfter :: nat where "RecoveryMetadataDirtyAfter = 2 ^ 19"
definition RecoveryConsoleRequested :: nat where "RecoveryConsoleRequested = 2 ^ 20"
definition RecoveryPreflightRetryable :: nat where "RecoveryPreflightRetryable = 2 ^ 21"
definition kRecoveryKnownFlags :: nat where "kRecoveryKnownFlags = 0x3fffff"

lemmas flag_defs = RecoveryPermissionEnabled_def RecoveryCancellationCompleted_def RecoveryRestartRequired_def
  RecoveryCallbackObserved_def RecoveryAttributionValid_def RecoveryDeliveryReceiptObserved_def
  RecoveryRecipeEntered_def RecoveryRecipeNormalCompleted_def RecoveryExceptionObserved_def
  RecoveryTerminal_def RecoveryCreateGuardInstalled_def RecoveryCreateCallbackObserved_def
  RecoveryCreateForwardEntered_def RecoveryCreateForwardNormalCompleted_def
  RecoveryCallbackOwnTimingValid_def RecoveryPublishedLocally_def RecoveryMetadataAttempted_def
  RecoveryMetadataCoherent_def RecoveryMetadataUnverified_def RecoveryMetadataDirtyAfter_def
  RecoveryConsoleRequested_def RecoveryPreflightRetryable_def kRecoveryKnownFlags_def

section \<open>Payload and wire\<close>

record ReportRecoveryPayload =
  rp_phase :: nat
  rp_event :: nat
  rp_reason :: nat
  rp_outcome :: nat
  rp_flags :: nat
  rp_operationSequence :: nat
  rp_transitionSequence :: nat
  rp_qpc :: nat
  rp_sourceEpoch :: nat
  rp_sdkEpoch :: nat
  rp_ownerThreadId :: nat
  rp_resourcePhase :: nat
  rp_nativeStage :: nat
  rp_exceptionCode :: nat
  rp_requestId :: nat
  rp_callbackId :: nat
  rp_callbackResult :: nat
  rp_apiReturnedId :: nat
  rp_oldSdkFingerprint :: nat
  rp_newSdkFingerprint :: nat
  rp_oldCacheFingerprint :: nat
  rp_newCacheFingerprint :: nat
  rp_finishDeadlineQpc :: nat
  rp_overallDeadlineQpc :: nat
  rp_recordSequence :: nat
  rp_callbackOwnTicks :: nat

definition words_of_recovery :: "ReportRecoveryPayload \<Rightarrow> nat list" where
  "words_of_recovery r =
     [rp_phase r, rp_event r, rp_reason r, rp_outcome r, rp_flags r, rp_operationSequence r,
     rp_transitionSequence r, rp_qpc r, rp_sourceEpoch r, rp_sdkEpoch r, rp_ownerThreadId r,
     rp_resourcePhase r, rp_nativeStage r, rp_exceptionCode r, rp_requestId r, rp_callbackId r,
     rp_callbackResult r, rp_apiReturnedId r, rp_oldSdkFingerprint r, rp_newSdkFingerprint r,
     rp_oldCacheFingerprint r, rp_newCacheFingerprint r, rp_finishDeadlineQpc r,
     rp_overallDeadlineQpc r, rp_recordSequence r, rp_callbackOwnTicks r]"

definition recovery_of_words :: "nat list \<Rightarrow> ReportRecoveryPayload" where
  "recovery_of_words ws =
     \<lparr>rp_phase = ws ! 0, rp_event = ws ! 1, rp_reason = ws ! 2, rp_outcome = ws ! 3,
     rp_flags = ws ! 4, rp_operationSequence = ws ! 5, rp_transitionSequence = ws ! 6, rp_qpc = ws
     ! 7, rp_sourceEpoch = ws ! 8, rp_sdkEpoch = ws ! 9, rp_ownerThreadId = ws ! 10,
     rp_resourcePhase = ws ! 11, rp_nativeStage = ws ! 12, rp_exceptionCode = ws ! 13,
     rp_requestId = ws ! 14, rp_callbackId = ws ! 15, rp_callbackResult = ws ! 16,
     rp_apiReturnedId = ws ! 17, rp_oldSdkFingerprint = ws ! 18, rp_newSdkFingerprint = ws ! 19,
     rp_oldCacheFingerprint = ws ! 20, rp_newCacheFingerprint = ws ! 21, rp_finishDeadlineQpc = ws
     ! 22, rp_overallDeadlineQpc = ws ! 23, rp_recordSequence = ws ! 24, rp_callbackOwnTicks = ws
     ! 25\<rparr>"

lemma recovery_of_words_of [simp]: "recovery_of_words (words_of_recovery r) = r"
  by (simp add: recovery_of_words_def words_of_recovery_def)

lemma length_words_of_recovery [simp]: "length (words_of_recovery r) = 26"
  by (simp add: words_of_recovery_def)

definition kRecoveryStatusSchemaV1 :: nat where "kRecoveryStatusSchemaV1 = 1"
definition kRecoveryArtifactVersion :: nat where "kRecoveryArtifactVersion = 0x00070100"
definition sizeof_recovery :: nat where "sizeof_recovery = 256"
definition recovery_wire_words :: nat where "recovery_wire_words = 32"
definition rw_headerReady :: nat where "rw_headerReady = 4"
definition rw_ownerSequence :: nat where "rw_ownerSequence = 5"
definition rw_payload :: nat where "rw_payload = 6"

lemmas recovery_offsets = rw_headerReady_def rw_ownerSequence_def rw_payload_def

record RecoveryHeader =
  rh_schema :: nat
  rh_bytes :: nat
  rh_artifactVersion :: nat
  rh_pid :: nat
  rh_runId :: "byte list"

text \<open>A copy of the wire: header, control words and payload.\<close>

record RecoveryStatusWireV1 =
  rw_header :: RecoveryHeader
  rw_ready :: nat
  rw_sequence :: nat
  rw_body :: ReportRecoveryPayload

definition words_of_recovery_header :: "RecoveryHeader \<Rightarrow> nat list" where
  "words_of_recovery_header h =
     [word_of_pair (rh_schema h) (rh_bytes h), word_of_pair (rh_artifactVersion h) (rh_pid h)] @
     words_of_bytes (rh_runId h)"

definition recovery_header_of_words :: "nat list \<Rightarrow> RecoveryHeader" where
  "recovery_header_of_words ws =
     \<lparr>rh_schema = lo32 (ws ! 0), rh_bytes = hi32 (ws ! 0), rh_artifactVersion = lo32 (ws ! 1),
      rh_pid = hi32 (ws ! 1), rh_runId = bytes_of_words (slice 2 2 ws)\<rparr>"

section \<open>Validity\<close>

definition AnyByte :: "byte list \<Rightarrow> bool" where
  "AnyByte bs \<longleftrightarrow> fold or bs 0 \<noteq> 0"

definition ReportingIdentityValidV3 :: "StatusHeader \<Rightarrow> bool" where
  "ReportingIdentityValidV3 h \<longleftrightarrow>
     \<not> (sh_magic h \<noteq> kStatusMagic \<or> sh_schema h \<noteq> kStatusSchemaV3 \<or> sh_bytes h \<noteq> sizeof_StatusWireV3 \<or>
        sh_artifactVersion h \<noteq> kReportingArtifactVersionV3 \<or>
        sh_artifactVersion h \<noteq> kRecoveryArtifactVersion \<or> sh_configuredMode h > 3 \<or>
        sh_validity h \<noteq> CompleteHeaderIdentity \<or> sh_pid h = 0 \<or> sh_processCreation h = 0 \<or>
        sh_qpcFrequency h = 0 \<or> sh_qpcFrequency h > i64_max_nat div 45 \<or>
        \<not> AnyByte (sh_runId h) \<or> \<not> AnyByte (sh_hostDigest h)) \<and>
     list_all (\<lambda>w. w = 0) (sh_reserved h)"

definition RecoveryHeaderValid :: "RecoveryHeader \<Rightarrow> bool" where
  "RecoveryHeaderValid h \<longleftrightarrow> rh_schema h = kRecoveryStatusSchemaV1 \<and> rh_bytes h = sizeof_recovery \<and>
     rh_artifactVersion h = kRecoveryArtifactVersion \<and> rh_pid h \<noteq> 0 \<and> AnyByte (rh_runId h)"

text \<open>A flag is set; a mask has a bit outside another one (\<open>flags & ~known\<close>).\<close>

definition has :: "nat \<Rightarrow> nat \<Rightarrow> bool" where "has flags bits \<longleftrightarrow> and flags bits \<noteq> 0"
definition outside :: "nat \<Rightarrow> nat \<Rightarrow> bool" where "outside flags bits \<longleftrightarrow> and flags bits \<noteq> flags"

definition recovery_ranges_ok :: "ReportRecoveryPayload \<Rightarrow> bool" where
  "recovery_ranges_ok p \<longleftrightarrow>
     \<not> (rp_phase p \<ge> RecoveryPhase_Count \<or> rp_event p \<ge> RecoveryEvent_Count \<or>
        rp_reason p \<ge> RecoveryReason_Count \<or> rp_outcome p \<ge> RecoveryOutcome_Count \<or>
        rp_resourcePhase p \<ge> ResourcePhase_Count \<or> rp_nativeStage p \<ge> NativeStage_Count \<or>
        rp_callbackResult p \<ge> CallbackResult_Count \<or> outside (rp_flags p) kRecoveryKnownFlags \<or>
        rp_ownerThreadId p > u32_max \<or> rp_exceptionCode p > u32_max \<or> rp_requestId p > u32_max \<or>
        rp_callbackId p > u32_max \<or> rp_apiReturnedId p > u32_max \<or> rp_qpc p > i64_max_nat \<or>
        rp_finishDeadlineQpc p > i64_max_nat \<or> rp_overallDeadlineQpc p > i64_max_nat \<or>
        rp_callbackOwnTicks p > i64_max_nat)"

definition metadata_flags :: nat where
  "metadata_flags = or RecoveryMetadataAttempted (or RecoveryMetadataCoherent
     (or RecoveryMetadataUnverified RecoveryMetadataDirtyAfter))"

definition recovery_flags_ok :: "ReportRecoveryPayload \<Rightarrow> bool" where
  "recovery_flags_ok p \<longleftrightarrow>
     (let f = rp_flags p in
      \<not> (if has f RecoveryCallbackOwnTimingValid then \<not> has f RecoveryCreateCallbackObserved
         else rp_callbackOwnTicks p \<noteq> 0) \<and>
      \<not> (has f RecoveryCreateForwardNormalCompleted \<and> \<not> has f RecoveryCreateForwardEntered) \<and>
      \<not> (has f RecoveryCreateForwardEntered \<and> \<not> has f RecoveryCreateCallbackObserved) \<and>
      \<not> (has f metadata_flags \<and> \<not> has f RecoveryPublishedLocally) \<and>
      \<not> (has f RecoveryMetadataCoherent \<and> has f RecoveryMetadataUnverified) \<and>
      \<not> (has f RecoveryMetadataDirtyAfter \<and> \<not> has f RecoveryMetadataAttempted) \<and>
      \<not> (has f RecoveryConsoleRequested \<and> rp_operationSequence p = 0))"

definition retryable_flags :: nat where
  "retryable_flags = or RecoveryPermissionEnabled (or RecoveryTerminal
     (or RecoveryConsoleRequested RecoveryPreflightRetryable))"

text \<open>Enumerators compared with their values: \<open>Rejected\<close> 10, \<open>MechanicsFailed\<close> 1, \<open>RecordingUnavailable\<close> 4.\<close>

definition recovery_retryable_ok :: "ReportRecoveryPayload \<Rightarrow> bool" where
  "recovery_retryable_ok p \<longleftrightarrow>
     (let f = rp_flags p; both = or RecoveryPermissionEnabled RecoveryTerminal in
      has f RecoveryPreflightRetryable \<longrightarrow>
      \<not> (rp_phase p \<noteq> 10 \<or> rp_operationSequence p = 0 \<or> (rp_outcome p \<noteq> 1 \<and> rp_outcome p \<noteq> 4) \<or>
         outside f retryable_flags \<or> and f both \<noteq> both \<or>
         rp_nativeStage p \<noteq> 0 \<or> rp_resourcePhase p \<noteq> 0 \<or> rp_exceptionCode p \<noteq> 0 \<or>
         rp_requestId p \<noteq> 0 \<or> rp_callbackId p \<noteq> 0 \<or> rp_callbackResult p \<noteq> 0 \<or> rp_apiReturnedId p \<noteq> 0))"

definition RecoveryPayloadValid :: "ReportRecoveryPayload \<Rightarrow> bool" where
  "RecoveryPayloadValid p \<longleftrightarrow> recovery_ranges_ok p \<and> recovery_flags_ok p \<and> recovery_retryable_ok p"

section \<open>Publication\<close>

definition recovery_zero :: ReportRecoveryPayload where
  "recovery_zero = recovery_of_words (replicate 26 0)"

definition InitializeRecoveryStatus :: "wordmem \<Rightarrow> StatusHeader \<Rightarrow> bool \<times> atomic list" where
  "InitializeRecoveryStatus m identity =
     (if \<not> ReportingIdentityValidV3 identity then (False, [])
      else if m rw_headerReady \<noteq> 0 then (False, [Cas rw_headerReady 0 2])
      else (True, [Cas rw_headerReady 0 2] @
        StoreWords 0 (words_of_recovery_header \<lparr>rh_schema = kRecoveryStatusSchemaV1,
          rh_bytes = sizeof_recovery, rh_artifactVersion = kRecoveryArtifactVersion,
          rh_pid = sh_pid identity, rh_runId = sh_runId identity\<rparr>) @
        publish_ops rw_ownerSequence rw_payload 0 (words_of_recovery recovery_zero) @
        [Put rw_headerReady 1]))"

definition PublishRecoveryStatus :: "wordmem \<Rightarrow> ReportRecoveryPayload \<Rightarrow> bool \<times> atomic list" where
  "PublishRecoveryStatus m payload =
     (let before = m rw_ownerSequence in
      if \<not> RecoveryPayloadValid payload \<or> m rw_headerReady \<noteq> 1 \<or>
         \<not> RecoveryHeaderValid (recovery_header_of_words (words_at m 0 4)) then (False, [])
      else if before < 2 \<or> odd before \<or> before > u64_max - 2 then (False, [])
      else (True, publish_ops rw_ownerSequence rw_payload before (words_of_recovery payload)))"

section \<open>Readers\<close>

text \<open>
  \<open>LocalRead\<close>: byte offset and size, in range and aligned to words; one load per word.
\<close>

definition LocalRead :: "(nat \<Rightarrow> ('w, nat) state) \<Rightarrow> nat \<Rightarrow> nat \<Rightarrow> ('w, nat list option) state" where
  "LocalRead load off sz =
     (if off > sizeof_recovery \<or> sz > sizeof_recovery - off \<or> off mod 8 \<noteq> 0 \<or> sz mod 8 \<noteq> 0
      then State_Monad.return None else local_read load (off div 8) (sz div 8))"

text \<open>
  The readers take the block read in words; \<open>None\<close> for it is a null function pointer.  The
  identity reader takes every part twice, and its answer is the header or a reason.
\<close>

fun identity_attempts ::
  "'w block_read \<Rightarrow> nat \<Rightarrow> ('w, SnapshotResultV3 \<times> StatusHeader option) state" where
  "identity_attempts read 0 = State_Monad.return (SR_Unpublished, None)"
| "identity_attempts read (Suc k) =
     need (read v3_headerReady 1) (SR_ReadFailure, None) (\<lambda>before.
     if before ! 0 > 2 then State_Monad.return (SR_Invalid, None)
     else if before ! 0 \<noteq> 1 then identity_attempts read k
     else
     need (read 0 16) (SR_ReadFailure, None) (\<lambda>a.
     need (read v3_reserved 5) (SR_ReadFailure, None) (\<lambda>reservedA.
     need (read (v3_ownerTransport + 21) 1) (SR_ReadFailure, None) (\<lambda>ownerReservedA.
     need (read (v3_worker + 19) 1) (SR_ReadFailure, None) (\<lambda>workerReservedA.
     need (read 0 16) (SR_ReadFailure, None) (\<lambda>b.
     need (read v3_reserved 5) (SR_ReadFailure, None) (\<lambda>reservedB.
     need (read (v3_ownerTransport + 21) 1) (SR_ReadFailure, None) (\<lambda>ownerReservedB.
     need (read (v3_worker + 19) 1) (SR_ReadFailure, None) (\<lambda>workerReservedB.
     need (read v3_headerReady 1) (SR_ReadFailure, None) (\<lambda>after.
     State_Monad.return
       (if after ! 0 \<noteq> 1 \<or> a \<noteq> b \<or> \<not> ReportingIdentityValidV3 (header_of_words a) \<or>
           ownerReservedA ! 0 \<noteq> 0 \<or> ownerReservedB ! 0 \<noteq> 0 \<or>
           workerReservedA ! 0 \<noteq> 0 \<or> workerReservedB ! 0 \<noteq> 0 \<or>
           \<not> list_all (\<lambda>w. w = 0) reservedA \<or> \<not> list_all (\<lambda>w. w = 0) reservedB
        then (SR_Invalid, None) else (SR_Coherent, Some (header_of_words a)))))))))))))"

definition ReadReportingIdentityV3 ::
  "'w block_read option \<Rightarrow> ('w, SnapshotResultV3 \<times> StatusHeader option) state" where
  "ReadReportingIdentityV3 ops = (case ops of None \<Rightarrow> State_Monad.return (SR_Invalid, None)
     | Some read \<Rightarrow> identity_attempts read 3)"

datatype RecoverySnapshotResult = RSR_Coherent | RSR_Busy | RSR_Unavailable | RSR_Invalid | RSR_ReadFailure

fun RecoverySnapshotResultName :: "RecoverySnapshotResult \<Rightarrow> string" where
  "RecoverySnapshotResultName RSR_Coherent = ''Coherent''"
| "RecoverySnapshotResultName RSR_Busy = ''Busy''"
| "RecoverySnapshotResultName RSR_Unavailable = ''Unavailable''"
| "RecoverySnapshotResultName RSR_Invalid = ''Invalid''"
| "RecoverySnapshotResultName RSR_ReadFailure = ''ReadFailure''"

interpretation recovery_result_names: enum_names
  "[RSR_Coherent, RSR_Busy, RSR_Unavailable, RSR_Invalid, RSR_ReadFailure]" RecoverySnapshotResultName
proof unfold_locales
  show "x \<in> set [RSR_Coherent, RSR_Busy, RSR_Unavailable, RSR_Invalid, RSR_ReadFailure]" for x
    by (cases x) simp_all
qed simp

text \<open>The output: attempts, and the wire copied by a coherent attempt.\<close>

record RecoveryStatusSnapshot =
  rss_attempts :: nat
  rss_wire :: "RecoveryStatusWireV1 option"

text \<open>\<open>header_seen\<close> is \<open>seen\<close> when \<open>published\<close>; \<open>highest\<close> the highest sequence so far.\<close>

fun recovery_attempts ::
  "'w block_read \<Rightarrow> nat \<Rightarrow> nat \<Rightarrow> nat list option \<Rightarrow> nat \<Rightarrow>
   ('w, RecoverySnapshotResult \<times> RecoveryStatusSnapshot) state" where
  "recovery_attempts read 0 attempt header_seen highest = State_Monad.return
     (if header_seen \<noteq> None then RSR_Busy else RSR_Unavailable, \<lparr>rss_attempts = attempt - 1, rss_wire = None\<rparr>)"
| "recovery_attempts read (Suc k) attempt header_seen highest =
     (let out = \<lparr>rss_attempts = attempt, rss_wire = None\<rparr> in
      need (read rw_headerReady 1) (RSR_ReadFailure, out) (\<lambda>readyBefore.
      if readyBefore ! 0 > 2 \<or> (header_seen \<noteq> None \<and> readyBefore ! 0 \<noteq> 1)
      then State_Monad.return (RSR_Invalid, out)
      else if readyBefore ! 0 \<noteq> 1 then recovery_attempts read k (attempt + 1) header_seen highest
      else
      need (read 0 4) (RSR_ReadFailure, out) (\<lambda>copy.
      need (read rw_ownerSequence 1) (RSR_ReadFailure, out) (\<lambda>before.
      if \<not> RecoveryHeaderValid (recovery_header_of_words copy) \<or>
         (header_seen \<noteq> None \<and> header_seen \<noteq> Some copy) \<or> before ! 0 = 0 \<or> before ! 0 < highest
      then State_Monad.return (RSR_Invalid, out)
      else if odd (before ! 0) then recovery_attempts read k (attempt + 1) (Some copy) (before ! 0)
      else
      need (read rw_payload 26) (RSR_ReadFailure, out) (\<lambda>payload.
      need (read rw_ownerSequence 1) (RSR_ReadFailure, out) (\<lambda>after.
      need (read 0 4) (RSR_ReadFailure, out) (\<lambda>headerAfter.
      need (read rw_headerReady 1) (RSR_ReadFailure, out) (\<lambda>readyAfter.
      if readyAfter ! 0 \<noteq> 1 \<or> copy \<noteq> headerAfter \<or> after ! 0 < before ! 0
      then State_Monad.return (RSR_Invalid, out)
      else if before ! 0 \<noteq> after ! 0 \<or> odd (after ! 0)
      then recovery_attempts read k (attempt + 1) (Some copy) (after ! 0)
      else if \<not> RecoveryPayloadValid (recovery_of_words payload) then State_Monad.return (RSR_Invalid, out)
      else State_Monad.return (RSR_Coherent, out\<lparr>rss_wire := Some \<lparr>rw_header = recovery_header_of_words copy,
        rw_ready = 1, rw_sequence = after ! 0, rw_body = recovery_of_words payload\<rparr>\<rparr>)))))))))"

definition ReadRecoveryStatusSnapshot ::
  "'w block_read option \<Rightarrow> ('w, RecoverySnapshotResult \<times> RecoveryStatusSnapshot) state" where
  "ReadRecoveryStatusSnapshot ops = (case ops of
     None \<Rightarrow> State_Monad.return (RSR_Invalid, \<lparr>rss_attempts = 0, rss_wire = None\<rparr>)
   | Some read \<Rightarrow> recovery_attempts read 3 1 None 0)"

text \<open>The overload bound to an identity.\<close>

definition ReadRecoveryStatusSnapshot_for ::
  "'w block_read option \<Rightarrow> StatusHeader \<Rightarrow> ('w, RecoverySnapshotResult \<times> RecoveryStatusSnapshot) state" where
  "ReadRecoveryStatusSnapshot_for ops identity =
     (if \<not> ReportingIdentityValidV3 identity
      then State_Monad.return (RSR_Invalid, \<lparr>rss_attempts = 0, rss_wire = None\<rparr>)
      else do {
        (result, copy) \<leftarrow> ReadRecoveryStatusSnapshot ops;
        case rss_wire copy of
          None \<Rightarrow> State_Monad.return (result, copy)
        | Some wire \<Rightarrow> State_Monad.return
            (if rh_pid (rw_header wire) \<noteq> sh_pid identity \<or>
                rh_artifactVersion (rw_header wire) \<noteq> sh_artifactVersion identity \<or>
                rh_runId (rw_header wire) \<noteq> sh_runId identity
             then (RSR_Invalid, copy\<lparr>rss_wire := None\<rparr>) else (result, copy)) })"

section \<open>What a coherent recovery snapshot shows\<close>

interpretation recovery_publisher: publisher rw_ownerSequence rw_payload 26 PublishRecoveryStatus
    words_of_recovery "\<lambda>_. True"
proof unfold_locales
  show "rw_ownerSequence \<notin> region rw_payload 26" by (simp add: recovery_offsets region_def)
  fix item :: ReportRecoveryPayload and m ok ops
  show "length (words_of_recovery item) = 26" by simp
  have f: "filter (\<lambda>p. site p \<in> insert rw_ownerSequence (region rw_payload 26))
      (publish_ops rw_ownerSequence rw_payload before (words_of_recovery item)) =
    publish_ops rw_ownerSequence rw_payload before (words_of_recovery item)" for before
  proof -
    have "filter (\<lambda>p. site p \<in> insert rw_ownerSequence (region rw_payload 26))
        (StoreWords rw_payload (words_of_recovery item)) = StoreWords rw_payload (words_of_recovery item)"
      by (rule filter_StoreWords(1)) auto
    then show ?thesis by (simp add: publish_ops_def)
  qed
  show "PublishRecoveryStatus m item = (ok, ops) \<Longrightarrow>
      filter (\<lambda>p. site p \<in> insert rw_ownerSequence (region rw_payload 26)) ops =
      (if ok then publish_ops rw_ownerSequence rw_payload (m rw_ownerSequence) (words_of_recovery item) else [])"
    using f by (auto simp: PublishRecoveryStatus_def Let_def split: if_splits)
  show "PublishRecoveryStatus m item = (True, ops) \<Longrightarrow> even (m rw_ownerSequence)"
    by (auto simp: PublishRecoveryStatus_def Let_def split: if_splits)
qed

definition recovery_good ::
  "(nat \<Rightarrow> wordmem) \<Rightarrow> RecoverySnapshotResult \<times> RecoveryStatusSnapshot \<Rightarrow> bool" where
  "recovery_good h r \<longleftrightarrow>
     ((fst r = RSR_Coherent) = (rss_wire (snd r) \<noteq> None)) \<and>
     (\<forall>wire. rss_wire (snd r) = Some wire \<longrightarrow>
        RecoveryHeaderValid (rw_header wire) \<and> RecoveryPayloadValid (rw_body wire) \<and>
        (\<exists>ws. seen h rw_ownerSequence rw_payload 26 (rw_sequence wire) ws \<and> rw_body wire = recovery_of_words ws))"

text \<open>A fact of the result of one run, with what its reads gave.\<close>

definition yields_at :: "'w \<Rightarrow> ('a \<Rightarrow> bool) \<Rightarrow> ('w, 'a) state \<Rightarrow> bool" where
  "yields_at w P m \<longleftrightarrow> P (fst (run_state m w))"

lemma at_return: "P a \<Longrightarrow> yields_at w P (State_Monad.return a)"
  by (simp add: yields_at_def)

lemma at_if:
  "(c \<Longrightarrow> yields_at w P a) \<Longrightarrow> (\<not> c \<Longrightarrow> yields_at w P b) \<Longrightarrow> yields_at w P (if c then a else b)"
  by simp

lemma at_need:
  "P failure \<Longrightarrow> (\<And>x w'. run_state m w = (Some x, w') \<Longrightarrow> yields_at w' P (f x)) \<Longrightarrow>
   yields_at w P (need m failure f)"
  by (auto simp: yields_at_def need_def bind_def split: prod.splits option.splits)

context block_reads
begin

text \<open>One attempt: the sequence, the payload and the sequence again, in this order.\<close>

lemma seen_in_order:
  assumes b: "run_state (read q 1) w1 = (Some before, w2)" and p: "run_state (read base n) w2 = (Some ws, w3)"
    and a: "run_state (read q 1) w3 = (Some after, w4)" and eq: "before ! 0 = after ! 0"
    and pos: "before ! 0 \<noteq> 0" and ev: "even (before ! 0)"
  shows "seen h q base n (after ! 0) ws"
proof -
  obtain s where s: "s \<le> clock w2" "before ! 0 = h s q" using read_words [OF b, of 0] by auto
  obtain e where e: "clock w3 \<le> e" "after ! 0 = h e q" using read_words [OF a, of 0] by auto
  have "s \<le> e" using s e read_clock [OF p] by linarith
  moreover have "2 \<le> before ! 0" using pos ev by (cases "before ! 0") (auto, presburger)
  moreover have "\<exists>u. s \<le> u \<and> u \<le> e \<and> ws ! i = h u (base + i)" if "i < n" for i
    using read_words [OF p that] s e by (meson le_trans)
  ultimately show ?thesis
    unfolding seen_def using s e eq ev read_length [OF p] by (intro exI [of _ s] exI [of _ e]) auto
qed

lemma recovery_attempts_good:
  "yields_at w (recovery_good h) (recovery_attempts read k attempt header_seen highest)"
proof (induction k arbitrary: attempt header_seen highest w)
  case 0
  then show ?case by (simp add: recovery_good_def yields_at_def)
next
  case (Suc k)
  have bad: "recovery_good h (x, \<lparr>rss_attempts = n, rss_wire = None\<rparr>)" if "x \<noteq> RSR_Coherent" for x n
    using that by (simp add: recovery_good_def)
  have coherent: "recovery_good h (RSR_Coherent, \<lparr>rss_attempts = attempt, rss_wire = None\<rparr>\<lparr>rss_wire := Some
        \<lparr>rw_header = recovery_header_of_words copy, rw_ready = 1, rw_sequence = after ! 0,
         rw_body = recovery_of_words payload\<rparr>\<rparr>)"
    if "run_state (read rw_ownerSequence 1) w1 = (Some before, w2)"
      "run_state (read rw_payload 26) w2 = (Some payload, w3)"
      "run_state (read rw_ownerSequence 1) w3 = (Some after, w4)"
      "\<not> (\<not> RecoveryHeaderValid (recovery_header_of_words copy) \<or>
         (header_seen \<noteq> None \<and> header_seen \<noteq> Some copy) \<or> before ! 0 = 0 \<or> before ! 0 < highest)"
      "\<not> odd (before ! 0)" "\<not> (before ! 0 \<noteq> after ! 0 \<or> odd (after ! 0))"
      "\<not> \<not> RecoveryPayloadValid (recovery_of_words payload)"
    for before w1 w2 w3 w4 copy payload after
    using seen_in_order [OF that(1-3)] that(4-7) by (auto simp: recovery_good_def)
  show ?case
    unfolding recovery_attempts.simps Let_def
    by (intro at_need at_if at_return Suc.IH; (rule bad, simp)?; (rule coherent; assumption)?)
qed

lemma ReadRecoveryStatusSnapshot_for_good:
  "recovery_good h (fst (run_state (ReadRecoveryStatusSnapshot_for (Some read) identity) w))"
proof (cases "ReportingIdentityValidV3 identity")
  case False
  then show ?thesis by (simp add: ReadRecoveryStatusSnapshot_for_def recovery_good_def)
next
  case True
  obtain result copy w' where r: "run_state (recovery_attempts read 3 1 None 0) w = ((result, copy), w')"
    by (metis surj_pair)
  then have "recovery_good h (result, copy)" using recovery_attempts_good [of w] by (metis fst_conv yields_at_def)
  then show ?thesis
    using True r
    by (auto simp: ReadRecoveryStatusSnapshot_for_def ReadRecoveryStatusSnapshot_def bind_def recovery_good_def
        split: option.splits)
qed

end

text \<open>The reader inside the process goes through \<open>LocalRead\<close>, in bytes.\<close>

definition local_blocks :: "(nat \<Rightarrow> ('w, nat) state) \<Rightarrow> 'w block_read" where
  "local_blocks load off k = LocalRead load (8 * off) (8 * k)"

lemma local_blocks_cases:
  "local_blocks load off k = local_read load off k \<or> local_blocks load off k = State_Monad.return None"
  by (simp add: local_blocks_def LocalRead_def)

sublocale word_loads \<subseteq> recovery_locals: block_reads "local_blocks load" clock h
proof
  fix off k w r w'
  assume "run_state (local_blocks load off k) w = (r, w')"
  then show "clock w \<le> clock w'"
    using local_blocks_cases [of load off k] locals.read_clock by (metis Pair_inject order_refl run_state_return)
next
  fix off k w ws w'
  assume "run_state (local_blocks load off k) w = (Some ws, w')"
  then have r: "run_state (local_read load off k) w = (Some ws, w')"
    using local_blocks_cases [of load off k] by auto
  show "length ws = k" by (rule locals.read_length [OF r])
  fix i
  assume "i < k"
  then show "\<exists>u. clock w \<le> u \<and> u \<le> clock w' \<and> ws ! i = h u (off + i)" by (rule locals.read_words [OF r])
qed

text \<open>The owner alone writes the payload: one initialisation, then publications.\<close>

abbreviation recovery_op :: "atomic \<Rightarrow> bool" where
  "recovery_op p \<equiv> site p \<in> insert rw_ownerSequence (region rw_payload 26)"

definition recovery_started :: "wordmem \<Rightarrow> StatusHeader \<Rightarrow> wordmem" where
  "recovery_started m identity = run_ops m (snd (InitializeRecoveryStatus m identity))"

definition recovery_publications ::
  "wordmem \<Rightarrow> StatusHeader \<Rightarrow> ReportRecoveryPayload list \<Rightarrow> ReportRecoveryPayload list" where
  "recovery_publications m identity inputs =
     recovery_zero # accepted PublishRecoveryStatus (recovery_started m identity) inputs"

definition recovery_only ::
  "wordmem \<Rightarrow> StatusHeader \<Rightarrow> ReportRecoveryPayload list \<Rightarrow> atomic list \<Rightarrow> bool" where
  "recovery_only m identity inputs ops \<longleftrightarrow>
     ReportingIdentityValidV3 identity \<and> header_shape identity \<and> m rw_headerReady = 0 \<and> m rw_ownerSequence = 0 \<and>
     (\<exists>x. filter recovery_op ops = take x (filter recovery_op
        (snd (InitializeRecoveryStatus m identity) @
         program PublishRecoveryStatus (recovery_started m identity) inputs)))"

lemma filter_InitializeRecoveryStatus:
  assumes "ReportingIdentityValidV3 identity" and "header_shape identity" and "m rw_headerReady = 0"
  shows "filter recovery_op (snd (InitializeRecoveryStatus m identity)) =
    publish_ops rw_ownerSequence rw_payload 0 (words_of_recovery recovery_zero)"
proof -
  define header where "header = \<lparr>rh_schema = kRecoveryStatusSchemaV1, rh_bytes = sizeof_recovery,
    rh_artifactVersion = kRecoveryArtifactVersion, rh_pid = sh_pid identity, rh_runId = sh_runId identity\<rparr>"
  have h: "filter recovery_op (StoreWords 0 (words_of_recovery_header header)) = []"
    by (rule filter_StoreWords(2))
      (use assms(2) in \<open>auto simp: header_def words_of_recovery_header_def length_words_of_bytes header_shape_def
        region_def recovery_offsets\<close>)
  have p: "filter recovery_op (StoreWords rw_payload (words_of_recovery recovery_zero)) =
      StoreWords rw_payload (words_of_recovery recovery_zero)"
    by (rule filter_StoreWords(1)) auto
  have r: "rw_headerReady \<noteq> rw_ownerSequence" "rw_headerReady \<notin> region rw_payload 26"
    by (simp_all add: recovery_offsets region_def)
  show ?thesis
    using assms h p r by (simp add: InitializeRecoveryStatus_def header_def [symmetric] publish_ops_def)
qed

text \<open>
  C19: A recovery snapshot is one publication.  Whatever the owner publishes while the bounded
  reader runs, and in whatever order a block read picks up its words, a coherent result has a
  valid header and a valid payload, and that payload is the initial one
  or an accepted publication, the one its sequence number names.
\<close>

theorem recovery_snapshot_is_one_publication:
  assumes "recovery_only m identity inputs ops" and "block_reads read clock (history m ops)"
    and "fst (run_state (ReadRecoveryStatusSnapshot_for (Some read) who) w) = (RSR_Coherent, snap)"
  shows "\<exists>wire. rss_wire snap = Some wire \<and> RecoveryHeaderValid (rw_header wire) \<and>
    RecoveryPayloadValid (rw_body wire) \<and>
    (\<exists>j < length (recovery_publications m identity inputs).
      rw_sequence wire = 2 * Suc j \<and> rw_body wire = recovery_publications m identity inputs ! j)"
proof -
  have "recovery_good (history m ops) (RSR_Coherent, snap)"
    using block_reads.ReadRecoveryStatusSnapshot_for_good [OF assms(2), of who w] assms(3) by simp
  then obtain wire ws where wire: "rss_wire snap = Some wire" "RecoveryHeaderValid (rw_header wire)"
      "RecoveryPayloadValid (rw_body wire)" "rw_body wire = recovery_of_words ws"
    and seen: "seen (history m ops) rw_ownerSequence rw_payload 26 (rw_sequence wire) ws"
    by (auto simp: recovery_good_def)
  let ?acc = "accepted PublishRecoveryStatus (recovery_started m identity) inputs"
  obtain x where own: "filter recovery_op ops = take x (filter recovery_op
      (snd (InitializeRecoveryStatus m identity) @
       program PublishRecoveryStatus (recovery_started m identity) inputs))"
    using assms(1) by (auto simp: recovery_only_def)
  have "\<exists>j \<le> length ?acc. rw_sequence wire = 2 * Suc j \<and>
      ws = (words_of_recovery recovery_zero # map words_of_recovery ?acc) ! j"
    unfolding recovery_started_def
    by (rule recovery_publisher.started_published
        [OF filter_InitializeRecoveryStatus [of identity m] _ _ _ own [unfolded recovery_started_def] seen])
      (use assms(1) in \<open>simp_all add: recovery_only_def\<close>)
  then obtain j where "j \<le> length ?acc" "rw_sequence wire = 2 * Suc j"
      "ws = map words_of_recovery (recovery_publications m identity inputs) ! j"
    by (auto simp: recovery_publications_def)
  then have "j < length (recovery_publications m identity inputs)"
    "rw_body wire = recovery_publications m identity inputs ! j"
    using wire(4) by (simp_all add: recovery_publications_def less_Suc_eq_le nth_Cons' split: if_splits)
  with wire \<open>rw_sequence wire = 2 * Suc j\<close> show ?thesis by blast
qed

definition sample_identity :: StatusHeader where
  "sample_identity = \<lparr>sh_magic = kStatusMagic, sh_schema = kStatusSchemaV3, sh_bytes = sizeof_StatusWireV3,
     sh_artifactVersion = kReportingArtifactVersionV3, sh_configuredMode = 2, sh_pid = 7,
     sh_validity = CompleteHeaderIdentity, sh_processCreation = 1, sh_qpcFrequency = 1000,
     sh_runId = replicate 16 1, sh_hostDigest = replicate 32 1, sh_reserved = replicate 4 0\<rparr>"

lemma AnyByte_replicate_1: "n \<noteq> 0 \<Longrightarrow> AnyByte (replicate n 1)"
proof -
  have "fold or (replicate n (1 :: byte)) 1 = 1" for n by (induction n) simp_all
  then show "n \<noteq> 0 \<Longrightarrow> AnyByte (replicate n 1)" by (cases n) (simp_all add: AnyByte_def)
qed

lemma sample_identity_ok: "ReportingIdentityValidV3 sample_identity" "header_shape sample_identity"
  by (simp_all add: ReportingIdentityValidV3_def sample_identity_def header_shape_def AnyByte_replicate_1
      kReportingArtifactVersionV3_def kRecoveryArtifactVersion_def list_all_iff)

lemma recovery_zero_ok: "RecoveryPayloadValid recovery_zero"
  by (simp add: RecoveryPayloadValid_def recovery_ranges_ok_def recovery_flags_ok_def recovery_retryable_ok_def
      recovery_zero_def recovery_of_words_def has_def outside_def RecoveryPhase_Count_def RecoveryEvent_Count_def
      RecoveryReason_Count_def RecoveryOutcome_Count_def ResourcePhase_Count_def NativeStage_Count_def
      CallbackResult_Count_def)

definition recovery_rest :: "atomic list" where
  "recovery_rest = snd (InitializeRecoveryStatus (\<lambda>_. 0) sample_identity)"

definition sample_recovery_header :: RecoveryHeader where
  "sample_recovery_header = \<lparr>rh_schema = kRecoveryStatusSchemaV1, rh_bytes = sizeof_recovery,
     rh_artifactVersion = kRecoveryArtifactVersion, rh_pid = 7, rh_runId = replicate 16 1\<rparr>"

lemma recovery_rest_eq:
  "recovery_rest = [Cas 4 0 2] @ StoreWords 0 (words_of_recovery_header sample_recovery_header) @ [Put 5 1] @
     StoreWords 6 (words_of_recovery recovery_zero) @ [Put 5 2, Put 4 1]"
proof -
  have "sh_pid sample_identity = 7" "sh_runId sample_identity = replicate 16 1"
    by (simp_all add: sample_identity_def)
  then show ?thesis
    by (simp add: recovery_rest_def InitializeRecoveryStatus_def sample_identity_ok recovery_offsets publish_ops_def
        sample_recovery_header_def)
qed

lemma length_sample_recovery_header: "length (words_of_recovery_header sample_recovery_header) = 4"
  by (simp add: words_of_recovery_header_def sample_recovery_header_def length_words_of_bytes)

lemma recovery_rest_words:
  "run_ops (\<lambda>_. 0) recovery_rest 4 = 1" "run_ops (\<lambda>_. 0) recovery_rest 5 = 2"
  "words_at (run_ops (\<lambda>_. 0) recovery_rest) 0 4 = words_of_recovery_header sample_recovery_header"
  "words_at (run_ops (\<lambda>_. 0) recovery_rest) 6 26 = words_of_recovery recovery_zero"
  by (simp_all add: recovery_rest_eq words_at_upd words_at_stores words_at_apart region_def
      length_sample_recovery_header)

lemma sample_recovery_header_round:
  "recovery_header_of_words (words_of_recovery_header sample_recovery_header) = sample_recovery_header"
  "RecoveryHeaderValid sample_recovery_header"
proof -
  have "bytes_of_words (words_of_bytes (replicate 16 (1 :: byte))) = replicate 16 1"
    by (rule bytes_of_words_of_bytes) simp
  moreover have "length (words_of_bytes (replicate 16 (1 :: byte))) = 2"
    by (simp add: length_words_of_bytes)
  ultimately show "recovery_header_of_words (words_of_recovery_header sample_recovery_header) = sample_recovery_header"
    by (simp add: recovery_header_of_words_def words_of_recovery_header_def sample_recovery_header_def slice_def
        kRecoveryStatusSchemaV1_def sizeof_recovery_def kRecoveryArtifactVersion_def)
  show "RecoveryHeaderValid sample_recovery_header"
    by (simp add: RecoveryHeaderValid_def sample_recovery_header_def AnyByte_replicate_1)
qed

lemma recovery_snapshot_is_one_publication_witness:
  "\<exists>snap wire. fst (run_state (ReadRecoveryStatusSnapshot_for (Some (local_blocks (history_load
      (history (\<lambda>_. 0) recovery_rest) (\<lambda>_. 0)))) sample_identity) (length recovery_rest)) = (RSR_Coherent, snap) \<and>
    rss_wire snap = Some wire \<and> rw_body wire = recovery_zero"
proof -
  let ?h = "history (\<lambda>_. 0) recovery_rest" and ?T = "length recovery_rest"
  let ?read = "local_blocks (history_load ?h (\<lambda>_. 0))"
  have rd: "run_state (?read off k) ?T = (Some (words_at (run_ops (\<lambda>_. 0) recovery_rest) off k), ?T)"
    if "off + k \<le> 32" for off k
    using that
    by (simp add: local_blocks_def LocalRead_def sizeof_recovery_def local_read_def bind_def quiet_LoadWords history_def)
  have "sh_pid sample_identity = 7" "sh_runId sample_identity = replicate 16 1"
    "sh_artifactVersion sample_identity = kReportingArtifactVersionV3"
    by (simp_all add: sample_identity_def)
  then obtain snap where snap: "fst (run_state (ReadRecoveryStatusSnapshot_for (Some ?read) sample_identity) ?T) =
      (RSR_Coherent, snap)"
    by (simp add: ReadRecoveryStatusSnapshot_for_def sample_identity_ok bind_def ReadRecoveryStatusSnapshot_def
        numeral_3_eq_3 Let_def run_need rd recovery_offsets recovery_rest_words sample_recovery_header_round
        recovery_zero_ok)
      (simp add: sample_recovery_header_def kReportingArtifactVersionV3_def kRecoveryArtifactVersion_def)
  have only: "recovery_only (\<lambda>_. 0) sample_identity [] recovery_rest"
    by (auto simp: recovery_only_def sample_identity_ok recovery_rest_def
        intro!: exI [of _ "length (filter recovery_op recovery_rest)"])
  show ?thesis
    using recovery_snapshot_is_one_publication [OF only history_loads.recovery_locals.block_reads_axioms snap] snap
    by (auto simp: recovery_publications_def)
qed

end
