(* ===== verification/Records.thy ===== *)
theory Records
  imports RecoveryWire
begin

text \<open>
  The records and the record ring (\<open>src/companion/steam_reporting_records.h\<close>,
  \<open>steam_reporting_records_v3.h\<close>, \<open>steam_reporting_records.cpp\<close>).  A record is a header and a
  union of 26 words; each member of the union is a record type with its words.  The code is
  a template over the two versions of the record; here the version is the flag \<open>v3\<close>.
\<close>

section \<open>Vocabulary\<close>

definition kReportRecordSchema :: nat where "kReportRecordSchema = 2"
definition kReportRecordSchemaV3 :: nat where "kReportRecordSchemaV3 = 3"
definition kReportRecordCapacity :: nat where "kReportRecordCapacity = 256"
definition kReportBatchLimit :: nat where "kReportBatchLimit = 32"

text \<open>The kinds start at 1; \<open>Count\<close> is 8 in the first version and 11 in the third.\<close>

datatype RecordKind = RK_State | RK_Request | RK_Witness | RK_BuilderEnter | RK_BuilderReturn | RK_BuilderUnwind | RK_Anchor

datatype RecordKindV3 = RK3_State | RK3_Request | RK3_Witness | RK3_BuilderEnter | RK3_BuilderReturn
  | RK3_BuilderUnwind | RK3_Anchor | RK3_TransportSummary | RK3_Control | RK3_Recovery

definition RecordKind_value :: "RecordKind \<Rightarrow> nat" where
  "RecordKind_value k = 1 + enum_value [RK_State, RK_Request, RK_Witness, RK_BuilderEnter, RK_BuilderReturn,
     RK_BuilderUnwind, RK_Anchor] k"

definition RecordKindV3_value :: "RecordKindV3 \<Rightarrow> nat" where
  "RecordKindV3_value k = 1 + enum_value [RK3_State, RK3_Request, RK3_Witness, RK3_BuilderEnter,
     RK3_BuilderReturn, RK3_BuilderUnwind, RK3_Anchor, RK3_TransportSummary, RK3_Control, RK3_Recovery] k"

lemmas kind_defs = RecordKind_value_def RecordKindV3_value_def enum_value_def

record ReportHeader =
  rec_sequence :: nat
  rec_qpc :: nat
  rec_sourceEpoch :: nat
  rec_bindingEpoch :: nat
  rec_kind :: nat
  rec_reason :: nat
  rec_flags :: nat
  rec_threadId :: nat

record ReportDurationSummary =
  sum_calls :: nat
  sum_elapsedTicks :: nat
  sum_maximumTicks :: nat
  sum_overFiveMilliseconds :: nat

definition words_of_summary :: "ReportDurationSummary \<Rightarrow> nat list" where
  "words_of_summary s = [sum_calls s, sum_elapsedTicks s, sum_maximumTicks s, sum_overFiveMilliseconds s]"

definition summary_at :: "nat list \<Rightarrow> nat \<Rightarrow> ReportDurationSummary" where
  "summary_at ws i = \<lparr>sum_calls = ws ! i, sum_elapsedTicks = ws ! (i + 1), sum_maximumTicks = ws ! (i + 2),
     sum_overFiveMilliseconds = ws ! (i + 3)\<rparr>"

section \<open>Members of the union\<close>

text \<open>
  For each member its fields, its words, and the copy of its declared fields over a zeroed
  value: the canonicaliser never copies a member whole.
\<close>

record ReportStatePayload =
  st_phase :: nat
  st_requestSequence :: nat
  st_witnessSequence :: nat
  st_buildSequence :: nat
  st_pendingSinceQpc :: nat
  st_freshSinceQpc :: nat
  st_qualificationFlags :: nat
  st_nativeTaskState :: nat
  st_mode :: nat
  st_classification :: nat
  st_pi :: nat
  st_bots :: nat
  st_maximum :: nat
  st_pending :: nat
  st_fresh :: nat
  st_bound :: nat
  st_clientQualificationMs :: nat
  st_nativeScheduleValid :: nat
  st_nativeScheduleAnchorBits :: nat
  st_nativeErrorsBits :: nat
  st_nativeThrottlesBits :: nat
  st_nativeExpedite :: nat
  st_nativeRetryLimit :: nat
  st_nativeIntervalUnits :: nat
  st_nativeIntervalOverrideBits :: nat
  st_nativeRetryOverrideBits :: nat
  st_nativeDelayUnits :: nat
  st_nativeTier :: nat
  st_reserved :: "nat list"

definition words_of_state :: "ReportStatePayload \<Rightarrow> nat list" where
  "words_of_state r =
     [st_phase r, st_requestSequence r, st_witnessSequence r, st_buildSequence r,
     st_pendingSinceQpc r, st_freshSinceQpc r, st_qualificationFlags r, st_nativeTaskState r,
     word_of_pair (st_mode r) (st_classification r), word_of_pair (st_pi r) (st_bots r),
     word_of_pair (st_maximum r) (st_pending r), word_of_pair (st_fresh r) (st_bound r),
     st_clientQualificationMs r, st_nativeScheduleValid r, st_nativeScheduleAnchorBits r,
     st_nativeErrorsBits r, st_nativeThrottlesBits r, st_nativeExpedite r, st_nativeRetryLimit r,
     st_nativeIntervalUnits r, st_nativeIntervalOverrideBits r, st_nativeRetryOverrideBits r,
     st_nativeDelayUnits r, st_nativeTier r] @ st_reserved r"

definition state_of_words :: "nat list \<Rightarrow> ReportStatePayload" where
  "state_of_words ws =
     \<lparr>st_phase = ws ! 0, st_requestSequence = ws ! 1, st_witnessSequence = ws ! 2,
     st_buildSequence = ws ! 3, st_pendingSinceQpc = ws ! 4, st_freshSinceQpc = ws ! 5,
     st_qualificationFlags = ws ! 6, st_nativeTaskState = ws ! 7, st_mode = lo32 (ws ! 8),
     st_classification = hi32 (ws ! 8), st_pi = lo32 (ws ! 9), st_bots = hi32 (ws ! 9), st_maximum
     = lo32 (ws ! 10), st_pending = hi32 (ws ! 10), st_fresh = lo32 (ws ! 11), st_bound = hi32 (ws
     ! 11), st_clientQualificationMs = ws ! 12, st_nativeScheduleValid = ws ! 13,
     st_nativeScheduleAnchorBits = ws ! 14, st_nativeErrorsBits = ws ! 15, st_nativeThrottlesBits
     = ws ! 16, st_nativeExpedite = ws ! 17, st_nativeRetryLimit = ws ! 18, st_nativeIntervalUnits
     = ws ! 19, st_nativeIntervalOverrideBits = ws ! 20, st_nativeRetryOverrideBits = ws ! 21,
     st_nativeDelayUnits = ws ! 22, st_nativeTier = ws ! 23, st_reserved = map ((!) ws) [24..<26]\<rparr>"

definition copy_state :: "ReportStatePayload \<Rightarrow> ReportStatePayload" where
  "copy_state a =
     (let b = (state_of_words (replicate 26 0))\<lparr>
       st_phase := st_phase a, st_requestSequence := st_requestSequence a, st_witnessSequence :=
       st_witnessSequence a, st_buildSequence := st_buildSequence a, st_pendingSinceQpc :=
       st_pendingSinceQpc a, st_freshSinceQpc := st_freshSinceQpc a, st_qualificationFlags :=
       st_qualificationFlags a, st_nativeTaskState := st_nativeTaskState a, st_mode := st_mode a,
       st_classification := st_classification a, st_pi := st_pi a, st_bots := st_bots a,
       st_maximum := st_maximum a, st_pending := st_pending a, st_fresh := st_fresh a, st_bound :=
       st_bound a, st_clientQualificationMs := st_clientQualificationMs a\<rparr> in
      if st_nativeScheduleValid a = 1 then b\<lparr>st_nativeScheduleValid := 1,
       st_nativeScheduleAnchorBits := st_nativeScheduleAnchorBits a, st_nativeErrorsBits :=
       st_nativeErrorsBits a, st_nativeThrottlesBits := st_nativeThrottlesBits a,
       st_nativeExpedite := st_nativeExpedite a, st_nativeRetryLimit := st_nativeRetryLimit a,
       st_nativeIntervalUnits := st_nativeIntervalUnits a, st_nativeIntervalOverrideBits :=
       st_nativeIntervalOverrideBits a, st_nativeRetryOverrideBits := st_nativeRetryOverrideBits
       a, st_nativeDelayUnits := st_nativeDelayUnits a, st_nativeTier := st_nativeTier a\<rparr>
      else b)"

record ReportRequestPayload =
  rq_requestSequence :: nat
  rq_witnessSequence :: nat
  rq_stagedQpc :: nat
  rq_previousSampleQpc :: nat
  rq_observedQpc :: nat
  rq_freshSinceQpc :: nat
  rq_sourceAgeTicks :: nat
  rq_pi :: nat
  rq_bots :: nat
  rq_maximum :: nat
  rq_stagedBots :: nat
  rq_humanPlayers :: nat
  rq_worldBots :: nat
  rq_classification :: nat
  rq_pending :: nat
  rq_reserved :: "nat list"

definition words_of_request :: "ReportRequestPayload \<Rightarrow> nat list" where
  "words_of_request r =
     [rq_requestSequence r, rq_witnessSequence r, rq_stagedQpc r, rq_previousSampleQpc r,
     rq_observedQpc r, rq_freshSinceQpc r, rq_sourceAgeTicks r, word_of_pair (rq_pi r) (rq_bots
     r), word_of_pair (rq_maximum r) (rq_stagedBots r), word_of_pair (rq_humanPlayers r)
     (rq_worldBots r), word_of_pair (rq_classification r) (rq_pending r)] @ rq_reserved r"

definition request_of_words :: "nat list \<Rightarrow> ReportRequestPayload" where
  "request_of_words ws =
     \<lparr>rq_requestSequence = ws ! 0, rq_witnessSequence = ws ! 1, rq_stagedQpc = ws ! 2,
     rq_previousSampleQpc = ws ! 3, rq_observedQpc = ws ! 4, rq_freshSinceQpc = ws ! 5,
     rq_sourceAgeTicks = ws ! 6, rq_pi = lo32 (ws ! 7), rq_bots = hi32 (ws ! 7), rq_maximum = lo32
     (ws ! 8), rq_stagedBots = hi32 (ws ! 8), rq_humanPlayers = lo32 (ws ! 9), rq_worldBots = hi32
     (ws ! 9), rq_classification = lo32 (ws ! 10), rq_pending = hi32 (ws ! 10), rq_reserved =
     map ((!) ws) [11..<26]\<rparr>"

definition copy_request :: "ReportRequestPayload \<Rightarrow> ReportRequestPayload" where
  "copy_request a =
     (request_of_words (replicate 26 0))\<lparr>rq_requestSequence := rq_requestSequence a,
     rq_witnessSequence := rq_witnessSequence a, rq_stagedQpc := rq_stagedQpc a,
     rq_previousSampleQpc := rq_previousSampleQpc a, rq_observedQpc := rq_observedQpc a,
     rq_freshSinceQpc := rq_freshSinceQpc a, rq_sourceAgeTicks := rq_sourceAgeTicks a, rq_pi :=
     rq_pi a, rq_bots := rq_bots a, rq_maximum := rq_maximum a, rq_stagedBots := rq_stagedBots a,
     rq_humanPlayers := rq_humanPlayers a, rq_worldBots := rq_worldBots a, rq_classification :=
     rq_classification a, rq_pending := rq_pending a\<rparr>"

record ReportBuilderPayload =
  bu_buildSequence :: nat
  bu_requestSequence :: nat
  bu_witnessSequence :: nat
  bu_sourceAgeTicks :: nat
  bu_probeElapsedTicks :: nat
  bu_classificationElapsedTicks :: nat
  bu_originalElapsedTicks :: nat
  bu_entryQpc :: nat
  bu_returnQpc :: nat
  bu_pi :: nat
  bu_bots :: nat
  bu_maximum :: nat
  bu_classification :: nat
  bu_selected :: nat
  bu_result :: nat
  bu_pending :: nat
  bu_fresh :: nat
  bu_preparedValid :: nat
  bu_preparedMismatchMask :: nat
  bu_preparedMaximum :: nat
  bu_preparedMembers :: nat
  bu_preparedPi :: nat
  bu_preparedBots :: nat
  bu_preparedJsonMaximum :: nat
  bu_preparedJsonBytes :: nat
  bu_preparedDirtyValid :: nat
  bu_preparedDirtyAtEntry :: nat
  bu_reserved :: "nat list"

definition words_of_builder :: "ReportBuilderPayload \<Rightarrow> nat list" where
  "words_of_builder r =
     [bu_buildSequence r, bu_requestSequence r, bu_witnessSequence r, bu_sourceAgeTicks r,
     bu_probeElapsedTicks r, bu_classificationElapsedTicks r, bu_originalElapsedTicks r,
     bu_entryQpc r, bu_returnQpc r, word_of_pair (bu_pi r) (bu_bots r), word_of_pair (bu_maximum
     r) (bu_classification r), word_of_pair (bu_selected r) (bu_result r), word_of_pair
     (bu_pending r) (bu_fresh r), word_of_pair (bu_preparedValid r) (bu_preparedMismatchMask r),
     word_of_pair (bu_preparedMaximum r) (bu_preparedMembers r), word_of_pair (bu_preparedPi r)
     (bu_preparedBots r), word_of_pair (bu_preparedJsonMaximum r) (bu_preparedJsonBytes r),
     word_of_pair (bu_preparedDirtyValid r) (bu_preparedDirtyAtEntry r)] @ bu_reserved r"

definition builder_of_words :: "nat list \<Rightarrow> ReportBuilderPayload" where
  "builder_of_words ws =
     \<lparr>bu_buildSequence = ws ! 0, bu_requestSequence = ws ! 1, bu_witnessSequence = ws ! 2,
     bu_sourceAgeTicks = ws ! 3, bu_probeElapsedTicks = ws ! 4, bu_classificationElapsedTicks = ws
     ! 5, bu_originalElapsedTicks = ws ! 6, bu_entryQpc = ws ! 7, bu_returnQpc = ws ! 8, bu_pi =
     lo32 (ws ! 9), bu_bots = hi32 (ws ! 9), bu_maximum = lo32 (ws ! 10), bu_classification = hi32
     (ws ! 10), bu_selected = lo32 (ws ! 11), bu_result = hi32 (ws ! 11), bu_pending = lo32 (ws !
     12), bu_fresh = hi32 (ws ! 12), bu_preparedValid = lo32 (ws ! 13), bu_preparedMismatchMask =
     hi32 (ws ! 13), bu_preparedMaximum = lo32 (ws ! 14), bu_preparedMembers = hi32 (ws ! 14),
     bu_preparedPi = lo32 (ws ! 15), bu_preparedBots = hi32 (ws ! 15), bu_preparedJsonMaximum =
     lo32 (ws ! 16), bu_preparedJsonBytes = hi32 (ws ! 16), bu_preparedDirtyValid = lo32 (ws !
     17), bu_preparedDirtyAtEntry = hi32 (ws ! 17), bu_reserved = map ((!) ws) [18..<26]\<rparr>"

definition prepared_ok :: "ReportBuilderPayload \<Rightarrow> bool" where
  "prepared_ok a \<longleftrightarrow> bu_preparedValid a = 1 \<and> bu_preparedMismatchMask a \<le> 31 \<and>
     bu_preparedMembers a \<le> 4096 \<and> bu_preparedJsonBytes a > 0 \<and> bu_preparedJsonBytes a \<le> kJsonBytes"

definition dirty_ok :: "ReportBuilderPayload \<Rightarrow> bool" where
  "dirty_ok a \<longleftrightarrow> bu_preparedDirtyValid a = 1 \<and> bu_preparedDirtyAtEntry a \<le> 1"

definition copy_builder :: "bool \<Rightarrow> ReportBuilderPayload \<Rightarrow> ReportBuilderPayload" where
  "copy_builder v3 a =
     (let b = (builder_of_words (replicate 26 0))\<lparr>
       bu_buildSequence := bu_buildSequence a, bu_requestSequence := bu_requestSequence a,
       bu_witnessSequence := bu_witnessSequence a, bu_sourceAgeTicks := bu_sourceAgeTicks a,
       bu_probeElapsedTicks := bu_probeElapsedTicks a, bu_classificationElapsedTicks :=
       bu_classificationElapsedTicks a, bu_originalElapsedTicks := bu_originalElapsedTicks a,
       bu_entryQpc := bu_entryQpc a, bu_returnQpc := bu_returnQpc a, bu_pi := bu_pi a, bu_bots :=
       bu_bots a, bu_maximum := bu_maximum a, bu_classification := bu_classification a,
       bu_selected := bu_selected a, bu_result := bu_result a, bu_pending := bu_pending a,
       bu_fresh := bu_fresh a\<rparr>;
          b = (if v3 \<and> prepared_ok a then b\<lparr>bu_preparedValid := 1,
       bu_preparedMismatchMask := bu_preparedMismatchMask a, bu_preparedMaximum :=
       bu_preparedMaximum a, bu_preparedMembers := bu_preparedMembers a, bu_preparedPi :=
       bu_preparedPi a, bu_preparedBots := bu_preparedBots a, bu_preparedJsonMaximum :=
       bu_preparedJsonMaximum a, bu_preparedJsonBytes := bu_preparedJsonBytes a\<rparr> else b);
          b = (if v3 \<and> dirty_ok a then b\<lparr>bu_preparedDirtyValid := 1,
       bu_preparedDirtyAtEntry := bu_preparedDirtyAtEntry a\<rparr> else b) in b)"

record ReportAnchorPayload =
  an_normalAttempts :: nat
  an_fullSelected :: nat
  an_selectedTrue :: nat
  an_normalReturns :: nat
  an_falseReturns :: nat
  an_nativeUnwinds :: nat
  an_requestSequence :: nat
  an_witnessSequence :: nat
  an_buildSequence :: nat
  an_distinctSelectedWitnesses :: nat
  an_durations :: "ReportDurationSummary list"

definition words_of_anchor :: "ReportAnchorPayload \<Rightarrow> nat list" where
  "words_of_anchor r =
     [an_normalAttempts r, an_fullSelected r, an_selectedTrue r, an_normalReturns r,
     an_falseReturns r, an_nativeUnwinds r, an_requestSequence r, an_witnessSequence r,
     an_buildSequence r, an_distinctSelectedWitnesses r] @ concat (map words_of_summary
     (an_durations r))"

definition anchor_of_words :: "nat list \<Rightarrow> ReportAnchorPayload" where
  "anchor_of_words ws =
     \<lparr>an_normalAttempts = ws ! 0, an_fullSelected = ws ! 1, an_selectedTrue = ws ! 2,
     an_normalReturns = ws ! 3, an_falseReturns = ws ! 4, an_nativeUnwinds = ws ! 5,
     an_requestSequence = ws ! 6, an_witnessSequence = ws ! 7, an_buildSequence = ws ! 8,
     an_distinctSelectedWitnesses = ws ! 9, an_durations = map (\<lambda>i. summary_at ws (10 + 4 * i)) [0..<4]\<rparr>"

definition copy_anchor :: "ReportAnchorPayload \<Rightarrow> ReportAnchorPayload" where
  "copy_anchor a =
     (anchor_of_words (replicate 26 0))\<lparr>an_normalAttempts := an_normalAttempts a,
     an_fullSelected := an_fullSelected a, an_selectedTrue := an_selectedTrue a, an_normalReturns
     := an_normalReturns a, an_falseReturns := an_falseReturns a, an_nativeUnwinds :=
     an_nativeUnwinds a, an_requestSequence := an_requestSequence a, an_witnessSequence :=
     an_witnessSequence a, an_buildSequence := an_buildSequence a, an_distinctSelectedWitnesses :=
     an_distinctSelectedWitnesses a, an_durations := an_durations a\<rparr>"

record ReportTransportSummaryPayload =
  ts_anchorSequence :: nat
  ts_nativeSubmitCalls :: nat
  ts_nativeSubmitElapsedTicks :: nat
  ts_nativeSubmitMaximumTicks :: nat
  ts_nativeSubmitOverFiveMilliseconds :: nat
  ts_forwardedPumpWithoutCapture :: nat
  ts_forwardedBuilderWithoutCapture :: nat
  ts_transportState :: nat
  ts_transportReason :: nat
  ts_pauseEpoch :: nat
  ts_pauseBoundarySequence :: nat
  ts_submittedSequence :: nat
  ts_observedSequence :: nat
  ts_timingAccountedThroughQpc :: nat
  ts_generatedSequence :: nat
  ts_reserved :: "nat list"

definition words_of_transport_summary :: "ReportTransportSummaryPayload \<Rightarrow> nat list" where
  "words_of_transport_summary r =
     [ts_anchorSequence r, ts_nativeSubmitCalls r, ts_nativeSubmitElapsedTicks r,
     ts_nativeSubmitMaximumTicks r, ts_nativeSubmitOverFiveMilliseconds r,
     ts_forwardedPumpWithoutCapture r, ts_forwardedBuilderWithoutCapture r, ts_transportState r,
     ts_transportReason r, ts_pauseEpoch r, ts_pauseBoundarySequence r, ts_submittedSequence r,
     ts_observedSequence r, ts_timingAccountedThroughQpc r, ts_generatedSequence r] @ ts_reserved
     r"

definition transport_summary_of_words :: "nat list \<Rightarrow> ReportTransportSummaryPayload" where
  "transport_summary_of_words ws =
     \<lparr>ts_anchorSequence = ws ! 0, ts_nativeSubmitCalls = ws ! 1,
     ts_nativeSubmitElapsedTicks = ws ! 2, ts_nativeSubmitMaximumTicks = ws ! 3,
     ts_nativeSubmitOverFiveMilliseconds = ws ! 4, ts_forwardedPumpWithoutCapture = ws ! 5,
     ts_forwardedBuilderWithoutCapture = ws ! 6, ts_transportState = ws ! 7, ts_transportReason =
     ws ! 8, ts_pauseEpoch = ws ! 9, ts_pauseBoundarySequence = ws ! 10, ts_submittedSequence = ws
     ! 11, ts_observedSequence = ws ! 12, ts_timingAccountedThroughQpc = ws ! 13,
     ts_generatedSequence = ws ! 14, ts_reserved = map ((!) ws) [15..<26]\<rparr>"

definition copy_transport_summary :: "ReportTransportSummaryPayload \<Rightarrow> ReportTransportSummaryPayload" where
  "copy_transport_summary a =
     (transport_summary_of_words (replicate 26 0))\<lparr>ts_anchorSequence := ts_anchorSequence
     a, ts_nativeSubmitCalls := ts_nativeSubmitCalls a, ts_nativeSubmitElapsedTicks :=
     ts_nativeSubmitElapsedTicks a, ts_nativeSubmitMaximumTicks := ts_nativeSubmitMaximumTicks a,
     ts_nativeSubmitOverFiveMilliseconds := ts_nativeSubmitOverFiveMilliseconds a,
     ts_forwardedPumpWithoutCapture := ts_forwardedPumpWithoutCapture a,
     ts_forwardedBuilderWithoutCapture := ts_forwardedBuilderWithoutCapture a, ts_transportState
     := ts_transportState a, ts_transportReason := ts_transportReason a, ts_pauseEpoch :=
     ts_pauseEpoch a, ts_pauseBoundarySequence := ts_pauseBoundarySequence a, ts_submittedSequence
     := ts_submittedSequence a, ts_observedSequence := ts_observedSequence a,
     ts_timingAccountedThroughQpc := ts_timingAccountedThroughQpc a, ts_generatedSequence :=
     ts_generatedSequence a\<rparr>"

record ReportControlPayload =
  ct_event :: nat
  ct_transportState :: nat
  ct_transportReason :: nat
  ct_pauseEpoch :: nat
  ct_pauseBoundarySequence :: nat
  ct_abandonedPendingRequest :: nat
  ct_abandonedWitness :: nat
  ct_lastRequestQpc :: nat
  ct_generatedBefore :: nat
  ct_submittedBefore :: nat
  ct_observedBefore :: nat
  ct_forwardedPumpWithoutCapture :: nat
  ct_forwardedBuilderWithoutCapture :: nat
  ct_timingAccountedThroughQpc :: nat
  ct_reserved :: "nat list"

definition words_of_control :: "ReportControlPayload \<Rightarrow> nat list" where
  "words_of_control r =
     [ct_event r, ct_transportState r, ct_transportReason r, ct_pauseEpoch r,
     ct_pauseBoundarySequence r, ct_abandonedPendingRequest r, ct_abandonedWitness r,
     ct_lastRequestQpc r, ct_generatedBefore r, ct_submittedBefore r, ct_observedBefore r,
     ct_forwardedPumpWithoutCapture r, ct_forwardedBuilderWithoutCapture r,
     ct_timingAccountedThroughQpc r] @ ct_reserved r"

definition control_of_words :: "nat list \<Rightarrow> ReportControlPayload" where
  "control_of_words ws =
     \<lparr>ct_event = ws ! 0, ct_transportState = ws ! 1, ct_transportReason = ws ! 2,
     ct_pauseEpoch = ws ! 3, ct_pauseBoundarySequence = ws ! 4, ct_abandonedPendingRequest = ws !
     5, ct_abandonedWitness = ws ! 6, ct_lastRequestQpc = ws ! 7, ct_generatedBefore = ws ! 8,
     ct_submittedBefore = ws ! 9, ct_observedBefore = ws ! 10, ct_forwardedPumpWithoutCapture = ws
     ! 11, ct_forwardedBuilderWithoutCapture = ws ! 12, ct_timingAccountedThroughQpc = ws ! 13,
     ct_reserved = map ((!) ws) [14..<26]\<rparr>"

definition copy_control :: "ReportControlPayload \<Rightarrow> ReportControlPayload" where
  "copy_control a =
     (control_of_words (replicate 26 0))\<lparr>ct_event := ct_event a, ct_transportState :=
     ct_transportState a, ct_transportReason := ct_transportReason a, ct_pauseEpoch :=
     ct_pauseEpoch a, ct_pauseBoundarySequence := ct_pauseBoundarySequence a,
     ct_abandonedPendingRequest := ct_abandonedPendingRequest a, ct_abandonedWitness :=
     ct_abandonedWitness a, ct_lastRequestQpc := ct_lastRequestQpc a, ct_generatedBefore :=
     ct_generatedBefore a, ct_submittedBefore := ct_submittedBefore a, ct_observedBefore :=
     ct_observedBefore a, ct_forwardedPumpWithoutCapture := ct_forwardedPumpWithoutCapture a,
     ct_forwardedBuilderWithoutCapture := ct_forwardedBuilderWithoutCapture a,
     ct_timingAccountedThroughQpc := ct_timingAccountedThroughQpc a\<rparr>"

section \<open>Records\<close>

record ReportRecord =
  rec_header :: ReportHeader
  rec_payload :: "nat list"

definition record_zero :: ReportRecord where
  "record_zero = \<lparr>rec_header = \<lparr>rec_sequence = 0, rec_qpc = 0, rec_sourceEpoch = 0, rec_bindingEpoch = 0,
     rec_kind = 0, rec_reason = 0, rec_flags = 0, rec_threadId = 0\<rparr>, rec_payload = replicate 26 0\<rparr>"

definition KindCount :: "bool \<Rightarrow> nat" where
  "KindCount v3 = (if v3 then 11 else 8)"

definition ValidHeader :: "bool \<Rightarrow> ReportHeader \<Rightarrow> bool" where
  "ValidHeader v3 header \<longleftrightarrow> rec_sequence header = 0 \<and> rec_kind header \<ge> RecordKind_value RK_State \<and>
     rec_kind header < KindCount v3 \<and> rec_reason header < kReasonCount"

definition ValidRecovery :: "bool \<Rightarrow> ReportRecord \<Rightarrow> bool" where
  "ValidRecovery v3 r \<longleftrightarrow>
     (if v3 \<and> rec_kind (rec_header r) = RecordKindV3_value RK3_Recovery
      then rec_reason (rec_header r) = 0 \<and> rec_flags (rec_header r) = 0 \<and>
        rp_recordSequence (recovery_of_words (rec_payload r)) = 0 \<and>
        RecoveryPayloadValid (recovery_of_words (rec_payload r))
      else True)"

text \<open>The payload words of the canonical record, by kind.\<close>

definition canonical_payload :: "bool \<Rightarrow> nat \<Rightarrow> nat list \<Rightarrow> nat list" where
  "canonical_payload v3 kind ws =
     (if kind = 1 then words_of_state (copy_state (state_of_words ws))
      else if kind = 2 \<or> kind = 3 then words_of_request (copy_request (request_of_words ws))
      else if kind = 4 \<or> kind = 5 \<or> kind = 6 then words_of_builder (copy_builder v3 (builder_of_words ws))
      else if kind = 7 then words_of_anchor (copy_anchor (anchor_of_words ws))
      else if v3 \<and> kind = RecordKindV3_value RK3_TransportSummary
        then words_of_transport_summary (copy_transport_summary (transport_summary_of_words ws))
      else if v3 \<and> kind = RecordKindV3_value RK3_Control
        then words_of_control (copy_control (control_of_words ws))
      else if v3 \<and> kind = RecordKindV3_value RK3_Recovery then words_of_recovery (recovery_of_words ws)
      else replicate 26 0)"

definition CanonicalRecord :: "bool \<Rightarrow> ReportRecord \<Rightarrow> nat \<Rightarrow> nat \<Rightarrow> ReportRecord" where
  "CanonicalRecord v3 r sequence owner =
     \<lparr>rec_header = (rec_header r)\<lparr>rec_sequence := sequence, rec_threadId := owner\<rparr>,
      rec_payload = canonical_payload v3 (rec_kind (rec_header r)) (rec_payload r)\<rparr>"

section \<open>The canonical form\<close>

text \<open>The words of a payload outside the declared fields of its kind.\<close>

definition reserved_words :: "bool \<Rightarrow> nat \<Rightarrow> nat list" where
  "reserved_words v3 kind =
     (if kind = 1 then [24..<26]
      else if kind = 2 \<or> kind = 3 then [11..<26]
      else if kind = 4 \<or> kind = 5 \<or> kind = 6 then (if v3 then [18..<26] else [13..<26])
      else if kind = 7 then []
      else if v3 \<and> kind = 8 then [15..<26]
      else if v3 \<and> kind = 9 then [14..<26]
      else if v3 \<and> kind = 10 then []
      else [0..<26])"

definition scrub :: "nat list \<Rightarrow> nat list \<Rightarrow> nat list" where
  "scrub is ws = map (\<lambda>i. if i \<in> set is then 0 else ws ! i) [0..<26]"

lemma pair_parts [simp]:
  "lo32 (word_of_pair (lo32 a) (hi32 b)) = lo32 a" "hi32 (word_of_pair (lo32 a) (hi32 b)) = hi32 b"
  "lo32 (word_of_pair (lo32 a) (lo32 b)) = lo32 a" "hi32 (word_of_pair (lo32 a) (lo32 b)) = lo32 b"
  "lo32 (word_of_pair (lo32 a) 0) = lo32 a" "hi32 (word_of_pair (lo32 a) 0) = 0"
  by (simp_all add: lo32_def hi32_def word_of_pair_def)

lemma parts_0 [simp]: "lo32 0 = 0" "hi32 0 = 0" "word_of_pair 0 0 = 0"
  by (simp_all add: lo32_def hi32_def word_of_pair_def)

lemma nth_scrub: "i < 26 \<Longrightarrow> scrub is ws ! i = (if i \<in> set is then 0 else ws ! i)"
  by (simp add: scrub_def)

text \<open>A payload is in canonical form when it survives its own canonicalisation, with nothing reserved.\<close>

definition canonical_form :: "(nat list \<Rightarrow> nat list) \<Rightarrow> nat list \<Rightarrow> nat list \<Rightarrow> bool" where
  "canonical_form f is ws \<longleftrightarrow>
     length (f ws) = 26 \<and> f (f ws) = f ws \<and> f (scrub is ws) = f ws \<and> list_all (\<lambda>i. f ws ! i = 0) is"

lemma upt_26: "[24..<26] = [24, 25]" "[18..<26] = [18, 19, 20, 21, 22, 23, 24, 25]"
  "[15..<26] = [15, 16, 17] @ [18..<26]" "[14..<26] = 14 # [15..<26]" "[13..<26] = 13 # [14..<26]"
  "[11..<26] = [11, 12] @ [13..<26]" "[0..<4] = [0, 1, 2, 3]"
  by (simp_all add: upt_rec)

lemma canonical_request: "canonical_form (\<lambda>ws. words_of_request (copy_request (request_of_words ws))) [11..<26] ws"
  by (simp add: canonical_form_def words_of_request_def copy_request_def request_of_words_def nth_scrub upt_26)

lemma canonical_anchor: "canonical_form (\<lambda>ws. words_of_anchor (copy_anchor (anchor_of_words ws))) [] ws"
  by (simp add: canonical_form_def words_of_anchor_def copy_anchor_def anchor_of_words_def nth_scrub upt_26
      words_of_summary_def summary_at_def)

lemma canonical_transport_summary:
  "canonical_form (\<lambda>ws. words_of_transport_summary (copy_transport_summary (transport_summary_of_words ws))) [15..<26] ws"
  by (simp add: canonical_form_def words_of_transport_summary_def copy_transport_summary_def
      transport_summary_of_words_def nth_scrub upt_26)

lemma canonical_control: "canonical_form (\<lambda>ws. words_of_control (copy_control (control_of_words ws))) [14..<26] ws"
  by (simp add: canonical_form_def words_of_control_def copy_control_def control_of_words_def nth_scrub upt_26)

lemma canonical_recovery: "canonical_form (\<lambda>ws. words_of_recovery (recovery_of_words ws)) [] ws"
  by (simp add: canonical_form_def words_of_recovery_def recovery_of_words_def nth_scrub)

definition canonical_pair :: "nat \<Rightarrow> nat" where
  "canonical_pair w = word_of_pair (lo32 w) (hi32 w)"

lemma canonical_pair_parts [simp]:
  "lo32 (canonical_pair w) = lo32 w" "hi32 (canonical_pair w) = hi32 w"
  "canonical_pair (canonical_pair w) = canonical_pair w" "canonical_pair 0 = 0"
  by (simp_all add: canonical_pair_def)

text \<open>A state record, whose schedule words are there only with the exact validity word.\<close>

definition state_words :: "bool \<Rightarrow> nat list \<Rightarrow> nat list" where
  "state_words scheduled ws =
     map ((!) ws) [0, 1, 2, 3, 4, 5, 6, 7] @ map (\<lambda>i. canonical_pair (ws ! i)) [8, 9, 10, 11] @ [ws ! 12] @
     (if scheduled then map ((!) ws) [13, 14, 15, 16, 17, 18, 19, 20, 21, 22, 23]
      else [0, 0, 0, 0, 0, 0, 0, 0, 0, 0, 0]) @ [0, 0]"

lemma words_of_state_copy: "words_of_state (copy_state (state_of_words ws)) = state_words (ws ! 13 = 1) ws"
proof (cases "ws ! 13 = 1")
  case True
  have sel: "st_nativeScheduleValid (state_of_words ws) = 1" using True by (simp add: state_of_words_def)
  show ?thesis
    unfolding copy_state_def Let_def sel
    by (simp add: words_of_state_def state_of_words_def state_words_def canonical_pair_def True upt_26)
next
  case False
  then have sel: "(st_nativeScheduleValid (state_of_words ws) = 1) = False" by (simp add: state_of_words_def)
  show ?thesis
    unfolding copy_state_def Let_def sel
    using False by (simp add: words_of_state_def state_of_words_def state_words_def canonical_pair_def upt_26)
qed

lemma canonical_state: "canonical_form (\<lambda>ws. words_of_state (copy_state (state_of_words ws))) [24..<26] ws"
  unfolding canonical_form_def words_of_state_copy
  by (cases "ws ! 13 = 1") (simp_all add: state_words_def nth_scrub upt_26)

text \<open>The two optional groups of a builder record, as tests of its words.\<close>

definition prepared_words_ok :: "nat list \<Rightarrow> bool" where
  "prepared_words_ok ws \<longleftrightarrow> lo32 (ws ! 13) = 1 \<and> hi32 (ws ! 13) \<le> 31 \<and> hi32 (ws ! 14) \<le> 4096 \<and>
     hi32 (ws ! 16) > 0 \<and> hi32 (ws ! 16) \<le> kJsonBytes"

definition dirty_words_ok :: "nat list \<Rightarrow> bool" where
  "dirty_words_ok ws \<longleftrightarrow> lo32 (ws ! 17) = 1 \<and> hi32 (ws ! 17) \<le> 1"

definition builder_words :: "bool \<Rightarrow> bool \<Rightarrow> nat list \<Rightarrow> nat list" where
  "builder_words prepared dirty ws =
     map ((!) ws) [0, 1, 2, 3, 4, 5, 6, 7, 8] @ map (\<lambda>i. canonical_pair (ws ! i)) [9, 10, 11, 12] @
     (if prepared then map (\<lambda>i. canonical_pair (ws ! i)) [13, 14, 15, 16] else [0, 0, 0, 0]) @
     (if dirty then [canonical_pair (ws ! 17)] else [0]) @ [0, 0, 0, 0, 0, 0, 0, 0]"

lemma words_of_builder_copy:
  "words_of_builder (copy_builder v3 (builder_of_words ws)) =
   builder_words (v3 \<and> prepared_words_ok ws) (v3 \<and> dirty_words_ok ws) ws"
proof -
  have ok: "prepared_ok (builder_of_words ws) = prepared_words_ok ws" "dirty_ok (builder_of_words ws) = dirty_words_ok ws"
    by (auto simp: prepared_ok_def prepared_words_ok_def dirty_ok_def dirty_words_ok_def builder_of_words_def)
  have one: "lo32 (ws ! 13) = 1" if "prepared_words_ok ws" using that by (simp add: prepared_words_ok_def)
  have two: "lo32 (ws ! 17) = 1" if "dirty_words_ok ws" using that by (simp add: dirty_words_ok_def)
  consider "v3 \<and> prepared_words_ok ws" "v3 \<and> dirty_words_ok ws" | "v3 \<and> prepared_words_ok ws" "\<not> (v3 \<and> dirty_words_ok ws)"
    | "\<not> (v3 \<and> prepared_words_ok ws)" "v3 \<and> dirty_words_ok ws"
    | "\<not> (v3 \<and> prepared_words_ok ws)" "\<not> (v3 \<and> dirty_words_ok ws)" by blast
  then show ?thesis
    unfolding copy_builder_def ok Let_def
    by cases (simp_all only: if_True if_False simp_thms,
        simp_all add: builder_words_def words_of_builder_def builder_of_words_def canonical_pair_def one two upt_26)
qed

lemma canonical_builder:
  "canonical_form (\<lambda>ws. words_of_builder (copy_builder v3 (builder_of_words ws))) (if v3 then [18..<26] else [13..<26]) ws"
proof -
  let ?g = "\<lambda>ws. builder_words (v3 \<and> prepared_words_ok ws) (v3 \<and> dirty_words_ok ws) ws"
  have keep: "prepared_words_ok (builder_words a b ws) = (a \<and> prepared_words_ok ws)"
    "dirty_words_ok (builder_words a b ws) = (b \<and> dirty_words_ok ws)" for a b
    by (auto simp: prepared_words_ok_def dirty_words_ok_def builder_words_def)
  have nth: "map ((!) (builder_words a b ws)) [0, 1, 2, 3, 4, 5, 6, 7, 8] = map ((!) ws) [0, 1, 2, 3, 4, 5, 6, 7, 8]"
    for a b by (simp add: builder_words_def)
  have idem: "builder_words a b (builder_words a b ws) = builder_words a b ws" for a b
    by (cases a; cases b) (simp_all add: builder_words_def)
  have scrubbed: "?g (scrub (if v3 then [18..<26] else [13..<26]) ws) = ?g ws"
  proof (cases v3)
    case True
    then have "prepared_words_ok (scrub [18..<26] ws) = prepared_words_ok ws"
      "dirty_words_ok (scrub [18..<26] ws) = dirty_words_ok ws"
      by (simp_all add: prepared_words_ok_def dirty_words_ok_def nth_scrub upt_26)
    moreover have "builder_words a b (scrub [18..<26] ws) = builder_words a b ws" for a b
      by (simp add: builder_words_def nth_scrub upt_26)
    ultimately show ?thesis using True by simp
  next
    case False
    then show ?thesis by (simp add: builder_words_def nth_scrub upt_26)
  qed
  have zero: "list_all (\<lambda>i. builder_words a b ws ! i = 0) [18..<26]"
    "list_all (\<lambda>i. builder_words False False ws ! i = 0) [13..<26]" for a b
    by (cases a; cases b; simp add: builder_words_def upt_26)+
  show ?thesis
    unfolding canonical_form_def words_of_builder_copy
    using idem [of "v3 \<and> prepared_words_ok ws" "v3 \<and> dirty_words_ok ws"] scrubbed zero
    by (cases v3) (simp_all add: keep, simp_all add: builder_words_def)
qed

text \<open>
  C31: No payload carries anything but the declared fields of its kind.  For every kind and
  version the canonical payload has 26 words, is unchanged by canonicalising it again, has a
  zero in every reserved or inactive word, and does not depend on what those words held in
  the caller's record.
\<close>

theorem canonical_records_leak_nothing:
  "canonical_form (canonical_payload v3 kind) (reserved_words v3 kind) ws"
proof -
  have other: "canonical_form (\<lambda>ws. replicate 26 0) [0..<26] ws"
    by (simp add: canonical_form_def list_all_iff)
  consider "kind = 1" | "kind = 2 \<or> kind = 3" | "kind = 4 \<or> kind = 5 \<or> kind = 6" | "kind = 7"
    | "v3 \<and> kind = 8" | "v3 \<and> kind = 9" | "v3 \<and> kind = 10"
    | "\<not> (kind = 1 \<or> kind = 2 \<or> kind = 3 \<or> kind = 4 \<or> kind = 5 \<or> kind = 6 \<or> kind = 7)"
      "\<not> (v3 \<and> (kind = 8 \<or> kind = 9 \<or> kind = 10))" by argo
  then show ?thesis
  proof cases
    case 1
    then have "canonical_payload v3 kind = (\<lambda>ws. words_of_state (copy_state (state_of_words ws)))"
      by (simp add: canonical_payload_def fun_eq_iff)
    with 1 canonical_state show ?thesis by (simp add: reserved_words_def)
  next
    case 2
    then have "canonical_payload v3 kind = (\<lambda>ws. words_of_request (copy_request (request_of_words ws)))"
      by (auto simp: canonical_payload_def fun_eq_iff)
    with 2 canonical_request show ?thesis by (auto simp: reserved_words_def)
  next
    case 3
    then have "canonical_payload v3 kind = (\<lambda>ws. words_of_builder (copy_builder v3 (builder_of_words ws)))"
      by (auto simp: canonical_payload_def fun_eq_iff)
    moreover have "reserved_words v3 kind = (if v3 then [18..<26] else [13..<26])"
      using 3 by (auto simp: reserved_words_def)
    ultimately show ?thesis using canonical_builder by simp
  next
    case 4
    then have "canonical_payload v3 kind = (\<lambda>ws. words_of_anchor (copy_anchor (anchor_of_words ws)))"
      by (simp add: canonical_payload_def fun_eq_iff)
    with 4 canonical_anchor show ?thesis by (simp add: reserved_words_def)
  next
    case 5
    then have "canonical_payload v3 kind =
        (\<lambda>ws. words_of_transport_summary (copy_transport_summary (transport_summary_of_words ws)))"
      by (simp add: canonical_payload_def fun_eq_iff kind_defs)
    with 5 canonical_transport_summary show ?thesis by (simp add: reserved_words_def)
  next
    case 6
    then have "canonical_payload v3 kind = (\<lambda>ws. words_of_control (copy_control (control_of_words ws)))"
      by (simp add: canonical_payload_def fun_eq_iff kind_defs)
    with 6 canonical_control show ?thesis by (simp add: reserved_words_def)
  next
    case 7
    then have "canonical_payload v3 kind = (\<lambda>ws. words_of_recovery (recovery_of_words ws))"
      by (simp add: canonical_payload_def fun_eq_iff kind_defs)
    with 7 canonical_recovery show ?thesis by (simp add: reserved_words_def)
  next
    case 8
    then have "canonical_payload v3 kind = (\<lambda>ws. replicate 26 0)"
      by (auto simp: canonical_payload_def fun_eq_iff kind_defs)
    moreover have "reserved_words v3 kind = [0..<26]" using 8 by (auto simp: reserved_words_def)
    ultimately show ?thesis using other by simp
  qed
qed

end
