(* ===== verification/Ring.thy ===== *)
theory Ring
  imports Records
begin

text \<open>
  The record ring between the owner thread and the one writer (\<open>steam_reporting_records.h\<close>,
  \<open>steam_reporting_records.cpp\<close>): initialisation, admission, enqueue and dequeue, and the two
  ends running at once, at the granularity of their shared accesses.
\<close>

section \<open>The ring\<close>

text \<open>\<open>ring_status\<close>: the status pointer is not null.\<close>

record ReportRing =
  ring_status :: bool
  ring_ownerThreadId :: nat
  ring_ready :: nat
  ring_reportWriteSequence :: nat
  ring_reportReadSequence :: nat
  ring_slots :: "ReportRecord list"

datatype ReportWriteResult = RW_Accepted | RW_Stopping | RW_Revoked | RW_Unavailable | RW_Lost
datatype ReportReadResult = RD_Record | RD_Empty | RD_Unavailable | RD_Lost

definition revoke_of :: "bool \<Rightarrow> Reason \<Rightarrow> atomic list" where
  "revoke_of v3 reason = (if v3 then RevokeStatusV3 reason else RevokeStatus reason)"

text \<open>\<open>WriteLoss\<close> latches the loss in the status of the ring's version.\<close>

definition WriteLoss :: "bool \<Rightarrow> Reason \<Rightarrow> atomic list" where
  "WriteLoss v3 reason = (if v3 then LoseStatusV3 reason else LoseStatus reason)"

definition Admission :: "bool \<Rightarrow> (nat \<Rightarrow> ('w, nat) state) \<Rightarrow> ('w, ReportWriteResult) state" where
  "Admission v3 load = do {
     let stopping = word_set load (if v3 then v3_stopping else at_stopping);
     stop \<leftarrow> stopping;
     if stop then State_Monad.return RW_Stopping
     else do {
       revoked \<leftarrow> (if v3 then StatusRevokedV3 load else StatusRevoked load);
       if revoked then do {
         stop \<leftarrow> stopping;
         State_Monad.return (if stop then RW_Stopping else RW_Revoked) }
       else State_Monad.return RW_Accepted } }"

definition InitializeRing :: "bool \<Rightarrow> nat \<Rightarrow> ReportRing \<Rightarrow> nat \<Rightarrow> bool \<times> ReportRing \<times> atomic list" where
  "InitializeRing v3 thread ring owner =
     (if ring_ready ring \<noteq> 0 \<or> owner = 0 then (False, ring, [])
      else if thread \<noteq> owner then (False, ring, revoke_of v3 R_ForeignThread)
      else (True, \<lparr>ring_status = True, ring_ownerThreadId = owner, ring_ready = 1,
        ring_reportWriteSequence = 0, ring_reportReadSequence = 0,
        ring_slots = replicate kReportRecordCapacity record_zero\<rparr>, []))"

section \<open>Enqueue\<close>

text \<open>The tests between the two admissions; \<open>Some\<close> is the reason of a loss.\<close>

definition enqueue_checks :: "bool \<Rightarrow> nat \<Rightarrow> nat \<Rightarrow> ReportRecord \<Rightarrow> bool \<Rightarrow> Reason option" where
  "enqueue_checks v3 written seen_read input output_given =
     (if \<not> output_given \<or> \<not> ValidHeader v3 (rec_header input) \<or> \<not> ValidRecovery v3 input then Some R_RecordLoss
      else if seen_read > written \<or> written - seen_read > kReportRecordCapacity then Some R_RecordLoss
      else if written = u64_max then Some R_CounterOverflow
      else if written - seen_read = kReportRecordCapacity then Some R_RecordLoss
      else None)"

definition store_slot :: "ReportRecord \<Rightarrow> ReportRing \<Rightarrow> ReportRing" where
  "store_slot r ring = ring\<lparr>ring_slots :=
     (ring_slots ring)[ring_reportWriteSequence ring mod kReportRecordCapacity := r]\<rparr>"

definition publish_slot :: "ReportRing \<Rightarrow> ReportRing" where
  "publish_slot ring = ring\<lparr>ring_reportWriteSequence := ring_reportWriteSequence ring + 1\<rparr>"

text \<open>
  \<open>seen_read\<close> is the value the load of the read sequence gave; \<open>output_given\<close> says that the
  caller passed storage for the accepted sequence, which is zero on every rejection.
\<close>

definition Enqueue ::
  "bool \<Rightarrow> (nat \<Rightarrow> ('w, nat) state) \<Rightarrow> nat \<Rightarrow> nat \<Rightarrow> ReportRing \<Rightarrow> ReportRecord \<Rightarrow> bool \<Rightarrow>
   ('w, ReportWriteResult \<times> nat \<times> ReportRing \<times> atomic list) state" where
  "Enqueue v3 load thread seen_read ring input output_given =
     (if ring_ready ring \<noteq> 1 \<or> \<not> ring_status ring then State_Monad.return (RW_Unavailable, 0, ring, [])
      else if thread \<noteq> ring_ownerThreadId ring
        then State_Monad.return (RW_Revoked, 0, ring, revoke_of v3 R_ForeignThread)
      else do {
        admitted \<leftarrow> Admission v3 load;
        if admitted \<noteq> RW_Accepted then State_Monad.return (admitted, 0, ring, [])
        else
          let written = ring_reportWriteSequence ring in
          case enqueue_checks v3 written seen_read input output_given of
            Some reason \<Rightarrow> State_Monad.return (RW_Lost, 0, ring, WriteLoss v3 reason)
          | None \<Rightarrow> do {
              let r = CanonicalRecord v3 input (written + 1) (ring_ownerThreadId ring);
              finally_admitted \<leftarrow> Admission v3 load;
              State_Monad.return (if finally_admitted \<noteq> RW_Accepted then (finally_admitted, 0, ring, [])
                else (RW_Accepted, written + 1, publish_slot (store_slot r ring), [])) } })"

text \<open>The sink an observer publishes through; \<open>None\<close> is a null context.\<close>

definition SinkEntry ::
  "bool \<Rightarrow> (nat \<Rightarrow> ('w, nat) state) \<Rightarrow> nat \<Rightarrow> nat \<Rightarrow> ReportRing option \<Rightarrow> ReportRecord \<Rightarrow> bool \<Rightarrow>
   ('w, bool \<times> nat \<times> ReportRing option \<times> atomic list) state" where
  "SinkEntry v3 load thread seen_read context input output_given =
     (case context of
        None \<Rightarrow> State_Monad.return (False, 0, None, [])
      | Some ring \<Rightarrow> do {
          (result, n, ring', ops) \<leftarrow> Enqueue v3 load thread seen_read ring input output_given;
          State_Monad.return (result = RW_Accepted, n, Some ring', ops) })"

section \<open>Dequeue\<close>

definition read_slot :: "ReportRing \<Rightarrow> ReportRecord" where
  "read_slot ring = ring_slots ring ! (ring_reportReadSequence ring mod kReportRecordCapacity)"

definition slot_ok :: "bool \<Rightarrow> nat \<Rightarrow> nat \<Rightarrow> ReportRecord \<Rightarrow> bool" where
  "slot_ok v3 sequence owner slot \<longleftrightarrow>
     \<not> (rec_sequence (rec_header slot) \<noteq> sequence \<or> rec_kind (rec_header slot) < RecordKind_value RK_State \<or>
        rec_kind (rec_header slot) \<ge> KindCount v3 \<or> rec_reason (rec_header slot) \<ge> kReasonCount \<or>
        rec_threadId (rec_header slot) \<noteq> owner \<or> \<not> ValidRecovery v3 slot)"

datatype dequeue_verdict = DQ_Lost | DQ_Empty | DQ_Take

definition dequeue_checks :: "bool \<Rightarrow> nat \<Rightarrow> ReportRing \<Rightarrow> dequeue_verdict" where
  "dequeue_checks v3 seen_written ring =
     (let read = ring_reportReadSequence ring in
      if read > seen_written \<or> seen_written - read > kReportRecordCapacity then DQ_Lost
      else if read = seen_written then DQ_Empty
      else if \<not> slot_ok v3 (read + 1) (ring_ownerThreadId ring) (read_slot ring) then DQ_Lost
      else DQ_Take)"

definition scrub_slot :: "ReportRing \<Rightarrow> ReportRing" where
  "scrub_slot ring = ring\<lparr>ring_slots :=
     (ring_slots ring)[ring_reportReadSequence ring mod kReportRecordCapacity := record_zero]\<rparr>"

definition release_slot :: "ReportRing \<Rightarrow> ReportRing" where
  "release_slot ring = ring\<lparr>ring_reportReadSequence := ring_reportReadSequence ring + 1\<rparr>"

definition Dequeue ::
  "bool \<Rightarrow> nat \<Rightarrow> ReportRing \<Rightarrow> bool \<Rightarrow> ReportReadResult \<times> ReportRecord \<times> ReportRing \<times> atomic list" where
  "Dequeue v3 seen_written ring output_given =
     (if ring_ready ring \<noteq> 1 \<or> \<not> ring_status ring then (RD_Unavailable, record_zero, ring, [])
      else if \<not> output_given then (RD_Lost, record_zero, ring, WriteLoss v3 R_RecordLoss)
      else case dequeue_checks v3 seen_written ring of
        DQ_Lost \<Rightarrow> (RD_Lost, record_zero, ring, WriteLoss v3 R_RecordLoss)
      | DQ_Empty \<Rightarrow> (RD_Empty, record_zero, ring, [])
      | DQ_Take \<Rightarrow> (RD_Record, read_slot ring, release_slot (scrub_slot ring), []))"

section \<open>Both ends at once\<close>

text \<open>
  The owner's and the writer's shared accesses as steps.  The owner loads the read sequence
  and decides, stores the slot, and publishes; the writer loads the write sequence and copies
  the slot, scrubs it, and releases it.  \<open>accepted\<close> and \<open>delivered\<close> record what went in and out.
\<close>

datatype producer_at = P_Idle | P_Decided ReportRecord | P_Stored ReportRecord
datatype consumer_at = C_Idle | C_Copied ReportRecord | C_Scrubbed ReportRecord

record ring_run =
  run_ring :: ReportRing
  run_producer :: producer_at
  run_consumer :: consumer_at
  run_accepted :: "ReportRecord list"
  run_delivered :: "ReportRecord list"
  run_lost :: bool

inductive ring_step :: "bool \<Rightarrow> ring_run \<Rightarrow> ring_run \<Rightarrow> bool" for v3 where
  decide: "run_producer s = P_Idle \<Longrightarrow>
    enqueue_checks v3 (ring_reportWriteSequence (run_ring s)) (ring_reportReadSequence (run_ring s)) input True = None \<Longrightarrow>
    ring_step v3 s (s\<lparr>run_producer := P_Decided (CanonicalRecord v3 input
      (ring_reportWriteSequence (run_ring s) + 1) (ring_ownerThreadId (run_ring s)))\<rparr>)"
| refuse: "run_producer s = P_Decided r \<Longrightarrow> ring_step v3 s (s\<lparr>run_producer := P_Idle\<rparr>)"
| store: "run_producer s = P_Decided r \<Longrightarrow>
    ring_step v3 s (s\<lparr>run_producer := P_Stored r, run_ring := store_slot r (run_ring s)\<rparr>)"
| publish: "run_producer s = P_Stored r \<Longrightarrow>
    ring_step v3 s (s\<lparr>run_producer := P_Idle, run_ring := publish_slot (run_ring s),
      run_accepted := run_accepted s @ [r]\<rparr>)"
| copy: "run_consumer s = C_Idle \<Longrightarrow>
    dequeue_checks v3 (ring_reportWriteSequence (run_ring s)) (run_ring s) = DQ_Take \<Longrightarrow>
    ring_step v3 s (s\<lparr>run_consumer := C_Copied (read_slot (run_ring s))\<rparr>)"
| lose: "run_consumer s = C_Idle \<Longrightarrow>
    dequeue_checks v3 (ring_reportWriteSequence (run_ring s)) (run_ring s) = DQ_Lost \<Longrightarrow>
    ring_step v3 s (s\<lparr>run_lost := True\<rparr>)"
| scrub: "run_consumer s = C_Copied r \<Longrightarrow>
    ring_step v3 s (s\<lparr>run_consumer := C_Scrubbed r, run_ring := scrub_slot (run_ring s)\<rparr>)"
| release: "run_consumer s = C_Scrubbed r \<Longrightarrow>
    ring_step v3 s (s\<lparr>run_consumer := C_Idle, run_ring := release_slot (run_ring s),
      run_delivered := run_delivered s @ [r]\<rparr>)"

definition ring_start :: "ReportRing \<Rightarrow> ring_run" where
  "ring_start ring = \<lparr>run_ring = ring, run_producer = P_Idle, run_consumer = C_Idle,
     run_accepted = [], run_delivered = [], run_lost = False\<rparr>"

text \<open>The invariant, conjunct by conjunct.\<close>

definition held :: "consumer_at \<Rightarrow> ReportRecord option" where
  "held c = (case c of C_Idle \<Rightarrow> None | C_Copied r \<Rightarrow> Some r | C_Scrubbed r \<Rightarrow> Some r)"

definition ring_counts :: "ring_run \<Rightarrow> bool" where
  "ring_counts s \<longleftrightarrow>
     length (ring_slots (run_ring s)) = kReportRecordCapacity \<and>
     ring_reportWriteSequence (run_ring s) = length (run_accepted s) \<and>
     ring_reportReadSequence (run_ring s) = length (run_delivered s) \<and>
     length (run_delivered s) \<le> length (run_accepted s) \<and>
     length (run_accepted s) - length (run_delivered s) \<le> kReportRecordCapacity \<and>
     (run_producer s \<noteq> P_Idle \<longrightarrow>
        length (run_accepted s) - length (run_delivered s) < kReportRecordCapacity)"

definition ring_content :: "bool \<Rightarrow> ring_run \<Rightarrow> bool" where
  "ring_content v3 s \<longleftrightarrow>
     run_delivered s = take (length (run_delivered s)) (run_accepted s) \<and>
     (\<forall>i < length (run_accepted s). slot_ok v3 (i + 1) (ring_ownerThreadId (run_ring s)) (run_accepted s ! i)) \<and>
     (\<forall>i. length (run_delivered s) \<le> i \<and> i < length (run_accepted s) \<and>
        (i = length (run_delivered s) \<longrightarrow> (\<forall>r. run_consumer s \<noteq> C_Scrubbed r)) \<longrightarrow>
        ring_slots (run_ring s) ! (i mod kReportRecordCapacity) = run_accepted s ! i)"

definition ring_ends :: "bool \<Rightarrow> ring_run \<Rightarrow> bool" where
  "ring_ends v3 s \<longleftrightarrow>
     (\<forall>r. held (run_consumer s) = Some r \<longrightarrow>
        length (run_delivered s) < length (run_accepted s) \<and> r = run_accepted s ! length (run_delivered s)) \<and>
     (\<forall>r. run_producer s = P_Decided r \<or> run_producer s = P_Stored r \<longrightarrow>
        slot_ok v3 (length (run_accepted s) + 1) (ring_ownerThreadId (run_ring s)) r) \<and>
     (\<forall>r. run_producer s = P_Stored r \<longrightarrow>
        ring_slots (run_ring s) ! (length (run_accepted s) mod kReportRecordCapacity) = r) \<and>
     \<not> run_lost s"

definition ring_inv :: "bool \<Rightarrow> ring_run \<Rightarrow> bool" where
  "ring_inv v3 s \<longleftrightarrow> ring_counts s \<and> ring_content v3 s \<and> ring_ends v3 s"

lemma canonical_slot_ok:
  assumes "ValidHeader v3 (rec_header input)" and "ValidRecovery v3 input"
  shows "slot_ok v3 sequence owner (CanonicalRecord v3 input sequence owner)"
  using assms
  by (auto simp: slot_ok_def CanonicalRecord_def ValidHeader_def ValidRecovery_def canonical_payload_def kind_defs)

text \<open>Two live positions never share a slot.\<close>

lemma mod_apart: "i < j \<Longrightarrow> j - i < c \<Longrightarrow> i mod c \<noteq> j mod (c :: nat)"
  by (metis less_imp_le mod_eq_dvd_iff_nat nat_dvd_not_less zero_less_diff)

lemma slot_index: "i mod kReportRecordCapacity < kReportRecordCapacity"
  by (simp add: kReportRecordCapacity_def)

lemmas ring_ops = store_slot_def publish_slot_def scrub_slot_def release_slot_def read_slot_def

lemma enqueue_admits:
  assumes "enqueue_checks v3 written seen_read input given = None"
  shows "ValidHeader v3 (rec_header input)" and "ValidRecovery v3 input"
    and "seen_read \<le> written" and "written - seen_read < kReportRecordCapacity" and "written \<noteq> u64_max"
  using assms by (auto simp: enqueue_checks_def split: if_splits)

lemma dequeue_takes:
  assumes "dequeue_checks v3 written ring = DQ_Take"
  shows "ring_reportReadSequence ring < written"
    and "slot_ok v3 (ring_reportReadSequence ring + 1) (ring_ownerThreadId ring) (read_slot ring)"
  using assms by (auto simp: dequeue_checks_def Let_def split: if_splits)

text \<open>The slot at the read position holds the next record to deliver.\<close>

lemma next_slot:
  assumes "ring_inv v3 s" and "run_consumer s = C_Idle"
    and "length (run_delivered s) < length (run_accepted s)"
  shows "read_slot (run_ring s) = run_accepted s ! length (run_delivered s)"
  using assms unfolding ring_inv_def ring_counts_def ring_content_def read_slot_def by auto

lemma never_lost:
  assumes "ring_inv v3 s" and "run_consumer s = C_Idle"
  shows "dequeue_checks v3 (ring_reportWriteSequence (run_ring s)) (run_ring s) \<noteq> DQ_Lost"
proof (cases "length (run_delivered s) < length (run_accepted s)")
  case True
  with assms next_slot[OF assms True] show ?thesis
    unfolding ring_inv_def ring_counts_def ring_content_def dequeue_checks_def by (auto simp: Let_def)
next
  case False
  with assms show ?thesis
    unfolding ring_inv_def ring_counts_def dequeue_checks_def by (auto simp: Let_def)
qed

lemma counts_step: "ring_step v3 s t \<Longrightarrow> ring_inv v3 s \<Longrightarrow> ring_counts t"
proof (induction rule: ring_step.induct)
  case (decide s input)
  then show ?case using enqueue_admits(4)[OF decide(2)] unfolding ring_inv_def ring_counts_def by auto
next
  case (copy s)
  then show ?case unfolding ring_inv_def ring_counts_def by auto
next
  case (release s r)
  then show ?case unfolding ring_inv_def ring_counts_def ring_ends_def by (auto simp: ring_ops held_def)
qed (auto simp: ring_inv_def ring_counts_def ring_ops)

text \<open>A store at the write position, and a scrub at the read position, leave every live slot alone.\<close>

lemma other_slot:
  assumes "i < j" and "j - i < kReportRecordCapacity"
  shows "(xs[j mod kReportRecordCapacity := y]) ! (i mod kReportRecordCapacity) = xs ! (i mod kReportRecordCapacity)"
    and "(xs[i mod kReportRecordCapacity := y]) ! (j mod kReportRecordCapacity) = xs ! (j mod kReportRecordCapacity)"
  using mod_apart[OF assms] by auto

lemma ring_invD:
  assumes "ring_inv v3 s"
  shows "length (ring_slots (run_ring s)) = kReportRecordCapacity"
    and "ring_reportWriteSequence (run_ring s) = length (run_accepted s)"
    and "ring_reportReadSequence (run_ring s) = length (run_delivered s)"
    and "length (run_delivered s) \<le> length (run_accepted s)"
    and "length (run_accepted s) - length (run_delivered s) \<le> kReportRecordCapacity"
    and "run_delivered s = take (length (run_delivered s)) (run_accepted s)"
    and "\<not> run_lost s"
    and "run_producer s \<noteq> P_Idle \<Longrightarrow> length (run_accepted s) - length (run_delivered s) < kReportRecordCapacity"
    and "held (run_consumer s) = Some r \<Longrightarrow> length (run_delivered s) < length (run_accepted s)"
    and "held (run_consumer s) = Some r \<Longrightarrow> r = run_accepted s ! length (run_delivered s)"
    and "run_producer s = P_Stored r \<Longrightarrow>
      ring_slots (run_ring s) ! (length (run_accepted s) mod kReportRecordCapacity) = r"
    and "run_producer s = P_Decided r \<or> run_producer s = P_Stored r \<Longrightarrow>
      slot_ok v3 (length (run_accepted s) + 1) (ring_ownerThreadId (run_ring s)) r"
  using assms unfolding ring_inv_def ring_counts_def ring_content_def ring_ends_def by blast+

lemma ring_contentD:
  assumes "ring_inv v3 s"
  shows "i < length (run_accepted s) \<Longrightarrow> slot_ok v3 (i + 1) (ring_ownerThreadId (run_ring s)) (run_accepted s ! i)"
    and "length (run_delivered s) \<le> i \<Longrightarrow> i < length (run_accepted s) \<Longrightarrow>
      (i = length (run_delivered s) \<Longrightarrow> \<forall>r. run_consumer s \<noteq> C_Scrubbed r) \<Longrightarrow>
      ring_slots (run_ring s) ! (i mod kReportRecordCapacity) = run_accepted s ! i"
  using assms unfolding ring_inv_def ring_content_def by blast+

lemma content_step: "ring_step v3 s t \<Longrightarrow> ring_inv v3 s \<Longrightarrow> ring_content v3 t"
proof (induction rule: ring_step.induct)
  case (store s r)
  note inv = ring_invD[OF store(2)] and con = ring_contentD[OF store(2)]
  from store have "run_producer s \<noteq> P_Idle" by simp
  with inv(8) have "length (run_delivered s) \<le> i \<Longrightarrow>
      length (run_accepted s) - i < kReportRecordCapacity" for i by fastforce
  then show ?case using store con inv(6) unfolding ring_content_def
    by (auto simp: ring_ops inv(2) other_slot)
next
  case (publish s r)
  note inv = ring_invD[OF publish(2)] and con = ring_contentD[OF publish(2)]
  from publish have p: "run_producer s = P_Stored r" by simp
  show ?case using publish con inv(4,6) inv(11)[OF p] inv(12)[of r] p unfolding ring_content_def
    by (auto simp: ring_ops nth_append less_Suc_eq)
next
  case (scrub s r)
  note inv = ring_invD[OF scrub(2)] and con = ring_contentD[OF scrub(2)]
  have "i < length (run_accepted s) \<Longrightarrow> length (run_delivered s) < i \<Longrightarrow>
      i - length (run_delivered s) < kReportRecordCapacity" for i using inv(5) by linarith
  then show ?case using scrub con inv(6) unfolding ring_content_def
    by (auto simp: ring_ops inv(3) other_slot le_less)
next
  case (release s r)
  note inv = ring_invD[OF release(2)] and con = ring_contentD[OF release(2)]
  have h: "held (run_consumer s) = Some r" using release by (simp add: held_def)
  show ?case using release con inv(6) inv(9,10)[OF h] unfolding ring_content_def
    by (auto simp: ring_ops take_Suc_conv_app_nth)
next
  case (copy s)
  then show ?case using ring_contentD[OF copy(3)] ring_invD(6)[OF copy(3)] unfolding ring_content_def by auto
qed (simp_all add: ring_inv_def ring_content_def ring_ops)

lemma ends_step: "ring_step v3 s t \<Longrightarrow> ring_inv v3 s \<Longrightarrow> ring_ends v3 t"
proof (induction rule: ring_step.induct)
  case (decide s input)
  note inv = ring_invD[OF decide(3)]
  show ?case using decide inv(2,7,9,10) canonical_slot_ok[OF enqueue_admits(1,2)[OF decide(2)]] unfolding ring_ends_def
    by auto
next
  case (store s r)
  note inv = ring_invD[OF store(2)]
  show ?case using store inv(7,9,10,12) unfolding ring_ends_def
    by (auto simp: ring_ops inv(1,2) slot_index)
next
  case (publish s r)
  note inv = ring_invD[OF publish(2)]
  show ?case using publish inv(7,9,10) unfolding ring_ends_def
    by (auto simp: ring_ops nth_append intro: less_SucI)
next
  case (copy s)
  note inv = ring_invD[OF copy(3)]
  have less: "length (run_delivered s) < length (run_accepted s)"
    using dequeue_takes(1)[OF copy(2)] inv(2,3) by simp
  then show ?case using copy inv(7,11,12) next_slot[OF copy(3,1) less] unfolding ring_ends_def
    by (auto simp: held_def)
next
  case (lose s)
  then show ?case using never_lost[OF lose(3,1)] by simp
next
  case (scrub s r)
  note inv = ring_invD[OF scrub(2)]
  have h: "held (run_consumer s) = Some r" using scrub by (simp add: held_def)
  have "run_producer s \<noteq> P_Idle \<Longrightarrow> length (run_accepted s) - length (run_delivered s) < kReportRecordCapacity"
    by (rule inv(8))
  then show ?case using scrub inv(7,11,12) inv(9,10)[OF h] unfolding ring_ends_def
    by (auto simp: ring_ops inv(3) other_slot held_def)
next
  case (release s r)
  then show ?case using ring_invD(7,11,12)[OF release(2)] unfolding ring_ends_def
    by (auto simp: ring_ops held_def)
qed (auto simp: ring_inv_def ring_ends_def)

lemma ring_inv_step: "ring_step v3 s t \<Longrightarrow> ring_inv v3 s \<Longrightarrow> ring_inv v3 t"
  using counts_step content_step ends_step unfolding ring_inv_def by blast

lemma ring_inv_start:
  assumes "InitializeRing v3 thread ring owner = (True, ring', ops)"
  shows "ring_inv v3 (ring_start ring')"
  using assms by (auto simp: InitializeRing_def ring_inv_def ring_counts_def ring_content_def
    ring_ends_def ring_start_def held_def split: if_splits)

lemma ring_inv_reachable:
  assumes "(ring_step v3)\<^sup>*\<^sup>* (ring_start ring) s" and "InitializeRing v3 thread zero owner = (True, ring, ops)"
  shows "ring_inv v3 s"
  using assms(1) ring_inv_start[OF assms(2)] by (induction rule: rtranclp_induct) (auto intro: ring_inv_step)

section \<open>The calls are runs of the steps\<close>

lemma enqueue_accepted:
  assumes "run_state (Enqueue v3 load thread seen_read ring input given) w = ((RW_Accepted, n, ring', ops), w')"
  shows "enqueue_checks v3 (ring_reportWriteSequence ring) seen_read input given = None"
    and "ring' = publish_slot (store_slot (CanonicalRecord v3 input (ring_reportWriteSequence ring + 1)
      (ring_ownerThreadId ring)) ring)"
    and "n = ring_reportWriteSequence ring + 1" and "ops = []"
  using assms by (auto simp: Enqueue_def run_state_bind Let_def split: if_splits option.splits prod.splits)

lemma enqueue_steps:
  assumes "run_producer s = P_Idle"
    and "enqueue_checks v3 (ring_reportWriteSequence (run_ring s)) (ring_reportReadSequence (run_ring s)) input True = None"
    and "r = CanonicalRecord v3 input (ring_reportWriteSequence (run_ring s) + 1) (ring_ownerThreadId (run_ring s))"
  shows "(ring_step v3)\<^sup>*\<^sup>* s (s\<lparr>run_ring := publish_slot (store_slot r (run_ring s)),
    run_accepted := run_accepted s @ [r]\<rparr>)"
proof -
  let ?a = "s\<lparr>run_producer := P_Decided r\<rparr>"
  let ?b = "?a\<lparr>run_producer := P_Stored r, run_ring := store_slot r (run_ring ?a)\<rparr>"
  let ?c = "?b\<lparr>run_producer := P_Idle, run_ring := publish_slot (run_ring ?b), run_accepted := run_accepted ?b @ [r]\<rparr>"
  have "ring_step v3 s ?a" using ring_step.decide[OF assms(1,2)] assms(3) by simp
  moreover have "ring_step v3 ?a ?b" by (rule ring_step.store) simp
  moreover have "ring_step v3 ?b ?c" by (rule ring_step.publish) simp
  moreover have "?c = s\<lparr>run_ring := publish_slot (store_slot r (run_ring s)), run_accepted := run_accepted s @ [r]\<rparr>"
    using assms(1) by simp
  ultimately show ?thesis by (metis (no_types, lifting) rtranclp.rtrancl_into_rtrancl rtranclp.rtrancl_refl)
qed

lemma dequeue_delivered:
  assumes "Dequeue v3 seen_written ring given = (RD_Record, r, ring', ops)"
  shows "dequeue_checks v3 seen_written ring = DQ_Take" and "r = read_slot ring"
    and "ring' = release_slot (scrub_slot ring)" and "ops = []"
  using assms by (auto simp: Dequeue_def split: if_splits dequeue_verdict.splits)

lemma dequeue_steps:
  assumes "run_consumer s = C_Idle"
    and "dequeue_checks v3 (ring_reportWriteSequence (run_ring s)) (run_ring s) = DQ_Take"
    and "r = read_slot (run_ring s)"
  shows "(ring_step v3)\<^sup>*\<^sup>* s (s\<lparr>run_ring := release_slot (scrub_slot (run_ring s)),
    run_delivered := run_delivered s @ [r]\<rparr>)"
proof -
  let ?a = "s\<lparr>run_consumer := C_Copied r\<rparr>"
  let ?b = "?a\<lparr>run_consumer := C_Scrubbed r, run_ring := scrub_slot (run_ring ?a)\<rparr>"
  let ?c = "?b\<lparr>run_consumer := C_Idle, run_ring := release_slot (run_ring ?b), run_delivered := run_delivered ?b @ [r]\<rparr>"
  have "ring_step v3 s ?a" using ring_step.copy[OF assms(1,2)] assms(3) by simp
  moreover have "ring_step v3 ?a ?b" by (rule ring_step.scrub) simp
  moreover have "ring_step v3 ?b ?c" by (rule ring_step.release) simp
  moreover have "?c = s\<lparr>run_ring := release_slot (scrub_slot (run_ring s)), run_delivered := run_delivered s @ [r]\<rparr>"
    using assms(1) by simp
  ultimately show ?thesis by (metis (no_types, lifting) rtranclp.rtrancl_into_rtrancl rtranclp.rtrancl_refl)
qed

text \<open>What initialisation fixed for good.\<close>

definition ring_identity :: "ReportRing \<Rightarrow> bool \<times> nat \<times> nat" where
  "ring_identity ring = (ring_status ring, ring_ownerThreadId ring, ring_ready ring)"

lemma identity_step: "ring_step v3 s t \<Longrightarrow> ring_identity (run_ring t) = ring_identity (run_ring s)"
  by (induction rule: ring_step.induct) (simp_all add: ring_ops ring_identity_def)

lemma identity_reachable:
  "(ring_step v3)\<^sup>*\<^sup>* s t \<Longrightarrow> ring_identity (run_ring t) = ring_identity (run_ring s)"
  by (induction rule: rtranclp_induct) (auto dest: identity_step)

text \<open>
  C7: The ring is a bounded first-in first-out channel.  Whatever the interleaving of the
  owner's and the writer's shared accesses after a successful initialisation, the records
  delivered are exactly the first records accepted, in order, at most 256 are outstanding, the
  i-th accepted record carries sequence number i and the owner's thread, no loss is ever
  latched by the reader, and an idle reader's \<open>Dequeue\<close> returns the oldest waiting record.
\<close>

theorem ring_is_fifo:
  assumes "InitializeRing v3 thread zero owner = (True, ring, ops)"
    and "(ring_step v3)\<^sup>*\<^sup>* (ring_start ring) s"
  shows "run_delivered s = take (length (run_delivered s)) (run_accepted s) \<and>
    length (run_accepted s) - length (run_delivered s) \<le> 256 \<and>
    (\<forall>i < length (run_accepted s). rec_sequence (rec_header (run_accepted s ! i)) = i + 1 \<and>
      rec_threadId (rec_header (run_accepted s ! i)) = owner) \<and>
    \<not> run_lost s \<and>
    (run_consumer s = C_Idle \<and> length (run_delivered s) < length (run_accepted s) \<longrightarrow>
      Dequeue v3 (ring_reportWriteSequence (run_ring s)) (run_ring s) True =
        (RD_Record, run_accepted s ! length (run_delivered s), release_slot (scrub_slot (run_ring s)), []))"
proof -
  have inv: "ring_inv v3 s" using ring_inv_reachable[OF assms(2,1)] .
  have owner: "ring_ownerThreadId (run_ring s) = owner" "ring_status (run_ring s)" "ring_ready (run_ring s) = 1"
    using identity_reachable[OF assms(2)] assms(1)
    by (auto simp: ring_identity_def ring_start_def InitializeRing_def split: if_splits)
  have "rec_sequence (rec_header (run_accepted s ! i)) = i + 1 \<and> rec_threadId (rec_header (run_accepted s ! i)) = owner"
    if "i < length (run_accepted s)" for i
    using ring_contentD(1)[OF inv that] owner(1) by (simp add: slot_ok_def)
  moreover have "dequeue_checks v3 (ring_reportWriteSequence (run_ring s)) (run_ring s) = DQ_Take"
    if "run_consumer s = C_Idle" "length (run_delivered s) < length (run_accepted s)"
    using never_lost[OF inv that(1)] that(2) ring_invD(2,3)[OF inv]
    by (auto simp: dequeue_checks_def Let_def split: if_splits)
  ultimately show ?thesis
    using ring_invD(5,6,7)[OF inv] next_slot[OF inv] owner(2,3) by (auto simp: Dequeue_def kReportRecordCapacity_def)
qed

definition sample_input :: ReportRecord where
  "sample_input = record_zero\<lparr>rec_header := (rec_header record_zero)\<lparr>rec_kind := RecordKind_value RK_State\<rparr>\<rparr>"

lemma ring_is_fifo_witness:
  "\<exists>ring s. InitializeRing False 7 (ReportRing.make False 0 0 0 0 []) 7 = (True, ring, []) \<and>
    (ring_step False)\<^sup>*\<^sup>* (ring_start ring) s \<and> length (run_accepted s) = 1 \<and>
    run_delivered s = run_accepted s \<and> rec_threadId (rec_header (hd (run_delivered s))) = 7"
proof -
  define ring where "ring = \<lparr>ring_status = True, ring_ownerThreadId = 7, ring_ready = 1,
        ring_reportWriteSequence = 0, ring_reportReadSequence = 0,
        ring_slots = replicate kReportRecordCapacity record_zero\<rparr>"
  define r where "r = CanonicalRecord False sample_input 1 7"
  define s1 where "s1 = (ring_start ring)\<lparr>run_ring := publish_slot (store_slot r ring), run_accepted := [r]\<rparr>"
  define s2 where "s2 = s1\<lparr>run_ring := release_slot (scrub_slot (run_ring s1)), run_delivered := [r]\<rparr>"
  have init: "InitializeRing False 7 (ReportRing.make False 0 0 0 0 []) 7 = (True, ring, [])"
    by (simp add: InitializeRing_def ReportRing.defs ring_def)
  have ok: "ValidHeader False (rec_header sample_input)" "ValidRecovery False sample_input"
    by (simp_all add: ValidHeader_def ValidRecovery_def sample_input_def record_zero_def kind_defs kReasonCount_def KindCount_def)
  have slot: "slot_ok False 1 7 r" unfolding r_def by (rule canonical_slot_ok[OF ok])
  have "enqueue_checks False 0 0 sample_input True = None"
    using ok by (simp add: enqueue_checks_def kReportRecordCapacity_def)
  then have run1: "(ring_step False)\<^sup>*\<^sup>* (ring_start ring) s1"
    using enqueue_steps[of "ring_start ring" False sample_input r]
    by (simp add: s1_def r_def ring_start_def ring_def)
  have read: "read_slot (run_ring s1) = r"
    by (simp add: s1_def ring_ops ring_def ring_start_def kReportRecordCapacity_def)
  have "dequeue_checks False (ring_reportWriteSequence (run_ring s1)) (run_ring s1) = DQ_Take"
    using slot read by (simp add: dequeue_checks_def Let_def) (simp add: s1_def ring_ops ring_def kReportRecordCapacity_def)
  then have run2: "(ring_step False)\<^sup>*\<^sup>* s1 s2"
    using dequeue_steps[of s1 False r] read by (simp add: s2_def) (simp add: s1_def ring_start_def)
  have run: "(ring_step False)\<^sup>*\<^sup>* (ring_start ring) s2" using run1 run2 by (rule rtranclp_trans)
  have lists: "run_accepted s2 = [r]" "run_delivered s2 = [r]" by (simp_all add: s2_def s1_def)
  show ?thesis using ring_is_fifo[OF init run] init run lists by auto
qed

text \<open>
  C32: The calls of both ends are runs of these steps.  An accepted \<open>Enqueue\<close> is the owner's
  three steps, appends exactly the canonical record and returns its sequence number; a
  \<open>Dequeue\<close> that returns a record is the writer's three steps and delivers exactly the slot
  it read; every other result of either leaves the ring as it was.
\<close>

theorem ring_calls_are_runs:
  "(\<forall>s input load thread w n ring' ops w'.
      run_producer s = P_Idle \<and>
      run_state (Enqueue v3 load thread (ring_reportReadSequence (run_ring s)) (run_ring s) input True) w =
        ((RW_Accepted, n, ring', ops), w') \<longrightarrow>
      (\<exists>r. n = ring_reportWriteSequence (run_ring s) + 1 \<and> ops = [] \<and>
        r = CanonicalRecord v3 input n (ring_ownerThreadId (run_ring s)) \<and>
        (ring_step v3)\<^sup>*\<^sup>* s (s\<lparr>run_ring := ring', run_accepted := run_accepted s @ [r]\<rparr>))) \<and>
   (\<forall>s r ring' ops.
      run_consumer s = C_Idle \<and>
      Dequeue v3 (ring_reportWriteSequence (run_ring s)) (run_ring s) True = (RD_Record, r, ring', ops) \<longrightarrow>
      ops = [] \<and> (ring_step v3)\<^sup>*\<^sup>* s (s\<lparr>run_ring := ring', run_delivered := run_delivered s @ [r]\<rparr>)) \<and>
   (\<forall>load thread seen_read ring input given w result n ring' ops w'.
      run_state (Enqueue v3 load thread seen_read ring input given) w = ((result, n, ring', ops), w') \<and>
      result \<noteq> RW_Accepted \<longrightarrow> ring' = ring \<and> n = 0) \<and>
   (\<forall>seen_written ring given result r ring' ops.
      Dequeue v3 seen_written ring given = (result, r, ring', ops) \<and> result \<noteq> RD_Record \<longrightarrow>
      ring' = ring \<and> r = record_zero)"
proof (intro conjI allI impI, goal_cases)
  case (1 s input load thread w n ring' ops w')
  then have run: "run_state (Enqueue v3 load thread (ring_reportReadSequence (run_ring s)) (run_ring s) input True) w =
        ((RW_Accepted, n, ring', ops), w')" by blast
  note e = enqueue_accepted[OF run]
  show ?case using enqueue_steps[OF conjunct1[OF 1] e(1) refl] e(2-4) by auto
next
  case (2 s r ring' ops)
  then show ?case using dequeue_delivered(4) by blast
next
  case (3 s r ring' ops)
  then have run: "Dequeue v3 (ring_reportWriteSequence (run_ring s)) (run_ring s) True = (RD_Record, r, ring', ops)"
    by blast
  note d = dequeue_delivered[OF run]
  show ?case using dequeue_steps[OF conjunct1[OF 3] d(1) d(2)] d(3) by auto
next
  case (4 load thread seen_read ring input given w result n ring' ops w')
  then show ?case
    by (auto simp: Enqueue_def run_state_bind Let_def split: if_splits option.splits prod.splits)
next
  case (5 load thread seen_read ring input given w result n ring' ops w')
  then show ?case
    by (auto simp: Enqueue_def run_state_bind Let_def split: if_splits option.splits prod.splits)
next
  case (6 seen_written ring given result r ring' ops)
  then show ?case by (auto simp: Dequeue_def split: if_splits dequeue_verdict.splits)
next
  case (7 seen_written ring given result r ring' ops)
  then show ?case by (auto simp: Dequeue_def split: if_splits dequeue_verdict.splits)
qed

lemma idle_admission: "run_state (Admission False (\<lambda>_. State_Monad.return 0)) w = (RW_Accepted, w)"
  by (simp add: Admission_def StatusRevoked_def word_set_def orM_def run_state_bind Let_def)

lemma ring_calls_are_runs_witness:
  "\<exists>ring s r w'. InitializeRing False 7 (ReportRing.make False 0 0 0 0 []) 7 = (True, ring, []) \<and>
    run_state (Enqueue False (\<lambda>_. State_Monad.return 0) 7 0 ring sample_input True) () =
      ((RW_Accepted, 1, publish_slot (store_slot r ring), []), w') \<and>
    (ring_step False)\<^sup>*\<^sup>* (ring_start ring)
      ((ring_start ring)\<lparr>run_ring := publish_slot (store_slot r ring), run_accepted := [r]\<rparr>)"
proof -
  define ring where "ring = \<lparr>ring_status = True, ring_ownerThreadId = 7, ring_ready = 1,
        ring_reportWriteSequence = 0, ring_reportReadSequence = 0,
        ring_slots = replicate kReportRecordCapacity record_zero\<rparr>"
  define r where "r = CanonicalRecord False sample_input 1 7"
  have init: "InitializeRing False 7 (ReportRing.make False 0 0 0 0 []) 7 = (True, ring, [])"
    by (simp add: InitializeRing_def ReportRing.defs ring_def)
  have "ValidHeader False (rec_header sample_input)" "ValidRecovery False sample_input"
    by (simp_all add: ValidHeader_def ValidRecovery_def sample_input_def record_zero_def kind_defs kReasonCount_def KindCount_def)
  then have "enqueue_checks False 0 0 sample_input True = None"
    by (simp add: enqueue_checks_def kReportRecordCapacity_def)
  then have run: "run_state (Enqueue False (\<lambda>_. State_Monad.return 0) 7 0 ring sample_input True) () =
      ((RW_Accepted, 1, publish_slot (store_slot r ring), []), ())"
    by (simp add: Enqueue_def Let_def run_state_bind r_def idle_admission) (simp add: ring_def idle_admission)
  have start: "run_ring (ring_start ring) = ring" "run_producer (ring_start ring) = P_Idle"
    "run_accepted (ring_start ring) = []" "ring_reportReadSequence ring = 0"
    "ring_reportWriteSequence ring = 0" "ring_ownerThreadId ring = 7"
    by (simp_all add: ring_start_def ring_def)
  from ring_calls_are_runs[of False, THEN conjunct1, rule_format, of "ring_start ring"
      "\<lambda>_. State_Monad.return 0" 7 sample_input "()"] run start
  have "(ring_step False)\<^sup>*\<^sup>* (ring_start ring)
      ((ring_start ring)\<lparr>run_ring := publish_slot (store_slot r ring), run_accepted := [r]\<rparr>)"
    by (simp add: r_def)
  with init run show ?thesis by blast
qed

end
