(* ===== verification/Receipts.thy ===== *)
theory Receipts
  imports Framing
begin

text \<open>
  The receipt scanner (\<open>steam_reporting_receipts.cpp\<close>): a state machine over the bytes of the
  engine's log that hands each complete frame of the current run to a matcher.  The lemmas show
  that the way the log is cut into reads does not matter, and which lines reach the matcher.
\<close>

section \<open>The scanner\<close>

datatype ReceiptDisposition = Disp_Ignored | Disp_Accepted | Disp_AwaitingSubmission | Disp_Gap | Disp_Corrupt

definition kLineLimit :: nat where
  "kLineLimit = kPrefixLimit + kMessageLimit + 2"

text \<open>\<open>scan_line\<close> is the first \<open>carry\<close> bytes of the line buffer.\<close>

record ReceiptScanner =
  scan_offset :: nat
  scan_prefixMode :: PrefixMode
  scan_runId :: "byte list"
  scan_line :: "byte list"
  scan_skipInitialSuffix :: bool
  scan_oversized :: bool
  scan_awaitingSubmission :: bool
  scan_failed :: bool

text \<open>The enumeration has no third value, so a prefix mode is always one of the two admitted.\<close>

definition InitializeReceiptScanner :: "nat \<Rightarrow> bool \<Rightarrow> PrefixMode \<Rightarrow> byte list \<Rightarrow> ReceiptScanner" where
  "InitializeReceiptScanner initialEOF boundary mode runId =
     \<lparr>scan_offset = initialEOF, scan_prefixMode = mode, scan_runId = runId, scan_line = [],
      scan_skipInitialSuffix = \<not> boundary, scan_oversized = False,
      scan_awaitingSubmission = False, scan_failed = False\<rparr>"

text \<open>The matcher is a callback with a context of its own.\<close>

type_synonym 'c matcher = "'c \<Rightarrow> byte list \<Rightarrow> ReceiptDisposition \<times> 'c"

definition line_disposition ::
  "'c matcher \<Rightarrow> PrefixMode \<Rightarrow> byte list \<Rightarrow> bool \<Rightarrow> byte list \<Rightarrow> 'c \<Rightarrow> ReceiptDisposition \<times> 'c" where
  "line_disposition match mode runId oversized line ctx =
     (if oversized then
        let view = InspectLine line mode False in
        (if messageOffset view \<noteq> 0 \<and> BelongsToRun (drop (messageOffset view) line) runId
         then Disp_Corrupt else Disp_Ignored, ctx)
      else
        let view = InspectLine line mode True;
            scoped = (messageOffset view \<noteq> 0 \<and> BelongsToRun (drop (messageOffset view) line) runId) in
        if scoped \<and> lv_kind view = Line_Malformed then (Disp_Corrupt, ctx)
        else if scoped \<and> lv_kind view = Line_Frame
          then match ctx (slice (messageOffset view) (messageBytes view) line)
        else (Disp_Ignored, ctx))"

text \<open>One byte of the loop: the scanner after it, and what the line it completed was, if any.\<close>

definition scan_byte :: "'c matcher \<Rightarrow> ReceiptScanner \<Rightarrow> 'c \<Rightarrow> byte \<Rightarrow> ReceiptScanner \<times> 'c \<times> ReceiptDisposition" where
  "scan_byte match s0 ctx c =
     (let s = s0\<lparr>scan_offset := scan_offset s0 + 1\<rparr> in
      if scan_skipInitialSuffix s
      then (if c = 0x0A then s\<lparr>scan_skipInitialSuffix := False\<rparr> else s, ctx, Disp_Ignored)
      else
        let s = (if length (scan_line s) < kLineLimit then s\<lparr>scan_line := scan_line s @ [c]\<rparr>
                 else s\<lparr>scan_oversized := True\<rparr>) in
        if c \<noteq> 0x0A then (s, ctx, Disp_Ignored)
        else
          case line_disposition match (scan_prefixMode s) (scan_runId s) (scan_oversized s) (scan_line s) ctx of
            (disposition, ctx) \<Rightarrow>
              let s = s\<lparr>scan_line := [], scan_oversized := False\<rparr> in
              if disposition = Disp_AwaitingSubmission then (s\<lparr>scan_awaitingSubmission := True\<rparr>, ctx, disposition)
              else if disposition = Disp_Gap \<or> disposition = Disp_Corrupt
                then (s\<lparr>scan_failed := True\<rparr>, ctx, disposition)
              else (s, ctx, disposition))"

fun scan_loop ::
  "'c matcher \<Rightarrow> ReceiptScanner \<Rightarrow> 'c \<Rightarrow> byte list \<Rightarrow> nat \<Rightarrow> ReceiptDisposition \<Rightarrow>
   ReceiptScanner \<times> 'c \<times> nat \<times> ReceiptDisposition" where
  "scan_loop match s ctx [] consumed result = (s, ctx, consumed, result)"
| "scan_loop match s ctx (c # cs) consumed result =
     (if scan_offset s = u64_max then (s\<lparr>scan_failed := True\<rparr>, ctx, consumed, Disp_Corrupt)
      else case scan_byte match s ctx c of (s, ctx, disposition) \<Rightarrow>
        if disposition = Disp_Ignored then scan_loop match s ctx cs (consumed + 1) result
        else if disposition = Disp_Accepted then scan_loop match s ctx cs (consumed + 1) disposition
        else (s, ctx, consumed + 1, disposition))"

text \<open>\<open>bytes = None\<close> is a null pointer with a count of at least one, \<open>match = None\<close> a null callback.\<close>

definition ScanReceiptChunk ::
  "'c matcher option \<Rightarrow> ReceiptScanner \<Rightarrow> 'c \<Rightarrow> byte list option \<Rightarrow>
   ReceiptScanner \<times> 'c \<times> nat \<times> ReceiptDisposition" where
  "ScanReceiptChunk match s ctx bytes =
     (if scan_failed s then (s, ctx, 0, Disp_Corrupt)
      else if scan_awaitingSubmission s then (s, ctx, 0, Disp_AwaitingSubmission)
      else if bytes = None \<or> match = None \<or> length (scan_line s) > kLineLimit
        then (s\<lparr>scan_failed := True\<rparr>, ctx, 0, Disp_Corrupt)
      else scan_loop (the match) s ctx (the bytes) 0 Disp_Ignored)"

definition ResumeReceiptScanner :: "ReceiptScanner \<Rightarrow> bool \<times> ReceiptScanner" where
  "ResumeReceiptScanner s =
     (if scan_failed s \<or> \<not> scan_awaitingSubmission s \<or> scan_line s \<noteq> [] \<or> scan_oversized s then (False, s)
      else (True, s\<lparr>scan_awaitingSubmission := False\<rparr>))"

section \<open>How the log is cut into reads does not matter\<close>

definition stopped :: "ReceiptScanner \<Rightarrow> bool" where
  "stopped s \<longleftrightarrow> scan_failed s \<or> scan_awaitingSubmission s"

lemma scan_byte_stops:
  assumes "scan_byte match s ctx c = (s', ctx', d)" and "\<not> stopped s"
  shows "stopped s' \<longleftrightarrow> d \<noteq> Disp_Ignored \<and> d \<noteq> Disp_Accepted"
  using assms by (cases d) (auto simp: scan_byte_def stopped_def Let_def split: if_splits prod.splits)

lemma scan_byte_line:
  assumes "scan_byte match s ctx c = (s', ctx', d)" and "length (scan_line s) \<le> kLineLimit"
  shows "length (scan_line s') \<le> kLineLimit"
  using assms by (auto simp: scan_byte_def Let_def split: if_splits prod.splits)

lemma scan_byte_offset:
  "scan_byte match s ctx c = (s', ctx', d) \<Longrightarrow> scan_offset s' = scan_offset s + 1"
  by (auto simp: scan_byte_def Let_def split: if_splits prod.splits)

text \<open>The accumulators only label the result.\<close>

definition relabel :: "nat \<Rightarrow> ReceiptDisposition \<Rightarrow> ReceiptScanner \<times> 'c \<times> nat \<times> ReceiptDisposition \<Rightarrow>
    ReceiptScanner \<times> 'c \<times> nat \<times> ReceiptDisposition" where
  "relabel n r x = (case x of (s, ctx, m, d) \<Rightarrow> (s, ctx, n + m, if d = Disp_Ignored then r else d))"

lemma scan_loop_relabel:
  "scan_loop match s ctx cs consumed result = relabel consumed result (scan_loop match s ctx cs 0 Disp_Ignored)"
proof (induction cs arbitrary: s ctx consumed result)
  case (Cons c cs)
  obtain s1 ctx1 d where b: "scan_byte match s ctx c = (s1, ctx1, d)" by (metis prod_cases3)
  show ?case
    using Cons.IH[of s1 ctx1 "consumed + 1"] Cons.IH[of s1 ctx1 1] Cons.IH[of s1 ctx1 "consumed + 1" Disp_Accepted]
    by (auto simp: b relabel_def split: prod.splits)
qed (simp add: relabel_def)

text \<open>A run over some bytes stops exactly when it leaves the scanner stopped.\<close>

lemma scan_loop_append:
  assumes "\<not> stopped s" and "scan_loop match s ctx a 0 Disp_Ignored = (s1, ctx1, n, d)"
  shows "scan_loop match s ctx (a @ b) 0 Disp_Ignored =
    (if stopped s1 then (s1, ctx1, n, d) else relabel n d (scan_loop match s1 ctx1 b 0 Disp_Ignored))"
  using assms
proof (induction a arbitrary: s ctx s1 ctx1 n d)
  case (Cons c cs)
  obtain s2 ctx2 e where b: "scan_byte match s ctx c = (s2, ctx2, e)" by (metis prod_cases3)
  have ext: "scan_loop match s2 ctx2 xs (Suc 0) r = relabel (Suc 0) r (scan_loop match s2 ctx2 xs 0 Disp_Ignored)"
    for xs r by (rule scan_loop_relabel)
  obtain s3 ctx3 m f where l: "scan_loop match s2 ctx2 cs 0 Disp_Ignored = (s3, ctx3, m, f)" by (metis prod_cases4)
  show ?case
  proof (cases "scan_offset s \<noteq> u64_max \<and> (e = Disp_Ignored \<or> e = Disp_Accepted)")
    case True
    then have "\<not> stopped s2" using scan_byte_stops[OF b Cons.prems(1)] by auto
    from Cons.IH[OF this l] True Cons.prems(2) show ?thesis
      by (auto simp: b l ext relabel_def split: prod.splits if_splits)
  next
    case False
    then show ?thesis using scan_byte_stops[OF b Cons.prems(1)] Cons.prems
      by (auto simp: b stopped_def split: if_splits)
  qed
qed (auto simp: relabel_def split: prod.splits)

lemma scan_loop_line:
  "length (scan_line s) \<le> kLineLimit \<Longrightarrow> length (scan_line (fst (scan_loop match s ctx cs n d))) \<le> kLineLimit"
  by (induction cs arbitrary: s ctx n d) (auto dest: scan_byte_line split: prod.splits)

text \<open>
  C34: How the log is cut into reads does not matter.  Scanning a read and then, if the scanner
  neither failed nor waits for a submission, the next one, leaves the scanner and the matcher in
  the state that scanning both at once leaves them in; the bytes consumed add up and the
  disposition is the last one that was not Ignored.
\<close>

theorem receipts_any_chunks:
  assumes "\<not> scan_failed s" and "\<not> scan_awaitingSubmission s" and "length (scan_line s) \<le> kLineLimit"
  shows "ScanReceiptChunk (Some match) s ctx (Some (a @ b)) =
    (case ScanReceiptChunk (Some match) s ctx (Some a) of (s1, ctx1, n, d) \<Rightarrow>
      if scan_failed s1 \<or> scan_awaitingSubmission s1 then (s1, ctx1, n, d)
      else case ScanReceiptChunk (Some match) s1 ctx1 (Some b) of (s2, ctx2, m, e) \<Rightarrow>
        (s2, ctx2, n + m, if e = Disp_Ignored then d else e))"
proof -
  have s: "\<not> stopped s" using assms by (simp add: stopped_def)
  obtain s1 ctx1 n d where l: "scan_loop match s ctx a 0 Disp_Ignored = (s1, ctx1, n, d)" by (metis prod_cases4)
  show ?thesis using assms scan_loop_append[OF s l, of b] scan_loop_line[OF assms(3), of match ctx a 0 Disp_Ignored]
    by (auto simp: ScanReceiptChunk_def stopped_def relabel_def l split: prod.splits)
qed

section \<open>Which lines reach the matcher\<close>

text \<open>The verdict on a whole line, and on a sequence of lines.\<close>

definition line_verdict :: "'c matcher \<Rightarrow> PrefixMode \<Rightarrow> byte list \<Rightarrow> byte list \<Rightarrow> 'c \<Rightarrow> ReceiptDisposition \<times> 'c" where
  "line_verdict match mode runId line ctx =
     line_disposition match mode runId (length line > kLineLimit) (take kLineLimit line) ctx"

fun scan_lines ::
  "'c matcher \<Rightarrow> PrefixMode \<Rightarrow> byte list \<Rightarrow> byte list list \<Rightarrow> 'c \<Rightarrow> 'c \<times> nat \<times> ReceiptDisposition" where
  "scan_lines match mode runId [] ctx = (ctx, 0, Disp_Ignored)"
| "scan_lines match mode runId (l # ls) ctx =
     (case line_verdict match mode runId l ctx of (d, ctx1) \<Rightarrow>
        if d = Disp_Ignored \<or> d = Disp_Accepted
        then case scan_lines match mode runId ls ctx1 of (ctx2, n, e) \<Rightarrow>
          (ctx2, length l + n, if e = Disp_Ignored then d else e)
        else (ctx1, length l, d))"

definition whole_line :: "byte list \<Rightarrow> bool" where
  "whole_line l \<longleftrightarrow> l \<noteq> [] \<and> last l = 0x0A \<and> 0x0A \<notin> set (butlast l)"

definition between_lines :: "ReceiptScanner \<Rightarrow> bool" where
  "between_lines s \<longleftrightarrow> scan_line s = [] \<and> \<not> scan_oversized s \<and> \<not> scan_skipInitialSuffix s \<and>
     \<not> scan_failed s \<and> \<not> scan_awaitingSubmission s"

text \<open>The scanner in the middle of a line of which it has read \<open>pre\<close>.\<close>

definition within :: "ReceiptScanner \<Rightarrow> byte list \<Rightarrow> ReceiptScanner" where
  "within s pre = s\<lparr>scan_offset := scan_offset s + length pre, scan_line := take kLineLimit pre,
     scan_oversized := length pre > kLineLimit\<rparr>"

lemma within_step:
  assumes "between_lines s" and "c \<noteq> 0x0A"
  shows "scan_byte match (within s pre) ctx c = (within s (pre @ [c]), ctx, Disp_Ignored)"
  using assms by (cases s; cases "length pre < kLineLimit")
    (auto simp: scan_byte_def within_def between_lines_def Let_def)

lemma within_line:
  assumes "between_lines s" and "0x0A \<notin> set body" and "scan_offset s + length (pre @ body) \<le> u64_max"
  shows "scan_loop match (within s pre) ctx (body @ rest) n r =
    scan_loop match (within s (pre @ body)) ctx rest (n + length body) r"
  using assms(2,3)
proof (induction body arbitrary: pre n)
  case (Cons c body)
  have "scan_offset (within s pre) \<noteq> u64_max" using Cons.prems by (simp add: within_def)
  with Cons.IH[of "pre @ [c]" "Suc n"] Cons.prems within_step[OF assms(1), of c match pre ctx] show ?case by simp
qed simp

text \<open>The scanner after a line with the verdict \<open>d\<close>.\<close>

definition after_line :: "ReceiptScanner \<Rightarrow> nat \<Rightarrow> ReceiptDisposition \<Rightarrow> ReceiptScanner" where
  "after_line s n d = s\<lparr>scan_offset := scan_offset s + n,
     scan_awaitingSubmission := (d = Disp_AwaitingSubmission), scan_failed := (d = Disp_Gap \<or> d = Disp_Corrupt)\<rparr>"

lemma newline_step:
  assumes "between_lines s" and "line_verdict match (scan_prefixMode s) (scan_runId s) (body @ [0x0A]) ctx = (d, ctx1)"
  shows "scan_byte match (within s body) ctx 0x0A = (after_line s (length body + 1) d, ctx1, d)"
  using assms by (cases s; cases d; cases "length body < kLineLimit")
    (auto simp: scan_byte_def within_def between_lines_def line_verdict_def after_line_def Let_def)

lemma scan_one_line:
  assumes "between_lines s" and "whole_line l" and "scan_offset s + length l \<le> u64_max"
    and "line_verdict match (scan_prefixMode s) (scan_runId s) l ctx = (d, ctx1)"
  shows "scan_loop match s ctx (l @ rest) 0 Disp_Ignored =
    (if d = Disp_Ignored \<or> d = Disp_Accepted
     then relabel (length l) d (scan_loop match (after_line s (length l) d) ctx1 rest 0 Disp_Ignored)
     else (after_line s (length l) d, ctx1, length l, d))"
proof -
  obtain body where l: "l = body @ [0x0A]" and body: "0x0A \<notin> set body"
    using assms(2) unfolding whole_line_def by (metis append_butlast_last_id)
  have s: "within s [] = s" using assms(1) by (simp add: within_def between_lines_def)
  have "scan_loop match s ctx (l @ rest) 0 Disp_Ignored =
      scan_loop match (within s body) ctx (0x0A # rest) (length body) Disp_Ignored"
    using within_line[OF assms(1) body, of "[]" match ctx "0x0A # rest" 0 Disp_Ignored] assms(3) s l by simp
  moreover have "scan_offset (within s body) \<noteq> u64_max" using assms(3) l by (simp add: within_def)
  moreover note newline_step[OF assms(1), of match body ctx d ctx1]
  moreover note scan_loop_relabel[of match "after_line s (length l) d" ctx1 rest "length l" d]
  ultimately show ?thesis using assms(4) l by auto
qed

lemma after_line_between:
  "between_lines s \<Longrightarrow> d = Disp_Ignored \<or> d = Disp_Accepted \<Longrightarrow> between_lines (after_line s n d)"
  by (auto simp: between_lines_def after_line_def)

lemma scan_loop_lines:
  assumes "between_lines s" and "\<forall>l \<in> set ls. whole_line l" and "scan_offset s + length (concat ls) \<le> u64_max"
    and "scan_lines match (scan_prefixMode s) (scan_runId s) ls ctx = (ctx', n, d)"
  shows "scan_loop match s ctx (concat ls) 0 Disp_Ignored = (after_line s n d, ctx', n, d)"
  using assms
proof (induction ls arbitrary: s ctx n d)
  case Nil
  then show ?case by (auto simp: after_line_def between_lines_def)
next
  case (Cons l ls)
  obtain e ctx1 where v: "line_verdict match (scan_prefixMode s) (scan_runId s) l ctx = (e, ctx1)" by fastforce
  have one: "scan_loop match s ctx (l @ concat ls) 0 Disp_Ignored =
    (if e = Disp_Ignored \<or> e = Disp_Accepted
     then relabel (length l) e (scan_loop match (after_line s (length l) e) ctx1 (concat ls) 0 Disp_Ignored)
     else (after_line s (length l) e, ctx1, length l, e))"
    using Cons.prems by (intro scan_one_line[OF _ _ _ v]) auto
  show ?case
  proof (cases "e = Disp_Ignored \<or> e = Disp_Accepted")
    case True
    obtain m f where r: "scan_lines match (scan_prefixMode s) (scan_runId s) ls ctx1 = (ctx', m, f)"
      using Cons.prems(4) True v by (auto split: prod.splits if_splits)
    have "scan_loop match (after_line s (length l) e) ctx1 (concat ls) 0 Disp_Ignored =
        (after_line (after_line s (length l) e) m f, ctx', m, f)"
      using Cons.prems r after_line_between[OF Cons.prems(1) True] by (intro Cons.IH) (auto simp: after_line_def)
    with one True r v Cons.prems(4) show ?thesis
      by (auto simp: relabel_def after_line_def)
  next
    case False
    with one v Cons.prems(4) show ?thesis by auto
  qed
qed

text \<open>
  C30: The scanner implements a reading of the log line by line.  Between two lines, over any
  sequence of complete lines, oversized ones included, it hands to the matcher, in order, what
  the verdict on each line says, stops right after the first line whose verdict is to wait or a
  failure, consumes exactly the lines read, and is again between two lines unless it stopped.
\<close>

theorem scanner_reads_lines:
  assumes "between_lines s" and "\<forall>l \<in> set ls. whole_line l" and "scan_offset s + length (concat ls) \<le> u64_max"
  shows "ScanReceiptChunk (Some match) s ctx (Some (concat ls)) =
    (case scan_lines match (scan_prefixMode s) (scan_runId s) ls ctx of (ctx', n, d) \<Rightarrow>
      (after_line s n d, ctx', n, d))"
proof -
  obtain ctx' n d where r: "scan_lines match (scan_prefixMode s) (scan_runId s) ls ctx = (ctx', n, d)"
    by (metis prod_cases3)
  show ?thesis using scan_loop_lines[OF assms r] assms(1) r by (simp add: ScanReceiptChunk_def between_lines_def)
qed

section \<open>A chat line and a frame of the run\<close>

definition sample_line :: "byte list" where
  "sample_line = bytes_of ''Log: '' @ run_envelope (bytes_of ''decision'') [171] @ bytes_of ''}'' @ [0x0D, 0x0A]"

definition chat_line :: "byte list" where
  "chat_line = bytes_of ''chat'' @ [0x0A]"

definition accept_all :: "byte list list matcher" where
  "accept_all ctx m = (Disp_Accepted, ctx @ [m])"

lemma sample_frame: "InspectLine sample_line LogOnly True = line_view Line_Frame 5 65"
  by code_simp

lemma sample_run: "BelongsToRun (drop 5 sample_line) [171]"
  by code_simp

lemma sample_whole: "whole_line sample_line" "length sample_line = 72"
  by code_simp+

lemma chat_unrelated: "InspectLine chat_line LogOnly True = line_view Line_Unrelated 0 0"
  by code_simp

lemma chat_whole: "whole_line chat_line" "length chat_line = 5"
  by code_simp+

lemma limit: "kLineLimit = 8322"
  by (simp add: kLineLimit_def kPrefixLimit_def kMessageLimit_def)

lemma sample_verdict:
  "line_verdict accept_all LogOnly [171] sample_line ctx = (Disp_Accepted, ctx @ [slice 5 65 sample_line])"
  by (simp add: line_verdict_def line_disposition_def sample_frame sample_run sample_whole limit
    line_view_def accept_all_def)

lemma chat_verdict: "line_verdict accept_all LogOnly [171] chat_line ctx = (Disp_Ignored, ctx)"
  by (simp add: line_verdict_def line_disposition_def chat_unrelated chat_whole limit line_view_def)

lemma scanner_reads_lines_witness:
  "ScanReceiptChunk (Some accept_all) (InitializeReceiptScanner 9 True LogOnly [171]) []
      (Some (concat [chat_line, sample_line])) =
    (InitializeReceiptScanner 86 True LogOnly [171], [slice 5 65 sample_line], 77, Disp_Accepted)"
proof -
  let ?s = "InitializeReceiptScanner 9 True LogOnly [171]"
  have "between_lines ?s" "scan_offset ?s = 9" "scan_prefixMode ?s = LogOnly" "scan_runId ?s = [171]"
    by (simp_all add: between_lines_def InitializeReceiptScanner_def)
  then show ?thesis
    using scanner_reads_lines[of ?s "[chat_line, sample_line]" accept_all "[]"] chat_whole sample_whole
    by (simp add: chat_verdict sample_verdict)
      (simp add: after_line_def InitializeReceiptScanner_def)
qed

lemma receipts_any_chunks_witness:
  "let s = InitializeReceiptScanner 9 True LogOnly [171] in
    ScanReceiptChunk (Some accept_all) s [] (Some ([0x63, 0x68] @ [0x0A])) =
      (case ScanReceiptChunk (Some accept_all) s [] (Some [0x63, 0x68]) of (s1, ctx1, n, d) \<Rightarrow>
        (case ScanReceiptChunk (Some accept_all) s1 ctx1 (Some [0x0A]) of (s2, ctx2, m, e) \<Rightarrow>
          (s2, ctx2, n + m, if e = Disp_Ignored then d else e)))"
  using receipts_any_chunks[of "InitializeReceiptScanner 9 True LogOnly [171]" accept_all "[]" "[0x63, 0x68]" "[0x0A]"]
  by (simp add: Let_def limit InitializeReceiptScanner_def ScanReceiptChunk_def scan_byte_def)

end
