(* ===== verification/FormatV3.thy ===== *)
theory FormatV3
  imports Framing Records
begin

text \<open>
  The formatter (\<open>src/companion/steam_reporting_format_v3.cpp\<close>): the bounded text buffer, the
  derived wall-clock time, and the text of the bootstrap and of every record kind.  A text that
  fits is a marked, printable message that belongs to its run and names its own sequence.
\<close>

section \<open>Context\<close>

record ReportingIdentities =
  id_hostDigest :: "byte list"
  id_steamApiDigest :: "byte list"
  id_steamClientDigest :: "byte list"
  id_steamClientImageSize :: nat
  id_steamClientTimestamp :: nat
  id_steamClientChecksum :: nat

record NativeStartupSummary =
  ns_buildIdentity :: nat
  ns_reconMode :: nat
  ns_reconOutcome :: nat
  ns_reconReason :: nat
  ns_reconQualified :: nat
  ns_initializeResult :: nat
  ns_markerComplete :: nat
  ns_markerError :: nat
  ns_startupAccepted :: nat

record NativeFormatContext =
  fc_header :: StatusHeader
  fc_log :: LogIdentity
  fc_config :: ConfigV3
  fc_identities :: ReportingIdentities
  fc_startup :: NativeStartupSummary

definition Mode_value :: "Mode \<Rightarrow> nat" where
  "Mode_value m = (case m of Mode_Invalid \<Rightarrow> 0 | Mode_Disabled \<Rightarrow> 1 | Mode_Observe \<Rightarrow> 2 | Mode_Repair \<Rightarrow> 3)"

definition Diagnostics_value :: "Diagnostics \<Rightarrow> nat" where
  "Diagnostics_value d = (case d of Diag_Invalid \<Rightarrow> 0 | Diag_Normal \<Rightarrow> 1 | Diag_Detailed \<Rightarrow> 2 | Diag_Operational \<Rightarrow> 3)"

definition ContextValid :: "NativeFormatContext \<Rightarrow> bool" where
  "ContextValid c \<longleftrightarrow>
     (let h = fc_header c; l = fc_log c; mode = Mode_value (v3_mode (fc_config c));
          diagnostics = Diagnostics_value (v3_diagnostics (fc_config c)) in
      sh_magic h = kStatusMagic \<and> sh_schema h = kStatusSchemaV3 \<and> sh_bytes h = sizeof_StatusWireV3 \<and>
      sh_artifactVersion h = kReportingArtifactVersionV3 \<and> sh_validity h = CompleteHeaderIdentity \<and>
      sh_pid h \<noteq> 0 \<and> sh_processCreation h \<noteq> 0 \<and> sh_qpcFrequency h \<noteq> 0 \<and>
      sh_configuredMode h = mode \<and>
      Mode_value Mode_Disabled \<le> mode \<and> mode \<le> Mode_value Mode_Repair \<and>
      Diagnostics_value Diag_Normal \<le> diagnostics \<and> diagnostics \<le> Diagnostics_value Diag_Operational \<and>
      li_pathChars l > 0 \<and> li_pathChars l < 1024 \<and> li_path l ! li_pathChars l = 0 \<and>
      li_prefixMode l \<le> 1 \<and> li_transportKind l = 1 \<and> li_durability l = 0 \<and>
      li_initialAtLineBoundary l \<le> 1 \<and> sh_hostDigest h = id_hostDigest (fc_identities c))"

section \<open>Derived time\<close>

text \<open>
  The two intrinsics.  The division faults when the quotient does not fit, that is when the
  high word is not below the divisor; \<open>derive_no_fault\<close> shows that it always is.
\<close>

definition umul128 :: "nat \<Rightarrow> nat \<Rightarrow> nat \<times> nat" where
  "umul128 a b = (a * b mod 2 ^ 64, a * b div 2 ^ 64)"

definition udiv128 :: "nat \<Rightarrow> nat \<Rightarrow> nat \<Rightarrow> nat" where
  "udiv128 high low divisor = (high * 2 ^ 64 + low) div divisor"

definition perSecond :: nat where "perSecond = 10000000"

definition DeriveUtcFiletime :: "LogIdentity \<Rightarrow> nat \<Rightarrow> nat \<Rightarrow> nat option" where
  "DeriveUtcFiletime log frequency sourceQpc =
     (if frequency = 0 \<or> sourceQpc = 0 \<or> li_utcFiletime log = 0 \<or> li_calibrationQpcBefore log = 0 \<or>
         li_calibrationQpcAfter log < li_calibrationQpcBefore log then None
      else
        let midpoint = li_calibrationQpcBefore log +
              (li_calibrationQpcAfter log - li_calibrationQpcBefore log) div 2;
            positive = (sourceQpc \<ge> midpoint);
            delta = (if positive then sourceQpc - midpoint else midpoint - sourceQpc);
            seconds = delta div frequency in
        if seconds > u64_max div perSecond then None
        else case umul128 (delta mod frequency) perSecond of (low, high) \<Rightarrow>
          let fraction = udiv128 high low frequency; ticks = seconds * perSecond in
          if fraction > u64_max - ticks then None
          else
            let ticks = ticks + fraction in
            if (positive \<and> ticks > u64_max - li_utcFiletime log) \<or>
               (\<not> positive \<and> ticks \<ge> li_utcFiletime log) then None
            else Some (if positive then li_utcFiletime log + ticks else li_utcFiletime log - ticks))"

section \<open>The text buffer\<close>

text \<open>
  \<open>Some out\<close> is a good buffer holding \<open>out\<close>; \<open>None\<close> is one that has failed.  The formatted
  pieces of \<open>vsnprintf\<close> are literals, strings, and unsigned decimals.
\<close>

type_synonym json = "byte list option"

fun dec :: "nat \<Rightarrow> byte list" where
  "dec n = (if n < 10 then [word_of_nat (48 + n)] else dec (n div 10) @ [word_of_nat (48 + n mod 10)])"

declare dec.simps [simp del]

definition json_capacity :: "nat \<Rightarrow> nat" where
  "json_capacity capacity = min capacity (kMessageLimit + 1)"

definition json_open :: "nat \<Rightarrow> json" where
  "json_open capacity = (if json_capacity capacity \<noteq> 0 then Some [] else None)"

definition Append :: "nat \<Rightarrow> byte list \<Rightarrow> json \<Rightarrow> json" where
  "Append capacity text j =
     (case j of None \<Rightarrow> None
      | Some out \<Rightarrow> if length text \<ge> json_capacity capacity - length out then None else Some (out @ text))"

definition units_of_path :: "LogIdentity \<Rightarrow> 16 word list" where
  "units_of_path log = map word_of_nat (take (li_pathChars log) (li_path log))"

definition Path :: "nat \<Rightarrow> LogIdentity \<Rightarrow> json \<Rightarrow> json" where
  "Path capacity log j =
     (case j of None \<Rightarrow> None
      | Some out \<Rightarrow> (case EscapeJsonUtf16 (units_of_path log) (json_capacity capacity - length out) of
          None \<Rightarrow> None | Some text \<Rightarrow> Some (out @ text)))"

definition Finish :: "nat \<Rightarrow> json \<Rightarrow> byte list option" where
  "Finish capacity j =
     (case Append capacity (bytes_of ''}'') j of None \<Rightarrow> None
      | Some out \<Rightarrow> if list_ex (\<lambda>b. b < 0x20 \<or> b > 0x7e) out then None else Some out)"

definition Hex :: "byte list \<Rightarrow> byte list" where
  "Hex input = concat (map (\<lambda>b. [hex_lower ! unat (drop_bit 4 b), hex_lower ! unat (and b 15)]) input)"

text \<open>\<open>Some j\<close> is \<open>true\<close> with the buffer \<open>j\<close>, which may have failed.\<close>

definition begin_text :: "NativeFormatContext \<Rightarrow> string \<Rightarrow> nat \<Rightarrow> nat \<Rightarrow> nat \<Rightarrow> byte list" where
  "begin_text c ty sequence qpc utc =
     kMarker @ bytes_of ''{\"schema\":3,\"type\":\"'' @ bytes_of ty @ bytes_of ''\",\"run_id\":\"'' @
     Hex (sh_runId (fc_header c)) @ bytes_of ''\",\"pid\":'' @ dec (sh_pid (fc_header c)) @
     bytes_of '',\"sequence\":'' @ dec sequence @ bytes_of '',\"qpc\":'' @ dec qpc @
     bytes_of '',\"utc_derived_filetime\":'' @ dec utc"

definition Begin :: "NativeFormatContext \<Rightarrow> nat \<Rightarrow> string \<Rightarrow> nat \<Rightarrow> nat \<Rightarrow> json \<Rightarrow> json option" where
  "Begin c capacity ty sequence qpc j =
     (if \<not> ContextValid c then None
      else case DeriveUtcFiletime (fc_log c) (sh_qpcFrequency (fc_header c)) qpc of
        None \<Rightarrow> None
      | Some utc \<Rightarrow> Some (Append capacity (begin_text c ty sequence qpc utc) j))"

section \<open>The bootstrap\<close>

definition field :: "string \<Rightarrow> nat \<Rightarrow> byte list" where
  "field name value = bytes_of '',\"'' @ bytes_of name @ bytes_of ''\":'' @ dec value"

definition sfield :: "string \<Rightarrow> byte list \<Rightarrow> byte list" where
  "sfield name value = bytes_of '',\"'' @ bytes_of name @ bytes_of ''\":\"'' @ value @ bytes_of ''\"''"

definition anchor_interval :: "Diagnostics \<Rightarrow> nat" where
  "anchor_interval d = (if d = Diag_Operational then 60 else if d = Diag_Detailed then 1 else 10)"

definition bootstrap_text :: "NativeFormatContext \<Rightarrow> byte list" where
  "bootstrap_text c =
     (let h = fc_header c; l = fc_log c; g = fc_config c; i = fc_identities c in
      bytes_of '',\"artifact\":\"RS2ServerFix-steam-reporting\",\"version\":\"0.7.1.0\"'' @
      field ''artifact_version'' (sh_artifactVersion h) @
      field ''process_start_filetime'' (sh_processCreation h) @ field ''qpc_frequency'' (sh_qpcFrequency h) @
      sfield ''mode'' (bytes_of (ModeName (v3_mode g))) @ field ''configured_mode'' (sh_configuredMode h) @
      field ''header_validity'' (sh_validity h) @
      sfield ''diagnostics'' (bytes_of (DiagnosticsName (v3_diagnostics g))) @
      field ''anchor_interval_seconds'' (anchor_interval (v3_diagnostics g)) @
      sfield ''host_sha256'' (Hex (sh_hostDigest h)) @
      sfield ''qualified_steam_api_sha256'' (Hex (id_steamApiDigest i)) @
      sfield ''qualified_steamclient_sha256'' (Hex (id_steamClientDigest i)) @
      sfield ''transport'' (bytes_of ''native'') @ sfield ''durability'' (bytes_of ''unknown'') @
      sfield ''utc_kind'' (bytes_of ''derived'') @ field ''utc_calibration_filetime'' (li_utcFiletime l) @
      field ''calibration_qpc_before'' (li_calibrationQpcBefore l) @
      field ''calibration_qpc_after'' (li_calibrationQpcAfter l) @ field ''volume_serial'' (li_volumeSerial l) @
      sfield ''file_id'' (Hex (li_fileId l)) @ field ''initial_eof'' (li_initialEOF l) @
      field ''initial_at_line_boundary'' (li_initialAtLineBoundary l) @ field ''prefix_mode'' (li_prefixMode l) @
      bytes_of '',\"record_bytes\":256,\"ring_capacity\":256,\"batch_limit\":32,'' @
      bytes_of ''\"ledger_capacity\":256,\"ready_capacity\":8,\"message_limit\":8192,'' @
      bytes_of ''\"native_service_hz\":4,\"native_frames_per_opportunity\":2,'' @
      bytes_of ''\"native_frames_per_second\":8,\"request_floor_seconds\":20,\"prepared_counts_schema\":1,'' @
      bytes_of ''\"prepared_dirty_schema\":1,\"recovery_origin_schema\":1,'' @
      bytes_of ''\"authentication_changed\":false,\"native_counting_preserved\":true,'' @
      bytes_of ''\"termination_may_lose_tail\":true,\"log_path\":'')"

definition operational_text :: "byte list" where
  "operational_text =
     bytes_of '',\"operational_fields_schema\":1,\"qualification_evidence\":false,'' @
     bytes_of ''\"recovery_detail_post_terminal_pairs\":4,\"recovery_detail_deadline_fallback\":true''"

definition startup_text :: "NativeStartupSummary \<Rightarrow> byte list" where
  "startup_text s =
     bytes_of '',\"startup\":{\"build_identity\":'' @ dec (ns_buildIdentity s) @
     field ''recon_mode'' (ns_reconMode s) @ field ''recon_outcome'' (ns_reconOutcome s) @
     field ''recon_reason'' (ns_reconReason s) @ field ''recon_qualified'' (ns_reconQualified s) @
     field ''initialize_result'' (ns_initializeResult s) @ field ''marker_complete'' (ns_markerComplete s) @
     field ''marker_error'' (ns_markerError s) @ field ''startup_accepted'' (ns_startupAccepted s) @
     bytes_of ''}''"

text \<open>\<open>given\<close>: the output and the byte count are not null.  \<open>None\<close> leaves the output empty.\<close>

definition FormatNativeBootstrap :: "NativeFormatContext \<Rightarrow> bool \<Rightarrow> nat \<Rightarrow> byte list option" where
  "FormatNativeBootstrap c given capacity =
     (if \<not> given \<or> capacity = 0 then None
      else if li_calibrationQpcAfter (fc_log c) < li_calibrationQpcBefore (fc_log c) then None
      else
        let midpoint = li_calibrationQpcBefore (fc_log c) +
              (li_calibrationQpcAfter (fc_log c) - li_calibrationQpcBefore (fc_log c)) div 2 in
        case Begin c capacity ''startup'' 0 midpoint (json_open capacity) of
          None \<Rightarrow> None
        | Some j \<Rightarrow>
            let j = Path capacity (fc_log c) (Append capacity (bootstrap_text c) j);
                j = (if v3_diagnostics (fc_config c) = Diag_Operational
                     then Append capacity operational_text j else j) in
            Finish capacity (Append capacity (startup_text (fc_startup c)) j))"

definition PrepareNativeBootstrap ::
  "NativeFormatContext \<Rightarrow> bool \<Rightarrow> nat \<Rightarrow> nat \<Rightarrow> TransportReason \<times> (byte list \<times> 16 word list) option" where
  "PrepareNativeBootstrap c given capacity wideCapacity =
     (case FormatNativeBootstrap c given capacity of
        None \<Rightarrow> (TR_FramingUnsupported, None)
      | Some ascii \<Rightarrow> (case PrepareMessage ascii wideCapacity of
          None \<Rightarrow> (TR_FramingUnsupported, None)
        | Some wide \<Rightarrow> (TR_None, Some (ascii, wide))))"

section \<open>The fields of a record\<close>

type_synonym fields = "(string \<times> nat) list"

definition state_fields :: "ReportStatePayload \<Rightarrow> fields" where
  "state_fields p =
     [(''phase'', st_phase p), (''request_sequence'', st_requestSequence p),
      (''witness_sequence'', st_witnessSequence p), (''build_sequence'', st_buildSequence p),
      (''pending_since_qpc'', st_pendingSinceQpc p), (''fresh_since_qpc'', st_freshSinceQpc p),
      (''qualification_flags'', st_qualificationFlags p),
      (''native_task_state'', st_nativeTaskState p),
      (''client_qualification_ms'', st_clientQualificationMs p),
      (''native_schedule_valid'', st_nativeScheduleValid p),
      (''native_schedule_anchor_bits'', st_nativeScheduleAnchorBits p),
      (''native_errors_bits'', st_nativeErrorsBits p),
      (''native_throttles_bits'', st_nativeThrottlesBits p),
      (''native_expedite'', st_nativeExpedite p), (''native_retry_limit'', st_nativeRetryLimit p),
      (''native_interval_units'', st_nativeIntervalUnits p),
      (''native_interval_override_bits'', st_nativeIntervalOverrideBits p),
      (''native_retry_override_bits'', st_nativeRetryOverrideBits p),
      (''native_delay_units'', st_nativeDelayUnits p), (''native_tier'', st_nativeTier p),
      (''mode'', st_mode p), (''classification'', st_classification p), (''pi'', st_pi p),
      (''bots'', st_bots p), (''maximum'', st_maximum p), (''pending'', st_pending p),
      (''fresh'', st_fresh p), (''bound'', st_bound p)]"

definition request_fields :: "ReportRequestPayload \<Rightarrow> fields" where
  "request_fields p =
     [(''request_sequence'', rq_requestSequence p), (''witness_sequence'', rq_witnessSequence p),
      (''staged_qpc'', rq_stagedQpc p), (''previous_sample_qpc'', rq_previousSampleQpc p),
      (''observed_qpc'', rq_observedQpc p), (''fresh_since_qpc'', rq_freshSinceQpc p),
      (''source_age_ticks'', rq_sourceAgeTicks p), (''pi'', rq_pi p), (''bots'', rq_bots p),
      (''maximum'', rq_maximum p), (''staged_bots'', rq_stagedBots p),
      (''human_players'', rq_humanPlayers p), (''world_bots'', rq_worldBots p),
      (''classification'', rq_classification p), (''pending'', rq_pending p)]"

definition builder_fields :: "ReportBuilderPayload \<Rightarrow> fields" where
  "builder_fields p =
     [(''build_sequence'', bu_buildSequence p), (''request_sequence'', bu_requestSequence p),
      (''witness_sequence'', bu_witnessSequence p), (''source_age_ticks'', bu_sourceAgeTicks p),
      (''probe_elapsed_ticks'', bu_probeElapsedTicks p),
      (''classification_elapsed_ticks'', bu_classificationElapsedTicks p),
      (''original_elapsed_ticks'', bu_originalElapsedTicks p), (''entry_qpc'', bu_entryQpc p),
      (''return_qpc'', bu_returnQpc p), (''pi'', bu_pi p), (''bots'', bu_bots p),
      (''maximum'', bu_maximum p), (''classification'', bu_classification p),
      (''selected'', bu_selected p), (''result'', bu_result p), (''pending'', bu_pending p),
      (''fresh'', bu_fresh p), (''prepared_valid'', bu_preparedValid p)] @
     (if bu_preparedValid p = 1 then
     [(''prepared_mismatch_mask'', bu_preparedMismatchMask p),
      (''prepared_maximum'', bu_preparedMaximum p), (''prepared_members'', bu_preparedMembers p),
      (''prepared_pi'', bu_preparedPi p), (''prepared_bots'', bu_preparedBots p),
      (''prepared_json_maximum'', bu_preparedJsonMaximum p),
      (''prepared_json_bytes'', bu_preparedJsonBytes p)] else []) @
     [(''prepared_dirty_valid'', bu_preparedDirtyValid p)] @
     (if bu_preparedDirtyValid p = 1 then
     [(''prepared_dirty_at_entry'', bu_preparedDirtyAtEntry p)] else [])"

definition anchor_fields :: "ReportAnchorPayload \<Rightarrow> fields" where
  "anchor_fields p =
     [(''normal_attempts'', an_normalAttempts p), (''full_selected'', an_fullSelected p),
      (''selected_true'', an_selectedTrue p), (''normal_returns'', an_normalReturns p),
      (''false_returns'', an_falseReturns p), (''native_unwinds'', an_nativeUnwinds p),
      (''request_sequence'', an_requestSequence p), (''witness_sequence'', an_witnessSequence p),
      (''build_sequence'', an_buildSequence p),
      (''distinct_selected_witnesses'', an_distinctSelectedWitnesses p)]"

definition transport_fields :: "ReportTransportSummaryPayload \<Rightarrow> fields" where
  "transport_fields p =
     [(''anchor_sequence'', ts_anchorSequence p),
      (''native_submit_calls'', ts_nativeSubmitCalls p),
      (''native_submit_elapsed_ticks'', ts_nativeSubmitElapsedTicks p),
      (''native_submit_maximum_ticks'', ts_nativeSubmitMaximumTicks p),
      (''native_submit_over_five_milliseconds'', ts_nativeSubmitOverFiveMilliseconds p),
      (''forwarded_pump_without_capture'', ts_forwardedPumpWithoutCapture p),
      (''forwarded_builder_without_capture'', ts_forwardedBuilderWithoutCapture p),
      (''transport_state'', ts_transportState p), (''transport_reason'', ts_transportReason p),
      (''pause_epoch'', ts_pauseEpoch p),
      (''pause_boundary_sequence'', ts_pauseBoundarySequence p),
      (''submitted_sequence'', ts_submittedSequence p),
      (''observed_sequence'', ts_observedSequence p),
      (''timing_accounted_through_qpc'', ts_timingAccountedThroughQpc p),
      (''generated_sequence'', ts_generatedSequence p)]"

definition control_fields :: "ReportControlPayload \<Rightarrow> fields" where
  "control_fields p =
     [(''event'', ct_event p), (''transport_state'', ct_transportState p),
      (''transport_reason'', ct_transportReason p), (''pause_epoch'', ct_pauseEpoch p),
      (''pause_boundary_sequence'', ct_pauseBoundarySequence p),
      (''abandoned_pending_request'', ct_abandonedPendingRequest p),
      (''abandoned_witness'', ct_abandonedWitness p), (''last_request_qpc'', ct_lastRequestQpc p),
      (''generated_before'', ct_generatedBefore p), (''submitted_before'', ct_submittedBefore p),
      (''observed_before'', ct_observedBefore p),
      (''forwarded_pump_without_capture'', ct_forwardedPumpWithoutCapture p),
      (''forwarded_builder_without_capture'', ct_forwardedBuilderWithoutCapture p),
      (''timing_accounted_through_qpc'', ct_timingAccountedThroughQpc p)]"

definition recovery_fields :: "ReportRecoveryPayload \<Rightarrow> fields" where
  "recovery_fields p =
     [(''recovery_phase'', rp_phase p), (''recovery_event'', rp_event p),
      (''recovery_reason'', rp_reason p), (''recovery_outcome'', rp_outcome p),
      (''recovery_flags'', rp_flags p),
      (''recovery_request_origin'', if rp_operationSequence p = 0 then 0 else if has (rp_flags p) RecoveryConsoleRequested then 2 else 1),
      (''recovery_operation_sequence'', rp_operationSequence p),
      (''recovery_transition_sequence'', rp_transitionSequence p), (''recovery_qpc'', rp_qpc p),
      (''recovery_source_epoch'', rp_sourceEpoch p), (''recovery_sdk_epoch'', rp_sdkEpoch p),
      (''recovery_owner_thread_id'', rp_ownerThreadId p),
      (''recovery_resource_phase'', rp_resourcePhase p),
      (''recovery_native_stage'', rp_nativeStage p),
      (''recovery_exception_code'', rp_exceptionCode p),
      (''recovery_request_id'', rp_requestId p), (''recovery_callback_id'', rp_callbackId p),
      (''recovery_callback_result'', rp_callbackResult p),
      (''recovery_api_returned_id'', rp_apiReturnedId p),
      (''recovery_old_sdk_fingerprint'', rp_oldSdkFingerprint p),
      (''recovery_new_sdk_fingerprint'', rp_newSdkFingerprint p),
      (''recovery_old_cache_fingerprint'', rp_oldCacheFingerprint p),
      (''recovery_new_cache_fingerprint'', rp_newCacheFingerprint p),
      (''recovery_finish_deadline_qpc'', rp_finishDeadlineQpc p),
      (''recovery_overall_deadline_qpc'', rp_overallDeadlineQpc p),
      (''recovery_record_sequence'', rp_recordSequence p),
      (''recovery_callback_own_ticks'', rp_callbackOwnTicks p)]"

text \<open>The subset the operational setting prints of the compact kinds.\<close>

definition compact_kind :: "nat \<Rightarrow> bool" where
  "compact_kind kind \<longleftrightarrow>
     kind = RecordKindV3_value RK3_State \<or> kind = RecordKindV3_value RK3_BuilderEnter \<or>
     kind = RecordKindV3_value RK3_BuilderReturn \<or> kind = RecordKindV3_value RK3_BuilderUnwind \<or>
     kind = RecordKindV3_value RK3_Anchor \<or> kind = RecordKindV3_value RK3_TransportSummary"

definition compact_fields :: "nat \<Rightarrow> nat list \<Rightarrow> fields" where
  "compact_fields kind ws =
     (if kind = RecordKindV3_value RK3_State then
        let p = state_of_words ws in
        [(''phase'', st_phase p), (''mode'', st_mode p), (''bound'', st_bound p), (''pi'', st_pi p),
         (''bots'', st_bots p), (''maximum'', st_maximum p)]
      else if kind = RecordKindV3_value RK3_Anchor then
        let p = anchor_of_words ws in
        [(''normal_attempts'', an_normalAttempts p), (''normal_returns'', an_normalReturns p),
         (''native_unwinds'', an_nativeUnwinds p), (''build_sequence'', an_buildSequence p)]
      else if kind = RecordKindV3_value RK3_TransportSummary then
        let p = transport_summary_of_words ws in
        [(''transport_state'', ts_transportState p), (''transport_reason'', ts_transportReason p),
         (''generated_sequence'', ts_generatedSequence p), (''submitted_sequence'', ts_submittedSequence p),
         (''observed_sequence'', ts_observedSequence p)]
      else
        let p = builder_of_words ws in
        [(''build_sequence'', bu_buildSequence p), (''pi'', bu_pi p), (''bots'', bu_bots p),
         (''maximum'', bu_maximum p), (''classification'', bu_classification p),
         (''selected'', bu_selected p), (''result'', bu_result p), (''prepared_valid'', bu_preparedValid p)] @
        (if bu_preparedValid p = 1 then [(''prepared_mismatch_mask'', bu_preparedMismatchMask p)] else []))"

definition scalar :: "nat \<Rightarrow> string \<times> nat \<Rightarrow> json \<Rightarrow> json" where
  "scalar capacity f j = Append capacity (field (fst f) (snd f)) j"

definition scalars :: "nat \<Rightarrow> fields \<Rightarrow> json \<Rightarrow> json" where
  "scalars capacity fs j = fold (scalar capacity) fs j"

definition duration_text :: "nat \<Rightarrow> ReportDurationSummary \<Rightarrow> byte list" where
  "duration_text i d =
     (if i \<noteq> 0 then bytes_of '','' else []) @ bytes_of ''{\"class\":'' @ dec i @
     field ''calls'' (sum_calls d) @ field ''elapsed_ticks'' (sum_elapsedTicks d) @
     field ''maximum_ticks'' (sum_maximumTicks d) @
     field ''over_five_milliseconds'' (sum_overFiveMilliseconds d) @ bytes_of ''}''"

definition durations :: "nat \<Rightarrow> ReportDurationSummary list \<Rightarrow> json \<Rightarrow> json" where
  "durations capacity ds j =
     Append capacity (bytes_of '']'')
       (fold (\<lambda>i. Append capacity (duration_text i (ds ! i))) [0..<kStatusDurationClasses]
         (Append capacity (bytes_of '',\"durations\":['') j))"

definition full_body :: "nat \<Rightarrow> nat \<Rightarrow> nat list \<Rightarrow> json \<Rightarrow> json" where
  "full_body capacity kind ws j =
     (if kind = RecordKindV3_value RK3_State then scalars capacity (state_fields (state_of_words ws)) j
      else if kind = RecordKindV3_value RK3_Request \<or> kind = RecordKindV3_value RK3_Witness
        then scalars capacity (request_fields (request_of_words ws)) j
      else if kind = RecordKindV3_value RK3_BuilderEnter \<or> kind = RecordKindV3_value RK3_BuilderReturn \<or>
          kind = RecordKindV3_value RK3_BuilderUnwind
        then scalars capacity (builder_fields (builder_of_words ws)) j
      else if kind = RecordKindV3_value RK3_Anchor
        then durations capacity (an_durations (anchor_of_words ws))
          (scalars capacity (anchor_fields (anchor_of_words ws)) j)
      else if kind = RecordKindV3_value RK3_TransportSummary
        then scalars capacity (transport_fields (transport_summary_of_words ws)) j
      else if kind = RecordKindV3_value RK3_Control
        then scalars capacity (control_fields (control_of_words ws)) j
      else if kind = RecordKindV3_value RK3_Recovery
        then scalars capacity (recovery_fields (recovery_of_words ws)) j
      else j)"

definition record_types :: "string list" where
  "record_types = ['''', ''state'', ''request'', ''witness'', ''builder-enter'', ''builder-return'',
     ''builder-unwind'', ''anchor'', ''transport-summary'', ''control'', ''recovery'']"

definition header_text :: "ReportHeader \<Rightarrow> byte list" where
  "header_text h = field ''source_epoch'' (rec_sourceEpoch h) @ field ''binding_epoch'' (rec_bindingEpoch h) @
     field ''kind'' (rec_kind h) @ field ''reason'' (rec_reason h) @ field ''flags'' (rec_flags h) @
     field ''thread_id'' (rec_threadId h)"

definition record_refused :: "ReportRecord \<Rightarrow> bool" where
  "record_refused r \<longleftrightarrow>
     rec_sequence (rec_header r) = 0 \<or> rec_kind (rec_header r) < 1 \<or> rec_kind (rec_header r) \<ge> KindCount True \<or>
     (rec_kind (rec_header r) = RecordKindV3_value RK3_Recovery \<and>
      (rec_reason (rec_header r) \<noteq> 0 \<or> rec_flags (rec_header r) \<noteq> 0 \<or>
       rp_recordSequence (recovery_of_words (rec_payload r)) \<noteq> 0 \<or>
       \<not> RecoveryPayloadValid (recovery_of_words (rec_payload r))))"

definition FormatNativeRecord ::
  "NativeFormatContext \<Rightarrow> ReportRecord \<Rightarrow> bool \<Rightarrow> nat \<Rightarrow> bool \<Rightarrow> byte list option" where
  "FormatNativeRecord c r given capacity recoveryDetail =
     (if \<not> given \<or> capacity = 0 \<or> record_refused r then None
      else
        let kind = rec_kind (rec_header r) in
        case Begin c capacity (record_types ! kind) (rec_sequence (rec_header r)) (rec_qpc (rec_header r))
            (json_open capacity) of
          None \<Rightarrow> None
        | Some j \<Rightarrow>
            let j = Append capacity (header_text (rec_header r)) j in
            if v3_diagnostics (fc_config c) = Diag_Operational
            then
              let compact = (\<not> recoveryDetail \<and> compact_kind kind);
                  j = Append capacity (sfield ''detail''
                        (bytes_of (if compact then ''operational'' else ''full''))) j in
              if compact then Finish capacity (scalars capacity (compact_fields kind (rec_payload r)) j)
              else Finish capacity (full_body capacity kind (rec_payload r) j)
            else Finish capacity (full_body capacity kind (rec_payload r) j))"


section \<open>Derived time is exact\<close>

text \<open>The division of \<open>udiv128\<close> never faults: its high word is below the divisor.\<close>

lemma derive_no_fault:
  assumes "0 < frequency"
  shows "snd (umul128 (delta mod frequency) perSecond) < frequency"
proof -
  have "(delta mod frequency) * perSecond < frequency * 2 ^ 64"
    using mult_less_le_imp_less[of "delta mod frequency" frequency perSecond "2 ^ 64"] assms
    by (simp add: perSecond_def)
  then show ?thesis by (simp add: umul128_def less_mult_imp_div_less)
qed

lemma umul_udiv: "umul128 a b = (low, high) \<Longrightarrow> udiv128 high low d = a * b div d"
  by (auto simp: umul128_def udiv128_def div_mult_mod_eq mult.commute)

lemma whole_and_fraction:
  assumes "0 < (f :: nat)"
  shows "delta div f * s + (delta mod f) * s div f = delta * s div f"
proof -
  have "delta * s = f * (delta div f * s) + (delta mod f) * s"
    by (metis add_mult_distrib mult.assoc mult_div_mod_eq)
  then show ?thesis using assms by simp
qed

definition calibration_midpoint :: "LogIdentity \<Rightarrow> nat" where
  "calibration_midpoint log = (li_calibrationQpcBefore log + li_calibrationQpcAfter log) div 2"

text \<open>The 100 ns units between the calibration and a time, rounded towards the calibration.\<close>

definition utc_ticks :: "nat \<Rightarrow> nat \<Rightarrow> nat" where
  "utc_ticks delta frequency = delta * perSecond div frequency"

lemma derive_utc_eq:
  assumes "0 < frequency" and "0 < q" and "0 < li_utcFiletime log" and "0 < li_calibrationQpcBefore log"
    and "li_calibrationQpcBefore log \<le> li_calibrationQpcAfter log" and "li_utcFiletime log \<le> u64_max"
  shows "DeriveUtcFiletime log frequency q =
    (let m = calibration_midpoint log; utc = li_utcFiletime log in
     if m \<le> q
     then (if utc + utc_ticks (q - m) frequency \<le> u64_max then Some (utc + utc_ticks (q - m) frequency) else None)
     else (if utc_ticks (m - q) frequency < utc then Some (utc - utc_ticks (m - q) frequency) else None))"
proof -
  let ?m = "li_calibrationQpcBefore log + (li_calibrationQpcAfter log - li_calibrationQpcBefore log) div 2"
  have m: "?m = calibration_midpoint log"
    using assms(5) unfolding calibration_midpoint_def by linarith
  let ?delta = "if calibration_midpoint log \<le> q then q - calibration_midpoint log else calibration_midpoint log - q"
  obtain low high where mul: "umul128 (?delta mod frequency) perSecond = (low, high)" by fastforce
  let ?t = "utc_ticks ?delta frequency"
  have t: "?delta div frequency * perSecond + udiv128 high low frequency = ?t"
    unfolding umul_udiv[OF mul] utc_ticks_def by (rule whole_and_fraction[OF assms(1)])
  have big: "?t > u64_max" if "?delta div frequency > u64_max div perSecond"
  proof -
    have "u64_max < (u64_max div perSecond + 1) * perSecond" by (simp add: perSecond_def)
    also have "\<dots> \<le> ?delta div frequency * perSecond" using that by (intro mult_le_mono1) simp
    finally show ?thesis using t by linarith
  qed
  have small: "?delta div frequency * perSecond \<le> u64_max" if "\<not> ?delta div frequency > u64_max div perSecond"
  proof -
    have "?delta div frequency * perSecond \<le> u64_max div perSecond * perSecond"
      using that by (intro mult_le_mono1) simp
    also have "\<dots> \<le> u64_max" by (simp add: perSecond_def)
    finally show ?thesis .
  qed
  have guards: "\<not> (frequency = 0 \<or> q = 0 \<or> li_utcFiletime log = 0 \<or> li_calibrationQpcBefore log = 0 \<or>
      li_calibrationQpcAfter log < li_calibrationQpcBefore log)" using assms by simp
  show ?thesis
  proof (cases "?delta div frequency > u64_max div perSecond")
    case True
    then have "DeriveUtcFiletime log frequency q = None"
      unfolding DeriveUtcFiletime_def Let_def m mul if_not_P[OF guards] by simp
    with big[OF True] assms(6) show ?thesis by (cases "calibration_midpoint log \<le> q") (simp_all add: Let_def)
  next
    case False
    note s = small[OF False]
    have "DeriveUtcFiletime log frequency q =
       (if udiv128 high low frequency > u64_max - ?delta div frequency * perSecond then None
        else if calibration_midpoint log \<le> q \<and> ?t > u64_max - li_utcFiletime log \<or>
          \<not> calibration_midpoint log \<le> q \<and> ?t \<ge> li_utcFiletime log then None
        else Some (if calibration_midpoint log \<le> q then li_utcFiletime log + ?t else li_utcFiletime log - ?t))"
      using False unfolding DeriveUtcFiletime_def Let_def m mul if_not_P[OF guards] prod.case t
      by (simp only: if_False)
    also have "udiv128 high low frequency > u64_max - ?delta div frequency * perSecond \<longleftrightarrow> ?t > u64_max"
      using s t by linarith
    finally show ?thesis using assms(6) by (cases "calibration_midpoint log \<le> q") (auto simp: Let_def)
  qed
qed

text \<open>
  C37: Derived time is exact.  For a usable calibration, a nonzero frequency and a nonzero
  source time the derived time is the calibrated time plus, or before the calibration minus, the whole number of 100 ns units of the elapsed
  counter ticks, computed without intermediate overflow; it is refused exactly when the result
  is not a positive 64-bit number.
\<close>

theorem derive_utc_exact:
  assumes "0 < frequency" and "0 < q" and "0 < li_utcFiletime log" and "0 < li_calibrationQpcBefore log"
    and "li_calibrationQpcBefore log \<le> li_calibrationQpcAfter log" and "li_utcFiletime log \<le> u64_max"
  shows "DeriveUtcFiletime log frequency q =
    (let m = calibration_midpoint log; utc = li_utcFiletime log in
     if m \<le> q
     then (if utc + utc_ticks (q - m) frequency \<le> u64_max then Some (utc + utc_ticks (q - m) frequency) else None)
     else (if utc_ticks (m - q) frequency < utc then Some (utc - utc_ticks (m - q) frequency) else None))"
  by (rule derive_utc_eq[OF assms])

section \<open>Decimals\<close>

lemma word_digit: "n < 10 \<Longrightarrow> Digit (word_of_nat (48 + n) :: byte)"
  by (rule below_exhaust[of _ 10]) code_simp

lemma Digit_dec: "list_all Digit (dec n)"
proof (induction n rule: dec.induct)
  case (1 n)
  then show ?case using word_digit[of n] word_digit[of "n mod 10"] by (subst dec.simps) simp
qed

lemma dec_not_Nil [simp]: "dec n \<noteq> []"
  by (subst dec.simps) simp

lemma length_dec: "n < 10 ^ k \<Longrightarrow> 0 < k \<Longrightarrow> length (dec n) \<le> k"
proof (induction n arbitrary: k rule: dec.induct)
  case (1 n)
  show ?case
  proof (cases "n < 10")
    case False
    obtain j where k: "k = Suc j" using 1(3) by (cases k) auto
    with 1(2) False have "n div 10 < 10 ^ j" and "0 < j"
      by (simp_all add: less_mult_imp_div_less mult.commute) (cases j; simp)
    then show ?thesis using 1(1)[OF False, of j] False k by (subst dec.simps) simp
  qed (use 1(3) in \<open>subst dec.simps, simp\<close>)
qed

lemma length_dec_u64: "n \<le> u64_max \<Longrightarrow> length (dec n) \<le> 20"
  by (rule length_dec) simp_all

text \<open>The value of a run of digits: a decimal followed by anything but a digit is read back.\<close>

definition digits_value :: "byte list \<Rightarrow> nat" where
  "digits_value ds = foldl (\<lambda>v b. 10 * v + (unat b - 48)) 0 ds"

lemma unat_digit: "n < 10 \<Longrightarrow> unat (word_of_nat (48 + n) :: byte) = 48 + n"
  by (rule below_exhaust[of _ 10]) code_simp

lemma digits_value_dec: "digits_value (dec n) = n"
proof (induction n rule: dec.induct)
  case (1 n)
  then show ?case using unat_digit[of n] unat_digit[of "n mod 10"]
    by (subst dec.simps) (simp add: digits_value_def)
qed

lemma takeWhile_dec: "\<not> Digit c \<Longrightarrow> takeWhile Digit (dec n @ c # rest) = dec n"
  using Digit_dec[of n] by (subst takeWhile_append2) (auto simp: list_all_iff)

lemma dec_read: "dec n @ c # rest = dec m @ c' # rest' \<Longrightarrow> \<not> Digit c \<Longrightarrow> \<not> Digit c' \<Longrightarrow> n = m"
  by (metis digits_value_dec takeWhile_dec)

section \<open>The buffer\<close>

lemma Append_None [simp]: "Append capacity text None = None"
  by (simp add: Append_def)

lemma Append_Some:
  "Append capacity text (Some out) =
    (if length (out @ text) < json_capacity capacity then Some (out @ text) else None)"
  by (auto simp: Append_def)

lemma Append_fuse:
  "Append capacity v (Append capacity u j) = Append capacity (u @ v) j"
  by (cases j) (auto simp: Append_Some)

lemma fold_Append:
  "j = None \<or> length (the j) < json_capacity capacity \<Longrightarrow>
   fold (Append capacity) ts j = Append capacity (concat ts) j"
proof (induction ts arbitrary: j)
  case Nil
  then show ?case by (cases j) (auto simp: Append_Some)
next
  case (Cons t ts)
  have "Append capacity t j = None \<or> length (the (Append capacity t j)) < json_capacity capacity"
    by (cases j) (auto simp: Append_Some)
  then show ?case using Cons.IH by (simp add: Append_fuse)
qed

definition fields_text :: "fields \<Rightarrow> byte list" where
  "fields_text fs = concat (map (\<lambda>f. field (fst f) (snd f)) fs)"

lemma scalars_Append: "scalars capacity fs (Append capacity t j) = Append capacity (t @ fields_text fs) j"
proof -
  have g: "Append capacity t j = None \<or> length (the (Append capacity t j)) < json_capacity capacity"
    by (cases j) (auto simp: Append_Some)
  have "scalars capacity fs k = fold (Append capacity) (map (\<lambda>f. field (fst f) (snd f)) fs) k" for k
    unfolding scalars_def by (induction fs arbitrary: k) (simp_all add: scalar_def)
  then show ?thesis by (simp add: fold_Append[OF g] fields_text_def Append_fuse)
qed

definition durations_text :: "ReportDurationSummary list \<Rightarrow> byte list" where
  "durations_text ds = bytes_of '',\"durations\":['' @
     concat (map (\<lambda>i. duration_text i (ds ! i)) [0..<kStatusDurationClasses]) @ bytes_of '']''"

lemma durations_Append: "durations capacity ds (Append capacity t j) = Append capacity (t @ durations_text ds) j"
proof -
  let ?k = "Append capacity (t @ bytes_of '',\"durations\":['') j"
  have g: "?k = None \<or> length (the ?k) < json_capacity capacity"
    by (cases j) (auto simp: Append_Some)
  have "fold (\<lambda>i. Append capacity (duration_text i (ds ! i))) is k =
      fold (Append capacity) (map (\<lambda>i. duration_text i (ds ! i)) is) k" for "is" k
    by (induction "is" arbitrary: k) simp_all
  then show ?thesis unfolding durations_def durations_text_def
    by (simp only: Append_fuse fold_Append[OF g] append_assoc)
qed

section \<open>The text of a record\<close>

definition full_text :: "nat \<Rightarrow> nat list \<Rightarrow> byte list" where
  "full_text kind ws =
     (if kind = 1 then fields_text (state_fields (state_of_words ws))
      else if kind = 2 \<or> kind = 3 then fields_text (request_fields (request_of_words ws))
      else if kind = 4 \<or> kind = 5 \<or> kind = 6 then fields_text (builder_fields (builder_of_words ws))
      else if kind = 7 then fields_text (anchor_fields (anchor_of_words ws)) @ durations_text (an_durations (anchor_of_words ws))
      else if kind = 8 then fields_text (transport_fields (transport_summary_of_words ws))
      else if kind = 9 then fields_text (control_fields (control_of_words ws))
      else if kind = 10 then fields_text (recovery_fields (recovery_of_words ws))
      else [])"

lemma full_body_Append: "full_body capacity kind ws (Append capacity t j) = Append capacity (t @ full_text kind ws) j"
  by (simp add: full_body_def full_text_def scalars_Append durations_Append kind_defs)

definition body_text :: "NativeFormatContext \<Rightarrow> ReportRecord \<Rightarrow> bool \<Rightarrow> byte list" where
  "body_text c r detail =
     (let kind = rec_kind (rec_header r); compact = (\<not> detail \<and> compact_kind kind);
          full = full_text kind (rec_payload r) in
      header_text (rec_header r) @
      (if v3_diagnostics (fc_config c) = Diag_Operational
       then sfield ''detail'' (bytes_of (if compact then ''operational'' else ''full'')) @
         (if compact then fields_text (compact_fields kind (rec_payload r)) else full)
       else full) @ bytes_of ''}'')"

definition record_text :: "NativeFormatContext \<Rightarrow> nat \<Rightarrow> ReportRecord \<Rightarrow> bool \<Rightarrow> byte list" where
  "record_text c utc r detail =
     begin_text c (record_types ! rec_kind (rec_header r)) (rec_sequence (rec_header r)) (rec_qpc (rec_header r)) utc @
     body_text c r detail"

lemma Finish_Append:
  "list_all printable (t @ bytes_of ''}'') \<Longrightarrow>
   Finish capacity (Append capacity t (Some [])) =
    (if length (t @ bytes_of ''}'') < json_capacity capacity then Some (t @ bytes_of ''}'') else None)"
  by (auto simp: Finish_def Append_fuse Append_Some not_printable_iff list_ex_iff list_all_iff)

section \<open>Every piece is printable and short\<close>

lemma Digit_printable: "Digit b \<Longrightarrow> printable b"
  by (simp add: Digit_def printable_def word_le_nat_alt)

lemma printable_dec [simp]: "list_all printable (dec n)"
  using Digit_dec[of n] by (auto simp: list_all_iff intro: Digit_printable)

lemma hex_digit_printable: "n < 16 \<Longrightarrow> printable (hex_lower ! n)"
  by (rule below_exhaust[of _ 16]) code_simp

lemma Hex_hex_run: "Hex bs = hex_run bs"
  by (simp add: Hex_def hex_run_def)

lemma length_Hex [simp]: "length (Hex bs) = 2 * length bs"
  by (induction bs) (simp_all add: Hex_def)

lemma printable_Hex [simp]: "list_all printable (Hex bs)"
proof -
  have d: "unat (drop_bit 4 b) < 16" "unat (and b 15) < 16" for b :: byte
    using unat_lt2p_byte[of b] by (simp_all add: unat_drop_bit_word unat_and_15)
  show ?thesis by (auto simp: Hex_def list_all_iff intro!: hex_digit_printable d)
qed

definition printable_text :: "string \<Rightarrow> bool" where
  "printable_text s \<longleftrightarrow> list_all printable (bytes_of s)"

lemma printable_field: "printable_text name \<Longrightarrow> list_all printable (field name v)"
  by (simp add: field_def printable_text_def bytes_of_def printable_def)

lemma printable_sfield: "printable_text name \<Longrightarrow> list_all printable t \<Longrightarrow> list_all printable (sfield name t)"
  by (simp add: sfield_def printable_text_def bytes_of_def printable_def)

lemma length_field: "v \<le> u64_max \<Longrightarrow> length (field name v) \<le> length name + 24"
  using length_dec_u64[of v] by (simp add: field_def)

definition names_ok :: "string list \<Rightarrow> bool" where
  "names_ok ns \<longleftrightarrow> list_all (\<lambda>n. printable_text n \<and> length n \<le> 36) ns \<and> length ns \<le> 28"

definition values_ok :: "fields \<Rightarrow> bool" where
  "values_ok fs \<longleftrightarrow> list_all (\<lambda>f. snd f \<le> u64_max) fs"

lemma printable_fields: "names_ok (map fst fs) \<Longrightarrow> list_all printable (fields_text fs)"
  by (induction fs) (simp_all add: fields_text_def names_ok_def printable_field)

lemma length_fields:
  assumes "names_ok (map fst fs)" and "values_ok fs"
  shows "length (fields_text fs) \<le> 1680"
proof -
  have "list_all (\<lambda>f. length (fst f) \<le> 36 \<and> snd f \<le> u64_max) fs"
    using assms by (auto simp: names_ok_def values_ok_def list_all_iff)
  then have "length (fields_text fs) \<le> 60 * length fs"
  proof (induction fs)
    case (Cons f fs)
    then show ?case using length_field[of "snd f" "fst f"] by (simp add: fields_text_def)
  qed (simp add: fields_text_def)
  also have "\<dots> \<le> 1680" using assms(1) by (simp add: names_ok_def)
  finally show ?thesis .
qed

lemma field_names_ok:
  "names_ok (map fst (state_fields s))" "names_ok (map fst (request_fields q))"
  "names_ok (map fst (builder_fields b))" "names_ok (map fst (anchor_fields a))"
  "names_ok (map fst (transport_fields t))" "names_ok (map fst (control_fields k))"
  "names_ok (map fst (recovery_fields v))" "names_ok (map fst (compact_fields kind ws))"
  by (simp_all add: state_fields_def request_fields_def builder_fields_def anchor_fields_def
    transport_fields_def control_fields_def recovery_fields_def compact_fields_def Let_def names_ok_def
    printable_text_def bytes_of_def printable_def)

text \<open>The widths of a record: its words and header fields are 64-bit.\<close>

definition record_fits :: "ReportRecord \<Rightarrow> bool" where
  "record_fits r \<longleftrightarrow> (\<forall>i < 26. rec_payload r ! i \<le> u64_max) \<and>
     list_all (\<lambda>f. f (rec_header r) \<le> u64_max)
       [rec_sequence, rec_qpc, rec_sourceEpoch, rec_bindingEpoch, rec_kind, rec_reason, rec_flags, rec_threadId]"

lemma part_bounds: "lo32 w \<le> u64_max" "w \<le> u64_max \<Longrightarrow> hi32 w \<le> u64_max"
  by (simp_all add: lo32_def hi32_def)

lemma field_values_ok:
  assumes "\<forall>i < 26. ws ! i \<le> u64_max"
  shows "values_ok (state_fields (state_of_words ws))" "values_ok (request_fields (request_of_words ws))"
    "values_ok (builder_fields (builder_of_words ws))" "values_ok (anchor_fields (anchor_of_words ws))"
    "values_ok (transport_fields (transport_summary_of_words ws))" "values_ok (control_fields (control_of_words ws))"
    "values_ok (recovery_fields (recovery_of_words ws))" "values_ok (compact_fields kind ws)"
  using assms
  by (simp_all add: state_fields_def request_fields_def builder_fields_def anchor_fields_def
    transport_fields_def control_fields_def recovery_fields_def compact_fields_def Let_def values_ok_def
    state_of_words_def request_of_words_def builder_of_words_def anchor_of_words_def
    transport_summary_of_words_def control_of_words_def recovery_of_words_def part_bounds)

definition type_ok :: "string \<Rightarrow> bool" where
  "type_ok s \<longleftrightarrow> list_all type_char (bytes_of s) \<and> bytes_of s \<noteq> [] \<and> length s \<le> 18 \<and> printable_text s"

lemma types_ok: "list_all (\<lambda>i. i = 0 \<or> type_ok (record_types ! i)) [0..<11]"
  by code_simp

lemma record_types_ok:
  assumes "1 \<le> kind" and "kind < 11"
  shows "list_all type_char (bytes_of (record_types ! kind))" "bytes_of (record_types ! kind) \<noteq> []"
    "length (record_types ! kind) \<le> 18" "printable_text (record_types ! kind)"
  using below_exhaust[OF types_ok assms(2)] assms(1) by (simp_all add: type_ok_def)

lemma begin_text_envelope:
  "begin_text c ty sequence qpc utc = run_envelope (bytes_of ty) (sh_runId (fc_header c)) @
     bytes_of '',\"pid\":'' @ dec (sh_pid (fc_header c)) @ bytes_of '',\"sequence\":'' @ dec sequence @
     bytes_of '',\"qpc\":'' @ dec qpc @ bytes_of '',\"utc_derived_filetime\":'' @ dec utc"
  by (simp add: begin_text_def run_envelope_def run_lead_def run_key_def Hex_hex_run bytes_of_def)

lemma printable_begin: "printable_text ty \<Longrightarrow> list_all printable (begin_text c ty sequence qpc utc)"
  using printable_kMarker by (simp add: begin_text_def printable_text_def bytes_of_def printable_def)

lemma printable_duration: "list_all printable (duration_text i d)"
  by (simp add: duration_text_def printable_field printable_text_def bytes_of_def printable_def)

lemma printable_durations: "list_all printable (durations_text ds)"
proof -
  have "list_all printable (concat (map (\<lambda>i. duration_text i (ds ! i)) is))" for "is"
    by (induction "is") (simp_all add: printable_duration)
  then show ?thesis by (simp add: durations_text_def bytes_of_def printable_def)
qed

lemma printable_header: "list_all printable (header_text h)"
  by (simp add: header_text_def printable_field printable_text_def bytes_of_def printable_def)

lemma printable_full: "list_all printable (full_text kind ws)"
  by (simp add: full_text_def printable_fields field_names_ok printable_durations)

lemma printable_body: "list_all printable (body_text c r detail)"
  by (simp add: body_text_def Let_def printable_header printable_full printable_fields field_names_ok
    printable_sfield printable_text_def bytes_of_def printable_def)

lemma printable_record:
  assumes "\<not> record_refused r"
  shows "list_all printable (record_text c utc r detail)"
  using assms printable_begin[OF record_types_ok(4)]
  by (simp add: record_text_def printable_body record_refused_def KindCount_def not_less)

text \<open>The formatter against the text: it succeeds exactly when the text and its terminator fit.\<close>

lemma FormatNativeRecord_eq:
  "FormatNativeRecord c r True capacity detail =
    (if record_refused r \<or> \<not> ContextValid c then None
     else case DeriveUtcFiletime (fc_log c) (sh_qpcFrequency (fc_header c)) (rec_qpc (rec_header r)) of
       None \<Rightarrow> None
     | Some utc \<Rightarrow> if length (record_text c utc r detail) < json_capacity capacity
         then Some (record_text c utc r detail) else None)"
proof (cases "capacity = 0 \<or> record_refused r \<or> \<not> ContextValid c")
  case True
  then show ?thesis by (auto simp: FormatNativeRecord_def Begin_def json_capacity_def split: option.split)
next
  case False
  show ?thesis
  proof (cases "DeriveUtcFiletime (fc_log c) (sh_qpcFrequency (fc_header c)) (rec_qpc (rec_header r))")
    case None
    with False show ?thesis by (simp add: FormatNativeRecord_def Begin_def Let_def)
  next
    case (Some utc)
    let ?k = "rec_kind (rec_header r)" and ?ws = "rec_payload r"
    let ?b = "begin_text c (record_types ! ?k) (rec_sequence (rec_header r)) (rec_qpc (rec_header r)) utc"
    have opened: "json_open capacity = Some []" using False by (simp add: json_open_def json_capacity_def)
    obtain t where t: "record_text c utc r detail = t @ bytes_of ''}''"
      and go: "FormatNativeRecord c r True capacity detail = Finish capacity (Append capacity t (Some []))"
    proof (cases "v3_diagnostics (fc_config c) = Diag_Operational")
      case True
      show ?thesis
        by (rule that[of "?b @ header_text (rec_header r) @ sfield ''detail'' (bytes_of (if \<not> detail \<and> compact_kind ?k
              then ''operational'' else ''full'')) @ (if \<not> detail \<and> compact_kind ?k
              then fields_text (compact_fields ?k ?ws) else full_text ?k ?ws)"])
          (use False True Some in \<open>simp_all add: FormatNativeRecord_def Begin_def opened Append_fuse
             scalars_Append full_body_Append record_text_def body_text_def Let_def\<close>)
    next
      case op: False
      show ?thesis
        by (rule that[of "?b @ header_text (rec_header r) @ full_text ?k ?ws"])
          (use False op Some in \<open>simp_all add: FormatNativeRecord_def Begin_def opened Append_fuse
             full_body_Append record_text_def body_text_def Let_def\<close>)
    qed
    have "list_all printable (t @ bytes_of ''}'')" using printable_record[of r c utc detail] False t by simp
    then show ?thesis using False Some by (simp add: go Finish_Append t)
  qed
qed

section \<open>What the formatter guarantees\<close>

lemma derive_guards:
  assumes "DeriveUtcFiletime log frequency q \<noteq> None"
  shows "0 < frequency" "0 < q" "0 < li_utcFiletime log" "0 < li_calibrationQpcBefore log"
    "li_calibrationQpcBefore log \<le> li_calibrationQpcAfter log"
proof -
  have "\<not> (frequency = 0 \<or> q = 0 \<or> li_utcFiletime log = 0 \<or> li_calibrationQpcBefore log = 0 \<or>
      li_calibrationQpcAfter log < li_calibrationQpcBefore log)"
    using assms unfolding DeriveUtcFiletime_def by (metis (full_types))
  then show "0 < frequency" "0 < q" "0 < li_utcFiletime log" "0 < li_calibrationQpcBefore log"
    "li_calibrationQpcBefore log \<le> li_calibrationQpcAfter log" by auto
qed

lemma derive_bound:
  assumes "DeriveUtcFiletime log frequency q = Some utc" and "li_utcFiletime log \<le> u64_max"
  shows "utc \<le> u64_max"
proof -
  have "DeriveUtcFiletime log frequency q \<noteq> None" using assms(1) by simp
  from derive_utc_eq[OF derive_guards[OF this] assms(2)] assms show ?thesis
    by (auto simp: Let_def split: if_splits)
qed

lemma length_duration:
  assumes "i \<le> u64_max" and "sum_calls d \<le> u64_max" and "sum_elapsedTicks d \<le> u64_max"
    and "sum_maximumTicks d \<le> u64_max" and "sum_overFiveMilliseconds d \<le> u64_max"
  shows "length (duration_text i d) \<le> 181"
  using length_dec_u64[OF assms(1)] length_field[OF assms(2), of "''calls''"]
    length_field[OF assms(3), of "''elapsed_ticks''"] length_field[OF assms(4), of "''maximum_ticks''"]
    length_field[OF assms(5), of "''over_five_milliseconds''"]
  by (cases "i = 0") (simp_all add: duration_text_def)

lemma length_durations:
  assumes "\<forall>i < 26. ws ! i \<le> u64_max"
  shows "length (durations_text (an_durations (anchor_of_words ws))) \<le> 740"
proof -
  have "length (duration_text i (an_durations (anchor_of_words ws) ! i)) \<le> 181" if "i < 4" for i
    by (rule length_duration) (use that assms in \<open>simp_all add: anchor_of_words_def summary_at_def\<close>)
  from this[of 0] this[of 1] this[of 2] this[of 3] show ?thesis
    by (simp add: durations_text_def kStatusDurationClasses_def numeral_nat)
qed

lemma length_full:
  assumes "\<forall>i < 26. rec_payload r ! i \<le> u64_max"
  shows "length (full_text kind (rec_payload r)) \<le> 2420"
  using length_fields[OF field_names_ok(1) field_values_ok(1)[OF assms]]
    length_fields[OF field_names_ok(2) field_values_ok(2)[OF assms]]
    length_fields[OF field_names_ok(3) field_values_ok(3)[OF assms]]
    length_fields[OF field_names_ok(4) field_values_ok(4)[OF assms]] length_durations[OF assms]
    length_fields[OF field_names_ok(5) field_values_ok(5)[OF assms]]
    length_fields[OF field_names_ok(6) field_values_ok(6)[OF assms]]
    length_fields[OF field_names_ok(7) field_values_ok(7)[OF assms]]
  by (simp add: full_text_def)

lemma length_header:
  assumes "record_fits r"
  shows "length (header_text (rec_header r)) \<le> 200"
  using assms length_field[of "rec_sourceEpoch (rec_header r)" "''source_epoch''"]
    length_field[of "rec_bindingEpoch (rec_header r)" "''binding_epoch''"]
    length_field[of "rec_kind (rec_header r)" "''kind''"] length_field[of "rec_reason (rec_header r)" "''reason''"]
    length_field[of "rec_flags (rec_header r)" "''flags''"]
    length_field[of "rec_threadId (rec_header r)" "''thread_id''"]
  by (simp add: header_text_def record_fits_def)

lemma length_body:
  assumes "record_fits r"
  shows "length (body_text c r detail) \<le> 2650"
proof -
  have w: "\<forall>i < 26. rec_payload r ! i \<le> u64_max" using assms by (simp add: record_fits_def)
  note full = length_full[OF w, of "rec_kind (rec_header r)"]
  note compact = length_fields[OF field_names_ok(8) field_values_ok(8)[OF w], of "rec_kind (rec_header r)"]
  have s: "length (sfield ''detail'' (bytes_of (if b then ''operational'' else ''full''))) \<le> 23" for b
    by (simp add: sfield_def)
  show ?thesis using length_header[OF assms] full compact s[of True] s[of False]
    by (auto simp: body_text_def Let_def)
qed

lemma length_begin:
  assumes "length (sh_runId (fc_header c)) = 16" and "sh_pid (fc_header c) \<le> u64_max"
    and "sequence \<le> u64_max" and "qpc \<le> u64_max" and "utc \<le> u64_max" and "length ty \<le> 18"
  shows "length (begin_text c ty sequence qpc utc) \<le> 260"
  using assms(1,6) length_dec_u64[OF assms(2)] length_dec_u64[OF assms(3)] length_dec_u64[OF assms(4)]
    length_dec_u64[OF assms(5)]
  by (simp add: begin_text_def)

lemma record_fits_text:
  assumes "ContextValid c" and "length (sh_runId (fc_header c)) = 16" and "sh_pid (fc_header c) \<le> u64_max"
    and "li_utcFiletime (fc_log c) \<le> u64_max" and "record_fits r" and "4096 \<le> capacity"
  shows "FormatNativeRecord c r True capacity detail \<noteq> None \<longleftrightarrow>
    \<not> record_refused r \<and>
    DeriveUtcFiletime (fc_log c) (sh_qpcFrequency (fc_header c)) (rec_qpc (rec_header r)) \<noteq> None"
proof (cases "record_refused r")
  case False
  then have "length (record_types ! rec_kind (rec_header r)) \<le> 18"
    using record_types_ok(3) by (simp add: record_refused_def KindCount_def)
  moreover have "rec_sequence (rec_header r) \<le> u64_max" "rec_qpc (rec_header r) \<le> u64_max"
    using assms(5) by (simp_all add: record_fits_def)
  ultimately have "length (record_text c utc r detail) < json_capacity capacity"
    if "utc \<le> u64_max" for utc
    using length_begin[OF assms(2,3) _ _ that] length_body[OF assms(5), of c detail] assms(6)
    by (fastforce simp: record_text_def json_capacity_def kMessageLimit_def)
  then show ?thesis using False assms(1,4) by (auto simp: FormatNativeRecord_eq dest: derive_bound split: option.split)
qed (simp add: FormatNativeRecord_eq)

text \<open>
  C29: Room is never the reason a record is refused.  With a buffer of 4096 bytes the formatter
  accepts every record of a known kind with a sequence and, if a recovery record, a valid
  payload, as soon as the context is valid, the values of both fit their widths and the
  record's time can be derived; with the
  buffer of 8193 bytes the pipeline hands to it, a formatted record is never lost to its size.
\<close>

theorem record_always_fits:
  assumes "ContextValid c" and "length (sh_runId (fc_header c)) = 16" and "sh_pid (fc_header c) \<le> u64_max"
    and "li_utcFiletime (fc_log c) \<le> u64_max" and "record_fits r" and "4096 \<le> capacity"
  shows "FormatNativeRecord c r True capacity detail \<noteq> None \<longleftrightarrow>
    \<not> record_refused r \<and>
    DeriveUtcFiletime (fc_log c) (sh_qpcFrequency (fc_header c)) (rec_qpc (rec_header r)) \<noteq> None"
  by (rule record_fits_text[OF assms])

lemma formatted_text:
  assumes "FormatNativeRecord c r given capacity detail = Some t"
  shows "\<exists>utc. t = record_text c utc r detail \<and> \<not> record_refused r \<and> length t \<le> kMessageLimit \<and> length t < capacity"
proof -
  have "given" using assms by (auto simp: FormatNativeRecord_def split: if_splits)
  with assms show ?thesis
    by (auto simp: FormatNativeRecord_eq json_capacity_def split: if_splits option.splits)
qed

text \<open>The text begins with the envelope of the run, and the sequence can be read back from it.\<close>

definition sequence_key :: "byte list" where "sequence_key = bytes_of '',\"sequence\":''"

lemma record_text_envelope:
  "\<exists>rest. record_text c utc r detail =
     run_envelope (bytes_of (record_types ! rec_kind (rec_header r))) (sh_runId (fc_header c)) @
     bytes_of '',\"pid\":'' @ dec (sh_pid (fc_header c)) @ sequence_key @
     dec (rec_sequence (rec_header r)) @ 0x2C # rest"
  by (simp add: record_text_def begin_text_envelope sequence_key_def bytes_of_def)

lemma formatted_event:
  assumes "FormatNativeRecord c r given capacity detail = Some t"
  shows "event_text t \<and> length t < capacity \<and> BelongsToRun t (sh_runId (fc_header c)) \<and>
    PrepareMessage t (length t + 1) \<noteq> None"
proof -
  from formatted_text[OF assms] obtain utc where t: "t = record_text c utc r detail"
    and ok: "\<not> record_refused r" and len: "length t \<le> kMessageLimit" "length t < capacity" by blast
  let ?k = "rec_kind (rec_header r)"
  have k: "1 \<le> ?k" "?k < 11" using ok by (auto simp: record_refused_def KindCount_def)
  from record_text_envelope obtain rest where
    e: "t = run_envelope (bytes_of (record_types ! ?k)) (sh_runId (fc_header c)) @ rest" unfolding t by blast
  have "event_text t"
    using printable_record[OF ok, of c utc detail] len(1) e unfolding event_text_def t[symmetric]
    by (simp add: run_envelope_def)
  moreover have "BelongsToRun t (sh_runId (fc_header c))"
    unfolding BelongsToRun_iff using e record_types_ok(1,2)[OF k] record_types_ok(3)[OF k]
    by (intro exI[of _ "bytes_of (record_types ! ?k)"] exI[of _ rest]) simp
  ultimately show ?thesis using len(2) by (auto simp: PrepareMessage_iff)
qed

text \<open>
  C38: A formatted record is an event of its run.  Whatever the formatter returns is a marked,
  printable message of at most 8192 bytes that fits the buffer with its terminator, belongs to
  the run of the context, and is accepted for the native call with room for its units.
\<close>

theorem formatted_record_is_event:
  assumes "FormatNativeRecord c r given capacity detail = Some t"
  shows "event_text t \<and> length t < capacity \<and> BelongsToRun t (sh_runId (fc_header c)) \<and>
    PrepareMessage t (length t + 1) \<noteq> None"
  by (rule formatted_event[OF assms])

text \<open>
  C28: A formatted text names its record.  In one context, two records formatted as the same
  text, whatever their buffers and levels of detail, have the same sequence and kind: no two
  records of a run share a line of the log, so a receipt identifies what was received.
\<close>

theorem formatted_text_names_record:
  assumes "FormatNativeRecord c r given capacity detail = Some t"
    and "FormatNativeRecord c r' given' capacity' detail' = Some t"
  shows "rec_sequence (rec_header r) = rec_sequence (rec_header r') \<and>
    rec_kind (rec_header r) = rec_kind (rec_header r')"
proof -
  let ?k = "rec_kind (rec_header r)" and ?k' = "rec_kind (rec_header r')"
  let ?ty = "bytes_of (record_types ! ?k)" and ?ty' = "bytes_of (record_types ! ?k')"
  from formatted_text[OF assms(1)] obtain utc where t: "t = record_text c utc r detail"
    and ok: "\<not> record_refused r" by blast
  from formatted_text[OF assms(2)] obtain utc' where t': "t = record_text c utc' r' detail'"
    and ok': "\<not> record_refused r'" by blast
  have k: "1 \<le> ?k" "?k < 11" "1 \<le> ?k'" "?k' < 11"
    using ok ok' by (auto simp: record_refused_def KindCount_def)
  obtain rest rest' where e: "record_text c utc r detail = run_envelope ?ty (sh_runId (fc_header c)) @
      bytes_of '',\"pid\":'' @ dec (sh_pid (fc_header c)) @ sequence_key @ dec (rec_sequence (rec_header r)) @ 0x2C # rest"
    and e': "record_text c utc' r' detail' = run_envelope ?ty' (sh_runId (fc_header c)) @
      bytes_of '',\"pid\":'' @ dec (sh_pid (fc_header c)) @ sequence_key @ dec (rec_sequence (rec_header r')) @ 0x2C # rest'"
    using record_text_envelope by metis
  from e e' t t' have eq: "?ty @ run_key @ hex_run (sh_runId (fc_header c)) @ 0x22 # bytes_of '',\"pid\":'' @
      dec (sh_pid (fc_header c)) @ sequence_key @ dec (rec_sequence (rec_header r)) @ 0x2C # rest =
      ?ty' @ run_key @ hex_run (sh_runId (fc_header c)) @ 0x22 # bytes_of '',\"pid\":'' @
      dec (sh_pid (fc_header c)) @ sequence_key @ dec (rec_sequence (rec_header r')) @ 0x2C # rest'"
    by (simp add: run_envelope_def)
  have short: "length ?ty \<le> 32" "length ?ty' \<le> 32"
    using record_types_ok(3)[OF k(1,2)] record_types_ok(3)[OF k(3,4)] by simp_all
  have ty: "?ty = ?ty'"
    using takeWhile_type[OF record_types_ok(1)[OF k(1,2)] short(1)]
      takeWhile_type[OF record_types_ok(1)[OF k(3,4)] short(2)] eq by metis
  have "distinct record_types" by code_simp
  moreover have "length record_types = 11" by code_simp
  moreover have "record_types ! ?k = record_types ! ?k'" using ty by (simp only: bytes_of_eq_iff)
  ultimately have "?k = ?k'" using k by (simp add: nth_eq_iff_index_eq)
  moreover from eq ty have "dec (rec_sequence (rec_header r)) @ 0x2C # rest = dec (rec_sequence (rec_header r')) @ 0x2C # rest'"
    by simp
  then have "rec_sequence (rec_header r) = rec_sequence (rec_header r')"
    by (rule dec_read) (simp_all add: Digit_def)
  ultimately show ?thesis by simp
qed

section \<open>A concrete run\<close>

definition sample_context :: NativeFormatContext where
  "sample_context =
     \<lparr>fc_header = \<lparr>sh_magic = kStatusMagic, sh_schema = 3, sh_bytes = sizeof_StatusWireV3,
        sh_artifactVersion = kReportingArtifactVersionV3, sh_configuredMode = 3, sh_pid = 4242,
        sh_validity = CompleteHeaderIdentity, sh_processCreation = 7, sh_qpcFrequency = 10000000,
        sh_runId = map word_of_nat [1..<17], sh_hostDigest = replicate 32 0, sh_reserved = replicate 4 0\<rparr>,
      fc_log = \<lparr>li_volumeSerial = 9, li_fileId = replicate 16 2, li_initialEOF = 0, li_pathChars = 2,
        li_prefixMode = 0, li_transportKind = 1, li_durability = 0, li_utcFiletime = 133000000000000000,
        li_calibrationQpcBefore = 1000, li_calibrationQpcAfter = 1004, li_initialAtLineBoundary = 1,
        li_path = [67, 58] @ replicate 1022 0\<rparr>,
      fc_config = \<lparr>v3_mode = Mode_Repair, v3_diagnostics = Diag_Detailed\<rparr>,
      fc_identities = \<lparr>id_hostDigest = replicate 32 0, id_steamApiDigest = replicate 32 1,
        id_steamClientDigest = replicate 32 2, id_steamClientImageSize = 1, id_steamClientTimestamp = 2,
        id_steamClientChecksum = 3\<rparr>,
      fc_startup = \<lparr>ns_buildIdentity = 1, ns_reconMode = 1, ns_reconOutcome = 1, ns_reconReason = 0,
        ns_reconQualified = 1, ns_initializeResult = 1, ns_markerComplete = 1, ns_markerError = 0,
        ns_startupAccepted = 1\<rparr>\<rparr>"

definition sample_control :: "nat \<Rightarrow> ReportRecord" where
  "sample_control n = \<lparr>rec_header = \<lparr>rec_sequence = n, rec_qpc = 2002 + n, rec_sourceEpoch = 1, rec_bindingEpoch = 1,
     rec_kind = 9, rec_reason = 0, rec_flags = 0, rec_threadId = 77\<rparr>, rec_payload = replicate 26 n\<rparr>"

lemma sample_context_ok:
  "ContextValid sample_context" "length (sh_runId (fc_header sample_context)) = 16"
  "sh_pid (fc_header sample_context) \<le> u64_max" "li_utcFiletime (fc_log sample_context) \<le> u64_max"
  by (simp_all add: ContextValid_def sample_context_def Mode_value_def Diagnostics_value_def Let_def
    kStatusSchemaV3_def)

lemma sample_derives:
  "DeriveUtcFiletime (fc_log sample_context) (sh_qpcFrequency (fc_header sample_context)) (2002 + n) =
    (if 133000000000000000 + utc_ticks (1000 + n) 10000000 \<le> u64_max
     then Some (133000000000000000 + utc_ticks (1000 + n) 10000000) else None)"
  by (subst derive_utc_eq) (simp_all add: sample_context_def calibration_midpoint_def Let_def)

lemma sample_control_ok: "0 < n \<Longrightarrow> n \<le> 1000 \<Longrightarrow> record_fits (sample_control n) \<and> \<not> record_refused (sample_control n)"
  by (simp add: record_fits_def record_refused_def sample_control_def KindCount_def kind_defs)

lemma derive_utc_exact_witness:
  "DeriveUtcFiletime (fc_log sample_context) 10000000 902 = Some 132999999999999900"
  using derive_utc_exact[of 10000000 902 "fc_log sample_context"]
  by (simp add: sample_context_def calibration_midpoint_def utc_ticks_def perSecond_def)

lemma record_always_fits_witness:
  "FormatNativeRecord sample_context (sample_control 5) True 4096 True \<noteq> None"
  using record_always_fits[OF sample_context_ok conjunct1[OF sample_control_ok[of 5]], of 4096 True]
    sample_control_ok[of 5] sample_derives[of 5]
  by (simp add: sample_control_def utc_ticks_def perSecond_def)

text \<open>The sample record has a text in every buffer of 4096 bytes.\<close>

definition sample_text :: "nat \<Rightarrow> byte list" where
  "sample_text n = the (FormatNativeRecord sample_context (sample_control n) True 8193 False)"

lemma sample_formats:
  assumes "0 < n" and "n \<le> 1000"
  shows "FormatNativeRecord sample_context (sample_control n) True 8193 False = Some (sample_text n)"
proof -
  note ok = conjunct1[OF sample_control_ok[OF assms]] conjunct2[OF sample_control_ok[OF assms]]
  have "DeriveUtcFiletime (fc_log sample_context) (sh_qpcFrequency (fc_header sample_context))
      (rec_qpc (rec_header (sample_control n))) \<noteq> None"
    using sample_derives[of n] assms by (simp add: sample_control_def utc_ticks_def perSecond_def)
  then show ?thesis
    using record_fits_text[OF sample_context_ok ok(1), of 8193 False] ok(2) by (auto simp: sample_text_def)
qed

lemma formatted_record_is_event_witness: "event_text (sample_text 5)"
  using formatted_record_is_event[OF sample_formats[of 5]] by simp

lemma formatted_text_names_record_witness: "sample_text 5 \<noteq> sample_text 6"
  using formatted_text_names_record[OF sample_formats[of 5], of "sample_control 6" True 8193 False]
    sample_formats[of 6] by (auto simp: sample_control_def)

section \<open>The bootstrap\<close>

lemma Path_Append:
  "Path capacity log (Append capacity t j) =
    (if length (units_of_path log) \<le> 1023 then Append capacity (t @ json_quote (units_of_path log)) j else None)"
  by (cases j) (auto simp: Path_def Append_Some EscapeJsonUtf16_eq)

definition midpoint_of :: "LogIdentity \<Rightarrow> nat" where
  "midpoint_of log = li_calibrationQpcBefore log + (li_calibrationQpcAfter log - li_calibrationQpcBefore log) div 2"

definition boot_text :: "NativeFormatContext \<Rightarrow> nat \<Rightarrow> byte list" where
  "boot_text c utc =
     begin_text c ''startup'' 0 (midpoint_of (fc_log c)) utc @ bootstrap_text c @
     json_quote (units_of_path (fc_log c)) @
     (if v3_diagnostics (fc_config c) = Diag_Operational then operational_text else []) @
     startup_text (fc_startup c) @ bytes_of ''}''"

lemma printable_names: "printable_text (ModeName m)" "printable_text (DiagnosticsName d)"
  by (cases m; simp add: printable_text_def bytes_of_def printable_def)
    (cases d; simp add: printable_text_def bytes_of_def printable_def)


lemma printable_bootstrap: "list_all printable (bootstrap_text c)"
  using printable_names
  by (simp add: bootstrap_text_def Let_def printable_field printable_sfield printable_text_def bytes_of_def printable_def)

lemma printable_startup: "list_all printable (startup_text s)" "list_all printable operational_text"
  by (simp_all add: startup_text_def operational_text_def printable_field printable_text_def bytes_of_def printable_def)

lemma printable_boot: "list_all printable (boot_text c utc)"
  by (simp add: boot_text_def printable_begin printable_bootstrap printable_json_quote printable_startup
    printable_text_def bytes_of_def printable_def)

lemma FormatNativeBootstrap_eq:
  assumes "ContextValid c" and "DeriveUtcFiletime (fc_log c) (sh_qpcFrequency (fc_header c)) (midpoint_of (fc_log c)) = Some utc"
  shows "FormatNativeBootstrap c True capacity =
    (if length (boot_text c utc) < json_capacity capacity then Some (boot_text c utc) else None)"
proof (cases "capacity = 0")
  case False
  let ?b = "begin_text c ''startup'' 0 (midpoint_of (fc_log c)) utc" and ?l = "fc_log c"
  have order: "\<not> li_calibrationQpcAfter ?l < li_calibrationQpcBefore ?l"
    using derive_guards(5)[of ?l "sh_qpcFrequency (fc_header c)" "midpoint_of ?l"] assms(2) by simp
  have path: "length (units_of_path ?l) \<le> 1023"
    using assms(1) by (auto simp: ContextValid_def Let_def units_of_path_def)
  let ?t = "?b @ bootstrap_text c @ json_quote (units_of_path ?l) @
    (if v3_diagnostics (fc_config c) = Diag_Operational then operational_text else []) @ startup_text (fc_startup c)"
  have "FormatNativeBootstrap c True capacity = Finish capacity (Append capacity ?t (Some []))"
    using False assms order path
    by (simp add: FormatNativeBootstrap_def Begin_def Let_def json_open_def json_capacity_def midpoint_of_def
      Append_fuse Path_Append)
  moreover have "list_all printable (?t @ bytes_of ''}'')" using printable_boot[of c utc] by (simp add: boot_text_def)
  ultimately show ?thesis by (simp add: Finish_Append boot_text_def)
qed (simp add: FormatNativeBootstrap_def json_capacity_def)

text \<open>Whatever the bootstrap formatter returns is an event too.\<close>

lemma bootstrap_is_text:
  assumes "FormatNativeBootstrap c given capacity = Some t"
  shows "\<exists>utc. t = boot_text c utc \<and> length t < json_capacity capacity"
proof -
  have ok: "given" "ContextValid c" "DeriveUtcFiletime (fc_log c) (sh_qpcFrequency (fc_header c)) (midpoint_of (fc_log c)) \<noteq> None"
    using assms by (auto simp: FormatNativeBootstrap_def Begin_def Let_def midpoint_of_def split: if_splits option.splits)
  then obtain utc where u: "DeriveUtcFiletime (fc_log c) (sh_qpcFrequency (fc_header c)) (midpoint_of (fc_log c)) = Some utc"
    by auto
  show ?thesis using assms ok(1) by (auto simp: FormatNativeBootstrap_eq[OF ok(2) u] split: if_splits)
qed

lemma bootstrap_event:
  assumes "FormatNativeBootstrap c given capacity = Some t"
  shows "event_text t"
  using bootstrap_is_text[OF assms] printable_boot
  by (auto simp: event_text_def boot_text_def begin_text_def json_capacity_def)

lemma startup_length: "length ''startup'' \<le> 32"
  by simp

lemma bootstrap_of_run:
  assumes "FormatNativeBootstrap c given capacity = Some t"
  shows "BelongsToRun t (sh_runId (fc_header c))"
proof -
  obtain utc where t: "t = boot_text c utc" using bootstrap_is_text[OF assms] by blast
  have "list_all type_char (bytes_of ''startup'')" by code_simp
  moreover have "\<exists>rest. t = run_envelope (bytes_of ''startup'') (sh_runId (fc_header c)) @ rest"
    by (simp add: t boot_text_def begin_text_envelope)
  moreover have "bytes_of ''startup'' \<noteq> []" by (simp add: bytes_of_def)
  ultimately show ?thesis unfolding BelongsToRun_iff by (metis length_bytes_of startup_length)
qed

text \<open>The bootstrap of the sample context fits.\<close>

lemma sample_midpoint: "midpoint_of (fc_log sample_context) = 1002"
  by (simp add: midpoint_of_def sample_context_def)

lemma sample_bootstrap: "FormatNativeBootstrap sample_context True (kMessageLimit + 1) \<noteq> None"
proof -
  have d: "DeriveUtcFiletime (fc_log sample_context) (sh_qpcFrequency (fc_header sample_context))
      (midpoint_of (fc_log sample_context)) = Some 133000000000000000"
    unfolding sample_midpoint by (subst derive_utc_eq)
      (simp_all add: sample_context_def calibration_midpoint_def Let_def utc_ticks_def perSecond_def)
  have "length (boot_text sample_context 133000000000000000) < json_capacity (kMessageLimit + 1)"
    unfolding boot_text_def sample_midpoint
    by (simp add: sample_context_def begin_text_def bootstrap_text_def startup_text_def json_quote_def
      units_of_path_def escape_unit_def field_def sfield_def dec.simps Let_def json_capacity_def kMessageLimit_def
      kStatusSchemaV3_def kReportingArtifactVersionV3_def CompleteHeaderIdentity_def anchor_interval_def)
  then show ?thesis by (simp add: FormatNativeBootstrap_eq[OF sample_context_ok(1) d])
qed

end
