(* ===== verification/Pipeline.thy ===== *)
theory Pipeline
  imports FormatV3 Ring Receipts
begin

text \<open>
  The native pipeline (\<open>src/companion/steam_reporting_pipeline.cpp\<close>): the worker takes records
  from the ring into a ledger, formats them into ready slots for the owner, and accounts for
  the lines of the log that come back.  The lemmas show that the pipeline is a queue of texts:
  one line of the log for each record, submitted and observed in order.
\<close>

section \<open>State\<close>

definition kNativeLedgerCapacity :: nat where "kNativeLedgerCapacity = 256"
definition kNativeReadyCapacity :: nat where "kNativeReadyCapacity = 8"

datatype LedgerState = L_Empty | L_Reserved | L_Scalar | L_Ready | L_Matched

text \<open>The union of a record and a digest, tagged by the member that was stored last.\<close>

datatype LedgerBody = Body_Scalar ReportRecord | Body_Digest "byte list"

record NativeLedgerEntry =
  le_sequence :: nat
  le_preparedQpc :: nat
  le_messageBytes :: nat
  le_state :: LedgerState
  le_body :: LedgerBody

definition entry_zero :: NativeLedgerEntry where
  "entry_zero = \<lparr>le_sequence = 0, le_preparedQpc = 0, le_messageBytes = 0, le_state = L_Empty,
     le_body = Body_Scalar record_zero\<rparr>"

record NativeReadyFrame =
  rf_ticket :: nat
  rf_sequence :: nat
  rf_ledgerIndex :: nat
  rf_chars :: nat
  rf_message :: "16 word list"

text \<open>
  \<open>np_status\<close>, \<open>np_ring\<close>: the pointers are not null.  \<open>np_bootstrap\<close> is the first
  \<open>bootstrapBytes\<close> of the bootstrap buffer.  The digest callback is an argument of the
  operations; \<open>None\<close> is its \<open>false\<close>.
\<close>

record NativePipeline =
  np_status :: bool
  np_ring :: bool
  np_format :: NativeFormatContext
  np_readyWrite :: nat
  np_readyRead :: nat
  np_ledgerRead :: nat
  np_ledgerWrite :: nat
  np_nextFormat :: nat
  np_preparedSequence :: nat
  np_observedSequence :: nat
  np_startupObserved :: nat
  np_heldMatch :: nat
  np_initialized :: nat
  np_recoveryDetail :: bool
  np_terminalDetailSeen :: bool
  np_builderDetailActive :: bool
  np_builderDetail :: bool
  np_builderPostBoundary :: bool
  np_detailBoundaryPairs :: nat
  np_detailBuildSequence :: nat
  np_detailSourceEpoch :: nat
  np_detailBindingEpoch :: nat
  np_detailOverallDeadlineQpc :: nat
  np_bootstrap :: "byte list"
  np_ledger :: "NativeLedgerEntry list"
  np_ready :: "NativeReadyFrame list"

type_synonym hasher_fn = "byte list \<Rightarrow> byte list option"

definition Loss :: "NativePipeline \<Rightarrow> Reason \<Rightarrow> atomic list" where
  "Loss p why = (if np_status p then LoseStatusV3 why else [])"

definition QueueState :: "NativePipeline \<Rightarrow> (nat \<times> nat) option" where
  "QueueState p =
     (let write = np_readyWrite p; read = np_readyRead p in
      if read > write \<or> write - read > kNativeReadyCapacity then None else Some (write, read))"

definition LedgerValid :: "NativePipeline \<Rightarrow> bool" where
  "LedgerValid p \<longleftrightarrow> np_ledgerRead p \<le> np_nextFormat p \<and> np_nextFormat p \<le> np_ledgerWrite p \<and>
     np_ledgerWrite p - np_ledgerRead p \<le> kNativeLedgerCapacity"

definition ledger_slot :: "nat \<Rightarrow> nat" where "ledger_slot t = t mod kNativeLedgerCapacity"
definition ready_slot :: "nat \<Rightarrow> nat" where "ready_slot t = t mod kNativeReadyCapacity"

definition ledger_at :: "NativePipeline \<Rightarrow> nat \<Rightarrow> NativeLedgerEntry" where
  "ledger_at p t = np_ledger p ! ledger_slot t"

definition put_ledger :: "nat \<Rightarrow> NativeLedgerEntry \<Rightarrow> NativePipeline \<Rightarrow> NativePipeline" where
  "put_ledger t e p = p\<lparr>np_ledger := (np_ledger p)[ledger_slot t := e]\<rparr>"

section \<open>How much of a record is printed\<close>

definition recovery_detail_record :: "ReportRecoveryPayload \<Rightarrow> NativePipeline \<Rightarrow> NativePipeline" where
  "recovery_detail_record r p =
     (let p = (if rp_phase r = enum_value [RP_Disabled, RP_Armed, RP_Requested] RP_Requested
          then p\<lparr>np_recoveryDetail := True, np_terminalDetailSeen := False, np_detailBoundaryPairs := 0,
            np_detailOverallDeadlineQpc := rp_overallDeadlineQpc r, np_builderPostBoundary := False\<rparr>
          else p) in
      if np_recoveryDetail p \<and> has (rp_flags r) RecoveryTerminal then p\<lparr>np_terminalDetailSeen := True\<rparr> else p)"

definition builder_enter_detail :: "ReportRecord \<Rightarrow> NativePipeline \<Rightarrow> NativePipeline" where
  "builder_enter_detail r p =
     (let p = p\<lparr>np_builderDetailActive := True, np_builderDetail := np_recoveryDetail p\<rparr>;
          pastDeadline = (np_detailOverallDeadlineQpc p \<noteq> 0 \<and>
            rec_qpc (rec_header r) \<ge> np_detailOverallDeadlineQpc p) in
      p\<lparr>np_builderPostBoundary := np_recoveryDetail p \<and> (np_terminalDetailSeen p \<or> pastDeadline),
        np_detailBuildSequence := bu_buildSequence (builder_of_words (rec_payload r)),
        np_detailSourceEpoch := rec_sourceEpoch (rec_header r),
        np_detailBindingEpoch := rec_bindingEpoch (rec_header r)\<rparr>)"

text \<open>The pair counter is 32 bits wide and wraps.\<close>

definition builder_leave_detail :: "ReportRecord \<Rightarrow> NativePipeline \<Rightarrow> bool \<times> NativePipeline" where
  "builder_leave_detail r p =
     (let matching = (np_builderDetailActive p \<and>
            np_detailBuildSequence p = bu_buildSequence (builder_of_words (rec_payload r)) \<and>
            np_detailSourceEpoch p = rec_sourceEpoch (rec_header r) \<and>
            np_detailBindingEpoch p = rec_bindingEpoch (rec_header r));
          detail = (matching \<and> np_builderDetail p) in
      if \<not> matching then (detail, p)
      else
        let p = p\<lparr>np_builderDetailActive := False\<rparr> in
        if \<not> np_builderPostBoundary p then (detail, p)
        else
          let p = p\<lparr>np_detailBoundaryPairs := (np_detailBoundaryPairs p + 1) mod 2 ^ 32\<rparr> in
          (detail, if np_detailBoundaryPairs p \<ge> 4 then p\<lparr>np_recoveryDetail := False\<rparr> else p))"

definition RecoveryDetail :: "NativePipeline \<Rightarrow> ReportRecord \<Rightarrow> bool \<times> NativePipeline" where
  "RecoveryDetail p r =
     (let kind = rec_kind (rec_header r) in
      if v3_diagnostics (fc_config (np_format p)) \<noteq> Diag_Operational then (False, p)
      else if kind = RecordKindV3_value RK3_Recovery
        then (True, recovery_detail_record (recovery_of_words (rec_payload r)) p)
      else if kind = RecordKindV3_value RK3_BuilderEnter
        then (let p = builder_enter_detail r p in (np_builderDetail p, p))
      else if kind = RecordKindV3_value RK3_BuilderReturn \<or> kind = RecordKindV3_value RK3_BuilderUnwind
        then builder_leave_detail r p
      else (np_recoveryDetail p, p))"

section \<open>Initialization\<close>

text \<open>\<open>same_status\<close>: the status of the ring is the one given; \<open>hash_given\<close>: the digest callback is not null.\<close>

definition bootstrap_capacity :: nat where "bootstrap_capacity = kMessageLimit + 1"

definition InitializeNativePipeline ::
  "NativePipeline \<Rightarrow> bool \<Rightarrow> ReportRing \<Rightarrow> NativeFormatContext \<Rightarrow> bool \<Rightarrow> nat \<Rightarrow> TransportReason \<times> NativePipeline" where
  "InitializeNativePipeline p same_status ring context hash_given qpc =
     (if np_initialized p \<noteq> 0 \<or> qpc = 0 \<or> \<not> hash_given \<or> \<not> same_status \<or> ring_ready ring \<noteq> 1
      then (TR_ProfileUnsafe, p)
      else case PrepareNativeBootstrap context True bootstrap_capacity (kMessageLimit + 1) of
        (reason, None) \<Rightarrow> (reason, p\<lparr>np_bootstrap := []\<rparr>)
      | (reason, Some (ascii, wide)) \<Rightarrow>
          (TR_None, p\<lparr>np_status := True, np_ring := True, np_format := context, np_ledgerRead := 0,
            np_ledgerWrite := 1, np_nextFormat := 1, np_preparedSequence := 0, np_observedSequence := 0,
            np_startupObserved := 0, np_heldMatch := 0, np_bootstrap := ascii,
            np_ledger := (np_ledger p)[0 := entry_zero\<lparr>le_sequence := 0, le_preparedQpc := qpc,
              le_messageBytes := length ascii, le_state := L_Ready\<rparr>],
            np_ready := (np_ready p)[0 := \<lparr>rf_ticket = 1, rf_sequence = 0, rf_ledgerIndex = 0,
              rf_chars = length ascii, rf_message = wide\<rparr>],
            np_readyRead := 0, np_initialized := 1, np_readyWrite := 1\<rparr>))"

section \<open>Preparing frames\<close>

text \<open>One turn of the first loop.  \<open>Stop\<close> is its \<open>break\<close>, \<open>Lost\<close> the return through \<open>Loss\<close>.\<close>

datatype turn = Go | Stop | Lost Reason

definition drain_one :: "NativePipeline \<Rightarrow> ReportRing \<Rightarrow> turn \<times> NativePipeline \<times> ReportRing \<times> atomic list" where
  "drain_one p ring =
     (let w = np_ledgerWrite p; entry = ledger_at p w in
      if w = u64_max then (Lost R_CounterOverflow, p, ring, Loss p R_CounterOverflow)
      else if le_state entry \<noteq> L_Empty then (Lost R_RecordLoss, p, ring, Loss p R_RecordLoss)
      else
        let p = put_ledger w (entry\<lparr>le_state := L_Reserved\<rparr>) p in
        case Dequeue True (ring_reportWriteSequence ring) ring True of
          (RD_Empty, _, ring, ops) \<Rightarrow> (Stop, put_ledger w entry_zero p, ring, ops)
        | (RD_Record, r, ring, ops) \<Rightarrow>
            (Go, put_ledger w (entry\<lparr>le_state := L_Scalar, le_sequence := rec_sequence (rec_header r),
               le_body := Body_Scalar r\<rparr>) p\<lparr>np_ledgerWrite := w + 1\<rparr>, ring, ops)
        | (_, _, ring, ops) \<Rightarrow>
            (Lost R_RecordLoss, put_ledger w entry_zero p, ring, ops @ Loss p R_RecordLoss))"

fun drain :: "nat \<Rightarrow> NativePipeline \<Rightarrow> ReportRing \<Rightarrow> bool \<times> NativePipeline \<times> ReportRing \<times> atomic list" where
  "drain 0 p ring = (True, p, ring, [])"
| "drain (Suc n) p ring =
     (if np_ledgerWrite p - np_ledgerRead p \<ge> kNativeLedgerCapacity then (True, p, ring, [])
      else case drain_one p ring of
        (Stop, p, ring, ops) \<Rightarrow> (True, p, ring, ops)
      | (Lost why, p, ring, ops) \<Rightarrow> (False, p, ring, ops)
      | (Go, p, ring, ops) \<Rightarrow> (case drain n p ring of (ok, p, ring, ops') \<Rightarrow> (ok, p, ring, ops @ ops')))"

definition scalar_of :: "NativeLedgerEntry \<Rightarrow> ReportRecord" where
  "scalar_of e = (case le_body e of Body_Scalar r \<Rightarrow> r | Body_Digest d \<Rightarrow> record_zero)"

text \<open>One turn of the second loop, after its queue test.  \<open>scratch\<close> and the message hold 8193 units.\<close>

definition store_frame ::
  "nat \<Rightarrow> nat \<Rightarrow> byte list \<Rightarrow> byte list \<Rightarrow> 16 word list \<Rightarrow> NativePipeline \<Rightarrow> NativePipeline" where
  "store_frame write qpc text digest wide p =
     (let t = np_nextFormat p; entry = ledger_at p t in
      put_ledger t (entry\<lparr>le_body := Body_Digest digest, le_messageBytes := length text,
        le_preparedQpc := qpc, le_state := L_Ready\<rparr>)
      p\<lparr>np_ready := (np_ready p)[ready_slot write := \<lparr>rf_ticket = write + 1, rf_sequence = le_sequence entry,
          rf_ledgerIndex = ledger_slot t, rf_chars = length text, rf_message = wide\<rparr>],
        np_preparedSequence := le_sequence entry, np_nextFormat := t + 1, np_readyWrite := write + 1\<rparr>)"

definition format_one :: "hasher_fn \<Rightarrow> NativePipeline \<Rightarrow> nat \<Rightarrow> turn \<times> NativePipeline" where
  "format_one hash p qpc =
     (case QueueState p of
        None \<Rightarrow> (Lost R_RecordLoss, p)
      | Some (write, read) \<Rightarrow>
          if write - read = kNativeReadyCapacity then (Stop, p)
          else if write = u64_max then (Lost R_CounterOverflow, p)
          else
            let entry = ledger_at p (np_nextFormat p) in
            if le_state entry \<noteq> L_Scalar \<or> np_preparedSequence p = u64_max \<or>
               le_sequence entry \<noteq> np_preparedSequence p + 1 then (Lost R_RecordLoss, p)
            else case RecoveryDetail p (scalar_of entry) of (detail, p) \<Rightarrow>
              (case FormatNativeRecord (np_format p) (scalar_of entry) True (kMessageLimit + 1) detail of
                 None \<Rightarrow> (Lost R_RecordLoss, p)
               | Some text \<Rightarrow> (case hash text of
                   None \<Rightarrow> (Lost R_RecordLoss, p)
                 | Some digest \<Rightarrow> (case PrepareMessage text (kMessageLimit + 1) of
                     None \<Rightarrow> (Lost R_RecordLoss, p)
                   | Some wide \<Rightarrow> (Go, store_frame write qpc text digest wide p)))))"

text \<open>What the choice of detail leaves alone.\<close>

definition detail_keeps :: "NativePipeline \<Rightarrow> NativePipeline \<Rightarrow> bool" where
  "detail_keeps p q \<longleftrightarrow>
     np_format q = np_format p \<and> np_nextFormat q = np_nextFormat p \<and> np_ledgerWrite q = np_ledgerWrite p \<and>
     np_ledgerRead q = np_ledgerRead p \<and> np_ledger q = np_ledger p \<and> np_ready q = np_ready p \<and>
     np_readyRead q = np_readyRead p \<and> np_readyWrite q = np_readyWrite p \<and> np_status q = np_status p \<and>
     np_ring q = np_ring p \<and> np_initialized q = np_initialized p \<and> np_heldMatch q = np_heldMatch p \<and>
     np_preparedSequence q = np_preparedSequence p \<and> np_observedSequence q = np_observedSequence p \<and>
     np_startupObserved q = np_startupObserved p \<and> np_bootstrap q = np_bootstrap p"

lemma detail_keeps_parts:
  "detail_keeps p p" "detail_keeps p (recovery_detail_record v p)" "detail_keeps p (builder_enter_detail r p)"
  "detail_keeps p (snd (builder_leave_detail r p))"
  by (simp_all add: detail_keeps_def recovery_detail_record_def builder_enter_detail_def builder_leave_detail_def Let_def)

lemma RecoveryDetail_keeps: "detail_keeps p (snd (RecoveryDetail p r))"
  by (simp add: RecoveryDetail_def Let_def detail_keeps_parts)

lemma RecoveryDetail_frame:
  assumes "RecoveryDetail p r = (detail, q)"
  shows "np_format q = np_format p" "np_nextFormat q = np_nextFormat p" "np_ledgerWrite q = np_ledgerWrite p"
    "np_ledgerRead q = np_ledgerRead p" "np_ledger q = np_ledger p" "np_ready q = np_ready p"
    "np_readyRead q = np_readyRead p" "np_readyWrite q = np_readyWrite p" "np_status q = np_status p"
    "np_ring q = np_ring p" "np_initialized q = np_initialized p" "np_heldMatch q = np_heldMatch p"
    "np_preparedSequence q = np_preparedSequence p" "np_observedSequence q = np_observedSequence p"
    "np_startupObserved q = np_startupObserved p" "np_bootstrap q = np_bootstrap p"
  using RecoveryDetail_keeps[of p r] by (simp_all add: assms detail_keeps_def)

text \<open>What a turn that goes on has done.\<close>

lemma format_one_Go:
  assumes "format_one hash p qpc = (Go, q)"
  obtains wr rd detail p1 msg digest wide where
    "QueueState p = Some (wr, rd)" "wr - rd \<noteq> kNativeReadyCapacity" "wr \<noteq> u64_max"
    "le_state (ledger_at p (np_nextFormat p)) = L_Scalar"
    "le_sequence (ledger_at p (np_nextFormat p)) = np_preparedSequence p + 1"
    "RecoveryDetail p (scalar_of (ledger_at p (np_nextFormat p))) = (detail, p1)"
    "FormatNativeRecord (np_format p) (scalar_of (ledger_at p (np_nextFormat p))) True (kMessageLimit + 1) detail = Some msg"
    "hash msg = Some digest" "PrepareMessage msg (kMessageLimit + 1) = Some wide"
    "q = store_frame wr qpc msg digest wide p1"
proof -
  obtain wr rd where Q: "QueueState p = Some (wr, rd)"
    using assms by (auto simp: format_one_def split: option.splits)
  obtain detail p1 where D: "RecoveryDetail p (scalar_of (ledger_at p (np_nextFormat p))) = (detail, p1)" by fastforce
  let ?r = "scalar_of (ledger_at p (np_nextFormat p))"
  note un = format_one_def Q D Let_def RecoveryDetail_frame(1)[OF D]
  obtain msg where F: "FormatNativeRecord (np_format p) ?r True (kMessageLimit + 1) detail = Some msg"
    using assms by (auto simp: un split: if_splits option.splits)
  obtain digest where H: "hash msg = Some digest"
    using assms by (auto simp: un F[simplified] split: if_splits option.splits)
  obtain wide where W: "PrepareMessage msg (kMessageLimit + 1) = Some wide"
    using assms by (auto simp: un F[simplified] H split: if_splits option.splits)
  show thesis
    by (rule that[OF Q _ _ _ _ D F H W])
      (use assms in \<open>auto simp: un F[simplified] H W[simplified] split: if_splits\<close>)
qed

lemma format_one_next:
  assumes "format_one hash p qpc = (Go, q)"
  shows "np_nextFormat q = np_nextFormat p + 1 \<and> np_ledgerWrite q = np_ledgerWrite p"
proof -
  obtain detail p1 msg digest wide wr where D: "RecoveryDetail p (scalar_of (ledger_at p (np_nextFormat p))) = (detail, p1)"
    and q: "q = store_frame wr qpc msg digest wide p1"
    using assms by (rule format_one_Go)
  show ?thesis
    by (simp add: q store_frame_def put_ledger_def Let_def RecoveryDetail_frame(2,3)[OF D])
qed

function format_loop :: "hasher_fn \<Rightarrow> NativePipeline \<Rightarrow> nat \<Rightarrow> bool \<times> NativePipeline \<times> atomic list" where
  "format_loop hash p qpc =
     (if np_nextFormat p < np_ledgerWrite p then
        case format_one hash p qpc of
          (Go, q) \<Rightarrow> format_loop hash q qpc
        | (Stop, q) \<Rightarrow> (True, q, [])
        | (Lost why, q) \<Rightarrow> (False, q, Loss q why)
      else (True, p, []))"
  by pat_completeness auto
termination
  by (relation "measure (\<lambda>(hash, p, qpc). np_ledgerWrite p - np_nextFormat p)")
    (auto dest!: format_one_next[OF sym])

declare format_loop.simps [simp del]

definition PrepareNativeFrames ::
  "hasher_fn \<Rightarrow> NativePipeline \<Rightarrow> ReportRing \<Rightarrow> nat \<Rightarrow> bool \<times> NativePipeline \<times> ReportRing \<times> atomic list" where
  "PrepareNativeFrames hash p ring qpc =
     (if np_initialized p = 0 \<or> \<not> np_status p \<or> \<not> np_ring p \<or> qpc = 0 then (False, p, ring, [])
      else if \<not> LedgerValid p then (False, p, ring, Loss p R_RecordLoss)
      else case drain kReportBatchLimit p ring of
        (False, p, ring, ops) \<Rightarrow> (False, p, ring, ops)
      | (True, p, ring, ops) \<Rightarrow>
          (case format_loop hash p qpc of (ok, p, ops') \<Rightarrow> (ok, p, ring, ops @ ops')))"

section \<open>The owner's end\<close>

definition PeekNativeFrame :: "NativePipeline \<Rightarrow> NativeReadyFrame option \<times> atomic list" where
  "PeekNativeFrame p =
     (if np_initialized p = 0 \<or> \<not> np_status p then (None, [])
      else case QueueState p of
        None \<Rightarrow> (None, Loss p R_RecordLoss)
      | Some (write, read) \<Rightarrow>
          if write = read then (None, [])
          else
            let slot = np_ready p ! ready_slot read in
            if rf_ticket slot \<noteq> read + 1 \<or> rf_ledgerIndex slot \<ge> kNativeLedgerCapacity \<or>
               \<not> ValidMessage (rf_message slot) (rf_chars slot) then (None, Loss p R_RecordLoss)
            else (Some slot, []))"

definition ReleaseNativeFrame :: "NativePipeline \<Rightarrow> nat \<Rightarrow> bool \<times> NativePipeline \<times> atomic list" where
  "ReleaseNativeFrame p ticket =
     (case PeekNativeFrame p of
        (None, ops) \<Rightarrow> (False, p, ops @ Loss p R_RecordLoss)
      | (Some slot, ops) \<Rightarrow>
          if rf_ticket slot \<noteq> ticket then (False, p, ops @ Loss p R_RecordLoss)
          else (True, p\<lparr>np_readyRead := ticket\<rparr>, ops))"

section \<open>Receipts\<close>

definition entry_matches :: "NativePipeline \<Rightarrow> byte list \<Rightarrow> byte list \<Rightarrow> NativeLedgerEntry \<Rightarrow> bool" where
  "entry_matches p bytes digest entry \<longleftrightarrow>
     le_state entry = L_Ready \<and> le_messageBytes entry = length bytes \<and>
     (if le_sequence entry \<noteq> 0 then le_body entry = Body_Digest digest
      else length bytes = length (np_bootstrap p) \<and> bytes = np_bootstrap p)"

fun match_tickets :: "NativePipeline \<Rightarrow> byte list \<Rightarrow> byte list \<Rightarrow> nat list \<Rightarrow> ReceiptDisposition \<times> NativePipeline" where
  "match_tickets p bytes digest [] = (Disp_Corrupt, p)"
| "match_tickets p bytes digest (ticket # ts) =
     (if \<not> entry_matches p bytes digest (ledger_at p ticket) then match_tickets p bytes digest ts
      else if ticket \<noteq> np_ledgerRead p then (Disp_Gap, p)
      else (Disp_AwaitingSubmission,
        put_ledger ticket ((ledger_at p ticket)\<lparr>le_state := L_Matched\<rparr>) p\<lparr>np_heldMatch := 1\<rparr>))"

text \<open>The context of the callback is the pipeline; \<open>None\<close> bytes are a null pointer.\<close>

definition MatchNativeReceipt ::
  "hasher_fn \<Rightarrow> NativePipeline \<Rightarrow> byte list option \<Rightarrow> ReceiptDisposition \<times> NativePipeline \<times> atomic list" where
  "MatchNativeReceipt hash p bytes =
     (case bytes of
        None \<Rightarrow> (Disp_Corrupt, p, [])
      | Some bytes \<Rightarrow>
          if np_initialized p = 0 \<or> np_heldMatch p \<noteq> 0 \<or> \<not> LedgerValid p \<or> np_ledgerRead p = np_nextFormat p
          then (Disp_Corrupt, p, [])
          else case hash bytes of
            None \<Rightarrow> (Disp_Corrupt, p, Loss p R_RecordLoss)
          | Some digest \<Rightarrow>
              (case match_tickets p bytes digest [np_ledgerRead p..<np_nextFormat p] of
                 (d, p) \<Rightarrow> (d, p, [])))"

definition AcknowledgeNativeReceipt :: "NativePipeline \<Rightarrow> OwnerSnapshotV3 \<Rightarrow> bool \<times> NativePipeline \<times> atomic list" where
  "AcknowledgeNativeReceipt p owner =
     (if np_heldMatch p = 0 \<or> \<not> LedgerValid p \<or> os_sequence owner < 2 \<or> odd (os_sequence owner) then (False, p, [])
      else
        let t = np_ledgerRead p; entry = ledger_at p t;
            release = (\<lambda>p. (True, put_ledger t entry_zero p\<lparr>np_ledgerRead := t + 1, np_heldMatch := 0\<rparr>, [])) in
        if le_state entry \<noteq> L_Matched then (False, p, Loss p R_RecordLoss)
        else if le_sequence entry = 0 then
          if ot_startupSubmitted (os_transport owner) = 0 then (False, p, [])
          else release (p\<lparr>np_startupObserved := 1\<rparr>)
        else if le_sequence entry > ot_submittedSequence (os_transport owner) then (False, p, [])
        else if np_startupObserved p = 0 \<or> np_observedSequence p = u64_max \<or>
          le_sequence entry \<noteq> np_observedSequence p + 1 then (False, p, Loss p R_RecordLoss)
        else release (p\<lparr>np_observedSequence := le_sequence entry\<rparr>))"

section \<open>The pipeline as a queue of texts\<close>

text \<open>
  \<open>homes\<close> are the records taken from the ring, of which number \<open>i\<close> (from 0) is at home in
  ledger place \<open>i + 1\<close>; \<open>texts\<close> are the texts prepared, the bootstrap first.  Place \<open>t\<close> of the
  ledger is for sequence \<open>t\<close>: the places from the read end to \<open>nextFormat\<close> have their text, of
  which only the first can be matched, the places up to the write end hold records still to be
  formatted, and the rest of the ledger is empty.
\<close>

definition pipe_counts :: "NativePipeline \<Rightarrow> ReportRecord list \<Rightarrow> byte list list \<Rightarrow> bool" where
  "pipe_counts p homes texts \<longleftrightarrow>
     np_initialized p = 1 \<and> np_status p \<and> np_ring p \<and>
     length (np_ledger p) = kNativeLedgerCapacity \<and> length (np_ready p) = kNativeReadyCapacity \<and>
     1 \<le> length texts \<and> np_nextFormat p = length texts \<and> np_ledgerWrite p = length homes + 1 \<and>
     np_readyWrite p = length texts \<and> np_preparedSequence p = length texts - 1 \<and>
     np_ledgerRead p \<le> np_readyRead p \<and> np_readyRead p \<le> length texts \<and> length texts \<le> length homes + 1 \<and>
     length homes + 1 - np_ledgerRead p \<le> kNativeLedgerCapacity \<and>
     length texts - np_readyRead p \<le> kNativeReadyCapacity \<and>
     np_startupObserved p = (if np_ledgerRead p = 0 then 0 else 1) \<and>
     np_observedSequence p = np_ledgerRead p - 1 \<and>
     (np_heldMatch p \<noteq> 0 \<longrightarrow> np_ledgerRead p < length texts)"

definition prepared_entry :: "hasher_fn \<Rightarrow> LedgerState \<Rightarrow> nat \<Rightarrow> byte list \<Rightarrow> NativeLedgerEntry \<Rightarrow> bool" where
  "prepared_entry hash st t msg e \<longleftrightarrow> le_state e = st \<and> le_sequence e = t \<and> le_messageBytes e = length msg \<and>
     (t \<noteq> 0 \<longrightarrow> (\<exists>d. hash msg = Some d \<and> le_body e = Body_Digest d))"

definition pipe_ledger :: "hasher_fn \<Rightarrow> NativePipeline \<Rightarrow> ReportRecord list \<Rightarrow> byte list list \<Rightarrow> bool" where
  "pipe_ledger hash p homes texts \<longleftrightarrow>
     (\<forall>t. np_ledgerRead p \<le> t \<and> t < length texts \<longrightarrow>
        prepared_entry hash (if t = np_ledgerRead p \<and> np_heldMatch p \<noteq> 0 then L_Matched else L_Ready) t
          (texts ! t) (ledger_at p t)) \<and>
     (\<forall>t. length texts \<le> t \<and> t < length homes + 1 \<longrightarrow>
        le_state (ledger_at p t) = L_Scalar \<and> le_sequence (ledger_at p t) = t \<and>
        le_body (ledger_at p t) = Body_Scalar (homes ! (t - 1))) \<and>
     (\<forall>t. length homes + 1 \<le> t \<and> t < np_ledgerRead p + kNativeLedgerCapacity \<longrightarrow>
        le_state (ledger_at p t) = L_Empty)"

definition formats_as :: "NativeFormatContext \<Rightarrow> ReportRecord \<Rightarrow> byte list \<Rightarrow> bool" where
  "formats_as c r msg \<longleftrightarrow> (\<exists>detail. FormatNativeRecord c r True (kMessageLimit + 1) detail = Some msg)"

definition pipe_texts :: "NativePipeline \<Rightarrow> ReportRecord list \<Rightarrow> byte list list \<Rightarrow> bool" where
  "pipe_texts p homes texts \<longleftrightarrow>
     texts ! 0 = np_bootstrap p \<and> list_all event_text texts \<and>
     (\<forall>t. 1 \<le> t \<and> t < length texts \<longrightarrow> formats_as (np_format p) (homes ! (t - 1)) (texts ! t)) \<and>
     (\<forall>i < length homes. rec_sequence (rec_header (homes ! i)) = i + 1 \<and> \<not> record_refused (homes ! i))"

definition frame_of :: "nat \<Rightarrow> byte list \<Rightarrow> NativeReadyFrame" where
  "frame_of t msg = \<lparr>rf_ticket = t + 1, rf_sequence = t, rf_ledgerIndex = ledger_slot t,
     rf_chars = length msg, rf_message = map ucast msg @ [0]\<rparr>"

definition pipe_ready :: "NativePipeline \<Rightarrow> byte list list \<Rightarrow> bool" where
  "pipe_ready p texts \<longleftrightarrow>
     (\<forall>t. np_readyRead p \<le> t \<and> t < length texts \<longrightarrow> np_ready p ! ready_slot t = frame_of t (texts ! t))"

definition pipe_inv :: "hasher_fn \<Rightarrow> NativePipeline \<Rightarrow> ReportRecord list \<Rightarrow> byte list list \<Rightarrow> bool" where
  "pipe_inv hash p homes texts \<longleftrightarrow> pipe_counts p homes texts \<and> pipe_ledger hash p homes texts \<and>
     pipe_texts p homes texts \<and> pipe_ready p texts"

lemmas pipe_defs = pipe_counts_def pipe_ledger_def pipe_texts_def pipe_ready_def

lemma pipe_countsD:
  assumes "pipe_inv hash p homes texts"
  shows "np_initialized p = 1" "np_status p" "np_ring p" "length (np_ledger p) = kNativeLedgerCapacity"
    "length (np_ready p) = kNativeReadyCapacity" "1 \<le> length texts" "np_nextFormat p = length texts"
    "np_ledgerWrite p = length homes + 1" "np_readyWrite p = length texts"
    "np_preparedSequence p = length texts - 1" "np_ledgerRead p \<le> np_readyRead p"
    "np_readyRead p \<le> length texts" "length texts \<le> length homes + 1"
    "length homes + 1 - np_ledgerRead p \<le> kNativeLedgerCapacity"
    "length texts - np_readyRead p \<le> kNativeReadyCapacity"
    "np_startupObserved p = (if np_ledgerRead p = 0 then 0 else 1)"
    "np_observedSequence p = np_ledgerRead p - 1"
    "np_heldMatch p \<noteq> 0 \<Longrightarrow> np_ledgerRead p < length texts"
  using assms unfolding pipe_inv_def pipe_counts_def by blast+

lemma live_window:
  "pipe_inv hash p homes texts \<Longrightarrow> t < length homes + 1 \<Longrightarrow> t < np_ledgerRead p + kNativeLedgerCapacity"
  by (drule pipe_countsD(14)) linarith

lemma pipe_ledgerD:
  assumes "pipe_inv hash p homes texts"
  shows "np_ledgerRead p \<le> t \<Longrightarrow> t < length texts \<Longrightarrow>
      prepared_entry hash (if t = np_ledgerRead p \<and> np_heldMatch p \<noteq> 0 then L_Matched else L_Ready) t
        (texts ! t) (ledger_at p t)"
    and "length texts \<le> t \<Longrightarrow> t < length homes + 1 \<Longrightarrow> le_state (ledger_at p t) = L_Scalar"
    and "length texts \<le> t \<Longrightarrow> t < length homes + 1 \<Longrightarrow> le_sequence (ledger_at p t) = t"
    and "length texts \<le> t \<Longrightarrow> t < length homes + 1 \<Longrightarrow> le_body (ledger_at p t) = Body_Scalar (homes ! (t - 1))"
    and "length homes + 1 \<le> t \<Longrightarrow> t < np_ledgerRead p + kNativeLedgerCapacity \<Longrightarrow> le_state (ledger_at p t) = L_Empty"
  using assms unfolding pipe_inv_def pipe_ledger_def by blast+

lemma pipe_textsD:
  assumes "pipe_inv hash p homes texts"
  shows "texts ! 0 = np_bootstrap p" "list_all event_text texts"
    "1 \<le> t \<Longrightarrow> t < length texts \<Longrightarrow> formats_as (np_format p) (homes ! (t - 1)) (texts ! t)"
    "i < length homes \<Longrightarrow> rec_sequence (rec_header (homes ! i)) = i + 1"
    "i < length homes \<Longrightarrow> \<not> record_refused (homes ! i)"
  using assms unfolding pipe_inv_def pipe_texts_def by blast+

lemma pipe_readyD:
  assumes "pipe_inv hash p homes texts" and "np_readyRead p \<le> t" and "t < length texts"
  shows "np_ready p ! ready_slot t = frame_of t (texts ! t)"
  using assms unfolding pipe_inv_def pipe_ready_def by blast

text \<open>Places within one capacity of each other are different slots.\<close>

lemma window_slot:
  assumes "a \<le> t" and "t < a + kNativeLedgerCapacity" and "a \<le> u" and "u < a + kNativeLedgerCapacity"
  shows "ledger_slot t = ledger_slot u \<longleftrightarrow> t = u"
proof -
  have "t < u \<Longrightarrow> u - t < kNativeLedgerCapacity" "u < t \<Longrightarrow> t - u < kNativeLedgerCapacity"
    using assms by linarith+
  then show ?thesis using mod_apart[of t u kNativeLedgerCapacity] mod_apart[of u t kNativeLedgerCapacity]
    by (cases t u rule: linorder_cases) (auto simp: ledger_slot_def)
qed

lemma ledger_at_put:
  assumes "length (np_ledger p) = kNativeLedgerCapacity"
    and "a \<le> t" and "t < a + kNativeLedgerCapacity" and "a \<le> u" and "u < a + kNativeLedgerCapacity"
  shows "ledger_at (put_ledger t e p) u = (if u = t then e else ledger_at p u)"
proof -
  have "ledger_slot t < kNativeLedgerCapacity" by (simp add: ledger_slot_def kNativeLedgerCapacity_def)
  then show ?thesis using assms(1) window_slot[OF assms(2-5)]
    by (auto simp: ledger_at_def put_ledger_def nth_list_update)
qed

lemma put_ledger_frame [simp]:
  "np_status (put_ledger t e p) = np_status p" "np_ring (put_ledger t e p) = np_ring p"
  "np_format (put_ledger t e p) = np_format p" "np_readyWrite (put_ledger t e p) = np_readyWrite p"
  "np_readyRead (put_ledger t e p) = np_readyRead p" "np_ledgerRead (put_ledger t e p) = np_ledgerRead p"
  "np_ledgerWrite (put_ledger t e p) = np_ledgerWrite p" "np_nextFormat (put_ledger t e p) = np_nextFormat p"
  "np_preparedSequence (put_ledger t e p) = np_preparedSequence p"
  "np_observedSequence (put_ledger t e p) = np_observedSequence p"
  "np_startupObserved (put_ledger t e p) = np_startupObserved p"
  "np_heldMatch (put_ledger t e p) = np_heldMatch p" "np_initialized (put_ledger t e p) = np_initialized p"
  "np_bootstrap (put_ledger t e p) = np_bootstrap p" "np_ready (put_ledger t e p) = np_ready p"
  "length (np_ledger (put_ledger t e p)) = length (np_ledger p)"
  by (simp_all add: put_ledger_def)

lemma ledger_at_cong: "np_ledger q = np_ledger p \<Longrightarrow> ledger_at q t = ledger_at p t"
  by (simp add: ledger_at_def)

text \<open>The invariant reads none of the fields that select how much is printed.\<close>

lemma pipe_inv_detail:
  assumes "RecoveryDetail p r = (detail, q)" and "pipe_inv hash p homes texts"
  shows "pipe_inv hash q homes texts"
  using assms(2) RecoveryDetail_frame[OF assms(1)]
  by (simp add: pipe_inv_def pipe_defs ledger_at_cong[of q p])

section \<open>Every operation keeps the queue\<close>

lemma put_put [simp]: "put_ledger t e (put_ledger t e' p) = put_ledger t e p"
  by (simp add: put_ledger_def)

lemma dequeue_record:
  assumes "Dequeue True w ring True = (RD_Record, r, ring', ops)"
  shows "rec_sequence (rec_header r) = ring_reportReadSequence ring + 1" "\<not> record_refused r"
    "ring_reportReadSequence ring' = ring_reportReadSequence ring + 1"
proof -
  have "dequeue_checks True w ring = DQ_Take" and r: "r = read_slot ring" "ring' = release_slot (scrub_slot ring)"
    using assms by (auto simp: Dequeue_def split: if_splits dequeue_verdict.splits)
  then have ok: "slot_ok True (ring_reportReadSequence ring + 1) (ring_ownerThreadId ring) r"
    using dequeue_takes(2) by simp
  then show "rec_sequence (rec_header r) = ring_reportReadSequence ring + 1" by (simp add: slot_ok_def)
  show "ring_reportReadSequence ring' = ring_reportReadSequence ring + 1" by (simp add: r ring_ops)
  show "\<not> record_refused r" using ok
    by (auto simp: slot_ok_def record_refused_def ValidRecovery_def kind_defs split: if_splits)
qed

lemma dequeue_other:
  assumes "Dequeue True w ring True = (res, r, ring', ops)" and "res \<noteq> RD_Record"
  shows "ring' = ring"
  using assms by (auto simp: Dequeue_def split: if_splits dequeue_verdict.splits)

lemma drain_one_Go:
  assumes "drain_one p ring = (Go, q, ring', ops)"
  shows "\<exists>r e. Dequeue True (ring_reportWriteSequence ring) ring True = (RD_Record, r, ring', ops) \<and>
    le_state e = L_Scalar \<and> le_sequence e = rec_sequence (rec_header r) \<and> le_body e = Body_Scalar r \<and>
    q = put_ledger (np_ledgerWrite p) e (p\<lparr>np_ledgerWrite := np_ledgerWrite p + 1\<rparr>)"
proof -
  obtain res r ring1 ops1 where D: "Dequeue True (ring_reportWriteSequence ring) ring True = (res, r, ring1, ops1)"
    by (metis prod_cases4)
  let ?e = "(ledger_at p (np_ledgerWrite p))\<lparr>le_state := L_Scalar, le_sequence := rec_sequence (rec_header r),
    le_body := Body_Scalar r\<rparr>"
  have "res = RD_Record \<and> ring1 = ring' \<and> ops1 = ops \<and>
      q = put_ledger (np_ledgerWrite p) ?e (p\<lparr>np_ledgerWrite := np_ledgerWrite p + 1\<rparr>)"
    using assms by (cases res) (auto simp: drain_one_def D Let_def put_ledger_def split: if_splits)
  with D show ?thesis by (intro exI[of _ r] exI[of _ ?e]) simp
qed

lemma drain_one_keeps:
  assumes "pipe_inv hash p homes texts" and "ring_reportReadSequence ring = length homes"
    and "np_ledgerWrite p - np_ledgerRead p < kNativeLedgerCapacity"
    and "drain_one p ring = (Go, q, ring', ops)"
  shows "\<exists>r. pipe_inv hash q (homes @ [r]) texts \<and> ring_reportReadSequence ring' = length (homes @ [r]) \<and>
    scalar_of (ledger_at q (np_ledgerWrite p)) = r \<and>
    Dequeue True (ring_reportWriteSequence ring) ring True = (RD_Record, r, ring', ops)"
proof -
  note c = pipe_countsD[OF assms(1)] and l = pipe_ledgerD[OF assms(1)] and x = pipe_textsD[OF assms(1)]
  obtain r e where D: "Dequeue True (ring_reportWriteSequence ring) ring True = (RD_Record, r, ring', ops)"
    and e: "le_state e = L_Scalar" "le_sequence e = rec_sequence (rec_header r)" "le_body e = Body_Scalar r"
    and q: "q = put_ledger (np_ledgerWrite p) e (p\<lparr>np_ledgerWrite := np_ledgerWrite p + 1\<rparr>)"
    using drain_one_Go[OF assms(4)] by blast
  note r = dequeue_record[OF D, unfolded assms(2)]
  have w: "np_ledgerRead p \<le> np_ledgerWrite p" "np_ledgerWrite p < np_ledgerRead p + kNativeLedgerCapacity"
    using c assms(3) by simp_all
  have at: "ledger_at q t = (if t = np_ledgerWrite p then e else ledger_at p t)"
    if "np_ledgerRead p \<le> t" "t < np_ledgerRead p + kNativeLedgerCapacity" for t
    using ledger_at_put[of "p\<lparr>np_ledgerWrite := np_ledgerWrite p + 1\<rparr>" "np_ledgerRead p" "np_ledgerWrite p" t e]
      c(4) w that by (simp add: q ledger_at_def)
  have "pipe_counts q (homes @ [r]) texts"
    using assms(1,3) c by (simp add: pipe_inv_def pipe_counts_def q)
  moreover have "pipe_ledger hash q (homes @ [r]) texts"
    unfolding pipe_ledger_def
  proof (intro conjI allI impI)
    fix t assume "np_ledgerRead q \<le> t \<and> t < length texts"
    then show "prepared_entry hash (if t = np_ledgerRead q \<and> np_heldMatch q \<noteq> 0 then L_Matched else L_Ready) t
        (texts ! t) (ledger_at q t)"
      using l(1)[of t] at[of t] c w by (simp add: q)
  next
    fix t assume t: "length texts \<le> t \<and> t < length (homes @ [r]) + 1"
    then have in_window: "np_ledgerRead p \<le> t" "t < np_ledgerRead p + kNativeLedgerCapacity" using c w by simp_all
    show "le_state (ledger_at q t) = L_Scalar" using at[OF in_window] l(2)[of t] t e c by simp
    show "le_sequence (ledger_at q t) = t" using at[OF in_window] l(3)[of t] t e c r by simp
    show "le_body (ledger_at q t) = Body_Scalar ((homes @ [r]) ! (t - 1))"
      using at[OF in_window] l(4)[of t] t e(3) c(6,8) by (cases t) (auto simp: nth_append less_Suc_eq)
  next
    fix t assume "length (homes @ [r]) + 1 \<le> t \<and> t < np_ledgerRead q + kNativeLedgerCapacity"
    then show "le_state (ledger_at q t) = L_Empty" using at[of t] l(5)[of t] c by (simp add: q)
  qed
  moreover have "pipe_texts q (homes @ [r]) texts"
    using x c r unfolding pipe_texts_def by (auto simp: q nth_append less_Suc_eq)
  moreover have "pipe_ready q texts" using assms(1) by (simp add: pipe_inv_def pipe_ready_def q)
  ultimately have "pipe_inv hash q (homes @ [r]) texts" by (simp add: pipe_inv_def)
  then show ?thesis using r at[OF w] e D by (intro exI[of _ r]) (simp add: scalar_of_def)
qed

text \<open>Turns that do not go on change nothing the invariant reads, but for an empty place.\<close>

lemma pipe_inv_empty:
  assumes "pipe_inv hash p homes texts" and "np_ledgerWrite p - np_ledgerRead p < kNativeLedgerCapacity"
    and "le_state e = L_Empty"
  shows "pipe_inv hash (put_ledger (np_ledgerWrite p) e p) homes texts"
proof -
  note c = pipe_countsD[OF assms(1)]
  have w: "np_ledgerRead p \<le> np_ledgerWrite p" "np_ledgerWrite p < np_ledgerRead p + kNativeLedgerCapacity"
    using c assms(2) by simp_all
  have at: "ledger_at (put_ledger (np_ledgerWrite p) e p) t = (if t = np_ledgerWrite p then e else ledger_at p t)"
    if "np_ledgerRead p \<le> t" "t < np_ledgerRead p + kNativeLedgerCapacity" for t
    using ledger_at_put[OF c(4) w that] by simp
  have "pipe_ledger hash (put_ledger (np_ledgerWrite p) e p) homes texts"
    using pipe_ledgerD[OF assms(1)] c w at assms(3) unfolding pipe_ledger_def by auto
  then show ?thesis using assms(1) by (simp add: pipe_inv_def pipe_counts_def pipe_texts_def pipe_ready_def)
qed

lemma drain_one_other:
  assumes "pipe_inv hash p homes texts" and "np_ledgerWrite p - np_ledgerRead p < kNativeLedgerCapacity"
    and "drain_one p ring = (v, q, ring', ops)" and "v \<noteq> Go"
  shows "pipe_inv hash q homes texts \<and> ring' = ring"
proof -
  obtain res r ring1 ops1 where D: "Dequeue True (ring_reportWriteSequence ring) ring True = (res, r, ring1, ops1)"
    by (metis prod_cases4)
  have "(q = p \<or> q = put_ledger (np_ledgerWrite p) entry_zero p) \<and> ring' = ring"
    using assms(3,4) dequeue_other[OF D] by (cases res) (auto simp: drain_one_def D Let_def split: if_splits)
  then show ?thesis using assms(1) pipe_inv_empty[OF assms(1,2), of entry_zero] by (auto simp: entry_zero_def)
qed

lemma scalar_home:
  assumes "pipe_inv hash p homes texts" and "length texts < length homes + 1"
  shows "scalar_of (ledger_at p (length texts)) = homes ! (length texts - 1)"
  using pipe_ledgerD(4)[OF assms(1) order_refl assms(2)] by (simp add: scalar_of_def)

lemma format_one_keeps:
  assumes inv: "pipe_inv hash p homes texts" and "np_nextFormat p < np_ledgerWrite p"
    and "format_one hash p qpc = (Go, q)"
  shows "\<exists>msg. pipe_inv hash q homes (texts @ [msg])"
proof -
  obtain wr rd detail p1 msg digest wide where Q: "QueueState p = Some (wr, rd)"
    and full: "wr - rd \<noteq> kNativeReadyCapacity"
    and D: "RecoveryDetail p (scalar_of (ledger_at p (np_nextFormat p))) = (detail, p1)"
    and F: "FormatNativeRecord (np_format p) (scalar_of (ledger_at p (np_nextFormat p))) True (kMessageLimit + 1) detail = Some msg"
    and H: "hash msg = Some digest" and W: "PrepareMessage msg (kMessageLimit + 1) = Some wide"
    and q: "q = store_frame wr qpc msg digest wide p1"
    using assms(3) by (rule format_one_Go)
  note inv1 = pipe_inv_detail[OF D inv] and fr = RecoveryDetail_frame[OF D]
  note c = pipe_countsD[OF inv1] and l = pipe_ledgerD[OF inv1] and x = pipe_textsD[OF inv1]
  let ?n = "length texts" and ?e = "ledger_at p1 (length texts)"
  have n: "?n < length homes + 1" using assms(2) c(7,8) fr(2,3) by simp
  have wr: "wr = ?n" and rd: "rd = np_readyRead p1"
    using Q c(9) fr(7,8) by (auto simp: QueueState_def Let_def split: if_splits)
  have room: "?n - np_readyRead p1 < kNativeReadyCapacity" using full c(15) by (simp add: wr rd)
  have wide: "wide = map ucast msg @ [0]" "event_text msg" using W by (simp_all add: PrepareMessage_iff)
  have fmt: "formats_as (np_format p1) (homes ! (?n - 1)) msg"
    using F scalar_home[OF inv1 n] fr(1,5) c(7) fr(2) unfolding formats_as_def
    by (auto simp: ledger_at_cong[OF fr(5)])
  let ?e' = "?e\<lparr>le_body := Body_Digest digest, le_messageBytes := length msg, le_preparedQpc := qpc, le_state := L_Ready\<rparr>"
  have q': "q = put_ledger ?n ?e' (p1\<lparr>np_ready := (np_ready p1)[ready_slot ?n := frame_of ?n msg],
      np_preparedSequence := ?n, np_nextFormat := ?n + 1, np_readyWrite := ?n + 1\<rparr>)"
    using l(3)[OF order_refl n] by (simp add: q store_frame_def Let_def c(7) wr wide(1) frame_of_def put_ledger_def)
  have w: "np_ledgerRead p1 \<le> ?n" "?n < np_ledgerRead p1 + kNativeLedgerCapacity" using c n by simp_all
  have at: "ledger_at q t = (if t = ?n then ?e' else ledger_at p1 t)"
    if "np_ledgerRead p1 \<le> t" "t < np_ledgerRead p1 + kNativeLedgerCapacity" for t
    using ledger_at_put[of "p1\<lparr>np_ready := (np_ready p1)[ready_slot ?n := frame_of ?n msg],
      np_preparedSequence := ?n, np_nextFormat := ?n + 1, np_readyWrite := ?n + 1\<rparr>" "np_ledgerRead p1" ?n t ?e']
      c(4) w that by (simp add: q' ledger_at_def)
  have "pipe_counts q homes (texts @ [msg])"
    using inv1 n room unfolding pipe_inv_def pipe_counts_def by (auto simp: q')
  moreover have "pipe_ledger hash q homes (texts @ [msg])"
    unfolding pipe_ledger_def
  proof (intro conjI allI impI)
    fix t assume t: "np_ledgerRead q \<le> t \<and> t < length (texts @ [msg])"
    show "prepared_entry hash (if t = np_ledgerRead q \<and> np_heldMatch q \<noteq> 0 then L_Matched else L_Ready) t
        ((texts @ [msg]) ! t) (ledger_at q t)"
    proof (cases "t = ?n")
      case True
      have "np_heldMatch p1 = 0" if "np_ledgerRead p1 = ?n" using c(18) that by linarith
      with True show ?thesis using at[of t] w l(3)[OF order_refl n] H
        by (auto simp: prepared_entry_def q')
    next
      case False
      then show ?thesis using t l(1)[of t] at[of t] w by (simp add: q' nth_append)
    qed
  next
    fix t assume t: "length (texts @ [msg]) \<le> t \<and> t < length homes + 1"
    then have in_window: "np_ledgerRead p1 \<le> t" "t < np_ledgerRead p1 + kNativeLedgerCapacity"
      using w live_window[OF inv1, of t] by simp_all
    show "le_state (ledger_at q t) = L_Scalar" "le_sequence (ledger_at q t) = t"
      "le_body (ledger_at q t) = Body_Scalar (homes ! (t - 1))"
      using at[OF in_window] l(2,3,4)[of t] t by simp_all
  next
    fix t assume "length homes + 1 \<le> t \<and> t < np_ledgerRead q + kNativeLedgerCapacity"
    then show "le_state (ledger_at q t) = L_Empty" using at[of t] l(5)[of t] c n by (simp add: q')
  qed
  moreover have "pipe_texts q homes (texts @ [msg])"
    using x c(6) fmt wide(2) unfolding pipe_texts_def
    by (auto simp: q' nth_append list_all_iff less_Suc_eq)
  moreover have "pipe_ready q (texts @ [msg])"
    unfolding pipe_ready_def
  proof (intro allI impI)
    fix t assume t: "np_readyRead q \<le> t \<and> t < length (texts @ [msg])"
    have "ready_slot ?n < kNativeReadyCapacity" by (simp add: ready_slot_def kNativeReadyCapacity_def)
    moreover have "ready_slot t \<noteq> ready_slot ?n" if "t \<noteq> ?n"
    proof -
      have "t < ?n" using t that by simp
      moreover have "np_readyRead p1 \<le> t" using t by (simp add: q')
      then have "?n - t < kNativeReadyCapacity" using room by linarith
      ultimately show ?thesis using mod_apart[of t ?n kNativeReadyCapacity] by (simp add: ready_slot_def)
    qed
    ultimately show "np_ready q ! ready_slot t = frame_of t ((texts @ [msg]) ! t)"
      using t c(5) pipe_readyD[OF inv1, of t] by (cases "t = ?n") (auto simp: q' nth_append)
  qed
  ultimately show ?thesis by (intro exI[of _ msg]) (simp add: pipe_inv_def)
qed

lemma format_one_other:
  assumes "pipe_inv hash p homes texts" and "format_one hash p qpc = (v, q)" and "v \<noteq> Go"
  shows "pipe_inv hash q homes texts"
proof -
  obtain detail p1 where D: "RecoveryDetail p (scalar_of (ledger_at p (np_nextFormat p))) = (detail, p1)" by fastforce
  have "q = p \<or> q = p1"
    using assms(2,3) by (auto simp: format_one_def D Let_def split: option.splits if_splits prod.splits)
  then show ?thesis using assms(1) pipe_inv_detail[OF D assms(1)] by auto
qed

text \<open>The owner's end: the front frame, and its release.\<close>

lemma frame_valid: "event_text msg \<Longrightarrow> ValidMessage (map ucast msg @ [0]) (length msg)"
  using ValidMessage_iff[of "length msg" "map ucast msg @ [0]"]
    nth_append_length[of "map ucast msg :: 16 word list" 0 "[]"]
  by (simp add: sink_bytes_def narrow_wide comp_def)

lemma Peek_eq:
  assumes "pipe_inv hash p homes texts"
  shows "PeekNativeFrame p =
    (if np_readyRead p < length texts then Some (frame_of (np_readyRead p) (texts ! np_readyRead p)) else None, [])"
proof -
  note c = pipe_countsD[OF assms]
  have "QueueState p = Some (length texts, np_readyRead p)"
    using c by (simp add: QueueState_def Let_def)
  moreover have "ValidMessage (map ucast (texts ! t) @ [0]) (length (texts ! t))" if "t < length texts" for t
    using pipe_textsD(2)[OF assms] that by (intro frame_valid) (simp add: list_all_length)
  moreover have "\<not> kNativeLedgerCapacity \<le> ledger_slot t" for t
    by (simp add: ledger_slot_def kNativeLedgerCapacity_def not_le)
  ultimately show ?thesis
    using c(1,2,12) pipe_readyD[OF assms order_refl] by (auto simp: PeekNativeFrame_def frame_of_def)
qed

lemma Release_eq:
  assumes "pipe_inv hash p homes texts"
  shows "ReleaseNativeFrame p ticket =
    (if np_readyRead p < length texts \<and> ticket = np_readyRead p + 1
     then (True, p\<lparr>np_readyRead := ticket\<rparr>, []) else (False, p, LoseStatusV3 R_RecordLoss))"
  using pipe_countsD(2)[OF assms] by (auto simp: ReleaseNativeFrame_def Peek_eq[OF assms] frame_of_def Loss_def)

lemma release_keeps:
  assumes "pipe_inv hash p homes texts" and "ReleaseNativeFrame p ticket = (ok, q, ops)"
  shows "pipe_inv hash q homes texts"
proof (cases "np_readyRead p < length texts \<and> ticket = np_readyRead p + 1")
  case True
  then have q: "q = p\<lparr>np_readyRead := np_readyRead p + 1\<rparr>" using assms(2) by (simp add: Release_eq[OF assms(1)])
  show ?thesis using assms(1) True unfolding q pipe_inv_def pipe_defs
    by (auto simp: ledger_at_def)
next
  case False
  then show ?thesis using assms by (auto simp: Release_eq[OF assms(1)] split: if_splits)
qed

text \<open>Receipts: a line that comes back is the oldest text not yet observed, a later one, or foreign.\<close>

lemma match_tickets_eq:
  "match_tickets p bytes digest ts =
    (case find (\<lambda>t. entry_matches p bytes digest (ledger_at p t)) ts of
       None \<Rightarrow> (Disp_Corrupt, p)
     | Some t \<Rightarrow> if t \<noteq> np_ledgerRead p then (Disp_Gap, p)
         else (Disp_AwaitingSubmission, put_ledger t ((ledger_at p t)\<lparr>le_state := L_Matched\<rparr>) p\<lparr>np_heldMatch := 1\<rparr>))"
  by (induction ts) auto

definition same_digest :: "hasher_fn \<Rightarrow> byte list \<Rightarrow> byte list \<Rightarrow> bool" where
  "same_digest hash a b \<longleftrightarrow> length a = length b \<and> hash a = hash b"

lemma entry_matches_iff:
  assumes "pipe_inv hash p homes texts" and "np_heldMatch p = 0" and "hash bytes = Some digest"
    and "np_ledgerRead p \<le> t" and "t < length texts"
  shows "entry_matches p bytes digest (ledger_at p t) \<longleftrightarrow>
    (if t = 0 then bytes = texts ! 0 else same_digest hash bytes (texts ! t))"
  using pipe_ledgerD(1)[OF assms(1,4,5)] assms(2,3) pipe_textsD(1)[OF assms(1)]
  by (auto simp: entry_matches_def prepared_entry_def same_digest_def)

definition matched :: "nat \<Rightarrow> NativePipeline \<Rightarrow> NativePipeline" where
  "matched t p = put_ledger t ((ledger_at p t)\<lparr>le_state := L_Matched\<rparr>) p\<lparr>np_heldMatch := 1\<rparr>"

lemma match_cases:
  assumes "pipe_inv hash p homes texts" and "MatchNativeReceipt hash p bytes = (d, q, ops)"
  shows "(q = p \<and> d \<noteq> Disp_AwaitingSubmission) \<or>
    (\<exists>line. bytes = Some line \<and> d = Disp_AwaitingSubmission \<and> np_heldMatch p = 0 \<and>
       np_ledgerRead p < length texts \<and> q = matched (np_ledgerRead p) p \<and> ops = [] \<and>
       (if np_ledgerRead p = 0 then line = texts ! 0 else same_digest hash line (texts ! np_ledgerRead p)))"
proof (cases bytes)
  case None
  with assms(2) show ?thesis by (simp add: MatchNativeReceipt_def)
next
  case (Some line)
  note c = pipe_countsD[OF assms(1)]
  show ?thesis
  proof (cases "np_heldMatch p \<noteq> 0 \<or> np_ledgerRead p = length texts \<or> hash line = None")
    case True
    with Some assms(2) c(1,7) show ?thesis by (auto simp: MatchNativeReceipt_def split: if_splits option.splits)
  next
    case False
    then obtain digest where H: "hash line = Some digest" by auto
    let ?f = "find (\<lambda>t. entry_matches p line digest (ledger_at p t)) [np_ledgerRead p..<length texts]"
    have valid: "LedgerValid p" using c by (simp add: LedgerValid_def)
    have M: "MatchNativeReceipt hash p (Some line) = (case match_tickets p line digest [np_ledgerRead p..<length texts] of
        (d, p) \<Rightarrow> (d, p, []))"
      using False c(1,7) valid by (simp add: MatchNativeReceipt_def H)
    show ?thesis
    proof (cases "?f = Some (np_ledgerRead p)")
      case True
      then have "entry_matches p line digest (ledger_at p (np_ledgerRead p))" "np_ledgerRead p < length texts"
        by (auto simp: find_Some_iff)
      then have "if np_ledgerRead p = 0 then line = texts ! 0 else same_digest hash line (texts ! np_ledgerRead p)"
        using entry_matches_iff[OF assms(1) _ H order_refl] False by blast
      then show ?thesis using assms(2) True False \<open>np_ledgerRead p < length texts\<close>
        by (simp add: M match_tickets_eq Some matched_def)
    next
      case f: False
      with assms(2) show ?thesis by (auto simp: M Some match_tickets_eq split: option.splits if_splits)
    qed
  qed
qed

lemma matched_keeps:
  assumes "pipe_inv hash p homes texts" and "np_heldMatch p = 0" and "np_ledgerRead p < length texts"
  shows "pipe_inv hash (matched (np_ledgerRead p) p) homes texts"
proof -
  note c = pipe_countsD[OF assms(1)] and l = pipe_ledgerD[OF assms(1)]
  let ?t = "np_ledgerRead p" and ?q = "matched (np_ledgerRead p) p"
  have at: "ledger_at ?q u = (if u = ?t then (ledger_at p ?t)\<lparr>le_state := L_Matched\<rparr> else ledger_at p u)"
    if "?t \<le> u" "u < ?t + kNativeLedgerCapacity" for u
    using ledger_at_put[OF c(4) order_refl _ that] that by (simp add: matched_def ledger_at_def)
  have "pipe_ledger hash ?q homes texts"
    unfolding pipe_ledger_def
  proof (intro conjI allI impI)
    fix u assume u: "np_ledgerRead ?q \<le> u \<and> u < length texts"
    then have w: "?t \<le> u" "u < ?t + kNativeLedgerCapacity"
      using c(13) live_window[OF assms(1), of u] by (simp_all add: matched_def)
    show "prepared_entry hash (if u = np_ledgerRead ?q \<and> np_heldMatch ?q \<noteq> 0 then L_Matched else L_Ready) u
        (texts ! u) (ledger_at ?q u)"
      using l(1)[OF w(1)] u at[OF w] assms(2) by (auto simp: matched_def prepared_entry_def)
  next
    fix u assume u: "length texts \<le> u \<and> u < length homes + 1"
    then have w: "?t \<le> u" "u < ?t + kNativeLedgerCapacity" "u \<noteq> ?t"
      using live_window[OF assms(1), of u] assms(3) by simp_all
    show "le_state (ledger_at ?q u) = L_Scalar" "le_sequence (ledger_at ?q u) = u"
      "le_body (ledger_at ?q u) = Body_Scalar (homes ! (u - 1))"
      using at[OF w(1,2)] w(3) l(2,3,4)[of u] u by simp_all
  next
    fix u assume u: "length homes + 1 \<le> u \<and> u < np_ledgerRead ?q + kNativeLedgerCapacity"
    then show "le_state (ledger_at ?q u) = L_Empty" using at[of u] l(5)[of u] c assms(3) by (simp add: matched_def)
  qed
  moreover have "pipe_counts ?q homes texts" "pipe_texts ?q homes texts" "pipe_ready ?q texts"
    using assms(1,3) by (simp_all add: pipe_inv_def pipe_counts_def pipe_texts_def pipe_ready_def matched_def)
  ultimately show ?thesis by (simp add: pipe_inv_def)
qed

text \<open>
  Acknowledgement.  An owner snapshot is honest when it claims no submission the owner has not
  released: the owner releases a frame after it counts it as submitted, and publishes the count
  from the same thread after that.
\<close>

definition honest_owner :: "NativePipeline \<Rightarrow> OwnerSnapshotV3 \<Rightarrow> bool" where
  "honest_owner p owner \<longleftrightarrow>
     (ot_startupSubmitted (os_transport owner) \<noteq> 0 \<longrightarrow> 1 \<le> np_readyRead p) \<and>
     (ot_submittedSequence (os_transport owner) < np_readyRead p \<or> ot_submittedSequence (os_transport owner) = 0)"

definition snapshot_ok :: "OwnerSnapshotV3 \<Rightarrow> bool" where
  "snapshot_ok owner \<longleftrightarrow> 2 \<le> os_sequence owner \<and> even (os_sequence owner)"

definition submitted_in :: "OwnerSnapshotV3 \<Rightarrow> nat \<Rightarrow> bool" where
  "submitted_in owner t \<longleftrightarrow> (if t = 0 then ot_startupSubmitted (os_transport owner) \<noteq> 0
     else t \<le> ot_submittedSequence (os_transport owner))"

definition observed :: "NativePipeline \<Rightarrow> NativePipeline" where
  "observed p = put_ledger (np_ledgerRead p) entry_zero p\<lparr>np_ledgerRead := np_ledgerRead p + 1, np_heldMatch := 0,
     np_startupObserved := 1, np_observedSequence := np_ledgerRead p\<rparr>"

lemma Acknowledge_eq:
  assumes "pipe_inv hash p homes texts" and "length homes < u64_max"
  shows "AcknowledgeNativeReceipt p owner =
    (if np_heldMatch p \<noteq> 0 \<and> snapshot_ok owner \<and> submitted_in owner (np_ledgerRead p)
     then (True, observed p, []) else (False, p, []))"
proof (cases "np_heldMatch p = 0 \<or> \<not> snapshot_ok owner")
  case True
  then show ?thesis by (auto simp: AcknowledgeNativeReceipt_def snapshot_ok_def)
next
  case False
  note c = pipe_countsD[OF assms(1)]
  have valid: "LedgerValid p" using c by (simp add: LedgerValid_def)
  have lr: "np_ledgerRead p < length texts" using c(18) False by simp
  have e: "le_state (ledger_at p (np_ledgerRead p)) = L_Matched" "le_sequence (ledger_at p (np_ledgerRead p)) = np_ledgerRead p"
    using pipe_ledgerD(1)[OF assms(1) order_refl lr] False by (simp_all add: prepared_entry_def)
  have g: "\<not> (np_heldMatch p = 0 \<or> \<not> LedgerValid p \<or> os_sequence owner < 2 \<or> odd (os_sequence owner))"
    using False valid by (auto simp: snapshot_ok_def)
  show ?thesis
  proof (cases "np_ledgerRead p = 0")
    case True
    then show ?thesis using False e c(17) unfolding AcknowledgeNativeReceipt_def if_not_P[OF g]
      by (auto simp: submitted_in_def observed_def put_ledger_def)
  next
    case pos: False
    have ok: "\<not> (np_startupObserved p = 0 \<or> np_observedSequence p = u64_max \<or>
        le_sequence (ledger_at p (np_ledgerRead p)) \<noteq> np_observedSequence p + 1)"
      using pos c(11-13,16,17) assms(2) e(2) by simp
    have held: "np_heldMatch p \<noteq> 0" "snapshot_ok owner" using False by simp_all
    have "p\<lparr>np_startupObserved := 1\<rparr> = p" using pos c(16) by simp
    then show ?thesis using pos held e c(16)
      unfolding AcknowledgeNativeReceipt_def if_not_P[OF g] Let_def if_not_P[OF ok]
      by (simp add: submitted_in_def observed_def put_ledger_def)
  qed
qed

lemma observed_keeps:
  assumes "pipe_inv hash p homes texts" and "np_heldMatch p \<noteq> 0" and "np_ledgerRead p < np_readyRead p"
  shows "pipe_inv hash (observed p) homes texts"
proof -
  note c = pipe_countsD[OF assms(1)] and l = pipe_ledgerD[OF assms(1)]
  let ?t = "np_ledgerRead p" and ?q = "observed p"
  have at: "ledger_at ?q u = (if u = ?t then entry_zero else ledger_at p u)"
    if "?t \<le> u" "u < ?t + kNativeLedgerCapacity" for u
    using ledger_at_put[OF c(4) order_refl _ that] that by (simp add: observed_def ledger_at_def)
  have last: "ledger_at ?q (?t + kNativeLedgerCapacity) = entry_zero"
    using c(4) by (simp add: observed_def ledger_at_def put_ledger_def ledger_slot_def kNativeLedgerCapacity_def)
  have "pipe_ledger hash ?q homes texts"
    unfolding pipe_ledger_def
  proof (intro conjI allI impI)
    fix u assume u: "np_ledgerRead ?q \<le> u \<and> u < length texts"
    then have w: "?t \<le> u" "u < ?t + kNativeLedgerCapacity" "u \<noteq> ?t"
      using c(13) live_window[OF assms(1), of u] by (simp_all add: observed_def)
    show "prepared_entry hash (if u = np_ledgerRead ?q \<and> np_heldMatch ?q \<noteq> 0 then L_Matched else L_Ready) u
        (texts ! u) (ledger_at ?q u)"
      using l(1)[OF w(1)] u at[OF w(1,2)] w(3) by (simp add: observed_def)
  next
    fix u assume u: "length texts \<le> u \<and> u < length homes + 1"
    then have w: "?t \<le> u" "u < ?t + kNativeLedgerCapacity" "u \<noteq> ?t"
      using live_window[OF assms(1), of u] assms(3) c(12) by simp_all
    show "le_state (ledger_at ?q u) = L_Scalar" "le_sequence (ledger_at ?q u) = u"
      "le_body (ledger_at ?q u) = Body_Scalar (homes ! (u - 1))"
      using at[OF w(1,2)] w(3) l(2,3,4)[of u] u by simp_all
  next
    fix u assume u: "length homes + 1 \<le> u \<and> u < np_ledgerRead ?q + kNativeLedgerCapacity"
    show "le_state (ledger_at ?q u) = L_Empty"
    proof (cases "u = ?t + kNativeLedgerCapacity")
      case True
      then show ?thesis using last by (simp add: entry_zero_def)
    next
      case False
      then have "u < ?t + kNativeLedgerCapacity" using u by (simp add: observed_def)
      then show ?thesis using at[of u] l(5)[of u] u c(11-13) by (simp add: entry_zero_def)
    qed
  qed
  moreover have "pipe_counts ?q homes texts"
    using c assms(3) unfolding pipe_counts_def by (simp add: observed_def)
  moreover have "pipe_texts ?q homes texts" "pipe_ready ?q texts"
    using assms(1) by (simp_all add: pipe_inv_def pipe_texts_def pipe_ready_def observed_def)
  ultimately show ?thesis by (simp add: pipe_inv_def)
qed

lemma honest_released:
  assumes "pipe_inv hash p homes texts" and "honest_owner p owner" and "submitted_in owner (np_ledgerRead p)"
  shows "np_ledgerRead p < np_readyRead p"
  using assms(2,3) by (auto simp: honest_owner_def submitted_in_def split: if_splits)

text \<open>The start: the bootstrap alone, prepared and not yet released.\<close>

lemma initialize_starts:
  assumes "InitializeNativePipeline p same ring context given qpc = (TR_None, q)"
    and "length (np_ledger p) = kNativeLedgerCapacity" and "list_all (\<lambda>e. le_state e = L_Empty) (np_ledger p)"
    and "length (np_ready p) = kNativeReadyCapacity"
  shows "pipe_inv hash q [] [np_bootstrap q] \<and> np_format q = context"
proof -
  obtain ascii wide where P: "PrepareNativeBootstrap context True bootstrap_capacity (kMessageLimit + 1) = (TR_None, Some (ascii, wide))"
    using assms(1) by (auto simp: InitializeNativePipeline_def PrepareNativeBootstrap_def split: if_splits option.splits)
  then have wide: "wide = map ucast ascii @ [0]" "event_text ascii"
    by (auto simp: PrepareNativeBootstrap_def PrepareMessage_iff split: option.splits)
  have q: "q = p\<lparr>np_status := True, np_ring := True, np_format := context, np_ledgerRead := 0,
            np_ledgerWrite := 1, np_nextFormat := 1, np_preparedSequence := 0, np_observedSequence := 0,
            np_startupObserved := 0, np_heldMatch := 0, np_bootstrap := ascii,
            np_ledger := (np_ledger p)[0 := entry_zero\<lparr>le_sequence := 0, le_preparedQpc := qpc,
              le_messageBytes := length ascii, le_state := L_Ready\<rparr>],
            np_ready := (np_ready p)[0 := frame_of 0 ascii],
            np_readyRead := 0, np_initialized := 1, np_readyWrite := 1\<rparr>"
    using assms(1) wide by (auto simp: InitializeNativePipeline_def P[simplified] frame_of_def ledger_slot_def split: if_splits)
  have cap: "0 < kNativeLedgerCapacity" "0 < kNativeReadyCapacity" "1 \<le> kNativeLedgerCapacity" "1 \<le> kNativeReadyCapacity"
    by (simp_all add: kNativeLedgerCapacity_def kNativeReadyCapacity_def)
  have "le_state (ledger_at q t) = L_Empty" if "1 \<le> t" "t < kNativeLedgerCapacity" for t
    using assms(2,3) that by (simp add: q ledger_at_def ledger_slot_def list_all_length)
  moreover have "prepared_entry hash L_Ready 0 ascii (ledger_at q 0)"
    using assms(2) cap by (simp add: q ledger_at_def ledger_slot_def prepared_entry_def)
  ultimately show ?thesis
    using assms(2,4) cap wide(2)
    by (simp add: pipe_inv_def pipe_defs q ledger_at_def ready_slot_def Suc_le_eq)
qed

section \<open>Worker, owner and log interleaved\<close>

text \<open>
  One step is one turn of a worker loop or one call of the owner's end; between any two of
  them the owner may change the ring as it likes, but for the read sequence, which is the
  worker's.  \<open>pr_homes\<close> and \<open>pr_texts\<close> record what was taken and what was prepared.
\<close>

definition frame_text :: "NativeReadyFrame \<Rightarrow> byte list" where
  "frame_text f = sink_bytes (take (rf_chars f) (rf_message f))"

record pipe_run =
  pr_pipe :: NativePipeline
  pr_ring :: ReportRing
  pr_homes :: "ReportRecord list"
  pr_texts :: "byte list list"

inductive pipe_step :: "hasher_fn \<Rightarrow> pipe_run \<Rightarrow> pipe_run \<Rightarrow> bool" for hash where
  owner_ring: "ring_reportReadSequence ring' = ring_reportReadSequence (pr_ring s) \<Longrightarrow>
    pipe_step hash s (s\<lparr>pr_ring := ring'\<rparr>)"
| take_record: "np_ledgerWrite (pr_pipe s) - np_ledgerRead (pr_pipe s) < kNativeLedgerCapacity \<Longrightarrow>
    drain_one (pr_pipe s) (pr_ring s) = (Go, q, ring', ops) \<Longrightarrow>
    pipe_step hash s (s\<lparr>pr_pipe := q, pr_ring := ring',
      pr_homes := pr_homes s @ [scalar_of (ledger_at q (np_ledgerWrite (pr_pipe s)))]\<rparr>)"
| take_none: "np_ledgerWrite (pr_pipe s) - np_ledgerRead (pr_pipe s) < kNativeLedgerCapacity \<Longrightarrow>
    drain_one (pr_pipe s) (pr_ring s) = (v, q, ring', ops) \<Longrightarrow> v \<noteq> Go \<Longrightarrow>
    pipe_step hash s (s\<lparr>pr_pipe := q, pr_ring := ring'\<rparr>)"
| prepare: "np_nextFormat (pr_pipe s) < np_ledgerWrite (pr_pipe s) \<Longrightarrow>
    format_one hash (pr_pipe s) qpc = (Go, q) \<Longrightarrow>
    pipe_step hash s (s\<lparr>pr_pipe := q,
      pr_texts := pr_texts s @ [frame_text (np_ready q ! ready_slot (np_readyWrite (pr_pipe s)))]\<rparr>)"
| prepare_none: "np_nextFormat (pr_pipe s) < np_ledgerWrite (pr_pipe s) \<Longrightarrow>
    format_one hash (pr_pipe s) qpc = (v, q) \<Longrightarrow> v \<noteq> Go \<Longrightarrow> pipe_step hash s (s\<lparr>pr_pipe := q\<rparr>)"
| release: "ReleaseNativeFrame (pr_pipe s) ticket = (ok, q, ops) \<Longrightarrow> pipe_step hash s (s\<lparr>pr_pipe := q\<rparr>)"
| receipt: "MatchNativeReceipt hash (pr_pipe s) bytes = (d, q, ops) \<Longrightarrow> pipe_step hash s (s\<lparr>pr_pipe := q\<rparr>)"
| acknowledge: "honest_owner (pr_pipe s) owner \<Longrightarrow>
    AcknowledgeNativeReceipt (pr_pipe s) owner = (ok, q, ops) \<Longrightarrow> pipe_step hash s (s\<lparr>pr_pipe := q\<rparr>)"

definition pipe_start :: "NativePipeline \<Rightarrow> ReportRing \<Rightarrow> pipe_run" where
  "pipe_start p ring = \<lparr>pr_pipe = p, pr_ring = ring, pr_homes = [], pr_texts = [np_bootstrap p]\<rparr>"

definition run_inv :: "hasher_fn \<Rightarrow> NativeFormatContext \<Rightarrow> pipe_run \<Rightarrow> bool" where
  "run_inv hash context s \<longleftrightarrow> pipe_inv hash (pr_pipe s) (pr_homes s) (pr_texts s) \<and>
     ring_reportReadSequence (pr_ring s) = length (pr_homes s) \<and> length (pr_homes s) < u64_max \<and>
     np_format (pr_pipe s) = context \<and>
     FormatNativeBootstrap context True bootstrap_capacity = Some (np_bootstrap (pr_pipe s))"

lemma frame_text_of [simp]: "frame_text (frame_of t msg) = msg"
  by (simp add: frame_text_def frame_of_def sink_bytes_def narrow_wide comp_def)

text \<open>The context is set once, and the write end counts what was taken.\<close>

lemma format_one_context: "format_one hash p qpc = (v, q) \<Longrightarrow> np_format q = np_format p \<and> np_bootstrap q = np_bootstrap p"
  by (auto simp: format_one_def Let_def store_frame_def put_ledger_def dest: RecoveryDetail_frame(1,16)
    split: option.splits if_splits prod.splits)

lemma drain_one_context: "drain_one p ring = (v, q, ring', ops) \<Longrightarrow> np_format q = np_format p \<and> np_bootstrap q = np_bootstrap p"
  by (auto simp: drain_one_def Let_def split: if_splits prod.splits ReportReadResult.splits)

lemma drain_one_counter: "drain_one p ring = (Go, q, ring', ops) \<Longrightarrow> np_ledgerWrite p \<noteq> u64_max"
  by (auto simp: drain_one_def Let_def split: if_splits)

lemma prepare_keeps:
  assumes "pipe_inv hash p homes texts" and "np_nextFormat p < np_ledgerWrite p" and "format_one hash p qpc = (Go, q)"
  shows "pipe_inv hash q homes (texts @ [frame_text (np_ready q ! ready_slot (np_readyWrite p))])"
proof -
  obtain msg where inv: "pipe_inv hash q homes (texts @ [msg])" using format_one_keeps[OF assms] by blast
  have "np_readyRead q \<le> length texts"
  proof -
    obtain wr rd detail p1 msg' digest wide where D: "RecoveryDetail p (scalar_of (ledger_at p (np_nextFormat p))) = (detail, p1)"
      and q: "q = store_frame wr qpc msg' digest wide p1" using assms(3) by (rule format_one_Go)
    show ?thesis using pipe_countsD(12)[OF assms(1)] RecoveryDetail_frame(7)[OF D]
      by (simp add: q store_frame_def Let_def put_ledger_def)
  qed
  then have "np_ready q ! ready_slot (length texts) = frame_of (length texts) msg"
    using pipe_readyD[OF inv, of "length texts"] by simp
  then show ?thesis using inv pipe_countsD(9)[OF assms(1)] by simp
qed

lemma run_inv_step: "pipe_step hash s t \<Longrightarrow> run_inv hash context s \<Longrightarrow> run_inv hash context t"
proof (induction rule: pipe_step.induct)
  case (take_record s q ring' ops)
  then have inv: "pipe_inv hash (pr_pipe s) (pr_homes s) (pr_texts s)"
    and rd: "ring_reportReadSequence (pr_ring s) = length (pr_homes s)" by (simp_all add: run_inv_def)
  have "length (pr_homes s) + 1 < u64_max"
    using drain_one_counter[OF take_record(2)] take_record(3) pipe_countsD(8)[OF inv] by (simp add: run_inv_def)
  then show ?case using drain_one_keeps[OF inv rd take_record(1,2)] drain_one_context[OF take_record(2)] take_record(3)
    by (auto simp: run_inv_def)
next
  case (take_none s v q ring' ops)
  then have "pipe_inv hash (pr_pipe s) (pr_homes s) (pr_texts s)" by (simp add: run_inv_def)
  from drain_one_other[OF this take_none(1-3)] take_none(4) drain_one_context[OF take_none(2)]
  show ?case by (simp add: run_inv_def)
next
  case (prepare s qpc q)
  then show ?case using prepare_keeps[of hash "pr_pipe s"] format_one_context[OF prepare(2)]
    by (auto simp: run_inv_def)
next
  case (prepare_none s qpc v q)
  then show ?case using format_one_other[of hash "pr_pipe s"] format_one_context[OF prepare_none(2)]
    by (auto simp: run_inv_def)
next
  case (release s ticket ok q ops)
  then have "pipe_inv hash (pr_pipe s) (pr_homes s) (pr_texts s)" by (simp add: run_inv_def)
  from release_keeps[OF this release(1)] release show ?case
    by (auto simp: run_inv_def Release_eq[OF \<open>pipe_inv hash (pr_pipe s) (pr_homes s) (pr_texts s)\<close>] split: if_splits)
next
  case (receipt s bytes d q ops)
  then have inv: "pipe_inv hash (pr_pipe s) (pr_homes s) (pr_texts s)" by (simp add: run_inv_def)
  from match_cases[OF inv receipt(1)] matched_keeps[OF inv] receipt(2) show ?case
    by (auto simp: run_inv_def matched_def)
next
  case (acknowledge s owner ok q ops)
  then have inv: "pipe_inv hash (pr_pipe s) (pr_homes s) (pr_texts s)" and b: "length (pr_homes s) < u64_max"
    by (simp_all add: run_inv_def)
  show ?case using acknowledge(2,3) observed_keeps[OF inv] honest_released[OF inv acknowledge(1)]
    by (auto simp: Acknowledge_eq[OF inv b] run_inv_def observed_def split: if_splits)
qed (simp add: run_inv_def)

lemma run_inv_reachable: "(pipe_step hash)\<^sup>*\<^sup>* s t \<Longrightarrow> run_inv hash context s \<Longrightarrow> run_inv hash context t"
  by (induction rule: rtranclp_induct) (auto dest: run_inv_step)

lemma initialized_bootstrap:
  assumes "InitializeNativePipeline p same ring context given qpc = (TR_None, q)"
  shows "FormatNativeBootstrap context True bootstrap_capacity = Some (np_bootstrap q)"
  using assms by (auto simp: InitializeNativePipeline_def PrepareNativeBootstrap_def split: if_splits option.splits)

definition pipeline_ready :: "NativePipeline \<Rightarrow> bool" where
  "pipeline_ready p \<longleftrightarrow> length (np_ledger p) = kNativeLedgerCapacity \<and>
     list_all (\<lambda>e. le_state e = L_Empty) (np_ledger p) \<and> length (np_ready p) = kNativeReadyCapacity"

lemma run_inv_start:
  assumes "InitializeNativePipeline p same ring context given qpc = (TR_None, q)" and "pipeline_ready p"
    and "ring_reportReadSequence ring = 0"
  shows "run_inv hash context (pipe_start q ring)"
  using initialize_starts[OF assms(1)] initialized_bootstrap[OF assms(1)] assms(2,3)
  by (simp add: run_inv_def pipe_start_def pipeline_ready_def)

section \<open>A call of the worker is a run of its turns\<close>

lemma drain_is_steps:
  "drain n (pr_pipe s) (pr_ring s) = (ok, q, ring', ops) \<Longrightarrow>
   \<exists>t. (pipe_step hash)\<^sup>*\<^sup>* s t \<and> pr_pipe t = q \<and> pr_ring t = ring'"
proof (induction n arbitrary: s ops)
  case (Suc n)
  let ?p = "pr_pipe s"
  obtain v p1 ring1 ops1 where D: "drain_one ?p (pr_ring s) = (v, p1, ring1, ops1)" by (metis prod_cases4)
  show ?case
  proof (cases "np_ledgerWrite ?p - np_ledgerRead ?p < kNativeLedgerCapacity")
    case room: True
    show ?thesis
    proof (cases "v = Go")
      case True
      let ?s = "s\<lparr>pr_pipe := p1, pr_ring := ring1, pr_homes := pr_homes s @ [scalar_of (ledger_at p1 (np_ledgerWrite ?p))]\<rparr>"
      have step: "pipe_step hash s ?s" using pipe_step.take_record[OF room] D True by simp
      obtain ops2 where "drain n (pr_pipe ?s) (pr_ring ?s) = (ok, q, ring', ops2)"
        using Suc.prems room D True by (auto split: prod.splits)
      from Suc.IH[OF this] step show ?thesis by (metis converse_rtranclp_into_rtranclp)
    next
      case False
      then have "q = p1 \<and> ring' = ring1" using Suc.prems room D by (cases v) auto
      with pipe_step.take_none[OF room D False, of hash] show ?thesis
        by (intro exI[of _ "s\<lparr>pr_pipe := p1, pr_ring := ring1\<rparr>"]) auto
    qed
  qed (use Suc.prems in auto)
qed auto

lemma format_is_steps:
  "format_loop hash (pr_pipe s) qpc = (ok, q, ops) \<Longrightarrow>
   \<exists>t. (pipe_step hash)\<^sup>*\<^sup>* s t \<and> pr_pipe t = q \<and> pr_ring t = pr_ring s"
proof (induction "np_ledgerWrite (pr_pipe s) - np_nextFormat (pr_pipe s)" arbitrary: s rule: less_induct)
  case less
  let ?p = "pr_pipe s"
  obtain v p1 where F: "format_one hash ?p qpc = (v, p1)" by fastforce
  note un = less.prems[unfolded format_loop.simps[of hash ?p]]
  show ?case
  proof (cases "np_nextFormat ?p < np_ledgerWrite ?p")
    case lt: True
    show ?thesis
    proof (cases "v = Go")
      case True
      let ?s = "s\<lparr>pr_pipe := p1, pr_texts := pr_texts s @ [frame_text (np_ready p1 ! ready_slot (np_readyWrite ?p))]\<rparr>"
      have "pipe_step hash s ?s" using pipe_step.prepare[OF lt] F True by simp
      moreover have "format_loop hash (pr_pipe ?s) qpc = (ok, q, ops)" using un lt F True by simp
      moreover have "np_ledgerWrite (pr_pipe ?s) - np_nextFormat (pr_pipe ?s) < np_ledgerWrite ?p - np_nextFormat ?p"
        using format_one_next[of hash ?p qpc p1] F True lt by simp
      ultimately show ?thesis using less.hyps[of ?s] by (auto intro: converse_rtranclp_into_rtranclp)
    next
      case False
      then have "q = p1" using un lt F by (cases v) auto
      with pipe_step.prepare_none[OF lt F False] show ?thesis by (intro exI[of _ "s\<lparr>pr_pipe := p1\<rparr>"]) auto
    qed
  qed (use un in auto)
qed

text \<open>Whatever it finds and however it ends, a call of \<open>PrepareNativeFrames\<close> is a run of these turns.\<close>

lemma prepare_is_steps:
  assumes "PrepareNativeFrames hash (pr_pipe s) (pr_ring s) qpc = (ok, q, ring', ops)"
  shows "\<exists>t. (pipe_step hash)\<^sup>*\<^sup>* s t \<and> pr_pipe t = q \<and> pr_ring t = ring'"
proof -
  let ?p = "pr_pipe s"
  obtain ok1 p1 ring1 ops1 where D: "drain kReportBatchLimit ?p (pr_ring s) = (ok1, p1, ring1, ops1)" by (metis prod_cases4)
  then obtain u where u: "(pipe_step hash)\<^sup>*\<^sup>* s u" "pr_pipe u = p1" "pr_ring u = ring1" using drain_is_steps by blast
  obtain ok2 p2 ops2 where F: "format_loop hash p1 qpc = (ok2, p2, ops2)" by (metis prod_cases3)
  then obtain t where t: "(pipe_step hash)\<^sup>*\<^sup>* u t" "pr_pipe t = p2" "pr_ring t = ring1"
    using format_is_steps[of hash u] u by metis
  consider "q = ?p \<and> ring' = pr_ring s" | "q = p1 \<and> ring' = ring1" | "q = p2 \<and> ring' = ring1"
    using assms by (auto simp: PrepareNativeFrames_def D F split: if_splits bool.splits)
  then show ?thesis using u t by cases (metis rtranclp.rtrancl_refl rtranclp_trans)+
qed

section \<open>The contract\<close>

text \<open>
  What the pipeline promises: a queue of texts with a mark for what the owner has released, a
  mark for what the log has shown, and whether the next text has been seen but not yet counted.
\<close>

record text_queue =
  tq_texts :: "byte list list"
  tq_released :: nat
  tq_observed :: nat
  tq_seen :: bool

definition queue_of :: "NativePipeline \<Rightarrow> byte list list \<Rightarrow> text_queue" where
  "queue_of p texts = \<lparr>tq_texts = texts, tq_released = np_readyRead p, tq_observed = np_ledgerRead p,
     tq_seen = (np_heldMatch p \<noteq> 0)\<rparr>"

definition queue_front :: "text_queue \<Rightarrow> byte list option" where
  "queue_front q = (if tq_released q < length (tq_texts q) then Some (tq_texts q ! tq_released q) else None)"

definition queue_release :: "nat \<Rightarrow> text_queue \<Rightarrow> bool \<times> text_queue" where
  "queue_release ticket q =
     (if tq_released q < length (tq_texts q) \<and> ticket = tq_released q + 1
      then (True, q\<lparr>tq_released := ticket\<rparr>) else (False, q))"

text \<open>The bootstrap is compared as a text, every other line by its length and digest.\<close>

definition line_is :: "hasher_fn \<Rightarrow> byte list list \<Rightarrow> byte list \<Rightarrow> nat \<Rightarrow> bool" where
  "line_is hash texts line t \<longleftrightarrow> (if t = 0 then line = texts ! 0 else same_digest hash line (texts ! t))"

definition queue_receive :: "hasher_fn \<Rightarrow> byte list \<Rightarrow> text_queue \<Rightarrow> ReceiptDisposition \<times> text_queue" where
  "queue_receive hash line q =
     (if tq_seen q \<or> hash line = None then (Disp_Corrupt, q)
      else case find (line_is hash (tq_texts q) line) [tq_observed q..<length (tq_texts q)] of
        None \<Rightarrow> (Disp_Corrupt, q)
      | Some t \<Rightarrow> if t \<noteq> tq_observed q then (Disp_Gap, q) else (Disp_AwaitingSubmission, q\<lparr>tq_seen := True\<rparr>))"

definition queue_acknowledge :: "OwnerSnapshotV3 \<Rightarrow> text_queue \<Rightarrow> bool \<times> text_queue" where
  "queue_acknowledge owner q =
     (if tq_seen q \<and> snapshot_ok owner \<and> submitted_in owner (tq_observed q)
      then (True, q\<lparr>tq_observed := tq_observed q + 1, tq_seen := False\<rparr>) else (False, q))"

text \<open>Observed, then released, then prepared, then taken; one text for each record, in order.\<close>

definition queue_ok :: "NativeFormatContext \<Rightarrow> ReportRecord list \<Rightarrow> text_queue \<Rightarrow> bool" where
  "queue_ok context homes q \<longleftrightarrow>
     tq_observed q \<le> tq_released q \<and> tq_released q \<le> length (tq_texts q) \<and>
     length (tq_texts q) \<le> tq_released q + kNativeReadyCapacity \<and>
     length (tq_texts q) \<le> length homes + 1 \<and> length homes + 1 \<le> tq_observed q + kNativeLedgerCapacity \<and>
     list_all event_text (tq_texts q) \<and>
     list_all (\<lambda>t. rec_sequence (rec_header (homes ! (t - 1))) = t \<and>
       formats_as context (homes ! (t - 1)) (tq_texts q ! t)) [1..<length (tq_texts q)]"

lemma queue_ok_run: "run_inv hash context s \<Longrightarrow> queue_ok context (pr_homes s) (queue_of (pr_pipe s) (pr_texts s))"
proof -
  assume "run_inv hash context s"
  then have inv: "pipe_inv hash (pr_pipe s) (pr_homes s) (pr_texts s)" and ctx: "np_format (pr_pipe s) = context"
    by (simp_all add: run_inv_def)
  note c = pipe_countsD[OF inv] and x = pipe_textsD[OF inv]
  have "rec_sequence (rec_header (pr_homes s ! (t - 1))) = t" if "1 \<le> t" "t < length (pr_texts s)" for t
    using x(4)[of "t - 1"] c(13) that by simp
  then show ?thesis using c x(2,3) ctx by (auto simp: queue_ok_def queue_of_def list_all_iff)
qed

lemma find_upt_cong: "(\<And>t. a \<le> t \<Longrightarrow> t < b \<Longrightarrow> P t = Q t) \<Longrightarrow> find P [a..<b] = find Q [a..<b]"
  by (rule find_cong) auto

lemma receive_refines:
  assumes "pipe_inv hash p homes texts"
  shows "(case MatchNativeReceipt hash p (Some line) of (d, q, ops) \<Rightarrow> (d, queue_of q texts)) =
    queue_receive hash line (queue_of p texts)"
proof -
  note c = pipe_countsD[OF assms]
  have valid: "LedgerValid p" using c by (simp add: LedgerValid_def)
  show ?thesis
  proof (cases "np_heldMatch p \<noteq> 0 \<or> hash line = None")
    case True
    then show ?thesis using c(1,7) by (auto simp: MatchNativeReceipt_def queue_receive_def queue_of_def split: option.splits)
  next
    case False
    then obtain digest where H: "hash line = Some digest" by auto
    have f: "find (\<lambda>t. entry_matches p line digest (ledger_at p t)) [np_ledgerRead p..<length texts] =
        find (line_is hash texts line) [np_ledgerRead p..<length texts]"
      by (rule find_upt_cong) (use entry_matches_iff[OF assms _ H] False in \<open>simp add: line_is_def\<close>)
    show ?thesis using False c(1,7) valid
      by (auto simp: MatchNativeReceipt_def queue_receive_def queue_of_def H match_tickets_eq f put_ledger_def
        split: option.splits)
  qed
qed

text \<open>
  C8: The pipeline is a queue of texts.  From a successful initialization, whatever the order
  of worker turns, owner calls, log lines and ring changes: the texts prepared are the
  formatted records in sequence order; nothing is observed before it was released nor released
  before it was prepared; at most 8 frames and 256 homes are outstanding; the owner's front
  frame is the next text; and each call acts on the pipeline as on that queue, a line of the
  log being counted only when it is the next text and the owner has submitted it.  Calls of
  \<open>PrepareNativeFrames\<close> are runs of worker turns (\<open>prepare_is_steps\<close>).
\<close>

theorem pipeline_is_text_queue:
  assumes "InitializeNativePipeline p0 same ring context given qpc = (TR_None, p1)" and "pipeline_ready p0"
    and "ring_reportReadSequence ring = 0" and "(pipe_step hash)\<^sup>*\<^sup>* (pipe_start p1 ring) s"
  shows "queue_ok context (pr_homes s) (queue_of (pr_pipe s) (pr_texts s)) \<and>
    map_option frame_text (fst (PeekNativeFrame (pr_pipe s))) = queue_front (queue_of (pr_pipe s) (pr_texts s)) \<and>
    (case ReleaseNativeFrame (pr_pipe s) ticket of (ok, q, ops) \<Rightarrow> (ok, queue_of q (pr_texts s))) =
      queue_release ticket (queue_of (pr_pipe s) (pr_texts s)) \<and>
    (case MatchNativeReceipt hash (pr_pipe s) (Some line) of (d, q, ops) \<Rightarrow> (d, queue_of q (pr_texts s))) =
      queue_receive hash line (queue_of (pr_pipe s) (pr_texts s)) \<and>
    (case AcknowledgeNativeReceipt (pr_pipe s) owner of (ok, q, ops) \<Rightarrow> (ok, queue_of q (pr_texts s))) =
      queue_acknowledge owner (queue_of (pr_pipe s) (pr_texts s))"
proof -
  have run: "run_inv hash context s" using run_inv_reachable[OF assms(4) run_inv_start[OF assms(1-3)]] .
  then have inv: "pipe_inv hash (pr_pipe s) (pr_homes s) (pr_texts s)" and b: "length (pr_homes s) < u64_max"
    by (simp_all add: run_inv_def)
  show ?thesis
  proof (intro conjI)
    show "map_option frame_text (fst (PeekNativeFrame (pr_pipe s))) = queue_front (queue_of (pr_pipe s) (pr_texts s))"
      by (simp add: Peek_eq[OF inv] queue_front_def queue_of_def)
    show "(case ReleaseNativeFrame (pr_pipe s) ticket of (ok, q, ops) \<Rightarrow> (ok, queue_of q (pr_texts s))) =
        queue_release ticket (queue_of (pr_pipe s) (pr_texts s))"
      by (auto simp: Release_eq[OF inv] queue_release_def queue_of_def)
    show "(case AcknowledgeNativeReceipt (pr_pipe s) owner of (ok, q, ops) \<Rightarrow> (ok, queue_of q (pr_texts s))) =
        queue_acknowledge owner (queue_of (pr_pipe s) (pr_texts s))"
      by (auto simp: Acknowledge_eq[OF inv b] queue_acknowledge_def queue_of_def observed_def)
  qed (rule queue_ok_run[OF run], rule receive_refines[OF inv])
qed

text \<open>The digest provider works on every event.\<close>

definition digests_events :: "hasher_fn \<Rightarrow> bool" where
  "digests_events hash \<longleftrightarrow> (\<forall>msg. event_text msg \<longrightarrow> hash msg \<noteq> None)"

lemma receive_next:
  assumes inv: "pipe_inv hash p homes texts" and "np_ledgerRead p < length texts" and "np_heldMatch p = 0"
    and "digests_events hash"
  shows "\<exists>ops. MatchNativeReceipt hash p (Some (texts ! np_ledgerRead p)) = (Disp_AwaitingSubmission, matched (np_ledgerRead p) p, ops)"
proof -
  let ?line = "texts ! np_ledgerRead p"
  obtain d q ops where M: "MatchNativeReceipt hash p (Some ?line) = (d, q, ops)" by (metis prod_cases3)
  have "event_text ?line" using pipe_textsD(2)[OF inv] assms(2) by (simp add: list_all_length)
  then have h: "hash ?line \<noteq> None" using assms(4) by (simp add: digests_events_def)
  have "[np_ledgerRead p..<length texts] = np_ledgerRead p # [np_ledgerRead p + 1..<length texts]"
    using upt_rec[of "np_ledgerRead p" "length texts"] assms(2) by simp
  moreover have "line_is hash texts ?line (np_ledgerRead p)" by (simp add: line_is_def same_digest_def)
  ultimately have "queue_receive hash ?line (queue_of p texts) =
      (Disp_AwaitingSubmission, (queue_of p texts)\<lparr>tq_seen := True\<rparr>)"
    using assms(3) h by (auto simp: queue_receive_def queue_of_def)
  then have "d = Disp_AwaitingSubmission" using receive_refines[OF inv, of ?line] by (simp add: M)
  with match_cases[OF inv M] show ?thesis using M by auto
qed

text \<open>What the owner publishes after so many submissions, the startup among them.\<close>

definition owner_after :: "nat \<Rightarrow> OwnerSnapshotV3" where
  "owner_after submitted = \<lparr>os_owner = zero_payload,
     os_transport = transport_zero\<lparr>ot_startupSubmitted := (if submitted = 0 then 0 else 1),
       ot_submittedSequence := submitted - 1\<rparr>, os_sequence = 2\<rparr>"

section \<open>A concrete pipeline\<close>

definition pipe_zero :: NativePipeline where
  "pipe_zero = \<lparr>np_status = False, np_ring = False, np_format = sample_context, np_readyWrite = 0, np_readyRead = 0,
     np_ledgerRead = 0, np_ledgerWrite = 0, np_nextFormat = 0, np_preparedSequence = 0, np_observedSequence = 0,
     np_startupObserved = 0, np_heldMatch = 0, np_initialized = 0, np_recoveryDetail = False,
     np_terminalDetailSeen = False, np_builderDetailActive = False, np_builderDetail = False,
     np_builderPostBoundary = False, np_detailBoundaryPairs = 0, np_detailBuildSequence = 0,
     np_detailSourceEpoch = 0, np_detailBindingEpoch = 0, np_detailOverallDeadlineQpc = 0, np_bootstrap = [],
     np_ledger = replicate kNativeLedgerCapacity entry_zero,
     np_ready = replicate kNativeReadyCapacity (frame_of 0 [])\<rparr>"

definition idle_ring :: ReportRing where
  "idle_ring = \<lparr>ring_status = True, ring_ownerThreadId = 77, ring_ready = 1, ring_reportWriteSequence = 0,
     ring_reportReadSequence = 0, ring_slots = replicate kReportRecordCapacity record_zero\<rparr>"

definition sample_pipe :: NativePipeline where
  "sample_pipe = snd (InitializeNativePipeline pipe_zero True idle_ring sample_context True 1)"

lemma sample_initializes:
  "InitializeNativePipeline pipe_zero True idle_ring sample_context True 1 = (TR_None, sample_pipe)"
proof -
  obtain msg where F: "FormatNativeBootstrap sample_context True (kMessageLimit + 1) = Some msg"
    using sample_bootstrap by auto
  have "event_text msg" using bootstrap_event[OF F] .
  moreover have "length msg < kMessageLimit + 1" using bootstrap_event[OF F] by (auto simp: event_text_def)
  ultimately have W: "PrepareMessage msg (kMessageLimit + 1) = Some (map ucast msg @ [0])" by (simp add: PrepareMessage_iff)
  show ?thesis unfolding sample_pipe_def
    by (simp add: InitializeNativePipeline_def PrepareNativeBootstrap_def bootstrap_capacity_def
      F[simplified] W[simplified]) (simp add: pipe_zero_def idle_ring_def)
qed

lemma sample_pipe_ready: "pipeline_ready pipe_zero" "ring_reportReadSequence idle_ring = 0"
  by (simp_all add: pipeline_ready_def pipe_zero_def idle_ring_def entry_zero_def list_all_length)

lemma sample_released: "np_readyRead sample_pipe = 0"
  using sample_initializes by (auto simp: InitializeNativePipeline_def pipe_zero_def
    dest!: arg_cong[where f = np_readyRead] split: if_splits prod.splits option.splits)

lemma pipeline_is_text_queue_witness:
  "map_option frame_text (fst (PeekNativeFrame sample_pipe)) = Some (np_bootstrap sample_pipe)"
  using pipeline_is_text_queue[where hash = Some and ticket = 1 and line = "[]" and owner = "owner_after 0",
      OF sample_initializes sample_pipe_ready rtranclp.rtrancl_refl]
  by (simp add: pipe_start_def queue_front_def queue_of_def sample_released)

section \<open>Through the log and back\<close>

text \<open>The pipeline's matcher as the scanner calls it: the context is the pipeline and what it latched.\<close>

definition pipeline_matcher :: "hasher_fn \<Rightarrow> (NativePipeline \<times> atomic list) matcher" where
  "pipeline_matcher hash ctx bytes =
     (case MatchNativeReceipt hash (fst ctx) (Some bytes) of (d, q, ops) \<Rightarrow> (d, q, snd ctx @ ops))"

lemma text_of_run:
  assumes "pipe_inv hash p homes texts" and "t < length texts"
    and "FormatNativeBootstrap (np_format p) True bootstrap_capacity = Some (np_bootstrap p)"
  shows "BelongsToRun (texts ! t @ crlf) (sh_runId (fc_header (np_format p)))"
proof -
  have more_text: "BelongsToRun (m @ crlf) run" if "BelongsToRun m run" for m run
    using that unfolding BelongsToRun_iff by (metis append.assoc)
  show ?thesis
  proof (cases "t = 0")
    case True
    then show ?thesis using more_text[OF bootstrap_of_run[OF assms(3)]] pipe_textsD(1)[OF assms(1)] by simp
  next
    case False
    then show ?thesis using pipe_textsD(3)[OF assms(1), of t] assms(2) more_text formatted_event
      by (auto simp: formats_as_def)
  qed
qed

text \<open>
  C10: A frame comes back.  Take any reachable pipeline whose next text has not been seen, and
  let the engine write that text behind its prefix and end the line: the receipt scanner of
  the same run, between two lines, reads exactly that line, hands the text to the pipeline, and
  stops with the pipeline waiting for the owner's submission of just that text.
\<close>

theorem frame_comes_back:
  assumes "InitializeNativePipeline p0 same ring context given qpc = (TR_None, p1)" and "pipeline_ready p0"
    and "ring_reportReadSequence ring = 0" and "(pipe_step hash)\<^sup>*\<^sup>* (pipe_start p1 ring) s"
    and "np_ledgerRead (pr_pipe s) < length (pr_texts s)" and "np_heldMatch (pr_pipe s) = 0" and "digests_events hash"
    and "engine_prefix (scan_prefixMode scanner) pre" and "scan_runId scanner = sh_runId (fc_header context)"
    and "between_lines scanner" and "scan_offset scanner + kLineLimit \<le> u64_max"
  shows "let line = pre @ pr_texts s ! np_ledgerRead (pr_pipe s) @ crlf in
    case ScanReceiptChunk (Some (pipeline_matcher hash)) scanner (pr_pipe s, ops) (Some line) of
      (scanner', (q, ops'), consumed, d) \<Rightarrow>
        d = Disp_AwaitingSubmission \<and> consumed = length line \<and> scan_awaitingSubmission scanner' \<and>
        queue_of q (pr_texts s) = (queue_of (pr_pipe s) (pr_texts s))\<lparr>tq_seen := True\<rparr>"
proof -
  have run: "run_inv hash context s" using run_inv_reachable[OF assms(4) run_inv_start[OF assms(1-3)]] .
  then have inv: "pipe_inv hash (pr_pipe s) (pr_homes s) (pr_texts s)" and ctx: "np_format (pr_pipe s) = context"
    and boot: "FormatNativeBootstrap context True bootstrap_capacity = Some (np_bootstrap (pr_pipe s))"
    by (simp_all add: run_inv_def)
  let ?t = "np_ledgerRead (pr_pipe s)"
  let ?msg = "pr_texts s ! ?t" and ?mode = "scan_prefixMode scanner"
  let ?line = "pre @ ?msg @ crlf"
  have e: "event_text ?msg" using pipe_textsD(2)[OF inv] assms(5) by (simp add: list_all_length)
  obtain ops1 where M: "MatchNativeReceipt hash (pr_pipe s) (Some ?msg) =
      (Disp_AwaitingSubmission, matched ?t (pr_pipe s), ops1)" using receive_next[OF inv assms(5,6,7)] by blast
  note p = conjunct1[OF engine_prefix_line[OF assms(8)]] conjunct2[OF engine_prefix_line[OF assms(8)]]
  have short: "length ?line \<le> kLineLimit"
    using engine_prefix_bound[OF assms(8)] event_text_length[OF e] by (simp add: kLineLimit_def crlf_def)
  have "0x0A \<notin> set ?msg" using e by (auto simp: event_text_def list_all_iff printable_def)
  then have whole: "whole_line ?line"
    using p by (simp add: whole_line_def crlf_def butlast_append)
  have "BelongsToRun (drop (length pre) ?line) (scan_runId scanner)"
    using text_of_run[OF inv assms(5)] boot ctx assms(9) by simp
  then have v: "line_verdict (pipeline_matcher hash) ?mode (scan_runId scanner) ?line (pr_pipe s, ops) =
      (Disp_AwaitingSubmission, matched ?t (pr_pipe s), ops @ ops1)"
    using short p(1) inspect_event_line[OF e assms(8)]
    by (simp add: line_verdict_def line_disposition_def line_view_def slice_def pipeline_matcher_def M)
  have fit: "scan_offset scanner + length ?line \<le> u64_max" using assms(11) short by linarith
  have "ScanReceiptChunk (Some (pipeline_matcher hash)) scanner (pr_pipe s, ops) (Some ?line) =
      (after_line scanner (length ?line) Disp_AwaitingSubmission, (matched ?t (pr_pipe s), ops @ ops1),
       length ?line, Disp_AwaitingSubmission)"
    using scan_one_line[OF assms(10) whole fit v, of "[]"] assms(10)
    by (simp add: ScanReceiptChunk_def between_lines_def)
  then show ?thesis by (simp add: Let_def after_line_def queue_of_def matched_def)
qed

definition sample_scanner :: ReceiptScanner where
  "sample_scanner = InitializeReceiptScanner 0 True LogOnly (sh_runId (fc_header sample_context))"

lemma sample_unseen: "np_ledgerRead sample_pipe = 0" "np_heldMatch sample_pipe = 0"
  using run_inv_start[OF sample_initializes sample_pipe_ready, of Some] sample_initializes sample_released
    pipe_countsD(11)[of Some sample_pipe "[]" "[np_bootstrap sample_pipe]"]
  by (auto simp: run_inv_def pipe_start_def InitializeNativePipeline_def pipe_zero_def
    dest!: arg_cong[where f = np_heldMatch] split: if_splits prod.splits option.splits)

lemma frame_comes_back_witness:
  "case ScanReceiptChunk (Some (pipeline_matcher Some)) sample_scanner (sample_pipe, [])
      (Some (bytes_of ''Log: '' @ np_bootstrap sample_pipe @ crlf)) of
    (scanner', (q, ops), consumed, d) \<Rightarrow> d = Disp_AwaitingSubmission \<and> scan_awaitingSubmission scanner'"
proof -
  have d: "digests_events Some" by (simp add: digests_events_def)
  have pre: "engine_prefix (scan_prefixMode sample_scanner) (bytes_of ''Log: '')"
    by (simp add: engine_prefix_def sample_scanner_def InitializeReceiptScanner_def)
  have lim: "scan_offset sample_scanner + kLineLimit \<le> u64_max"
    by (simp add: sample_scanner_def InitializeReceiptScanner_def kLineLimit_def kPrefixLimit_def kMessageLimit_def)
  have between: "between_lines sample_scanner" "scan_runId sample_scanner = sh_runId (fc_header sample_context)"
    by (simp_all add: between_lines_def sample_scanner_def InitializeReceiptScanner_def)
  show ?thesis
    using frame_comes_back[where hash = Some and ops = "[]",
        OF sample_initializes sample_pipe_ready rtranclp.rtrancl_refl _ _ d pre between(2,1) lim]
    by (auto simp: pipe_start_def sample_unseen Let_def split: prod.splits)
qed

end
