(* ===== verification/PipelineService.thy ===== *)
theory PipelineService
  imports Pipeline
begin

text \<open>
  The pipeline in whole cycles of the program: the worker's complete call of
  \<open>PrepareNativeFrames\<close>, the owner's submission of the front frame, the next line of the log
  and its acknowledgement (the callers in \<open>src/companion/steam_reporting_worker.cpp\<close> and
  \<open>steam_reporting_transport.cpp\<close>).  Every cycle observes one more text, from every state a run
  can reach, until the records taken and the records still in the ring are all observed.
\<close>

section \<open>What the worker needs\<close>

text \<open>Records whose values fit their widths, and whose times can be derived.\<close>

definition context_fits :: "NativeFormatContext \<Rightarrow> bool" where
  "context_fits c \<longleftrightarrow> length (sh_runId (fc_header c)) = 16 \<and> sh_pid (fc_header c) \<le> u64_max \<and>
     li_utcFiletime (fc_log c) \<le> u64_max"

definition record_timed :: "NativeFormatContext \<Rightarrow> ReportRecord \<Rightarrow> bool" where
  "record_timed c r \<longleftrightarrow> record_fits r \<and>
     DeriveUtcFiletime (fc_log c) (sh_qpcFrequency (fc_header c)) (rec_qpc (rec_header r)) \<noteq> None"

lemma can_format:
  assumes inv: "pipe_inv hash p homes texts" and "length texts < length homes + 1"
    and "length texts - np_readyRead p < kNativeReadyCapacity" and "length homes < u64_max"
    and "ContextValid (np_format p)" and "context_fits (np_format p)" and "digests_events hash"
    and "list_all (record_timed (np_format p)) homes"
  shows "\<exists>q. format_one hash p qpc = (Go, q)"
proof -
  note c = pipe_countsD[OF inv] and l = pipe_ledgerD(2,3)[OF inv order_refl assms(2)]
  obtain r where r: "r = homes ! (length texts - 1)" by simp
  have i: "length texts - 1 < length homes" using c(6) assms(2) by simp
  have timed: "record_timed (np_format p) r" using assms(8) i by (simp add: list_all_length r)
  have sc: "scalar_of (ledger_at p (length texts)) = r" using scalar_home[OF inv assms(2)] by (simp add: r)
  obtain detail p1 where D: "RecoveryDetail p r = (detail, p1)" by fastforce
  have "FormatNativeRecord (np_format p) r True (kMessageLimit + 1) detail \<noteq> None"
    using record_fits_text[OF assms(5), of r "kMessageLimit + 1" detail] assms(6) timed pipe_textsD(5)[OF inv i, folded r]
    by (simp add: context_fits_def record_timed_def kMessageLimit_def)
  then obtain msg where F: "FormatNativeRecord (np_format p) r True (kMessageLimit + 1) detail = Some msg" by auto
  note e = formatted_event[OF F]
  then obtain digest where H: "hash msg = Some digest" using assms(7) by (auto simp: digests_events_def)
  have W: "PrepareMessage msg (kMessageLimit + 1) = Some (map ucast msg @ [0])" using e by (simp add: PrepareMessage_iff)
  have Q: "QueueState p = Some (length texts, np_readyRead p)" using c by (simp add: QueueState_def Let_def)
  have "np_preparedSequence p + 1 = length texts" "np_preparedSequence p \<noteq> u64_max" "length texts \<noteq> u64_max"
    using c(6,10) i assms(4) by simp_all
  then show ?thesis using assms(3) c(7) l
    by (simp add: format_one_def Q Let_def sc D RecoveryDetail_frame(1)[OF D] F[simplified] H W[simplified])
qed

section \<open>Calls of the worker\<close>

text \<open>A ring between the owner's calls that still holds the records \<open>rs\<close>.\<close>

definition queued :: "ReportRing \<Rightarrow> ReportRecord list \<Rightarrow> bool" where
  "queued ring rs \<longleftrightarrow> ring_ready ring = 1 \<and> ring_status ring \<and> length (ring_slots ring) = kReportRecordCapacity \<and>
     length rs \<le> kReportRecordCapacity \<and> ring_reportWriteSequence ring = ring_reportReadSequence ring + length rs \<and>
     list_all (\<lambda>i. ring_slots ring ! ((ring_reportReadSequence ring + i) mod kReportRecordCapacity) = rs ! i \<and>
       slot_ok True (ring_reportReadSequence ring + i + 1) (ring_ownerThreadId ring) (rs ! i)) [0..<length rs]"

text \<open>It is what every run of the ring's two ends leaves, whenever neither is inside a call.\<close>

lemma ring_run_queued:
  assumes "ring_inv True s" and "run_consumer s = C_Idle" and "ring_ready (run_ring s) = 1" and "ring_status (run_ring s)"
  shows "queued (run_ring s) (drop (length (run_delivered s)) (run_accepted s))"
  using assms by (auto simp: queued_def ring_inv_def ring_counts_def ring_content_def list_all_iff)

lemma queued_Nil: "queued ring [] \<Longrightarrow> Dequeue True (ring_reportWriteSequence ring) ring True = (RD_Empty, record_zero, ring, [])"
  by (simp add: queued_def Dequeue_def dequeue_checks_def)

lemma queued_Cons:
  assumes "queued ring (r # rs)"
  shows "\<exists>ring'. Dequeue True (ring_reportWriteSequence ring) ring True = (RD_Record, r, ring', []) \<and> queued ring' rs"
proof -
  let ?n = "ring_reportReadSequence ring" and ?ring = "release_slot (scrub_slot ring)"
  note q = assms[unfolded queued_def]
  have at: "ring_slots ring ! ((?n + i) mod kReportRecordCapacity) = (r # rs) ! i"
    "slot_ok True (?n + i + 1) (ring_ownerThreadId ring) ((r # rs) ! i)" if "i < length (r # rs)" for i
    using q that by (auto simp: list_all_iff simp del: upt_Suc)
  have "dequeue_checks True (ring_reportWriteSequence ring) ring = DQ_Take" "read_slot ring = r"
    using q at[of 0] by (simp_all add: dequeue_checks_def read_slot_def Let_def)
  moreover have "ring_slots ?ring ! ((?n + 1 + i) mod kReportRecordCapacity) = rs ! i" if "i < length rs" for i
  proof -
    have "?n mod kReportRecordCapacity \<noteq> (?n + 1 + i) mod kReportRecordCapacity" using q that by (intro mod_apart) auto
    then show ?thesis using at(1)[of "i + 1"] that by (simp add: ring_ops)
  qed
  moreover have "slot_ok True (?n + 1 + i + 1) (ring_ownerThreadId ring) (rs ! i)" if "i < length rs" for i
    using at(2)[of "i + 1"] that by (simp add: add.commute add.left_commute)
  ultimately show ?thesis using q by (auto simp: Dequeue_def queued_def ring_ops list_all_iff)
qed

text \<open>What no turn of the worker moves.\<close>

definition same_ends :: "pipe_run \<Rightarrow> pipe_run \<Rightarrow> bool" where
  "same_ends s t \<longleftrightarrow> np_ledgerRead (pr_pipe t) = np_ledgerRead (pr_pipe s) \<and>
     np_readyRead (pr_pipe t) = np_readyRead (pr_pipe s) \<and> np_heldMatch (pr_pipe t) = np_heldMatch (pr_pipe s)"

lemma same_ends_refl: "same_ends s s"
  by (simp add: same_ends_def)

lemma same_ends_trans: "same_ends s t \<Longrightarrow> same_ends t u \<Longrightarrow> same_ends s u"
  by (simp add: same_ends_def)

lemma drain_one_ends:
  "drain_one p ring = (v, q, ring', ops) \<Longrightarrow>
   np_ledgerRead q = np_ledgerRead p \<and> np_readyRead q = np_readyRead p \<and> np_heldMatch q = np_heldMatch p"
  by (auto simp: drain_one_def Let_def split: if_splits prod.splits ReportReadResult.splits)

lemma format_one_ends:
  assumes "format_one hash p qpc = (Go, q)"
  shows "np_ledgerRead q = np_ledgerRead p \<and> np_readyRead q = np_readyRead p \<and> np_heldMatch q = np_heldMatch p"
proof -
  obtain detail p1 msg digest wide wr where D: "RecoveryDetail p (scalar_of (ledger_at p (np_nextFormat p))) = (detail, p1)"
    and q: "q = store_frame wr qpc msg digest wide p1" using assms by (rule format_one_Go)
  show ?thesis by (simp add: q store_frame_def Let_def put_ledger_def RecoveryDetail_frame[OF D])
qed

text \<open>
  A run in service: the records the pipeline took and those the ring still holds are the
  records \<open>all\<close>.
\<close>

definition in_service :: "hasher_fn \<Rightarrow> NativeFormatContext \<Rightarrow> ReportRecord list \<Rightarrow> pipe_run \<Rightarrow> bool" where
  "in_service hash context all s \<longleftrightarrow> run_inv hash context s \<and>
     take (length (pr_homes s)) all = pr_homes s \<and> queued (pr_ring s) (drop (length (pr_homes s)) all)"

lemma service_homes: "in_service hash context all s \<Longrightarrow> length (pr_homes s) \<le> length all"
  unfolding in_service_def by (metis length_take min.cobounded1)

text \<open>One turn of the drain takes the next record, when there is one.\<close>

lemma drain_one_serves:
  assumes "in_service hash context all s" and "length all + 1 < u64_max" and "length (pr_homes s) < length all"
    and room: "np_ledgerWrite (pr_pipe s) - np_ledgerRead (pr_pipe s) < kNativeLedgerCapacity"
  shows "\<exists>q ring'. drain_one (pr_pipe s) (pr_ring s) = (Go, q, ring', []) \<and>
    in_service hash context all (s\<lparr>pr_pipe := q, pr_ring := ring', pr_homes := pr_homes s @ [all ! length (pr_homes s)]\<rparr>)"
proof -
  let ?p = "pr_pipe s" and ?r = "all ! length (pr_homes s)" and ?rest = "drop (length (pr_homes s) + 1) all"
  have run: "run_inv hash context s" and q: "queued (pr_ring s) (?r # ?rest)"
    using assms(1,3) by (simp_all add: in_service_def Cons_nth_drop_Suc)
  then have inv: "pipe_inv hash ?p (pr_homes s) (pr_texts s)" and rd: "ring_reportReadSequence (pr_ring s) = length (pr_homes s)"
    by (simp_all add: run_inv_def)
  note c = pipe_countsD[OF inv]
  obtain ring' where D: "Dequeue True (ring_reportWriteSequence (pr_ring s)) (pr_ring s) True = (RD_Record, ?r, ring', [])"
    and q': "queued ring' ?rest" using queued_Cons[OF q] by blast
  have "le_state (ledger_at ?p (np_ledgerWrite ?p)) = L_Empty"
    using pipe_ledgerD(5)[OF inv] c(8) room by simp
  moreover have "np_ledgerWrite ?p \<noteq> u64_max" using c(8) assms(2,3) by simp
  ultimately obtain p1 where O: "drain_one ?p (pr_ring s) = (Go, p1, ring', [])"
    by (simp add: drain_one_def Let_def D)
  obtain r where r: "pipe_inv hash p1 (pr_homes s @ [r]) (pr_texts s)" "ring_reportReadSequence ring' = length (pr_homes s @ [r])"
    "Dequeue True (ring_reportWriteSequence (pr_ring s)) (pr_ring s) True = (RD_Record, r, ring', [])"
    using drain_one_keeps[OF inv rd room O] by blast
  then have "r = ?r" using D by simp
  with r O q' run drain_one_context[OF O] assms(1-3) show ?thesis
    by (intro exI[of _ p1] exI[of _ ring']) (simp add: in_service_def run_inv_def take_Suc_conv_app_nth)
qed

lemma drain_serves:
  assumes "in_service hash context all s" and "length all + 1 < u64_max"
  shows "\<exists>t ops. drain n (pr_pipe s) (pr_ring s) = (True, pr_pipe t, pr_ring t, ops) \<and> in_service hash context all t \<and>
    pr_texts t = pr_texts s \<and> same_ends s t \<and> length (pr_homes s) \<le> length (pr_homes t) \<and>
    (0 < n \<and> length (pr_homes s) < length all \<and>
       np_ledgerWrite (pr_pipe s) - np_ledgerRead (pr_pipe s) < kNativeLedgerCapacity \<longrightarrow>
     length (pr_homes s) < length (pr_homes t))"
  using assms(1)
proof (induction n arbitrary: s)
  case 0
  then show ?case using same_ends_refl by auto
next
  case (Suc n)
  let ?p = "pr_pipe s"
  consider (full) "\<not> np_ledgerWrite ?p - np_ledgerRead ?p < kNativeLedgerCapacity"
    | (more) "np_ledgerWrite ?p - np_ledgerRead ?p < kNativeLedgerCapacity" "length (pr_homes s) < length all"
    | (none) "np_ledgerWrite ?p - np_ledgerRead ?p < kNativeLedgerCapacity" "length (pr_homes s) = length all"
    using service_homes[OF Suc.prems] by linarith
  then show ?case
  proof cases
    case full
    then show ?thesis using Suc.prems same_ends_refl by (intro exI[of _ s] exI[of _ "[]"]) auto
  next
    case more
    obtain q ring' where O: "drain_one ?p (pr_ring s) = (Go, q, ring', [])"
      and serv: "in_service hash context all (s\<lparr>pr_pipe := q, pr_ring := ring', pr_homes := pr_homes s @ [all ! length (pr_homes s)]\<rparr>)"
        (is "in_service _ _ _ ?s")
      using drain_one_serves[OF Suc.prems assms(2) more(2,1)] by blast
    obtain t ops where t: "drain n q ring' = (True, pr_pipe t, pr_ring t, ops)" "in_service hash context all t"
      "pr_texts t = pr_texts s" "same_ends ?s t" "length (pr_homes s) < length (pr_homes t)"
      using Suc.IH[OF serv] by (auto simp: Suc_le_eq)
    moreover have "same_ends s ?s" using drain_one_ends[OF O] by (simp add: same_ends_def)
    ultimately show ?thesis using O more same_ends_trans by (intro exI[of _ t] exI[of _ ops]) auto
  next
    case none
    have run: "run_inv hash context s" and q: "queued (pr_ring s) []" using Suc.prems none by (simp_all add: in_service_def)
    obtain v p1 ring1 ops1 where O: "drain_one ?p (pr_ring s) = (v, p1, ring1, ops1)" by (metis prod_cases4)
    have inv: "pipe_inv hash ?p (pr_homes s) (pr_texts s)" using run by (simp add: run_inv_def)
    have "v = Stop"
      using O queued_Nil[OF q] pipe_ledgerD(5)[OF inv] pipe_countsD(8)[OF inv] none assms(2)
      by (auto simp: drain_one_def Let_def split: if_splits)
    moreover have "pipe_inv hash p1 (pr_homes s) (pr_texts s) \<and> ring1 = pr_ring s"
      using drain_one_other[OF inv none(1) O] calculation by simp
    ultimately show ?thesis using O none Suc.prems drain_one_context[OF O] drain_one_ends[OF O]
      by (intro exI[of _ "s\<lparr>pr_pipe := p1\<rparr>"] exI[of _ ops1]) (auto simp: in_service_def run_inv_def same_ends_def)
  qed
qed

text \<open>The second loop formats until every record taken has its text or the ready queue is full.\<close>

lemma format_serves:
  assumes "in_service hash context all s" and "ContextValid context" and "context_fits context" and "digests_events hash"
    and "list_all (record_timed context) all"
  shows "\<exists>t more. format_loop hash (pr_pipe s) qpc = (True, pr_pipe t, []) \<and> in_service hash context all t \<and>
    pr_homes t = pr_homes s \<and> pr_ring t = pr_ring s \<and> pr_texts t = pr_texts s @ more \<and> same_ends s t \<and>
    (length (pr_texts t) = length (pr_homes t) + 1 \<or>
     length (pr_texts t) = np_readyRead (pr_pipe t) + kNativeReadyCapacity)"
  using assms(1)
proof (induction "length (pr_homes s) + 1 - length (pr_texts s)" arbitrary: s rule: less_induct)
  case less
  let ?p = "pr_pipe s" and ?texts = "pr_texts s"
  have run: "run_inv hash context s" using less.prems by (simp add: in_service_def)
  then have inv: "pipe_inv hash ?p (pr_homes s) ?texts" and b: "length (pr_homes s) < u64_max"
    and ctx: "np_format ?p = context" by (simp_all add: run_inv_def)
  note c = pipe_countsD[OF inv]
  consider (formatted) "length ?texts = length (pr_homes s) + 1"
    | (full) "length ?texts < length (pr_homes s) + 1" "length ?texts - np_readyRead ?p = kNativeReadyCapacity"
    | (go) "length ?texts < length (pr_homes s) + 1" "length ?texts - np_readyRead ?p < kNativeReadyCapacity"
    using c(13,15) by linarith
  then show ?case
  proof cases
    case formatted
    then show ?thesis using less.prems c(7,8) same_ends_refl
      by (intro exI[of _ s] exI[of _ "[]"]) (simp add: format_loop.simps)
  next
    case full
    then have "format_one hash ?p qpc = (Stop, ?p)" using c(9,12,15) by (simp add: format_one_def QueueState_def Let_def)
    then show ?thesis using full less.prems c(7,8,12) same_ends_refl
      by (intro exI[of _ s] exI[of _ "[]"]) (simp add: format_loop.simps)
  next
    case go
    have "list_all (record_timed (np_format ?p)) (pr_homes s)"
      using assms(5) less.prems ctx unfolding in_service_def by (metis append_take_drop_id list_all_append)
    then obtain q where F: "format_one hash ?p qpc = (Go, q)"
      using can_format[OF inv go b] assms(2-4) ctx by blast
    have lt: "np_nextFormat ?p < np_ledgerWrite ?p" using go c(7,8) by simp
    let ?s = "s\<lparr>pr_pipe := q, pr_texts := ?texts @ [frame_text (np_ready q ! ready_slot (np_readyWrite ?p))]\<rparr>"
    have "run_inv hash context ?s" using run_inv_step[OF pipe_step.prepare[OF lt F] run] .
    then have serv: "in_service hash context all ?s" using less.prems by (simp add: in_service_def)
    have "length (pr_homes ?s) + 1 - length (pr_texts ?s) < length (pr_homes s) + 1 - length ?texts" using go by simp
    from less.hyps[OF this serv] obtain t more where t: "format_loop hash q qpc = (True, pr_pipe t, [])"
      "in_service hash context all t" "pr_homes t = pr_homes s" "pr_ring t = pr_ring s" "pr_texts t = pr_texts ?s @ more" "same_ends ?s t"
      "length (pr_texts t) = length (pr_homes t) + 1 \<or> length (pr_texts t) = np_readyRead (pr_pipe t) + kNativeReadyCapacity"
      by auto
    moreover have "same_ends s ?s" using format_one_ends[OF F] by (simp add: same_ends_def)
    moreover have "format_loop hash ?p qpc = format_loop hash q qpc" using lt F by (simp add: format_loop.simps[of hash ?p])
    ultimately show ?thesis using same_ends_trans by (intro exI[of _ t] exI) auto
  qed
qed

lemma prepare_serves:
  assumes serv: "in_service hash context all s" and "length all + 1 < u64_max" and "ContextValid context"
    and "context_fits context" and "digests_events hash" and "list_all (record_timed context) all" and "qpc \<noteq> 0"
  shows "\<exists>t more ops. PrepareNativeFrames hash (pr_pipe s) (pr_ring s) qpc = (True, pr_pipe t, pr_ring t, ops) \<and>
    in_service hash context all t \<and> pr_texts t = pr_texts s @ more \<and> same_ends s t \<and>
    (np_ledgerRead (pr_pipe t) < length (pr_texts t) \<or> length (pr_texts t) = length all + 1)"
proof -
  let ?p = "pr_pipe s"
  have inv: "pipe_inv hash ?p (pr_homes s) (pr_texts s)" using serv by (simp add: in_service_def run_inv_def)
  note c = pipe_countsD[OF inv]
  obtain u ops where u: "drain kReportBatchLimit ?p (pr_ring s) = (True, pr_pipe u, pr_ring u, ops)"
    "in_service hash context all u" "pr_texts u = pr_texts s" "same_ends s u" "length (pr_homes s) \<le> length (pr_homes u)"
    and more_homes: "length (pr_homes s) < length all \<Longrightarrow> np_ledgerWrite ?p - np_ledgerRead ?p < kNativeLedgerCapacity \<Longrightarrow>
      length (pr_homes s) < length (pr_homes u)"
    using drain_serves[OF serv assms(2), of kReportBatchLimit] by (auto simp: kReportBatchLimit_def)
  obtain t more where t: "format_loop hash (pr_pipe u) qpc = (True, pr_pipe t, [])" "in_service hash context all t"
    "pr_homes t = pr_homes u" "pr_texts t = pr_texts u @ more" "same_ends u t" "pr_ring t = pr_ring u"
    "length (pr_texts t) = length (pr_homes t) + 1 \<or> length (pr_texts t) = np_readyRead (pr_pipe t) + kNativeReadyCapacity"
    using format_serves[OF u(2) assms(3-6), of qpc] by blast
  have valid: "LedgerValid ?p" using c by (simp add: LedgerValid_def)
  have P: "PrepareNativeFrames hash ?p (pr_ring s) qpc = (True, pr_pipe t, pr_ring t, ops @ [])"
    using c(1-3) valid assms(7) u(1) t(1,6) by (simp add: PrepareNativeFrames_def)
  have "length (pr_texts t) = length all + 1" if stuck: "\<not> np_ledgerRead (pr_pipe t) < length (pr_texts t)"
  proof -
    have inv': "pipe_inv hash (pr_pipe t) (pr_homes t) (pr_texts t)" using t(2) by (simp add: in_service_def run_inv_def)
    note c' = pipe_countsD[OF inv']
    have ends: "np_ledgerRead (pr_pipe t) = np_ledgerRead ?p" using u(4) t(5) by (simp add: same_ends_def)
    have all_formatted: "length (pr_texts t) = length (pr_homes u) + 1"
      using t(3,7) c'(11,12) stuck by (auto simp: kNativeReadyCapacity_def)
    then have "length (pr_homes u) = length (pr_homes s)" "np_ledgerRead ?p = length (pr_homes s) + 1"
      using c(11-13) u(3,5) t(4) stuck ends c'(11,12) by simp_all
    then have "length (pr_homes s) = length all"
      using more_homes c(8) service_homes[OF serv] by (force simp: kNativeLedgerCapacity_def)
    then show ?thesis using all_formatted \<open>length (pr_homes u) = length (pr_homes s)\<close> by simp
  qed
  with P t u same_ends_trans[OF u(4) t(5)] show ?thesis by (intro exI[of _ t] exI[of _ more] exI[of _ "ops @ []"]) auto
qed

section \<open>Cycles of the whole program\<close>

text \<open>
  One cycle of the program around the pipeline, every step of which is a whole call.  The
  worker prepares frames; the owner submits the front frame, holding every other text back
  until the startup has been observed (\<open>NativeTransportFrame\<close> of
  \<open>steam_reporting_transport.cpp\<close>), and the engine appends its line to the log; the worker
  reads the next line of the log that it has not read and acknowledges it against what the
  owner says it has submitted.  \<open>pw_log\<close> are the texts of the lines in the log.
\<close>

record pipe_world =
  pw_pipe :: NativePipeline
  pw_ring :: ReportRing
  pw_log :: "byte list list"

definition submit_next :: "NativePipeline \<Rightarrow> byte list list \<Rightarrow> NativePipeline \<times> byte list list" where
  "submit_next p log = (case fst (PeekNativeFrame p) of
     None \<Rightarrow> (p, log)
   | Some f \<Rightarrow>
       if rf_sequence f \<noteq> 0 \<and> np_startupObserved p = 0 then (p, log)
       else (case ReleaseNativeFrame p (rf_ticket f) of (ok, q, ops) \<Rightarrow> (q, log @ [frame_text f])))"

definition read_next :: "hasher_fn \<Rightarrow> NativePipeline \<Rightarrow> byte list list \<Rightarrow> NativePipeline" where
  "read_next hash p log =
     (if np_heldMatch p = 0 \<and> np_ledgerRead p < length log
      then (case MatchNativeReceipt hash p (Some (log ! np_ledgerRead p)) of (d, q, ops) \<Rightarrow> q) else p)"

definition acknowledge_next :: "NativePipeline \<Rightarrow> byte list list \<Rightarrow> NativePipeline" where
  "acknowledge_next p log = (case AcknowledgeNativeReceipt p (owner_after (length log)) of (ok, q, ops) \<Rightarrow> q)"

definition service_cycle :: "hasher_fn \<Rightarrow> pipe_world \<Rightarrow> nat \<Rightarrow> pipe_world" where
  "service_cycle hash w qpc =
     (case PrepareNativeFrames hash (pw_pipe w) (pw_ring w) qpc of (ok, p, ring, ops) \<Rightarrow>
       (case submit_next p (pw_log w) of (p, log) \<Rightarrow>
         \<lparr>pw_pipe = acknowledge_next (read_next hash p log) log, pw_ring = ring, pw_log = log\<rparr>))"

text \<open>The world of a run: the owner has submitted the texts it has released.\<close>

definition submitted_texts :: "pipe_run \<Rightarrow> byte list list" where
  "submitted_texts s = take (np_readyRead (pr_pipe s)) (pr_texts s)"

definition world_of :: "pipe_run \<Rightarrow> pipe_world" where
  "world_of s = \<lparr>pw_pipe = pr_pipe s, pw_ring = pr_ring s, pw_log = submitted_texts s\<rparr>"

lemma service_step:
  assumes "in_service hash context all s" and "pipe_step hash s (s\<lparr>pr_pipe := q\<rparr>)"
  shows "in_service hash context all (s\<lparr>pr_pipe := q\<rparr>)"
  using assms run_inv_step[OF assms(2)] by (simp add: in_service_def)

lemma submit_serves:
  assumes serv: "in_service hash context all s"
  shows "\<exists>q. submit_next (pr_pipe s) (submitted_texts s) = (q, submitted_texts (s\<lparr>pr_pipe := q\<rparr>)) \<and>
    in_service hash context all (s\<lparr>pr_pipe := q\<rparr>) \<and> np_ledgerRead q = np_ledgerRead (pr_pipe s) \<and>
    (np_ledgerRead q < length (pr_texts s) \<longrightarrow> np_ledgerRead q < np_readyRead q)"
proof -
  let ?p = "pr_pipe s" and ?n = "np_readyRead (pr_pipe s)"
  have inv: "pipe_inv hash ?p (pr_homes s) (pr_texts s)" using serv by (simp add: in_service_def run_inv_def)
  note c = pipe_countsD[OF inv]
  consider (empty) "?n = length (pr_texts s)" | (held) "?n < length (pr_texts s)" "?n \<noteq> 0" "np_startupObserved ?p = 0"
    | (front) "?n < length (pr_texts s)" "?n = 0 \<or> np_startupObserved ?p \<noteq> 0"
    using c(12) by linarith
  then show ?thesis
  proof cases
    case front
    let ?q = "?p\<lparr>np_readyRead := ?n + 1\<rparr>"
    have R: "ReleaseNativeFrame ?p (?n + 1) = (True, ?q, [])" using front by (simp add: Release_eq[OF inv])
    have "submit_next ?p (submitted_texts s) = (?q, submitted_texts s @ [pr_texts s ! ?n])"
      using front R by (auto simp: submit_next_def Peek_eq[OF inv]) (simp_all add: frame_of_def)
    then show ?thesis using front c(11) service_step[OF serv pipe_step.release[OF R]]
      by (intro exI[of _ ?q]) (simp add: submitted_texts_def take_Suc_conv_app_nth)
  next
    case held
    then have "submit_next ?p (submitted_texts s) = (?p, submitted_texts s)"
      by (simp add: submit_next_def Peek_eq[OF inv]) (simp add: frame_of_def)
    then show ?thesis using held serv c(16) by (intro exI[of _ ?p]) (auto split: if_splits)
  qed (use serv in \<open>auto simp: submit_next_def Peek_eq[OF inv]\<close>)
qed

lemma receipt_serves:
  assumes serv: "in_service hash context all s" and "digests_events hash"
  shows "\<exists>q. acknowledge_next (read_next hash (pr_pipe s) (submitted_texts s)) (submitted_texts s) = q \<and>
    in_service hash context all (s\<lparr>pr_pipe := q\<rparr>) \<and> np_readyRead q = np_readyRead (pr_pipe s) \<and>
    np_ledgerRead q = (if np_ledgerRead (pr_pipe s) < np_readyRead (pr_pipe s)
      then np_ledgerRead (pr_pipe s) + 1 else np_ledgerRead (pr_pipe s))"
proof -
  let ?p = "pr_pipe s" and ?log = "submitted_texts s" and ?t = "np_ledgerRead (pr_pipe s)"
  have inv: "pipe_inv hash ?p (pr_homes s) (pr_texts s)" and b: "length (pr_homes s) < u64_max"
    using serv by (simp_all add: in_service_def run_inv_def)
  note c = pipe_countsD[OF inv]
  have len: "length ?log = np_readyRead ?p" using c(12) by (simp add: submitted_texts_def)
  show ?thesis
  proof (cases "?t < np_readyRead ?p")
    case False
    then have "read_next hash ?p ?log = ?p" "\<not> submitted_in (owner_after (length ?log)) ?t"
      using c(11) len by (auto simp: read_next_def submitted_in_def owner_after_def)
    then show ?thesis using False serv by (simp add: acknowledge_next_def Acknowledge_eq[OF inv b])
  next
    case True
    let ?q = "read_next hash ?p ?log"
    have lt: "?t < length (pr_texts s)" and line: "?log ! ?t = pr_texts s ! ?t" using True c(12) by (simp_all add: submitted_texts_def)
    have "in_service hash context all (s\<lparr>pr_pipe := ?q\<rparr>) \<and> np_ledgerRead ?q = ?t \<and>
        np_readyRead ?q = np_readyRead ?p \<and> np_heldMatch ?q \<noteq> 0"
    proof (cases "np_heldMatch ?p = 0")
      case held: True
      obtain ops where M: "MatchNativeReceipt hash ?p (Some (pr_texts s ! ?t)) = (Disp_AwaitingSubmission, matched ?t ?p, ops)"
        using receive_next[OF inv lt held assms(2)] by blast
      then have "?q = matched ?t ?p" using held True len by (simp add: read_next_def line)
      then show ?thesis using service_step[OF serv pipe_step.receipt[OF M]] by (simp add: matched_def)
    qed (use serv in \<open>simp add: read_next_def\<close>)
    then have serv1: "in_service hash context all (s\<lparr>pr_pipe := ?q\<rparr>)" and q: "np_ledgerRead ?q = ?t"
      "np_readyRead ?q = np_readyRead ?p" "np_heldMatch ?q \<noteq> 0" by blast+
    then have inv1: "pipe_inv hash ?q (pr_homes s) (pr_texts s)" by (simp add: in_service_def run_inv_def)
    let ?owner = "owner_after (length ?log)"
    have "honest_owner ?q ?owner" "submitted_in ?owner ?t" "snapshot_ok ?owner"
      using True len q(2) by (auto simp: honest_owner_def submitted_in_def owner_after_def snapshot_ok_def)
    moreover from this have A: "AcknowledgeNativeReceipt ?q ?owner = (True, observed ?q, [])"
      using q by (simp add: Acknowledge_eq[OF inv1 b])
    ultimately have "in_service hash context all (s\<lparr>pr_pipe := observed ?q\<rparr>)"
      using service_step[OF serv1] pipe_step.acknowledge[of "s\<lparr>pr_pipe := ?q\<rparr>" ?owner] by simp
    then show ?thesis using True A q by (simp add: acknowledge_next_def) (simp add: observed_def)
  qed
qed

text \<open>Every cycle observes exactly one more text, as long as one is left.\<close>

lemma cycle_serves:
  assumes serv: "in_service hash context all s" and "length all + 1 < u64_max" and "ContextValid context"
    and "context_fits context" and "digests_events hash" and "list_all (record_timed context) all" and "qpc \<noteq> 0"
  shows "\<exists>t. service_cycle hash (world_of s) qpc = world_of t \<and> in_service hash context all t \<and>
    np_ledgerRead (pr_pipe t) = min (np_ledgerRead (pr_pipe s) + 1) (length all + 1)"
proof -
  obtain u more ops where P: "PrepareNativeFrames hash (pr_pipe s) (pr_ring s) qpc = (True, pr_pipe u, pr_ring u, ops)"
    and u: "in_service hash context all u" "pr_texts u = pr_texts s @ more" "same_ends s u"
      "np_ledgerRead (pr_pipe u) < length (pr_texts u) \<or> length (pr_texts u) = length all + 1"
    using prepare_serves[OF assms] by blast
  have "pipe_inv hash (pr_pipe s) (pr_homes s) (pr_texts s)" using serv by (simp add: in_service_def run_inv_def)
  then have log: "submitted_texts u = submitted_texts s"
    using u(2,3) pipe_countsD(12) by (simp add: submitted_texts_def same_ends_def)
  obtain q where q: "submit_next (pr_pipe u) (submitted_texts u) = (q, submitted_texts (u\<lparr>pr_pipe := q\<rparr>))"
    "in_service hash context all (u\<lparr>pr_pipe := q\<rparr>)" "np_ledgerRead q = np_ledgerRead (pr_pipe u)"
    "np_ledgerRead q < length (pr_texts u) \<Longrightarrow> np_ledgerRead q < np_readyRead q"
    using submit_serves[OF u(1)] by blast
  let ?log = "submitted_texts (u\<lparr>pr_pipe := q\<rparr>)"
  obtain r where r: "acknowledge_next (read_next hash q ?log) ?log = r" "in_service hash context all (u\<lparr>pr_pipe := r\<rparr>)"
    "np_readyRead r = np_readyRead q" "np_ledgerRead r = (if np_ledgerRead q < np_readyRead q then np_ledgerRead q + 1 else np_ledgerRead q)"
    using receipt_serves[OF q(2) assms(5)] by auto
  have inv: "pipe_inv hash q (pr_homes u) (pr_texts u)" using q(2) by (simp add: in_service_def run_inv_def)
  have "length (pr_texts u) \<le> length all + 1" using pipe_countsD(13)[OF inv] service_homes[OF u(1)] by linarith
  then have "np_ledgerRead r = min (np_ledgerRead (pr_pipe s) + 1) (length all + 1)"
    using q(3,4) r(4) u(3,4) pipe_countsD(11,12)[OF inv] by (auto simp: same_ends_def min_def)
  moreover have "service_cycle hash (world_of s) qpc = world_of (u\<lparr>pr_pipe := r\<rparr>)"
    using P q(1) r(1,3) log by (simp add: service_cycle_def world_of_def) (simp add: submitted_texts_def)
  ultimately show ?thesis using r(2) by (intro exI[of _ "u\<lparr>pr_pipe := r\<rparr>"]) simp
qed

lemma cycles_serve:
  assumes "in_service hash context all s" and "length all + 1 < u64_max" and "ContextValid context"
    and "context_fits context" and "digests_events hash" and "list_all (record_timed context) all"
    and "list_all (\<lambda>qpc. qpc \<noteq> 0) qpcs" and "np_ledgerRead (pr_pipe s) \<le> length all + 1"
  shows "\<exists>t. foldl (service_cycle hash) (world_of s) qpcs = world_of t \<and> in_service hash context all t \<and>
    np_ledgerRead (pr_pipe t) = min (np_ledgerRead (pr_pipe s) + length qpcs) (length all + 1)"
  using assms(1,7,8)
proof (induction qpcs arbitrary: s)
  case Nil
  then show ?case by (intro exI[of _ s]) simp
next
  case (Cons qpc qpcs)
  obtain u where u: "service_cycle hash (world_of s) qpc = world_of u" "in_service hash context all u"
    "np_ledgerRead (pr_pipe u) = min (np_ledgerRead (pr_pipe s) + 1) (length all + 1)"
    using cycle_serves[OF Cons.prems(1) assms(2-6)] Cons.prems(2) by auto
  obtain t where "foldl (service_cycle hash) (world_of u) qpcs = world_of t" "in_service hash context all t"
    "np_ledgerRead (pr_pipe t) = min (np_ledgerRead (pr_pipe u) + length qpcs) (length all + 1)"
    using Cons.IH[OF u(2)] Cons.prems(2) u(3) by auto
  then show ?case using u by (intro exI[of _ t]) auto
qed

lemma initialized_valid:
  assumes "InitializeNativePipeline p0 same ring context given qpc = (TR_None, p1)"
  shows "ContextValid context"
  using assms by (auto simp: InitializeNativePipeline_def PrepareNativeBootstrap_def FormatNativeBootstrap_def
    Begin_def Let_def split: if_splits option.splits)

text \<open>The log of a run in service: the bootstrap, then one text for each record in order.\<close>

definition log_holds :: "NativeFormatContext \<Rightarrow> ReportRecord list \<Rightarrow> byte list list \<Rightarrow> bool" where
  "log_holds context all log \<longleftrightarrow> length log \<le> length all + 1 \<and>
     (log = [] \<or> FormatNativeBootstrap context True bootstrap_capacity = Some (log ! 0)) \<and>
     list_all (\<lambda>t. formats_as context (all ! (t - 1)) (log ! t)) [1..<length log]"

lemma service_log:
  assumes "in_service hash context all s"
  shows "log_holds context all (submitted_texts s)"
proof -
  have run: "run_inv hash context s" and homes: "pr_homes s = take (length (pr_homes s)) all"
    using assms by (simp_all add: in_service_def)
  then have inv: "pipe_inv hash (pr_pipe s) (pr_homes s) (pr_texts s)" by (simp add: run_inv_def)
  note c = pipe_countsD[OF inv] and x = pipe_textsD[OF inv]
  have len: "length (submitted_texts s) = np_readyRead (pr_pipe s)" using c(12) by (simp add: submitted_texts_def)
  have "formats_as context (all ! (t - 1)) (submitted_texts s ! t)" if t: "1 \<le> t" "t < np_readyRead (pr_pipe s)" for t
  proof -
    have "pr_homes s ! (t - 1) = all ! (t - 1)" by (subst homes) (use t c(12,13) in simp)
    then show ?thesis using x(3)[of t] t c(12) run by (simp add: submitted_texts_def run_inv_def)
  qed
  moreover have "np_readyRead (pr_pipe s) \<le> length all + 1" using c(12,13) service_homes[OF assms] by linarith
  moreover have "submitted_texts s = [] \<or> submitted_texts s ! 0 = np_bootstrap (pr_pipe s)"
    using x(1) len by (cases "np_readyRead (pr_pipe s)") (auto simp: submitted_texts_def)
  ultimately show ?thesis using run len by (auto simp: log_holds_def list_all_iff run_inv_def)
qed

lemma service_done:
  assumes "in_service hash context all s" and "np_ledgerRead (pr_pipe s) = length all + 1"
  shows "queued (pr_ring s) [] \<and> length (submitted_texts s) = length all + 1"
proof -
  have inv: "pipe_inv hash (pr_pipe s) (pr_homes s) (pr_texts s)" using assms(1) by (simp add: in_service_def run_inv_def)
  note c = pipe_countsD[OF inv]
  have "length (pr_homes s) = length all" "np_readyRead (pr_pipe s) = length all + 1" "length (pr_texts s) = length all + 1"
    using c(11-13) assms(2) service_homes[OF assms(1)] by linarith+
  then show ?thesis using assms(1) by (simp add: in_service_def submitted_texts_def)
qed

text \<open>
  C9: Nothing stays stuck.  From every state a run can reach, with records still in the ring,
  full queues or foreign lines behind it, let the program run on in whole cycles: the worker's
  complete call of \<open>PrepareNativeFrames\<close>, one submission, one line read, one acknowledgement.
  If the digest provider works and the times of the records can be derived, every cycle
  observes exactly one more text, so after as many cycles as texts are outstanding the startup
  and every record, taken or still in the ring, are observed; the ring is then empty, and the
  log holds the bootstrap and one text for each record, in order.
\<close>

theorem pipeline_finishes:
  assumes "InitializeNativePipeline p0 same ring context given qpc = (TR_None, p1)" and "pipeline_ready p0"
    and "ring_reportReadSequence ring = 0" and "(pipe_step hash)\<^sup>*\<^sup>* (pipe_start p1 ring) s"
    and "queued (pr_ring s) waiting" and "length (pr_homes s @ waiting) + 1 < u64_max"
    and "context_fits context" and "digests_events hash" and "list_all (record_timed context) (pr_homes s @ waiting)"
    and "list_all (\<lambda>qpc. qpc \<noteq> 0) qpcs"
  shows "let w = foldl (service_cycle hash) (world_of s) qpcs; n = length (pr_homes s @ waiting);
      seen = min (np_ledgerRead (pr_pipe s) + length qpcs) (n + 1)
    in np_startupObserved (pw_pipe w) = (if seen = 0 then 0 else 1) \<and> np_observedSequence (pw_pipe w) = seen - 1 \<and>
      log_holds context (pr_homes s @ waiting) (pw_log w) \<and> seen \<le> length (pw_log w) \<and>
      (seen = n + 1 \<longrightarrow> queued (pw_ring w) [] \<and> length (pw_log w) = n + 1)"
proof -
  have run: "run_inv hash context s" using run_inv_reachable[OF assms(4) run_inv_start[OF assms(1-3)]] .
  then have inv: "pipe_inv hash (pr_pipe s) (pr_homes s) (pr_texts s)" by (simp add: run_inv_def)
  have serv: "in_service hash context (pr_homes s @ waiting) s" using run assms(5) by (simp add: in_service_def)
  have "np_ledgerRead (pr_pipe s) \<le> length (pr_homes s @ waiting) + 1" using pipe_countsD(11-13)[OF inv] by simp
  from cycles_serve[OF serv assms(6) initialized_valid[OF assms(1)] assms(7-10) this]
  obtain t where t: "foldl (service_cycle hash) (world_of s) qpcs = world_of t"
    "in_service hash context (pr_homes s @ waiting) t"
    "np_ledgerRead (pr_pipe t) = min (np_ledgerRead (pr_pipe s) + length qpcs) (length (pr_homes s @ waiting) + 1)" by blast
  then have inv': "pipe_inv hash (pr_pipe t) (pr_homes t) (pr_texts t)" by (simp add: in_service_def run_inv_def)
  have "np_ledgerRead (pr_pipe t) \<le> length (submitted_texts t)"
    using pipe_countsD(11,12)[OF inv'] by (simp add: submitted_texts_def)
  then show ?thesis
    using pipe_countsD(16,17)[OF inv'] service_log[OF t(2)] service_done[OF t(2)]
    unfolding t(1) t(3)[symmetric] Let_def by (simp add: world_of_def)
qed

section \<open>Two cycles of a concrete run\<close>

text \<open>A ring that holds one record, and two cycles that see the bootstrap and the record through.\<close>

definition one_record_ring :: ReportRing where
  "one_record_ring = idle_ring\<lparr>ring_reportWriteSequence := 1, ring_slots := (ring_slots idle_ring)[0 := sample_control 1]\<rparr>"

lemma one_record_queued: "queued one_record_ring [sample_control 1]" "ring_reportReadSequence one_record_ring = 0"
  by (simp_all add: queued_def one_record_ring_def idle_ring_def slot_ok_def ValidRecovery_def sample_control_def
    kind_defs KindCount_def kReasonCount_def kReportRecordCapacity_def)

lemma sample_initializes_with:
  "InitializeNativePipeline pipe_zero True one_record_ring sample_context True 1 = (TR_None, sample_pipe)"
  using sample_initializes by (simp add: InitializeNativePipeline_def one_record_ring_def)

lemma sample_control_timed: "record_timed sample_context (sample_control 1)"
  using sample_control_ok[of 1] sample_derives[of 1]
  by (simp add: record_timed_def sample_control_def utc_ticks_def perSecond_def)

lemma pipeline_finishes_witness:
  "let w = foldl (service_cycle Some) (world_of (pipe_start sample_pipe one_record_ring)) [5, 6]
   in np_startupObserved (pw_pipe w) = 1 \<and> np_observedSequence (pw_pipe w) = 1 \<and> length (pw_log w) = 2"
proof -
  have "context_fits sample_context" using sample_context_ok by (simp add: context_fits_def)
  moreover have "digests_events Some" by (simp add: digests_events_def)
  ultimately show ?thesis
    using pipeline_finishes[where hash = Some and qpcs = "[5, 6]" and waiting = "[sample_control 1]",
        OF sample_initializes_with sample_pipe_ready(1) one_record_queued(2) rtranclp.rtrancl_refl]
      one_record_queued(1) sample_control_timed sample_unseen
    by (simp add: pipe_start_def Let_def)
qed

end
