(* ===== verification/PreparedJson.thy ===== *)
theory PreparedJson
  imports Types
begin

text \<open>
  The reader of the prepared document (\<open>src/companion/steam_reporting_json.cpp\<close>): one pass over
  an untrusted JSON text with an explicit stack of at most 16 containers and at most 8192
  tokens, which accepts a whole document and returns only its three counts.

  The text is a byte list and the cursor a position in it.  A helper that fails has no other
  effect that can be seen, because the reader then returns its error; so a helper returns
  \<open>None\<close>, or the cursor behind what it read.
\<close>

section \<open>Strings\<close>

datatype JText = Text_Properties | Text_Name | Text_Value | Text_Pi | Text_Bots | Text_Maximum

definition kWords :: "byte list list" where
  "kWords = map bytes_of [''op'', ''k'', ''v'', ''PI_COUNT'', ''BotPlayerCount'', ''MaxPlayerCount'']"

definition JText_index :: "JText \<Rightarrow> nat" where
  "JText_index w = (case w of Text_Properties \<Rightarrow> 0 | Text_Name \<Rightarrow> 1 | Text_Value \<Rightarrow> 2 | Text_Pi \<Rightarrow> 3
     | Text_Bots \<Rightarrow> 4 | Text_Maximum \<Rightarrow> 5)"

text \<open>\<open>sv_matches\<close>: the bits of \<open>matches\<close>, one for each word.\<close>

record StringValue =
  sv_length :: nat
  sv_number :: nat
  sv_matches :: "bool list"
  sv_decimal :: bool
  sv_leadingZero :: bool

definition StringValue_zero :: StringValue where
  "StringValue_zero = \<lparr>sv_length = 0, sv_number = 0, sv_matches = replicate 6 True, sv_decimal = True,
     sv_leadingZero = False\<rparr>"

definition still_matches :: "nat \<Rightarrow> nat \<Rightarrow> byte list \<Rightarrow> bool" where
  "still_matches scalar n word \<longleftrightarrow> n < length word \<and> scalar = unat (word ! n)"

definition Add :: "nat \<Rightarrow> StringValue \<Rightarrow> StringValue" where
  "Add scalar v =
     (let v = v\<lparr>sv_matches := map (\<lambda>(m, w). m \<and> still_matches scalar (sv_length v) w)
            (zip (sv_matches v) kWords)\<rparr>;
          v = (if scalar < 0x30 \<or> scalar > 0x39 \<or> (sv_length v \<noteq> 0 \<and> sv_leadingZero v)
               then v\<lparr>sv_decimal := False\<rparr> else v);
          v = (if sv_length v = 0 then v\<lparr>sv_leadingZero := (scalar = 0x30)\<rparr> else v);
          v = (if sv_decimal v then
                 let digit = scalar - 0x30 in
                 if sv_number v > (u32_max - digit) div 10 then v\<lparr>sv_decimal := False\<rparr>
                 else v\<lparr>sv_number := sv_number v * 10 + digit\<rparr>
               else v) in
      v\<lparr>sv_length := sv_length v + 1\<rparr>)"

definition Is :: "StringValue \<Rightarrow> JText \<Rightarrow> bool" where
  "Is v w \<longleftrightarrow> sv_matches v ! JText_index w \<and> length (kWords ! JText_index w) = sv_length v"

definition IsDecimal :: "StringValue \<Rightarrow> bool" where
  "IsDecimal v \<longleftrightarrow> sv_decimal v \<and> sv_length v \<noteq> 0"

definition Take :: "byte list \<Rightarrow> nat \<Rightarrow> byte \<Rightarrow> nat option" where
  "Take bs at c = (if at = length bs \<or> bs ! at \<noteq> c then None else Some (at + 1))"

definition Peek :: "byte list \<Rightarrow> nat \<Rightarrow> byte" where
  "Peek bs at = (if at < length bs then bs ! at else 0)"

definition hex_value :: "byte \<Rightarrow> nat option" where
  "hex_value c =
     (if 0x30 \<le> c \<and> c \<le> 0x39 then Some (unat c - 0x30)
      else if 0x61 \<le> c \<and> c \<le> 0x66 then Some (unat c - 0x61 + 10)
      else if 0x41 \<le> c \<and> c \<le> 0x46 then Some (unat c - 0x41 + 10) else None)"

fun hex_loop :: "byte list \<Rightarrow> nat \<Rightarrow> nat \<Rightarrow> nat \<Rightarrow> (nat \<times> nat) option" where
  "hex_loop bs 0 at scalar = Some (at, scalar)"
| "hex_loop bs (Suc n) at scalar =
     (case hex_value (bs ! at) of None \<Rightarrow> None | Some v \<Rightarrow> hex_loop bs n (at + 1) (16 * scalar + v))"

definition HexWord :: "byte list \<Rightarrow> nat \<Rightarrow> (nat \<times> nat) option" where
  "HexWord bs at = (if length bs - at < 4 then None else hex_loop bs 4 at 0)"

definition Escape :: "byte list \<Rightarrow> nat \<Rightarrow> (nat \<times> nat) option" where
  "Escape bs at =
     (if at = length bs then None
      else
        let c = bs ! at; at = at + 1 in
        if c = 0x22 \<or> c = 0x5C \<or> c = 0x2F then Some (at, unat c)
        else if c = 0x62 then Some (at, 8)
        else if c = 0x66 then Some (at, 12)
        else if c = 0x6E then Some (at, 10)
        else if c = 0x72 then Some (at, 13)
        else if c = 0x74 then Some (at, 9)
        else if c = 0x75 then
          (case HexWord bs at of
             None \<Rightarrow> None
           | Some (at, scalar) \<Rightarrow>
               if 0xD800 \<le> scalar \<and> scalar \<le> 0xDBFF then
                 (case Take bs at 0x5C of None \<Rightarrow> None | Some at \<Rightarrow>
                  (case Take bs at 0x75 of None \<Rightarrow> None | Some at \<Rightarrow>
                   (case HexWord bs at of
                      None \<Rightarrow> None
                    | Some (at, low) \<Rightarrow>
                        if low < 0xDC00 \<or> low > 0xDFFF then None
                        else Some (at, 0x10000 + (scalar - 0xD800) * 2 ^ 10 + (low - 0xDC00)))))
               else if 0xDC00 \<le> scalar \<and> scalar \<le> 0xDFFF then None
               else Some (at, scalar))
        else None)"

fun utf8_loop :: "byte list \<Rightarrow> nat \<Rightarrow> nat \<Rightarrow> nat \<Rightarrow> (nat \<times> nat) option" where
  "utf8_loop bs 0 at scalar = Some (at, scalar)"
| "utf8_loop bs (Suc n) at scalar =
     (let c = bs ! at in
      if and c 0xC0 \<noteq> 0x80 then None else utf8_loop bs n (at + 1) (scalar * 2 ^ 6 + unat (and c 0x3F)))"

definition utf8_lead :: "byte \<Rightarrow> (nat \<times> nat \<times> nat) option" where
  "utf8_lead first =
     (if 0xC2 \<le> first \<and> first \<le> 0xDF then Some (1, unat (and first 0x1F), 0x80)
      else if 0xE0 \<le> first \<and> first \<le> 0xEF then Some (2, unat (and first 0x0F), 0x800)
      else if 0xF0 \<le> first \<and> first \<le> 0xF4 then Some (3, unat (and first 0x07), 0x10000)
      else None)"

definition Utf8 :: "byte list \<Rightarrow> nat \<Rightarrow> byte \<Rightarrow> (nat \<times> nat) option" where
  "Utf8 bs at first =
     (case utf8_lead first of
        None \<Rightarrow> None
      | Some (continuation, scalar, minimum) \<Rightarrow>
          if continuation > length bs - at then None
          else case utf8_loop bs continuation at scalar of
            None \<Rightarrow> None
          | Some (at, scalar) \<Rightarrow>
              if scalar \<ge> minimum \<and> scalar \<le> 0x10FFFF \<and> \<not> (0xD800 \<le> scalar \<and> scalar \<le> 0xDFFF)
              then Some (at, scalar) else None)"

text \<open>One character of a string: its scalar and the cursor behind it.\<close>

definition character :: "byte list \<Rightarrow> nat \<Rightarrow> (nat \<times> nat) option" where
  "character bs at =
     (let c = bs ! at; at = at + 1 in
      if c < 0x20 then None
      else if c = 0x5C then Escape bs at
      else if c \<ge> 0x80 then Utf8 bs at c
      else Some (at, unat c))"

text \<open>The helpers only move forward, within the text.\<close>

definition ahead :: "byte list \<Rightarrow> nat \<Rightarrow> nat \<Rightarrow> bool" where
  "ahead bs at at' \<longleftrightarrow> at < at' \<and> at' \<le> length bs"

lemma Take_next: "Take bs at c = Some at' \<Longrightarrow> at \<le> length bs \<Longrightarrow> at' = at + 1 \<and> ahead bs at at'"
  by (auto simp: Take_def ahead_def split: if_splits)

lemma hex_loop_next: "hex_loop bs n at s = Some (at', s') \<Longrightarrow> at' = at + n"
  by (induction n arbitrary: at s) (fastforce split: option.splits)+

lemma HexWord_next: "HexWord bs at = Some (at', s') \<Longrightarrow> ahead bs at at'"
  by (auto simp: HexWord_def ahead_def simp del: hex_loop.simps dest!: hex_loop_next split: if_splits)

lemma utf8_loop_next: "utf8_loop bs n at s = Some (at', s') \<Longrightarrow> at' = at + n"
  by (induction n arbitrary: at s) (fastforce simp: Let_def split: if_splits)+

lemma ahead_trans: "ahead bs a b \<Longrightarrow> ahead bs b c \<Longrightarrow> ahead bs a c"
  by (simp add: ahead_def)

lemma ahead_Suc: "at < length bs \<Longrightarrow> ahead bs at (Suc at)"
  by (simp add: ahead_def)

lemma Escape_next:
  assumes "Escape bs at = Some (at', s)" and "at \<le> length bs"
  shows "ahead bs at at'"
proof -
  have lt: "at < length bs" using assms by (auto simp: Escape_def split: if_splits)
  have "at' = Suc at \<or> (\<exists>a s1. HexWord bs (Suc at) = Some (a, s1) \<and> (at' = a \<or>
      (\<exists>b c s2. Take bs a 0x5C = Some b \<and> Take bs b 0x75 = Some c \<and> HexWord bs c = Some (at', s2))))"
    using assms(1) lt unfolding Escape_def Let_def
    by (auto split: if_splits option.splits prod.splits)
  then show ?thesis
    using ahead_Suc[OF lt] by (auto dest!: HexWord_next Take_next) (auto simp: ahead_def)
qed

lemma Utf8_next:
  assumes "Utf8 bs at c = Some (at', s)"
  shows "ahead bs at at'"
proof -
  obtain k s0 m where l: "utf8_lead c = Some (k, s0, m)"
    using assms by (auto simp: Utf8_def split: option.splits)
  obtain s1 where "utf8_loop bs k at s0 = Some (at', s1)" "k \<le> length bs - at"
    using assms by (auto simp: Utf8_def l split: option.splits if_splits)
  moreover have "0 < k" using l by (auto simp: utf8_lead_def split: if_splits)
  ultimately show ?thesis using utf8_loop_next by (fastforce simp: ahead_def)
qed

lemma character_next: "character bs at = Some (at', s) \<Longrightarrow> at < length bs \<Longrightarrow> ahead bs at at'"
  by (auto simp: character_def Let_def ahead_def split: if_splits dest!: Escape_next Utf8_next)

function string_loop :: "byte list \<Rightarrow> nat \<Rightarrow> StringValue \<Rightarrow> (nat \<times> StringValue) option" where
  "string_loop bs at v =
     (if at < length bs then
        if bs ! at = 0x22 then Some (at + 1, v)
        else case character bs at of
          None \<Rightarrow> None
        | Some (at', scalar) \<Rightarrow> string_loop bs at' (Add scalar v)
      else None)"
  by pat_completeness auto
termination
  by (relation "measure (\<lambda>(bs, at, v). length bs - at)") (auto dest!: character_next simp: ahead_def)

declare string_loop.simps [simp del]

definition String :: "byte list \<Rightarrow> nat \<Rightarrow> (nat \<times> StringValue) option" where
  "String bs at =
     (case Take bs at 0x22 of None \<Rightarrow> None | Some at \<Rightarrow> string_loop bs at StringValue_zero)"

section \<open>Space, literals, numbers\<close>

function Space :: "byte list \<Rightarrow> nat \<Rightarrow> nat" where
  "Space bs at =
     (if at < length bs \<and> bs ! at \<in> {0x20, 0x09, 0x0D, 0x0A} then Space bs (at + 1) else at)"
  by pat_completeness auto
termination by (relation "measure (\<lambda>(bs, at). length bs - at)") auto

declare Space.simps [simp del]

definition Literal :: "byte list \<Rightarrow> nat \<Rightarrow> byte list \<Rightarrow> nat option" where
  "Literal bs at word =
     (if length word > length bs - at \<or> slice at (length word) bs \<noteq> word then None else Some (at + length word))"

definition is_digit :: "byte \<Rightarrow> bool" where
  "is_digit c \<longleftrightarrow> 0x30 \<le> c \<and> c \<le> 0x39"

text \<open>The \<open>do\<close> loop over digits: at least one is consumed.\<close>

function digits :: "byte list \<Rightarrow> nat \<Rightarrow> nat" where
  "digits bs at = (if is_digit (Peek bs (at + 1)) then digits bs (at + 1) else at + 1)"
  by pat_completeness auto
termination
  by (relation "measure (\<lambda>(bs, at). length bs - at)") (auto simp: is_digit_def Peek_def split: if_splits)

declare digits.simps [simp del]

definition optional :: "byte list \<Rightarrow> nat \<Rightarrow> byte \<Rightarrow> nat" where
  "optional bs at c = (case Take bs at c of None \<Rightarrow> at | Some at \<Rightarrow> at)"

definition required_digits :: "byte list \<Rightarrow> nat \<Rightarrow> nat option" where
  "required_digits bs at = (if \<not> is_digit (Peek bs at) then None else Some (digits bs at))"

definition integer_part :: "byte list \<Rightarrow> nat \<Rightarrow> nat option" where
  "integer_part bs at =
     (case Take bs at 0x30 of
        Some at \<Rightarrow> Some at
      | None \<Rightarrow> if Peek bs at < 0x31 \<or> Peek bs at > 0x39 then None else Some (digits bs at))"

definition fraction_part :: "byte list \<Rightarrow> nat \<Rightarrow> nat option" where
  "fraction_part bs at = (case Take bs at 0x2E of None \<Rightarrow> Some at | Some at \<Rightarrow> required_digits bs at)"

definition exponent_part :: "byte list \<Rightarrow> nat \<Rightarrow> nat option" where
  "exponent_part bs at =
     (if Take bs at 0x65 = None \<and> Take bs at 0x45 = None then Some at
      else
        let at = at + 1;
            at = (case Take bs at 0x2B of Some at \<Rightarrow> at | None \<Rightarrow> optional bs at 0x2D) in
        required_digits bs at)"

definition Number :: "byte list \<Rightarrow> nat \<Rightarrow> nat option" where
  "Number bs at =
     (case integer_part bs (optional bs at 0x2D) of
        None \<Rightarrow> None
      | Some at \<Rightarrow> (case fraction_part bs at of None \<Rightarrow> None | Some at \<Rightarrow> exponent_part bs at))"

section \<open>The reader\<close>

datatype Role = Role_Generic | Role_Root | Role_Properties | Role_Property
datatype FState = S_FirstKey | S_Key | S_Colon | S_Value | S_FirstValue | S_More
datatype FKey = Key_Other | Key_Properties | Key_Name | Key_Value
datatype CountKey = Count_Other | Count_Pi | Count_Bots | Count_Maximum

record Frame =
  fr_role :: Role
  fr_state :: FState
  fr_key :: FKey
  fr_countKey :: CountKey
  fr_value :: nat
  fr_object :: bool
  fr_haveName :: bool
  fr_haveValue :: bool
  fr_decimalValue :: bool

definition Frame_zero :: Frame where
  "Frame_zero = \<lparr>fr_role = Role_Generic, fr_state = S_FirstKey, fr_key = Key_Other, fr_countKey = Count_Other,
     fr_value = 0, fr_object = False, fr_haveName = False, fr_haveValue = False, fr_decimalValue = False\<rparr>"

text \<open>\<open>js_stack\<close> holds the first \<open>depth\<close> frames, the innermost first.\<close>

record JReader =
  js_cursor :: nat
  js_tokens :: nat
  js_stack :: "Frame list"
  js_error :: Reason
  js_counts :: NativeCounts
  js_seen :: "CountKey set"

definition Fail :: "Reason \<Rightarrow> JReader \<Rightarrow> JReader" where
  "Fail reason r = (if js_error r = R_None then r\<lparr>js_error := reason\<rparr> else r)"

abbreviation malformed :: "JReader \<Rightarrow> JReader" where
  "malformed \<equiv> Fail R_PreparedMalformed"

definition set_top :: "Frame \<Rightarrow> JReader \<Rightarrow> JReader" where
  "set_top f r = r\<lparr>js_stack := f # tl (js_stack r)\<rparr>"

definition Token :: "JReader \<Rightarrow> bool \<times> JReader" where
  "Token r = (if js_tokens r = kJsonTokens then (False, Fail R_PreparedLimit r)
     else (True, r\<lparr>js_tokens := js_tokens r + 1\<rparr>))"

definition new_frame :: "bool \<Rightarrow> Role \<Rightarrow> Frame" where
  "new_frame object role = Frame_zero\<lparr>fr_object := object, fr_role := role,
     fr_state := (if object then S_FirstKey else S_FirstValue)\<rparr>"

definition Push :: "bool \<Rightarrow> Role \<Rightarrow> JReader \<Rightarrow> bool \<times> JReader" where
  "Push object role r =
     (if length (js_stack r) = kJsonDepth then (False, Fail R_PreparedLimit r)
      else (True, r\<lparr>js_stack := new_frame object role # js_stack r\<rparr>))"

text \<open>\<open>js_seen\<close> is the bit set of the counts already seen.\<close>

definition set_count :: "CountKey \<Rightarrow> nat \<Rightarrow> NativeCounts \<Rightarrow> NativeCounts" where
  "set_count k v c = (if k = Count_Pi then c\<lparr>pi := v\<rparr> else if k = Count_Bots then c\<lparr>bots := v\<rparr>
     else c\<lparr>maximum := v\<rparr>)"

definition Close :: "JReader \<Rightarrow> JReader" where
  "Close r =
     (let frame = hd (js_stack r);
          r = (if fr_role frame = Role_Root \<and> \<not> fr_haveName frame then malformed r else r);
          r = (if fr_role frame = Role_Property then
                 let r = (if \<not> fr_haveName frame \<or> \<not> fr_haveValue frame then malformed r else r) in
                 if fr_countKey frame \<noteq> Count_Other then
                   (if \<not> fr_decimalValue frame \<or> fr_countKey frame \<in> js_seen r then malformed r
                    else r\<lparr>js_seen := insert (fr_countKey frame) (js_seen r),
                      js_counts := set_count (fr_countKey frame) (fr_value frame) (js_counts r)\<rparr>)
                 else r
               else r) in
      r\<lparr>js_stack := tl (js_stack r)\<rparr>)"

definition take_key :: "StringValue \<Rightarrow> Frame \<Rightarrow> Frame option" where
  "take_key key frame =
     (let frame = frame\<lparr>fr_key := Key_Other\<rparr> in
      if fr_role frame = Role_Root \<and> Is key Text_Properties then
        (if fr_haveName frame then None else Some (frame\<lparr>fr_haveName := True, fr_key := Key_Properties\<rparr>))
      else if fr_role frame = Role_Property \<and> Is key Text_Name then
        (if fr_haveName frame then None else Some (frame\<lparr>fr_haveName := True, fr_key := Key_Name\<rparr>))
      else if fr_role frame = Role_Property \<and> Is key Text_Value then
        (if fr_haveValue frame then None else Some (frame\<lparr>fr_haveValue := True, fr_key := Key_Value\<rparr>))
      else Some frame)"

definition ReadKey :: "byte list \<Rightarrow> JReader \<Rightarrow> JReader" where
  "ReadKey bs r =
     (case Token r of
        (False, r) \<Rightarrow> malformed r
      | (True, r) \<Rightarrow>
          (case String bs (js_cursor r) of
             None \<Rightarrow> malformed r
           | Some (at, key) \<Rightarrow>
               (case take_key key (hd (js_stack r)) of
                  None \<Rightarrow> malformed (r\<lparr>js_cursor := at\<rparr>)
                | Some frame \<Rightarrow> set_top (frame\<lparr>fr_state := S_Colon\<rparr>) (r\<lparr>js_cursor := at\<rparr>))))"

text \<open>The role of a container opened here, or a refusal of what stands here.\<close>

definition child_role :: "Frame \<Rightarrow> byte \<Rightarrow> Role option" where
  "child_role parent first =
     (if fr_key parent = Key_Properties \<and> fr_role parent = Role_Root
      then (if first \<noteq> 0x5B then None else Some Role_Properties)
      else if fr_role parent = Role_Properties then (if first \<noteq> 0x7B then None else Some Role_Property)
      else if fr_role parent = Role_Property \<and> fr_key parent = Key_Name \<and> first \<noteq> 0x22 then None
      else Some Role_Generic)"

definition take_text :: "StringValue \<Rightarrow> Frame \<Rightarrow> Frame" where
  "take_text value parent =
     (if fr_role parent = Role_Property \<and> fr_key parent = Key_Name then
        parent\<lparr>fr_countKey := (if Is value Text_Pi then Count_Pi else if Is value Text_Bots then Count_Bots
          else if Is value Text_Maximum then Count_Maximum else Count_Other)\<rparr>
      else if fr_role parent = Role_Property \<and> fr_key parent = Key_Value then
        parent\<lparr>fr_decimalValue := IsDecimal value, fr_value := sv_number value\<rparr>
      else parent)"

definition move :: "nat option \<Rightarrow> JReader \<Rightarrow> JReader" where
  "move at r = (case at of None \<Rightarrow> malformed r | Some at \<Rightarrow> r\<lparr>js_cursor := at\<rparr>)"

definition value_here :: "byte list \<Rightarrow> byte \<Rightarrow> Role \<Rightarrow> Frame \<Rightarrow> JReader \<Rightarrow> JReader" where
  "value_here bs first child parent r =
     (let at = js_cursor r in
      if first = 0x7B \<or> first = 0x5B then snd (Push (first = 0x7B) child (r\<lparr>js_cursor := at + 1\<rparr>))
      else if first = 0x22 then
        (case String bs at of
           None \<Rightarrow> malformed r
         | Some (at, value) \<Rightarrow> set_top (take_text value parent) (r\<lparr>js_cursor := at\<rparr>))
      else if first = 0x74 then move (Literal bs at (bytes_of ''true'')) r
      else if first = 0x66 then move (Literal bs at (bytes_of ''false'')) r
      else if first = 0x6E then move (Literal bs at (bytes_of ''null'')) r
      else if first = 0x2D \<or> is_digit first then move (Number bs at) r
      else malformed r)"

definition ReadValue :: "byte list \<Rightarrow> JReader \<Rightarrow> JReader" where
  "ReadValue bs r =
     (case Token r of
        (False, r) \<Rightarrow> r
      | (True, r) \<Rightarrow>
          let first = Peek bs (js_cursor r); parent = hd (js_stack r) in
          (case child_role parent first of
             None \<Rightarrow> malformed r
           | Some child \<Rightarrow>
               let parent = parent\<lparr>fr_state := S_More\<rparr> in
               value_here bs first child parent (set_top parent r)))"

text \<open>One turn of the loop; a container is an object or an array with its closing character.\<close>

definition more_or_close :: "byte list \<Rightarrow> byte \<Rightarrow> FState \<Rightarrow> JReader \<Rightarrow> JReader" where
  "more_or_close bs closing again r =
     (case Take bs (js_cursor r) closing of
        Some at \<Rightarrow> Close (r\<lparr>js_cursor := at\<rparr>)
      | None \<Rightarrow> (case Take bs (js_cursor r) 0x2C of
          Some at \<Rightarrow> set_top ((hd (js_stack r))\<lparr>fr_state := again\<rparr>) (r\<lparr>js_cursor := at\<rparr>)
        | None \<Rightarrow> malformed r))"

definition turn :: "byte list \<Rightarrow> JReader \<Rightarrow> JReader" where
  "turn bs r0 =
     (let r = r0\<lparr>js_cursor := Space bs (js_cursor r0)\<rparr>; frame = hd (js_stack r) in
      if fr_object frame then
        (case fr_state frame of
           S_FirstKey \<Rightarrow>
             (case Take bs (js_cursor r) 0x7D of
                Some at \<Rightarrow> Close (r\<lparr>js_cursor := at\<rparr>) | None \<Rightarrow> ReadKey bs r)
         | S_Key \<Rightarrow> ReadKey bs r
         | S_Colon \<Rightarrow>
             (case Take bs (js_cursor r) 0x3A of
                None \<Rightarrow> malformed r
              | Some at \<Rightarrow> set_top (frame\<lparr>fr_state := S_Value\<rparr>) (r\<lparr>js_cursor := at\<rparr>))
         | S_Value \<Rightarrow> ReadValue bs r
         | S_More \<Rightarrow> more_or_close bs 0x7D S_Key r
         | S_FirstValue \<Rightarrow> malformed r)
      else
        (case fr_state frame of
           S_FirstValue \<Rightarrow>
             (case Take bs (js_cursor r) 0x5D of
                Some at \<Rightarrow> Close (r\<lparr>js_cursor := at\<rparr>) | None \<Rightarrow> ReadValue bs r)
         | S_Value \<Rightarrow> ReadValue bs r
         | S_More \<Rightarrow> more_or_close bs 0x5D S_Value r
         | _ \<Rightarrow> malformed r))"

text \<open>The loop as a partial function: whether it returns is proved below.\<close>

partial_function (option) run_loop :: "byte list \<Rightarrow> JReader \<Rightarrow> JReader option" where
  "run_loop bs r =
     (if js_stack r \<noteq> [] \<and> js_error r = R_None then run_loop bs (turn bs r) else Some r)"

definition JReader_zero :: JReader where
  "JReader_zero = \<lparr>js_cursor = 0, js_tokens = 0, js_stack = [], js_error = R_None,
     js_counts = NativeCounts_zero, js_seen = {}\<rparr>"

definition Failure :: "JReader \<Rightarrow> Reason" where
  "Failure r = (if js_error r = R_None then R_PreparedMalformed else js_error r)"

text \<open>\<open>Run\<close>; the outer \<open>None\<close> is a run that does not return.\<close>

definition opened :: "byte list \<Rightarrow> bool \<times> JReader" where
  "opened bs =
     (let r = JReader_zero\<lparr>js_cursor := Space bs 0\<rparr> in
      case Take bs (js_cursor r) 0x7B of
        None \<Rightarrow> (False, r)
      | Some at \<Rightarrow> (case Token (r\<lparr>js_cursor := at\<rparr>) of
          (False, r) \<Rightarrow> (False, r)
        | (True, r) \<Rightarrow> Push True Role_Root r))"

definition Run :: "byte list \<Rightarrow> (Reason \<times> NativeCounts) option" where
  "Run bs =
     (case opened bs of
        (False, r) \<Rightarrow> Some (Failure r, NativeCounts_zero)
      | (True, r) \<Rightarrow>
          (case run_loop bs r of
             None \<Rightarrow> None
           | Some r \<Rightarrow> Some (if js_error r \<noteq> R_None then (js_error r, NativeCounts_zero)
               else if Space bs (js_cursor r) \<noteq> length bs \<or> js_seen r \<noteq> {Count_Pi, Count_Bots, Count_Maximum}
               then (R_PreparedMalformed, NativeCounts_zero)
               else (R_None, js_counts r))))"

text \<open>\<open>bytes = None\<close> is a null pointer, \<open>given\<close> an output that is not null.\<close>

definition ReadPreparedJsonCounts :: "byte list option \<Rightarrow> bool \<Rightarrow> (Reason \<times> NativeCounts) option" where
  "ReadPreparedJsonCounts bytes given =
     (if \<not> given then Some (R_PreparedUnavailable, NativeCounts_zero)
      else case bytes of
        None \<Rightarrow> Some (R_PreparedUnavailable, NativeCounts_zero)
      | Some bs \<Rightarrow>
          if bs = [] then Some (R_PreparedUnavailable, NativeCounts_zero)
          else if length bs > kJsonBytes then Some (R_PreparedLimit, NativeCounts_zero)
          else Run bs)"

definition ValidatePreparedJson :: "byte list option \<Rightarrow> NativeCounts \<Rightarrow> Reason option" where
  "ValidatePreparedJson bytes expected =
     (case ReadPreparedJsonCounts bytes True of
        None \<Rightarrow> None
      | Some (reason, actual) \<Rightarrow> Some (if reason \<noteq> R_None then reason
          else if EqualCounts actual expected then R_None else R_PreparedMismatch))"

section \<open>The stack is well typed\<close>

text \<open>
  What each frame may be.  An object is between keys, before a colon or around a value, an
  array around a value; the root is an object; the value of the root's \<open>op\<close> is an array and
  each of its elements an object; and a frame that has one above it waits behind that value.
\<close>

definition state_ok :: "Frame \<Rightarrow> bool" where
  "state_ok f \<longleftrightarrow> (if fr_object f then fr_state f \<noteq> S_FirstValue
     else fr_state f = S_FirstValue \<or> fr_state f = S_Value \<or> fr_state f = S_More)"

definition role_ok :: "Frame \<Rightarrow> bool" where
  "role_ok f \<longleftrightarrow>
     (fr_role f = Role_Root \<longrightarrow> fr_object f \<and> (fr_key f = Key_Properties \<longrightarrow> fr_haveName f)) \<and>
     (fr_role f = Role_Properties \<longrightarrow> \<not> fr_object f) \<and>
     (fr_role f = Role_Property \<longrightarrow> fr_object f \<and>
       (fr_countKey f \<noteq> Count_Other \<or> fr_key f = Key_Name \<longrightarrow> fr_haveName f) \<and> (fr_key f = Key_Value \<longrightarrow> fr_haveValue f)) \<and>
     fr_value f \<le> u32_max"

definition nests :: "Frame \<Rightarrow> Frame \<Rightarrow> bool" where
  "nests child parent \<longleftrightarrow> fr_state parent = S_More \<and> fr_role child \<noteq> Role_Root \<and>
     (fr_role child = Role_Properties \<longleftrightarrow> fr_role parent = Role_Root \<and> fr_key parent = Key_Properties) \<and>
     (fr_role child = Role_Property \<longleftrightarrow> fr_role parent = Role_Properties)"

fun stack_ok :: "Frame list \<Rightarrow> bool" where
  "stack_ok [] \<longleftrightarrow> True"
| "stack_ok [f] \<longleftrightarrow> state_ok f \<and> role_ok f \<and> fr_role f = Role_Root"
| "stack_ok (f # g # fs) \<longleftrightarrow> state_ok f \<and> role_ok f \<and> nests f g \<and> stack_ok (g # fs)"

definition counts_ok :: "NativeCounts \<Rightarrow> bool" where
  "counts_ok c \<longleftrightarrow> pi c \<le> u32_max \<and> bots c \<le> u32_max \<and> maximum c \<le> u32_max"

definition reader_ok :: "byte list \<Rightarrow> JReader \<Rightarrow> bool" where
  "reader_ok bs r \<longleftrightarrow> js_cursor r \<le> length bs \<and> js_tokens r \<le> kJsonTokens \<and>
     length (js_stack r) \<le> kJsonDepth \<and> stack_ok (js_stack r) \<and> counts_ok (js_counts r)"

text \<open>One turn: an error, or a typed reader further on in the text.\<close>

definition advances :: "byte list \<Rightarrow> nat \<Rightarrow> JReader \<Rightarrow> bool" where
  "advances bs at r \<longleftrightarrow> js_error r \<noteq> R_None \<or> (reader_ok bs r \<and> at < js_cursor r)"

lemma malformed_advances: "advances bs at (malformed r)"
  by (simp add: advances_def Fail_def)

lemma stack_ok_top:
  assumes "stack_ok (f # fs)" and "state_ok g" and "role_ok g" and "fr_role g = fr_role f"
  shows "stack_ok (g # fs)"
  using assms by (cases fs) (auto simp: nests_def)

lemma stack_ok_tl: "stack_ok (f # fs) \<Longrightarrow> stack_ok fs"
  by (cases fs) auto

lemma stack_ok_hd: "stack_ok (f # fs) \<Longrightarrow> state_ok f \<and> role_ok f"
  by (cases fs) auto

lemma stack_ok_push:
  assumes "stack_ok (f # fs)" and "state_ok g" and "role_ok g" and "nests g f"
  shows "stack_ok (g # f # fs)"
  using assms by simp

lemma Space_bound: "at \<le> length bs \<Longrightarrow> at \<le> Space bs at \<and> Space bs at \<le> length bs"
proof (induction bs at rule: Space.induct)
  case (1 bs at)
  show ?case
  proof (cases "at < length bs \<and> bs ! at \<in> {0x20, 0x09, 0x0D, 0x0A}")
    case True
    have e: "Space bs at = Space bs (at + 1)" by (subst Space.simps) (use True in presburger)
    show ?thesis using 1(1)[OF True] True by (simp add: e del: insert_iff)
  next
    case False
    have e: "Space bs at = at" by (subst Space.simps) (use False in presburger)
    show ?thesis using 1(2) by (simp add: e)
  qed
qed

lemma digits_bound: "at < length bs \<Longrightarrow> at < digits bs at \<and> digits bs at \<le> length bs"
proof (induction bs at rule: digits.induct)
  case (1 bs at)
  show ?case
  proof (cases "is_digit (Peek bs (at + 1))")
    case True
    then have "at + 1 < length bs" by (auto simp: is_digit_def Peek_def split: if_splits)
    then show ?thesis using 1(1)[OF True] True by (subst (1 2) digits.simps) simp
  next
    case False
    then show ?thesis using 1(2) by (subst (1 2) digits.simps) simp
  qed
qed

lemma string_loop_bound: "string_loop bs at v = Some (at', w) \<Longrightarrow> ahead bs at at'"
proof (induction bs at v rule: string_loop.induct)
  case (1 bs at v)
  show ?case
  proof (cases "at < length bs \<and> bs ! at \<noteq> 0x22")
    case True
    then obtain a s where c: "character bs at = Some (a, s)" and "string_loop bs a (Add s v) = Some (at', w)"
      using 1(2) by (subst (asm) string_loop.simps) (auto split: option.splits)
    then show ?thesis using 1(1)[of "(a, s)" a s] True character_next[OF c] ahead_trans by auto
  next
    case False
    then show ?thesis using 1(2) by (subst (asm) string_loop.simps) (auto simp: ahead_def split: if_splits)
  qed
qed

lemma String_next: "String bs at = Some (at', v) \<Longrightarrow> at \<le> length bs \<Longrightarrow> ahead bs at at'"
  by (auto simp: String_def split: option.splits dest!: Take_next string_loop_bound intro: ahead_trans)

lemma Literal_next: "Literal bs at w = Some at' \<Longrightarrow> w \<noteq> [] \<Longrightarrow> at \<le> length bs \<Longrightarrow> ahead bs at at'"
  by (auto simp: Literal_def ahead_def split: if_splits)

lemma peek_in: "is_digit (Peek bs at) \<Longrightarrow> at < length bs"
  by (auto simp: is_digit_def Peek_def split: if_splits)

lemma required_digits_next: "required_digits bs at = Some at' \<Longrightarrow> ahead bs at at'"
  using peek_in digits_bound by (auto simp: required_digits_def ahead_def split: if_splits)

lemma optional_next: "at \<le> length bs \<Longrightarrow> at \<le> optional bs at c \<and> optional bs at c \<le> length bs"
  by (auto simp: optional_def ahead_def split: option.splits dest!: Take_next)

lemma integer_part_next:
  assumes "integer_part bs at = Some b" and "at \<le> length bs"
  shows "ahead bs at b"
proof (cases "Take bs at 0x30")
  case None
  then have "\<not> Peek bs at < 0x31" "b = digits bs at"
    using assms(1) by (auto simp: integer_part_def split: if_splits)
  moreover from this have "at < length bs" by (auto simp: Peek_def split: if_splits)
  ultimately show ?thesis using digits_bound by (simp add: ahead_def)
next
  case (Some x)
  moreover have "b = x" using assms(1) Some by (simp add: integer_part_def)
  ultimately show ?thesis using Take_next[OF Some assms(2)] by blast
qed

lemma fraction_part_next:
  "fraction_part bs at = Some b \<Longrightarrow> at \<le> length bs \<Longrightarrow> at \<le> b \<and> b \<le> length bs"
  by (auto simp: fraction_part_def ahead_def split: option.splits dest!: Take_next required_digits_next)

lemma exponent_part_next:
  assumes "exponent_part bs at = Some b" and "at \<le> length bs"
  shows "at \<le> b \<and> b \<le> length bs"
proof (cases "Take bs at 0x65 = None \<and> Take bs at 0x45 = None")
  case True
  then have "b = at" using assms(1) by (simp add: exponent_part_def)
  then show ?thesis using assms(2) by simp
next
  case False
  then have lt: "at + 1 \<le> length bs" using assms(2) by (auto simp: Take_def split: if_splits)
  obtain d where d: "d = (case Take bs (at + 1) 0x2B of Some x \<Rightarrow> x | None \<Rightarrow> optional bs (at + 1) 0x2D)"
    by blast
  have r: "required_digits bs d = Some b"
    using assms(1) False unfolding exponent_part_def Let_def d by presburger
  have "at + 1 \<le> d"
  proof (cases "Take bs (at + 1) 0x2B")
    case None
    then show ?thesis using optional_next[OF lt, of "0x2D"] by (simp add: d)
  next
    case (Some x)
    then show ?thesis using Take_next[OF Some lt] by (simp add: d)
  qed
  then show ?thesis using required_digits_next[OF r] by (auto simp: ahead_def)
qed

lemma Number_next:
  assumes "Number bs at = Some at'" and "at \<le> length bs"
  shows "ahead bs at at'"
proof -
  let ?a = "optional bs at 0x2D"
  obtain b c where b: "integer_part bs ?a = Some b" and c: "fraction_part bs b = Some c"
    and e: "exponent_part bs c = Some at'"
    using assms(1) by (auto simp: Number_def split: option.splits)
  have a: "at \<le> ?a" "?a \<le> length bs" using optional_next[OF assms(2)] by auto
  have b': "?a < b" "b \<le> length bs" using integer_part_next[OF b a(2)] by (auto simp: ahead_def)
  have c': "b \<le> c" "c \<le> length bs" using fraction_part_next[OF c b'(2)] by auto
  show ?thesis using a b' c' exponent_part_next[OF e c'(2)] by (simp add: ahead_def)
qed

lemma Add_number: "sv_number v \<le> u32_max \<Longrightarrow> sv_number (Add s v) \<le> u32_max"
  by (auto simp: Add_def Let_def)

lemma string_loop_number:
  "string_loop bs at v = Some (at', w) \<Longrightarrow> sv_number v \<le> u32_max \<Longrightarrow> sv_number w \<le> u32_max"
proof (induction bs at v rule: string_loop.induct)
  case (1 bs at v)
  show ?case
  proof (cases "at < length bs \<and> bs ! at \<noteq> 0x22")
    case True
    then obtain a s where c: "character bs at = Some (a, s)" and "string_loop bs a (Add s v) = Some (at', w)"
      using 1(2) by (subst (asm) string_loop.simps) (auto split: option.splits)
    then show ?thesis using 1(1)[of "(a, s)" a s] 1(3) True Add_number by auto
  next
    case False
    then show ?thesis using 1(2,3) by (subst (asm) string_loop.simps) (auto split: if_splits)
  qed
qed

lemma String_number: "String bs at = Some (at', v) \<Longrightarrow> sv_number v \<le> u32_max"
  by (auto simp: String_def StringValue_zero_def split: option.splits dest!: string_loop_number)

text \<open>A reader that stands on a typed top frame.\<close>

lemma reader_ok_cursor: "reader_ok bs r \<Longrightarrow> at \<le> length bs \<Longrightarrow> reader_ok bs (r\<lparr>js_cursor := at\<rparr>)"
  by (simp add: reader_ok_def)

lemma set_top_ok:
  assumes "reader_ok bs r" and "js_stack r = f # fs" and "state_ok g" and "role_ok g" and "fr_role g = fr_role f"
  shows "reader_ok bs (set_top g r)"
  using assms stack_ok_top[of f fs g] by (simp add: reader_ok_def set_top_def)

lemma set_top_keeps [simp]:
  "js_cursor (set_top g r) = js_cursor r" "js_error (set_top g r) = js_error r" "js_tokens (set_top g r) = js_tokens r"
  "js_stack (set_top g r) = g # tl (js_stack r)"
  by (simp_all add: set_top_def)

lemma Close_cursor: "js_cursor (Close r) = js_cursor r"
  by (simp add: Close_def Let_def Fail_def)

lemma set_count_ok: "counts_ok c \<Longrightarrow> v \<le> u32_max \<Longrightarrow> counts_ok (set_count k v c)"
  by (simp add: set_count_def counts_ok_def)

lemma Close_ok:
  assumes "reader_ok bs r" and "js_stack r = f # fs"
  shows "reader_ok bs (Close r)"
proof -
  have f: "fr_value f \<le> u32_max" "stack_ok fs"
    using assms stack_ok_hd[of f fs] stack_ok_tl[of f fs] by (auto simp: reader_ok_def role_ok_def)
  have "js_stack (Close r) = fs" "js_tokens (Close r) = js_tokens r"
    using assms(2) by (simp_all add: Close_def Let_def Fail_def)
  moreover have "counts_ok (js_counts (Close r))"
    using assms f set_count_ok[of "js_counts r" "fr_value f"]
    by (simp add: Close_def Let_def Fail_def reader_ok_def)
  ultimately show ?thesis using assms f by (simp add: reader_ok_def Close_cursor)
qed

lemma Token_ok: "Token r = (True, r1) \<Longrightarrow> reader_ok bs r \<Longrightarrow> reader_ok bs r1"
  by (auto simp: Token_def reader_ok_def split: if_splits)

lemma Token_same:
  "Token r = (True, r1) \<Longrightarrow> js_cursor r1 = js_cursor r \<and> js_stack r1 = js_stack r \<and> js_error r1 = js_error r"
  by (auto simp: Token_def split: if_splits)

lemma Token_fails: "Token r = (False, r1) \<Longrightarrow> js_error r1 \<noteq> R_None"
  by (auto simp: Token_def Fail_def split: if_splits)

lemma take_key_cases:
  assumes "take_key k f = Some g"
  shows "g = f\<lparr>fr_key := Key_Other\<rparr> \<or>
    (fr_role f = Role_Root \<and> g = f\<lparr>fr_haveName := True, fr_key := Key_Properties\<rparr>) \<or>
    (fr_role f = Role_Property \<and> g = f\<lparr>fr_haveName := True, fr_key := Key_Name\<rparr>) \<or>
    (fr_role f = Role_Property \<and> g = f\<lparr>fr_haveValue := True, fr_key := Key_Value\<rparr>)"
  using assms by (auto simp: take_key_def Let_def split: if_splits)

lemma take_key_ok:
  assumes "take_key k f = Some g" and "role_ok f" and "fr_object f"
  shows "state_ok (g\<lparr>fr_state := S_Colon\<rparr>) \<and> role_ok (g\<lparr>fr_state := S_Colon\<rparr>) \<and> fr_role g = fr_role f"
  using take_key_cases[OF assms(1)] assms(2,3)
  by (elim disjE) (simp_all add: role_ok_def state_ok_def)

lemma ReadKey_advances:
  assumes "reader_ok bs r" and "js_stack r = f # fs" and "fr_object f"
  shows "advances bs (js_cursor r) (ReadKey bs r)"
proof (cases "Token r")
  case (Pair ok r1)
  show ?thesis
  proof (cases ok)
    case False
    then show ?thesis using malformed_advances by (simp add: ReadKey_def Pair)
  next
    case True
    have t: "Token r = (True, r1)" using Pair True by simp
    note rok = Token_ok[OF t assms(1)]
    have same: "js_cursor r1 = js_cursor r" "js_error r1 = js_error r" using Token_same[OF t] by simp_all
    have le: "js_cursor r \<le> length bs" using assms(1) by (simp add: reader_ok_def)
    show ?thesis
    proof (cases "String bs (js_cursor r)")
      case None
      then show ?thesis using malformed_advances by (simp add: ReadKey_def t same)
    next
      case (Some p)
      then obtain at key where s: "String bs (js_cursor r) = Some (at, key)" by (cases p) auto
      have st: "js_stack r1 = f # fs" using Token_same[OF t] assms(2) by simp
      have at: "ahead bs (js_cursor r) at" by (rule String_next[OF s le])
      show ?thesis
      proof (cases "take_key key f")
        case None
        then show ?thesis using malformed_advances by (simp add: ReadKey_def t s st same)
      next
        case (Some g)
        have f: "role_ok f" using assms(1,2) stack_ok_hd[of f fs] by (simp add: reader_ok_def)
        note g = take_key_ok[OF Some f assms(3)]
        have "reader_ok bs (r1\<lparr>js_cursor := at\<rparr>)" using reader_ok_cursor[OF rok] at by (simp add: ahead_def)
        then have "reader_ok bs (set_top (g\<lparr>fr_state := S_Colon\<rparr>) (r1\<lparr>js_cursor := at\<rparr>))"
          by (rule set_top_ok[of _ _ f fs]) (use st g in simp_all)
        then show ?thesis using at by (simp add: ReadKey_def t s st same Some advances_def ahead_def)
      qed
    qed
  qed
qed

lemma move_advances:
  assumes "reader_ok bs r" and "\<And>at. p = Some at \<Longrightarrow> ahead bs (js_cursor r) at"
  shows "advances bs (js_cursor r) (move p r)"
  using assms malformed_advances reader_ok_cursor
  by (cases p) (auto simp: move_def advances_def ahead_def)

lemma Push_advances:
  assumes "reader_ok bs r" and "js_stack r = f # fs" and "fr_state f = S_More" and "child_role f c = Some role"
    and "object \<longleftrightarrow> c = 0x7B" and "c = 0x7B \<or> c = 0x5B" and "at < js_cursor r"
  shows "advances bs at (snd (Push object role r))"
proof (cases "length (js_stack r) = kJsonDepth")
  case True
  then show ?thesis using assms(1) by (simp add: Push_def advances_def Fail_def)
next
  case False
  have role: "role_ok (new_frame object role)" "nests (new_frame object role) f"
    using assms(3-6) by (auto simp: child_role_def new_frame_def Frame_zero_def role_ok_def nests_def split: if_splits)
  have "state_ok (new_frame object role)" by (simp add: new_frame_def Frame_zero_def state_ok_def)
  then have "stack_ok (new_frame object role # f # fs)"
    using role assms(1,2) by (simp add: reader_ok_def)
  moreover have "length (js_stack r) < kJsonDepth" using assms(1) False by (simp add: reader_ok_def)
  ultimately show ?thesis using assms(1,2,7) False by (simp add: Push_def advances_def reader_ok_def)
qed

lemma take_text_ok:
  assumes "role_ok f" and "state_ok f" and "sv_number v \<le> u32_max"
  shows "role_ok (take_text v f) \<and> state_ok (take_text v f) \<and> fr_role (take_text v f) = fr_role f"
  using assms by (auto simp: take_text_def role_ok_def state_ok_def)


lemma ReadValue_advances:
  assumes "reader_ok bs r" and "js_stack r = f # fs"
  shows "advances bs (js_cursor r) (ReadValue bs r)"
proof (cases "Token r")
  case (Pair ok r1)
  show ?thesis
  proof (cases ok)
    case False
    then show ?thesis using Token_fails Pair by (simp add: ReadValue_def advances_def)
  next
    case True
    have t: "Token r = (True, r1)" using Pair True by simp
    note rok = Token_ok[OF t assms(1)]
    have same: "js_cursor r1 = js_cursor r" and st: "js_stack r1 = f # fs"
      using Token_same[OF t] assms(2) by simp_all
    define c where "c = Peek bs (js_cursor r)"
    define g where "g = f\<lparr>fr_state := S_More\<rparr>"
    define r2 where "r2 = set_top g r1"
    have f: "role_ok f" "state_ok f" using assms stack_ok_hd[of f fs] by (simp_all add: reader_ok_def)
    have g: "role_ok g" "state_ok g" "fr_role g = fr_role f" "fr_state g = S_More"
      using f by (auto simp: g_def role_ok_def state_ok_def)
    have r2: "reader_ok bs r2" "js_stack r2 = g # fs" "js_cursor r2 = js_cursor r"
      using set_top_ok[OF rok st g(2,1,3)] st same by (simp_all add: r2_def)
    have le: "js_cursor r \<le> length bs" using assms(1) by (simp add: reader_ok_def)
    show ?thesis
    proof (cases "child_role f c")
      case None
      then show ?thesis using malformed_advances by (simp add: ReadValue_def t st same c_def[symmetric])
    next
      case (Some role)
      have e: "ReadValue bs r = value_here bs c role g r2"
        by (simp add: ReadValue_def t st same c_def[symmetric] Some g_def[symmetric] r2_def[symmetric])
      note run = e value_here_def r2(3)
      have lit: "advances bs (js_cursor r) (move (Literal bs (js_cursor r) w) r2)" if "w \<noteq> []" for w
        using move_advances[OF r2(1), of "Literal bs (js_cursor r) w"] Literal_next[OF _ that le] r2(3) by simp
      have num: "advances bs (js_cursor r) (move (Number bs (js_cursor r)) r2)"
        using move_advances[OF r2(1), of "Number bs (js_cursor r)"] Number_next[OF _ le] r2(3) by simp
      consider (brace) "c = 0x7B \<or> c = 0x5B" | (string) "c = 0x22" | (other) "c \<notin> {0x7B, 0x5B, 0x22}" by auto
      then show ?thesis
      proof cases
        case brace
        then have lt: "js_cursor r < length bs" using c_def same by (auto simp: Peek_def split: if_splits)
        have "advances bs (js_cursor r) (snd (Push (c = 0x7B) role (r2\<lparr>js_cursor := js_cursor r + 1\<rparr>)))"
          by (rule Push_advances[of _ _ g fs c])
             (use brace lt r2 g reader_ok_cursor Some in \<open>auto simp: child_role_def g_def\<close>)
        then show ?thesis using brace by (simp add: run)
      next
        case string
        show ?thesis
        proof (cases "String bs (js_cursor r)")
          case None
          then show ?thesis using malformed_advances string by (simp add: run)
        next
          case (Some p)
          then obtain at v where s: "String bs (js_cursor r) = Some (at, v)" by (cases p) auto
          have at: "ahead bs (js_cursor r) at" by (rule String_next[OF s le])
          note tt = take_text_ok[OF g(1,2) String_number[OF s]]
          have "reader_ok bs (r2\<lparr>js_cursor := at\<rparr>)" using reader_ok_cursor[OF r2(1)] at by (simp add: ahead_def)
          then have "reader_ok bs (set_top (take_text v g) (r2\<lparr>js_cursor := at\<rparr>))"
            by (rule set_top_ok[of _ _ g fs]) (use tt r2 in simp_all)
          then show ?thesis using at s string by (simp add: run advances_def ahead_def)
        qed
      next
        case other
        then show ?thesis using lit num malformed_advances by (simp add: run Let_def bytes_of_def)
      qed
    qed
  qed
qed

lemma more_or_close_advances:
  assumes "reader_ok bs r" and "js_stack r = f # fs" and "state_ok (f\<lparr>fr_state := s\<rparr>)"
  shows "advances bs (js_cursor r) (more_or_close bs c s r)"
proof -
  have le: "js_cursor r \<le> length bs" using assms(1) by (simp add: reader_ok_def)
  have g: "role_ok (f\<lparr>fr_state := s\<rparr>)"
    using assms stack_ok_hd[of f fs] by (simp add: reader_ok_def role_ok_def)
  show ?thesis
  proof (cases "Take bs (js_cursor r) c")
    case (Some at)
    note at = conjunct2[OF Take_next[OF Some le]]
    have "reader_ok bs (Close (r\<lparr>js_cursor := at\<rparr>))"
      using Close_ok[OF reader_ok_cursor[OF assms(1)]] assms(2) at by (simp add: ahead_def)
    then show ?thesis using at by (simp add: more_or_close_def Some advances_def Close_cursor ahead_def)
  next
    case None
    show ?thesis
    proof (cases "Take bs (js_cursor r) 0x2C")
      case (Some at)
      note at = conjunct2[OF Take_next[OF Some le]]
      have "reader_ok bs (r\<lparr>js_cursor := at\<rparr>)" using reader_ok_cursor[OF assms(1)] at by (simp add: ahead_def)
      then have "reader_ok bs (set_top (f\<lparr>fr_state := s\<rparr>) (r\<lparr>js_cursor := at\<rparr>))"
        by (rule set_top_ok[of _ _ f fs]) (use assms g in simp_all)
      then show ?thesis using None Some at assms(2) by (simp add: more_or_close_def advances_def ahead_def)
    qed (simp add: more_or_close_def None malformed_advances)
  qed
qed

lemma close_or:
  assumes "reader_ok bs r" and "js_stack r = f # fs" and "advances bs (js_cursor r) p"
  shows "advances bs (js_cursor r) (case Take bs (js_cursor r) c of
    Some at \<Rightarrow> Close (r\<lparr>js_cursor := at\<rparr>) | None \<Rightarrow> p)"
proof (cases "Take bs (js_cursor r) c")
  case (Some at)
  have le: "js_cursor r \<le> length bs" using assms(1) by (simp add: reader_ok_def)
  note at = conjunct2[OF Take_next[OF Some le]]
  have "reader_ok bs (Close (r\<lparr>js_cursor := at\<rparr>))"
    using Close_ok[OF reader_ok_cursor[OF assms(1)]] assms(2) at by (simp add: ahead_def)
  then show ?thesis using at by (simp add: Some advances_def Close_cursor ahead_def)
qed (simp add: assms(3))

text \<open>Every turn of the loop fails, or it keeps the reader typed and goes on in the text.\<close>

lemma turn_advances:
  assumes "reader_ok bs r0" and "js_stack r0 \<noteq> []"
  shows "advances bs (js_cursor r0) (turn bs r0)"
proof -
  define r where "r = r0\<lparr>js_cursor := Space bs (js_cursor r0)\<rparr>"
  obtain f fs where st: "js_stack r = f # fs" using assms(2) by (cases "js_stack r0") (auto simp: r_def)
  have sp: "js_cursor r0 \<le> js_cursor r" "js_cursor r \<le> length bs"
    using Space_bound assms(1) by (auto simp: r_def reader_ok_def)
  have ok: "reader_ok bs r" using reader_ok_cursor assms(1) sp(2) by (simp add: r_def)
  then have f: "state_ok f" "role_ok f" using stack_ok_hd[of f fs] st by (simp_all add: reader_ok_def)
  have mono: "advances bs (js_cursor r0) p" if "advances bs (js_cursor r) p" for p
    using that sp(1) by (auto simp: advances_def)
  have top: "hd (js_stack r) = f" by (simp add: st)
  have "advances bs (js_cursor r) (turn bs r0)"
  proof (cases "fr_object f")
    case True
    note key = ReadKey_advances[OF ok st True]
    show ?thesis
    proof (cases "fr_state f")
      case S_Colon
      have s: "state_ok (f\<lparr>fr_state := S_Value\<rparr>)" "role_ok (f\<lparr>fr_state := S_Value\<rparr>)"
        using f True by (simp_all add: state_ok_def role_ok_def)
      show ?thesis
      proof (cases "Take bs (js_cursor r) 0x3A")
        case (Some at)
        note at = conjunct2[OF Take_next[OF Some sp(2)]]
        have "reader_ok bs (r\<lparr>js_cursor := at\<rparr>)" using reader_ok_cursor[OF ok] at by (simp add: ahead_def)
        then have "reader_ok bs (set_top (f\<lparr>fr_state := S_Value\<rparr>) (r\<lparr>js_cursor := at\<rparr>))"
          by (rule set_top_ok[of _ _ f fs]) (use st s in simp_all)
        then show ?thesis using at Some True S_Colon
          by (simp add: turn_def Let_def r_def[symmetric] top advances_def ahead_def)
      qed (simp add: turn_def Let_def r_def[symmetric] top True S_Colon malformed_advances)
    qed (use True f ok st key ReadValue_advances[OF ok st] in
         \<open>simp_all add: turn_def Let_def r_def[symmetric] top malformed_advances
           close_or[OF ok st key] more_or_close_advances[OF ok st] state_ok_def\<close>)
  next
    case False
    show ?thesis
      by (cases "fr_state f")
         (use False f ok st ReadValue_advances[OF ok st] in
           \<open>simp_all add: turn_def Let_def r_def[symmetric] top malformed_advances
             close_or[OF ok st] more_or_close_advances[OF ok st] state_ok_def\<close>)
  qed
  then show ?thesis by (rule mono)
qed

text \<open>Failures: only the limits of the reader and a malformed text.\<close>

definition json_error :: "Reason \<Rightarrow> bool" where
  "json_error e \<longleftrightarrow> e = R_None \<or> e = R_PreparedLimit \<or> e = R_PreparedMalformed"

lemma Fail_json:
  "json_error (js_error r) \<Longrightarrow> json_error e \<Longrightarrow> json_error (js_error (Fail e r))"
  by (simp add: Fail_def)

lemma json_errors [simp]:
  "json_error R_None" "json_error R_PreparedLimit" "json_error R_PreparedMalformed"
  by (simp_all add: json_error_def)

lemma Token_json: "json_error (js_error r) \<Longrightarrow> Token r = (ok, r1) \<Longrightarrow> json_error (js_error r1)"
  using Fail_json by (auto simp: Token_def split: if_splits)

lemma Close_json: "json_error (js_error r) \<Longrightarrow> json_error (js_error (Close r))"
  by (simp add: Close_def Let_def Fail_def)

lemma move_json: "json_error (js_error r) \<Longrightarrow> json_error (js_error (move p r))"
  using Fail_json by (cases p) (simp_all add: move_def)

lemma ReadKey_json: "json_error (js_error r) \<Longrightarrow> json_error (js_error (ReadKey bs r))"
  by (auto simp: ReadKey_def Fail_json split: prod.splits option.splits bool.splits dest: Token_json)

lemma Push_json: "json_error (js_error r) \<Longrightarrow> json_error (js_error (snd (Push b c r)))"
  by (simp add: Push_def Fail_json)

lemma value_here_json: "json_error (js_error r) \<Longrightarrow> json_error (js_error (value_here bs c role f r))"
  by (auto simp: value_here_def Let_def Fail_json move_json Push_json split: option.splits)

lemma ReadValue_json: "json_error (js_error r) \<Longrightarrow> json_error (js_error (ReadValue bs r))"
  by (auto simp: ReadValue_def Let_def Fail_json value_here_json split: prod.splits option.splits bool.splits
      dest: Token_json)

lemma more_or_close_json: "json_error (js_error r) \<Longrightarrow> json_error (js_error (more_or_close bs c s r))"
  by (auto simp: more_or_close_def Fail_json Close_json split: option.splits)

lemma turn_json: "json_error (js_error r) \<Longrightarrow> json_error (js_error (turn bs r))"
  by (auto simp: turn_def Let_def Fail_json Close_json ReadKey_json ReadValue_json more_or_close_json
      split: option.splits FState.splits)

text \<open>Where the loop starts.\<close>

lemma opened_ok:
  assumes "opened bs = (True, r)"
  shows "reader_ok bs r \<and> js_error r = R_None \<and> js_stack r = [new_frame True Role_Root]"
proof -
  let ?s = "Space bs 0"
  obtain at where at: "Take bs ?s 0x7B = Some at"
    using assms by (auto simp: opened_def Let_def JReader_zero_def split: option.splits)
  have "ahead bs ?s at" using Take_next[OF at] Space_bound[of 0 bs] by blast
  moreover have "stack_ok [new_frame True Role_Root]" "counts_ok NativeCounts_zero"
    by (simp_all add: new_frame_def Frame_zero_def state_ok_def role_ok_def counts_ok_def NativeCounts_zero_def)
  ultimately show ?thesis
    using assms at
    by (auto simp: opened_def Let_def JReader_zero_def Token_def Push_def reader_ok_def ahead_def kJsonTokens_def kJsonDepth_def
        split: if_splits)
qed

text \<open>The readers a run goes through.\<close>

inductive reading :: "byte list \<Rightarrow> JReader \<Rightarrow> bool" for bs where
  start: "opened bs = (True, r) \<Longrightarrow> reading bs r"
| turns: "reading bs r \<Longrightarrow> js_stack r \<noteq> [] \<Longrightarrow> js_error r = R_None \<Longrightarrow> reading bs (turn bs r)"

lemma reading_ok: "reading bs r \<Longrightarrow> js_error r = R_None \<longrightarrow> reader_ok bs r"
proof (induction rule: reading.induct)
  case (start r)
  then show ?case using opened_ok by blast
next
  case (turns r)
  then show ?case using turn_advances[of bs r] by (auto simp: advances_def)
qed

lemma run_loop_stop: "js_stack r = [] \<or> js_error r \<noteq> R_None \<Longrightarrow> run_loop bs r = Some r"
  by (subst run_loop.simps) (auto split: if_splits)

lemma run_loop_go: "js_stack r \<noteq> [] \<Longrightarrow> js_error r = R_None \<Longrightarrow> run_loop bs r = run_loop bs (turn bs r)"
  by (subst run_loop.simps) simp

lemma run_loop_ends:
  assumes "reader_ok bs r" and "json_error (js_error r)"
  shows "\<exists>r'. run_loop bs r = Some r' \<and> json_error (js_error r') \<and>
    (js_error r' = R_None \<longrightarrow> reader_ok bs r' \<and> js_stack r' = [])"
  using assms
proof (induction "length bs - js_cursor r" arbitrary: r rule: less_induct)
  case less
  show ?case
  proof (cases "js_stack r \<noteq> [] \<and> js_error r = R_None")
    case False
    then have "run_loop bs r = Some r" using run_loop_stop by blast
    then show ?thesis using False less.prems by auto
  next
    case True
    then have step: "run_loop bs r = run_loop bs (turn bs r)" using run_loop_go by blast
    have json: "json_error (js_error (turn bs r))" by (rule turn_json[OF less.prems(2)])
    have adv: "advances bs (js_cursor r) (turn bs r)" using turn_advances less.prems(1) True by blast
    show ?thesis
    proof (cases "js_error (turn bs r) = R_None")
      case False
      then have "run_loop bs (turn bs r) = Some (turn bs r)" using run_loop_stop by blast
      then show ?thesis using step json False by simp
    next
      case err: True
      have ok: "reader_ok bs (turn bs r)" "js_cursor r < js_cursor (turn bs r)"
        using adv err by (auto simp: advances_def)
      then have "length bs - js_cursor (turn bs r) < length bs - js_cursor r" by (auto simp: reader_ok_def)
      then show ?thesis using less.hyps ok(1) json step by simp
    qed
  qed
qed

definition accepted_counts :: "(Reason \<times> NativeCounts) option \<Rightarrow> bool" where
  "accepted_counts res \<longleftrightarrow> (\<exists>c. res = Some (R_None, c) \<and> counts_ok c)"

definition refused :: "(Reason \<times> NativeCounts) option \<Rightarrow> bool" where
  "refused res \<longleftrightarrow>
     (\<exists>e\<in>{R_PreparedUnavailable, R_PreparedLimit, R_PreparedMalformed}. res = Some (e, NativeCounts_zero))"

lemma Run_ends: "accepted_counts (Run bs) \<or> refused (Run bs)"
proof (cases "opened bs")
  case (Pair ok r)
  show ?thesis
  proof (cases ok)
    case False
    have "json_error (js_error r)"
      using Pair by (auto simp: opened_def Let_def JReader_zero_def Push_def Fail_json
          split: option.splits prod.splits bool.splits if_splits dest!: Token_json[rotated])
    then have "Failure r = R_PreparedMalformed \<or> Failure r = R_PreparedLimit"
      by (auto simp: Failure_def json_error_def)
    then show ?thesis using Pair False by (auto simp: Run_def refused_def)
  next
    case True
    note o = Pair[unfolded eqTrueI[OF True]]
    obtain r' where r': "run_loop bs r = Some r'" and e: "json_error (js_error r')"
      and "js_error r' = R_None \<longrightarrow> reader_ok bs r' \<and> js_stack r' = []"
      using run_loop_ends[of bs r] opened_ok[OF o] by auto
    then have "js_error r' = R_None \<longrightarrow> counts_ok (js_counts r')" by (simp add: reader_ok_def)
    then show ?thesis using e
      by (auto simp: Run_def o r' accepted_counts_def refused_def json_error_def)
  qed
qed

text \<open>
  C13: while no error is set, every reader that a run goes through is well typed.  The cursor is
  within the text; at most 8192 tokens are counted and at most 16 frames are open; the bottom
  frame alone is the root, the array of properties lies directly in the root's \<open>op\<close> and each of
  its elements is an object; the counts fit 32 bits; and the frame on top is in a state of its
  own container, so the \<open>default:\<close> branches of both switches are never taken.
\<close>

theorem reader_is_well_typed:
  assumes "reading bs r" and "js_error r = R_None"
  shows "reader_ok bs r \<and> (js_stack r = [] \<or> state_ok (hd (js_stack r)))"
proof -
  have ok: "reader_ok bs r" using reading_ok assms by blast
  then show ?thesis using stack_ok_hd by (cases "js_stack r") (auto simp: reader_ok_def)
qed

text \<open>
  C14: the reader returns on every input, null pointers, empty and oversized texts included.  It
  either accepts, with three counts of 32 bits, or it answers one of its three reasons and
  leaves the output zero; no turn of its loop can repeat for ever.
\<close>

theorem reader_always_ends:
  "accepted_counts (ReadPreparedJsonCounts bytes given) \<or> refused (ReadPreparedJsonCounts bytes given)"
  using Run_ends by (auto simp: ReadPreparedJsonCounts_def refused_def split: option.splits)

lemma reader_is_well_typed_witness:
  "let bs = bytes_of ''{}'' in reader_ok bs (snd (opened bs)) \<and>
     (js_stack (snd (opened bs)) = [] \<or> state_ok (hd (js_stack (snd (opened bs)))))"
proof -
  let ?bs = "bytes_of ''{}''"
  have "opened ?bs = (True, snd (opened ?bs))" "js_error (snd (opened ?bs)) = R_None" by code_simp+
  then show ?thesis using reader_is_well_typed[OF reading.start] by (auto simp: Let_def)
qed

end
