(* ===== verification/ControlText.thy ===== *)
theory ControlText
  imports Framing ConfigFile
begin

text \<open>
  The texts that can authorise a recovery (\<open>src/companion/leech_recovery_control.*\<close>): the
  permission file, the request a pipe client sends, and the console command.

  A span of bytes or code units is a list, and a cursor in it is what is left to read.  A root
  is the code units before its terminator.  Security identifiers are Windows' own: their bytes
  and the calls on them are the record \<open>SidOps\<close>, an argument of what uses them.
\<close>

section \<open>Scope\<close>

type_synonym unit16 = "16 word"

definition kControlFileBytes :: nat where "kControlFileBytes = 512"
definition kControlRootCharacters :: nat where "kControlRootCharacters = 36"
definition kConsoleCommandCharacters :: nat where "kConsoleCommandCharacters = 96"
definition kConsoleConfirmationCharacters :: nat where "kConsoleConfirmationCharacters = 16"
definition kSidBytes :: nat where "kSidBytes = 68"

datatype ControlResult =
    CR_Uninitialized | CR_Disabled | CR_Ready | CR_Missing | CR_InvalidConfig | CR_InvalidIdentity
  | CR_InvalidPath | CR_SecurityRejected | CR_ReadFailure | CR_InvalidRequest | CR_Latched
  | CR_Stopped | CR_WorkerFailure | CR_PendingWrite | CR_EndpointUnavailable | CR_AlreadyClaimed

record ControlScope =
  sc_schema :: nat
  sc_serverRoot :: "unit16 list"

definition wide_of :: "string \<Rightarrow> unit16 list" where
  "wide_of s = map ucast (bytes_of s)"

definition kTrainingRoot :: "unit16 list" where
  "kTrainingRoot = wide_of (''E:'' @ [CHR 0x5C] @ ''rs2v_trainingsrv'')"

definition kTrainingControlScope :: ControlScope where
  "kTrainingControlScope = \<lparr>sc_schema = 1, sc_serverRoot = kTrainingRoot\<rparr>"

definition letter :: "unit16 \<Rightarrow> bool" where
  "letter c \<longleftrightarrow> (0x41 \<le> c \<and> c \<le> 0x5A) \<or> (0x61 \<le> c \<and> c \<le> 0x7A)"

definition component_char :: "unit16 \<Rightarrow> bool" where
  "component_char c \<longleftrightarrow> letter c \<or> (0x30 \<le> c \<and> c \<le> 0x39) \<or> c = 0x5F \<or> c = 0x2D"

definition PilotRoot :: "unit16 list \<Rightarrow> bool" where
  "PilotRoot root \<longleftrightarrow>
     \<not> (length root < 4 \<or> length root \<ge> kControlRootCharacters \<or> root ! 1 \<noteq> 0x3A \<or> root ! 2 \<noteq> 0x5C \<or>
        \<not> letter (root ! 0)) \<and>
     list_all component_char (drop 3 root)"

definition AsciiRoot :: "byte list \<Rightarrow> unit16 list option" where
  "AsciiRoot bytes =
     (if length bytes \<ge> kControlRootCharacters then None
      else let root = map ucast bytes in if PilotRoot root then Some root else None)"

definition ValidScope :: "ControlScope \<Rightarrow> bool" where
  "ValidScope s \<longleftrightarrow> PilotRoot (sc_serverRoot s) \<and>
     (sc_schema s = 2 \<or> (sc_schema s = 1 \<and> sc_serverRoot s = kTrainingRoot))"

record ControlRequest =
  cq_pid :: nat
  cq_runId :: "byte list"

definition ControlRequest_zero :: ControlRequest where
  "ControlRequest_zero = \<lparr>cq_pid = 0, cq_runId = replicate 16 0\<rparr>"

definition ValidIdentity :: "ControlRequest \<Rightarrow> bool" where
  "ValidIdentity q \<longleftrightarrow> cq_pid q \<noteq> 0 \<and> list_ex (\<lambda>b. b \<noteq> 0) (cq_runId q)"

section \<open>The permission file\<close>

datatype WellKnownSid = Sid_World | Sid_AuthenticatedUser | Sid_BuiltinUsers | Sid_Anonymous
  | Sid_BuiltinAdministrators | Sid_LocalSystem

text \<open>
  What Windows answers: the identifier a text denotes, the text of an identifier, whether it is valid,
  whether it is a valid well-known one of a kind, and whether two identifiers are valid and equal.
\<close>

record SidOps =
  so_parse :: "unit16 list \<Rightarrow> byte list option"
  so_text :: "byte list \<Rightarrow> unit16 list option"
  so_valid :: "byte list \<Rightarrow> bool"
  so_known :: "byte list \<Rightarrow> WellKnownSid \<Rightarrow> bool"
  so_equal :: "byte list \<Rightarrow> byte list \<Rightarrow> bool"

record ControlConfig =
  cc_enabled :: bool
  cc_consoleRequested :: bool
  cc_scope :: ControlScope
  cc_operatorSid :: "byte list"

definition ControlConfig_zero :: ControlConfig where
  "ControlConfig_zero = \<lparr>cc_enabled = False, cc_consoleRequested = False,
     cc_scope = \<lparr>sc_schema = 0, sc_serverRoot = []\<rparr>, cc_operatorSid = []\<rparr>"

definition ParseSid :: "SidOps \<Rightarrow> byte list \<Rightarrow> byte list option" where
  "ParseSid sids bytes =
     (if bytes = [] \<or> length bytes \<ge> 184 then None
      else case so_parse sids (map ucast bytes) of
        None \<Rightarrow> None
      | Some sid \<Rightarrow>
          if so_text sids sid = Some (map ucast bytes) \<and> \<not> so_known sids sid Sid_World \<and>
             \<not> so_known sids sid Sid_AuthenticatedUser \<and> \<not> so_known sids sid Sid_BuiltinUsers \<and>
             \<not> so_known sids sid Sid_Anonymous \<and> length sid \<le> kSidBytes
          then Some sid else None)"

text \<open>The locals of the loop; \<open>cp_fields\<close> is the bit set \<open>fields\<close>.\<close>

record ConfigParse =
  cp_config :: ControlConfig
  cp_fields :: "nat set"
  cp_permission :: nat
  cp_none :: bool

definition ConfigParse_init :: ConfigParse where
  "ConfigParse_init = \<lparr>cp_config = ControlConfig_zero, cp_fields = {}, cp_permission = 0, cp_none = False\<rparr>"

definition set_schema :: "nat \<Rightarrow> ConfigParse \<Rightarrow> ConfigParse" where
  "set_schema n p = p\<lparr>cp_config := (cp_config p)\<lparr>cc_scope := (cc_scope (cp_config p))\<lparr>sc_schema := n\<rparr>\<rparr>\<rparr>"

definition set_root :: "unit16 list \<Rightarrow> ConfigParse \<Rightarrow> ConfigParse" where
  "set_root root p = p\<lparr>cp_config := (cp_config p)\<lparr>cc_scope := (cc_scope (cp_config p))\<lparr>sc_serverRoot := root\<rparr>\<rparr>\<rparr>"

text \<open>One key with its value: the bit of the field, whether the value is valid, the new locals.\<close>

definition control_field :: "SidOps \<Rightarrow> ConfigParse \<Rightarrow> byte list \<Rightarrow> byte list \<Rightarrow> nat \<times> bool \<times> ConfigParse" where
  "control_field sids p key val =
     (if key = bytes_of ''schema'' then
        let p = (if val = bytes_of ''1'' then set_schema 1 p else if val = bytes_of ''2'' then set_schema 2 p else p) in
        (1, sc_schema (cc_scope (cp_config p)) \<noteq> 0, p)
      else if key = bytes_of ''permission'' then
        let permission = (if val = bytes_of ''training-finish-recreate'' then 1
              else if val = bytes_of ''manual-pilot-finish-recreate'' then 2 else cp_permission p);
            p = p\<lparr>cp_permission := permission, cp_config := (cp_config p)\<lparr>cc_enabled := permission \<noteq> 0\<rparr>\<rparr> in
        (2, permission \<noteq> 0 \<or> val = bytes_of ''disabled'', p)
      else if key = bytes_of ''training_root'' then
        (if val = bytes_of (''E:'' @ [CHR 0x5C] @ ''rs2v_trainingsrv'') then
           (case AsciiRoot val of None \<Rightarrow> (4, False, p) | Some root \<Rightarrow> (4, True, set_root root p))
         else (4, False, p))
      else if key = bytes_of ''server_root'' then
        (case AsciiRoot val of None \<Rightarrow> (16, False, p) | Some root \<Rightarrow> (16, True, set_root root p))
      else if key = bytes_of ''operator_sid'' then
        let none = (val = bytes_of ''none''); p = p\<lparr>cp_none := none\<rparr> in
        if none then (8, True, p)
        else (case ParseSid sids val of None \<Rightarrow> (8, False, p)
              | Some sid \<Rightarrow> (8, True, p\<lparr>cp_config := (cp_config p)\<lparr>cc_operatorSid := sid\<rparr>\<rparr>))
      else if key = bytes_of ''console_trigger'' then
        let requested = (val = bytes_of ''server-admin'') in
        (32, requested \<or> val = bytes_of ''disabled'', p\<lparr>cp_config := (cp_config p)\<lparr>cc_consoleRequested := requested\<rparr>\<rparr>)
      else (0, False, p))"

definition control_entry :: "SidOps \<Rightarrow> ConfigParse \<Rightarrow> byte list \<Rightarrow> byte list \<Rightarrow> ConfigParse option" where
  "control_entry sids p key val =
     (case control_field sids p key val of (field, valid, p) \<Rightarrow>
        if field = 0 \<or> \<not> valid \<or> field \<in> cp_fields p then None
        else Some (p\<lparr>cp_fields := insert field (cp_fields p)\<rparr>))"

definition control_line :: "SidOps \<Rightarrow> ConfigParse \<Rightarrow> byte list \<Rightarrow> ConfigParse option" where
  "control_line sids p line =
     (let l = trim (strip_cr line) in
      if l = [] then Some p
      else
        let before = takeWhile (\<lambda>c. c \<noteq> 0x3D) l in
        if length before = length l then None
        else control_entry sids p (trim_right before) (dropWhile ConfigFile.Space (drop (length before + 1) l)))"

function control_lines :: "SidOps \<Rightarrow> ConfigParse \<Rightarrow> byte list \<Rightarrow> ConfigParse option" where
  "control_lines sids p bs =
     (case bs of
        [] \<Rightarrow> Some p
      | _ # _ \<Rightarrow> (case take_line bs of
          None \<Rightarrow> None
        | Some (line, rest) \<Rightarrow> (case control_line sids p line of
            None \<Rightarrow> None
          | Some p \<Rightarrow> control_lines sids p rest)))"
  by pat_completeness auto
termination
  by (relation "measure (\<lambda>(sids, p, bs). length bs)")
    (auto dest: take_line_shorter simp del: take_line.simps simp: less_Suc_eq_le)

declare control_lines.simps [simp del]

text \<open>\<open>None\<close> bytes are a null pointer, \<open>given\<close> an output that is not null.\<close>

definition config_refused :: "ConfigParse \<Rightarrow> bool" where
  "config_refused p \<longleftrightarrow>
     \<not> ValidScope (cc_scope (cp_config p)) \<or>
     cp_fields p - {32} \<noteq> (if sc_schema (cc_scope (cp_config p)) = 1 then {1, 2, 4, 8} else {1, 2, 8, 16}) \<or>
     (32 \<in> cp_fields p \<and> sc_schema (cc_scope (cp_config p)) \<noteq> 2) \<or>
     (cc_enabled (cp_config p) \<and> (cp_none p \<or> cp_permission p \<noteq> sc_schema (cc_scope (cp_config p))))"

definition ParseControlConfig :: "SidOps \<Rightarrow> byte list option \<Rightarrow> bool \<Rightarrow> ControlResult \<times> ControlConfig" where
  "ParseControlConfig sids bytes given =
     (case bytes of
        None \<Rightarrow> (CR_InvalidConfig, ControlConfig_zero)
      | Some bs \<Rightarrow>
          if bs = [] \<or> length bs > kControlFileBytes \<or> \<not> given then (CR_InvalidConfig, ControlConfig_zero)
          else case control_lines sids ConfigParse_init bs of
            None \<Rightarrow> (CR_InvalidConfig, ControlConfig_zero)
          | Some p \<Rightarrow>
              if config_refused p then (CR_InvalidConfig, ControlConfig_zero)
              else (if cc_enabled (cp_config p) then CR_Ready else CR_Disabled, cp_config p))"

section \<open>The request\<close>

text \<open>\<open>Json\<close>: what is left of the text.  A helper that fails makes the request invalid.\<close>

definition json_space :: "byte list \<Rightarrow> byte list" where
  "json_space bs = dropWhile (\<lambda>c. c \<in> {0x20, 0x09, 0x0D, 0x0A}) bs"

definition json_take :: "byte \<Rightarrow> byte list \<Rightarrow> byte list option" where
  "json_take c bs = (case json_space bs of [] \<Rightarrow> None | b # rest \<Rightarrow> if b = c then Some rest else None)"

fun json_string_loop :: "nat \<Rightarrow> byte list \<Rightarrow> byte list \<Rightarrow> (byte list \<times> byte list) option" where
  "json_string_loop capacity val [] = None"
| "json_string_loop capacity val (c # rest) =
     (if c = 0x22 then Some (val, rest)
      else if c = 0x5C then
        (case rest of [] \<Rightarrow> None | d # rest \<Rightarrow>
           if d \<noteq> 0x5C \<or> length val + 1 \<ge> capacity then None else json_string_loop capacity (val @ [d]) rest)
      else if c < 32 \<or> c > 126 \<or> length val + 1 \<ge> capacity then None
      else json_string_loop capacity (val @ [c]) rest)"

definition json_string :: "nat \<Rightarrow> byte list \<Rightarrow> (byte list \<times> byte list) option" where
  "json_string capacity bs = (case json_take 0x22 bs of None \<Rightarrow> None | Some rest \<Rightarrow> json_string_loop capacity [] rest)"

fun json_digits :: "nat \<Rightarrow> byte list \<Rightarrow> (nat \<times> byte list) option" where
  "json_digits number [] = Some (number, [])"
| "json_digits number (c # rest) =
     (if Digit c then
        let digit = unat c - 0x30 in
        if number > (u32_max - digit) div 10 then None else json_digits (number * 10 + digit) rest
      else Some (number, c # rest))"

definition json_number :: "byte list \<Rightarrow> (nat \<times> byte list) option" where
  "json_number bs =
     (let bs = json_space bs in
      case json_digits 0 bs of
        None \<Rightarrow> None
      | Some (number, rest) \<Rightarrow>
          let read = length bs - length rest in
          if read = 0 \<or> (read > 1 \<and> hd bs = 0x30) then None else Some (number, rest))"

text \<open>
  One value: the bit of its field and what follows a valid value.  \<open>same_path\<close> is the ordinal
  comparison of Windows that ignores case.
\<close>

definition number_is :: "nat \<Rightarrow> byte list \<Rightarrow> byte list option" where
  "number_is n bs = (case json_number bs of None \<Rightarrow> None | Some (m, rest) \<Rightarrow> if m = n then Some rest else None)"

definition string_is :: "(byte list \<Rightarrow> bool) \<Rightarrow> byte list \<Rightarrow> byte list option" where
  "string_is good bs = (case json_string 184 bs of None \<Rightarrow> None | Some (v, rest) \<Rightarrow> if good v then Some rest else None)"

definition root_is :: "(unit16 list \<Rightarrow> unit16 list \<Rightarrow> bool) \<Rightarrow> ControlScope \<Rightarrow> byte list \<Rightarrow> bool" where
  "root_is same_path expected v =
     (case AsciiRoot v of None \<Rightarrow> False
      | Some root \<Rightarrow> if sc_schema expected = 1 then root = sc_serverRoot expected
          else same_path root (sc_serverRoot expected))"

definition request_field ::
  "(unit16 list \<Rightarrow> unit16 list \<Rightarrow> bool) \<Rightarrow> ControlScope \<Rightarrow> ControlRequest \<Rightarrow> byte list \<Rightarrow> byte list \<Rightarrow> nat \<times> byte list option" where
  "request_field same_path expected identity key bs =
     (if key = bytes_of ''schema'' then (1, number_is (sc_schema expected) bs)
      else if key = bytes_of ''action'' then (2, string_is (\<lambda>v. v = bytes_of ''finish-recreate'') bs)
      else if key = bytes_of ''pid'' then (4, number_is (cq_pid identity) bs)
      else if key = bytes_of ''run_id'' then
        (8, string_is (\<lambda>v. length v = 32 \<and> v = hex_run (cq_runId identity)) bs)
      else if key = bytes_of (if sc_schema expected = 1 then ''training_root'' else ''server_root'') then
        (16, string_is (root_is same_path expected) bs)
      else (0, None))"

definition request_turn ::
  "(unit16 list \<Rightarrow> unit16 list \<Rightarrow> bool) \<Rightarrow> ControlScope \<Rightarrow> ControlRequest \<Rightarrow> nat set \<Rightarrow> byte list \<Rightarrow>
   (nat set \<times> byte list) option" where
  "request_turn same_path expected identity found bs =
     (case json_string 32 bs of None \<Rightarrow> None | Some (key, bs) \<Rightarrow>
      (case json_take 0x3A bs of None \<Rightarrow> None | Some bs \<Rightarrow>
       (case request_field same_path expected identity key bs of
          (field, None) \<Rightarrow> None
        | (field, Some bs) \<Rightarrow>
            if field = 0 \<or> field \<in> found then None else Some (insert field found, json_space bs))))"

lemma json_space_length: "length (json_space bs) \<le> length bs"
  by (simp add: json_space_def length_dropWhile_le)

lemma json_take_length: "json_take c bs = Some rest \<Longrightarrow> length rest < length bs"
  using json_space_length[of bs] by (auto simp: json_take_def split: list.splits if_splits)

lemma json_string_loop_length: "json_string_loop n v bs = Some (w, rest) \<Longrightarrow> length rest < length bs"
proof (induction n v bs rule: json_string_loop.induct)
  case (2 n v c bs)
  then show ?case by (auto split: if_splits list.splits)
qed simp

lemma json_string_length: "json_string n bs = Some (w, rest) \<Longrightarrow> length rest < length bs"
  by (auto simp: json_string_def split: option.splits dest!: json_take_length json_string_loop_length)

lemma json_digits_length: "json_digits n bs = Some (m, rest) \<Longrightarrow> length rest \<le> length bs"
  by (induction n bs rule: json_digits.induct) (auto simp: Let_def split: if_splits)

lemma json_number_length: "json_number bs = Some (m, rest) \<Longrightarrow> length rest \<le> length bs"
  using json_space_length[of bs]
  by (auto simp: json_number_def Let_def split: option.splits if_splits dest!: json_digits_length)

lemma request_turn_length:
  assumes "request_turn sp e i found bs = Some (found', rest)"
  shows "length rest < length bs"
proof -
  obtain key b1 b2 field b3 where k: "json_string 32 bs = Some (key, b1)" "json_take 0x3A b1 = Some b2"
    and f: "request_field sp e i key b2 = (field, Some b3)" and r: "rest = json_space b3"
    using assms by (auto simp: request_turn_def split: option.splits prod.splits if_splits)
  have "length b3 \<le> length b2"
    using f by (auto simp: request_field_def number_is_def string_is_def split: if_splits option.splits
        dest: json_number_length json_string_length)
  then show ?thesis using json_string_length[OF k(1)] json_take_length[OF k(2)] json_space_length[of b3] r by simp
qed

function request_loop ::
  "(unit16 list \<Rightarrow> unit16 list \<Rightarrow> bool) \<Rightarrow> ControlScope \<Rightarrow> ControlRequest \<Rightarrow> nat set \<Rightarrow> byte list \<Rightarrow>
   (nat set \<times> byte list) option" where
  "request_loop same_path expected identity found bs =
     (case request_turn same_path expected identity found bs of
        None \<Rightarrow> None
      | Some (found, bs) \<Rightarrow>
          if bs \<noteq> [] \<and> hd bs = 0x7D then Some (found, tl bs)
          else (case json_take 0x2C bs of
            None \<Rightarrow> None
          | Some bs \<Rightarrow> request_loop same_path expected identity found bs))"
  by pat_completeness auto
termination
  by (relation "measure (\<lambda>(sp, e, i, found, bs). length bs)")
    (auto dest!: request_turn_length json_take_length)

declare request_loop.simps [simp del]

definition ParseControlRequest ::
  "(unit16 list \<Rightarrow> unit16 list \<Rightarrow> bool) \<Rightarrow> byte list option \<Rightarrow> ControlRequest \<Rightarrow> bool \<Rightarrow> ControlScope option \<Rightarrow>
   ControlResult \<times> ControlRequest" where
  "ParseControlRequest same_path bytes identity given scope =
     (let expected = (case scope of None \<Rightarrow> kTrainingControlScope | Some s \<Rightarrow> s) in
      case bytes of
        None \<Rightarrow> (CR_InvalidRequest, ControlRequest_zero)
      | Some bs \<Rightarrow>
          if bs = [] \<or> length bs > kControlFileBytes \<or> \<not> given \<or> \<not> ValidIdentity identity \<or> \<not> ValidScope expected
          then (CR_InvalidRequest, ControlRequest_zero)
          else (case json_take 0x7B bs of
            None \<Rightarrow> (CR_InvalidRequest, ControlRequest_zero)
          | Some bs \<Rightarrow> (case request_loop same_path expected identity {} bs of
              None \<Rightarrow> (CR_InvalidRequest, ControlRequest_zero)
            | Some (found, bs) \<Rightarrow>
                if found \<noteq> {1, 2, 4, 8, 16} \<or> json_space bs \<noteq> [] then (CR_InvalidRequest, ControlRequest_zero)
                else (CR_Ready, identity))))"

section \<open>The console command\<close>

datatype ConsoleCommand = Cmd_Unrelated | Cmd_Invalid | Cmd_Status | Cmd_Recover

definition ConsoleConfirmation :: "byte list \<Rightarrow> byte list" where
  "ConsoleConfirmation runId = hex_run (take (kConsoleConfirmationCharacters div 2) runId) @ [0]"

definition lower :: "unit16 \<Rightarrow> unit16" where
  "lower c = (if 0x41 \<le> c \<and> c \<le> 0x5A then c + 0x20 else c)"

definition skip_spaces :: "unit16 list \<Rightarrow> unit16 list" where
  "skip_spaces t = dropWhile (\<lambda>c. c = 0x20) t"

fun match_lower :: "unit16 list \<Rightarrow> unit16 list \<Rightarrow> unit16 list option" where
  "match_lower [] t = Some t"
| "match_lower (e # es) [] = None"
| "match_lower (e # es) (c # t) = (if lower c \<noteq> e then None else match_lower es t)"

definition console_word :: "unit16 list \<Rightarrow> unit16 list \<Rightarrow> unit16 list option" where
  "console_word expected t =
     (case match_lower expected (skip_spaces t) of
        None \<Rightarrow> None | Some t \<Rightarrow> if t = [] \<or> hd t = 0x20 then Some t else None)"

fun match_confirmation :: "byte list \<Rightarrow> unit16 list \<Rightarrow> unit16 list option" where
  "match_confirmation [] t = Some t"
| "match_confirmation (e # es) [] = None"
| "match_confirmation (e # es) (c # t) =
     (if \<not> ((0x30 \<le> e \<and> e \<le> 0x39) \<or> (0x61 \<le> e \<and> e \<le> 0x66)) \<or> c \<noteq> ucast e then None
      else match_confirmation es t)"

definition ParseConsoleCommand :: "unit16 list option \<Rightarrow> byte list \<Rightarrow> ConsoleCommand" where
  "ParseConsoleCommand command confirmation =
     (case command of
        None \<Rightarrow> Cmd_Unrelated
      | Some t \<Rightarrow>
          if t = [] \<or> length t > kConsoleCommandCharacters then Cmd_Unrelated
          else (case match_lower (wide_of ''rs2leech'') (skip_spaces t) of
            None \<Rightarrow> Cmd_Unrelated
          | Some argument \<Rightarrow>
              if argument \<noteq> [] \<and> hd argument > 0x20 \<and> hd argument \<le> 0x7E then Cmd_Unrelated
              else if list_ex (\<lambda>c. c < 0x20 \<or> c > 0x7E) t then Cmd_Invalid
              else (case console_word (wide_of ''status'') argument of
                Some rest \<Rightarrow> if skip_spaces rest = [] then Cmd_Status else Cmd_Invalid
              | None \<Rightarrow> (case console_word (wide_of ''recover'') argument of
                  None \<Rightarrow> Cmd_Invalid
                | Some rest \<Rightarrow>
                    if rest = [] \<or> confirmation ! kConsoleConfirmationCharacters \<noteq> 0 then Cmd_Invalid
                    else (case match_confirmation (take kConsoleConfirmationCharacters confirmation) (skip_spaces rest) of
                      None \<Rightarrow> Cmd_Invalid
                    | Some rest \<Rightarrow> if skip_spaces rest = [] then Cmd_Recover else Cmd_Invalid)))))"

section \<open>What a console command is\<close>

lemma match_lower_iff: "match_lower e t = Some r \<longleftrightarrow> (\<exists>p. t = p @ r \<and> map lower p = e)"
proof (induction e t rule: match_lower.induct)
  case (3 e es c t)
  show ?case
  proof
    assume "match_lower (e # es) (c # t) = Some r"
    then obtain p where "t = p @ r" "map lower p = es" "lower c = e" using 3 by (auto split: if_splits)
    then show "\<exists>p. c # t = p @ r \<and> map lower p = e # es" by (intro exI[of _ "c # p"]) simp
  next
    assume "\<exists>p. c # t = p @ r \<and> map lower p = e # es"
    then show "match_lower (e # es) (c # t) = Some r" using 3 by (auto simp: map_eq_Cons_conv)
  qed
qed auto

definition hex_char :: "byte \<Rightarrow> bool" where
  "hex_char e \<longleftrightarrow> (0x30 \<le> e \<and> e \<le> 0x39) \<or> (0x61 \<le> e \<and> e \<le> 0x66)"

lemma match_confirmation_iff:
  "match_confirmation es t = Some r \<longleftrightarrow> list_all hex_char es \<and> t = map ucast es @ r"
  by (induction es t rule: match_confirmation.induct) (auto simp: hex_char_def)

lemma skip_spaces_append: "skip_spaces (replicate n 0x20 @ t) = skip_spaces t"
  by (induction n) (simp_all add: skip_spaces_def)

lemma skip_spaces_id: "t = [] \<or> hd t \<noteq> 0x20 \<Longrightarrow> skip_spaces t = t"
  by (cases t) (simp_all add: skip_spaces_def)

lemma skip_spaces_split: "\<exists>n. t = replicate n 0x20 @ skip_spaces t"
proof (induction t)
  case (Cons c t)
  show ?case
  proof (cases "c = 0x20")
    case True
    then obtain n where "t = replicate n 0x20 @ skip_spaces t" using Cons by blast
    then have "c # t = replicate (Suc n) 0x20 @ skip_spaces (c # t)" using True by (simp add: skip_spaces_def)
    then show ?thesis by blast
  next
    case False
    then have "c # t = replicate 0 0x20 @ skip_spaces (c # t)" by (simp add: skip_spaces_def)
    then show ?thesis by blast
  qed
qed (simp add: skip_spaces_def)

lemma skip_spaces_Nil: "skip_spaces t = [] \<longleftrightarrow> (\<exists>n. t = replicate n 0x20)"
proof
  assume "skip_spaces t = []"
  then show "\<exists>n. t = replicate n 0x20" using skip_spaces_split[of t] by simp
next
  assume "\<exists>n. t = replicate n 0x20"
  then show "skip_spaces t = []" using skip_spaces_append[of _ "[]"] by (auto simp: skip_spaces_def)
qed

lemma hex_lower_chars: "list_all (\<lambda>n. hex_char (hex_lower ! n)) [0..<16]"
  by code_simp

lemma hex_lower_char: "n < 16 \<Longrightarrow> hex_char (hex_lower ! n)"
  using below_exhaust[of "\<lambda>n. hex_char (hex_lower ! n)" 16 n, OF hex_lower_chars] .

lemma hex_run_chars: "list_all hex_char (hex_run r)"
proof -
  have n: "unat (drop_bit 4 b) < 16" "unat (and b 15) < 16" for b :: byte
  proof -
    have "unat b < 256" using unsigned_less[of b] by simp
    then show "unat (drop_bit 4 b) < 16" "unat (and b 15) < 16"
      by (simp_all add: unat_drop_bit_word unat_and_15 less_mult_imp_div_less)
  qed
  show ?thesis by (induction r) (simp_all add: hex_run_def hex_lower_char n)
qed

lemma length_hex_run: "length (hex_run r) = 2 * length r"
  by (induction r) (simp_all add: hex_run_def)

definition printable_unit :: "unit16 \<Rightarrow> bool" where
  "printable_unit c \<longleftrightarrow> 0x20 \<le> c \<and> c \<le> 0x7E"

lemma printable_lower: "printable_unit (lower c) \<Longrightarrow> printable_unit c"
  by (auto simp: printable_unit_def lower_def word_le_nat_alt split: if_splits)

lemma printable_words: "list_all printable_unit (wide_of ''rs2leech'')" "list_all printable_unit (wide_of ''recover'')"
  by code_simp+

lemma printable_spelling: "map lower p = w \<Longrightarrow> list_all printable_unit w \<Longrightarrow> list_all printable_unit p"
  using printable_lower by (auto simp: list_all_iff)

lemma printable_hex: "hex_char e \<Longrightarrow> printable_unit (ucast e)"
  using wide_bounds[of e] by (auto simp: hex_char_def printable_unit_def printable_def word_le_nat_alt)

text \<open>\<open>recover_form\<close>: the two words in any case, the identifier exactly, spaces around them.\<close>

definition recover_form :: "byte list \<Rightarrow> unit16 list \<Rightarrow> bool" where
  "recover_form identifier t \<longleftrightarrow>
     (\<exists>a p b w c d. t = replicate a 0x20 @ p @ replicate (Suc b) 0x20 @ w @ replicate (Suc c) 0x20 @
        map ucast identifier @ replicate d 0x20 \<and>
      map lower p = wide_of ''rs2leech'' \<and> map lower w = wide_of ''recover'')"

lemma word_start: "map lower p = e # es \<Longrightarrow> lower 0x20 \<noteq> e \<Longrightarrow> skip_spaces (p @ t) = p @ t"
  by (rule skip_spaces_id) (cases p; auto)

lemma spelled:
  assumes "map lower p = wide_of (x # xs)" and "lower 0x20 \<noteq> ucast (of_char x :: byte)"
  shows "skip_spaces (replicate n 0x20 @ p @ t) = p @ t"
  using word_start[of p _ _ t] assms by (simp add: skip_spaces_append wide_of_def bytes_of_def)

lemma not_status:
  assumes "map lower w = wide_of ''recover''"
  shows "match_lower (wide_of ''status'') (w @ t) = None"
proof -
  have "match_lower (wide_of ''status'') (w @ t) \<noteq> Some r" for r
  proof
    assume "match_lower (wide_of ''status'') (w @ t) = Some r"
    then obtain p where p: "w @ t = p @ r" "map lower p = wide_of ''status''" using match_lower_iff by blast
    then have "hd (map lower w) = hd (map lower p)" using assms by (cases w; cases p) (auto simp: wide_of_def bytes_of_def)
    then show False using assms p(2) by (simp add: wide_of_def bytes_of_def)
  qed
  then show ?thesis by (cases "match_lower (wide_of ''status'') (w @ t)") auto
qed

lemma recover_accepted:
  assumes "recover_form (hex_run r) t" and "length t \<le> kConsoleCommandCharacters" and "length r = 8"
  shows "ParseConsoleCommand (Some t) (hex_run r @ [0]) = Cmd_Recover"
proof -
  obtain a p b w c d where t: "t = replicate a 0x20 @ p @ replicate (Suc b) 0x20 @ w @ replicate (Suc c) 0x20 @
        map ucast (hex_run r) @ replicate d 0x20"
    and p: "map lower p = wide_of ''rs2leech''" and w: "map lower w = wide_of ''recover''"
    using assms(1) unfolding recover_form_def by blast
  define v where "v = replicate (Suc c) 0x20 @ map ucast (hex_run r) @ replicate d (0x20 :: unit16)"
  define u where "u = replicate (Suc b) 0x20 @ w @ v"
  have t': "t = replicate a 0x20 @ p @ u" by (simp add: t u_def v_def)
  have s: "lower 0x20 = 0x20" by (simp add: lower_def)
  have sp: "skip_spaces t = p @ u" unfolding t' by (rule spelled[OF p]) (simp add: s)
  have su: "skip_spaces u = w @ v" unfolding u_def by (rule spelled[OF w]) (simp add: s)
  have m1: "match_lower (wide_of ''rs2leech'') (p @ u) = Some u" using p match_lower_iff by blast
  have m2: "match_lower (wide_of ''recover'') (w @ v) = Some v" using w match_lower_iff by blast
  have hc: "list_all hex_char (hex_run r)" by (rule hex_run_chars)
  have h: "hex_run r \<noteq> []" using assms(3) length_hex_run[of r] by auto
  have "hd (hex_run r) \<noteq> 0x20" using hc h by (cases "hex_run r") (auto simp: hex_char_def)
  then have sv: "skip_spaces v = map ucast (hex_run r) @ replicate d 0x20"
    unfolding v_def skip_spaces_append using h wide_eq_iff[of "hd (hex_run r)" "0x20"]
    by (intro skip_spaces_id) (cases "hex_run r"; auto)
  have "list_all printable_unit t"
    using printable_spelling[OF p printable_words(1)] printable_spelling[OF w printable_words(2)] hc printable_hex
    by (auto simp: t list_all_iff printable_unit_def)
  then have pr: "\<not> list_ex (\<lambda>c. c < 0x20 \<or> c > 0x7E) t"
    by (auto simp: list_ex_iff list_all_iff printable_unit_def)
  have ne: "t \<noteq> []" using p by (auto simp: t' wide_of_def bytes_of_def)
  have mc: "match_confirmation (hex_run r) (map ucast (hex_run r) @ replicate d 0x20) = Some (replicate d 0x20)"
    using hc match_confirmation_iff by blast
  have L: "length (hex_run r) = 16" using assms(3) by (simp add: length_hex_run)
  have hu: "u \<noteq> []" "hd u = 0x20" "v \<noteq> []" "hd v = 0x20" by (simp_all add: u_def v_def)
  have rd: "skip_spaces (replicate d 0x20) = []" using skip_spaces_Nil by blast
  show ?thesis
    using assms(2) ne
    by (simp add: ParseConsoleCommand_def sp m1 hu pr console_word_def su not_status[OF w] m2 sv mc L rd nth_append
        kConsoleConfirmationCharacters_def)
qed

lemma recover_only:
  assumes "ParseConsoleCommand (Some t) (hex_run r @ [0]) = Cmd_Recover" and "length r = 8"
  shows "recover_form (hex_run r) t \<and> length t \<le> kConsoleCommandCharacters"
proof -
  have L: "length (hex_run r) = 16" using assms(2) by (simp add: length_hex_run)
  obtain u where u: "match_lower (wide_of ''rs2leech'') (skip_spaces t) = Some u"
    and n: "length t \<le> kConsoleCommandCharacters" and hu: "\<not> (u \<noteq> [] \<and> hd u > 0x20 \<and> hd u \<le> 0x7E)"
    and pr: "\<not> list_ex (\<lambda>c. c < 0x20 \<or> c > 0x7E) t"
    using assms(1) by (auto simp: ParseConsoleCommand_def split: option.splits if_splits)
  have "console_word (wide_of ''status'') u = None"
    using assms(1) u by (auto simp: ParseConsoleCommand_def split: option.splits if_splits)
  then obtain v where v: "console_word (wide_of ''recover'') u = Some v" and ne: "v \<noteq> []"
    and mc: "\<exists>e. match_confirmation (hex_run r) (skip_spaces v) = Some e \<and> skip_spaces e = []"
    using assms(1) u L
    by (auto simp: ParseConsoleCommand_def kConsoleConfirmationCharacters_def split: option.splits if_splits)
  obtain p where p: "skip_spaces t = p @ u" "map lower p = wide_of ''rs2leech''" using u match_lower_iff by blast
  obtain w where w: "skip_spaces u = w @ v" "map lower w = wide_of ''recover''"
    using v match_lower_iff by (auto simp: console_word_def split: option.splits if_splits)
  have hv: "hd v = 0x20" using v ne by (auto simp: console_word_def split: option.splits if_splits)
  obtain d where d: "skip_spaces v = map ucast (hex_run r) @ replicate d 0x20"
    using mc match_confirmation_iff skip_spaces_Nil by metis
  obtain a where a: "t = replicate a 0x20 @ p @ u" using skip_spaces_split[of t] p by auto
  obtain b where b: "u = replicate b 0x20 @ w @ v" using skip_spaces_split[of u] w by auto
  obtain c where c: "v = replicate c 0x20 @ map ucast (hex_run r) @ replicate d 0x20"
    using skip_spaces_split[of v] d by auto
  have c0: "c \<noteq> 0"
  proof
    assume "c = 0"
    then have "skip_spaces v = v" using c d by simp
    moreover obtain l where l: "v = 0x20 # l" using hv ne by (cases v) auto
    ultimately have "length (skip_spaces l) = Suc (length l)" by (simp add: skip_spaces_def)
    then show False using length_dropWhile_le[of "\<lambda>c. c = 0x20" l] by (simp add: skip_spaces_def)
  qed
  have un: "u \<noteq> []" using b w(2) by (auto simp: wide_of_def bytes_of_def)
  then have "hd u \<in> set t" using a by simp
  then have "hd u = 0x20" using pr hu un by (auto simp: list_ex_iff not_less)
  moreover have "hd (w @ v) \<noteq> 0x20"
    using w(2) by (cases w) (auto simp: wide_of_def bytes_of_def lower_def split: if_splits)
  ultimately have b0: "b \<noteq> 0" using b by (cases b) auto
  from b0 c0 obtain b' c' where "b = Suc b'" "c = Suc c'" using not0_implies_Suc by metis
  then have "t = replicate a 0x20 @ p @ replicate (Suc b') 0x20 @ w @ replicate (Suc c') 0x20 @
      map ucast (hex_run r) @ replicate d 0x20" using a b c by simp
  then show ?thesis using p(2) w(2) n unfolding recover_form_def by blast
qed

text \<open>
  C17: The console command that recovers a run is exactly: \<open>rs2leech\<close> and \<open>recover\<close> in letters
  of any case, then the first 16 hexadecimal digits of that run in lower case, with spaces
  between them and optionally around, in at most 96 characters.
\<close>

theorem console_recover_exact:
  assumes "8 \<le> length runId"
  shows "ParseConsoleCommand (Some t) (ConsoleConfirmation runId) = Cmd_Recover \<longleftrightarrow>
    recover_form (hex_run (take 8 runId)) t \<and> length t \<le> kConsoleCommandCharacters"
proof -
  have "ConsoleConfirmation runId = hex_run (take 8 runId) @ [0]"
    by (simp add: ConsoleConfirmation_def kConsoleConfirmationCharacters_def)
  moreover have "length (take 8 runId) = 8" using assms by simp
  ultimately show ?thesis using recover_accepted[of "take 8 runId" t] recover_only[of t "take 8 runId"] by metis
qed

definition sample_run_id :: "byte list" where "sample_run_id = map word_of_nat [1..<17]"

lemma console_recover_exact_witness:
  "recover_form (hex_run (take 8 sample_run_id)) (wide_of ''RS2Leech recover  0102030405060708 '')"
proof -
  have "8 \<le> length sample_run_id" by (simp add: sample_run_id_def)
  moreover have "ParseConsoleCommand (Some (wide_of ''RS2Leech recover  0102030405060708 ''))
      (ConsoleConfirmation sample_run_id) = Cmd_Recover" by code_simp
  ultimately show ?thesis using console_recover_exact by blast
qed

section \<open>A request is bound to its run\<close>

definition agree :: "ControlScope \<Rightarrow> ControlRequest \<Rightarrow> ControlScope \<Rightarrow> ControlRequest \<Rightarrow> nat \<Rightarrow> bool" where
  "agree e1 i1 e2 i2 f \<longleftrightarrow> (f = 1 \<longrightarrow> sc_schema e1 = sc_schema e2) \<and> (f = 4 \<longrightarrow> cq_pid i1 = cq_pid i2) \<and>
     (f = 8 \<longrightarrow> cq_runId i1 = cq_runId i2)"

lemma number_is_same: "number_is m bs = Some r1 \<Longrightarrow> number_is n bs = Some r2 \<Longrightarrow> m = n \<and> r1 = r2"
  by (auto simp: number_is_def split: option.splits if_splits)

lemma string_is_same:
  "string_is P bs = Some r1 \<Longrightarrow> string_is Q bs = Some r2 \<Longrightarrow> r1 = r2 \<and> (\<exists>v. P v \<and> Q v)"
  by (auto simp: string_is_def split: option.splits if_splits)

lemma request_field_same:
  assumes "request_field sp e1 i1 key bs = (f1, Some r1)" and "request_field sp e2 i2 key bs = (f2, Some r2)"
  shows "f1 = f2 \<and> r1 = r2 \<and> agree e1 i1 e2 i2 f1"
proof -
  consider (s) "key = bytes_of ''schema''" | (a) "key \<noteq> bytes_of ''schema''" "key = bytes_of ''action''"
    | (p) "key \<noteq> bytes_of ''schema''" "key \<noteq> bytes_of ''action''" "key = bytes_of ''pid''"
    | (r) "key \<noteq> bytes_of ''schema''" "key \<noteq> bytes_of ''action''" "key \<noteq> bytes_of ''pid''" "key = bytes_of ''run_id''"
    | (o) "key \<noteq> bytes_of ''schema''" "key \<noteq> bytes_of ''action''" "key \<noteq> bytes_of ''pid''" "key \<noteq> bytes_of ''run_id''"
    by blast
  then show ?thesis
  proof cases
    case s
    then show ?thesis using assms number_is_same by (auto simp: request_field_def agree_def)
  next
    case a
    then show ?thesis using assms string_is_same by (fastforce simp: request_field_def agree_def)
  next
    case p
    then show ?thesis using assms number_is_same by (auto simp: request_field_def agree_def)
  next
    case r
    then have e: "f1 = 8" "f2 = 8" and q: "string_is (\<lambda>v. length v = 32 \<and> v = hex_run (cq_runId i1)) bs = Some r1"
      "string_is (\<lambda>v. length v = 32 \<and> v = hex_run (cq_runId i2)) bs = Some r2"
      using assms by (simp_all add: request_field_def)
    have "r1 = r2" "hex_run (cq_runId i1) = hex_run (cq_runId i2)" using string_is_same[OF q] by auto
    then show ?thesis using e hex_run_inj by (simp add: agree_def)
  next
    case o
    then have f: "f1 = 16" "f2 = 16" and q: "string_is (root_is sp e1) bs = Some r1" "string_is (root_is sp e2) bs = Some r2"
      using assms by (simp_all add: request_field_def split: if_splits)
    show ?thesis using f string_is_same[OF q] by (simp add: agree_def)
  qed
qed

lemma request_turn_same:
  assumes "request_turn sp e1 i1 F bs = Some (F1, r1)" and "request_turn sp e2 i2 F bs = Some (F2, r2)"
  shows "F1 = F2 \<and> r1 = r2 \<and> (\<exists>f. F1 = insert f F \<and> agree e1 i1 e2 i2 f)"
proof -
  obtain key b1 b2 where k: "json_string 32 bs = Some (key, b1)" "json_take 0x3A b1 = Some b2"
    using assms(1) by (auto simp: request_turn_def split: option.splits)
  obtain f1 c1 f2 c2 where f: "request_field sp e1 i1 key b2 = (f1, Some c1)" "request_field sp e2 i2 key b2 = (f2, Some c2)"
    and F: "F1 = insert f1 F" "F2 = insert f2 F" "r1 = json_space c1" "r2 = json_space c2"
    using assms by (auto simp: request_turn_def k split: option.splits prod.splits if_splits)
  show ?thesis using request_field_same[OF f] F by blast
qed

lemma request_loop_same:
  assumes "request_loop sp e1 i1 F bs = Some (F1, r1)" and "request_loop sp e2 i2 F bs = Some (F2, r2)"
    and "\<forall>f\<in>F. agree e1 i1 e2 i2 f"
  shows "F1 = F2 \<and> (\<forall>f\<in>F1. agree e1 i1 e2 i2 f)"
  using assms
proof (induction "length bs" arbitrary: F bs rule: less_induct)
  case less
  obtain G a where 1: "request_turn sp e1 i1 F bs = Some (G, a)"
    using less.prems(1) by (subst (asm) request_loop.simps) (auto split: option.splits)
  obtain H b where 2: "request_turn sp e2 i2 F bs = Some (H, b)"
    using less.prems(2) by (subst (asm) request_loop.simps) (auto split: option.splits)
  note s = request_turn_same[OF 1 2]
  have G: "\<forall>f\<in>G. agree e1 i1 e2 i2 f" using s less.prems(3) by blast
  show ?case
  proof (cases "a \<noteq> [] \<and> hd a = 0x7D")
    case True
    then show ?thesis using less.prems(1,2) 1 2 s G by (auto simp: request_loop.simps[of _ _ _ F bs])
  next
    case False
    then obtain c where c: "json_take 0x2C a = Some c"
      using less.prems(1) 1 by (auto simp: request_loop.simps[of _ _ _ F bs] split: option.splits)
    have "request_loop sp e1 i1 G c = Some (F1, r1)" "request_loop sp e2 i2 G c = Some (F2, r2)"
      using less.prems(1,2) 1 2 s c False by (auto simp: request_loop.simps[of _ _ _ F bs] split: if_splits)
    moreover have "length c < length bs" using request_turn_length[OF 1] json_take_length[OF c] by simp
    ultimately show ?thesis using less.hyps G by blast
  qed
qed

lemma request_accepted:
  assumes "ParseControlRequest sp (Some bs) i given scope = (CR_Ready, out)"
  shows "\<exists>b r. json_take 0x7B bs = Some b \<and>
    request_loop sp (case scope of None \<Rightarrow> kTrainingControlScope | Some s \<Rightarrow> s) i {} b = Some ({1, 2, 4, 8, 16}, r) \<and>
    out = i \<and> ValidIdentity i"
  using assms by (auto simp: ParseControlRequest_def Let_def split: option.splits if_splits)

text \<open>
  C16: A request authorises one run.  When one text is accepted by two armed processes, whatever
  scopes they have, they are the same process and the same run, of the same schema; and what an
  accepted request returns is the armed identity, never a value of the text.
\<close>

theorem request_bound_to_run:
  assumes "ParseControlRequest same_path (Some bs) i1 given1 (Some s1) = (CR_Ready, out1)"
    and "ParseControlRequest same_path (Some bs) i2 given2 (Some s2) = (CR_Ready, out2)"
  shows "out1 = i1 \<and> out2 = i2 \<and> cq_pid i1 = cq_pid i2 \<and> cq_runId i1 = cq_runId i2 \<and> sc_schema s1 = sc_schema s2"
proof -
  obtain b r1 where 1: "json_take 0x7B bs = Some b" "request_loop same_path s1 i1 {} b = Some ({1, 2, 4, 8, 16}, r1)" "out1 = i1"
    using request_accepted[OF assms(1)] by auto
  obtain r2 where 2: "request_loop same_path s2 i2 {} b = Some ({1, 2, 4, 8, 16}, r2)" "out2 = i2"
    using request_accepted[OF assms(2)] 1(1) by auto
  have "\<forall>f\<in>{1, 2, 4, 8, 16}. agree s1 i1 s2 i2 f" using request_loop_same[OF 1(2) 2(1)] by blast
  then show ?thesis using 1(3) 2(2) by (auto simp: agree_def)
qed

definition sample_scope :: ControlScope where
  "sample_scope = \<lparr>sc_schema = 2, sc_serverRoot = wide_of (''D:'' @ [CHR 0x5C] @ ''srv'')\<rparr>"

definition sample_identity :: ControlRequest where
  "sample_identity = \<lparr>cq_pid = 4242, cq_runId = sample_run_id\<rparr>"

definition sample_request :: "byte list" where
  "sample_request = bytes_of (concat [
     [CHR ''{'', CHR 0x22], ''schema'', [CHR 0x22], '': 2,'', [CHR 0x22], ''pid'', [CHR 0x22], '':4242,'',
     [CHR 0x22], ''action'', [CHR 0x22, CHR '':'', CHR 0x22], ''finish-recreate'', [CHR 0x22, CHR '','', CHR 0x22],
     ''run_id'', [CHR 0x22, CHR '':'', CHR 0x22], ''0102030405060708090a0b0c0d0e0f10'', [CHR 0x22, CHR '','', CHR 0x22],
     ''server_root'', [CHR 0x22, CHR '':'', CHR 0x22], ''D:'', [CHR 0x5C, CHR 0x5C], ''srv'', [CHR 0x22, CHR ''}'']])"

section \<open>What the permission file permits\<close>

fun control_entries :: "SidOps \<Rightarrow> ConfigParse \<Rightarrow> entry list \<Rightarrow> ConfigParse option" where
  "control_entries sids p [] = Some p"
| "control_entries sids p ((k, v) # es) =
     (case control_entry sids p k v of None \<Rightarrow> None | Some p \<Rightarrow> control_entries sids p es)"

lemma control_entries_append:
  "control_entries sids p (es @ fs) =
   (case control_entries sids p es of None \<Rightarrow> None | Some p \<Rightarrow> control_entries sids p fs)"
  by (induction sids p es rule: control_entries.induct) (auto split: option.splits)

lemma control_line_entries:
  "control_line sids p line = (case line_entries line of None \<Rightarrow> None | Some es \<Rightarrow> control_entries sids p es)"
  by (auto simp: control_line_def line_entries_def Let_def split: option.splits)

lemma control_lines_entries:
  "control_lines sids p bs = Some q \<Longrightarrow> \<exists>es. config_entries bs = Some es \<and> control_entries sids p es = Some q"
proof (induction sids p bs rule: control_lines.induct)
  case (1 sids p bs)
  show ?case
  proof (cases bs)
    case Nil
    then show ?thesis using 1(2) by (simp add: control_lines.simps config_entries.simps)
  next
    case (Cons b bs')
    then obtain line rest p1 where t: "take_line bs = Some (line, rest)" "control_line sids p line = Some p1"
      "control_lines sids p1 rest = Some q"
      using 1(2) by (subst (asm) control_lines.simps) (auto split: option.splits)
    obtain es where es: "line_entries line = Some es" "control_entries sids p es = Some p1"
      using t(2) by (auto simp: control_line_entries split: option.splits)
    obtain fs where fs: "config_entries rest = Some fs" "control_entries sids p1 fs = Some q"
      using 1(1)[OF Cons t(1) refl t(2) t(3)] by blast
    have "config_entries bs = Some (es @ fs)"
      using Cons t(1) es(1) fs(1) by (subst config_entries.simps) simp
    then show ?thesis using es(2) fs(2) by (auto simp: control_entries_append)
  qed
qed

abbreviation training_permission :: "byte list" where
  "training_permission \<equiv> bytes_of ''training-finish-recreate''"

abbreviation pilot_permission :: "byte list" where
  "pilot_permission \<equiv> bytes_of ''manual-pilot-finish-recreate''"

text \<open>Every field that was set has the entry it was set from.\<close>

definition schema_from :: "ConfigParse \<Rightarrow> entry set \<Rightarrow> bool" where
  "schema_from p E \<longleftrightarrow> (let s = sc_schema (cc_scope (cp_config p)) in
     if 1 \<in> cp_fields p then (s = 1 \<and> (bytes_of ''schema'', bytes_of ''1'') \<in> E) \<or>
       (s = 2 \<and> (bytes_of ''schema'', bytes_of ''2'') \<in> E) else s = 0)"

definition permission_from :: "ConfigParse \<Rightarrow> entry set \<Rightarrow> bool" where
  "permission_from p E \<longleftrightarrow> cc_enabled (cp_config p) = (cp_permission p \<noteq> 0) \<and>
     (cp_permission p \<noteq> 0 \<longrightarrow> 2 \<in> cp_fields p \<and>
       (cp_permission p = 1 \<and> (bytes_of ''permission'', training_permission) \<in> E \<or>
        cp_permission p = 2 \<and> (bytes_of ''permission'', pilot_permission) \<in> E))"

definition root_from :: "ConfigParse \<Rightarrow> entry set \<Rightarrow> bool" where
  "root_from p E \<longleftrightarrow> (let root = sc_serverRoot (cc_scope (cp_config p)) in
     (4 \<in> cp_fields p \<and> 16 \<notin> cp_fields p \<longrightarrow> (\<exists>v. (bytes_of ''training_root'', v) \<in> E \<and> root = map ucast v)) \<and>
     (16 \<in> cp_fields p \<and> 4 \<notin> cp_fields p \<longrightarrow> (\<exists>v. (bytes_of ''server_root'', v) \<in> E \<and> root = map ucast v)))"

definition sid_from :: "SidOps \<Rightarrow> ConfigParse \<Rightarrow> entry set \<Rightarrow> bool" where
  "sid_from sids p E \<longleftrightarrow> (8 \<in> cp_fields p \<and> \<not> cp_none p \<longrightarrow>
     (\<exists>v. (bytes_of ''operator_sid'', v) \<in> E \<and> ParseSid sids v = Some (cc_operatorSid (cp_config p))))"

definition console_from :: "ConfigParse \<Rightarrow> entry set \<Rightarrow> bool" where
  "console_from p E \<longleftrightarrow> (cc_consoleRequested (cp_config p) \<longrightarrow> 32 \<in> cp_fields p \<and>
     (bytes_of ''console_trigger'', bytes_of ''server-admin'') \<in> E)"

definition config_from :: "SidOps \<Rightarrow> ConfigParse \<Rightarrow> entry set \<Rightarrow> bool" where
  "config_from sids p E \<longleftrightarrow> schema_from p E \<and> permission_from p E \<and> root_from p E \<and> sid_from sids p E \<and> console_from p E"

lemmas from_defs = config_from_def schema_from_def permission_from_def root_from_def sid_from_def console_from_def

lemma AsciiRoot_Some: "AsciiRoot v = Some root \<Longrightarrow> root = map ucast v"
  by (auto simp: AsciiRoot_def Let_def split: if_splits)

lemma config_from_insert:
  assumes "config_from sids p E"
  shows "config_from sids p (insert e E)"
proof -
  have c: "schema_from p E" "permission_from p E" "root_from p E" "sid_from sids p E" "console_from p E"
    using assms by (simp_all add: config_from_def)
  have "schema_from p (insert e E)" using c(1) by (simp add: schema_from_def Let_def split: if_splits) blast
  moreover have "permission_from p (insert e E)" using c(2) by (simp add: permission_from_def) blast
  moreover have "root_from p (insert e E)" using c(3) by (simp add: root_from_def Let_def) blast
  moreover have "sid_from sids p (insert e E)" using c(4) by (simp add: sid_from_def) blast
  moreover have "console_from p (insert e E)" using c(5) by (simp add: console_from_def)
  ultimately show ?thesis by (simp add: config_from_def)
qed

lemma control_entry_from:
  assumes "control_entry sids p k v = Some q" and "config_from sids p E"
  shows "config_from sids q (insert (k, v) E)"
proof -
  obtain f r where f: "control_field sids p k v = (f, True, r)" "f \<noteq> 0" "f \<notin> cp_fields r"
    and q: "q = r\<lparr>cp_fields := insert f (cp_fields r)\<rparr>"
    using assms(1) by (auto simp: control_entry_def split: prod.splits if_splits)
  consider (schema) "k = bytes_of ''schema''" | (permission) "k \<noteq> bytes_of ''schema''" "k = bytes_of ''permission''"
    | (training) "k \<noteq> bytes_of ''schema''" "k \<noteq> bytes_of ''permission''" "k = bytes_of ''training_root''"
    | (server) "k \<noteq> bytes_of ''schema''" "k \<noteq> bytes_of ''permission''" "k \<noteq> bytes_of ''training_root''" "k = bytes_of ''server_root''"
    | (sid) "k \<noteq> bytes_of ''schema''" "k \<noteq> bytes_of ''permission''" "k \<noteq> bytes_of ''training_root''" "k \<noteq> bytes_of ''server_root''"
        "k = bytes_of ''operator_sid''"
    | (console) "k \<noteq> bytes_of ''schema''" "k \<noteq> bytes_of ''permission''" "k \<noteq> bytes_of ''training_root''" "k \<noteq> bytes_of ''server_root''"
        "k \<noteq> bytes_of ''operator_sid''" "k = bytes_of ''console_trigger''"
    | (none) "k \<noteq> bytes_of ''schema''" "k \<noteq> bytes_of ''permission''" "k \<noteq> bytes_of ''training_root''" "k \<noteq> bytes_of ''server_root''"
        "k \<noteq> bytes_of ''operator_sid''" "k \<noteq> bytes_of ''console_trigger''"
    by blast
  note kinds = this
  note m = config_from_insert[OF assms(2), of "(k, v)"]
  then have c: "schema_from p (insert (k, v) E)" "permission_from p (insert (k, v) E)" "root_from p (insert (k, v) E)"
    "sid_from sids p (insert (k, v) E)" "console_from p (insert (k, v) E)" by (simp_all add: config_from_def)
  from kinds show ?thesis
  proof cases
    case schema
    then obtain n where r: "f = 1" "r = set_schema n p" and v: "n = 1 \<and> v = bytes_of ''1'' \<or> n = 2 \<and> v = bytes_of ''2''"
      using f assms(2) by (auto simp: control_field_def Let_def config_from_def schema_from_def set_schema_def split: if_splits)
    have "schema_from q (insert (k, v) E)" using c(1) q r v schema by (auto simp: schema_from_def Let_def set_schema_def)
    moreover have "permission_from q (insert (k, v) E)" using c(2) q r by (auto simp: permission_from_def Let_def set_schema_def)
    moreover have "root_from q (insert (k, v) E)" using c(3) q r by (auto simp: root_from_def Let_def set_schema_def)
    moreover have "sid_from sids q (insert (k, v) E)" using c(4) q r by (auto simp: sid_from_def Let_def set_schema_def)
    moreover have "console_from q (insert (k, v) E)" using c(5) q r by (auto simp: console_from_def Let_def set_schema_def)
    ultimately show ?thesis by (simp add: config_from_def)
  next
    case permission
    then have "f = 2" "r = p\<lparr>cp_permission := cp_permission r, cp_config := (cp_config p)\<lparr>cc_enabled := cp_permission r \<noteq> 0\<rparr>\<rparr>"
      and "cp_permission r = 1 \<and> v = training_permission \<or> cp_permission r = 2 \<and> v = pilot_permission \<or>
        cp_permission r = 0"
      using f assms(2) by (auto simp: control_field_def Let_def config_from_def permission_from_def split: if_splits)
    then obtain n where r: "f = 2" "r = p\<lparr>cp_permission := n, cp_config := (cp_config p)\<lparr>cc_enabled := n \<noteq> 0\<rparr>\<rparr>"
      and v: "n = 1 \<and> v = training_permission \<or> n = 2 \<and> v = pilot_permission \<or> n = 0" by blast
    have "schema_from q (insert (k, v) E)" using c(1) q r by (auto simp: schema_from_def Let_def )
    moreover have "permission_from q (insert (k, v) E)" using c(2) q r v permission by (auto simp: permission_from_def Let_def )
    moreover have "root_from q (insert (k, v) E)" using c(3) q r by (auto simp: root_from_def Let_def )
    moreover have "sid_from sids q (insert (k, v) E)" using c(4) q r by (auto simp: sid_from_def Let_def )
    moreover have "console_from q (insert (k, v) E)" using c(5) q r by (auto simp: console_from_def Let_def )
    ultimately show ?thesis by (simp add: config_from_def)
  next
    case training
    then obtain root where r: "f = 4" "r = set_root root p" and v: "root = map ucast v"
      using f AsciiRoot_Some by (auto simp: control_field_def split: if_splits option.splits)
    have "schema_from q (insert (k, v) E)" using c(1) q r f(3) by (auto simp: schema_from_def Let_def set_root_def)
    moreover have "permission_from q (insert (k, v) E)" using c(2) q r f(3) by (auto simp: permission_from_def Let_def set_root_def)
    moreover have "root_from q (insert (k, v) E)" using c(3) q r f(3) v training by (auto simp: root_from_def Let_def set_root_def)
    moreover have "sid_from sids q (insert (k, v) E)" using c(4) q r f(3) by (auto simp: sid_from_def Let_def set_root_def)
    moreover have "console_from q (insert (k, v) E)" using c(5) q r f(3) by (auto simp: console_from_def Let_def set_root_def)
    ultimately show ?thesis by (simp add: config_from_def)
  next
    case server
    then obtain root where r: "f = 16" "r = set_root root p" and v: "root = map ucast v"
      using f AsciiRoot_Some by (auto simp: control_field_def split: if_splits option.splits)
    have "schema_from q (insert (k, v) E)" using c(1) q r f(3) by (auto simp: schema_from_def Let_def set_root_def)
    moreover have "permission_from q (insert (k, v) E)" using c(2) q r f(3) by (auto simp: permission_from_def Let_def set_root_def)
    moreover have "root_from q (insert (k, v) E)" using c(3) q r f(3) v server by (auto simp: root_from_def Let_def set_root_def)
    moreover have "sid_from sids q (insert (k, v) E)" using c(4) q r f(3) by (auto simp: sid_from_def Let_def set_root_def)
    moreover have "console_from q (insert (k, v) E)" using c(5) q r f(3) by (auto simp: console_from_def Let_def set_root_def)
    ultimately show ?thesis by (simp add: config_from_def)
  next
    case sid
    then have "f = 8" "r = p\<lparr>cp_none := True\<rparr> \<or>
        (\<exists>s. ParseSid sids v = Some s \<and> r = p\<lparr>cp_none := False, cp_config := (cp_config p)\<lparr>cc_operatorSid := s\<rparr>\<rparr>)"
      using f by (auto simp: control_field_def Let_def split: if_splits option.splits)
    moreover have "p\<lparr>cp_none := True\<rparr> = p\<lparr>cp_none := True, cp_config := (cp_config p)\<lparr>cc_operatorSid := cc_operatorSid (cp_config p)\<rparr>\<rparr>"
      by simp
    ultimately obtain nn s where r: "f = 8" "r = p\<lparr>cp_none := nn, cp_config := (cp_config p)\<lparr>cc_operatorSid := s\<rparr>\<rparr>"
      and v: "nn \<or> ParseSid sids v = Some s" by metis
    have "schema_from q (insert (k, v) E)" using c(1) q r by (auto simp: schema_from_def Let_def )
    moreover have "permission_from q (insert (k, v) E)" using c(2) q r by (auto simp: permission_from_def Let_def )
    moreover have "root_from q (insert (k, v) E)" using c(3) q r by (auto simp: root_from_def Let_def )
    moreover have "sid_from sids q (insert (k, v) E)" using c(4) q r v sid by (auto simp: sid_from_def Let_def )
    moreover have "console_from q (insert (k, v) E)" using c(5) q r by (auto simp: console_from_def Let_def )
    ultimately show ?thesis by (simp add: config_from_def)
  next
    case console
    then have r: "f = 32" "r = p\<lparr>cp_config := (cp_config p)\<lparr>cc_consoleRequested := (v = bytes_of ''server-admin'')\<rparr>\<rparr>"
      using f by (auto simp: control_field_def Let_def split: if_splits)
    have "schema_from q (insert (k, v) E)" using c(1) q r by (auto simp: schema_from_def Let_def )
    moreover have "permission_from q (insert (k, v) E)" using c(2) q r by (auto simp: permission_from_def Let_def )
    moreover have "root_from q (insert (k, v) E)" using c(3) q r by (auto simp: root_from_def Let_def )
    moreover have "sid_from sids q (insert (k, v) E)" using c(4) q r by (auto simp: sid_from_def Let_def )
    moreover have "console_from q (insert (k, v) E)" using c(5) q r console by (auto simp: console_from_def Let_def )
    ultimately show ?thesis by (simp add: config_from_def)
  next
    case none
    then show ?thesis using f by (simp add: control_field_def)
  qed
qed

lemma control_entries_from:
  "control_entries sids p es = Some q \<Longrightarrow> config_from sids p E \<Longrightarrow> config_from sids q (E \<union> set es)"
proof (induction sids p es arbitrary: E rule: control_entries.induct)
  case (2 sids p k v es)
  then obtain r where r: "control_entry sids p k v = Some r" "control_entries sids r es = Some q"
    by (auto split: option.splits)
  have "config_from sids q (insert (k, v) E \<union> set es)"
    using 2(1)[OF r(1)] r(2) control_entry_from[OF r(1) 2(3)] by blast
  then show ?case by simp
qed simp

text \<open>
  C18: A recovery is never enabled by accident.  When the permission file enables it, the file
  itself says so: a schema, the permission that belongs to that schema, a root that is a valid
  pilot root (the fixed training root in schema 1), the identifier of one operator who is none
  of the well-known groups, and, where the console may trigger it, that as well, in schema 2.
\<close>

theorem control_ready_is_explicit:
  assumes "ParseControlConfig sids bytes given = (CR_Ready, c)"
  shows "\<exists>bs es root sid. bytes = Some bs \<and> length bs \<le> kControlFileBytes \<and> config_entries bs = Some es \<and>
    ValidScope (cc_scope c) \<and> sc_serverRoot (cc_scope c) = map ucast root \<and>
    (if sc_schema (cc_scope c) = 1
     then {(bytes_of ''schema'', bytes_of ''1''), (bytes_of ''permission'', training_permission),
       (bytes_of ''training_root'', root), (bytes_of ''operator_sid'', sid)} \<subseteq> set es \<and> \<not> cc_consoleRequested c
     else {(bytes_of ''schema'', bytes_of ''2''), (bytes_of ''permission'', pilot_permission),
       (bytes_of ''server_root'', root), (bytes_of ''operator_sid'', sid)} \<subseteq> set es) \<and>
    ParseSid sids sid = Some (cc_operatorSid c) \<and>
    (\<not> cc_consoleRequested c \<or> (bytes_of ''console_trigger'', bytes_of ''server-admin'') \<in> set es)"
proof -
  obtain bs p where bs: "bytes = Some bs" "length bs \<le> kControlFileBytes"
    and p: "control_lines sids ConfigParse_init bs = Some p" "\<not> config_refused p" "cc_enabled (cp_config p)" "c = cp_config p"
    using assms by (auto simp: ParseControlConfig_def split: option.splits if_splits)
  obtain es where es: "config_entries bs = Some es" "control_entries sids ConfigParse_init es = Some p"
    using control_lines_entries[OF p(1)] by blast
  have "config_from sids ConfigParse_init {}"
    by (simp add: from_defs ConfigParse_init_def ControlConfig_zero_def)
  then have "config_from sids p ({} \<union> set es)" by (rule control_entries_from[OF es(2)])
  then have from_es: "schema_from p (set es)" "permission_from p (set es)" "root_from p (set es)"
      "sid_from sids p (set es)" "console_from p (set es)"
    by (simp_all add: config_from_def)
  have scope: "ValidScope (cc_scope c)" using p by (simp add: config_refused_def)
  let ?s = "sc_schema (cc_scope c)"
  have s: "?s = 1 \<or> ?s = 2" using scope by (auto simp: ValidScope_def)
  have F: "cp_fields p - {32} = (if ?s = 1 then {1, 2, 4, 8} else {1, 2, 8, 16})"
    and con: "32 \<in> cp_fields p \<longrightarrow> ?s = 2" and per: "\<not> cp_none p" "cp_permission p = ?s"
    using p by (auto simp: config_refused_def)
  have in_F: "n \<noteq> 32 \<Longrightarrow> n \<in> cp_fields p \<longleftrightarrow> n \<in> (if ?s = 1 then {1, 2, 4, 8} else {1, 2, 8, 16})" for n
    using F by blast
  obtain sid where sid: "(bytes_of ''operator_sid'', sid) \<in> set es" "ParseSid sids sid = Some (cc_operatorSid c)"
    using from_es(4) in_F[of 8] per(1) p(4) by (auto simp: sid_from_def split: if_splits)
  obtain root where root: "(bytes_of (if ?s = 1 then ''training_root'' else ''server_root''), root) \<in> set es"
    "sc_serverRoot (cc_scope c) = map ucast root"
    using from_es(3) in_F[of 4] in_F[of 16] s p(4) by (auto simp: root_from_def Let_def split: if_splits)
  have schema: "(bytes_of ''schema'', bytes_of (if ?s = 1 then ''1'' else ''2'')) \<in> set es"
  proof -
    have "1 \<in> cp_fields p" using in_F[of 1] by simp
    then have "(?s = 1 \<and> (bytes_of ''schema'', bytes_of ''1'') \<in> set es) \<or>
        (?s = 2 \<and> (bytes_of ''schema'', bytes_of ''2'') \<in> set es)"
      using from_es(1) unfolding schema_from_def Let_def p(4) by presburger
    then show ?thesis by (elim disjE conjE) simp_all
  qed
  have permission: "(bytes_of ''permission'', if ?s = 1 then training_permission else pilot_permission) \<in> set es"
    using from_es(2) s per(2) by (auto simp: permission_from_def)
  have console: "cc_consoleRequested c \<Longrightarrow> ?s \<noteq> 1 \<and> (bytes_of ''console_trigger'', bytes_of ''server-admin'') \<in> set es"
    using from_es(5) con p(4) by (auto simp: console_from_def)
  have "if ?s = 1
     then {(bytes_of ''schema'', bytes_of ''1''), (bytes_of ''permission'', training_permission),
       (bytes_of ''training_root'', root), (bytes_of ''operator_sid'', sid)} \<subseteq> set es \<and> \<not> cc_consoleRequested c
     else {(bytes_of ''schema'', bytes_of ''2''), (bytes_of ''permission'', pilot_permission),
       (bytes_of ''server_root'', root), (bytes_of ''operator_sid'', sid)} \<subseteq> set es"
    using schema permission root(1) sid(1) console by (cases "?s = 1") auto
  then show ?thesis using bs es(1) scope root(2) sid(2) console by blast
qed

definition sample_sids :: SidOps where
  "sample_sids = \<lparr>so_parse = (\<lambda>t. if t = wide_of ''S-1-5-21-1'' then Some [1, 5] else None),
     so_text = (\<lambda>s. if s = [1, 5] then Some (wide_of ''S-1-5-21-1'') else None),
     so_valid = (\<lambda>s. s \<noteq> []), so_known = (\<lambda>s k. False), so_equal = (=)\<rparr>"

definition sample_permission :: "byte list" where
  "sample_permission = bytes_of (''schema=1'' @ [CHR 0x0A] @ ''permission=training-finish-recreate'' @ [CHR 0x0A] @
     ''training_root=E:'' @ [CHR 0x5C] @ ''rs2v_trainingsrv'' @ [CHR 0x0A] @ ''operator_sid=S-1-5-21-1'' @ [CHR 0x0A])"

lemma control_ready_is_explicit_witness:
  "let r = ParseControlConfig sample_sids (Some sample_permission) True in
    fst r = CR_Ready \<and> ValidScope (cc_scope (snd r)) \<and> cc_operatorSid (snd r) = [1, 5]"
proof -
  have "fst (ParseControlConfig sample_sids (Some sample_permission) True) = CR_Ready \<and>
      cc_operatorSid (snd (ParseControlConfig sample_sids (Some sample_permission) True)) = [1, 5]" by code_simp
  moreover from this obtain c where "ParseControlConfig sample_sids (Some sample_permission) True = (CR_Ready, c)"
    by (metis prod.collapse)
  moreover from control_ready_is_explicit[OF this] have "ValidScope (cc_scope c)" by blast
  ultimately show ?thesis by (simp add: Let_def)
qed

lemma sample_request_accepted:
  "ParseControlRequest (=) (Some sample_request) sample_identity True (Some sample_scope) = (CR_Ready, sample_identity)"
proof -
  have v: "ValidIdentity sample_identity" "ValidScope sample_scope" by code_simp+
  have h: "hex_run (cq_runId sample_identity) = bytes_of ''0102030405060708090a0b0c0d0e0f10''" by code_simp
  have s: "AsciiRoot (bytes_of (''D:'' @ [CHR 0x5C] @ ''srv'')) = Some (sc_serverRoot sample_scope)" by code_simp
  have p: "cq_pid sample_identity = 4242" "sc_schema sample_scope = 2" by (simp_all add: sample_identity_def sample_scope_def)
  have f: "{16, 8, 2, 4, Suc 0} = {Suc 0, 2, 4, 8, 16}" by blast
  show ?thesis
    using v h s f
    by (simp add: ParseControlRequest_def Let_def sample_request_def bytes_of_def json_take_def json_space_def p
      kControlFileBytes_def request_loop.simps request_turn_def json_string_def request_field_def number_is_def
      string_is_def json_number_def Digit_def root_is_def cong: eval_congs if_weak_cong)
qed

lemma request_bound_to_run_witness:
  "fst (ParseControlRequest (=) (Some sample_request) (sample_identity\<lparr>cq_pid := 4243\<rparr>) True (Some sample_scope)) \<noteq> CR_Ready"
proof
  assume "fst (ParseControlRequest (=) (Some sample_request) (sample_identity\<lparr>cq_pid := 4243\<rparr>) True (Some sample_scope)) = CR_Ready"
  then obtain o2 where "ParseControlRequest (=) (Some sample_request) (sample_identity\<lparr>cq_pid := 4243\<rparr>) True
      (Some sample_scope) = (CR_Ready, o2)" by (metis prod.collapse)
  from request_bound_to_run[OF sample_request_accepted this] show False by (simp add: sample_identity_def)
qed

end
