(* ===== verification/ControlState.thy ===== *)
theory ControlState
  imports ControlText Paths
begin

text \<open>
  Who may ask for a recovery, and who has asked
  (\<open>src/companion/leech_recovery_control.*\<close>): the check of a security descriptor, and the latch
  that a pipe client, the server's console and the owner compete for.

  The state is the shared \<open>ControlState\<close> without its handles and buffers.  Every access to the
  latch is one compare-and-exchange; the guards before it read fields another thread may be
  changing, so an operation takes the state its guards have past beside the state of its exchange.
\<close>

section \<open>Security descriptors\<close>

definition FILE_ALL_ACCESS :: u32 where "FILE_ALL_ACCESS = 0x1F01FF"
definition GENERIC_ALL :: u32 where "GENERIC_ALL = 0x10000000"
definition GENERIC_READ :: u32 where "GENERIC_READ = 0x80000000"
definition GENERIC_WRITE :: u32 where "GENERIC_WRITE = 0x40000000"
definition GENERIC_EXECUTE :: u32 where "GENERIC_EXECUTE = 0x20000000"
definition FILE_GENERIC_READ :: u32 where "FILE_GENERIC_READ = 0x120089"
definition FILE_GENERIC_WRITE :: u32 where "FILE_GENERIC_WRITE = 0x120116"
definition FILE_GENERIC_EXECUTE :: u32 where "FILE_GENERIC_EXECUTE = 0x1200A0"

text \<open>\<open>kMutation\<close>: delete, the descriptor, the owner, data, attributes, children.\<close>

definition kMutation :: u32 where
  "kMutation = fold or [0x10000, 0x40000, 0x80000, 0x2, 0x4, 0x10, 0x100, 0x40] 0"

definition kKnownAccess :: u32 where
  "kKnownAccess = fold or [FILE_ALL_ACCESS, GENERIC_ALL, GENERIC_READ, GENERIC_WRITE, GENERIC_EXECUTE] 0"

record ControlSecurity =
  cs_operatorSid :: "byte list"
  cs_administratorSid :: "byte list"

text \<open>An access control entry as the code reads it; \<open>ace_subs\<close> is the count of its sub-authorities.\<close>

record Ace =
  ace_type :: byte
  ace_flags :: byte
  ace_size :: nat
  ace_mask :: u32
  ace_subs :: nat
  ace_sid :: "byte list"

text \<open>\<open>None\<close> for an owner or a list that is absent, null or refused by Windows.\<close>

record SecurityDescriptor =
  sd_valid :: bool
  sd_owner :: "byte list option"
  sd_dacl :: "Ace option list option"

definition Trusted :: "SidOps \<Rightarrow> ControlSecurity \<Rightarrow> bool \<Rightarrow> byte list \<Rightarrow> bool" where
  "Trusted sids policy permissionFile sid \<longleftrightarrow>
     so_known sids sid Sid_BuiltinAdministrators \<or> so_known sids sid Sid_LocalSystem \<or>
     (cs_administratorSid policy \<noteq> [] \<and> so_equal sids sid (cs_administratorSid policy)) \<or>
     (\<not> permissionFile \<and> cs_operatorSid policy \<noteq> [] \<and> so_equal sids sid (cs_operatorSid policy))"

text \<open>\<open>MapGenericMask\<close> with the mapping of files.\<close>

definition mapped :: "u32 \<Rightarrow> u32" where
  "mapped access =
     (let with_right = (\<lambda>generic right m. if and access generic \<noteq> 0 then or m right else m) in
      with_right GENERIC_ALL FILE_ALL_ACCESS (with_right GENERIC_EXECUTE FILE_GENERIC_EXECUTE
        (with_right GENERIC_WRITE FILE_GENERIC_WRITE (with_right GENERIC_READ FILE_GENERIC_READ
          (and access (not (or GENERIC_ALL (or GENERIC_READ (or GENERIC_WRITE GENERIC_EXECUTE)))))))))"

definition ace_accepted :: "SidOps \<Rightarrow> ControlSecurity \<Rightarrow> bool \<Rightarrow> Ace \<Rightarrow> bool" where
  "ace_accepted sids policy permissionFile ace \<longleftrightarrow>
     and (ace_flags ace) (not 0x1F) = 0 \<and> (ace_type ace = 0 \<or> ace_type ace = 1) \<and> \<not> ace_size ace < 16 \<and>
     \<not> (ace_subs ace > 15 \<or> 8 + 4 * ace_subs ace > ace_size ace - 8 \<or> \<not> so_valid sids (ace_sid ace) \<or>
        and (ace_mask ace) (not kKnownAccess) \<noteq> 0) \<and>
     \<not> (ace_type ace = 0 \<and> and (mapped (ace_mask ace)) kMutation \<noteq> 0 \<and>
        \<not> Trusted sids policy permissionFile (ace_sid ace))"

definition ValidateSecurity :: "SidOps \<Rightarrow> ControlSecurity \<Rightarrow> bool \<Rightarrow> SecurityDescriptor option \<Rightarrow> bool" where
  "ValidateSecurity sids policy permissionFile descriptor =
     (case descriptor of
        None \<Rightarrow> False
      | Some d \<Rightarrow> sd_valid d \<and>
          (case sd_owner d of None \<Rightarrow> False | Some owner \<Rightarrow> Trusted sids policy permissionFile owner) \<and>
          (case sd_dacl d of None \<Rightarrow> False
           | Some aces \<Rightarrow> list_all (\<lambda>a. case a of None \<Rightarrow> False
               | Some ace \<Rightarrow> ace_accepted sids policy permissionFile ace) aces))"

definition PeerMatches :: "SidOps \<Rightarrow> ControlSecurity \<Rightarrow> byte list \<Rightarrow> bool" where
  "PeerMatches sids policy sid \<longleftrightarrow> cs_operatorSid policy \<noteq> [] \<and> so_equal sids sid (cs_operatorSid policy)"

text \<open>All that the allowing entries give to a client with these identifiers, denials ignored.\<close>

definition granted :: "SecurityDescriptor \<Rightarrow> byte list set \<Rightarrow> u32" where
  "granted d client = fold or (map (\<lambda>a. case a of None \<Rightarrow> 0 | Some ace \<Rightarrow>
     if ace_type ace = 0 \<and> ace_sid ace \<in> client then mapped (ace_mask ace) else 0)
     (case sd_dacl d of None \<Rightarrow> [] | Some aces \<Rightarrow> aces)) 0"

lemma and_fold_or: "and (fold or ms m) k = fold or (map (\<lambda>x. and x k) ms) (and m (k :: u32))"
  by (induction ms arbitrary: m) (simp_all add: bit.conj_disj_distrib2)

lemma fold_or_zero: "list_all (\<lambda>x. x = 0) ms \<Longrightarrow> fold or ms 0 = (0 :: u32)"
  by (induction ms) simp_all

text \<open>
  C15: A descriptor that is accepted lets nobody else in.  Its owner is trusted, and whatever a
  client without a trusted identifier is granted contains no right to change the object, its
  owner or its descriptor, generic rights and inherited entries included.
\<close>

theorem accepted_security_is_closed:
  assumes "ValidateSecurity sids policy permissionFile (Some d)"
    and "\<forall>sid\<in>client. \<not> Trusted sids policy permissionFile sid"
  shows "and (granted d client) kMutation = 0 \<and>
    (\<exists>owner. sd_owner d = Some owner \<and> Trusted sids policy permissionFile owner)"
proof -
  obtain aces owner where d: "sd_dacl d = Some aces" "sd_owner d = Some owner" "Trusted sids policy permissionFile owner"
    and ok: "list_all (\<lambda>a. case a of None \<Rightarrow> False | Some ace \<Rightarrow> ace_accepted sids policy permissionFile ace) aces"
    using assms(1) by (auto simp: ValidateSecurity_def split: option.splits)
  have "and (granted d client) kMutation = 0"
    unfolding granted_def d(1) option.case and_fold_or map_map
    by simp (rule fold_or_zero, use ok assms(2) in \<open>auto simp: list_all_iff ace_accepted_def split: option.splits\<close>)
  then show ?thesis using d by blast
qed

section \<open>The latch\<close>

datatype RequestOrigin = Origin_None | Origin_Pipe | Origin_ServerAdminConsole

datatype ConsoleRegistration = Reg_NotRegistered | Reg_Available | Reg_Unavailable

record ControlState =
  ct_stop :: bool
  ct_started :: bool
  ct_latched :: RequestOrigin
  ct_result :: ControlResult
  ct_enabled :: bool
  ct_consoleRequested :: bool
  ct_consoleRegistration :: ConsoleRegistration
  ct_scope :: ControlScope
  ct_identity :: ControlRequest
  ct_security :: ControlSecurity
  ct_error :: nat

text \<open>\<open>ClaimControl\<close>: \<open>past\<close> is the state the guards read, \<open>s\<close> the state at the exchange.\<close>

definition console_admits :: "ControlState \<Rightarrow> bool" where
  "console_admits s \<longleftrightarrow> ct_consoleRequested s \<and> ct_consoleRegistration s = Reg_Available \<and> sc_schema (ct_scope s) = 2"

definition claim_admits :: "ControlState \<Rightarrow> RequestOrigin \<Rightarrow> bool" where
  "claim_admits past origin \<longleftrightarrow>
     \<not> (\<not> ct_enabled past \<or> \<not> ct_started past \<or> ct_stop past \<or> ct_result past \<noteq> CR_Ready \<or>
        \<not> ValidIdentity (ct_identity past) \<or> \<not> ValidScope (ct_scope past) \<or>
        (origin \<noteq> Origin_Pipe \<and> (origin \<noteq> Origin_ServerAdminConsole \<or> \<not> console_admits past)))"

definition ClaimControl :: "ControlState \<Rightarrow> RequestOrigin \<Rightarrow> ControlState \<Rightarrow> bool \<times> ControlState" where
  "ClaimControl past origin s =
     (if claim_admits past origin \<and> ct_latched s = Origin_None then (True, s\<lparr>ct_latched := origin\<rparr>) else (False, s))"

definition ClaimConsoleControlRequest :: "ControlState \<Rightarrow> ControlState \<Rightarrow> bool \<times> ControlState" where
  "ClaimConsoleControlRequest past s = ClaimControl past Origin_ServerAdminConsole s"

definition ReleasePreflightClaim :: "ControlState \<Rightarrow> ControlState \<Rightarrow> bool \<times> ControlState" where
  "ReleasePreflightClaim past s =
     (if sc_schema (ct_scope past) \<noteq> 2 \<or> \<not> ct_enabled past \<or> \<not> ct_started past \<or> ct_stop past \<or>
         ct_result past \<noteq> CR_Ready then (False, s)
      else
        let origin = ct_latched past in
        if (origin = Origin_Pipe \<or> origin = Origin_ServerAdminConsole) \<and> ct_latched s = origin
        then (True, s\<lparr>ct_latched := Origin_None\<rparr>) else (False, s))"

definition ReadLatchedControl :: "ControlState \<Rightarrow> bool \<Rightarrow> bool \<times> ControlRequest \<times> RequestOrigin" where
  "ReadLatchedControl s given =
     (let selected = ct_latched s in
      if \<not> given \<or> \<not> ValidIdentity (ct_identity s) \<or> \<not> ValidScope (ct_scope s) \<or>
         (selected \<noteq> Origin_Pipe \<and> (selected \<noteq> Origin_ServerAdminConsole \<or> \<not> console_admits s))
      then (False, ControlRequest_zero, Origin_None)
      else (True, ct_identity s, selected))"

definition StopControl :: "ControlState \<Rightarrow> ControlState" where
  "StopControl s = s\<lparr>ct_stop := True\<rparr>"

definition ERROR_INVALID_STATE :: nat where "ERROR_INVALID_STATE = 5023"

text \<open>\<open>thread\<close>: \<open>None\<close> when the worker was created, or the error of its creation.\<close>

definition StartControl :: "nat option \<Rightarrow> ControlState \<Rightarrow> bool \<times> nat \<times> ControlState" where
  "StartControl thread s =
     (if \<not> ct_enabled s \<or> ct_result s \<noteq> CR_Ready \<or> ct_stop s \<or> ct_started s then (False, ERROR_INVALID_STATE, s)
      else
        let s = s\<lparr>ct_started := True\<rparr> in
        case thread of
          None \<Rightarrow> (True, ERROR_SUCCESS, s)
        | Some e \<Rightarrow> (False, e, s\<lparr>ct_error := e, ct_enabled := False, ct_result := CR_WorkerFailure\<rparr>))"

section \<open>The worker of the pipe\<close>

text \<open>
  What the system calls of one connection answer: an error code or success; the identifier of
  the impersonated client; what each read of the stop flag sees; and the bytes read.
\<close>

record PeerIo =
  pe_impersonate :: "nat option"
  pe_token :: bool
  pe_sid :: "byte list option"
  pe_close :: bool
  pe_revert :: "nat option"

record PipeIo =
  io_resetConnect :: "nat option"
  io_connect :: "nat option"
  io_waitConnect :: "nat option"
  io_resetRead :: "nat option"
  io_read :: "nat option"
  io_waitRead :: "nat option"
  io_bytes :: "byte list"
  io_peer :: PeerIo
  io_stopFailed :: bool
  io_stopRead :: bool
  io_stopClaim :: bool
  io_latchedLater :: bool

definition ERROR_PIPE_CONNECTED :: nat where "ERROR_PIPE_CONNECTED = 535"
definition ERROR_IO_PENDING :: nat where "ERROR_IO_PENDING = 997"
definition ERROR_MORE_DATA :: nat where "ERROR_MORE_DATA = 234"

text \<open>A pending operation is waited for; the result is the error that remains, if any.\<close>

definition finish_io :: "nat option \<Rightarrow> nat option \<Rightarrow> nat option" where
  "finish_io call wait = (case call of None \<Rightarrow> None | Some e \<Rightarrow> if e = ERROR_IO_PENDING then wait else Some e)"

definition stopped_or :: "bool \<Rightarrow> ControlResult \<Rightarrow> ControlResult" where
  "stopped_or stop r = (if stop then CR_Stopped else r)"

definition ERROR_ACCESS_DENIED :: nat where "ERROR_ACCESS_DENIED = 5"

text \<open>Whether the peer is accepted, and the error that is stored.\<close>

definition AuthenticatePeer :: "SidOps \<Rightarrow> ControlSecurity \<Rightarrow> PeerIo \<Rightarrow> bool \<times> nat" where
  "AuthenticatePeer sids policy io =
     (case pe_impersonate io of
        Some e \<Rightarrow> (False, e)
      | None \<Rightarrow>
          let accepted = (pe_token io \<and> (case pe_sid io of None \<Rightarrow> False | Some sid \<Rightarrow> PeerMatches sids policy sid));
              failure = (if accepted then ERROR_SUCCESS else ERROR_ACCESS_DENIED);
              accepted = (if pe_token io \<and> \<not> pe_close io then False else accepted) in
          (case pe_revert io of
             Some e \<Rightarrow> (False, e)
           | None \<Rightarrow> (accepted, if accepted then ERROR_SUCCESS else failure)))"

text \<open>\<open>past\<close> is the state at the guards of the claim, \<open>s\<close> at its exchange.\<close>

definition ReceivePipe ::
  "(unit16 list \<Rightarrow> unit16 list \<Rightarrow> bool) \<Rightarrow> SidOps \<Rightarrow> PipeIo \<Rightarrow> ControlState \<Rightarrow> ControlState \<Rightarrow> ControlResult \<times> ControlState" where
  "ReceivePipe same_path sids io past s =
     (case io_resetConnect io of Some e \<Rightarrow> (CR_WorkerFailure, s\<lparr>ct_error := e\<rparr>) | None \<Rightarrow>
      (case finish_io (if io_connect io = Some ERROR_PIPE_CONNECTED then None else io_connect io) (io_waitConnect io) of
         Some e \<Rightarrow> (stopped_or (io_stopFailed io) CR_ReadFailure, s\<lparr>ct_error := e\<rparr>) | None \<Rightarrow>
      (case io_resetRead io of Some e \<Rightarrow> (CR_WorkerFailure, s\<lparr>ct_error := e\<rparr>) | None \<Rightarrow>
      (case finish_io (io_read io) (io_waitRead io) of
         Some e \<Rightarrow> (stopped_or (io_stopFailed io) (if e = ERROR_MORE_DATA then CR_InvalidRequest else CR_ReadFailure),
                     s\<lparr>ct_error := e\<rparr>) | None \<Rightarrow>
       if io_stopRead io then (CR_Stopped, s)
       else (case AuthenticatePeer sids (ct_security s) (io_peer io) of (accepted, e) \<Rightarrow>
         let s = s\<lparr>ct_error := e\<rparr> in
         if \<not> accepted then (CR_SecurityRejected, s) else
         (case ParseControlRequest same_path (Some (io_bytes io)) (ct_identity s) True (Some (ct_scope s)) of
            (result, request) \<Rightarrow>
              if result \<noteq> CR_Ready then (result, s\<lparr>ct_error := ERROR_INVALID_DATA\<rparr>)
              else (case ClaimControl past Origin_Pipe s of
                (True, s) \<Rightarrow> (CR_Latched, s)
              | (False, s) \<Rightarrow>
                  if io_stopClaim io then (CR_Stopped, s)
                  else if sc_schema (ct_scope s) = 2 then (CR_AlreadyClaimed, s)
                  else (if io_latchedLater io then CR_AlreadyClaimed else CR_InvalidRequest, s))))))))"

text \<open>
  The loop of the worker after one connection: whether it receives again, and the result it
  publishes.  \<open>disconnect\<close> is the error of the disconnection, \<open>stop\<close> what the flag was then.
\<close>

definition ERROR_PIPE_NOT_CONNECTED :: nat where "ERROR_PIPE_NOT_CONNECTED = 233"

definition worker_turn :: "nat option \<Rightarrow> bool \<Rightarrow> ControlResult \<Rightarrow> ControlState \<Rightarrow> bool \<times> ControlState" where
  "worker_turn disconnect stop result s =
     (if disconnect \<noteq> None \<and> disconnect \<noteq> Some ERROR_PIPE_NOT_CONNECTED
      then (False, s\<lparr>ct_error := the disconnect, ct_result := stopped_or stop CR_WorkerFailure\<rparr>)
      else if sc_schema (ct_scope s) \<noteq> 2 \<or> (result \<noteq> CR_Latched \<and> result \<noteq> CR_AlreadyClaimed) \<or> stop
      then (False, s\<lparr>ct_result := stopped_or stop result\<rparr>)
      else (True, s))"

section \<open>One request at a time\<close>

text \<open>
  The threads interleave: a claim or a release exchanges the latch now, after guards that saw
  any earlier state.  The trace of what succeeded has the latest action first.
\<close>

datatype control_action = Claimed RequestOrigin | Released

record control_run =
  cr_past :: "ControlState set"
  cr_now :: ControlState
  cr_trace :: "control_action list"

definition next_run :: "control_run \<Rightarrow> ControlState \<Rightarrow> control_action list \<Rightarrow> control_run" where
  "next_run c s actions = \<lparr>cr_past = insert s (cr_past c), cr_now = s, cr_trace = actions @ cr_trace c\<rparr>"

inductive control_step ::
  "(unit16 list \<Rightarrow> unit16 list \<Rightarrow> bool) \<Rightarrow> SidOps \<Rightarrow> control_run \<Rightarrow> control_run \<Rightarrow> bool" for same_path sids where
  pipe: "past \<in> cr_past c \<Longrightarrow> ReceivePipe same_path sids io past (cr_now c) = (r, s) \<Longrightarrow>
    control_step same_path sids c (next_run c s (if r = CR_Latched then [Claimed Origin_Pipe] else []))"
| console: "past \<in> cr_past c \<Longrightarrow> ClaimConsoleControlRequest past (cr_now c) = (ok, s) \<Longrightarrow>
    control_step same_path sids c (next_run c s (if ok then [Claimed Origin_ServerAdminConsole] else []))"
| release: "past \<in> cr_past c \<Longrightarrow> ReleasePreflightClaim past (cr_now c) = (ok, s) \<Longrightarrow>
    control_step same_path sids c (next_run c s (if ok then [Released] else []))"
| stop: "control_step same_path sids c (next_run c (StopControl (cr_now c)) [])"
| starts: "StartControl thread (cr_now c) = (ok, e, s) \<Longrightarrow> control_step same_path sids c (next_run c s [])"
| register: "control_step same_path sids c (next_run c ((cr_now c)\<lparr>ct_consoleRegistration := reg\<rparr>) [])"
| worker: "worker_turn disconnect halt result (cr_now c) = (again, s) \<Longrightarrow>
    control_step same_path sids c (next_run c s [])"

definition control_start :: "ControlState \<Rightarrow> control_run" where
  "control_start s = \<lparr>cr_past = {s}, cr_now = s, cr_trace = []\<rparr>"

fun holder :: "control_action list \<Rightarrow> RequestOrigin" where
  "holder [] = Origin_None"
| "holder (Claimed origin # tr) = origin"
| "holder (Released # tr) = Origin_None"

fun alternating :: "control_action list \<Rightarrow> bool" where
  "alternating [] \<longleftrightarrow> True"
| "alternating (Claimed origin # tr) \<longleftrightarrow> origin \<noteq> Origin_None \<and> holder tr = Origin_None \<and> alternating tr"
| "alternating (Released # tr) \<longleftrightarrow> holder tr \<noteq> Origin_None \<and> alternating tr"

text \<open>What no operation changes after the start.\<close>

definition same_authority :: "ControlState \<Rightarrow> ControlState \<Rightarrow> bool" where
  "same_authority a b \<longleftrightarrow> ct_scope a = ct_scope b \<and> ct_identity a = ct_identity b \<and>
     ct_consoleRequested a = ct_consoleRequested b \<and> ct_security a = ct_security b"

lemma ClaimControl_cases:
  assumes "ClaimControl past origin s = (ok, s')"
  shows "same_authority s' s \<and> (if ok then claim_admits past origin \<and> ct_latched s = Origin_None \<and> ct_latched s' = origin
    else ct_latched s' = ct_latched s)"
  using assms by (auto simp: ClaimControl_def same_authority_def split: if_splits)

lemma ReleasePreflightClaim_cases:
  assumes "ReleasePreflightClaim past s = (ok, s')"
  shows "same_authority s' s \<and> (if ok then sc_schema (ct_scope past) = 2 \<and> ct_latched s \<noteq> Origin_None \<and>
    ct_latched s' = Origin_None else ct_latched s' = ct_latched s)"
  using assms by (auto simp: ReleasePreflightClaim_def same_authority_def Let_def split: if_splits)

text \<open>A connection that latches was let through by every check.\<close>

definition authorised :: "(unit16 list \<Rightarrow> unit16 list \<Rightarrow> bool) \<Rightarrow> SidOps \<Rightarrow> PipeIo \<Rightarrow> ControlState \<Rightarrow> bool" where
  "authorised same_path sids io s \<longleftrightarrow>
     (\<exists>sid. pe_impersonate (io_peer io) = None \<and> pe_revert (io_peer io) = None \<and> pe_sid (io_peer io) = Some sid \<and>
        PeerMatches sids (ct_security s) sid) \<and>
     ParseControlRequest same_path (Some (io_bytes io)) (ct_identity s) True (Some (ct_scope s)) =
       (CR_Ready, ct_identity s)"

lemma AuthenticatePeer_accepts:
  assumes "AuthenticatePeer sids policy io = (True, e)"
  shows "\<exists>sid. pe_impersonate io = None \<and> pe_revert io = None \<and> pe_sid io = Some sid \<and> PeerMatches sids policy sid"
  using assms by (auto simp: AuthenticatePeer_def Let_def split: option.splits if_splits)

lemma ParseControlRequest_identity:
  "ParseControlRequest sp (Some bs) i given scope = (CR_Ready, out) \<Longrightarrow> out = i"
  by (auto simp: ParseControlRequest_def Let_def split: option.splits if_splits)

lemma ReceivePipe_cases:
  assumes "ReceivePipe same_path sids io past s = (r, s')"
  shows "same_authority s' s \<and> (if r = CR_Latched then authorised same_path sids io s \<and> claim_admits past Origin_Pipe \<and>
    ct_latched s = Origin_None \<and> ct_latched s' = Origin_Pipe else ct_latched s' = ct_latched s)"
proof -
  have not_latched: "same_authority (s\<lparr>ct_error := e\<rparr>) s" "ct_latched (s\<lparr>ct_error := e\<rparr>) = ct_latched s" for e
    by (simp_all add: same_authority_def)
  show ?thesis
  proof (cases "io_resetConnect io = None \<and>
      finish_io (if io_connect io = Some ERROR_PIPE_CONNECTED then None else io_connect io) (io_waitConnect io) = None \<and>
      io_resetRead io = None \<and> finish_io (io_read io) (io_waitRead io) = None \<and> \<not> io_stopRead io")
    case False
    then show ?thesis using assms not_latched
      by (auto simp: ReceivePipe_def stopped_or_def same_authority_def split: option.splits if_splits)
  next
    case True
    obtain ok e where a: "AuthenticatePeer sids (ct_security s) (io_peer io) = (ok, e)" by fastforce
    let ?s = "s\<lparr>ct_error := e\<rparr>"
    obtain res req where q: "ParseControlRequest same_path (Some (io_bytes io)) (ct_identity s) True (Some (ct_scope s)) = (res, req)"
      by fastforce
    have body: "(r, s') = (if \<not> ok then (CR_SecurityRejected, ?s)
        else if res \<noteq> CR_Ready then (res, ?s\<lparr>ct_error := ERROR_INVALID_DATA\<rparr>)
        else (case ClaimControl past Origin_Pipe ?s of
           (True, s) \<Rightarrow> (CR_Latched, s)
         | (False, s) \<Rightarrow> if io_stopClaim io then (CR_Stopped, s)
             else if sc_schema (ct_scope s) = 2 then (CR_AlreadyClaimed, s)
             else (if io_latchedLater io then CR_AlreadyClaimed else CR_InvalidRequest, s)))"
      using assms True by (cases ok; cases "res = CR_Ready") (simp_all add: ReceivePipe_def a q Let_def eq_commute)
    have res: "res = CR_Ready \<or> res = CR_InvalidRequest"
      using q by (auto simp: ParseControlRequest_def Let_def split: option.splits if_splits)
    consider (no) "\<not> ok" | (bad) "ok" "res \<noteq> CR_Ready" | (good) "ok" "res = CR_Ready" by blast
    then show ?thesis
    proof cases
      case good
      obtain won s1 where c: "ClaimControl past Origin_Pipe ?s = (won, s1)" by fastforce
      note cc = ClaimControl_cases[OF c]
      have "authorised same_path sids io s"
        using good AuthenticatePeer_accepts a q ParseControlRequest_identity by (fastforce simp: authorised_def)
      then show ?thesis using body good c cc by (auto simp: same_authority_def split: if_splits)
    qed (use body res in \<open>auto simp: same_authority_def\<close>)
  qed
qed

lemma StartControl_frame: "StartControl thread s = (ok, e, s') \<Longrightarrow> same_authority s' s \<and> ct_latched s' = ct_latched s"
  by (auto simp: StartControl_def Let_def same_authority_def split: option.splits if_splits)

lemma worker_turn_frame: "worker_turn d h r s = (again, s') \<Longrightarrow> same_authority s' s \<and> ct_latched s' = ct_latched s"
  by (auto simp: worker_turn_def same_authority_def split: if_splits)

lemma same_authority_trans: "same_authority a b \<Longrightarrow> same_authority b c \<Longrightarrow> same_authority a c"
  by (simp add: same_authority_def)

definition control_inv :: "ControlState \<Rightarrow> control_run \<Rightarrow> bool" where
  "control_inv s0 c \<longleftrightarrow>
     (\<forall>s\<in>cr_past c. same_authority s s0) \<and> same_authority (cr_now c) s0 \<and>
     ct_latched (cr_now c) = holder (cr_trace c) \<and> alternating (cr_trace c) \<and>
     (Released \<in> set (cr_trace c) \<longrightarrow> sc_schema (ct_scope s0) = 2) \<and>
     (Claimed Origin_ServerAdminConsole \<in> set (cr_trace c) \<longrightarrow>
        sc_schema (ct_scope s0) = 2 \<and> ct_consoleRequested s0)"

lemma quiet_step:
  assumes "control_inv s0 c" and "same_authority s (cr_now c)" and "ct_latched s = ct_latched (cr_now c)"
  shows "control_inv s0 (next_run c s [])"
  using assms same_authority_trans by (auto simp: control_inv_def next_run_def)

lemma claim_step:
  assumes "control_inv s0 c" and "same_authority s (cr_now c)" and "past \<in> cr_past c" and "claim_admits past origin"
    and "ct_latched (cr_now c) = Origin_None" and "ct_latched s = origin" and "origin \<noteq> Origin_None"
  shows "control_inv s0 (next_run c s [Claimed origin])"
proof -
  have p: "same_authority past s0" using assms(1,3) by (simp add: control_inv_def)
  have "origin = Origin_ServerAdminConsole \<Longrightarrow> sc_schema (ct_scope s0) = 2 \<and> ct_consoleRequested s0"
    using assms(4) p by (auto simp: claim_admits_def console_admits_def same_authority_def)
  then show ?thesis using assms same_authority_trans by (auto simp: control_inv_def next_run_def)
qed

lemma control_inv_step:
  assumes "control_step same_path sids c d" and "control_inv s0 c"
  shows "control_inv s0 d"
  using assms
proof (induction rule: control_step.induct)
  case (pipe past c io r s)
  note x = ReceivePipe_cases[OF pipe(2)]
  show ?case
  proof (cases "r = CR_Latched")
    case True
    then show ?thesis using claim_step[OF pipe(3) _ pipe(1)] x by simp
  next
    case False
    then show ?thesis using quiet_step[OF pipe(3)] x by simp
  qed
next
  case (console past c ok s)
  note x = ClaimControl_cases[OF console(2)[unfolded ClaimConsoleControlRequest_def]]
  show ?case
  proof (cases ok)
    case True
    then show ?thesis using claim_step[OF console(3) _ console(1)] x by simp
  next
    case False
    then show ?thesis using quiet_step[OF console(3)] x by simp
  qed
next
  case (release past c ok s)
  note x = ReleasePreflightClaim_cases[OF release(2)]
  show ?case
  proof (cases ok)
    case True
    have "same_authority past s0" using release(1,3) by (simp add: control_inv_def)
    then show ?thesis using x True release(3) same_authority_trans
      by (auto simp: control_inv_def next_run_def same_authority_def)
  next
    case False
    then show ?thesis using quiet_step[OF release(3)] x by simp
  qed
next
  case (stop c)
  then show ?case by (intro quiet_step) (simp_all add: StopControl_def same_authority_def)
next
  case (starts thread c ok e s)
  then show ?case using quiet_step StartControl_frame by blast
next
  case (register c reg)
  then show ?case by (intro quiet_step) (simp_all add: same_authority_def)
next
  case (worker d h r c again s)
  then show ?case using quiet_step worker_turn_frame by blast
qed

lemma control_inv_reachable:
  assumes "(control_step same_path sids)\<^sup>*\<^sup>* c d" and "control_inv s0 c"
  shows "control_inv s0 d"
  using assms by (induction rule: rtranclp_induct) (auto intro: control_inv_step)

definition claims :: "control_action list \<Rightarrow> nat" where
  "claims tr = length (filter (\<lambda>a. a \<noteq> Released) tr)"

lemma one_claim: "alternating tr \<Longrightarrow> Released \<notin> set tr \<Longrightarrow> claims tr \<le> 1 \<and> (holder tr = Origin_None \<longrightarrow> tr = [])"
proof (induction tr rule: alternating.induct)
  case (2 origin tr)
  then have "tr = []" by simp
  then show ?case using 2 by (simp add: claims_def)
qed (simp_all add: claims_def)

text \<open>
  C5: One request at a time.  However the pipe's worker, the console, the owner's releases, the
  start, the stop and the registration interleave, with guards that may have read any earlier
  state: claims and releases that succeed alternate, beginning with a claim; the latch holds the
  origin of the claim not yet released; with the training schema there is at most one claim ever;
  the console claims only where the configuration asked for it, in schema 2; and the owner never
  reads another identity than the one armed at the start, nor another origin than that claim's.
\<close>

theorem one_request_at_a_time:
  assumes "(control_step same_path sids)\<^sup>*\<^sup>* (control_start s0) c" and "ct_latched s0 = Origin_None"
  shows "alternating (cr_trace c) \<and> ct_latched (cr_now c) = holder (cr_trace c) \<and>
    (sc_schema (ct_scope s0) = 2 \<or> claims (cr_trace c) \<le> 1) \<and>
    (Claimed Origin_ServerAdminConsole \<notin> set (cr_trace c) \<or> (sc_schema (ct_scope s0) = 2 \<and> ct_consoleRequested s0)) \<and>
    (case ReadLatchedControl (cr_now c) True of (ok, request, origin) \<Rightarrow>
       \<not> ok \<or> (request = ct_identity s0 \<and> origin = holder (cr_trace c) \<and> origin \<noteq> Origin_None))"
proof -
  have "control_inv s0 (control_start s0)"
    using assms(2) by (simp add: control_inv_def control_start_def same_authority_def)
  then have inv: "control_inv s0 c" using control_inv_reachable[OF assms(1)] by blast
  then have a: "alternating (cr_trace c)" "ct_latched (cr_now c) = holder (cr_trace c)" "same_authority (cr_now c) s0"
    by (simp_all add: control_inv_def)
  moreover have "sc_schema (ct_scope s0) = 2 \<or> claims (cr_trace c) \<le> 1"
    using inv one_claim[OF a(1)] by (auto simp: control_inv_def)
  moreover have "Claimed Origin_ServerAdminConsole \<notin> set (cr_trace c) \<or> (sc_schema (ct_scope s0) = 2 \<and> ct_consoleRequested s0)"
    using inv by (auto simp: control_inv_def)
  moreover have "case ReadLatchedControl (cr_now c) True of (ok, request, origin) \<Rightarrow>
       \<not> ok \<or> (request = ct_identity s0 \<and> origin = holder (cr_trace c) \<and> origin \<noteq> Origin_None)"
    using a by (auto simp: ReadLatchedControl_def Let_def same_authority_def)
  ultimately show ?thesis by blast
qed

text \<open>
  C6: What the pipe latches was authorised.  A connection that ends with the latch taken came
  from a client whose identifier, read while impersonating it, is the operator's, after the
  worker was itself again; its text is an accepted request for the armed identity; no stop was
  seen before the claim; and the latch was free.
\<close>

theorem pipe_latch_is_authorised:
  assumes "ReceivePipe same_path sids io past s = (CR_Latched, s')"
  shows "authorised same_path sids io s \<and> claim_admits past Origin_Pipe \<and> \<not> io_stopRead io \<and>
    ct_latched s = Origin_None \<and> ct_latched s' = Origin_Pipe"
proof -
  have "\<not> io_stopRead io"
    using assms by (auto simp: ReceivePipe_def stopped_or_def split: option.splits if_splits)
  then show ?thesis using ReceivePipe_cases[OF assms] by simp
qed

section \<open>A concrete control\<close>

definition sample_policy :: ControlSecurity where
  "sample_policy = \<lparr>cs_operatorSid = [1, 5], cs_administratorSid = [1, 5]\<rparr>"

definition sample_control :: ControlState where
  "sample_control = \<lparr>ct_stop = False, ct_started = True, ct_latched = Origin_None, ct_result = CR_Ready, ct_enabled = True,
     ct_consoleRequested = False, ct_consoleRegistration = Reg_NotRegistered, ct_scope = sample_scope,
     ct_identity = sample_identity, ct_security = sample_policy, ct_error = 0\<rparr>"

definition sample_peer :: PeerIo where
  "sample_peer = \<lparr>pe_impersonate = None, pe_token = True, pe_sid = Some [1, 5], pe_close = True, pe_revert = None\<rparr>"

definition sample_connection :: PipeIo where
  "sample_connection = \<lparr>io_resetConnect = None, io_connect = None, io_waitConnect = None, io_resetRead = None, io_read = None,
     io_waitRead = None, io_bytes = sample_request, io_peer = sample_peer, io_stopFailed = False, io_stopRead = False,
     io_stopClaim = False, io_latchedLater = False\<rparr>"

lemma sample_receives:
  "ReceivePipe (=) sample_sids sample_connection sample_control sample_control =
   (CR_Latched, sample_control\<lparr>ct_latched := Origin_Pipe\<rparr>)"
proof -
  have v: "ValidIdentity sample_identity" "ValidScope sample_scope" by code_simp+
  show ?thesis using sample_request_accepted v
    by (simp add: ReceivePipe_def sample_connection_def sample_control_def finish_io_def AuthenticatePeer_def sample_peer_def
      PeerMatches_def sample_policy_def sample_sids_def ClaimControl_def claim_admits_def ERROR_SUCCESS_def Let_def)
qed

lemma pipe_latch_is_authorised_witness: "authorised (=) sample_sids sample_connection sample_control"
  using pipe_latch_is_authorised[OF sample_receives] by blast

lemma one_request_at_a_time_witness:
  "\<exists>c. (control_step (=) sample_sids)\<^sup>*\<^sup>* (control_start sample_control) c \<and> cr_trace c = [Claimed Origin_Pipe] \<and>
    ct_latched (cr_now c) = holder (cr_trace c)"
proof -
  let ?c = "next_run (control_start sample_control) (sample_control\<lparr>ct_latched := Origin_Pipe\<rparr>) [Claimed Origin_Pipe]"
  have "control_step (=) sample_sids (control_start sample_control) ?c"
    using control_step.pipe[of sample_control "control_start sample_control" "(=)" sample_sids sample_connection]
      sample_receives by (simp add: control_start_def)
  then have r: "(control_step (=) sample_sids)\<^sup>*\<^sup>* (control_start sample_control) ?c" by blast
  moreover have "ct_latched sample_control = Origin_None" by (simp add: sample_control_def)
  ultimately show ?thesis using one_request_at_a_time[OF r] by (intro exI[of _ ?c]) (simp add: next_run_def control_start_def)
qed

definition sample_descriptor :: SecurityDescriptor where
  "sample_descriptor = \<lparr>sd_valid = True, sd_owner = Some [1, 5], sd_dacl = Some
     [Some \<lparr>ace_type = 0, ace_flags = 0, ace_size = 20, ace_mask = GENERIC_ALL, ace_subs = 1, ace_sid = [1, 5]\<rparr>,
      Some \<lparr>ace_type = 0, ace_flags = 0x10, ace_size = 20, ace_mask = GENERIC_READ, ace_subs = 1, ace_sid = [1, 1]\<rparr>]\<rparr>"

lemma accepted_security_is_closed_witness: "and (granted sample_descriptor {[1, 1]}) kMutation = 0"
proof -
  have "ValidateSecurity sample_sids sample_policy False (Some sample_descriptor)" by code_simp
  moreover have "\<forall>sid\<in>{[1, 1]}. \<not> Trusted sample_sids sample_policy False sid" by code_simp
  ultimately show ?thesis using accepted_security_is_closed by blast
qed

end
