(* ===== verification/Task.thy ===== *)
theory Task
  imports Types Memory
begin

text \<open>
  The binding of the engine's heartbeat task (\<open>src/companion/steam_reporting_task.cpp\<close> and
  \<open>steam_reporting_read_scope.h\<close>): reads of the task pool in the image under caller-supplied
  memory operations, qualification of the selected task, and the installation, validation,
  inverse and retirement of the one pointer the companion swaps.

  The operations run over the world of the access callbacks and one error cell: the error
  cell of a call is \<open>state.lastError\<close> where the code passes \<open>&state.lastError\<close>, and one of its
  own where the code declares \<open>DWORD error{}\<close>; the other fields of \<open>TaskBinding\<close> are threaded
  explicitly.  Structures read from the image are little-endian runs of bytes at the offsets
  the static assertions of the file fix.
\<close>

section \<open>Programs that stop early\<close>

text \<open>\<open>proceed\<close> continues unless a reason stopped the run; \<open>optM\<close> unless a read failed.\<close>

definition proceed :: "('s, 'r + 'a) state \<Rightarrow> ('a \<Rightarrow> ('s, 'r + 'b) state) \<Rightarrow> ('s, 'r + 'b) state" where
  "proceed m f = do { r \<leftarrow> m; case r of Inl e \<Rightarrow> State_Monad.return (Inl e) | Inr a \<Rightarrow> f a }"

definition optM :: "('s, 'a option) state \<Rightarrow> ('a \<Rightarrow> ('s, 'b option) state) \<Rightarrow> ('s, 'b option) state" where
  "optM m f = do { r \<leftarrow> m; case r of None \<Rightarrow> State_Monad.return None | Some a \<Rightarrow> f a }"

definition require :: "('s, bool) state \<Rightarrow> 'r \<Rightarrow> ('s, 'r + unit) state" where
  "require m e = do { ok \<leftarrow> m; State_Monad.return (if ok then Inr () else Inl e) }"

definition demand :: "('s, 'a option) state \<Rightarrow> 'r \<Rightarrow> ('s, 'r + 'a) state" where
  "demand m e = do { r \<leftarrow> m; State_Monad.return (case r of None \<Rightarrow> Inl e | Some a \<Rightarrow> Inr a) }"

definition pass :: "Reason \<Rightarrow> ('s, Reason + unit) state" where
  "pass reason = State_Monad.return (if reason = R_None then Inr () else Inl reason)"

section \<open>Layout and access\<close>

definition kStride :: nat where "kStride = 0x78"
definition kBuilderOffset :: nat where "kBuilderOffset = 0x40"
definition kHolderType :: nat where "kHolderType = 43"
definition kInterval :: nat where "kInterval = 30000"

record TaskLayout =
  tl_poolRva :: nat
  tl_selectedIdRva :: nat
  tl_invalidIdRva :: nat
  tl_counterRva :: nat
  tl_registryRva :: nat
  tl_metadataVtableRva :: nat
  tl_builderRva :: nat
  tl_serviceStateRva :: nat

definition ProductionTaskLayout :: TaskLayout where
  "ProductionTaskLayout =
    \<lparr>tl_poolRva = 0x17AAC80, tl_selectedIdRva = 0x14AAD8C, tl_invalidIdRva = 0x17AA9C0, tl_counterRva = 0x17AAC78,
     tl_registryRva = 0x179D5A8, tl_metadataVtableRva = 0x1276D60, tl_builderRva = 0xBA9FD0,
     tl_serviceStateRva = 0x14AAD20\<rparr>"

text \<open>
  An exchange gives its result and the value it observed; the predicates answer a question
  and may move the world.
\<close>

record 'w TaskAccess =
  ta_memory :: "'w MemoryOps"
  ta_hostBase :: nat
  ta_hostImageSize :: nat
  ta_compareExchange :: "(nat \<Rightarrow> nat \<Rightarrow> nat \<Rightarrow> ('w, bool \<times> nat) prog) option"
  ta_admission :: "('w \<Rightarrow> bool \<times> 'w) option"
  ta_safeOwner :: "('w \<Rightarrow> bool \<times> 'w) option"
  ta_ownerThread :: "('w \<Rightarrow> bool \<times> 'w) option"

definition ask :: "('w \<Rightarrow> bool \<times> 'w) option \<Rightarrow> ('w, bool) prog" where
  "ask question = (case question of
     None \<Rightarrow> State_Monad.return False
   | Some f \<Rightarrow> State (\<lambda>(w, e). case f w of (b, w) \<Rightarrow> (b, (w, e))))"

definition Owner :: "'w TaskAccess \<Rightarrow> ('w, bool) prog" where
  "Owner access = ask (ta_safeOwner access)"

definition Admit :: "'w TaskAccess \<Rightarrow> ('w, bool) prog" where
  "Admit access = ask (ta_admission access)"

definition EntryReason :: "'w TaskAccess \<Rightarrow> ('w, Reason) prog" where
  "EntryReason access =
     (if ta_ownerThread access = None \<or> ta_safeOwner access = None \<or> ta_admission access = None
      then State_Monad.return R_ProfileMismatch
      else do {
        mine \<leftarrow> ask (ta_ownerThread access);
        if \<not> mine then State_Monad.return R_ForeignThread
        else do {
          owner \<leftarrow> Owner access;
          State_Monad.return (if owner then R_None else R_LifecycleCrossing) } })"

definition Address :: "'w TaskAccess \<Rightarrow> nat \<Rightarrow> nat \<Rightarrow> nat option" where
  "Address access rva bytes =
     (if ta_hostBase access = 0 \<or> bytes = 0 \<or> ta_hostImageSize access = 0 \<or>
         ta_hostImageSize access > u64_max - ta_hostBase access \<or>
         rva \<ge> ta_hostImageSize access \<or> bytes > ta_hostImageSize access - rva then None
      else Some (ta_hostBase access + rva))"

definition LayoutValid :: "'w TaskAccess \<Rightarrow> TaskLayout \<Rightarrow> bool" where
  "LayoutValid access layout \<longleftrightarrow>
     (if mo_query (ta_memory access) = None \<or> mo_read (ta_memory access) = None \<or>
         and (ta_hostBase access) 7 \<noteq> 0 \<or> and (tl_poolRva layout) 7 \<noteq> 0 \<or>
         and (tl_registryRva layout) 7 \<noteq> 0 \<or> and (tl_metadataVtableRva layout) 7 \<noteq> 0 \<or>
         and (or (or (or (tl_selectedIdRva layout) (tl_invalidIdRva layout)) (tl_counterRva layout))
           (tl_serviceStateRva layout)) 3 \<noteq> 0
      then False
      else Address access (tl_poolRva layout) (kTaskSlots * kStride) \<noteq> None \<and>
        Address access (tl_registryRva layout) 8 \<noteq> None \<and>
        Address access (tl_metadataVtableRva layout) 8 \<noteq> None \<and>
        Address access (tl_builderRva layout) 1 \<noteq> None \<and>
        Address access (tl_selectedIdRva layout) 4 \<noteq> None \<and>
        Address access (tl_invalidIdRva layout) 4 \<noteq> None \<and>
        Address access (tl_counterRva layout) 4 \<noteq> None \<and>
        Address access (tl_serviceStateRva layout) 4 \<noteq> None)"

section \<open>Guarded reads\<close>

text \<open>The tests of one region of a data range.\<close>

definition data_region_ok :: "'w TaskAccess \<Rightarrow> nat \<Rightarrow> bool \<Rightarrow> bool \<Rightarrow> MemoryRegion \<Rightarrow> bool" where
  "data_region_ok access address inImage writable region \<longleftrightarrow>
     \<not> (mr_state region \<noteq> MEM_COMMIT \<or> mr_base region > address \<or> mr_size region = 0 \<or>
        mr_size region > u64_max - mr_base region \<or>
        mr_base region + mr_size region \<le> address \<or>
        (mr_protect region \<noteq> PAGE_READONLY \<and> mr_protect region \<noteq> PAGE_READWRITE \<and>
         mr_protect region \<noteq> PAGE_WRITECOPY) \<or>
        (writable \<and> mr_protect region \<noteq> PAGE_READWRITE) \<or>
        (inImage \<and> (mr_type region \<noteq> MEM_IMAGE \<or> mr_allocationBase region \<noteq> ta_hostBase access)))"

text \<open>The loop over at most sixteen regions: the address reached, or \<open>None\<close> for a refusal.\<close>

fun data_range_loop ::
  "'w TaskAccess \<Rightarrow> (nat \<Rightarrow> ('w, MemoryRegion option) prog) \<Rightarrow> nat \<Rightarrow> bool \<Rightarrow> bool \<Rightarrow> nat \<Rightarrow> nat \<Rightarrow>
   ('w, nat option) prog" where
  "data_range_loop access query finish inImage writable 0 address = State_Monad.return (Some address)"
| "data_range_loop access query finish inImage writable (Suc regions) address =
     (if address < finish then do {
        owner \<leftarrow> Owner access;
        if \<not> owner then State_Monad.return None
        else optM (query address) (\<lambda>region. do {
          owner \<leftarrow> Owner access;
          if \<not> owner \<or> \<not> data_region_ok access address inImage writable region then State_Monad.return None
          else data_range_loop access query finish inImage writable regions
            (if mr_base region + mr_size region < finish then mr_base region + mr_size region else finish) }) }
      else State_Monad.return (Some address))"

definition DataRange :: "'w TaskAccess \<Rightarrow> nat \<Rightarrow> nat \<Rightarrow> bool \<Rightarrow> bool \<Rightarrow> ('w, bool) prog" where
  "DataRange access address bytes inImage writable = do {
     owner \<leftarrow> Owner access;
     case mo_query (ta_memory access) of
       None \<Rightarrow> State_Monad.return False
     | Some query \<Rightarrow>
         if \<not> owner \<or> address = 0 \<or> bytes = 0 \<or> bytes > u64_max - address then State_Monad.return False
         else do {
           reached \<leftarrow> data_range_loop access query (address + bytes) inImage writable 16 address;
           if reached = Some (address + bytes) then Owner access else State_Monad.return False } }"

definition DataRead :: "'w TaskAccess \<Rightarrow> nat \<Rightarrow> nat \<Rightarrow> bool \<Rightarrow> ('w, byte list option) prog" where
  "DataRead access address bytes inImage =
     (case mo_read (ta_memory access) of
        None \<Rightarrow> State_Monad.return None
      | Some read \<Rightarrow> do {
          ok \<leftarrow> allM [DataRange access address bytes inImage False, Owner access];
          if \<not> ok then State_Monad.return None
          else optM (read address bytes) (\<lambda>output. do {
            owner \<leftarrow> Owner access;
            State_Monad.return (if owner then Some output else None) }) })"

definition ImageRead :: "'w TaskAccess \<Rightarrow> nat \<Rightarrow> nat \<Rightarrow> ('w, byte list option) prog" where
  "ImageRead access rva bytes = (case Address access rva bytes of
     None \<Rightarrow> State_Monad.return None | Some address \<Rightarrow> DataRead access address bytes True)"

definition SlotAddress :: "'w TaskAccess \<Rightarrow> TaskLayout \<Rightarrow> nat \<Rightarrow> nat option" where
  "SlotAddress access layout slot =
     (if slot < kTaskSlots \<and> LayoutValid access layout
      then Address access ((tl_poolRva layout + slot * kStride) mod 2 ^ 32) kStride else None)"

section \<open>The metadata cache of one read pass\<close>

definition kReadScopeRegions :: nat where "kReadScopeRegions = 24"

definition Cacheable :: "MemoryRegion \<Rightarrow> nat \<Rightarrow> bool" where
  "Cacheable region address \<longleftrightarrow>
     \<not> (mr_size region = 0 \<or> mr_base region > address \<or>
        mr_size region > u64_max - mr_base region \<or>
        address - mr_base region \<ge> mr_size region \<or> mr_state region \<noteq> MEM_COMMIT \<or>
        mr_allocationBase region = 0 \<or> mr_allocationBase region > mr_base region \<or>
        (mr_type region \<noteq> MEM_PRIVATE \<and> mr_type region \<noteq> MEM_IMAGE \<and> mr_type region \<noteq> MEM_MAPPED)) \<and>
     mr_protect region \<in> {PAGE_READONLY, PAGE_READWRITE, PAGE_WRITECOPY,
       PAGE_EXECUTE_READ, PAGE_EXECUTE_READWRITE, PAGE_EXECUTE_WRITECOPY}"

definition in_region :: "nat \<Rightarrow> MemoryRegion \<Rightarrow> bool" where
  "in_region address region \<longleftrightarrow> address \<ge> mr_base region \<and> address - mr_base region < mr_size region"

text \<open>The world of a scoped pass is the world and the cached regions, \<open>regions_[0..count_)\<close>.\<close>

type_synonym 'w scoped = "'w \<times> MemoryRegion list"

definition outside :: "('w, 'a) prog \<Rightarrow> ('w scoped, 'a) prog" where
  "outside m = State (\<lambda>((w, regions), e). case run_state m (w, e) of (a, (w, e)) \<Rightarrow> (a, ((w, regions), e)))"

definition remember :: "nat \<Rightarrow> MemoryRegion \<Rightarrow> ('w scoped, unit) prog" where
  "remember address region = State (\<lambda>((w, regions), e).
     ((), ((w, if length regions < kReadScopeRegions \<and> Cacheable region address
               then regions @ [region] else regions), e)))"

definition cached :: "nat \<Rightarrow> ('w scoped, MemoryRegion option) prog" where
  "cached address = State (\<lambda>((w, regions), e).
     case find (in_region address) regions of
       None \<Rightarrow> (None, ((w, regions), e))
     | Some region \<Rightarrow> (Some region, ((w, regions), 0)))"

definition ScopeQuery ::
  "(nat \<Rightarrow> ('w, MemoryRegion option) prog) \<Rightarrow> nat \<Rightarrow> ('w scoped, MemoryRegion option) prog" where
  "ScopeQuery query address = do {
     hit \<leftarrow> cached address;
     case hit of
       Some region \<Rightarrow> State_Monad.return (Some region)
     | None \<Rightarrow> optM (outside (query address)) (\<lambda>region. do {
         _ \<leftarrow> remember address region;
         State_Monad.return (Some region) }) }"

definition ScopeOps :: "'w MemoryOps \<Rightarrow> 'w scoped MemoryOps" where
  "ScopeOps original =
    \<lparr>mo_query = map_option ScopeQuery (mo_query original),
     mo_read = map_option (\<lambda>read address bytes. outside (read address bytes)) (mo_read original)\<rparr>"

definition ScopeReset :: "('w scoped, unit) prog" where
  "ScopeReset = State (\<lambda>((w, _), e). ((), ((w, []), e)))"

definition scope_question :: "('w \<Rightarrow> bool \<times> 'w) \<Rightarrow> 'w scoped \<Rightarrow> bool \<times> 'w scoped" where
  "scope_question f = (\<lambda>(w, regions). case f w of (b, w) \<Rightarrow> (b, (w, regions)))"

text \<open>The copy of the access record whose memory operations go through the scope.\<close>

definition scoped_access :: "'w TaskAccess \<Rightarrow> 'w scoped TaskAccess" where
  "scoped_access access =
    \<lparr>ta_memory = ScopeOps (ta_memory access), ta_hostBase = ta_hostBase access,
     ta_hostImageSize = ta_hostImageSize access,
     ta_compareExchange = map_option (\<lambda>cas address expected desired. outside (cas address expected desired))
       (ta_compareExchange access),
     ta_admission = map_option scope_question (ta_admission access),
     ta_safeOwner = map_option scope_question (ta_safeOwner access),
     ta_ownerThread = map_option scope_question (ta_ownerThread access)\<rparr>"

text \<open>A pass with a fresh scope and an error cell of its own.\<close>

definition with_scope :: "('w scoped, 'a) prog \<Rightarrow> ('w, 'a) prog" where
  "with_scope m = State (\<lambda>(w, e). case run_state m ((w, []), 0) of (a, ((w, _), _)) \<Rightarrow> (a, (w, e)))"

section \<open>Tasks\<close>

record TaskEpoch =
  te_source :: nat
  te_binding :: nat

record TaskIdentity =
  ti_slot :: nat
  ti_id :: nat
  ti_holder :: nat
  ti_component :: nat
  ti_metadata :: nat

datatype ScheduleTier =
    Tier_Unknown | Tier_OrdinaryPoll | Tier_RetryBase | Tier_Retry30s | Tier_Retry60s | Tier_Retry5m | Tier_Retry30m

record TaskSchedule =
  sc_anchorBits :: nat
  sc_interval :: nat
  sc_intervalOverride :: int
  sc_retryOverride :: int
  sc_errors :: int
  sc_throttles :: int
  sc_retryLimit :: nat
  sc_expedite :: nat
  sc_valid :: bool
  sc_tier :: ScheduleTier
  sc_delayUnits :: nat

record TaskSnapshot =
  ts_identity :: TaskIdentity
  ts_state :: nat
  ts_nativeCounter :: nat
  ts_builder :: nat
  ts_schedule :: TaskSchedule

record SlotAuthority =
  sa_callback0 :: nat
  sa_callback1 :: nat
  sa_interval :: nat

definition no_schedule :: TaskSchedule where
  "no_schedule = \<lparr>sc_anchorBits = 0, sc_interval = 0, sc_intervalOverride = 0, sc_retryOverride = 0, sc_errors = 0,
     sc_throttles = 0, sc_retryLimit = 0, sc_expedite = 0, sc_valid = False, sc_tier = Tier_Unknown, sc_delayUnits = 0\<rparr>"

definition EqualTaskIdentity :: "TaskIdentity \<Rightarrow> TaskIdentity \<Rightarrow> bool" where
  "EqualTaskIdentity a b \<longleftrightarrow> ti_slot a = ti_slot b \<and> ti_id a = ti_id b \<and> ti_holder a = ti_holder b \<and>
     ti_component a = ti_component b \<and> ti_metadata a = ti_metadata b"

definition EqualTaskSchedule :: "TaskSchedule \<Rightarrow> TaskSchedule \<Rightarrow> bool" where
  "EqualTaskSchedule a b \<longleftrightarrow>
     sc_anchorBits a = sc_anchorBits b \<and> sc_interval a = sc_interval b \<and>
     sc_intervalOverride a = sc_intervalOverride b \<and> sc_retryOverride a = sc_retryOverride b \<and>
     sc_errors a = sc_errors b \<and> sc_throttles a = sc_throttles b \<and> sc_retryLimit a = sc_retryLimit b \<and>
     sc_expedite a = sc_expedite b \<and> sc_valid a = sc_valid b \<and> sc_tier a = sc_tier b \<and>
     sc_delayUnits a = sc_delayUnits b"

definition EpochEqual :: "TaskEpoch \<Rightarrow> TaskEpoch \<Rightarrow> bool" where
  "EpochEqual a b \<longleftrightarrow> te_source a = te_source b \<and> te_binding a = te_binding b"

definition Queued :: "nat \<Rightarrow> bool" where
  "Queued state \<longleftrightarrow> state = 2 \<or> state = 3"

definition SameSnapshot :: "TaskSnapshot \<Rightarrow> TaskSnapshot \<Rightarrow> bool" where
  "SameSnapshot a b \<longleftrightarrow> EqualTaskIdentity (ts_identity a) (ts_identity b) \<and> ts_state a = ts_state b \<and>
     ts_nativeCounter a = ts_nativeCounter b \<and> ts_builder a = ts_builder b"

definition i64_at :: "nat \<Rightarrow> byte list \<Rightarrow> int" where
  "i64_at off bs = (let n = u64_at off bs in if n < 2 ^ 63 then int n else int n - 2 ^ 64)"

section \<open>Reads of one slot\<close>

text \<open>The snapshot of a slot from its head, its parameters and the registry's pointer.\<close>

definition snapshot_of :: "nat \<Rightarrow> nat \<Rightarrow> nat \<Rightarrow> nat \<Rightarrow> nat \<Rightarrow> nat \<Rightarrow> nat \<Rightarrow> TaskSnapshot" where
  "snapshot_of index state ident component holder builder metadata =
    \<lparr>ts_identity = \<lparr>ti_slot = index, ti_id = ident, ti_holder = holder, ti_component = component,
       ti_metadata = metadata\<rparr>,
     ts_state = state, ts_nativeCounter = 0, ts_builder = builder, ts_schedule = no_schedule\<rparr>"

definition SlotRead :: "'w TaskAccess \<Rightarrow> TaskLayout \<Rightarrow> nat \<Rightarrow> ('w, TaskSnapshot option) prog" where
  "SlotRead access layout index = (case SlotAddress access layout index of
     None \<Rightarrow> State_Monad.return None
   | Some slot \<Rightarrow>
       optM (DataRead access slot 8 True) (\<lambda>header.
       optM (DataRead access (slot + 8) 8 True) (\<lambda>component.
       optM (DataRead access (slot + 0x38) 4 True) (\<lambda>holder.
       optM (DataRead access (slot + kBuilderOffset) 8 True) (\<lambda>builder.
       optM (ImageRead access (tl_registryRva layout) 8) (\<lambda>metadata.
         State_Monad.return (Some (snapshot_of index (u32_at 0 header) (u32_at 4 header)
           (le_nat component) (le_nat holder) (le_nat builder) (le_nat metadata)))))))))"

text \<open>The combined read of the authority fields, or the two required spans of it.\<close>

definition authority_fields :: "'w TaskAccess \<Rightarrow> nat \<Rightarrow> ('w, (byte list \<times> nat) option) prog" where
  "authority_fields access slot = do {
     combined \<leftarrow> DataRead access (slot + 0x38) 0x30 True;
     case combined of
       Some span \<Rightarrow> State_Monad.return (Some (slice 0 0x20 span, u64_at 0x28 span))
     | None \<Rightarrow>
         optM (DataRead access (slot + 0x38) 0x20 True) (\<lambda>parameters.
         optM (DataRead access (slot + 0x60) 8 True) (\<lambda>interval.
           State_Monad.return (Some (parameters, le_nat interval)))) }"

definition SlotAuthorityRead ::
  "'w TaskAccess \<Rightarrow> TaskLayout \<Rightarrow> nat \<Rightarrow> ('w, (TaskSnapshot \<times> SlotAuthority) option) prog" where
  "SlotAuthorityRead access layout index = (case SlotAddress access layout index of
     None \<Rightarrow> State_Monad.return None
   | Some slot \<Rightarrow>
       optM (DataRead access slot 0x10 True) (\<lambda>head.
       optM (authority_fields access slot) (\<lambda>(parameters, interval).
       optM (ImageRead access (tl_registryRva layout) 8) (\<lambda>metadata.
         State_Monad.return (Some
           (snapshot_of index (u32_at 0 head) (u32_at 4 head) (u64_at 8 head)
              (u32_at 0 parameters) (u64_at 8 parameters) (le_nat metadata),
            \<lparr>sa_callback0 = u64_at 0x10 parameters, sa_callback1 = u64_at 0x18 parameters,
             sa_interval = interval\<rparr>))))))"

definition ReadSchedule ::
  "'w TaskAccess \<Rightarrow> TaskLayout \<Rightarrow> TaskIdentity \<Rightarrow> ('w, TaskSchedule option) prog" where
  "ReadSchedule access layout identity = (case SlotAddress access layout (ti_slot identity) of
     None \<Rightarrow> State_Monad.return None
   | Some slot \<Rightarrow>
       if ti_metadata identity = 0 \<or> ti_metadata identity > u64_max - 0x20 then State_Monad.return None
       else
         optM (DataRead access (slot + 0x58) 0x20 True) (\<lambda>schedule.
         optM (DataRead access (ti_metadata identity + 8) 0x18 False) (\<lambda>metadata.
           State_Monad.return (Some (no_schedule
             \<lparr>sc_anchorBits := u64_at 0 schedule, sc_interval := u64_at 8 schedule,
              sc_errors := i32_at 0x10 schedule, sc_throttles := i32_at 0x14 schedule,
              sc_expedite := unat (schedule ! 0x18), sc_retryLimit := u16_at 2 metadata,
              sc_intervalOverride := i64_at 8 metadata, sc_retryOverride := i64_at 0x10 metadata\<rparr>)))))"

text \<open>The retry ladder of the supported live-default model, later rungs overriding earlier ones.\<close>

definition retry_ladder :: "TaskSchedule \<Rightarrow> ScheduleTier \<times> nat" where
  "retry_ladder schedule =
     (let rung = (Tier_RetryBase, 2000);
          rung = (if sc_throttles schedule > 5 \<or> sc_errors schedule \<ge> 3 then (Tier_Retry30s, 30000) else rung);
          rung = (if sc_errors schedule \<ge> 6 then (Tier_Retry60s, 60000) else rung);
          rung = (if sc_errors schedule \<ge> 9 then (Tier_Retry5m, 300000) else rung)
      in if sc_errors schedule \<ge> 12 then (Tier_Retry30m, 1800000) else rung)"

definition ScheduleDelay :: "nat \<Rightarrow> TaskSchedule \<Rightarrow> TaskSchedule" where
  "ScheduleDelay nativeState schedule =
     (if \<not> sc_valid schedule \<or> sc_interval schedule \<noteq> kInterval \<or> sc_retryLimit schedule \<noteq> 3 \<or>
         sc_intervalOverride schedule \<noteq> 0 \<or> sc_retryOverride schedule \<noteq> 0 then schedule
      else if nativeState = 2 then schedule\<lparr>sc_tier := Tier_OrdinaryPoll, sc_delayUnits := kInterval\<rparr>
      else if nativeState \<noteq> 3 \<or> sc_errors schedule < 0 \<or> sc_throttles schedule < 0 then schedule
      else schedule\<lparr>sc_tier := fst (retry_ladder schedule), sc_delayUnits := snd (retry_ladder schedule)\<rparr>)"

section \<open>One read pass\<close>

text \<open>The four globals, in the order selected, sentinel, counter, service.\<close>

definition read_globals :: "'w TaskAccess \<Rightarrow> TaskLayout \<Rightarrow> ('w, (nat \<times> nat \<times> nat \<times> nat) option) prog" where
  "read_globals access layout =
     optM (ImageRead access (tl_selectedIdRva layout) 4) (\<lambda>selected.
     optM (ImageRead access (tl_invalidIdRva layout) 4) (\<lambda>sentinel.
     optM (ImageRead access (tl_counterRva layout) 4) (\<lambda>counter.
     optM (ImageRead access (tl_serviceStateRva layout) 4) (\<lambda>service.
       State_Monad.return (Some (le_nat selected, le_nat sentinel, le_nat counter, le_nat service))))))"

definition globals_reason :: "TaskIdentity option \<Rightarrow> nat \<Rightarrow> nat \<times> nat \<times> nat \<times> nat \<Rightarrow> Reason" where
  "globals_reason bound minimumCounter = (\<lambda>(selected, sentinel, counter, service).
     if bound \<noteq> None \<and> (counter = 0 \<or> counter < minimumCounter \<or> selected > counter) then R_TaskReused
     else if sentinel \<noteq> 0 then R_TaskMismatch
     else if selected = 0 then R_TaskNotReady
     else if service \<noteq> 3 then R_Unregistered
     else if counter = 0 \<or> selected > counter then R_TaskReused
     else R_None)"

text \<open>The scan of the slots; \<open>found\<close> is the one match so far.\<close>

fun scan_slots ::
  "'w TaskAccess \<Rightarrow> TaskLayout \<Rightarrow> nat \<Rightarrow> nat list \<Rightarrow> (TaskSnapshot \<times> SlotAuthority) option \<Rightarrow>
   ('w, Reason + TaskSnapshot \<times> SlotAuthority) prog" where
  "scan_slots access layout selected [] found =
     State_Monad.return (case found of None \<Rightarrow> Inl R_TaskNotReady | Some task \<Rightarrow> Inr task)"
| "scan_slots access layout selected (index # rest) found = (case SlotAddress access layout index of
     None \<Rightarrow> State_Monad.return (Inl R_TaskMismatch)
   | Some slot \<Rightarrow> proceed (demand (DataRead access slot 8 True) R_TaskMismatch) (\<lambda>header.
       if u32_at 0 header = 0 \<or> u32_at 4 header \<noteq> selected then scan_slots access layout selected rest found
       else if found \<noteq> None then State_Monad.return (Inl R_TaskAmbiguous)
       else proceed (demand (SlotAuthorityRead access layout index) R_TaskMismatch) (\<lambda>(value, authority).
         if ts_state value \<noteq> u32_at 0 header \<or> ti_id (ts_identity value) \<noteq> u32_at 4 header
         then State_Monad.return (Inl R_TaskMismatch)
         else scan_slots access layout selected rest (Some (value, authority)))))"

definition select_task ::
  "'w TaskAccess \<Rightarrow> TaskLayout \<Rightarrow> TaskIdentity option \<Rightarrow> nat \<Rightarrow>
   ('w, Reason + TaskSnapshot \<times> SlotAuthority) prog" where
  "select_task access layout bound selected = (case bound of
     Some identity \<Rightarrow>
       if selected \<noteq> ti_id identity then State_Monad.return (Inl R_TaskMismatch)
       else proceed (demand (SlotAuthorityRead access layout (ti_slot identity)) R_TaskMismatch)
         (\<lambda>(value, authority). State_Monad.return
            (if ts_state value = 0 then Inl R_TaskNotReady
             else if ti_id (ts_identity value) \<noteq> selected then Inl R_TaskMismatch
             else Inr (value, authority)))
   | None \<Rightarrow> scan_slots access layout selected [0..<kTaskSlots] None)"

definition vtable_is :: "'w TaskAccess \<Rightarrow> nat \<Rightarrow> nat \<Rightarrow> ('w, bool) prog" where
  "vtable_is access metadata expected = do {
     vtable \<leftarrow> DataRead access metadata 8 False;
     State_Monad.return (map_option le_nat vtable = Some expected) }"

definition authority_clear :: "SlotAuthority \<Rightarrow> bool" where
  "authority_clear authority \<longleftrightarrow> sa_callback0 authority = 0 \<and> sa_callback1 authority = 0"

definition qualify_task ::
  "'w TaskAccess \<Rightarrow> TaskLayout \<Rightarrow> TaskSnapshot \<Rightarrow> SlotAuthority \<Rightarrow> ('w, Reason + unit) prog" where
  "qualify_task access layout value authority =
     proceed (require (pureM (2 \<le> ts_state value \<and> ts_state value \<le> 5)) R_TaskNotReady) (\<lambda>_.
     proceed (require (allM [pureM (ti_component (ts_identity value) \<noteq> 0),
         DataRange access (ti_component (ts_identity value)) 1 False False]) R_TaskMismatch) (\<lambda>_.
     proceed (require (pureM (ti_holder (ts_identity value) div 2 ^ 16 = kHolderType)) R_HolderMismatch) (\<lambda>_.
     proceed (require (pureM (ti_metadata (ts_identity value) \<noteq> 0)) R_TaskNotReady) (\<lambda>_.
     proceed (require (allM [pureM (and (ti_metadata (ts_identity value)) 7 = 0),
         vtable_is access (ti_metadata (ts_identity value)) (ta_hostBase access + tl_metadataVtableRva layout)])
       R_TaskMismatch) (\<lambda>_.
     require (pureM (authority_clear authority \<and> sa_interval authority = kInterval \<and> ts_builder value \<noteq> 0))
       R_TaskMismatch)))))"

text \<open>The independent reread of everything the pass relies on.\<close>

definition recheck_task ::
  "'w TaskAccess \<Rightarrow> ('w, unit) prog \<Rightarrow> TaskLayout \<Rightarrow> TaskIdentity option \<Rightarrow> nat \<Rightarrow>
   nat \<times> nat \<times> nat \<times> nat \<Rightarrow> TaskSnapshot \<Rightarrow> SlotAuthority \<Rightarrow> ('w, Reason + TaskSnapshot) prog" where
  "recheck_task access reset layout bound minimumCounter = (\<lambda>(selected, sentinel, counter, service) value authority. do {
     _ \<leftarrow> reset;
     proceed (demand (SlotAuthorityRead access layout (ti_slot (ts_identity value))) R_TaskMismatch)
       (\<lambda>(again, authorityAgain).
     proceed (demand (read_globals access layout) R_TaskMismatch)
       (\<lambda>(selectedAgain, sentinelAgain, counterAgain, serviceAgain).
     proceed (require (pureM (\<not> (bound \<noteq> None \<and> (counterAgain = 0 \<or> counterAgain < counter \<or>
         counterAgain < minimumCounter \<or> selectedAgain > counterAgain)))) R_TaskReused) (\<lambda>_.
     proceed (require (allM
         [pureM (authority_clear authorityAgain \<and> sa_interval authorityAgain = sa_interval authority),
          vtable_is access (ti_metadata (ts_identity value)) (ta_hostBase access + tl_metadataVtableRva layout),
          pureM (selectedAgain = selected \<and> sentinelAgain = sentinel \<and> counterAgain = counter \<and>
            serviceAgain = service \<and> EqualTaskIdentity (ts_identity value) (ts_identity again) \<and>
            ts_state value = ts_state again \<and> ts_builder value = ts_builder again),
          Owner access, Admit access]) R_TaskMismatch) (\<lambda>_.
     proceed (require (pureM (case bound of None \<Rightarrow> True
         | Some identity \<Rightarrow> EqualTaskIdentity (ts_identity value) identity)) R_TaskReused) (\<lambda>_.
     State_Monad.return (Inr again)))))) })"

text \<open>The schedule is an observation beside the authority: two equal reads, or none.\<close>

definition observe_schedule ::
  "'w TaskAccess \<Rightarrow> TaskLayout \<Rightarrow> TaskSchedule option \<Rightarrow> TaskSnapshot \<Rightarrow> TaskSnapshot \<Rightarrow> ('w, TaskSnapshot) prog" where
  "observe_schedule access layout before again value = (case before of
     None \<Rightarrow> State_Monad.return value
   | Some scheduleBefore \<Rightarrow> do {
       after \<leftarrow> ReadSchedule access layout (ts_identity again);
       State_Monad.return (case after of
           None \<Rightarrow> value
         | Some scheduleAfter \<Rightarrow>
             if EqualTaskSchedule scheduleBefore scheduleAfter
             then value\<lparr>ts_schedule := ScheduleDelay (ts_state value) (scheduleAfter\<lparr>sc_valid := True\<rparr>)\<rparr>
             else value) })"

text \<open>The pass over any access record; \<open>reset\<close> starts an independent observation.\<close>

definition read_pass ::
  "'w TaskAccess \<Rightarrow> ('w, unit) prog \<Rightarrow> TaskLayout \<Rightarrow> TaskIdentity option \<Rightarrow> nat \<Rightarrow> bool \<Rightarrow>
   ('w, Reason + TaskSnapshot) prog" where
  "read_pass access reset layout bound minimumCounter output =
     proceed (do { entry \<leftarrow> EntryReason access; pass entry }) (\<lambda>_.
     proceed (require (pureM (output \<and> LayoutValid access layout)) R_ProfileMismatch) (\<lambda>_.
     proceed (require (Admit access) R_LifecycleCrossing) (\<lambda>_.
     proceed (demand (read_globals access layout) R_TaskMismatch) (\<lambda>globals.
     proceed (pass (globals_reason bound minimumCounter globals)) (\<lambda>_.
     proceed (select_task access layout bound (fst globals)) (\<lambda>(value, authority).
     proceed (qualify_task access layout value authority) (\<lambda>_. do {
       before \<leftarrow> ReadSchedule access layout (ts_identity value);
       proceed (recheck_task access reset layout bound minimumCounter globals value authority) (\<lambda>again. do {
         value \<leftarrow> observe_schedule access layout before again value;
         proceed (require (allM [Owner access, Admit access]) R_LifecycleCrossing) (\<lambda>_.
         State_Monad.return (Inr (value\<lparr>ts_nativeCounter := fst (snd (snd globals))\<rparr>))) }) })))))))"

definition ReadTask ::
  "'w TaskAccess \<Rightarrow> TaskLayout \<Rightarrow> TaskIdentity option \<Rightarrow> nat \<Rightarrow> bool \<Rightarrow> ('w, Reason + TaskSnapshot) prog" where
  "ReadTask access layout bound minimumCounter output =
     with_scope (read_pass (scoped_access access) ScopeReset layout bound minimumCounter output)"

definition ReadSelectedTask :: "'w TaskAccess \<Rightarrow> TaskLayout \<Rightarrow> bool \<Rightarrow> ('w, Reason + TaskSnapshot) prog" where
  "ReadSelectedTask access layout output = ReadTask access layout None 0 output"

section \<open>The binding\<close>

datatype TaskPhase = Phase_Empty | Phase_Preparing | Phase_Armed | Phase_Retired | Phase_Inert

text \<open>All fields but \<open>lastError\<close>, which is the error cell the operations run over.\<close>

record TaskBinding =
  tb_phase :: TaskPhase
  tb_fault :: Reason
  tb_original :: nat
  tb_wrapper :: nat
  tb_epoch :: TaskEpoch
  tb_identity :: TaskIdentity
  tb_lastIdentity :: TaskIdentity
  tb_lastNativeCounter :: nat
  tb_lastBoundId :: nat
  tb_haveCounter :: bool
  tb_haveHistory :: bool
  tb_haveIdentity :: bool
  tb_continuingTask :: bool
  tb_inverseAttempted :: bool
  tb_stranded :: bool

definition no_identity :: TaskIdentity where
  "no_identity = \<lparr>ti_slot = 0, ti_id = 0, ti_holder = 0, ti_component = 0, ti_metadata = 0\<rparr>"

definition InitializeTaskBinding :: "nat \<Rightarrow> nat \<Rightarrow> ('w, Reason \<times> TaskBinding) prog" where
  "InitializeTaskBinding original wrapper = do {
     _ \<leftarrow> set_error 0;
     let state = \<lparr>tb_phase = Phase_Empty, tb_fault = R_None, tb_original = original, tb_wrapper = wrapper,
       tb_epoch = \<lparr>te_source = 0, te_binding = 0\<rparr>, tb_identity = no_identity, tb_lastIdentity = no_identity,
       tb_lastNativeCounter = 0, tb_lastBoundId = 0, tb_haveCounter = False, tb_haveHistory = False,
       tb_haveIdentity = False, tb_continuingTask = False, tb_inverseAttempted = False, tb_stranded = False\<rparr>;
     State_Monad.return
       (if original = 0 \<or> wrapper = 0 \<or> original = wrapper
        then (R_PreparationFailed, state\<lparr>tb_fault := R_PreparationFailed, tb_phase := Phase_Inert\<rparr>)
        else (R_None, state)) }"

text \<open>\<open>None\<close> refuses the snapshot.\<close>

definition Counter :: "TaskBinding \<Rightarrow> TaskSnapshot \<Rightarrow> TaskBinding option" where
  "Counter state snapshot =
     (if ts_nativeCounter snapshot = 0 \<or> ti_id (ts_identity snapshot) > ts_nativeCounter snapshot \<or>
         (tb_haveCounter state \<and> ts_nativeCounter snapshot < tb_lastNativeCounter state) then None
      else Some (state\<lparr>tb_haveCounter := True, tb_lastNativeCounter := ts_nativeCounter snapshot\<rparr>))"

text \<open>The verdict on a lifetime and the binding, whose counter may have moved either way.\<close>

definition History :: "TaskBinding \<Rightarrow> TaskSnapshot \<Rightarrow> bool \<times> TaskBinding" where
  "History state snapshot = (case Counter state snapshot of
     None \<Rightarrow> (False, state)
   | Some counted \<Rightarrow>
       (if \<not> tb_haveHistory state then True
        else if ti_id (ts_identity snapshot) = tb_lastBoundId state
        then tb_continuingTask state \<and> EqualTaskIdentity (ts_identity snapshot) (tb_lastIdentity state)
        else ti_id (ts_identity snapshot) > tb_lastBoundId state \<and>
          (\<not> tb_haveCounter state \<or> ti_id (ts_identity snapshot) > tb_lastNativeCounter state), counted))"

definition exchange :: "'w TaskAccess \<Rightarrow> nat \<Rightarrow> nat \<Rightarrow> nat \<Rightarrow> ('w, bool \<times> nat) prog" where
  "exchange access = the (ta_compareExchange access)"

definition keep_error :: "nat \<Rightarrow> ('w, unit) prog" where
  "keep_error failure = (if failure \<noteq> 0 then set_error failure else State_Monad.return ())"

definition builder_cell :: "'w TaskAccess \<Rightarrow> TaskLayout \<Rightarrow> TaskIdentity \<Rightarrow> nat option" where
  "builder_cell access layout identity =
     map_option (\<lambda>slot. slot + kBuilderOffset) (SlotAddress access layout (ti_slot identity))"

text \<open>The exchange that takes our pointer out again, and the one reread after it.\<close>

definition inverse_exchange :: "TaskBinding \<Rightarrow> 'w TaskAccess \<Rightarrow> nat \<Rightarrow> ('w, TaskBinding) prog" where
  "inverse_exchange state access cell = do {
     let state = state\<lparr>tb_inverseAttempted := True\<rparr>;
     _ \<leftarrow> exchange access cell (tb_wrapper state) (tb_original state);
     inverseError \<leftarrow> get_error;
     current \<leftarrow> DataRead access cell 8 True;
     _ \<leftarrow> keep_error inverseError;
     State_Monad.return (case current of None \<Rightarrow> state
       | Some current \<Rightarrow> state\<lparr>tb_stranded := le_nat current = tb_wrapper state\<rparr>) }"

definition Inverse :: "TaskBinding \<Rightarrow> 'w TaskAccess \<Rightarrow> TaskLayout \<Rightarrow> ('w, TaskBinding) prog" where
  "Inverse state access layout = do {
     let state = state\<lparr>tb_inverseAttempted := False, tb_stranded := tb_haveIdentity state\<rparr>;
     ok \<leftarrow> allM [pureM (tb_haveIdentity state), Owner access, pureM (ta_compareExchange access \<noteq> None)];
     if \<not> ok then State_Monad.return state
     else case builder_cell access layout (tb_identity state) of
       None \<Rightarrow> State_Monad.return state
     | Some cell \<Rightarrow> do {
         current \<leftarrow> DataRead access cell 8 True;
         case current of
           None \<Rightarrow> State_Monad.return state
         | Some current \<Rightarrow>
             if le_nat current \<noteq> tb_wrapper state then State_Monad.return (state\<lparr>tb_stranded := False\<rparr>)
             else do {
               ok \<leftarrow> allM [DataRange access cell 8 True True, Owner access];
               if \<not> ok then State_Monad.return state else inverse_exchange state access cell } } }"

definition latch_fault :: "TaskBinding \<Rightarrow> Reason \<Rightarrow> TaskBinding" where
  "latch_fault state reason =
     state\<lparr>tb_fault := (if tb_fault state = R_None then reason else tb_fault state), tb_phase := Phase_Inert\<rparr>"

definition Fault ::
  "TaskBinding \<Rightarrow> 'w TaskAccess \<Rightarrow> TaskLayout \<Rightarrow> Reason \<Rightarrow> bool \<Rightarrow> ('w, Reason \<times> TaskBinding) prog" where
  "Fault state access layout reason undo = do {
     failureError \<leftarrow> get_error;
     let state = latch_fault state reason;
     state \<leftarrow> (if undo then Inverse state access layout else State_Monad.return state);
     _ \<leftarrow> keep_error failureError;
     State_Monad.return (tb_fault state, state) }"

definition OriginalMatches :: "TaskBinding \<Rightarrow> 'w TaskAccess \<Rightarrow> TaskLayout \<Rightarrow> bool" where
  "OriginalMatches state access layout \<longleftrightarrow>
     Address access (tl_builderRva layout) 1 = Some (tb_original state) \<and>
     tb_wrapper state \<noteq> 0 \<and> tb_wrapper state \<noteq> tb_original state"

section \<open>The operations of the binding\<close>

text \<open>A reason, the binding after the call and the snapshot it gives, when it gives one.\<close>

type_synonym outcome = "Reason \<times> TaskBinding \<times> TaskSnapshot option"

definition stop :: "Reason \<Rightarrow> TaskBinding \<Rightarrow> ('w, outcome) prog" where
  "stop reason state = State_Monad.return (reason, state, None)"

definition faulted :: "('w, Reason \<times> TaskBinding) prog \<Rightarrow> ('w, outcome) prog" where
  "faulted m = do { r \<leftarrow> m; State_Monad.return (fst r, snd r, None) }"

text \<open>Armed publication always leaves these behind; a slot hint alone is no authority.\<close>

definition bound_history :: "TaskBinding \<Rightarrow> bool" where
  "bound_history state \<longleftrightarrow>
     tb_haveIdentity state \<and> tb_haveHistory state \<and> tb_haveCounter state \<and> \<not> tb_continuingTask state \<and>
     tb_lastNativeCounter state \<noteq> 0 \<and> tb_lastBoundId state \<noteq> 0 \<and>
     ti_id (tb_identity state) = tb_lastBoundId state \<and>
     EqualTaskIdentity (tb_identity state) (tb_lastIdentity state)"

definition ReadBoundTask ::
  "TaskBinding \<Rightarrow> 'w TaskAccess \<Rightarrow> TaskLayout \<Rightarrow> bool \<Rightarrow> ('w, outcome) prog" where
  "ReadBoundTask state access layout output = do {
     entry \<leftarrow> EntryReason access;
     if entry \<noteq> R_None then stop entry state
     else if tb_phase state = Phase_Inert then stop (tb_fault state) state
     else if tb_phase state \<noteq> Phase_Armed then stop R_TaskNotReady state
     else if \<not> output \<or> \<not> OriginalMatches state access layout then stop R_ProfileMismatch state
     else if \<not> bound_history state then stop R_TaskMismatch state
     else do {
       read \<leftarrow> ReadTask access layout (Some (tb_identity state)) (tb_lastNativeCounter state) True;
       case read of
         Inl reason \<Rightarrow>
           if reason = R_TaskReused then faulted (Fault state access layout reason True) else stop reason state
       | Inr current \<Rightarrow>
           if tb_phase state \<noteq> Phase_Armed \<or> \<not> tb_haveIdentity state \<or>
              \<not> EqualTaskIdentity (ts_identity current) (tb_identity state) then stop R_TaskMismatch state
           else (case Counter state current of
               None \<Rightarrow> faulted (Fault state access layout R_TaskReused True)
             | Some state \<Rightarrow> State_Monad.return (R_None, state, Some current)) } }"

text \<open>Publication after a successful exchange: the complete rescan, then the phase.\<close>

definition publish_binding ::
  "TaskBinding \<Rightarrow> 'w TaskAccess \<Rightarrow> TaskLayout \<Rightarrow> TaskSnapshot \<Rightarrow> ('w, outcome) prog" where
  "publish_binding state access layout before = do {
     let before = before\<lparr>ts_builder := tb_wrapper state\<rparr>;
     read \<leftarrow> ReadSelectedTask access layout True;
     case read of
       Inl _ \<Rightarrow> faulted (Fault state access layout R_PostcheckFailed True)
     | Inr after \<Rightarrow> do {
         ok \<leftarrow> allM [pureM (SameSnapshot before after \<and> Queued (ts_state after)), Owner access, Admit access];
         if \<not> ok then faulted (Fault state access layout R_PostcheckFailed True)
         else do {
           let state = state\<lparr>tb_lastIdentity := ts_identity after, tb_lastBoundId := ti_id (ts_identity after),
             tb_haveHistory := True, tb_continuingTask := False\<rparr>;
           if tb_phase state \<noteq> Phase_Preparing then faulted (Fault state access layout R_InstallFailed True)
           else State_Monad.return (R_None, state\<lparr>tb_phase := Phase_Armed\<rparr>, Some after) } } }"

definition install_exchange ::
  "TaskBinding \<Rightarrow> 'w TaskAccess \<Rightarrow> TaskLayout \<Rightarrow> nat \<Rightarrow> TaskSnapshot \<Rightarrow> ('w, outcome) prog" where
  "install_exchange state access layout cell before = do {
     ready \<leftarrow> allM [Owner access, Admit access];
     if \<not> ready then faulted (Fault state access layout R_InstallFailed True)
     else do {
       (ok, observed) \<leftarrow> exchange access cell (tb_original state) (tb_wrapper state);
       if \<not> ok \<or> observed \<noteq> tb_original state then faulted (Fault state access layout R_InstallFailed True)
       else publish_binding state access layout before } }"

text \<open>The checks between the first complete scan and the exchange.\<close>

definition install_selected ::
  "TaskBinding \<Rightarrow> 'w TaskAccess \<Rightarrow> TaskLayout \<Rightarrow> TaskEpoch \<Rightarrow> TaskSnapshot \<Rightarrow> ('w, outcome) prog" where
  "install_selected state access layout epoch before =
     (if \<not> Queued (ts_state before) then stop R_TaskNotReady state
      else if ts_builder before = tb_wrapper state then
        faulted (Fault (state\<lparr>tb_identity := ts_identity before, tb_haveIdentity := True\<rparr>) access layout
          R_StrandedWrapper True)
      else if ts_builder before \<noteq> tb_original state then stop R_BuilderChanged state
      else case History state before of
        (False, state) \<Rightarrow> faulted (Fault state access layout R_TaskReused True)
      | (True, state) \<Rightarrow>
          if tb_haveHistory state \<and> \<not> EqualTaskIdentity (ts_identity before) (tb_lastIdentity state) \<and>
             te_binding epoch \<le> te_binding (tb_epoch state)
          then faulted (Fault state access layout R_SourceLifetime True)
          else (case builder_cell access layout (ts_identity before) of
              None \<Rightarrow> stop R_WriteFault state
            | Some cell \<Rightarrow> do {
                writable \<leftarrow> DataRange access cell 8 True True;
                if \<not> writable then stop R_WriteFault state
                else do {
                  admitted \<leftarrow> Admit access;
                  if \<not> admitted then stop R_LifecycleCrossing state
                  else install_exchange (state\<lparr>tb_identity := ts_identity before, tb_epoch := epoch,
                    tb_haveIdentity := True, tb_inverseAttempted := False, tb_stranded := False,
                    tb_phase := Phase_Preparing\<rparr>) access layout cell before } }))"

definition InstallTaskBinding ::
  "TaskBinding \<Rightarrow> 'w TaskAccess \<Rightarrow> TaskLayout \<Rightarrow> TaskEpoch \<Rightarrow> ('w, outcome) prog" where
  "InstallTaskBinding state access layout epoch = do {
     entry \<leftarrow> EntryReason access;
     if entry \<noteq> R_None then stop entry state
     else if tb_phase state = Phase_Inert then stop (tb_fault state) state
     else if tb_phase state = Phase_Armed then stop R_TaskNotReady state
     else if tb_phase state = Phase_Preparing then faulted (Fault state access layout R_Reentry True)
     else if te_source epoch = 0 \<or> te_binding epoch = 0 \<or> \<not> LayoutValid access layout \<or>
       \<not> OriginalMatches state access layout \<or> ta_compareExchange access = None then stop R_ProfileMismatch state
     else if te_source epoch < te_source (tb_epoch state) \<or> te_binding epoch < te_binding (tb_epoch state)
     then faulted (Fault state access layout R_SourceLifetime True)
     else do {
       read \<leftarrow> ReadSelectedTask access layout True;
       case read of
         Inl reason \<Rightarrow>
           if reason = R_TaskReused then faulted (Fault state access layout reason True) else stop reason state
       | Inr before \<Rightarrow> install_selected state access layout epoch before } }"

text \<open>The fallback classification of a failed bound read; only a mismatch is reclassified.\<close>

definition classify_mismatch ::
  "TaskBinding \<Rightarrow> 'w TaskAccess \<Rightarrow> TaskLayout \<Rightarrow> Reason \<Rightarrow> ('w, outcome) prog" where
  "classify_mismatch state access layout reason =
     (if reason = R_TaskMismatch \<and> tb_phase state = Phase_Armed then do {
        classified \<leftarrow> ReadSelectedTask access layout True;
        if (case classified of
              Inl other \<Rightarrow> other = R_TaskReused
            | Inr changed \<Rightarrow> ts_nativeCounter changed < tb_lastNativeCounter state \<or>
                \<not> EqualTaskIdentity (ts_identity changed) (tb_identity state))
        then faulted (Fault state access layout R_TaskReused True)
        else stop reason state }
      else stop reason state)"

definition validate_bound ::
  "TaskBinding \<Rightarrow> 'w TaskAccess \<Rightarrow> TaskLayout \<Rightarrow> ('w, outcome) prog" where
  "validate_bound state access layout = do {
     (read, state, current) \<leftarrow> ReadBoundTask state access layout True;
     case current of
       None \<Rightarrow> classify_mismatch state access layout read
     | Some current \<Rightarrow>
         if \<not> EqualTaskIdentity (ts_identity current) (tb_identity state)
         then faulted (Fault state access layout R_TaskReused True)
         else if \<not> Queued (ts_state current) then stop R_TaskNotReady state
         else if ts_builder current \<noteq> tb_wrapper state
         then faulted (Fault state access layout R_BuilderChanged True)
         else State_Monad.return (R_None, state, Some current) }"

definition ValidateBuilderTask ::
  "TaskBinding \<Rightarrow> 'w TaskAccess \<Rightarrow> TaskLayout \<Rightarrow> TaskEpoch \<Rightarrow> nat \<Rightarrow> bool \<Rightarrow> ('w, outcome) prog" where
  "ValidateBuilderTask state access layout epoch borrowedHolder output = do {
     entry \<leftarrow> EntryReason access;
     if entry \<noteq> R_None then stop entry state
     else if tb_phase state = Phase_Inert then stop (tb_fault state) state
     else if tb_phase state \<noteq> Phase_Armed then stop R_TaskNotReady state
     else if \<not> EpochEqual epoch (tb_epoch state) then stop R_SourceLifetime state
     else if \<not> output \<or> \<not> OriginalMatches state access layout then stop R_ProfileMismatch state
     else do {
       admitted \<leftarrow> Admit access;
       if \<not> admitted then stop R_LifecycleCrossing state
       else do {
         holder \<leftarrow> local_error (DataRead access borrowedHolder 4 False);
         if map_option le_nat holder \<noteq> Some (ti_holder (tb_identity state)) then stop R_HolderMismatch state
         else validate_bound state access layout } } }"

section \<open>Retirement\<close>

text \<open>A visit without an identity in the pool: a continuing lifetime must still be there.\<close>

definition retire_idle :: "TaskBinding \<Rightarrow> 'w TaskAccess \<Rightarrow> TaskLayout \<Rightarrow> ('w, Reason \<times> TaskBinding) prog" where
  "retire_idle state access layout = do {
     state \<leftarrow> (if tb_continuingTask state then do {
         current \<leftarrow> SlotRead access layout (ti_slot (tb_lastIdentity state));
         State_Monad.return (case current of
             None \<Rightarrow> state\<lparr>tb_continuingTask := False\<rparr>
           | Some current \<Rightarrow>
               if ts_state current = 0 \<or> \<not> EqualTaskIdentity (ts_identity current) (tb_lastIdentity state) \<or>
                  ts_builder current \<noteq> tb_original state
               then state\<lparr>tb_continuingTask := False\<rparr> else state) }
       else State_Monad.return state);
     State_Monad.return (R_None, state\<lparr>tb_phase := Phase_Retired\<rparr>) }"

text \<open>The exchange of a healthy retirement with its reread of the slot.\<close>

definition retire_exchange ::
  "TaskBinding \<Rightarrow> 'w TaskAccess \<Rightarrow> TaskLayout \<Rightarrow> nat \<Rightarrow> TaskSnapshot \<Rightarrow> ('w, Reason \<times> TaskBinding) prog" where
  "retire_exchange state access layout cell current = do {
     let state = state\<lparr>tb_phase := Phase_Retired, tb_inverseAttempted := True\<rparr>;
     owner \<leftarrow> Owner access;
     (ok, observed) \<leftarrow> (if owner \<and> ta_compareExchange access \<noteq> None
        then exchange access cell (tb_wrapper state) (tb_original state)
        else State_Monad.return (False, 0));
     let ok = (ok \<and> observed = tb_wrapper state);
     mutationError \<leftarrow> get_error;
     after \<leftarrow> SlotRead access layout (ti_slot (tb_identity state));
     _ \<leftarrow> (if \<not> ok then keep_error mutationError else State_Monad.return ());
     let state = state\<lparr>tb_stranded := (case after of None \<Rightarrow> True | Some after \<Rightarrow> ts_builder after = tb_wrapper state)\<rparr>;
     settled \<leftarrow> allM [pureM (ok \<and> (case after of None \<Rightarrow> False | Some after \<Rightarrow>
         EqualTaskIdentity (ts_identity current) (ts_identity after) \<and> ts_state current = ts_state after \<and>
         ts_builder after = tb_original state)), Owner access];
     if \<not> settled then Fault state access layout R_PostcheckFailed False
     else State_Monad.return (R_None, state\<lparr>tb_haveIdentity := False, tb_continuingTask := True\<rparr>) }"

definition retire_bound :: "TaskBinding \<Rightarrow> 'w TaskAccess \<Rightarrow> TaskLayout \<Rightarrow> ('w, Reason \<times> TaskBinding) prog" where
  "retire_bound state access layout = do {
     current \<leftarrow> SlotRead access layout (ti_slot (tb_identity state));
     case current of
       None \<Rightarrow> Fault state access layout R_TaskMismatch True
     | Some current \<Rightarrow>
         if ts_builder current \<noteq> tb_wrapper state then
           (if ts_state current \<noteq> 0 \<and> ti_id (ts_identity current) = ti_id (tb_identity state)
            then Fault state access layout R_BuilderChanged True
            else State_Monad.return (R_None, state\<lparr>tb_haveIdentity := False, tb_continuingTask := False,
              tb_phase := Phase_Retired\<rparr>))
         else if \<not> EqualTaskIdentity (ts_identity current) (tb_identity state)
         then Fault state access layout R_StrandedWrapper True
         else if ts_state current = 4 \<or> ts_state current = 5 then State_Monad.return (R_TaskNotReady, state)
         else if \<not> Queued (ts_state current) then Fault state access layout R_TaskMismatch True
         else case builder_cell access layout (tb_identity state) of
             None \<Rightarrow> Fault state access layout R_WriteFault True
           | Some cell \<Rightarrow> do {
               writable \<leftarrow> DataRange access cell 8 True True;
               if \<not> writable then Fault state access layout R_WriteFault True
               else retire_exchange state access layout cell current } }"

definition RetireTaskBinding ::
  "TaskBinding \<Rightarrow> 'w TaskAccess \<Rightarrow> TaskLayout \<Rightarrow> Reason \<Rightarrow> ('w, Reason \<times> TaskBinding) prog" where
  "RetireTaskBinding state access layout fault = do {
     entry \<leftarrow> EntryReason access;
     if entry \<noteq> R_None then State_Monad.return (entry, state)
     else if tb_phase state = Phase_Inert then State_Monad.return (tb_fault state, state)
     else if fault \<noteq> R_None then Fault state access layout fault True
     else if \<not> tb_haveIdentity state then retire_idle state access layout
     else if \<not> OriginalMatches state access layout then Fault state access layout R_ProfileMismatch True
     else retire_bound state access layout }"

end
