(* ===== verification/TaskState.thy ===== *)
theory TaskState
  imports Task
begin

text \<open>
  What the fields of the task binding say after any sequence of calls
  (\<open>src/companion/steam_reporting_task.cpp\<close>), whatever the callbacks answer and the engine
  does in between: the phases between calls, the history an armed binding carries, and the
  order in which lifetimes are bound.
\<close>

section \<open>Results of the combinators\<close>

lemma yields_proceed:
  assumes "yields Q m" and "\<And>e. Q (Inl e) \<Longrightarrow> P (Inl e)" and "\<And>a. Q (Inr a) \<Longrightarrow> yields P (f a)"
  shows "yields P (proceed m f)"
  unfolding proceed_def
  by (rule yields_bind [OF assms(1)]) (auto intro: yields_return assms split: sum.splits)

lemma yields_optM:
  assumes "yields Q m" and "P None" and "\<And>a. Q (Some a) \<Longrightarrow> yields P (f a)"
  shows "yields P (optM m f)"
  unfolding optM_def
  by (rule yields_bind [OF assms(1)]) (auto intro: yields_return assms split: option.splits)

lemma yields_require: "P (Inr ()) \<Longrightarrow> P (Inl e) \<Longrightarrow> yields P (require m e)"
  unfolding require_def by (rule yields_bind [OF yields_True]) (simp add: yields_return)

lemma yields_require_pure: "(b \<Longrightarrow> P (Inr ())) \<Longrightarrow> (\<not> b \<Longrightarrow> P (Inl e)) \<Longrightarrow> yields P (require (pureM b) e)"
  by (simp add: require_def yields_def bind_def)

lemma yields_demand:
  "yields (\<lambda>r. case r of None \<Rightarrow> P (Inl e) | Some a \<Rightarrow> P (Inr a)) m \<Longrightarrow> yields P (demand m e)"
  unfolding demand_def yields_def bind_def by (auto split: prod.splits option.splits)
    (metis fst_conv option.distinct(1), metis fst_conv)

lemma yields_pass: "(r = R_None \<Longrightarrow> P (Inr ())) \<Longrightarrow> (r \<noteq> R_None \<Longrightarrow> P (Inl r)) \<Longrightarrow> yields P (pass r)"
  by (simp add: pass_def yields_return)

lemma yields_with_scope: "yields P m \<Longrightarrow> yields P (with_scope m)"
  by (auto simp: yields_def with_scope_def split: prod.splits) (metis fst_conv)

lemma yields_allM_pure: "yields (\<lambda>ok. ok \<longrightarrow> c) (allM (pureM c # ms))"
  by (simp add: yields_def bind_def)

section \<open>What a read pass gives\<close>

lemma observe_schedule_keeps:
  "yields (\<lambda>v. ts_identity v = ts_identity value \<and> ts_state v = ts_state value \<and> ts_builder v = ts_builder value)
     (observe_schedule access layout before again value)"
  unfolding observe_schedule_def
  by (cases before) (auto intro!: yields_return yields_bind [OF yields_True] split: option.splits)

lemma scan_slots_selected:
  assumes "\<And>v. found = Some v \<Longrightarrow> ti_id (ts_identity (fst v)) = selected"
  shows "yields (\<lambda>r. \<forall>v. r = Inr v \<longrightarrow> ti_id (ts_identity (fst v)) = selected)
    (scan_slots access layout selected indices found)"
  using assms
proof (induction access layout selected indices found rule: scan_slots.induct)
  case 1
  then show ?case by (auto intro!: yields_return split: option.splits)
next
  case (2 access layout selected index rest found)
  show ?case
    unfolding scan_slots.simps
    apply (intro yields_option yields_return yields_proceed [OF yields_True] yields_if yields_case_prod)
    using 2 by auto
qed

lemma select_task_selected:
  "yields (\<lambda>r. \<forall>v. r = Inr v \<longrightarrow> ti_id (ts_identity (fst v)) = selected) (select_task access layout bound selected)"
  unfolding select_task_def
  by (intro yields_option yields_if yields_return yields_proceed [OF yields_True] yields_case_prod scan_slots_selected)
    auto

definition issued :: "TaskSnapshot \<Rightarrow> bool" where
  "issued snapshot \<longleftrightarrow> ti_id (ts_identity snapshot) \<noteq> 0 \<and> ti_id (ts_identity snapshot) \<le> ts_nativeCounter snapshot"

lemma read_pass_issued:
  "yields (\<lambda>r. \<forall>v. r = Inr v \<longrightarrow> issued v) (read_pass access reset layout bound minimumCounter output)"
proof -
  have accepted: "fst g \<noteq> 0 \<and> fst g \<le> fst (snd (snd g))" if "globals_reason bound minimumCounter g = R_None" for g
    using that by (auto simp: globals_reason_def split: prod.splits if_splits)
  show ?thesis
    unfolding read_pass_def
    apply (rule yields_proceed [OF yields_True], simp)
    apply (rule yields_proceed [OF yields_True], simp)
    apply (rule yields_proceed [OF yields_True], simp)
    apply (rule yields_proceed [OF yields_True], simp)
    apply (rule yields_proceed [where Q = "\<lambda>r. case r of Inr _ \<Rightarrow> globals_reason bound minimumCounter _ = R_None | _ \<Rightarrow> True"])
      apply (rule yields_pass; simp)
     apply simp
    apply (rule yields_proceed [OF select_task_selected], simp)
    apply (rule yields_case_prod, rule yields_proceed [OF yields_True], simp, rule yields_bind [OF yields_True])
    apply (rule yields_proceed [OF yields_True], simp, rule yields_bind [OF observe_schedule_keeps])
    apply (rule yields_proceed [OF yields_True], simp, rule yields_return)
    by (auto simp: issued_def dest: accepted)
qed

section \<open>The invariant\<close>

text \<open>What the counters and identities of past lifetimes say.\<close>

definition history_ok :: "TaskBinding \<Rightarrow> bool" where
  "history_ok b \<longleftrightarrow>
     (if tb_haveHistory b
      then tb_haveCounter b \<and> 0 < tb_lastBoundId b \<and> tb_lastBoundId b \<le> tb_lastNativeCounter b \<and>
        ti_id (tb_lastIdentity b) = tb_lastBoundId b
      else tb_lastBoundId b = 0 \<and> \<not> tb_continuingTask b) \<and>
     (\<not> tb_haveCounter b \<longrightarrow> tb_lastNativeCounter b = 0)"

text \<open>
  Between calls no installation is pending, a fault is what makes a binding inert, an armed
  binding carries the history its reads ask for, and a binding that is neither armed nor
  inert claims no slot.
\<close>

definition task_inv :: "TaskBinding \<Rightarrow> bool" where
  "task_inv b \<longleftrightarrow> history_ok b \<and>
     (case tb_phase b of
        Phase_Preparing \<Rightarrow> False
      | Phase_Inert \<Rightarrow> tb_fault b \<noteq> R_None
      | Phase_Armed \<Rightarrow> tb_fault b = R_None \<and> bound_history b
      | _ \<Rightarrow> tb_fault b = R_None \<and> \<not> tb_haveIdentity b)"

text \<open>
  The order of a binding's states: its two pointers never change, its counters and epochs
  never go back, a new lifetime has a larger task number and a later binding epoch, and an
  inert binding stays as it is.
\<close>

definition grows :: "TaskBinding \<Rightarrow> TaskBinding \<Rightarrow> bool" where
  "grows b b' \<longleftrightarrow>
     tb_original b' = tb_original b \<and> tb_wrapper b' = tb_wrapper b \<and>
     te_source (tb_epoch b) \<le> te_source (tb_epoch b') \<and> te_binding (tb_epoch b) \<le> te_binding (tb_epoch b') \<and>
     tb_lastNativeCounter b \<le> tb_lastNativeCounter b' \<and>
     (tb_haveHistory b \<longrightarrow> tb_haveHistory b') \<and>
     (tb_haveHistory b \<and> tb_lastIdentity b' \<noteq> tb_lastIdentity b \<longrightarrow>
        ti_id (tb_lastIdentity b) < ti_id (tb_lastIdentity b') \<and> te_binding (tb_epoch b) < te_binding (tb_epoch b')) \<and>
     (tb_phase b = Phase_Inert \<longrightarrow> b' = b)"

lemma grows_refl: "grows b b"
  by (simp add: grows_def)

lemma grows_trans: "grows a b \<Longrightarrow> grows b c \<Longrightarrow> grows a c"
  unfolding grows_def by (cases "tb_lastIdentity b = tb_lastIdentity a") auto

definition good :: "TaskBinding \<Rightarrow> TaskBinding \<Rightarrow> bool" where
  "good b b' \<longleftrightarrow> task_inv b' \<and> grows b b'"

lemma good_refl: "task_inv b \<Longrightarrow> good b b"
  by (simp add: good_def grows_refl)

lemma good_trans: "good a b \<Longrightarrow> good b c \<Longrightarrow> good a c"
  unfolding good_def using grows_trans by blast

lemma identity_eq [simp]: "EqualTaskIdentity a b \<longleftrightarrow> a = b"
  by (cases a; cases b) (auto simp: EqualTaskIdentity_def)

section \<open>Faults\<close>

definition marked :: "TaskBinding \<Rightarrow> TaskBinding \<Rightarrow> bool" where
  "marked b b' \<longleftrightarrow> (\<exists>attempted stranded. b' = b\<lparr>tb_inverseAttempted := attempted, tb_stranded := stranded\<rparr>)"

lemma marked_refl: "marked b b"
  unfolding marked_def by (intro exI [of _ "tb_inverseAttempted b"] exI [of _ "tb_stranded b"]) simp

lemma marked_stranded: "marked b b' \<Longrightarrow> marked b (b'\<lparr>tb_stranded := s\<rparr>)"
  unfolding marked_def by (elim exE, hypsubst, rule exI, rule exI [of _ s]) simp

lemma marked_attempted: "marked b b' \<Longrightarrow> marked b (b'\<lparr>tb_inverseAttempted := s\<rparr>)"
  unfolding marked_def by (rule exI [of _ s], rule exI [of _ "tb_stranded b'"], elim exE, hypsubst) simp

lemmas marks = marked_refl marked_stranded marked_attempted

lemma inverse_exchange_marks: "marked b b' \<Longrightarrow> yields (marked b) (inverse_exchange b' access cell)"
  unfolding inverse_exchange_def Let_def
  by (intro yields_bind [OF yields_True] yields_return) (auto intro!: marks split: option.splits)

lemma Inverse_marks: "yields (marked b) (Inverse b access layout)"
  unfolding Inverse_def Let_def
  by (intro yields_bind [OF yields_True] yields_if yields_option yields_return inverse_exchange_marks)
    (intro marks)+

lemma Fault_result:
  "yields (\<lambda>r. fst r = tb_fault (snd r) \<and> marked (latch_fault b reason) (snd r)) (Fault b access layout reason undo)"
  unfolding Fault_def Let_def
  apply (rule yields_bind [OF yields_True], rule yields_bind [where Q = "marked (latch_fault b reason)"])
   apply (intro yields_if Inverse_marks yields_return marked_refl)
  by (intro yields_bind [OF yields_True] yields_return) simp

lemma faulted_result:
  "yields (\<lambda>(r, b', out). out = None \<and> marked (latch_fault b reason) b') (faulted (Fault b access layout reason undo))"
  unfolding faulted_def by (rule yields_bind [OF Fault_result]) (simp add: yields_return)

lemma fault_good:
  assumes "marked (latch_fault b' reason) b''" and "reason \<noteq> R_None" and "history_ok b'" and "grows b b'"
    and "tb_phase b \<noteq> Phase_Inert"
  shows "good b b''"
  using assms unfolding good_def task_inv_def marked_def latch_fault_def history_ok_def grows_def
  by (auto simp: bound_history_def split: if_splits)

section \<open>The operations\<close>

lemma ReadTask_issued:
  "yields (\<lambda>r. \<forall>v. r = Inr v \<longrightarrow> issued v) (ReadTask access layout bound minimumCounter output)"
  unfolding ReadTask_def by (rule yields_with_scope [OF read_pass_issued])

text \<open>What every operation promises of the outcome it returns.\<close>

definition kept :: "TaskBinding \<Rightarrow> outcome \<Rightarrow> bool" where
  "kept b = (\<lambda>(r, b', out). good b b' \<and> (out \<noteq> None \<longrightarrow> r = R_None \<and> tb_phase b' = Phase_Armed))"

lemma kept_stop: "good b b' \<Longrightarrow> yields (kept b) (stop r b')"
  by (simp add: stop_def yields_return kept_def)

lemma kept_done: "good b b' \<Longrightarrow> tb_phase b' = Phase_Armed \<Longrightarrow> yields (kept b) (State_Monad.return (R_None, b', out))"
  by (simp add: yields_return kept_def)

lemma kept_faulted:
  assumes "reason \<noteq> R_None" and "history_ok b'" and "grows b b'" and "tb_phase b \<noteq> Phase_Inert"
  shows "yields (kept b) (faulted (Fault b' access layout reason undo))"
  by (rule yields_conseq [OF faulted_result]) (auto simp: kept_def intro: fault_good [OF _ assms])

lemma good_Fault:
  assumes "reason \<noteq> R_None" and "history_ok b'" and "grows b b'" and "tb_phase b \<noteq> Phase_Inert"
  shows "yields (\<lambda>r. good b (snd r)) (Fault b' access layout reason undo)"
  by (rule yields_conseq [OF Fault_result]) (auto intro: fault_good [OF _ assms])

lemma inv_history: "task_inv b \<Longrightarrow> history_ok b"
  by (simp add: task_inv_def)

lemma good_history: "good b b' \<Longrightarrow> history_ok b' \<and> grows b b'"
  by (simp add: good_def inv_history)

lemma Counter_keeps:
  assumes "Counter b snapshot = Some b'" and "history_ok b" and "tb_phase b \<noteq> Phase_Inert"
  shows "history_ok b' \<and> grows b b'"
  using assms by (auto simp: Counter_def history_ok_def grows_def split: if_splits)

lemma Counter_good:
  assumes "Counter b snapshot = Some b'" and "task_inv b" and "tb_phase b \<noteq> Phase_Inert"
  shows "good b b'"
  using Counter_keeps [OF assms(1) inv_history [OF assms(2)] assms(3)] assms(1, 2)
  by (auto simp: Counter_def good_def task_inv_def bound_history_def split: if_splits TaskPhase.splits)

lemma Counter_phase: "Counter b snapshot = Some b' \<Longrightarrow> tb_phase b' = tb_phase b"
  by (auto simp: Counter_def split: if_splits)

lemma ReadBoundTask_kept:
  assumes "task_inv b"
  shows "yields (kept b) (ReadBoundTask b access layout output)"
  unfolding ReadBoundTask_def
proof (rule yields_bind [OF yields_True], intro yields_if kept_stop good_refl assms yields_bind [OF yields_True], goal_cases)
  case (1 entry read)
  then have p: "tb_phase b = Phase_Armed" "tb_phase b \<noteq> Phase_Inert" by simp_all
  show ?case
  proof (cases read)
    case (Inl reason)
    then show ?thesis
      by (auto intro!: kept_stop kept_faulted good_refl assms inv_history grows_refl p(2))
  next
    case (Inr current)
    show ?thesis
    proof (cases "Counter b current")
      case None
      with Inr show ?thesis
        by (auto intro!: kept_stop kept_faulted good_refl assms inv_history grows_refl p(2))
    next
      case (Some b')
      then have "good b b'" "tb_phase b' = Phase_Armed"
        using Counter_good [OF Some assms p(2)] Counter_phase [OF Some] p by simp_all
      with Inr Some show ?thesis
        by (auto intro!: kept_stop kept_done good_refl assms)
    qed
  qed
qed

lemma classify_mismatch_kept:
  assumes "good b b'" and "tb_phase b \<noteq> Phase_Inert"
  shows "yields (kept b) (classify_mismatch b' access layout reason)"
  unfolding classify_mismatch_def
  by (intro yields_if yields_bind [OF yields_True] kept_stop kept_faulted)
    (use assms good_history in \<open>auto simp: good_def\<close>)

lemma validate_bound_kept:
  assumes "task_inv b" and "tb_phase b \<noteq> Phase_Inert"
  shows "yields (kept b) (validate_bound b access layout)"
  unfolding validate_bound_def
  apply (rule yields_bind [OF ReadBoundTask_kept [OF assms(1)]])
  apply (intro yields_case_prod yields_option yields_if kept_stop kept_faulted classify_mismatch_kept yields_return)
  using assms(2) by (auto simp: kept_def dest: good_history)

lemma ValidateBuilderTask_kept:
  assumes "task_inv b"
  shows "yields (kept b) (ValidateBuilderTask b access layout epoch borrowedHolder output)"
  unfolding ValidateBuilderTask_def
  by (intro yields_bind [OF yields_True] yields_if kept_stop good_refl assms validate_bound_kept) simp

text \<open>
  What a snapshot admits: the binding an installation prepares for it, before the pointer is
  exchanged, keeps the order of lifetimes once it is published.
\<close>

definition admits :: "TaskBinding \<Rightarrow> TaskBinding \<Rightarrow> TaskSnapshot \<Rightarrow> bool" where
  "admits b p before \<longleftrightarrow>
     history_ok p \<and> grows b p \<and> tb_phase p = Phase_Preparing \<and> tb_fault p = R_None \<and>
     tb_haveIdentity p \<and> tb_identity p = ts_identity before \<and> tb_haveCounter p \<and>
     ts_nativeCounter before = tb_lastNativeCounter p \<and>
     (tb_haveHistory b \<longrightarrow> tb_lastIdentity b = ts_identity before \<or>
        ti_id (tb_lastIdentity b) < ti_id (ts_identity before) \<and> te_binding (tb_epoch b) < te_binding (tb_epoch p))"

definition published :: "TaskBinding \<Rightarrow> TaskSnapshot \<Rightarrow> TaskBinding" where
  "published p after = p\<lparr>tb_lastIdentity := ts_identity after, tb_lastBoundId := ti_id (ts_identity after),
     tb_haveHistory := True, tb_continuingTask := False, tb_phase := Phase_Armed\<rparr>"

lemma published_good:
  assumes "admits b p before" and "SameSnapshot (before\<lparr>ts_builder := w\<rparr>) after" and "issued after"
    and "tb_phase b \<noteq> Phase_Inert"
  shows "good b (published p after)"
  using assms
  by (auto simp: good_def admits_def published_def SameSnapshot_def issued_def task_inv_def history_ok_def grows_def
      bound_history_def)

lemma publish_binding_kept:
  assumes "admits b p before" and "tb_phase b \<noteq> Phase_Inert"
  shows "yields (kept b) (publish_binding p access layout before)"
proof -
  have p: "history_ok p" "grows b p" "tb_phase p = Phase_Preparing" using assms(1) by (simp_all add: admits_def)
  have fin: "yields (kept b) (State_Monad.return (R_None, published p after, Some after))"
    if "issued after" "SameSnapshot (before\<lparr>ts_builder := tb_wrapper p\<rparr>) after" for after
    by (intro kept_done published_good [OF assms(1) that(2,1) assms(2)]) (simp add: published_def)
  have first: "yields (\<lambda>r. \<forall>v. r = Inr v \<longrightarrow> issued v) (ReadSelectedTask access layout True)"
    unfolding ReadSelectedTask_def by (rule ReadTask_issued)
  note fault = kept_faulted [OF _ p(1,2) assms(2)]
  show ?thesis
    unfolding publish_binding_def Let_def
  proof (rule yields_bind [OF first], goal_cases)
    case (1 read)
    show ?case
    proof (cases read)
      case (Inr after)
      then have i: "issued after" using 1 by simp
      show ?thesis
        unfolding Inr sum.case
        by (rule yields_bind [OF yields_allM_pure], rule yields_if, rule fault, simp)
          (use p(3) fin [OF i] in \<open>simp add: published_def Let_def\<close>)
    qed (simp add: fault)
  qed
qed

lemma install_exchange_kept:
  assumes "admits b p before" and "tb_phase b \<noteq> Phase_Inert"
  shows "yields (kept b) (install_exchange p access layout cell before)"
proof -
  have p: "history_ok p" "grows b p" using assms(1) by (simp_all add: admits_def)
  show ?thesis
    unfolding install_exchange_def
    by (intro yields_bind [OF yields_True] yields_if yields_case_prod kept_faulted [OF _ p assms(2)]
        publish_binding_kept [OF assms]) simp_all
qed

lemma History_counts:
  assumes "History b snapshot = (v, b')" and "task_inv b" and "tb_phase b \<noteq> Phase_Inert"
  shows "good b b' \<and> (v \<longrightarrow> Counter b snapshot = Some b' \<and>
    (tb_haveHistory b \<longrightarrow> ts_identity snapshot = tb_lastIdentity b \<or> tb_lastBoundId b < ti_id (ts_identity snapshot)))"
  using assms Counter_good [OF _ assms(2,3), of snapshot] good_refl [OF assms(2)]
  by (auto simp: History_def split: option.splits if_splits)

lemma install_selected_kept:
  assumes "task_inv b" and "tb_phase b = Phase_Empty \<or> tb_phase b = Phase_Retired" and "te_source (tb_epoch b) \<le> te_source epoch"
    and "te_binding (tb_epoch b) \<le> te_binding epoch"
  shows "yields (kept b) (install_selected b access layout epoch before)"
proof -
  have ph: "tb_phase b \<noteq> Phase_Inert" using assms(2) by auto
  obtain v b' where h: "History b before = (v, b')" by fastforce
  note H = History_counts [OF h assms(1) ph]
  have g: "history_ok b'" "grows b b'" using H good_history by blast+
  have adm: "admits b (b'\<lparr>tb_identity := ts_identity before, tb_epoch := epoch, tb_haveIdentity := True,
      tb_inverseAttempted := False, tb_stranded := False, tb_phase := Phase_Preparing\<rparr>) before"
    if "v" "\<not> (tb_haveHistory b' \<and> ts_identity before \<noteq> tb_lastIdentity b' \<and> te_binding epoch \<le> te_binding (tb_epoch b'))"
    using that H assms ph
    by (auto simp: admits_def Counter_def history_ok_def grows_def task_inv_def split: if_splits TaskPhase.splits)
  have r: "grows b (b\<lparr>tb_identity := i, tb_haveIdentity := True\<rparr>)"
    "history_ok (b\<lparr>tb_identity := i, tb_haveIdentity := True\<rparr>)" for i
    using ph inv_history [OF assms(1)] by (simp_all add: grows_def history_ok_def)
  show ?thesis
    unfolding install_selected_def h prod.case
    by (cases v; simp only: bool.case;
        intro yields_if yields_option yields_bind [OF yields_True] kept_stop good_refl assms(1) conjunct1 [OF H]
          kept_faulted [OF _ r(2) r(1) ph] kept_faulted [OF _ g ph] install_exchange_kept [OF adm ph]; simp)
qed

lemma InstallTaskBinding_kept:
  assumes inv: "task_inv b"
  shows "yields (kept b) (InstallTaskBinding b access layout epoch)"
  unfolding InstallTaskBinding_def
proof (rule yields_bind [OF yields_True], intro yields_if kept_stop good_refl inv
    kept_faulted [OF _ inv_history [OF inv] grows_refl] yields_bind [OF yields_True], goal_cases)
  case (5 entry read)
  then have ph: "tb_phase b = Phase_Empty \<or> tb_phase b = Phase_Retired" "tb_phase b \<noteq> Phase_Inert"
    by (cases "tb_phase b"; simp)+
  from 5 show ?case
    by (cases read) (auto intro!: kept_stop good_refl inv kept_faulted [OF _ inv_history [OF inv] grows_refl ph(2)]
      install_selected_kept [OF inv ph(1)])
qed simp_all

lemma either_state: "(case x of None \<Rightarrow> u | Some c \<Rightarrow> if p c then u else b) = b \<or>
    (case x of None \<Rightarrow> u | Some c \<Rightarrow> if p c then u else b) = u"
  by (auto split: option.splits)

lemma retire_idle_good:
  assumes "task_inv b" and "tb_phase b \<noteq> Phase_Inert" and "\<not> tb_haveIdentity b"
  shows "yields (\<lambda>r. good b (snd r)) (retire_idle b access layout)"
  unfolding retire_idle_def
proof (rule yields_bind [where Q = "\<lambda>b'. b' = b \<or> b' = b\<lparr>tb_continuingTask := False\<rparr>"], goal_cases)
  case 1
  show ?case by (intro yields_if yields_bind [OF yields_True] yields_return either_state) (rule disjI1, rule refl)
next
  case (2 b')
  have b: "history_ok b" "tb_fault b = R_None"
    using assms by (auto simp: task_inv_def bound_history_def split: TaskPhase.splits)
  have "good b (b\<lparr>tb_phase := Phase_Retired\<rparr>)"
    "good b (b\<lparr>tb_continuingTask := False, tb_phase := Phase_Retired\<rparr>)"
    using assms(2,3) b by (simp_all add: good_def task_inv_def history_ok_def grows_def split: if_splits)
  with 2 show ?case by (elim disjE) (simp_all add: yields_return)
qed

lemma retire_exchange_good:
  assumes "task_inv b" and "tb_phase b = Phase_Armed"
  shows "yields (\<lambda>r. good b (snd r)) (retire_exchange b access layout cell current)"
proof -
  have "history_ok (b\<lparr>tb_phase := Phase_Retired, tb_inverseAttempted := True, tb_stranded := s\<rparr>) \<and>
    grows b (b\<lparr>tb_phase := Phase_Retired, tb_inverseAttempted := True, tb_stranded := s\<rparr>)" for s
    using assms by (auto simp: task_inv_def history_ok_def grows_def split: if_splits)
  moreover have "good b (b\<lparr>tb_phase := Phase_Retired, tb_inverseAttempted := True, tb_stranded := s,
      tb_haveIdentity := False, tb_continuingTask := True\<rparr>)" for s
    using assms by (auto simp: good_def task_inv_def history_ok_def grows_def bound_history_def split: if_splits)
  ultimately show ?thesis
    unfolding retire_exchange_def Let_def using assms(2)
    by (intro yields_bind [OF yields_True] yields_case_prod yields_if good_Fault yields_return) simp_all
qed

lemma retire_bound_good:
  assumes inv: "task_inv b" and armed: "tb_phase b = Phase_Armed"
  shows "yields (\<lambda>r. good b (snd r)) (retire_bound b access layout)"
proof -
  have ph: "tb_phase b \<noteq> Phase_Inert" using armed by simp
  have gone: "good b (b\<lparr>tb_haveIdentity := False, tb_continuingTask := False, tb_phase := Phase_Retired\<rparr>)"
    using inv armed by (auto simp: good_def task_inv_def history_ok_def grows_def bound_history_def split: if_splits)
  show ?thesis
    unfolding retire_bound_def
    by (intro yields_bind [OF yields_True] yields_option yields_if retire_exchange_good inv armed
        good_Fault [OF _ inv_history [OF inv] grows_refl ph] yields_return)
      (simp_all add: gone good_refl inv)
qed

lemma RetireTaskBinding_good:
  assumes inv: "task_inv b"
  shows "yields (\<lambda>r. good b (snd r)) (RetireTaskBinding b access layout fault)"
  unfolding RetireTaskBinding_def
proof (rule yields_bind [OF yields_True], intro yields_if yields_return good_Fault [OF _ inv_history [OF inv] grows_refl]
    retire_idle_good [OF inv] retire_bound_good [OF inv])
qed (use inv in \<open>auto simp: task_inv_def good_refl split: TaskPhase.splits\<close>)

section \<open>Any sequence of calls\<close>

text \<open>
  The calls the runtime makes on one binding, each with the access record and layout it
  passes, and whatever the engine and the other threads do to the world in between.
\<close>

datatype 'w TaskCall =
    Call_ReadBound "'w TaskAccess" TaskLayout bool
  | Call_Install "'w TaskAccess" TaskLayout TaskEpoch
  | Call_Validate "'w TaskAccess" TaskLayout TaskEpoch nat bool
  | Call_Retire "'w TaskAccess" TaskLayout Reason
  | Call_World "'w \<Rightarrow> 'w"

type_synonym 'w task_state = "TaskBinding \<times> 'w \<times> nat"

definition run_call :: "('a \<Rightarrow> TaskBinding) \<Rightarrow> ('w, 'a) prog \<Rightarrow> 'w \<times> nat \<Rightarrow> 'w task_state" where
  "run_call binding m s = (case run_state m s of (a, s) \<Rightarrow> (binding a, s))"

fun task_call :: "'w task_state \<Rightarrow> 'w TaskCall \<Rightarrow> 'w task_state" where
  "task_call (b, s) (Call_ReadBound access layout output) =
     run_call (fst \<circ> snd) (ReadBoundTask b access layout output) s"
| "task_call (b, s) (Call_Install access layout epoch) =
     run_call (fst \<circ> snd) (InstallTaskBinding b access layout epoch) s"
| "task_call (b, s) (Call_Validate access layout epoch holder output) =
     run_call (fst \<circ> snd) (ValidateBuilderTask b access layout epoch holder output) s"
| "task_call (b, s) (Call_Retire access layout fault) =
     run_call snd (RetireTaskBinding b access layout fault) s"
| "task_call (b, s) (Call_World f) = (b, (f (fst s), snd s))"

lemma run_call_yields: "yields (\<lambda>a. P (binding a)) m \<Longrightarrow> P (fst (run_call binding m s))"
  unfolding run_call_def yields_def by (cases "run_state m s") (metis case_prod_conv fst_conv)

lemma kept_good: "yields (kept b) m \<Longrightarrow> yields (\<lambda>a. good b ((fst \<circ> snd) a)) m"
  by (erule yields_conseq) (auto simp: kept_def)

lemma task_call_good: "task_inv (fst s) \<Longrightarrow> good (fst s) (fst (task_call s call))"
proof (induction s call rule: task_call.induct)
  case (5 b s f)
  then show ?case by (simp add: good_refl)
qed (simp_all only: task_call.simps fst_conv run_call_yields kept_good ReadBoundTask_kept InstallTaskBinding_kept
    ValidateBuilderTask_kept RetireTaskBinding_good)

interpretation task_calls: machine task_call "\<lambda>s. task_inv (fst s)" "\<lambda>_. True"
proof
  fix s :: "'w task_state" and call
  assume "task_inv (fst s)"
  then show "task_inv (fst (task_call s call))" using task_call_good [of s call] by (simp add: good_def)
qed

lemma Initialize_inv: "task_inv (snd (fst (run_state (InitializeTaskBinding original wrapper) s)))"
  by (simp add: InitializeTaskBinding_def Let_def bind_def set_error_def task_inv_def history_ok_def split: prod.splits)

lemma task_call_grows: "task_inv (fst s) \<Longrightarrow> grows b (fst s) \<Longrightarrow> grows b (fst (task_call s call))"
  using task_call_good [of s call] grows_trans unfolding good_def by blast

text \<open>
  C4: from the binding \<open>InitializeTaskBinding\<close> makes, after any sequence of reads,
  installations, validations, retirements and moves of the world, no installation is pending,
  an armed binding carries the whole history its slot reads rely on, and an unarmed healthy
  one claims no slot; and whatever calls follow, the two pointers stay, counters and epochs
  never go back, a new lifetime has a larger task number and a later epoch, and an inert
  binding never changes again.
\<close>

theorem task_binding_in_order:
  "let start = run_call snd (InitializeTaskBinding original wrapper) (w, e);
       s = foldl task_call start calls; t = foldl task_call s later
   in task_inv (fst s) \<and> grows (fst s) (fst t)"
proof -
  define start where "start = run_call snd (InitializeTaskBinding original wrapper) (w, e)"
  have "task_inv (fst start)"
    using Initialize_inv [of original wrapper "(w, e)"] unfolding start_def run_call_def
    by (cases "run_state (InitializeTaskBinding original wrapper) (w, e)") simp
  then have s: "task_inv (fst (foldl task_call start calls))" by (intro task_calls.inv_run) (simp_all add: list_all_iff)
  have "grows (fst (foldl task_call start calls)) (fst (foldl task_call (foldl task_call start calls) later))"
    by (rule task_calls.run_keeps [OF _ s, where P = "\<lambda>s. grows b (fst s)" for b])
      (simp_all add: task_call_grows list_all_iff grows_refl)
  with s show ?thesis by (simp add: start_def Let_def)
qed

text \<open>The ladder of retry delays never shortens when errors or throttles grow.\<close>

lemma retry_ladder_monotone:
  "sc_errors a \<le> sc_errors b \<Longrightarrow> sc_throttles a \<le> sc_throttles b \<Longrightarrow> snd (retry_ladder a) \<le> snd (retry_ladder b)"
  by (simp add: retry_ladder_def Let_def)

end
