(* ===== verification/TaskMemory.thy ===== *)
theory TaskMemory
  imports TaskState
begin

text \<open>
  The task binding over memory (\<open>src/companion/steam_reporting_task.cpp\<close>): what a read pass
  shows of the engine's pool, and what the exchanges of the binding do to it, when the memory
  operations behave as documented and the access callbacks leave memory alone.  The only
  bytes the binding ever changes are those of one builder cell, and it only ever swaps its
  own wrapper with the original function there.
\<close>

section \<open>Steady programs that stop early\<close>

lemma steady_proceed:
  assumes "steady wok obs v Q m" and "\<And>e. Q (Inl e) \<Longrightarrow> F (Inl e)" and "\<And>a. Q (Inr a) \<Longrightarrow> steady wok obs v F (f a)"
  shows "steady wok obs v F (proceed m f)"
  unfolding proceed_def
  by (rule steady_bind [OF assms(1)]) (auto intro: steady_return assms split: sum.splits)

lemma steady_optM:
  assumes "steady wok obs v Q m" and "F None" and "\<And>a. Q (Some a) \<Longrightarrow> steady wok obs v F (f a)"
  shows "steady wok obs v F (optM m f)"
  unfolding optM_def
  by (rule steady_bind [OF assms(1)]) (auto intro: steady_return assms split: option.splits)

lemma steady_require:
  assumes "steady wok obs v (\<lambda>b. b \<longrightarrow> A) m"
  shows "steady wok obs v (\<lambda>r. \<forall>u. r = Inr u \<longrightarrow> A) (require m e)"
  unfolding require_def by (rule steady_bind [OF assms]) (simp add: steady_return)

lemma steady_allM_guard:
  assumes "steady wok obs v (\<lambda>b. b \<longrightarrow> B) m"
  shows "steady wok obs v (\<lambda>b. b \<longrightarrow> A \<and> B) (allM [pureM A, m])"
  unfolding allM.simps
  by (intro steady_bind [OF steady_pure_eq] steady_if steady_bind [OF assms] steady_return) auto

lemma steady_require_any: "steady wok obs v (\<lambda>_. True) m \<Longrightarrow> steady wok obs v (\<lambda>_. True) (require m e)"
  unfolding require_def by (rule steady_bind) (simp_all add: steady_return)

lemma steady_require_pure: "steady wok obs v (\<lambda>r. \<forall>u. r = Inr u \<longrightarrow> A) (require (pureM A) e)"
  by (rule steady_require) (simp add: steady_pureM)

lemma steady_demand:
  assumes "steady wok obs v (\<lambda>r. \<forall>a. r = Some a \<longrightarrow> A a) m"
  shows "steady wok obs v (\<lambda>r. \<forall>a. r = Inr a \<longrightarrow> A a) (demand m e)"
  unfolding demand_def by (rule steady_bind [OF assms]) (auto intro: steady_return split: option.splits)

lemma steady_pass: "steady wok obs v (\<lambda>r. \<forall>u. r = Inr u \<longrightarrow> reason = R_None) (pass reason)"
  by (simp add: pass_def steady_return)

lemma steady_with_scope:
  assumes "steady wok' obs' v F m" and "\<And>w. wok w \<Longrightarrow> wok' (w, [])" and "\<And>w. obs' (w, []) = obs w"
    and "\<And>w rs. wok' (w, rs) \<Longrightarrow> wok w" and "\<And>w rs. obs' (w, rs) = obs w"
  shows "steady wok obs v F (with_scope m)"
proof (rule steadyI)
  fix w e a w' e'
  assume w: "wok w" "obs w = v" and r: "run_state (with_scope m) (w, e) = (a, (w', e'))"
  obtain b w1 rs e1 where m: "run_state m ((w, []), 0) = (b, ((w1, rs), e1))" by (metis prod.exhaust)
  then have "w1 = w'" "b = a" using r by (simp_all add: with_scope_def)
  then show "wok w' \<and> obs w' = v \<and> F a"
    using steadyD [OF assms(1) assms(2) _ m] w assms(3-5) by auto
qed

section \<open>The pool as its bytes show it\<close>

definition field :: "(nat \<Rightarrow> byte) \<Rightarrow> nat \<Rightarrow> nat \<Rightarrow> nat" where
  "field c a n = le_nat (bytes_at c a n)"

definition slot_at :: "nat \<Rightarrow> TaskLayout \<Rightarrow> nat \<Rightarrow> nat" where
  "slot_at base layout index = base + (tl_poolRva layout + index * kStride) mod 2 ^ 32"

definition cell_at :: "nat \<Rightarrow> TaskLayout \<Rightarrow> nat \<Rightarrow> nat" where
  "cell_at base layout index = slot_at base layout index + kBuilderOffset"

definition slot_task :: "(nat \<Rightarrow> byte) \<Rightarrow> nat \<Rightarrow> TaskLayout \<Rightarrow> nat \<Rightarrow> TaskSnapshot" where
  "slot_task c base layout index = (let s = slot_at base layout index in
     snapshot_of index (field c s 4) (field c (s + 4) 4) (field c (s + 8) 8) (field c (s + 0x38) 4)
       (field c (s + 0x40) 8) (field c (base + tl_registryRva layout) 8))"

definition slot_authority :: "(nat \<Rightarrow> byte) \<Rightarrow> nat \<Rightarrow> TaskLayout \<Rightarrow> nat \<Rightarrow> SlotAuthority" where
  "slot_authority c base layout index = (let s = slot_at base layout index in
     \<lparr>sa_callback0 = field c (s + 0x48) 8, sa_callback1 = field c (s + 0x50) 8, sa_interval = field c (s + 0x60) 8\<rparr>)"

lemma slice_bytes_at: "off + k \<le> n \<Longrightarrow> slice off k (bytes_at c a n) = bytes_at c (a + off) k"
  by (rule nth_equalityI) (simp_all add: slice_def bytes_at_def add.assoc)

lemma slice_bytes_at_field:
  "off + 4 \<le> n \<Longrightarrow> u32_at off (bytes_at c a n) = field c (a + off) 4"
  "off + 8 \<le> n \<Longrightarrow> u64_at off (bytes_at c a n) = field c (a + off) 8"
  by (simp_all add: u32_at_def u64_at_def slice_bytes_at field_def)

text \<open>A slot in use by the task of a number.\<close>

definition matches :: "(nat \<Rightarrow> byte) \<Rightarrow> nat \<Rightarrow> TaskLayout \<Rightarrow> nat \<Rightarrow> nat \<Rightarrow> bool" where
  "matches c base layout ident index \<longleftrightarrow>
     field c (slot_at base layout index) 4 \<noteq> 0 \<and> field c (slot_at base layout index + 4) 4 = ident"

text \<open>
  What the pool shows of a task that may be bound: the fields of its slot, a live state, the
  holder and metadata of the right types, no callbacks of its own and the stock interval;
  and the task the globals select, of a number the counter has issued.
\<close>

definition bindable :: "(nat \<Rightarrow> byte) \<Rightarrow> nat \<Rightarrow> TaskLayout \<Rightarrow> TaskSnapshot \<Rightarrow> bool" where
  "bindable c base layout s \<longleftrightarrow>
     (let i = ts_identity s; t = slot_task c base layout (ti_slot i); a = slot_authority c base layout (ti_slot i) in
      ti_slot i < kTaskSlots \<and> i = ts_identity t \<and> ts_state s = ts_state t \<and> ts_builder s = ts_builder t \<and>
      2 \<le> ts_state s \<and> ts_state s \<le> 5 \<and> ti_component i \<noteq> 0 \<and> ti_holder i div 2 ^ 16 = kHolderType \<and>
      ti_metadata i \<noteq> 0 \<and> field c (ti_metadata i) 8 = base + tl_metadataVtableRva layout \<and>
      authority_clear a \<and> sa_interval a = kInterval \<and> ts_builder s \<noteq> 0)"

definition selected_by :: "(nat \<Rightarrow> byte) \<Rightarrow> nat \<Rightarrow> TaskLayout \<Rightarrow> TaskSnapshot \<Rightarrow> bool" where
  "selected_by c base layout s \<longleftrightarrow>
     field c (base + tl_selectedIdRva layout) 4 = ti_id (ts_identity s) \<and>
     field c (base + tl_invalidIdRva layout) 4 = 0 \<and>
     field c (base + tl_counterRva layout) 4 = ts_nativeCounter s \<and>
     field c (base + tl_serviceStateRva layout) 4 = 3 \<and>
     ti_id (ts_identity s) \<noteq> 0 \<and> ti_id (ts_identity s) \<le> ts_nativeCounter s"

text \<open>A page the guarded reads accept.\<close>

definition page_ok :: "nat \<Rightarrow> bool \<Rightarrow> bool \<Rightarrow> attributes \<Rightarrow> bool" where
  "page_ok base inImage writable = (\<lambda>(allocation, state, type, protection).
     state = MEM_COMMIT \<and> protection \<in> {PAGE_READONLY, PAGE_READWRITE, PAGE_WRITECOPY} \<and>
     (writable \<longrightarrow> protection = PAGE_READWRITE) \<and> (inImage \<longrightarrow> type = MEM_IMAGE \<and> allocation = base))"

definition pages_ok :: "(nat \<Rightarrow> attributes) \<Rightarrow> nat \<Rightarrow> bool \<Rightarrow> bool \<Rightarrow> nat \<Rightarrow> nat \<Rightarrow> bool" where
  "pages_ok pg base inImage writable lo hi \<longleftrightarrow> (\<forall>x. lo \<le> x \<and> x < hi \<longrightarrow> page_ok base inImage writable (pg x))"

lemma data_region_pages:
  assumes "data_region_ok access a inImage writable r" and "describes pg r"
  shows "a < mr_base r + mr_size r \<and> pages_ok pg (ta_hostBase access) inImage writable a (mr_base r + mr_size r)"
  using assms by (auto simp: data_region_ok_def describes_def pages_ok_def page_ok_def region_attributes_def)

lemma pages_ok_join:
  "pages_ok pg base i wr lo mid \<Longrightarrow> pages_ok pg base i wr mid hi \<Longrightarrow> pages_ok pg base i wr lo hi"
  unfolding pages_ok_def by (meson not_less)

lemma pages_ok_mono: "pages_ok pg base i wr lo hi \<Longrightarrow> hi' \<le> hi \<Longrightarrow> pages_ok pg base i wr lo hi'"
  unfolding pages_ok_def by (meson less_le_trans)

section \<open>Reads under access callbacks\<close>

locale access_reader = memory_provider "ta_memory access" wok content page
  for access :: "'w TaskAccess" and wok content page +
  assumes question_frame: "Some f \<in> {ta_safeOwner access, ta_admission access, ta_ownerThread access} \<Longrightarrow>
    wok w \<Longrightarrow> f w = (b, w') \<Longrightarrow> wok w' \<and> content w' = content w \<and> page w' = page w"
begin

abbreviation holds :: "(nat \<Rightarrow> byte) \<times> (nat \<Rightarrow> attributes) \<Rightarrow> ('a \<Rightarrow> bool) \<Rightarrow> ('w, 'a) prog \<Rightarrow> bool" where
  "holds v F m \<equiv> steady wok observed v F m"

lemma steady_ask:
  assumes "q \<in> {ta_safeOwner access, ta_admission access, ta_ownerThread access}"
  shows "holds v (\<lambda>_. True) (ask q)"
proof (cases q)
  case None
  then show ?thesis by (simp add: ask_def steady_return)
next
  case (Some f)
  with assms have "Some f \<in> {ta_safeOwner access, ta_admission access, ta_ownerThread access}" by simp
  from question_frame [OF this] show ?thesis
    using Some by (intro steadyI) (auto simp: ask_def observed_def split: prod.splits)
qed

lemma steady_Owner: "holds v (\<lambda>_. True) (Owner access)"
  unfolding Owner_def by (rule steady_ask) simp

lemma steady_Admit: "holds v (\<lambda>_. True) (Admit access)"
  unfolding Admit_def by (rule steady_ask) simp

lemma steady_EntryReason: "holds v (\<lambda>_. True) (EntryReason access)"
  unfolding EntryReason_def
  by (intro steady_if steady_return steady_bind [OF steady_ask] steady_bind [OF steady_Owner]) simp_all

lemma steady_query:
  assumes "mo_query (ta_memory access) = Some q"
  shows "holds v (\<lambda>r. \<forall>region. r = Some region \<longrightarrow> describes (snd v) region) (q a)"
  by (rule steadyI) (use query_frame [OF assms] query_sound [OF assms] in \<open>fastforce simp: observed_def\<close>)

lemma steady_read:
  assumes "mo_read (ta_memory access) = Some rd"
  shows "holds v (\<lambda>r. \<forall>bs. r = Some bs \<longrightarrow> bs = bytes_at (fst v) a n) (rd a n)"
  by (rule steadyI) (use read_frame [OF assms] read_sound [OF assms] in \<open>fastforce simp: observed_def\<close>)

lemma steady_data_range_loop:
  assumes q: "mo_query (ta_memory access) = Some q"
  shows "holds v (\<lambda>r. \<forall>b. r = Some b \<longrightarrow> pages_ok (snd v) (ta_hostBase access) inImage writable a b)
    (data_range_loop access q finish inImage writable k a)"
proof (induction k arbitrary: a)
  case 0
  show ?case by (auto intro!: steady_return simp: pages_ok_def)
next
  case (Suc k)
  have step: "holds v (\<lambda>r. \<forall>b. r = Some b \<longrightarrow> pages_ok (snd v) (ta_hostBase access) inImage writable a b)
      (data_range_loop access q finish inImage writable k
        (if mr_base region + mr_size region < finish then mr_base region + mr_size region else finish))"
    if "describes (snd v) region" "data_region_ok access a inImage writable region" for region
  proof -
    have "pages_ok (snd v) (ta_hostBase access) inImage writable a
        (if mr_base region + mr_size region < finish then mr_base region + mr_size region else finish)"
      using data_region_pages [OF that(2,1)] by (auto intro: pages_ok_mono)
    then show ?thesis by (intro steady_conseq [OF Suc.IH]) (blast intro: pages_ok_join)
  qed
  show ?case
    unfolding data_range_loop.simps
    by (intro steady_if steady_return steady_bind [OF steady_Owner] steady_optM [OF steady_query [OF q]] step)
      (auto simp: pages_ok_def)
qed

lemma steady_DataRange:
  "holds v (\<lambda>b. b \<longrightarrow> pages_ok (snd v) (ta_hostBase access) inImage writable a (a + n))
     (DataRange access a n inImage writable)"
  unfolding DataRange_def
  by (intro steady_bind [OF steady_Owner] steady_case_option steady_if steady_return
      steady_bind [OF steady_data_range_loop] steady_conseq [OF steady_Owner]) auto

lemma steady_DataRead:
  "holds v (\<lambda>r. \<forall>bs. r = Some bs \<longrightarrow> bs = bytes_at (fst v) a n) (DataRead access a n inImage)"
proof -
  have guard: "holds v (\<lambda>_. True) (allM [DataRange access a n inImage False, Owner access])"
    unfolding allM.simps
    by (intro steady_bind [OF steady_DataRange] steady_if steady_return steady_bind [OF steady_Owner]) simp_all
  show ?thesis
    unfolding DataRead_def
    by (intro steady_case_option steady_bind [OF guard] steady_if steady_return steady_optM [OF steady_read]
        steady_bind [OF steady_Owner]) auto
qed

lemma steady_ImageRead:
  "holds v (\<lambda>r. \<forall>bs. r = Some bs \<longrightarrow> bs = bytes_at (fst v) (ta_hostBase access + rva) n) (ImageRead access rva n)"
  unfolding ImageRead_def
  by (intro steady_case_option steady_return steady_conseq [OF steady_DataRead])
    (auto simp: Address_def split: if_splits)

lemma SlotAddress_at:
  "SlotAddress access layout index = Some slot \<Longrightarrow> slot = slot_at (ta_hostBase access) layout index \<and> index < kTaskSlots"
  by (auto simp: SlotAddress_def Address_def slot_at_def split: if_splits)

lemma steady_SlotRead:
  "holds v (\<lambda>r. \<forall>s. r = Some s \<longrightarrow> s = slot_task (fst v) (ta_hostBase access) layout index)
     (SlotRead access layout index)"
  unfolding SlotRead_def
  by (intro steady_case_option steady_return steady_optM [OF steady_DataRead] steady_optM [OF steady_ImageRead])
    (auto dest!: SlotAddress_at simp: slot_task_def Let_def slice_bytes_at_field kBuilderOffset_def field_def [symmetric])

lemma steady_authority_fields:
  "holds v (\<lambda>r. \<forall>p i. r = Some (p, i) \<longrightarrow> p = bytes_at (fst v) (slot + 0x38) 0x20 \<and> i = field (fst v) (slot + 0x60) 8)
     (authority_fields access slot)"
  unfolding authority_fields_def
  by (intro steady_bind [OF steady_DataRead] steady_case_option steady_return steady_optM [OF steady_DataRead])
    (auto simp: slice_bytes_at slice_bytes_at_field field_def ac_simps)

lemma steady_SlotAuthorityRead:
  "holds v (\<lambda>r. \<forall>a. r = Some a \<longrightarrow> a = (slot_task (fst v) (ta_hostBase access) layout index,
       slot_authority (fst v) (ta_hostBase access) layout index) \<and> index < kTaskSlots)
     (SlotAuthorityRead access layout index)"
  unfolding SlotAuthorityRead_def
  by (intro steady_case_option steady_return steady_optM [OF steady_DataRead] steady_optM [OF steady_authority_fields]
      steady_case_prod steady_optM [OF steady_ImageRead])
    (auto dest!: SlotAddress_at simp: slot_task_def slot_authority_def Let_def slice_bytes_at_field field_def [symmetric] ac_simps)

lemma steady_ReadSchedule: "holds v (\<lambda>_. True) (ReadSchedule access layout identity)"
  unfolding ReadSchedule_def
  by (intro steady_case_option steady_return steady_if steady_optM [OF steady_DataRead]) simp_all

lemma steady_vtable_is:
  "holds v (\<lambda>b. b \<longrightarrow> field (fst v) a 8 = expected) (vtable_is access a expected)"
  unfolding vtable_is_def
  by (intro steady_bind [OF steady_DataRead] steady_return) (auto simp: field_def)

definition globals_at :: "(nat \<Rightarrow> byte) \<Rightarrow> TaskLayout \<Rightarrow> nat \<times> nat \<times> nat \<times> nat" where
  "globals_at c layout = (let base = ta_hostBase access in
     (field c (base + tl_selectedIdRva layout) 4, field c (base + tl_invalidIdRva layout) 4,
      field c (base + tl_counterRva layout) 4, field c (base + tl_serviceStateRva layout) 4))"

lemma steady_read_globals:
  "holds v (\<lambda>r. \<forall>g. r = Some g \<longrightarrow> g = globals_at (fst v) layout) (read_globals access layout)"
  unfolding read_globals_def
  by (intro steady_return steady_optM [OF steady_ImageRead]) (auto simp: globals_at_def Let_def field_def)

text \<open>The scan: the one match among the slots seen so far and those still to come.\<close>

definition task_of :: "(nat \<Rightarrow> byte) \<Rightarrow> TaskLayout \<Rightarrow> nat \<Rightarrow> TaskSnapshot \<times> SlotAuthority" where
  "task_of c layout i = (slot_task c (ta_hostBase access) layout i, slot_authority c (ta_hostBase access) layout i)"

definition sole :: "(nat \<Rightarrow> byte) \<Rightarrow> TaskLayout \<Rightarrow> nat \<Rightarrow> nat set \<Rightarrow> TaskSnapshot \<times> SlotAuthority \<Rightarrow> bool" where
  "sole c layout ident seen t \<longleftrightarrow> (\<exists>i < kTaskSlots. t = task_of c layout i \<and> matches c (ta_hostBase access) layout ident i \<and>
     (\<forall>j \<in> seen. matches c (ta_hostBase access) layout ident j \<longrightarrow> j = i))"

lemma task_of_match:
  "ts_state (fst (task_of c layout i)) = field c (slot_at (ta_hostBase access) layout i) 4"
  "ti_id (ts_identity (fst (task_of c layout i))) = field c (slot_at (ta_hostBase access) layout i + 4) 4"
  "ti_slot (ts_identity (fst (task_of c layout i))) = i"
  by (simp_all add: task_of_def slot_task_def snapshot_of_def Let_def)

lemma sole_match:
  "sole c layout ident seen t \<Longrightarrow> \<exists>i < kTaskSlots. t = task_of c layout i \<and> ti_id (ts_identity (fst t)) = ident \<and>
     (\<forall>j \<in> seen. matches c (ta_hostBase access) layout ident j \<longrightarrow> j = i)"
  unfolding sole_def by (metis matches_def task_of_match(2))

lemma sole_of_all:
  assumes "sole c layout ident ({} \<union> set [0..<kTaskSlots]) t"
  shows "\<exists>i < kTaskSlots. t = task_of c layout i \<and> ti_id (ts_identity (fst t)) = ident \<and>
     (bound = None \<longrightarrow> (\<forall>j < kTaskSlots. matches c (ta_hostBase access) layout ident j \<longrightarrow> j = i))"
  using sole_match [OF assms] by (metis Un_iff atLeastLessThan_iff set_upt zero_le)

lemma steady_scan_slots:
  assumes "case found of None \<Rightarrow> \<forall>j \<in> seen. \<not> matches (fst v) (ta_hostBase access) layout ident j
    | Some t \<Rightarrow> sole (fst v) layout ident seen t"
  shows "holds v (\<lambda>r. \<forall>t. r = Inr t \<longrightarrow> sole (fst v) layout ident (seen \<union> set indices) t)
    (scan_slots access layout ident indices found)"
  using assms
proof (induction indices arbitrary: found seen)
  case Nil
  then show ?case by (auto intro!: steady_return split: option.splits)
next
  case (Cons index rest)
  let ?b = "ta_hostBase access"
  have more: "holds v (\<lambda>r. \<forall>t. r = Inr t \<longrightarrow> sole (fst v) layout ident (seen \<union> set (index # rest)) t)
      (scan_slots access layout ident rest found')"
    if "case found' of None \<Rightarrow> \<forall>j \<in> insert index seen. \<not> matches (fst v) ?b layout ident j
      | Some t \<Rightarrow> sole (fst v) layout ident (insert index seen) t" for found'
    using Cons.IH [OF that] by simp
  have skip: "holds v (\<lambda>r. \<forall>t. r = Inr t \<longrightarrow> sole (fst v) layout ident (seen \<union> set (index # rest)) t)
      (scan_slots access layout ident rest found)" if "\<not> matches (fst v) ?b layout ident index"
    by (rule more) (use that Cons.prems in \<open>auto simp: sole_def split: option.splits\<close>)
  have take: "holds v (\<lambda>r. \<forall>t. r = Inr t \<longrightarrow> sole (fst v) layout ident (seen \<union> set (index # rest)) t)
      (scan_slots access layout ident rest (Some (task_of (fst v) layout index)))"
    if "matches (fst v) ?b layout ident index" "\<forall>a b. found \<noteq> Some (a, b)" "index < kTaskSlots"
  proof -
    have "found = None" using that(2) by (cases found) auto
    then show ?thesis by (intro more) (use that Cons.prems in \<open>auto simp: sole_def\<close>)
  qed
  show ?case
    unfolding scan_slots.simps
    by (intro steady_case_option steady_return steady_proceed [OF steady_demand [OF steady_DataRead]] steady_if
        steady_proceed [OF steady_demand [OF steady_SlotAuthorityRead]] steady_case_prod)
      (use skip take in \<open>auto dest!: SlotAddress_at simp: slice_bytes_at_field matches_def task_of_def [symmetric]\<close>)
qed

lemma steady_select_task:
  "holds v (\<lambda>r. \<forall>t. r = Inr t \<longrightarrow> (\<exists>i < kTaskSlots. t = task_of (fst v) layout i \<and>
       ti_id (ts_identity (fst t)) = ident \<and> (bound = None \<longrightarrow>
         (\<forall>j < kTaskSlots. matches (fst v) (ta_hostBase access) layout ident j \<longrightarrow> j = i))))
     (select_task access layout bound ident)"
proof (cases bound)
  case None
  have "holds v (\<lambda>r. \<forall>t. r = Inr t \<longrightarrow> sole (fst v) layout ident ({} \<union> set [0..<kTaskSlots]) t)
      (scan_slots access layout ident [0..<kTaskSlots] None)"
    by (rule steady_scan_slots) simp
  then show ?thesis
    unfolding select_task_def None option.case
    by (rule steady_conseq) (blast dest: sole_of_all)
next
  case (Some identity)
  then show ?thesis
    by (auto simp: select_task_def task_of_def [symmetric] intro!: steady_return
        steady_proceed [OF steady_demand [OF steady_SlotAuthorityRead]] split: if_splits)
qed

lemma steady_qualify_task:
  "holds v (\<lambda>r. \<forall>u. r = Inr u \<longrightarrow> 2 \<le> ts_state s \<and> ts_state s \<le> 5 \<and> ti_component (ts_identity s) \<noteq> 0 \<and>
       ti_holder (ts_identity s) div 2 ^ 16 = kHolderType \<and> ti_metadata (ts_identity s) \<noteq> 0 \<and>
       field (fst v) (ti_metadata (ts_identity s)) 8 = ta_hostBase access + tl_metadataVtableRva layout \<and>
       authority_clear a \<and> sa_interval a = kInterval \<and> ts_builder s \<noteq> 0)
     (qualify_task access layout s a)"
  unfolding qualify_task_def
  apply (rule steady_proceed [OF steady_require_pure], simp)
  apply (rule steady_proceed [OF steady_require [OF steady_allM_guard [OF steady_DataRange]]], simp)
  apply (rule steady_proceed [OF steady_require_pure], simp)
  apply (rule steady_proceed [OF steady_require_pure], simp)
  apply (rule steady_proceed [OF steady_require [OF steady_allM_guard [OF steady_vtable_is]]], simp)
  by (rule steady_conseq [OF steady_require_pure]) auto

lemma steady_recheck_task:
  assumes reset: "holds v (\<lambda>_. True) reset"
  shows "holds v (\<lambda>_. True) (recheck_task access reset layout bound minimumCounter globals value authority)"
proof -
  have checks: "holds v (\<lambda>_. True) (allM [pureM a, vtable_is access m n, pureM b, Owner access, Admit access])" for a b m n
    unfolding allM.simps
    by (intro steady_bind [OF steady_pure_eq] steady_bind [OF steady_vtable_is] steady_bind [OF steady_Owner]
        steady_bind [OF steady_Admit] steady_if steady_return) simp_all
  show ?thesis
    unfolding recheck_task_def
    by (cases globals, simp only: prod.case, intro steady_case_prod steady_bind [OF reset] steady_proceed [OF steady_demand [OF steady_SlotAuthorityRead]]
        steady_proceed [OF steady_demand [OF steady_read_globals]] steady_proceed [OF steady_require_pure]
        steady_proceed [OF steady_require_any [OF checks]] steady_return) simp_all
qed

lemma steady_observe_schedule:
  "holds v (\<lambda>s. ts_identity s = ts_identity value \<and> ts_state s = ts_state value \<and> ts_builder s = ts_builder value)
     (observe_schedule access layout before again value)"
  unfolding observe_schedule_def
  by (cases before) (auto intro!: steady_return steady_bind [OF steady_ReadSchedule] split: option.splits)

lemma bindable_of:
  assumes "(value, a) = task_of c layout i" and "i < kTaskSlots" and "ts_identity s = ts_identity value"
    and "ts_state s = ts_state value" and "ts_builder s = ts_builder value"
    and "2 \<le> ts_state value" "ts_state value \<le> 5" "0 < ti_component (ts_identity value)"
    and "ti_holder (ts_identity value) div 65536 = kHolderType" "0 < ti_metadata (ts_identity value)"
    and "field c (ti_metadata (ts_identity value)) 8 = ta_hostBase access + tl_metadataVtableRva layout"
    and "authority_clear a" "sa_interval a = kInterval" "0 < ts_builder value"
  shows "bindable c (ta_hostBase access) layout s \<and> ti_slot (ts_identity value) = i"
proof -
  have t: "value = slot_task c (ta_hostBase access) layout i" "a = slot_authority c (ta_hostBase access) layout i"
    using assms(1) by (simp_all add: task_of_def)
  moreover have "ti_slot (ts_identity value) = i" using task_of_match(3) [of c layout i] assms(1) by (metis fst_conv)
  ultimately show ?thesis using assms(2-) unfolding bindable_def Let_def by simp
qed

lemma selected_of:
  assumes "globals_reason bound minimumCounter (globals_at c layout) = R_None"
    and "ti_id (ts_identity s) = fst (globals_at c layout)" and "ts_nativeCounter s = fst (snd (snd (globals_at c layout)))"
  shows "selected_by c (ta_hostBase access) layout s"
  using assms by (auto simp: globals_reason_def globals_at_def selected_by_def Let_def split: if_splits)

lemma steady_read_pass:
  assumes reset: "\<And>v. holds v (\<lambda>_. True) reset"
  shows "holds v (\<lambda>r. \<forall>s. r = Inr s \<longrightarrow> bindable (fst v) (ta_hostBase access) layout s \<and>
      selected_by (fst v) (ta_hostBase access) layout s \<and> (bound = None \<longrightarrow> (\<forall>j < kTaskSlots.
         matches (fst v) (ta_hostBase access) layout (ti_id (ts_identity s)) j \<longrightarrow> j = ti_slot (ts_identity s))))
    (read_pass access reset layout bound minimumCounter output)"
proof -
  have entry: "holds v (\<lambda>_. True) (do { entry \<leftarrow> EntryReason access; pass entry })"
    by (intro steady_bind [OF steady_EntryReason] steady_conseq [OF steady_pass] TrueI)
  have gate: "holds v (\<lambda>_. True) (allM [Owner access, Admit access])"
    unfolding allM.simps
    by (intro steady_bind [OF steady_Owner] steady_if steady_bind [OF steady_Admit] steady_return TrueI)
  show ?thesis
    unfolding read_pass_def
    apply (rule steady_proceed [OF entry], simp)
    apply (rule steady_proceed [OF steady_require_pure], simp)
    apply (rule steady_proceed [OF steady_require_any [OF steady_Admit]], simp)
    apply (rule steady_proceed [OF steady_demand [OF steady_read_globals]], simp)
    apply (rule steady_proceed [OF steady_pass], simp)
    apply (rule steady_proceed [OF steady_select_task], simp)
    apply (rule steady_case_prod, rule steady_proceed [OF steady_qualify_task], simp)
    apply (rule steady_bind [OF steady_ReadSchedule])
    apply (rule steady_proceed [OF steady_recheck_task [OF reset]], simp)
    apply (rule steady_bind [OF steady_observe_schedule])
    apply (rule steady_proceed [OF steady_require_any [OF gate]], simp)
    apply (rule steady_return)
    subgoal premises p for u1 u2 u3 globals u4 t task auth u5 before again result u6
    proof (intro allI impI, goal_cases)
      case (1 s)
      have g: "globals = globals_at (fst v) layout" using p by simp
      obtain i where i: "i < kTaskSlots" "(task, auth) = task_of (fst v) layout i"
        "ti_id (ts_identity task) = fst globals"
        "bound = None \<longrightarrow> (\<forall>j < kTaskSlots. matches (fst v) (ta_hostBase access) layout (fst globals) j \<longrightarrow> j = i)"
        using p by auto
      have s: "s = result\<lparr>ts_nativeCounter := fst (snd (snd globals))\<rparr>" using 1 by simp
      have r: "ts_identity result = ts_identity task" "ts_state result = ts_state task" "ts_builder result = ts_builder task"
        using p by simp_all
      have q: "2 \<le> ts_state task" "ts_state task \<le> 5" "0 < ti_component (ts_identity task)"
        "ti_holder (ts_identity task) div 65536 = kHolderType" "0 < ti_metadata (ts_identity task)"
        "field (fst v) (ti_metadata (ts_identity task)) 8 = ta_hostBase access + tl_metadataVtableRva layout"
        "authority_clear auth" "sa_interval auth = kInterval" "0 < ts_builder task"
        "globals_reason bound minimumCounter globals = R_None"
        using p by simp_all
      have b: "bindable (fst v) (ta_hostBase access) layout s \<and> ti_slot (ts_identity task) = i"
        by (rule bindable_of [OF i(2,1)]) (use q r in \<open>simp_all add: s\<close>)
      have "selected_by (fst v) (ta_hostBase access) layout s"
        by (rule selected_of [OF q(10) [unfolded g]]) (use i(3) r in \<open>simp_all add: s g\<close>)
      with b i(3,4) show ?case by (simp add: s r)
    qed
    done
qed

end

end
