(* ===== verification/TaskSwap.thy ===== *)
theory TaskSwap
  imports TaskMemory
begin

text \<open>
  What the calls of \<open>src/companion/steam_reporting_task.cpp\<close> do to the engine's memory:
  installation, validation and retirement change nothing but one builder cell of the pool,
  and an outcome that leaves the wrapper there says so.
\<close>

section \<open>Stores of one cell\<close>

definition store8 :: "nat \<Rightarrow> nat \<Rightarrow> (nat \<Rightarrow> byte) \<Rightarrow> nat \<Rightarrow> byte" where
  "store8 a v c = (\<lambda>x. if a \<le> x \<and> x < a + 8 then le_bytes 8 v ! (x - a) else c x)"

lemma bytes_at_store8: "bytes_at (store8 a v c) a 8 = le_bytes 8 v"
  by (rule nth_equalityI) (simp_all add: store8_def)

lemma field_store8: "v \<le> u64_max \<Longrightarrow> field (store8 a v c) a 8 = v"
  by (simp add: field_def bytes_at_store8 le_nat_le_bytes)

lemma store8_store8: "store8 a v (store8 a u c) = store8 a v c"
  by (auto simp: store8_def)

lemma le_bytes_field: "le_bytes 8 (field c a 8) = bytes_at c a 8"
  by (rule le_nat_inj) (use le_nat_bound [of "bytes_at c a 8"] in \<open>simp_all add: field_def le_nat_le_bytes\<close>)

lemma store8_field: "field c a 8 = v \<Longrightarrow> store8 a v c = c"
  using le_bytes_field [of c a] by (auto simp: store8_def fun_eq_iff)

section \<open>Programs that change what is observed\<close>

text \<open>The triple from one observation, whose result may mention it.\<close>

abbreviation effect :: "('w \<Rightarrow> bool) \<Rightarrow> ('w \<Rightarrow> 'o) \<Rightarrow> 'o \<Rightarrow> ('a \<Rightarrow> 'o \<Rightarrow> bool) \<Rightarrow> ('w, 'a) prog \<Rightarrow> bool" where
  "effect wok obs v R m \<equiv> triple wok obs (\<lambda>u. u = v) m R"

lemma effect_bind:
  assumes "effect wok obs v Q m" and "\<And>a u. Q a u \<Longrightarrow> effect wok obs u R (f a)"
  shows "effect wok obs v R (m \<bind> f)"
  by (rule triple_bind [OF assms(1)]) (use assms(2) in \<open>auto simp: triple_def\<close>)

lemma effect_steady: "steady wok obs v F m \<Longrightarrow> (\<And>a. F a \<Longrightarrow> R a v) \<Longrightarrow> effect wok obs v R m"
  unfolding triple_def by (metis steadyD)

lemma effect_after: "steady wok obs v F m \<Longrightarrow> (\<And>a. F a \<Longrightarrow> effect wok obs v R (f a)) \<Longrightarrow> effect wok obs v R (m \<bind> f)"
  by (rule effect_bind [where Q = "\<lambda>a u. u = v \<and> F a"]) (auto intro: effect_steady)

lemma effect_return: "R a v \<Longrightarrow> effect wok obs v R (State_Monad.return a)"
  by (rule triple_return) simp

lemma effect_conseq: "effect wok obs v Q m \<Longrightarrow> (\<And>a u. Q a u \<Longrightarrow> R a u) \<Longrightarrow> effect wok obs v R m"
  by (rule triple_conseq)

lemma effect_if: "(c \<Longrightarrow> effect wok obs v R a) \<Longrightarrow> (\<not> c \<Longrightarrow> effect wok obs v R b) \<Longrightarrow> effect wok obs v R (if c then a else b)"
  by simp

lemma effect_option:
  "(x = None \<Longrightarrow> effect wok obs v R a) \<Longrightarrow> (\<And>y. x = Some y \<Longrightarrow> effect wok obs v R (f y)) \<Longrightarrow>
   effect wok obs v R (case_option a f x)"
  by (cases x) simp_all

lemma effect_sum:
  "(\<And>y. x = Inl y \<Longrightarrow> effect wok obs v R (f y)) \<Longrightarrow> (\<And>y. x = Inr y \<Longrightarrow> effect wok obs v R (g y)) \<Longrightarrow>
   effect wok obs v R (case_sum f g x)"
  by (cases x) simp_all

lemma effect_case_prod: "(\<And>a b. p = (a, b) \<Longrightarrow> effect wok obs v R (f a b)) \<Longrightarrow> effect wok obs v R (case_prod f p)"
  by (cases p) simp

lemma steady_get_error: "steady wok obs v (\<lambda>_. True) get_error"
  by (auto simp: steady_def get_error_def)

lemma steady_keep_error: "steady wok obs v (\<lambda>_. True) (keep_error e)"
  by (auto simp: steady_def keep_error_def set_error_def split: if_splits)

section \<open>What a call may leave behind\<close>

text \<open>No other slot in use carries the number of the task.\<close>

definition sole_task :: "nat \<Rightarrow> (nat \<Rightarrow> byte) \<Rightarrow> TaskLayout \<Rightarrow> TaskSnapshot \<Rightarrow> bool" where
  "sole_task base c layout s \<longleftrightarrow> (\<forall>j < kTaskSlots. matches c base layout (ti_id (ts_identity s)) j \<longrightarrow> j = ti_slot (ts_identity s))"

text \<open>
  \<open>taken_out\<close>, \<open>put_in\<close>: memory is as it was but for the builder cell of the slot the binding
  names, where its wrapper and the original changed places; \<open>accounted\<close>: a wrapper left in
  that cell is flagged as stranded; \<open>settles\<close>: what a fault may leave.
\<close>

definition bound_cell :: "nat \<Rightarrow> TaskLayout \<Rightarrow> TaskBinding \<Rightarrow> nat" where
  "bound_cell base layout b = cell_at base layout (ti_slot (tb_identity b))"

definition taken_out :: "nat \<Rightarrow> TaskLayout \<Rightarrow> TaskBinding \<Rightarrow> (nat \<Rightarrow> byte) \<Rightarrow> (nat \<Rightarrow> byte) \<Rightarrow> bool" where
  "taken_out base layout b c c' \<longleftrightarrow> tb_haveIdentity b \<and> ti_slot (tb_identity b) < kTaskSlots \<and>
     field c (bound_cell base layout b) 8 = tb_wrapper b \<and> c' = store8 (bound_cell base layout b) (tb_original b) c"

definition put_in :: "nat \<Rightarrow> TaskLayout \<Rightarrow> TaskBinding \<Rightarrow> (nat \<Rightarrow> byte) \<Rightarrow> (nat \<Rightarrow> byte) \<Rightarrow> bool" where
  "put_in base layout b c c' \<longleftrightarrow> tb_haveIdentity b \<and> ti_slot (tb_identity b) < kTaskSlots \<and>
     field c (bound_cell base layout b) 8 = tb_original b \<and> c' = store8 (bound_cell base layout b) (tb_wrapper b) c"

definition accounted :: "nat \<Rightarrow> TaskLayout \<Rightarrow> TaskBinding \<Rightarrow> (nat \<Rightarrow> byte) \<Rightarrow> bool" where
  "accounted base layout b c \<longleftrightarrow> (tb_haveIdentity b \<and> field c (bound_cell base layout b) 8 = tb_wrapper b \<longrightarrow> tb_stranded b)"

definition settles :: "nat \<Rightarrow> TaskLayout \<Rightarrow> (nat \<Rightarrow> byte) \<Rightarrow> TaskBinding \<Rightarrow> (nat \<Rightarrow> byte) \<Rightarrow> bool" where
  "settles base layout c b c' \<longleftrightarrow> tb_phase b = Phase_Inert \<and> accounted base layout b c' \<and>
     (c' = c \<or> taken_out base layout b c c' \<or> put_in base layout b c c')"

definition undone :: "nat \<Rightarrow> TaskLayout \<Rightarrow> TaskBinding \<Rightarrow> (nat \<Rightarrow> byte) \<times> (nat \<Rightarrow> attributes) \<Rightarrow> TaskBinding \<Rightarrow>
    (nat \<Rightarrow> byte) \<times> (nat \<Rightarrow> attributes) \<Rightarrow> bool" where
  "undone base layout b v b' u \<longleftrightarrow> marked b b' \<and> snd u = snd v \<and> accounted base layout b' (fst u) \<and>
     (fst u = fst v \<or> taken_out base layout b (fst v) (fst u))"

section \<open>The providers\<close>

locale task_provider = access_reader access wok content page
  for access :: "'w TaskAccess" and wok content page +
  assumes exchange_sound: "ta_compareExchange access = Some cas \<Longrightarrow> wok w \<Longrightarrow>
    pages_ok (page w) (ta_hostBase access) True True a (a + 8) \<Longrightarrow>
    run_state (cas a old new) (w, e) = ((ok, seen), (w', e')) \<Longrightarrow>
    wok w' \<and> page w' = page w \<and>
    (content w' = content w \<and> \<not> (ok \<and> seen = old) \<or> field (content w) a 8 = old \<and> content w' = store8 a new (content w))"

text \<open>A scope answers from regions the memory operations described, so it is as truthful as they are.\<close>

definition scope_ok :: "('w \<Rightarrow> bool) \<Rightarrow> ('w \<Rightarrow> nat \<Rightarrow> attributes) \<Rightarrow> 'w scoped \<Rightarrow> bool" where
  "scope_ok wok page = (\<lambda>(w, regions). wok w \<and> (\<forall>r \<in> set regions. describes (page w) r))"

lemma run_ScopeQuery:
  "run_state (ScopeQuery q a) ((w, regions), e) =
    (case find (in_region a) regions of
       Some region \<Rightarrow> (Some region, ((w, regions), 0))
     | None \<Rightarrow> (case run_state (q a) (w, e) of
         (None, (w, e)) \<Rightarrow> (None, ((w, regions), e))
       | (Some region, (w, e)) \<Rightarrow> (Some region, ((w, if length regions < kReadScopeRegions \<and> Cacheable region a
             then regions @ [region] else regions), e))))"
  by (auto simp: ScopeQuery_def cached_def outside_def remember_def optM_def bind_def split: option.splits prod.splits)

context memory_provider
begin

lemma scope_query:
  assumes q: "mo_query (ScopeOps ops) = Some q" and s: "scope_ok wok page s"
    and r: "run_state (q a) (s, e) = (res, (s', e'))"
  shows "scope_ok wok page s' \<and> content (fst s') = content (fst s) \<and> page (fst s') = page (fst s) \<and>
    (\<forall>region. res = Some region \<longrightarrow> describes (page (fst s)) region)"
proof -
  obtain w rs where w: "s = (w, rs)" by (cases s)
  obtain q0 where q0: "mo_query ops = Some q0" "q = ScopeQuery q0" using q by (auto simp: ScopeOps_def)
  have wok: "wok w" "\<forall>r \<in> set rs. describes (page w) r" using s by (simp_all add: w scope_ok_def)
  show ?thesis
  proof (cases "find (in_region a) rs")
    case (Some region)
    then have "region \<in> set rs" by (auto simp: find_Some_iff)
    then show ?thesis using r s wok Some by (auto simp: q0(2) w run_ScopeQuery)
  next
    case None
    obtain res0 w1 e1 where r0: "run_state (q0 a) (w, e) = (res0, (w1, e1))" using prod_cases3 by blast
    note f = query_frame [OF q0(1) wok(1) r0]
    have d: "describes (page w) region" if "res0 = Some region" for region
      using query_sound [OF q0(1) wok(1)] r0 that by blast
    show ?thesis
      using r f d wok None r0 by (auto simp: q0(2) w run_ScopeQuery scope_ok_def split: option.splits if_splits)
  qed
qed

lemma scope_read:
  assumes rd: "mo_read (ScopeOps ops) = Some rd" and s: "scope_ok wok page s"
    and r: "run_state (rd a n) (s, e) = (res, (s', e'))"
  shows "scope_ok wok page s' \<and> content (fst s') = content (fst s) \<and> page (fst s') = page (fst s) \<and>
    (\<forall>bs. res = Some bs \<longrightarrow> bs = bytes_at (content (fst s)) a n)"
proof -
  obtain w rs where w: "s = (w, rs)" by (cases s)
  obtain rd0 where rd0: "mo_read ops = Some rd0" "rd a n = outside (rd0 a n)" using rd by (auto simp: ScopeOps_def)
  have wok: "wok w" "\<forall>r \<in> set rs. describes (page w) r" using s by (simp_all add: w scope_ok_def)
  obtain res0 w1 e1 where r0: "run_state (rd0 a n) (w, e) = (res0, (w1, e1))" using prod_cases3 by blast
  note f = read_frame [OF rd0(1) wok(1) r0]
  have "bs = bytes_at (content w) a n" if "res0 = Some bs" for bs
    using read_sound [OF rd0(1) wok(1)] r0 that by blast
  then show ?thesis using r r0 f wok by (auto simp: rd0(2) w outside_def scope_ok_def)
qed

lemma scope_memory: "memory_provider (ScopeOps ops) (scope_ok wok page) (content \<circ> fst) (page \<circ> fst)"
  by unfold_locales (auto dest: scope_query scope_read)

end

sublocale task_provider \<subseteq> scoped: access_reader "scoped_access access" "scope_ok wok page" "content \<circ> fst" "page \<circ> fst"
proof (intro access_reader.intro access_reader_axioms.intro)
  show "memory_provider (ta_memory (scoped_access access)) (scope_ok wok page) (content \<circ> fst) (page \<circ> fst)"
    using scope_memory by (simp add: scoped_access_def)
next
  fix f w b w'
  assume f: "Some f \<in> {ta_safeOwner (scoped_access access), ta_admission (scoped_access access),
      ta_ownerThread (scoped_access access)}" and w: "scope_ok wok page w" and r: "f w = (b, w')"
  have "\<exists>g. Some g \<in> {ta_safeOwner access, ta_admission access, ta_ownerThread access} \<and> f = scope_question g"
    using f by (auto simp: scoped_access_def dest!: sym [of "Some f"])
  then obtain g where g: "Some g \<in> {ta_safeOwner access, ta_admission access, ta_ownerThread access}"
    "f = scope_question g"
    by blast
  obtain w0 rs where w0: "w = (w0, rs)" by (cases w)
  obtain b0 w1 where g0: "g w0 = (b0, w1)" by fastforce
  have "wok w0" using w by (simp add: w0 scope_ok_def)
  from question_frame [OF g(1) this g0] show "scope_ok wok page w' \<and> (content \<circ> fst) w' = (content \<circ> fst) w \<and>
      (page \<circ> fst) w' = (page \<circ> fst) w"
    using w r g0 by (auto simp: g(2) w0 scope_question_def scope_ok_def)
qed

context task_provider
begin

lemma scope_reset: "steady (scope_ok wok page) scoped.observed v (\<lambda>_. True) ScopeReset"
  by (auto simp: steady_def ScopeReset_def scope_ok_def scoped.observed_def)

abbreviation base :: nat where "base \<equiv> ta_hostBase access"

lemma scoped_base: "ta_hostBase (scoped_access access) = base"
  by (simp add: scoped_access_def)

lemma steady_ReadTask:
  "holds v (\<lambda>r. \<forall>s. r = Inr s \<longrightarrow> bindable (fst v) base layout s \<and> selected_by (fst v) base layout s \<and>
      (bound = None \<longrightarrow> sole_task base (fst v) layout s))
    (ReadTask access layout bound minimumCounter output)"
  unfolding ReadTask_def
  apply (rule steady_with_scope [OF scoped.steady_read_pass [OF scope_reset, unfolded scoped_base, folded sole_task_def]])
  by (auto simp: scope_ok_def scoped.observed_def observed_def)

lemma steady_ReadSelectedTask:
  "holds v (\<lambda>r. \<forall>s. r = Inr s \<longrightarrow> bindable (fst v) base layout s \<and> selected_by (fst v) base layout s \<and>
      sole_task base (fst v) layout s) (ReadSelectedTask access layout output)"
  unfolding ReadSelectedTask_def by (rule steady_conseq [OF steady_ReadTask]) simp

section \<open>Faults and their inverse\<close>

lemma builder_cell_at:
  "builder_cell access layout identity = Some cell \<Longrightarrow>
   cell = cell_at base layout (ti_slot identity) \<and> ti_slot identity < kTaskSlots"
  by (auto simp: builder_cell_def cell_at_def dest!: SlotAddress_at)

text \<open>Facts of a binding that the marks of an inverse leave alone.\<close>

lemma marked_same:
  assumes "marked b b'"
  shows "tb_identity b' = tb_identity b" "tb_haveIdentity b' = tb_haveIdentity b" "tb_wrapper b' = tb_wrapper b"
    "tb_original b' = tb_original b" "tb_phase b' = tb_phase b" "tb_fault b' = tb_fault b"
  using assms by (auto simp: marked_def)

lemma effect_exchange:
  assumes "ta_compareExchange access \<noteq> None" and "pages_ok (snd v) base True True cell (cell + 8)"
  shows "effect wok observed v (\<lambda>(ok, seen) u. snd u = snd v \<and>
      (fst u = fst v \<and> \<not> (ok \<and> seen = old) \<or> field (fst v) cell 8 = old \<and> fst u = store8 cell new (fst v)))
    (exchange access cell old new)"
proof -
  obtain cas where cas: "ta_compareExchange access = Some cas" using assms(1) by blast
  show ?thesis
    unfolding triple_def exchange_def cas option.sel
  proof (intro allI impI, goal_cases)
    case (1 w e a w' e')
    then show ?case
      using exchange_sound [OF cas 1(1), of cell old new e "fst a" "snd a" w' e'] assms(2)
      by (auto simp: observed_def)
  qed
qed

lemma effect_inverse_exchange:
  assumes "ta_compareExchange access \<noteq> None" and "pages_ok (snd v) base True True cell (cell + 8)"
    and "marked b b'" and "tb_stranded b'" and "cell = bound_cell base layout b" and "ti_slot (tb_identity b) < kTaskSlots"
    and "tb_haveIdentity b"
  shows "effect wok observed v (undone base layout b v) (inverse_exchange b' access cell)"
  unfolding inverse_exchange_def Let_def
proof (rule effect_bind [OF effect_exchange [OF assms(1,2)]], rule effect_after [OF steady_get_error],
    rule effect_after [OF steady_DataRead], rule effect_after [OF steady_keep_error], rule effect_return, goal_cases)
  case (1 a u e current x)
  have b: "tb_wrapper b' = tb_wrapper b" "tb_original b' = tb_original b" "tb_identity b' = tb_identity b"
    "tb_haveIdentity b' = tb_haveIdentity b"
    using marked_same [OF assms(3)] by simp_all
  from 1 show ?case
    using assms(3-7) b by (auto simp: undone_def accounted_def bound_cell_def taken_out_def field_def
      intro!: marks split: option.splits)
qed

lemma effect_Inverse: "effect wok observed v (undone base layout b v) (Inverse b access layout)"
proof -
  have guard: "holds v (\<lambda>ok. ok \<longrightarrow> p \<and> q) (allM [pureM p, Owner access, pureM q])" for p q
    unfolding allM.simps
    by (intro steady_bind [OF steady_pure_eq] steady_bind [OF steady_Owner] steady_if steady_return) simp_all
  have writable: "holds v (\<lambda>ok. ok \<longrightarrow> pages_ok (snd v) base True True cell (cell + 8))
      (allM [DataRange access cell 8 True True, Owner access])" for cell
    unfolding allM.simps
    by (intro steady_bind [OF steady_DataRange] steady_bind [OF steady_Owner] steady_if steady_return) auto
  have unchanged: "undone base layout b v (b\<lparr>tb_inverseAttempted := False, tb_stranded := s\<rparr>) v" if "s = tb_haveIdentity b" for s
    using that by (auto simp: undone_def accounted_def intro!: marks)
  show ?thesis
    unfolding Inverse_def Let_def
    apply (rule effect_after [OF guard], rule effect_if, (rule effect_return, rule unchanged, rule refl)[1])
    apply (rule effect_option, (rule effect_return, rule unchanged, rule refl)[1])
    apply (rule effect_after [OF steady_DataRead], rule effect_option, (rule effect_return, rule unchanged, rule refl)[1])
    apply (rule effect_if, rule effect_return)
     apply (auto simp: undone_def accounted_def bound_cell_def field_def intro!: marks dest!: builder_cell_at)[1]
    apply (rule effect_after [OF writable], rule effect_if, (rule effect_return, rule unchanged, rule refl)[1])
    by (rule effect_inverse_exchange) (auto simp: bound_cell_def intro!: marks dest!: builder_cell_at)
qed

lemma effect_Fault:
  "effect wok observed v (\<lambda>(r, b') u. snd u = snd v \<and> tb_phase b' = Phase_Inert \<and> accounted base layout b' (fst u) \<and>
      (fst u = fst v \<or> taken_out base layout b' (fst v) (fst u)) \<and> tb_haveIdentity b' = tb_haveIdentity b \<and>
      tb_identity b' = tb_identity b \<and> tb_wrapper b' = tb_wrapper b \<and> tb_original b' = tb_original b)
    (Fault b access layout reason True)"
  unfolding Fault_def Let_def if_True
  apply (rule effect_after [OF steady_get_error], rule effect_bind [OF effect_Inverse])
  apply (rule effect_after [OF steady_keep_error], rule effect_return)
  by (auto simp: undone_def latch_fault_def marked_same taken_out_def bound_cell_def)

lemma effect_faulted:
  "effect wok observed v (\<lambda>(r, b', out) u. snd u = snd v \<and> out = None \<and> settles base layout (fst v) b' (fst u))
    (faulted (Fault b access layout reason True))"
  unfolding faulted_def
  by (rule effect_bind [OF effect_Fault], rule effect_return) (auto simp: settles_def)

lemma effect_faulted_after:
  assumes "put_in base layout b c (fst v)"
  shows "effect wok observed v (\<lambda>(r, b', out) u. snd u = snd v \<and> out = None \<and> settles base layout c b' (fst u))
    (faulted (Fault b access layout reason True))"
  unfolding faulted_def
  apply (rule effect_bind [OF effect_Fault], rule effect_return)
  using assms by (auto simp: settles_def taken_out_def put_in_def bound_cell_def store8_store8 store8_field)

end

text \<open>
  What a validation or a read of the bound task leaves: memory as it was, or what a fault may
  leave; a snapshot that comes back describes memory as it stayed.
\<close>

definition visit_leaves :: "nat \<Rightarrow> TaskLayout \<Rightarrow> (nat \<Rightarrow> byte) \<Rightarrow> outcome \<Rightarrow> (nat \<Rightarrow> byte) \<Rightarrow> bool" where
  "visit_leaves base layout c = (\<lambda>(r, b', out) c'.
     (c' = c \<or> settles base layout c b' c') \<and>
     (case out of None \<Rightarrow> True | Some s \<Rightarrow> c' = c \<and> bindable c base layout s \<and> selected_by c base layout s))"

text \<open>
  What an installation leaves: an armed binding whose wrapper replaced the original in the
  cell of the one task the globals select; or nothing touched in an unchanged phase; or what
  a fault may leave.
\<close>

definition install_leaves ::
  "nat \<Rightarrow> TaskLayout \<Rightarrow> TaskBinding \<Rightarrow> (nat \<Rightarrow> byte) \<Rightarrow> outcome \<Rightarrow> (nat \<Rightarrow> byte) \<Rightarrow> bool" where
  "install_leaves base layout b c = (\<lambda>(r, b', out) c'. case out of
     Some s \<Rightarrow> r = R_None \<and> tb_phase b' = Phase_Armed \<and> tb_identity b' = ts_identity s \<and> Queued (ts_state s) \<and>
       ts_builder s = tb_wrapper b' \<and> put_in base layout b' c c' \<and> bindable c' base layout s \<and>
       selected_by c' base layout s \<and> sole_task base c' layout s
   | None \<Rightarrow> (tb_phase b' = tb_phase b \<and> c' = c) \<or> settles base layout c b' c')"

context task_provider
begin

lemma effect_publish:
  assumes p: "put_in base layout p c (fst v)" and "tb_identity p = ts_identity before"
  shows "effect wok observed v (\<lambda>r u. snd u = snd v \<and> install_leaves base layout b c r (fst u))
    (publish_binding p access layout before)"
proof -
  have fault: "effect wok observed v (\<lambda>r u. snd u = snd v \<and> install_leaves base layout b c r (fst u))
      (faulted (Fault q access layout reason True))" if "put_in base layout q c (fst v)" for q reason
    by (rule effect_conseq [OF effect_faulted_after [OF that]]) (auto simp: install_leaves_def)
  have guard: "holds v (\<lambda>ok. ok \<longrightarrow> q) (allM [pureM q, Owner access, Admit access])" for q
    unfolding allM.simps
    by (intro steady_bind [OF steady_pure_eq] steady_bind [OF steady_Owner] steady_bind [OF steady_Admit]
        steady_if steady_return) simp_all
  show ?thesis
    unfolding publish_binding_def Let_def
    apply (rule effect_after [OF steady_ReadSelectedTask], rule effect_sum, rule fault, rule p)
    apply (rule effect_after [OF guard], rule effect_if, rule fault, rule p)
    apply (rule effect_if, rule fault)
    using assms by (auto simp: install_leaves_def put_in_def bound_cell_def SameSnapshot_def intro!: effect_return)
qed

lemma effect_install_exchange:
  assumes "ta_compareExchange access \<noteq> None" and "pages_ok (snd v) base True True cell (cell + 8)"
    and cell: "cell = bound_cell base layout p" "ti_slot (tb_identity p) < kTaskSlots" "tb_haveIdentity p"
      "tb_identity p = ts_identity before"
  shows "effect wok observed v (\<lambda>r u. snd u = snd v \<and> install_leaves base layout b (fst v) r (fst u))
    (install_exchange p access layout cell before)"
proof -
  have gate: "holds v (\<lambda>_. True) (allM [Owner access, Admit access])"
    unfolding allM.simps
    by (intro steady_bind [OF steady_Owner] steady_if steady_bind [OF steady_Admit] steady_return TrueI)
  have fault: "effect wok observed u (\<lambda>r u'. snd u' = snd v \<and> install_leaves base layout b (fst v) r (fst u'))
      (faulted (Fault p access layout R_InstallFailed True))"
    if "snd u = snd v" "fst u = fst v \<or> put_in base layout p (fst v) (fst u)" for u
  proof (cases "fst u = fst v")
    case True
    then have "u = v" using that by (simp add: prod_eq_iff)
    then show ?thesis by (auto intro: effect_conseq [OF effect_faulted] simp: install_leaves_def)
  next
    case False
    then show ?thesis using that by (auto intro!: effect_conseq [OF effect_faulted_after] simp: install_leaves_def)
  qed
  show ?thesis
    unfolding install_exchange_def
    apply (rule effect_after [OF gate], rule effect_if, rule fault, simp, simp)
    apply (rule effect_bind [OF effect_exchange [OF assms(1,2)]], rule effect_case_prod, rule effect_if)
     apply (rule fault; use cell in \<open>auto simp: put_in_def\<close>)
    apply (rule effect_conseq [OF effect_publish])
    using cell by (auto simp: put_in_def)
qed

lemma install_faulted:
  "effect wok observed v (\<lambda>r u. snd u = snd v \<and> install_leaves base layout b (fst v) r (fst u))
    (faulted (Fault q access layout reason True))"
  by (rule effect_conseq [OF effect_faulted]) (auto simp: install_leaves_def)

lemma install_stop:
  "tb_phase q = tb_phase b \<Longrightarrow>
   effect wok observed v (\<lambda>r u. snd u = snd v \<and> install_leaves base layout b (fst v) r (fst u)) (stop reason q)"
  by (simp add: stop_def effect_return install_leaves_def)

lemma History_phase: "History b s = (verdict, b') \<Longrightarrow> tb_phase b' = tb_phase b"
  by (auto simp: History_def split: option.splits dest: Counter_phase)

lemma effect_install_selected:
  assumes cas: "ta_compareExchange access \<noteq> None"
  shows "effect wok observed v (\<lambda>r u. snd u = snd v \<and> install_leaves base layout b (fst v) r (fst u))
    (install_selected b access layout epoch before)"
proof -
  obtain verdict b' where h: "History b before = (verdict, b')" by fastforce
  note ph = History_phase [OF h]
  have tail: "effect wok observed v (\<lambda>r u. snd u = snd v \<and> install_leaves base layout b (fst v) r (fst u))
      (do { writable \<leftarrow> DataRange access cell 8 True True;
            if \<not> writable then stop R_WriteFault b'
            else do { admitted \<leftarrow> Admit access;
              if \<not> admitted then stop R_LifecycleCrossing b'
              else install_exchange (b'\<lparr>tb_identity := ts_identity before, tb_epoch := epoch,
                    tb_haveIdentity := True, tb_inverseAttempted := False, tb_stranded := False,
                    tb_phase := Phase_Preparing\<rparr>) access layout cell before } })"
    if "builder_cell access layout (ts_identity before) = Some cell" for cell
    apply (rule effect_after [OF steady_DataRange], rule effect_if, rule install_stop [OF ph])
    apply (rule effect_after [OF steady_Admit], rule effect_if, rule install_stop [OF ph])
    apply (rule effect_install_exchange [OF cas])
    using builder_cell_at [OF that] by (simp_all add: bound_cell_def)
  show ?thesis
    unfolding install_selected_def h prod.case
    by (cases verdict; simp only: bool.case; intro effect_if effect_option install_stop install_faulted tail)
      (simp_all add: ph)
qed

lemma effect_InstallTaskBinding:
  "effect wok observed v (\<lambda>r u. snd u = snd v \<and> install_leaves base layout b (fst v) r (fst u))
    (InstallTaskBinding b access layout epoch)"
  unfolding InstallTaskBinding_def
  by (intro effect_after [OF steady_EntryReason] effect_if install_stop install_faulted
      effect_after [OF steady_ReadSelectedTask] effect_sum effect_install_selected) simp_all

section \<open>Reads of the bound task, validation and retirement\<close>

lemma visit_faulted:
  "effect wok observed v (\<lambda>r u. snd u = snd v \<and> visit_leaves base layout (fst v) r (fst u))
    (faulted (Fault q access layout reason True))"
  by (rule effect_conseq [OF effect_faulted]) (auto simp: visit_leaves_def)

lemma visit_stop:
  "effect wok observed v (\<lambda>r u. snd u = snd v \<and> visit_leaves base layout (fst v) r (fst u)) (stop reason q)"
  by (simp add: stop_def effect_return visit_leaves_def)

lemma visit_done:
  "bindable (fst v) base layout s \<Longrightarrow> selected_by (fst v) base layout s \<Longrightarrow>
   effect wok observed v (\<lambda>r u. snd u = snd v \<and> visit_leaves base layout (fst v) r (fst u))
     (State_Monad.return (reason, q, Some s))"
  by (simp add: effect_return visit_leaves_def)

lemma effect_ReadBoundTask:
  "effect wok observed v (\<lambda>r u. snd u = snd v \<and> visit_leaves base layout (fst v) r (fst u))
    (ReadBoundTask b access layout output)"
  unfolding ReadBoundTask_def
  by (intro effect_after [OF steady_EntryReason] effect_if visit_stop visit_faulted effect_after [OF steady_ReadTask]
      effect_sum effect_option visit_done) auto

lemma effect_classify_mismatch:
  assumes "snd u = snd v" and "fst u = fst v \<or> settles base layout (fst v) q (fst u)"
  shows "effect wok observed u (\<lambda>r u'. snd u' = snd v \<and> visit_leaves base layout (fst v) r (fst u'))
    (classify_mismatch q access layout reason)"
proof (cases "fst u = fst v")
  case True
  then have "u = v" using assms by (simp add: prod_eq_iff)
  then show ?thesis
    unfolding classify_mismatch_def
    by (auto intro!: effect_if effect_after [OF steady_ReadSelectedTask] visit_faulted visit_stop)
next
  case False
  then have "tb_phase q = Phase_Inert" using assms(2) by (auto simp: settles_def)
  then show ?thesis
    unfolding classify_mismatch_def using assms by (auto simp: stop_def visit_leaves_def intro!: effect_return)
qed

lemma effect_validate_bound:
  "effect wok observed v (\<lambda>r u. snd u = snd v \<and> visit_leaves base layout (fst v) r (fst u))
    (validate_bound b access layout)"
  unfolding validate_bound_def
proof (rule effect_bind [OF effect_ReadBoundTask], intro effect_case_prod effect_option, goal_cases)
  case (1 a u r p q out)
  then show ?case by (intro effect_classify_mismatch) (auto simp: visit_leaves_def)
next
  case (2 a u r p q out s)
  then have "u = v" "bindable (fst v) base layout s" "selected_by (fst v) base layout s"
    by (auto simp: visit_leaves_def prod_eq_iff)
  then show ?case by (auto intro!: effect_if visit_stop visit_faulted visit_done)
qed

lemma effect_ValidateBuilderTask:
  "effect wok observed v (\<lambda>r u. snd u = snd v \<and> visit_leaves base layout (fst v) r (fst u))
    (ValidateBuilderTask b access layout epoch holder output)"
  unfolding ValidateBuilderTask_def
  by (intro effect_after [OF steady_EntryReason] effect_if visit_stop effect_after [OF steady_Admit]
      effect_after [OF steady_local_error [OF steady_DataRead]] effect_validate_bound)

end

text \<open>
  What a retirement leaves.  A healthy one of a bound task leaves the cell without the
  wrapper, which it took out or found gone; a deferred one and a refusal touch nothing.
\<close>

definition retire_leaves ::
  "nat \<Rightarrow> TaskLayout \<Rightarrow> TaskBinding \<Rightarrow> (nat \<Rightarrow> byte) \<Rightarrow> Reason \<times> TaskBinding \<Rightarrow> (nat \<Rightarrow> byte) \<Rightarrow> bool" where
  "retire_leaves base layout b c = (\<lambda>(r, b') c'.
     if tb_phase b' = Phase_Inert then c' = c \<or> settles base layout c b' c'
     else if tb_haveIdentity b \<and> \<not> tb_haveIdentity b' then
       r = R_None \<and> tb_phase b' = Phase_Retired \<and> field c' (bound_cell base layout b) 8 \<noteq> tb_wrapper b \<and>
       (c' = c \<or> taken_out base layout b c c' \<and> field c' (bound_cell base layout b) 8 = tb_original b)
     else c' = c)"

context task_provider
begin

lemma retire_fault:
  "effect wok observed v (\<lambda>r u. snd u = snd v \<and> retire_leaves base layout b (fst v) r (fst u))
    (Fault q access layout reason True)"
  by (rule effect_conseq [OF effect_Fault]) (auto simp: retire_leaves_def settles_def)

lemma retire_same:
  "tb_haveIdentity q = tb_haveIdentity b \<or> tb_phase q = Phase_Inert \<Longrightarrow>
   effect wok observed v (\<lambda>r u. snd u = snd v \<and> retire_leaves base layout b (fst v) r (fst u))
     (State_Monad.return (reason, q))"
  by (auto simp: effect_return retire_leaves_def)

lemma slot_task_builder: "ts_builder (slot_task c base layout i) = field c (cell_at base layout i) 8"
  by (simp add: slot_task_def snapshot_of_def cell_at_def kBuilderOffset_def Let_def)

lemma effect_retire_idle:
  "effect wok observed v (\<lambda>r u. snd u = snd v \<and> retire_leaves base layout b (fst v) r (fst u))
    (retire_idle b access layout)"
proof -
  have look: "holds v (\<lambda>b'. b' = b \<or> b' = b\<lparr>tb_continuingTask := False\<rparr>)
      (if tb_continuingTask b then do {
         current \<leftarrow> SlotRead access layout (ti_slot (tb_lastIdentity b));
         State_Monad.return (case current of
             None \<Rightarrow> b\<lparr>tb_continuingTask := False\<rparr>
           | Some current \<Rightarrow>
               if ts_state current = 0 \<or> \<not> EqualTaskIdentity (ts_identity current) (tb_lastIdentity b) \<or>
                  ts_builder current \<noteq> tb_original b
               then b\<lparr>tb_continuingTask := False\<rparr> else b) }
       else State_Monad.return b)"
    by (intro steady_if steady_bind [OF steady_SlotRead] steady_return either_state) (rule disjI1, rule refl)
  show ?thesis
    unfolding retire_idle_def
    by (rule effect_after [OF look], rule retire_same) (elim disjE; simp)
qed

lemma steady_Fault_quiet: "holds v (\<lambda>r. snd r = latch_fault q reason) (Fault q access layout reason False)"
  unfolding Fault_def Let_def
  by (intro steady_bind [OF steady_get_error] steady_if steady_return steady_bind [OF steady_keep_error]
      steady_bind [where G = "\<lambda>b'. b' = latch_fault q reason"]) simp_all

lemma effect_retire_exchange:
  assumes "pages_ok (snd v) base True True cell (cell + 8)" and cell: "cell = bound_cell base layout b"
    and slot: "ti_slot (tb_identity b) < kTaskSlots" and b: "tb_haveIdentity b" "tb_wrapper b \<noteq> tb_original b"
  shows "effect wok observed v (\<lambda>r u. snd u = snd v \<and> retire_leaves base layout b (fst v) r (fst u))
    (retire_exchange b access layout cell current)"
proof -
  have swap: "effect wok observed v (\<lambda>(ok, seen) u. snd u = snd v \<and> (fst u = fst v \<and> \<not> (ok \<and> seen = tb_wrapper b) \<or>
       taken_out base layout b (fst v) (fst u)))
     (if owner \<and> ta_compareExchange access \<noteq> None
        then exchange access cell wrapper original else State_Monad.return (False, 0))"
    if [simp]: "wrapper = tb_wrapper b" "original = tb_original b" for owner wrapper original
  proof (rule effect_if)
    assume "owner \<and> ta_compareExchange access \<noteq> None"
    then show "effect wok observed v (\<lambda>(ok, seen) u. snd u = snd v \<and> (fst u = fst v \<and> \<not> (ok \<and> seen = tb_wrapper b) \<or>
        taken_out base layout b (fst v) (fst u))) (exchange access cell wrapper original)"
      by (intro effect_conseq [OF effect_exchange [OF _ assms(1)]])
        (use b slot in \<open>auto simp: taken_out_def cell\<close>)
  qed (simp add: effect_return)
  have keep: "holds u (\<lambda>_. True) (if p then keep_error e else State_Monad.return ())" for u p e
    by (intro steady_if steady_keep_error steady_return TrueI)
  have guard: "holds u (\<lambda>ok. ok \<longrightarrow> p) (allM [pureM p, Owner access])" for u p
    unfolding allM.simps
    by (intro steady_bind [OF steady_pure_eq] steady_bind [OF steady_Owner] steady_if steady_return) simp_all
  show ?thesis
    unfolding retire_exchange_def Let_def
    apply (rule effect_after [OF steady_Owner], rule effect_bind, rule swap, simp, simp)
    apply (rule effect_case_prod, rule effect_after [OF steady_get_error])
    apply (rule effect_after [OF steady_SlotRead], rule effect_after [OF keep], rule effect_after [OF guard])
    apply (rule effect_if, rule effect_steady [OF steady_Fault_quiet])
    using assms apply (auto simp: retire_leaves_def latch_fault_def settles_def accounted_def taken_out_def
        bound_cell_def slot_task_builder split: option.splits)[1]
    apply (rule effect_return)
    using assms by (auto simp: retire_leaves_def taken_out_def bound_cell_def slot_task_builder split: option.splits)
qed

lemma effect_retire_bound:
  assumes "tb_haveIdentity b" "tb_phase b \<noteq> Phase_Inert" "tb_wrapper b \<noteq> tb_original b"
  shows "effect wok observed v (\<lambda>r u. snd u = snd v \<and> retire_leaves base layout b (fst v) r (fst u))
    (retire_bound b access layout)"
  unfolding retire_bound_def
proof (rule effect_after [OF steady_SlotRead], intro effect_option effect_if retire_fault
    effect_after [OF steady_DataRange], goal_cases)
  case (1 read current)
  then show ?case
    by (auto intro!: effect_return simp: retire_leaves_def slot_task_builder bound_cell_def)
next
  case (2 read current)
  then show ?case using assms by (auto intro!: effect_return simp: retire_leaves_def)
next
  case (3 read current cell writable)
  then show ?case
    using assms builder_cell_at [of layout "tb_identity b" cell]
    by (intro effect_retire_exchange) (auto simp: bound_cell_def)
qed

lemma effect_RetireTaskBinding:
  "effect wok observed v (\<lambda>r u. snd u = snd v \<and> retire_leaves base layout b (fst v) r (fst u))
    (RetireTaskBinding b access layout fault)"
  unfolding RetireTaskBinding_def
  by (intro effect_after [OF steady_EntryReason] effect_if retire_same retire_fault effect_retire_idle effect_retire_bound)
    (auto simp: OriginalMatches_def)

end

end
