(* ===== verification/TaskProcess.thy ===== *)
theory TaskProcess
  imports TaskSwap Startup
begin

text \<open>
  The task binding over the process it runs in: the exchange of
  \<open>src/companion/steam_reporting_runtime.cpp\<close> over the interlocked operation of the platform,
  the access record the runtime passes, and what installation, validation and retirement
  leave in the process whenever its system calls are truthful.
\<close>

section \<open>The exchange of the runtime\<close>

definition ERROR_INVALID_STATE :: nat where "ERROR_INVALID_STATE = 5023"

text \<open>
  The interlocked operation gives the value it saw or the code of the exception it raised.
  The tests of null arguments are left out: the task code passes addresses of its own locals.
\<close>

definition Exchange ::
  "('w \<Rightarrow> bool \<times> 'w) \<Rightarrow> (nat \<Rightarrow> nat \<Rightarrow> nat \<Rightarrow> 'w \<Rightarrow> (nat + nat) \<times> 'w) \<Rightarrow> nat \<Rightarrow> nat \<Rightarrow> nat \<Rightarrow> ('w, bool \<times> nat) prog" where
  "Exchange safeOwner interlocked address expected desired =
     (if address = 0 \<or> and address 7 \<noteq> 0 then State_Monad.return (False, 0)
      else do {
        safe \<leftarrow> ask (Some safeOwner);
        if \<not> safe then do { _ \<leftarrow> set_error ERROR_INVALID_STATE; State_Monad.return (False, 0) }
        else State (\<lambda>(w, _). case interlocked address expected desired w of
            (Inl seen, w) \<Rightarrow> ((True, seen), (w, 0))
          | (Inr exception, w) \<Rightarrow> ((False, 0), (w, exception))) })"

text \<open>
  The engine: a process, the interlocked exchange on it, and the answers of the runtime's
  three predicates.  It behaves when the process is truthful and the exchange does what the
  platform documents: it stores the desired value exactly when it sees the expected one, and
  nothing else.  That a call succeeds is never assumed.
\<close>

record Engine =
  en_process :: Process
  en_exchange :: "nat \<Rightarrow> nat \<Rightarrow> nat \<Rightarrow> Process \<Rightarrow> (nat + nat) \<times> Process"
  en_admission :: "Process \<Rightarrow> bool"
  en_safeOwner :: "Process \<Rightarrow> bool"
  en_ownerThread :: "Process \<Rightarrow> bool"

definition exchanges :: "(nat \<Rightarrow> nat \<Rightarrow> nat \<Rightarrow> Process \<Rightarrow> (nat + nat) \<times> Process) \<Rightarrow> bool" where
  "exchanges x \<longleftrightarrow> (\<forall>a old new p r p'. truthful p \<longrightarrow> x a old new p = (r, p') \<longrightarrow>
     truthful p' \<and> os_page p' = os_page p \<and>
     (os_content p' = os_content p \<and> r \<noteq> Inl old \<or>
      field (os_content p) a 8 = old \<and> os_content p' = store8 a new (os_content p)))"

definition behaves :: "Engine \<Rightarrow> bool" where
  "behaves en \<longleftrightarrow> truthful (en_process en) \<and> exchanges (en_exchange en)"

definition engine_bytes :: "Engine \<Rightarrow> nat \<Rightarrow> byte" where
  "engine_bytes en = os_content (en_process en)"

definition engine_pages :: "Engine \<Rightarrow> nat \<Rightarrow> attributes" where
  "engine_pages en = os_page (en_process en)"

definition engine_asks :: "(Engine \<Rightarrow> Process \<Rightarrow> bool) \<Rightarrow> Engine \<Rightarrow> bool \<times> Engine" where
  "engine_asks f en = (f en (en_process en), en)"

definition engine_access :: "nat \<Rightarrow> nat \<Rightarrow> Engine TaskAccess" where
  "engine_access base imageSize =
    \<lparr>ta_memory = ProductionMemoryOps (\<lambda>a en. os_query (en_process en) a) (\<lambda>a n en. os_read (en_process en) a n),
     ta_hostBase = base, ta_hostImageSize = imageSize,
     ta_compareExchange = Some (Exchange (engine_asks en_safeOwner)
       (\<lambda>a old new en. case en_exchange en a old new (en_process en) of (r, p) \<Rightarrow> (r, en\<lparr>en_process := p\<rparr>))),
     ta_admission = Some (engine_asks en_admission), ta_safeOwner = Some (engine_asks en_safeOwner),
     ta_ownerThread = Some (engine_asks en_ownerThread)\<rparr>"

lemma engine_base [simp]: "ta_hostBase (engine_access base imageSize) = base"
  by (simp add: engine_access_def)

interpretation engine: task_provider "engine_access base imageSize" behaves engine_bytes engine_pages for base imageSize
proof (intro task_provider.intro task_provider_axioms.intro access_reader.intro access_reader_axioms.intro)
  show "memory_provider (ta_memory (engine_access base imageSize)) behaves engine_bytes engine_pages"
    by unfold_locales (auto simp: engine_access_def ProductionMemoryOps_def behaves_def truthful_def engine_bytes_def
        engine_pages_def split: sum.splits if_splits)
next
  show "behaves w' \<and> engine_bytes w' = engine_bytes w \<and> engine_pages w' = engine_pages w"
    if "Some f \<in> {ta_safeOwner (engine_access base imageSize), ta_admission (engine_access base imageSize),
        ta_ownerThread (engine_access base imageSize)}" "behaves w" "f w = (b, w')" for f w b w'
    using that by (auto simp: engine_access_def engine_asks_def)
next
  fix cas and w w' :: Engine and a old new e ok seen e'
  assume cas: "ta_compareExchange (engine_access base imageSize) = Some cas" and w: "behaves w"
    and run: "run_state (cas a old new) (w, e) = ((ok, seen), (w', e'))"
  obtain r p where x: "en_exchange w a old new (en_process w) = (r, p)" by fastforce
  have "truthful p \<and> os_page p = os_page (en_process w) \<and>
     (os_content p = os_content (en_process w) \<and> r \<noteq> Inl old \<or>
      field (os_content (en_process w)) a 8 = old \<and> os_content p = store8 a new (os_content (en_process w)))"
    using w x unfolding behaves_def exchanges_def by blast
  moreover have "cas = Exchange (engine_asks en_safeOwner)
       (\<lambda>a old new en. case en_exchange en a old new (en_process en) of (r, p) \<Rightarrow> (r, en\<lparr>en_process := p\<rparr>))"
    using cas by (simp add: engine_access_def)
  ultimately show "behaves w' \<and> engine_pages w' = engine_pages w \<and>
      (engine_bytes w' = engine_bytes w \<and> \<not> (ok \<and> seen = old) \<or>
       field (engine_bytes w) a 8 = old \<and> engine_bytes w' = store8 a new (engine_bytes w))"
    using run w x
    by (auto simp: Exchange_def ask_def engine_asks_def bind_def behaves_def engine_bytes_def engine_pages_def set_error_def
        split: if_splits sum.splits)
qed

end
