(* ===== verification/TaskSample.thy ===== *)
theory TaskSample
  imports TaskProcess
begin

text \<open>
  Read passes that succeed: when every guarded read of a span is served, a pass returns the
  task the pool shows, and installation and retirement run to success on a small image; and
  what installation, retirement and validation leave in any process.
\<close>

section \<open>Served reads\<close>

text \<open>
  From the worlds \<open>S\<close> and \<open>T\<close> every question is answered with yes and every guarded read
  inside \<open>[lo, hi)\<close> gives the bytes of \<open>c\<close> and ends in \<open>T\<close>.
\<close>

definition serves :: "'s TaskAccess \<Rightarrow> 's \<Rightarrow> 's \<Rightarrow> (nat \<Rightarrow> byte) \<Rightarrow> nat \<Rightarrow> nat \<Rightarrow> bool" where
  "serves access S T c lo hi \<longleftrightarrow>
     ta_ownerThread access \<noteq> None \<and> ta_safeOwner access \<noteq> None \<and> ta_admission access \<noteq> None \<and>
     (\<forall>x e. x = S \<or> x = T \<longrightarrow>
        run_state (ask (ta_ownerThread access)) (x, e) = (True, (x, e)) \<and>
        run_state (Owner access) (x, e) = (True, (x, e)) \<and> run_state (Admit access) (x, e) = (True, (x, e)) \<and>
        (\<forall>a n i wr. lo \<le> a \<and> 0 < n \<and> a + n \<le> hi \<longrightarrow>
           run_state (DataRange access a n i wr) (x, e) = (True, (T, 0)) \<and>
           run_state (DataRead access a n i) (x, e) = (Some (bytes_at c a n), (T, 0))))"

lemma servesD:
  assumes "serves access S T c lo hi" and "x = S \<or> x = T"
  shows "run_state (ask (ta_ownerThread access)) (x, e) = (True, (x, e))"
    and "run_state (Owner access) (x, e) = (True, (x, e))"
    and "run_state (Admit access) (x, e) = (True, (x, e))"
    and "lo \<le> a \<Longrightarrow> 0 < n \<Longrightarrow> a + n \<le> hi \<Longrightarrow> run_state (DataRange access a n i wr) (x, e) = (True, (T, 0))"
    and "lo \<le> a \<Longrightarrow> 0 < n \<Longrightarrow> a + n \<le> hi \<Longrightarrow>
      run_state (DataRead access a n i) (x, e) = (Some (bytes_at c a n), (T, 0))"
  using assms unfolding serves_def by blast+

lemma run_optM: "run_state (optM m f) s = (case run_state m s of (r, t) \<Rightarrow>
    case r of None \<Rightarrow> (None, t) | Some a \<Rightarrow> run_state (f a) t)"
  by (auto simp: optM_def bind_def split: prod.splits option.splits)

lemma run_proceed: "run_state (proceed m f) s = (case run_state m s of (r, t) \<Rightarrow>
    case r of Inl e \<Rightarrow> (Inl e, t) | Inr a \<Rightarrow> run_state (f a) t)"
  by (auto simp: proceed_def bind_def split: prod.splits sum.splits)

lemma run_demand: "run_state (demand m e) s = (case run_state m s of (r, t) \<Rightarrow>
    (case r of None \<Rightarrow> Inl e | Some a \<Rightarrow> Inr a, t))"
  by (auto simp: demand_def bind_def split: prod.splits)

lemma run_require: "run_state (require m e) s = (case run_state m s of (ok, t) \<Rightarrow> (if ok then Inr () else Inl e, t))"
  by (auto simp: require_def bind_def split: prod.splits)

lemma run_pass: "run_state (pass r) s = (if r = R_None then Inr () else Inl r, s)"
  by (simp add: pass_def)

lemma run_return: "run_state (State_Monad.return a) s = (a, s)"
  by simp

lemma run_bind: "run_state (m \<bind> f) s = (case run_state m s of (a, t) \<Rightarrow> run_state (f a) t)"
  by (simp add: bind_def)

lemmas runs = run_optM run_proceed run_demand run_require run_pass run_bind run_return run_pureM

text \<open>A layout inside the served span.\<close>

definition placed :: "'s TaskAccess \<Rightarrow> TaskLayout \<Rightarrow> nat \<Rightarrow> nat \<Rightarrow> bool" where
  "placed access layout lo hi \<longleftrightarrow> LayoutValid access layout \<and> lo \<le> ta_hostBase access \<and>
     ta_hostBase access + ta_hostImageSize access \<le> hi \<and> tl_poolRva layout + kTaskSlots * kStride < 2 ^ 32"

lemma Address_in:
  assumes "Address access rva n \<noteq> None" and "placed access layout lo hi"
  shows "Address access rva n = Some (ta_hostBase access + rva) \<and> lo \<le> ta_hostBase access + rva \<and>
    ta_hostBase access + rva + n \<le> hi \<and> 0 < n"
  using assms by (auto simp: Address_def placed_def split: if_splits)

lemma placed_valid: "placed access layout lo hi \<Longrightarrow> LayoutValid access layout"
  by (simp add: placed_def)

lemma slot_in:
  assumes pl: "placed access layout lo hi" and i: "i < kTaskSlots"
  shows "SlotAddress access layout i = Some (slot_at (ta_hostBase access) layout i) \<and>
    lo \<le> slot_at (ta_hostBase access) layout i \<and> slot_at (ta_hostBase access) layout i + kStride \<le> hi"
proof -
  have "Address access (tl_poolRva layout) (kTaskSlots * kStride) \<noteq> None"
    using placed_valid [OF pl] by (simp add: LayoutValid_def split: if_splits)
  moreover have "i * kStride + kStride \<le> kTaskSlots * kStride" "i * kStride \<le> kTaskSlots * kStride"
    using i by (simp_all add: kTaskSlots_def kStride_def)
  ultimately show ?thesis
    using pl i by (auto simp: Address_def placed_def SlotAddress_def slot_at_def kStride_def split: if_splits)
qed

lemma run_ImageRead:
  assumes v: "serves access S T c lo hi" and pl: "placed access layout lo hi" and x: "x = S \<or> x = T"
    and a: "Address access rva n \<noteq> None"
  shows "run_state (ImageRead access rva n) (x, e) = (Some (bytes_at c (ta_hostBase access + rva) n), (T, 0))"
  using Address_in [OF a pl] servesD(5) [OF v x] by (simp add: ImageRead_def)

lemma run_registry:
  assumes v: "serves access S T c lo hi" and pl: "placed access layout lo hi" and x: "x = S \<or> x = T"
  shows "run_state (ImageRead access (tl_registryRva layout) 8) (x, e) =
    (Some (bytes_at c (ta_hostBase access + tl_registryRva layout) 8), (T, 0))"
  by (rule run_ImageRead [OF v pl x]) (use placed_valid [OF pl] in \<open>simp add: LayoutValid_def split: if_splits\<close>)

lemma run_read_globals:
  assumes v: "serves access S T c lo hi" and pl: "placed access layout lo hi" and x: "x = S \<or> x = T"
  shows "run_state (read_globals access layout) (x, e) =
    (Some (field c (ta_hostBase access + tl_selectedIdRva layout) 4, field c (ta_hostBase access + tl_invalidIdRva layout) 4,
       field c (ta_hostBase access + tl_counterRva layout) 4, field c (ta_hostBase access + tl_serviceStateRva layout) 4), (T, 0))"
proof -
  have "Address access (tl_selectedIdRva layout) 4 \<noteq> None" "Address access (tl_invalidIdRva layout) 4 \<noteq> None"
    "Address access (tl_counterRva layout) 4 \<noteq> None" "Address access (tl_serviceStateRva layout) 4 \<noteq> None"
    using placed_valid [OF pl] by (simp_all add: LayoutValid_def split: if_splits)
  then show ?thesis using x
    by (auto simp: read_globals_def run_optM run_ImageRead [OF v pl] field_def)
qed

lemma run_SlotRead:
  assumes v: "serves access S T c lo hi" and pl: "placed access layout lo hi" and x: "x = S \<or> x = T" and i: "i < kTaskSlots"
  shows "run_state (SlotRead access layout i) (x, e) = (Some (slot_task c (ta_hostBase access) layout i), (T, 0))"
  using slot_in [OF pl i] x
  by (auto simp: SlotRead_def run_optM servesD(5) [OF v] run_registry [OF v pl] kStride_def kBuilderOffset_def slot_task_def
      slice_bytes_at_field Let_def field_def [symmetric])

lemma run_SlotAuthorityRead:
  assumes v: "serves access S T c lo hi" and pl: "placed access layout lo hi" and x: "x = S \<or> x = T" and i: "i < kTaskSlots"
  shows "run_state (SlotAuthorityRead access layout i) (x, e) =
    (Some (slot_task c (ta_hostBase access) layout i, slot_authority c (ta_hostBase access) layout i), (T, 0))"
  using slot_in [OF pl i] x
  by (auto simp: SlotAuthorityRead_def authority_fields_def run_optM run_bind servesD(5) [OF v] run_registry [OF v pl] kStride_def
      slot_task_def slot_authority_def slice_bytes_at slice_bytes_at_field Let_def field_def [symmetric] add.commute add.left_commute)

lemma run_ReadSchedule:
  assumes v: "serves access S T c lo hi" and pl: "placed access layout lo hi" and x: "x = S \<or> x = T"
    and i: "ti_slot identity < kTaskSlots" and m: "lo \<le> ti_metadata identity" "0 < ti_metadata identity"
      "ti_metadata identity + 0x20 \<le> hi" "hi \<le> u64_max"
  shows "\<exists>schedule. \<forall>x e. x = S \<or> x = T \<longrightarrow> run_state (ReadSchedule access layout identity) (x, e) = (Some schedule, (T, 0))"
  using slot_in [OF pl i] m
  by (auto simp: ReadSchedule_def run_optM servesD(5) [OF v] kStride_def)

section \<open>A served pass returns the task\<close>

lemma run_scan_rest:
  assumes v: "serves access S T c lo hi" and pl: "placed access layout lo hi"
  shows "list_all (\<lambda>i. i < kTaskSlots \<and> \<not> matches c (ta_hostBase access) layout ident i) indices \<Longrightarrow>
    run_state (scan_slots access layout ident indices (Some t)) (T, 0) = (Inr t, (T, 0))"
proof (induction indices)
  case (Cons i rest)
  then show ?case using slot_in [OF pl, of i]
    by (auto simp: runs run_demand servesD(5) [OF v] kStride_def matches_def slice_bytes_at_field)
qed simp

lemma run_scan:
  assumes v: "serves access S T c lo hi" and pl: "placed access layout lo hi"
    and m: "matches c (ta_hostBase access) layout ident i" "i \<in> set indices" "distinct indices"
    and sole: "list_all (\<lambda>j. j < kTaskSlots \<and> (matches c (ta_hostBase access) layout ident j \<longrightarrow> j = i)) indices"
    and x: "x = S \<or> x = T"
  shows "run_state (scan_slots access layout ident indices None) (x, e) =
    (Inr (slot_task c (ta_hostBase access) layout i, slot_authority c (ta_hostBase access) layout i), (T, 0))"
  using m(2,3) sole x
proof (induction indices arbitrary: x e)
  case (Cons j rest)
  have j: "j < kTaskSlots" using Cons.prems by simp
  note slot = slot_in [OF pl j]
  have header: "run_state (DataRead access (slot_at (ta_hostBase access) layout j) 8 True) (x, e) =
      (Some (bytes_at c (slot_at (ta_hostBase access) layout j) 8), (T, 0))"
    using slot by (intro servesD(5) [OF v Cons.prems(4)]) (simp_all add: kStride_def)
  show ?case
  proof (cases "j = i")
    case True
    then have "list_all (\<lambda>k. k < kTaskSlots \<and> \<not> matches c (ta_hostBase access) layout ident k) rest"
      using Cons.prems by (auto simp: list_all_iff)
    note rest = run_scan_rest [OF v pl this]
    have auth: "run_state (SlotAuthorityRead access layout i) (T, 0) =
        (Some (slot_task c (ta_hostBase access) layout i, slot_authority c (ta_hostBase access) layout i), (T, 0))"
      using run_SlotAuthorityRead [OF v pl _ j, of T 0] True by simp
    have "ts_state (slot_task c (ta_hostBase access) layout i) = field c (slot_at (ta_hostBase access) layout i) 4"
      "ti_id (ts_identity (slot_task c (ta_hostBase access) layout i)) = field c (slot_at (ta_hostBase access) layout i + 4) 4"
      by (simp_all add: slot_task_def snapshot_of_def Let_def)
    then show ?thesis using True header slot m(1) auth rest
      by (simp add: runs matches_def slice_bytes_at_field)
  next
    case False
    then have "\<not> matches c (ta_hostBase access) layout ident j" using Cons.prems by simp
    then show ?thesis using False header slot Cons.IH [of T 0] Cons.prems
      by (auto simp: runs matches_def slice_bytes_at_field)
  qed
qed simp

lemma run_qualify:
  assumes v: "serves access S T c lo hi" and b: "bindable c (ta_hostBase access) layout t"
    and t: "ts_identity s = ts_identity t" "ts_state s = ts_state t" "ts_builder s = ts_builder t"
    and a: "a = slot_authority c (ta_hostBase access) layout (ti_slot (ts_identity t))"
    and m: "lo \<le> ti_metadata (ts_identity t)" "ti_metadata (ts_identity t) + 8 \<le> hi" "and (ti_metadata (ts_identity t)) 7 = 0"
    and c: "lo \<le> ti_component (ts_identity t)" "ti_component (ts_identity t) < hi"
    and x: "x = S \<or> x = T"
  shows "run_state (qualify_task access layout s a) (x, e) = (Inr (), (T, 0))"
  using b t a m c x
  by (auto simp: qualify_task_def runs vtable_is_def bindable_def Let_def servesD(4,5) [OF v] field_def [symmetric])

lemma slot_task_fields:
  "ts_state (slot_task c base layout i) = field c (slot_at base layout i) 4"
  "ti_id (ts_identity (slot_task c base layout i)) = field c (slot_at base layout i + 4) 4"
  "ti_slot (ts_identity (slot_task c base layout i)) = i"
  by (simp_all add: slot_task_def snapshot_of_def Let_def)

text \<open>What the pool must show, and where, for a pass to return its task.\<close>

definition showing :: "'s TaskAccess \<Rightarrow> TaskLayout \<Rightarrow> nat \<Rightarrow> nat \<Rightarrow> (nat \<Rightarrow> byte) \<Rightarrow> TaskSnapshot \<Rightarrow> bool" where
  "showing access layout lo hi c t \<longleftrightarrow>
     bindable c (ta_hostBase access) layout t \<and> selected_by c (ta_hostBase access) layout t \<and>
     sole_task (ta_hostBase access) c layout t \<and>
     lo \<le> ti_metadata (ts_identity t) \<and> ti_metadata (ts_identity t) + 0x20 \<le> hi \<and> hi \<le> u64_max \<and>
     and (ti_metadata (ts_identity t)) 7 = 0 \<and>
     lo \<le> ti_component (ts_identity t) \<and> ti_component (ts_identity t) < hi"

lemma served_pass_returns:
  assumes v: "serves access S T c lo hi" and pl: "placed access layout lo hi" and sh: "showing access layout lo hi c t"
    and reset: "\<And>x e. x = S \<or> x = T \<Longrightarrow> run_state reset (x, e) = ((), (S, e))"
  shows "\<exists>s. run_state (read_pass access reset layout None 0 True) (S, e) = (Inr s, (T, 0)) \<and>
    ts_identity s = ts_identity t \<and> ts_state s = ts_state t \<and> ts_builder s = ts_builder t \<and>
    ts_nativeCounter s = ts_nativeCounter t"
proof -
  let ?b = "ta_hostBase access"
  define i where "i = ti_slot (ts_identity t)"
  let ?g = "(field c (?b + tl_selectedIdRva layout) 4, field c (?b + tl_invalidIdRva layout) 4,
       field c (?b + tl_counterRva layout) 4, field c (?b + tl_serviceStateRva layout) 4)"
  let ?t = "slot_task c ?b layout i" and ?a = "slot_authority c ?b layout i"
  have b: "bindable c ?b layout t" and sel: "selected_by c ?b layout t" and sole: "sole_task ?b c layout t"
    using sh by (simp_all add: showing_def)
  have i: "i < kTaskSlots" and same: "ts_identity t = ts_identity ?t" "ts_state t = ts_state ?t" "ts_builder t = ts_builder ?t"
    and live: "2 \<le> ts_state ?t" and auth: "authority_clear ?a" "sa_interval ?a = kInterval"
    and table: "field c (ti_metadata (ts_identity ?t)) 8 = ?b + tl_metadataVtableRva layout"
    using b unfolding bindable_def Let_def i_def by metis+
  have ident: "field c (?b + tl_selectedIdRva layout) 4 = ti_id (ts_identity ?t)"
    using sel same by (simp add: selected_by_def)
  have g: "globals_reason None 0 ?g = R_None" using sel by (auto simp: globals_reason_def selected_by_def)
  have m: "matches c ?b layout (fst ?g) i"
    using live ident by (simp add: matches_def slot_task_fields)
  have scan: "run_state (select_task access layout None (fst ?g)) (T, 0) = (Inr (?t, ?a), (T, 0))"
    unfolding select_task_def option.case
    by (rule run_scan [OF v pl m]) (use sole ident i same in \<open>auto simp: list_all_iff sole_task_def slot_task_fields\<close>)
  have span: "lo \<le> ti_metadata (ts_identity ?t)" "ti_metadata (ts_identity ?t) + 0x20 \<le> hi" "hi \<le> u64_max"
    "and (ti_metadata (ts_identity ?t)) 7 = 0" "lo \<le> ti_component (ts_identity ?t)" "ti_component (ts_identity ?t) < hi"
    using sh same by (simp_all add: showing_def)
  have qual: "run_state (qualify_task access layout ?t ?a) (T, 0) = (Inr (), (T, 0))"
    by (rule run_qualify [OF v b]) (use span same in \<open>simp_all add: slot_task_fields\<close>)
  have "0 < ti_metadata (ts_identity ?t)" using b same by (simp add: bindable_def Let_def)
  then obtain schedule where sched: "\<And>x e. x = S \<or> x = T \<Longrightarrow>
      run_state (ReadSchedule access layout (ts_identity ?t)) (x, e) = (Some schedule, (T, 0))"
    using run_ReadSchedule [OF v pl, of S "ts_identity ?t"] span i by (auto simp: slot_task_fields)
  have vt: "run_state (vtable_is access (ti_metadata (ts_identity ?t)) (?b + tl_metadataVtableRva layout)) (T, 0) = (True, (T, 0))"
    using span table by (simp add: vtable_is_def runs servesD(5) [OF v] field_def [symmetric])
  have again: "run_state (SlotAuthorityRead access layout i) (x, e) = (Some (?t, ?a), (T, 0))" if "x = S \<or> x = T" for x e
    by (rule run_SlotAuthorityRead [OF v pl that i])
  have globals: "run_state (read_globals access layout) (x, e) = (Some ?g, (T, 0))" if "x = S \<or> x = T" for x e
    by (rule run_read_globals [OF v pl that])
  have re: "run_state (recheck_task access reset layout None 0 ?g ?t ?a) (T, 0) = (Inr ?t, (T, 0))"
    unfolding recheck_task_def prod.case
    by (simp add: runs reset again globals slot_task_fields(3) auth vt servesD(2,3) [OF v])
  have entry: "run_state (EntryReason access) (S, e) = (R_None, (S, e))"
    using v by (simp add: EntryReason_def runs servesD(1,2) [OF v]) (simp add: serves_def)
  obtain g where g': "g = ?g" by simp
  have counter: "fst (snd (snd g)) = ts_nativeCounter t" using sel by (simp add: g' selected_by_def)
  show ?thesis
    using same
    by (simp add: read_pass_def runs entry placed_valid [OF pl] servesD(2,3) [OF v] globals [folded g'] g [folded g']
        scan [folded g'] qual sched re [folded g'] counter observe_schedule_def EqualTaskSchedule_def)
qed

section \<open>An image in one region\<close>

lemma loop_done: "data_range_loop access q finish inImage wr k finish = State_Monad.return (Some finish)"
  by (cases k) simp_all

lemma serves_region:
  assumes some: "ta_ownerThread access \<noteq> None" "ta_safeOwner access \<noteq> None" "ta_admission access \<noteq> None"
    and asks: "\<And>q x e. q \<in> {ta_ownerThread access, ta_safeOwner access, ta_admission access} \<Longrightarrow> x = S \<or> x = T \<Longrightarrow>
      run_state (ask q) (x, e) = (True, (x, e))"
    and q: "mo_query (ta_memory access) = Some q" and rd: "mo_read (ta_memory access) = Some rd"
    and query: "\<And>a x e. x = S \<or> x = T \<Longrightarrow> lo \<le> a \<Longrightarrow> a < hi \<Longrightarrow> run_state (q a) (x, e) = (Some r, (T, 0))"
    and read: "\<And>a n e. run_state (rd a n) (T, e) = (Some (bytes_at c a n), (T, 0))"
    and ok: "\<And>a i wr. lo \<le> a \<Longrightarrow> a < hi \<Longrightarrow> data_region_ok access a i wr r"
    and span: "mr_base r + mr_size r = hi" "0 < lo" "hi \<le> u64_max"
  shows "serves access S T c lo hi"
proof -
  have owner: "run_state (Owner access) (x, e) = (True, (x, e))" if "x = S \<or> x = T" for x e
    using asks that by (simp add: Owner_def)
  have admit: "run_state (Admit access) (x, e) = (True, (x, e))" if "x = S \<or> x = T" for x e
    using asks that by (simp add: Admit_def)
  have loop: "run_state (data_range_loop access q (a + n) i wr (Suc k) a) (x, e) = (Some (a + n), (T, 0))"
    if "x = S \<or> x = T" "lo \<le> a" "0 < n" "a + n \<le> hi" for x e a n i wr k
    using that ok [of a i wr] span
    by (auto simp: runs owner query loop_done)
  have range: "run_state (DataRange access a n i wr) (x, e) = (True, (T, 0))"
    if "x = S \<or> x = T" "lo \<le> a" "0 < n" "a + n \<le> hi" for x e a n i wr
    using loop [OF that, of i wr 15 e] that span
    by (auto simp: DataRange_def runs owner q simp del: data_range_loop.simps)
  have "run_state (DataRead access a n i) (x, e) = (Some (bytes_at c a n), (T, 0))"
    if "x = S \<or> x = T" "lo \<le> a" "0 < n" "a + n \<le> hi" for x e a n i
    using range [OF that, of i False e] by (simp add: DataRead_def runs rd read owner)
  with range owner admit asks some show ?thesis unfolding serves_def by simp
qed

definition sample_region :: MemoryRegion where
  "sample_region = \<lparr>mr_base = 65536, mr_allocationBase = 65536, mr_size = 0x8000, mr_state = MEM_COMMIT,
     mr_type = MEM_IMAGE, mr_protect = PAGE_READWRITE\<rparr>"

definition sample_engine :: "(nat \<Rightarrow> byte) \<Rightarrow> Engine" where
  "sample_engine c =
    \<lparr>en_process = \<lparr>os_query = (\<lambda>a. if 65536 \<le> a \<and> a < 98304 then Inl sample_region else Inr ERROR_INVALID_ADDRESS),
       os_read = (\<lambda>a n. Inl (bytes_at c a n)), os_content = c,
       os_page = (\<lambda>a. if 65536 \<le> a \<and> a < 98304 then region_attributes sample_region else (0, 0, 0, 0))\<rparr>,
     en_exchange = (\<lambda>a old new p. if field (os_content p) a 8 = old
       then (Inl old, p\<lparr>os_read := (\<lambda>x n. Inl (bytes_at (store8 a new (os_content p)) x n)),
         os_content := store8 a new (os_content p)\<rparr>)
       else (Inl (field (os_content p) a 8), p)),
     en_admission = (\<lambda>_. True), en_safeOwner = (\<lambda>_. True), en_ownerThread = (\<lambda>_. True)\<rparr>"

abbreviation sample_access :: "Engine TaskAccess" where "sample_access \<equiv> engine_access 65536 0x8000"

lemma sample_behaves: "behaves (sample_engine c)"
proof -
  have "truthful (en_process (sample_engine c))"
    by (auto simp: truthful_def sample_engine_def describes_def sample_region_def region_attributes_def split: if_splits)
  moreover have "exchanges (en_exchange (sample_engine c))"
    by (auto simp: exchanges_def sample_engine_def truthful_def split: if_splits)
  ultimately show ?thesis by (simp add: behaves_def)
qed

lemma sample_exchange:
  "and a 7 = 0 \<Longrightarrow> 0 < a \<Longrightarrow> run_state (exchange sample_access a old new) (sample_engine c, e) =
    ((True, field c a 8), (sample_engine (if field c a 8 = old then store8 a new c else c), 0))"
  by (simp add: exchange_def engine_access_def Exchange_def ask_def engine_asks_def bind_def)
    (simp add: sample_engine_def)

lemma sample_region_ok: "65536 \<le> a \<Longrightarrow> a < 98304 \<Longrightarrow> ta_hostBase access = 65536 \<Longrightarrow> data_region_ok access a i wr sample_region"
  by (simp add: data_region_ok_def sample_region_def)

definition sample_query :: "nat \<Rightarrow> (Engine, MemoryRegion option) prog" where
  "sample_query = the (mo_query (ta_memory sample_access))"

definition sample_read :: "nat \<Rightarrow> nat \<Rightarrow> (Engine, byte list option) prog" where
  "sample_read = the (mo_read (ta_memory sample_access))"

lemma sample_ops: "ta_memory sample_access = \<lparr>mo_query = Some sample_query, mo_read = Some sample_read\<rparr>"
  by (simp add: sample_query_def sample_read_def engine_access_def ProductionMemoryOps_def)

lemma run_sample_query:
  "65536 \<le> a \<Longrightarrow> a < 98304 \<Longrightarrow> run_state (sample_query a) (sample_engine c, e) = (Some sample_region, (sample_engine c, 0))"
  by (simp add: sample_query_def engine_access_def ProductionMemoryOps_def) (simp add: sample_engine_def)

lemma run_sample_read: "run_state (sample_read a n) (sample_engine c, e) = (Some (bytes_at c a n), (sample_engine c, 0))"
  by (simp add: sample_read_def engine_access_def ProductionMemoryOps_def) (simp add: sample_engine_def)

lemma sample_asks:
  "ta_ownerThread sample_access = Some (engine_asks en_ownerThread)" "ta_safeOwner sample_access = Some (engine_asks en_safeOwner)"
  "ta_admission sample_access = Some (engine_asks en_admission)"
  "engine_asks en_ownerThread (sample_engine c) = (True, sample_engine c)"
  "engine_asks en_safeOwner (sample_engine c) = (True, sample_engine c)"
  "engine_asks en_admission (sample_engine c) = (True, sample_engine c)"
  by (simp_all add: engine_access_def engine_asks_def) (simp_all add: sample_engine_def)

lemma sample_span: "mr_base sample_region + mr_size sample_region = 98304"
  by (simp add: sample_region_def)

lemma sample_serves: "serves sample_access (sample_engine c) (sample_engine c) c 65536 98304"
  by (rule serves_region [where q = sample_query and rd = sample_read and r = sample_region])
    (auto simp: sample_region_ok sample_ops sample_asks run_sample_query run_sample_read ask_def sample_span)

lemma sample_scope_serves:
  "serves (scoped_access sample_access) (sample_engine c, []) (sample_engine c, [sample_region]) c 65536 98304"
proof (rule serves_region [where q = "ScopeQuery sample_query" and rd = "\<lambda>a n. outside (sample_read a n)" and r = sample_region])
  have "Cacheable sample_region a \<and> in_region a sample_region" if "65536 \<le> a" "a < 98304" for a
    using that by (auto simp: Cacheable_def in_region_def sample_region_def MEM_COMMIT_def MEM_IMAGE_def MEM_PRIVATE_def)
  then show "run_state (ScopeQuery sample_query a) (x, e) = (Some sample_region, ((sample_engine c, [sample_region]), 0))"
    if "x = (sample_engine c, []) \<or> x = (sample_engine c, [sample_region])" "65536 \<le> a" "a < 98304" for a x e
    using that by (auto simp: run_ScopeQuery run_sample_query kReadScopeRegions_def)
qed (auto simp: scoped_access_def ScopeOps_def sample_region_ok sample_ops sample_asks run_sample_read ask_def
    sample_span outside_def scope_question_def)

section \<open>A pool with one task\<close>

definition sample_layout :: TaskLayout where
  "sample_layout =
    \<lparr>tl_poolRva = 0x1000, tl_selectedIdRva = 0x100, tl_invalidIdRva = 0x104, tl_counterRva = 0x108,
     tl_registryRva = 0x110, tl_metadataVtableRva = 0x200, tl_builderRva = 0x300, tl_serviceStateRva = 0x10C\<rparr>"

text \<open>Slot 0 holds task 7 of a counter at 9, queued, with \<open>builder\<close> in its builder cell.\<close>

definition sample_pool :: "nat \<Rightarrow> nat \<Rightarrow> byte" where
  "sample_pool builder =
     store8 69696 builder (store8 69632 (2 + 7 * 2 ^ 32) (store8 69640 66816 (store8 69688 (43 * 2 ^ 16)
       (store8 69728 30000 (store8 65792 7 (store8 65800 (9 + 3 * 2 ^ 32) (store8 65808 66560 (store8 66560 66048
         (\<lambda>_. 0)))))))))"

lemma field_store8_other: "a' + n \<le> a \<or> a + 8 \<le> a' \<Longrightarrow> field (store8 a v c) a' n = field c a' n"
  by (auto simp: field_def bytes_at_def store8_def intro!: arg_cong [where f = le_nat])

lemma field_zero: "field (\<lambda>_. 0) a n = 0"
proof -
  have "le_nat (replicate n 0) = 0" by (induction n) simp_all
  then have "le_nat (map (\<lambda>i. 0) [0..<n]) = 0" by (simp add: map_replicate_const)
  then show ?thesis by (simp add: field_def bytes_at_def)
qed

lemma le_nat_take_drop: "le_nat (take k bs) = le_nat bs mod 256 ^ k \<and> le_nat (drop k bs) = le_nat bs div 256 ^ k"
proof (induction bs arbitrary: k)
  case (Cons b bs)
  have "unat b < 256" using unsigned_less [of b] by simp
  then show ?case
    using Cons [of "k - 1"] by (cases k) (auto simp: mod_mult2_eq div_mult2_eq)
qed simp

lemma field_store8_low:
  assumes "v \<le> u64_max"
  shows "field (store8 a v c) a 4 = v mod 2 ^ 32"
proof -
  have "bytes_at (store8 a v c) a 4 = take 4 (le_bytes 8 v)" by (rule nth_equalityI) (simp_all add: store8_def)
  then show ?thesis using assms le_nat_take_drop [of 4 "le_bytes 8 v"] by (simp add: field_def le_nat_le_bytes)
qed

lemma field_store8_high:
  assumes "v \<le> u64_max"
  shows "field (store8 a v c) (a + 4) 4 = v div 2 ^ 32"
proof -
  have "bytes_at (store8 a v c) (a + 4) 4 = drop 4 (le_bytes 8 v)"
    by (rule nth_equalityI) (simp_all add: store8_def ac_simps)
  then show ?thesis using assms le_nat_take_drop [of 4 "le_bytes 8 v"] by (simp add: field_def le_nat_le_bytes)
qed

lemma sample_fields:
  "field (sample_pool b) 69632 4 = 2" "field (sample_pool b) 69636 4 = 7" "field (sample_pool b) 69640 8 = 66816"
  "field (sample_pool b) 69688 4 = 43 * 2 ^ 16" "b \<le> u64_max \<Longrightarrow> field (sample_pool b) 69696 8 = b"
  "field (sample_pool b) 65808 8 = 66560" "field (sample_pool b) 69704 8 = 0" "field (sample_pool b) 69712 8 = 0"
  "field (sample_pool b) 69728 8 = 30000" "field (sample_pool b) 66560 8 = 66048"
  "field (sample_pool b) 65792 4 = 7" "field (sample_pool b) 65796 4 = 0" "field (sample_pool b) 65800 4 = 9"
  "field (sample_pool b) 65804 4 = 3"
  using field_store8_high [of _ 69632] field_store8_high [of _ 65792] field_store8_high [of _ 65800]
  by (simp_all add: sample_pool_def field_store8_other field_zero field_store8 field_store8_low)

lemma sample_placed: "placed sample_access sample_layout 65536 98304" "placed (scoped_access sample_access) sample_layout 65536 98304"
  by (simp_all add: placed_def LayoutValid_def Address_def scoped_access_def ScopeOps_def engine_access_def
      ProductionMemoryOps_def sample_layout_def kTaskSlots_def kStride_def)

lemma sample_empty: "0 < j \<Longrightarrow> field (sample_pool b) (slot_at 65536 sample_layout j) 4 = 0 \<or> kTaskSlots \<le> j"
  by (auto simp: sample_pool_def field_store8_other field_zero slot_at_def sample_layout_def kStride_def kTaskSlots_def)

definition sample_task :: "nat \<Rightarrow> TaskSnapshot" where
  "sample_task b = (snapshot_of 0 2 7 66816 (43 * 2 ^ 16) b 66560)\<lparr>ts_nativeCounter := 9\<rparr>"

lemma sample_slot: "slot_at 65536 sample_layout 0 = 69632"
  by (simp add: slot_at_def sample_layout_def)

lemma sample_rvas:
  "tl_selectedIdRva sample_layout = 0x100" "tl_invalidIdRva sample_layout = 0x104" "tl_counterRva sample_layout = 0x108"
  "tl_registryRva sample_layout = 0x110" "tl_metadataVtableRva sample_layout = 0x200" "tl_builderRva sample_layout = 0x300"
  "tl_serviceStateRva sample_layout = 0x10C"
  by (simp_all add: sample_layout_def)

lemma sample_showing:
  assumes "ta_hostBase access = 65536" "0 < b" "b \<le> u64_max"
  shows "showing access sample_layout 65536 98304 (sample_pool b) (sample_task b)"
proof -
  have "j = 0" if "j < kTaskSlots" "matches (sample_pool b) 65536 sample_layout ident j" for j ident
    using that sample_empty [of j b] by (auto simp: matches_def)
  then have "sole_task 65536 (sample_pool b) sample_layout (sample_task b)"
    by (simp add: sole_task_def sample_task_def snapshot_of_def)
  moreover have "bindable (sample_pool b) 65536 sample_layout (sample_task b)"
    using assms by (simp add: bindable_def sample_task_def snapshot_of_def Let_def slot_task_def slot_authority_def
        sample_slot sample_fields sample_rvas authority_clear_def kHolderType_def kInterval_def kTaskSlots_def)
  moreover have "selected_by (sample_pool b) 65536 sample_layout (sample_task b)"
    by (simp add: selected_by_def sample_task_def snapshot_of_def sample_rvas sample_fields)
  ultimately show ?thesis
    using assms(1) by (simp add: showing_def) (simp add: sample_task_def snapshot_of_def)
qed

lemma sample_read_selected:
  assumes "0 < b" "b \<le> u64_max"
  shows "\<exists>s. run_state (ReadSelectedTask sample_access sample_layout True) (sample_engine (sample_pool b), e) =
      (Inr s, (sample_engine (sample_pool b), e)) \<and> ts_identity s = ts_identity (sample_task b) \<and>
      ts_state s = 2 \<and> ts_builder s = b \<and> ts_nativeCounter s = 9"
proof -
  obtain s where "run_state (read_pass (scoped_access sample_access) ScopeReset sample_layout None 0 True)
      ((sample_engine (sample_pool b), []), 0) = (Inr s, ((sample_engine (sample_pool b), [sample_region]), 0))"
    "ts_identity s = ts_identity (sample_task b)" "ts_state s = ts_state (sample_task b)"
    "ts_builder s = ts_builder (sample_task b)" "ts_nativeCounter s = ts_nativeCounter (sample_task b)"
    using served_pass_returns [OF sample_scope_serves sample_placed(2) sample_showing [OF _ assms], of ScopeReset]
    by (auto simp: ScopeReset_def scoped_access_def)
  then show ?thesis
    by (auto simp: ReadSelectedTask_def ReadTask_def with_scope_def) (simp_all add: sample_task_def snapshot_of_def)
qed

section \<open>Calls that succeed\<close>

definition sample_original :: nat where "sample_original = 66304"
definition sample_wrapper :: nat where "sample_wrapper = 0x7FF00000"

definition sample_binding :: TaskBinding where
  "sample_binding = snd (fst (run_state (InitializeTaskBinding sample_original sample_wrapper) ((), 0)))"

definition sample_epoch :: TaskEpoch where
  "sample_epoch = \<lparr>te_source = 1, te_binding = 1\<rparr>"

lemma sample_store: "store8 69696 b (sample_pool a) = sample_pool b"
  by (simp add: sample_pool_def store8_store8)

lemma sample_guards:
  "run_state (EntryReason sample_access) (sample_engine c, e) = (R_None, (sample_engine c, e))"
  "run_state (Owner sample_access) (sample_engine c, e) = (True, (sample_engine c, e))"
  "run_state (Admit sample_access) (sample_engine c, e) = (True, (sample_engine c, e))"
  by (simp_all add: EntryReason_def Owner_def Admit_def ask_def sample_asks bind_def)

lemma sample_swap:
  "run_state (exchange sample_access 69696 a b) (sample_engine (sample_pool a), e) =
    ((True, a), (sample_engine (sample_pool b), 0))" if "a \<le> u64_max"
  using that by (simp add: sample_exchange sample_fields sample_store)

lemma sample_writable: "run_state (DataRange sample_access 69696 8 i wr) (sample_engine c, e) = (True, (sample_engine c, 0))"
  by (rule servesD(4) [OF sample_serves]) simp_all

lemma sample_cell: "ti_slot identity = 0 \<Longrightarrow> builder_cell sample_access sample_layout identity = Some 69696"
  using slot_in [OF sample_placed(1), of 0]
  by (simp add: builder_cell_def sample_slot kTaskSlots_def kBuilderOffset_def)

lemma sample_matches: "OriginalMatches b sample_access sample_layout \<longleftrightarrow>
    tb_original b = sample_original \<and> tb_wrapper b \<noteq> 0 \<and> tb_wrapper b \<noteq> tb_original b"
  by (auto simp: OriginalMatches_def Address_def sample_rvas engine_access_def sample_original_def)

lemma sample_installs:
  "\<exists>b s e'. run_state (InstallTaskBinding sample_binding sample_access sample_layout sample_epoch)
      (sample_engine (sample_pool sample_original), e) = ((R_None, b, Some s), (sample_engine (sample_pool sample_wrapper), e'))"
proof -
  obtain before where before: "run_state (ReadSelectedTask sample_access sample_layout True)
      (sample_engine (sample_pool sample_original), e) = (Inr before, (sample_engine (sample_pool sample_original), e))"
    "ts_identity before = ts_identity (sample_task sample_original)" "ts_state before = 2"
    "ts_builder before = sample_original" "ts_nativeCounter before = 9"
    using sample_read_selected [of sample_original e] by (auto simp: sample_original_def)
  obtain after where after: "run_state (ReadSelectedTask sample_access sample_layout True)
      (sample_engine (sample_pool sample_wrapper), 0) = (Inr after, (sample_engine (sample_pool sample_wrapper), 0))"
    "ts_identity after = ts_identity (sample_task sample_wrapper)" "ts_state after = 2"
    "ts_builder after = sample_wrapper" "ts_nativeCounter after = 9"
    using sample_read_selected [of sample_wrapper 0] by (auto simp: sample_wrapper_def)
  have ids: "ts_identity (sample_task a) = \<lparr>ti_slot = 0, ti_id = 7, ti_holder = 43 * 2 ^ 16, ti_component = 66816,
      ti_metadata = 66560\<rparr>" for a
    by (simp add: sample_task_def snapshot_of_def)
  have valid: "LayoutValid sample_access sample_layout" using sample_placed(1) by (simp add: placed_def)
  have cas: "ta_compareExchange sample_access \<noteq> None" by (simp add: engine_access_def)
  have b: "tb_phase sample_binding = Phase_Empty" "tb_original sample_binding = sample_original"
    "tb_wrapper sample_binding = sample_wrapper" "tb_haveHistory sample_binding = False"
    "tb_haveCounter sample_binding = False" "te_source (tb_epoch sample_binding) = 0" "te_binding (tb_epoch sample_binding) = 0"
    by (simp_all add: sample_binding_def InitializeTaskBinding_def set_error_def bind_def Let_def sample_original_def
        sample_wrapper_def)
  have "sample_wrapper \<noteq> 0" "sample_wrapper \<noteq> sample_original" "sample_original \<le> u64_max"
    by (simp_all add: sample_wrapper_def sample_original_def)
  then show ?thesis
    by (simp add: InstallTaskBinding_def runs sample_guards b valid sample_matches cas before after sample_epoch_def
        install_selected_def Queued_def History_def Counter_def sample_cell ids sample_writable install_exchange_def
        sample_swap publish_binding_def SameSnapshot_def)
qed

definition sample_armed :: TaskBinding where
  "sample_armed = sample_binding\<lparr>tb_phase := Phase_Armed, tb_epoch := sample_epoch,
     tb_identity := ts_identity (sample_task sample_wrapper), tb_lastIdentity := ts_identity (sample_task sample_wrapper),
     tb_lastNativeCounter := 9, tb_lastBoundId := 7, tb_haveCounter := True, tb_haveHistory := True,
     tb_haveIdentity := True\<rparr>"

lemma sample_retires:
  "\<exists>b e'. run_state (RetireTaskBinding sample_armed sample_access sample_layout R_None)
      (sample_engine (sample_pool sample_wrapper), e) = ((R_None, b), (sample_engine (sample_pool sample_original), e'))"
proof -
  have slot: "slot_task (sample_pool a) 65536 sample_layout 0 = snapshot_of 0 2 7 66816 (43 * 2 ^ 16) a 66560"
    if "a \<le> u64_max" for a
    using that by (simp add: slot_task_def Let_def sample_slot sample_fields sample_rvas)
  have read: "run_state (SlotRead sample_access sample_layout 0) (sample_engine (sample_pool a), e) =
      (Some (snapshot_of 0 2 7 66816 (43 * 2 ^ 16) a 66560), (sample_engine (sample_pool a), 0))" if "a \<le> u64_max" for a e
    using run_SlotRead [OF sample_serves sample_placed(1), of "sample_engine (sample_pool a)" "sample_pool a" 0 e] slot [OF that]
    by (simp add: kTaskSlots_def)
  have cas: "ta_compareExchange sample_access \<noteq> None" by (simp add: engine_access_def)
  have b: "tb_phase sample_armed = Phase_Armed" "tb_original sample_armed = sample_original"
    "tb_wrapper sample_armed = sample_wrapper" "tb_haveIdentity sample_armed"
    "tb_identity sample_armed = \<lparr>ti_slot = 0, ti_id = 7, ti_holder = 43 * 2 ^ 16, ti_component = 66816, ti_metadata = 66560\<rparr>"
    by (simp_all add: sample_armed_def sample_binding_def InitializeTaskBinding_def set_error_def bind_def Let_def
        sample_original_def sample_wrapper_def sample_task_def snapshot_of_def)
  have n: "sample_wrapper \<noteq> 0" "sample_wrapper \<noteq> sample_original" "sample_original \<noteq> sample_wrapper"
    "sample_original \<le> u64_max" "sample_wrapper \<le> u64_max"
    by (simp_all add: sample_wrapper_def sample_original_def)
  show ?thesis
    using n by (simp add: RetireTaskBinding_def retire_bound_def retire_exchange_def runs sample_guards b sample_matches cas read
        snapshot_of_def Queued_def sample_cell sample_writable sample_swap get_error_def Let_def)
qed

section \<open>What the calls leave in the process\<close>

text \<open>
  C2: An installation changes at most one builder cell.  Whatever the calls answer, either it
  gives a snapshot, and then the binding is armed, its wrapper stands where the original stood
  in the cell of the one task in use with the selected number, and the process shows that
  task; or it gives none, and then nothing was touched and the phase is as it was, or the
  binding is inert, the cell is as it was or had the two pointers exchanged, and a wrapper
  that is still in it is flagged as stranded.
\<close>

theorem install_swaps_one_cell:
  assumes "behaves w"
    and "run_state (InstallTaskBinding b (engine_access base imageSize) layout epoch) (w, e) = (r, (w', e'))"
  shows "behaves w' \<and> engine_pages w' = engine_pages w \<and>
    install_leaves base layout b (engine_bytes w) r (engine_bytes w')"
  using tripleD [OF engine.effect_InstallTaskBinding assms(1) refl assms(2)] by (simp add: engine.observed_def)

theorem install_swaps_one_cell_witness:
  "\<exists>b s e'. run_state (InstallTaskBinding sample_binding sample_access sample_layout sample_epoch)
      (sample_engine (sample_pool sample_original), 0) = ((R_None, b, Some s), (sample_engine (sample_pool sample_wrapper), e')) \<and>
    install_leaves 65536 sample_layout sample_binding (engine_bytes (sample_engine (sample_pool sample_original)))
      (R_None, b, Some s) (engine_bytes (sample_engine (sample_pool sample_wrapper)))"
  using sample_installs [of 0] install_swaps_one_cell [OF sample_behaves] by metis

text \<open>
  C3: A retirement that gives up its slot leaves the builder cell without the wrapper: it put
  the original back, or found the cell another's and touched nothing; a deferred or refused
  one touches nothing, and a failed one leaves what a fault may leave, a wrapper still in
  the cell flagged as stranded.
\<close>

theorem retirement_leaves_no_wrapper:
  assumes "behaves w"
    and "run_state (RetireTaskBinding b (engine_access base imageSize) layout fault) (w, e) = (r, (w', e'))"
  shows "behaves w' \<and> engine_pages w' = engine_pages w \<and>
    retire_leaves base layout b (engine_bytes w) r (engine_bytes w')"
  using tripleD [OF engine.effect_RetireTaskBinding assms(1) refl assms(2)] by (simp add: engine.observed_def)

theorem retirement_leaves_no_wrapper_witness:
  "\<exists>b e'. run_state (RetireTaskBinding sample_armed sample_access sample_layout R_None)
      (sample_engine (sample_pool sample_wrapper), 0) = ((R_None, b), (sample_engine (sample_pool sample_original), e')) \<and>
    retire_leaves 65536 sample_layout sample_armed (engine_bytes (sample_engine (sample_pool sample_wrapper)))
      (R_None, b) (engine_bytes (sample_engine (sample_pool sample_original)))"
  using sample_retires [of 0] retirement_leaves_no_wrapper [OF sample_behaves] by metis

text \<open>
  A validation that gives a snapshot touched nothing and shows a bindable task the
  globals select; one that gives none touched nothing or left what a fault may leave.
\<close>

lemma validation_is_a_read:
  assumes "behaves w"
    and "run_state (ValidateBuilderTask b (engine_access base imageSize) layout epoch holder output) (w, e) =
      (r, (w', e'))"
  shows "behaves w' \<and> engine_pages w' = engine_pages w \<and>
    visit_leaves base layout (engine_bytes w) r (engine_bytes w')"
  using tripleD [OF engine.effect_ValidateBuilderTask assms(1) refl assms(2)] by (simp add: engine.observed_def)

end
