(* ===== verification/Spec2Isabelle.thy ===== *)
theory Spec2Isabelle
  imports Prelude Types Digest Producer Framing CallbackTiming ConfigFile Paths Memory Startup Recon HostHash Wire StatusWire StatusV3 SnapshotV3 RecoveryWire Records Ring Receipts FormatV3 Pipeline PipelineService PreparedJson ControlText ControlState Task TaskState TaskMemory TaskSwap TaskProcess TaskSample
begin

text \<open>
  Verification library of RS2ServerFix, a companion DLL for the Windows 64-bit server of
  Rising Storm 2: Vietnam (sources under \<open>src/\<close> of the repository).

  The program.  A bootstrap DLL calls the companion once, while the executable's C runtime
  starts.  The companion checks that this is that one call of that one executable (the startup
  gate), hashes the executable's file under a lease that keeps it identified, and then corrects
  one instruction operand of the mapped image, or refuses, or rolls back.  An optional part
  watches the server's Steam reporting: the owner thread keeps a producer state machine and
  publishes status words and records through lock-free shared memory; a writer thread drains
  the record ring into the engine's log; a receipt scanner reads that log back; other processes
  read the status words.  A manual recovery feature publishes its own status and measures the
  time its callbacks cost.

  The theories, in the order of the imports, and the code they model.

  \<^item> Prelude: machine bounds, byte strings, little-endian fields, slices, monadic conjunction
    (\<open>allM\<close>), and the interface \<open>enum_names\<close> of enumerations with pairwise different names.
  \<^item> Types (\<open>companion/steam_reporting_types.*\<close>): modes, reasons, identities and their names.
  \<^item> Digest (\<open>shared/digest.*\<close>): the hexadecimal text of a SHA-256 digest; round trips.
  \<^item> Producer (\<open>companion/steam_reporting_state.*\<close>): the owner's state machine over samples and
    staged requests; its invariant, the floor between requests, when a tuple is fresh.
  \<^item> Framing (\<open>shared/native_log_framing.*\<close>): how one event becomes one line of the engine's log
    and is recognised again; escaping, prefixes, which run a line belongs to.
  \<^item> CallbackTiming (\<open>companion/leech_recovery_policy.*\<close>): callback classes and the accounting
    of the time a callback spends in the companion's own code.
  \<^item> ConfigFile (\<open>companion/steam_reporting_config.*\<close>): the parser of the configuration file
    against a specification over its lines; failing closed.
  \<^item> Paths (\<open>shared/path_identity.*\<close>): bounded wide strings, joining and splitting a path.
  \<^item> Memory, Startup (\<open>shared/startup_profile.*\<close>, \<open>shared/production_startup.h\<close>,
    \<open>shared/bootstrap_abi.h\<close>): bounded reads of a mapped image through caller-supplied
    operations, headers and sections, and the startup gate.  Programs are state transformers on
    a world and an error cell; \<open>steady\<close> programs keep what is observed of the image.
  \<^item> Recon (\<open>companion/recon_fix.*\<close>, \<open>recon_types.*\<close>, \<open>recon_profile.h\<close>): qualification,
    correction, readback, recovery and rollback.  \<open>triple\<close> (of Memory) extends \<open>steady\<close> to programs
    that write the process; a machine whose system calls may do anything to the bytes is the
    interpretation of its interface.
  \<^item> HostHash (\<open>companion/sha256.*\<close>, \<open>companion/host_hash.*\<close>): the digest of the host file, its
    time budget, and the lease.  The read loop is a partial function, proved to end.
  \<^item> Wire (\<open>companion/steam_reporting_status_v3.cpp\<close>, word copies): 64-bit words changed by
    atomic operations, histories of a writer, and the interface of a sequence lock: whatever a
    reader sees between two equal even sequence numbers is one publication.
  \<^item> StatusWire, StatusV3 (\<open>shared/steam_reporting_status*.h\<close>, \<open>companion/steam_reporting_status*.cpp\<close>):
    the status structures of both versions, their codecs, publication, the sticky gates, and
    the duration histogram.
  \<^item> SnapshotV3 (\<open>shared/steam_reporting_snapshot_v3.*\<close>): the bounded reader of another process.
  \<^item> RecoveryWire (\<open>shared/leech_recovery_status.h\<close>, \<open>shared/leech_recovery_snapshot.cpp\<close>,
    \<open>companion/leech_recovery_wire.*\<close>): the recovery status, its validity and its reader.
  \<^item> Records, Ring (\<open>companion/steam_reporting_records*.{h,cpp}\<close>): the payloads of a record, the
    canonical copy that lets no reserved word through, and the ring between owner and writer,
    with both ends interleaved at the granularity of their shared accesses.
  \<^item> Receipts (\<open>companion/steam_reporting_receipts.*\<close>): the scanner that reads the log back.
  \<^item> FormatV3 (\<open>companion/steam_reporting_format_v3.*\<close>): the text of a record and of the
    bootstrap, built by bounded appends; the derivation of a wall-clock time by 128-bit
    arithmetic; every formatted text is an event of its run and fits its buffer.
  \<^item> Pipeline (\<open>companion/steam_reporting_pipeline.*\<close>): the ledger and the ready queue between
    the record ring, the formatter, the owner and the receipt scanner.  A run interleaves the
    worker's turns, the owner's calls and the lines of the log; it is a queue of texts, and
    composes with Receipts: the frame that is written is the one read back.
  \<^item> PipelineService: whole cycles of the worker's complete call, a submission, a line read and an
    acknowledgement.  From every state of a run each cycle observes exactly one more text, until
    every record, taken or still in the ring, is observed: nothing stays stuck.
  \<^item> PreparedJson (\<open>companion/steam_reporting_json.*\<close>): the reader of the prepared document, an
    explicit stack machine over untrusted text; typing of its states and termination.
  \<^item> ControlText (\<open>companion/leech_recovery_control.*\<close>, the parsers): the permission file, the
    request of a pipe client and the console command that may start a recovery.
  \<^item> ControlState (the same files): the check of a security descriptor, the pipe's worker, and
    the latch that pipe, console and owner compete for, as a step relation over interleavings.
  \<^item> Task (\<open>companion/steam_reporting_task.*\<close>, \<open>steam_reporting_read_scope.h\<close>): the binding of
    the engine's heartbeat task, that is the scan and qualification of the selected slot of the
    task pool, and the installation, validation, inverse and retirement of the one pointer the
    companion swaps.  TaskState: the invariant of the binding and the order of its lifetimes
    over any sequence of calls.  TaskMemory: what the reads say of an image that is observed
    truthfully (\<open>access_reader\<close>).  TaskSwap: what the calls that exchange leave behind, proved
    from the contract of an exchange (\<open>task_provider\<close>), also through the region cache of a read
    pass.  TaskProcess: the exchange of \<open>companion/steam_reporting_runtime.cpp\<close> and the
    interpretation on a process.  TaskSample: a concrete pool on which an installation and a
    retirement succeed, and the properties of the calls.

  Conventions.  Unsigned quantities are \<open>nat\<close> with the code's own overflow tests, or words
  where the code masks; signed 64-bit ticks are \<open>int\<close>.  A null pointer is \<open>None\<close> or a false flag.
  A structure of the wire is a record with a codec to its words.  System calls, callbacks and
  the platform's digest are arguments; what is relied on of them is a locale, interpreted on a
  concrete operating system whose calls may fail at any point.  Atomic accesses are
  sequentially consistent, as the interlocked operations the code uses.

  Bounds.  No definition runs on fuel: loops recurse on their data or on a bound the code has
  (three attempts of a reader, five limits of a histogram, 32 records of a batch, 16 regions
  of a range, 128 slots of the pool), or on a
  measure (what is left of a text, the records still to format), or are partial functions with
  a proof that they return (the hash loop, the loop of the JSON reader).

  Not modelled: the observer of Steam calls and its log (\<open>steam_observer*.cpp\<close>), the recovery
  operation on the game's objects (\<open>leech_recovery.cpp\<close>, \<open>_native\<close>, \<open>_console\<close>) and the
  initialization of its control, the runtime that wires the reporting threads
  (\<open>steam_reporting_runtime.cpp\<close> but for its exchange, \<open>_worker\<close>) and the native probes other
  than the task binding, the marker and console
  output, the bootstrap loader, and the read-only tools: they are calls into the operating
  system, the game's native layout or the Steam SDK for the most part.
\<close>

end
